(* ===== verification/Prelude.thy ===== *)
theory Prelude
  imports Main "HOL-Library.AList" "HOL-Library.Word" "HOL-Library.Multiset"
begin

text \<open>
  The shared vocabulary of the development: the machine integers of the code as words, the
  standard collections (\<open>HashMap\<close>, \<open>VecDeque\<close>, \<open>BTreeSet\<close>) as lists and association lists, the
  string operations of the standard library, and two interfaces that several components share,
  stated as locales: a finite map (interpreted on the association lists that model \<open>HashMap\<close>)
  and a transition system with an invariant (interpreted by each component that is a state
  machine).

  A \<open>String\<close> is an Isabelle \<open>string\<close>; one Isabelle character stands for one Unicode scalar value
  below U+0100, so \<open>char::is_whitespace\<close> is the Unicode White\_Space property on that range.
  A \<open>HashMap\<close> is an association list with distinct keys. Its iteration order is not defined by
  the language, so every operation that iterates takes the order as an argument \<open>ord\<close>, a function
  that permutes the list of keys; theorems hold for every such function (\<open>valid_order\<close>).
\<close>

section \<open>Types and collections\<close>

type_synonym u32 = "32 word"
type_synonym u64 = "64 word"
type_synonym usize = "64 word"
type_synonym ('k, 'v) hmap = "('k \<times> 'v) list"
type_synonym 'k iter_order = "'k list \<Rightarrow> 'k list"

named_theorems hm_simps "equations of the HashMap model"
named_theorems str_simps "equations of the string operations"

abbreviation hm_get :: "('k, 'v) hmap \<Rightarrow> 'k \<Rightarrow> 'v option" where
  "hm_get m k \<equiv> map_of m k"

definition hm_insert :: "'k \<Rightarrow> 'v \<Rightarrow> ('k, 'v) hmap \<Rightarrow> ('k, 'v) hmap" where
  "hm_insert k v m = AList.update k v m"

definition hm_remove :: "'k \<Rightarrow> ('k, 'v) hmap \<Rightarrow> ('k, 'v) hmap" where
  "hm_remove k m = AList.delete k m"

definition hm_contains :: "('k, 'v) hmap \<Rightarrow> 'k \<Rightarrow> bool" where
  "hm_contains m k = (case map_of m k of None \<Rightarrow> False | Some _ \<Rightarrow> True)"

definition hm_modify :: "'k \<Rightarrow> ('v \<Rightarrow> 'v) \<Rightarrow> ('k, 'v) hmap \<Rightarrow> ('k, 'v) hmap" where
  "hm_modify k f m = (case map_of m k of None \<Rightarrow> m | Some v \<Rightarrow> AList.update k (f v) m)"

definition hm_wf :: "('k, 'v) hmap \<Rightarrow> bool" where
  "hm_wf m = distinct (map fst m)"

definition hm_keys :: "'k iter_order \<Rightarrow> ('k, 'v) hmap \<Rightarrow> 'k list" where
  "hm_keys ord m = ord (map fst m)"

definition hm_values :: "'k iter_order \<Rightarrow> ('k, 'v) hmap \<Rightarrow> 'v list" where
  "hm_values ord m = map (\<lambda>k. the (map_of m k)) (ord (map fst m))"

definition hm_map :: "('v \<Rightarrow> 'w) \<Rightarrow> ('k, 'v) hmap \<Rightarrow> ('k, 'w) hmap" where
  "hm_map f m = map (\<lambda>(k, v). (k, f v)) m"

definition hm_retain :: "('v \<Rightarrow> bool) \<Rightarrow> ('k, 'v) hmap \<Rightarrow> ('k, 'v) hmap" where
  "hm_retain P m = filter (\<lambda>(k, v). P v) m"

text \<open>\<open>Iterator::min_by_key\<close>: the first of the least elements.\<close>

fun first_min :: "('a \<Rightarrow> 'b::linorder) \<Rightarrow> 'a list \<Rightarrow> 'a option" where
  "first_min f [] = None"
| "first_min f (x # xs) = Some (fold (\<lambda>b a. if f b < f a then b else a) xs x)"

definition valid_order :: "'k iter_order \<Rightarrow> bool" where
  "valid_order ord \<longleftrightarrow> (\<forall>xs. mset (ord xs) = mset xs)"

section \<open>Strings\<close>

definition is_whitespace :: "char \<Rightarrow> bool" where
  "is_whitespace c =
     (let n = (of_char c :: nat) in (9 \<le> n \<and> n \<le> 13) \<or> n = 32 \<or> n = 133 \<or> n = 160)"

definition trim_start :: "string \<Rightarrow> string" where
  "trim_start s = dropWhile is_whitespace s"

definition trim_end :: "string \<Rightarrow> string" where
  "trim_end s = rev (dropWhile is_whitespace (rev s))"

definition trim :: "string \<Rightarrow> string" where
  "trim s = trim_end (trim_start s)"

fun split_on :: "char \<Rightarrow> string \<Rightarrow> string list" where
  "split_on c [] = [[]]"
| "split_on c (x # xs) =
     (if x = c then [] # split_on c xs
      else (case split_on c xs of [] \<Rightarrow> [[x]] | p # ps \<Rightarrow> (x # p) # ps))"

fun join_with :: "char \<Rightarrow> string list \<Rightarrow> string" where
  "join_with c [] = []"
| "join_with c [p] = p"
| "join_with c (p # q # ps) = p @ c # join_with c (q # ps)"

definition to_ascii_lowercase_char :: "char \<Rightarrow> char" where
  "to_ascii_lowercase_char c =
     (let n = (of_char c :: nat) in if 65 \<le> n \<and> n \<le> 90 then char_of (n + 32) else c)"

definition to_ascii_lowercase :: "string \<Rightarrow> string" where
  "to_ascii_lowercase s = map to_ascii_lowercase_char s"

fun show_nat :: "nat \<Rightarrow> string" where
  "show_nat n =
     (if n < 10 then [char_of (48 + n)] else show_nat (n div 10) @ [char_of (48 + n mod 10)])"

declare show_nat.simps [simp del]

abbreviation show_word :: "'a::len word \<Rightarrow> string" where
  "show_word w \<equiv> show_nat (unat w)"

text \<open>A \<open>serde_json::Value\<close>; only integral numbers are represented.\<close>

datatype json =
    JNull
  | JBool bool
  | JNumber int
  | JString string
  | JArray "json list"
  | JObject "(string \<times> json) list"

section \<open>Facts about the collections\<close>

lemma hm_get_insert [hm_simps, simp]:
  "map_of (hm_insert k v m) = (map_of m)(k \<mapsto> v)"
  by (simp add: hm_insert_def update_conv')

lemma hm_get_remove [hm_simps, simp]:
  "map_of (hm_remove k m) = (map_of m)(k := None)"
  by (simp add: hm_remove_def delete_conv')

lemma hm_get_modify [hm_simps, simp]:
  "map_of (hm_modify k f m) = (map_of m)(k := map_option f (map_of m k))"
  by (auto simp: hm_modify_def update_conv' fun_eq_iff split: option.splits)

lemma hm_contains_iff [hm_simps, simp]: "hm_contains m k \<longleftrightarrow> k \<in> dom (map_of m)"
  by (auto simp: hm_contains_def split: option.splits)

lemma hm_wf_Nil [simp]: "hm_wf []"
  by (simp add: hm_wf_def)

lemma hm_wf_insert [simp]: "hm_wf m \<Longrightarrow> hm_wf (hm_insert k v m)"
  by (simp add: hm_wf_def hm_insert_def distinct_update)

lemma hm_wf_remove [simp]: "hm_wf m \<Longrightarrow> hm_wf (hm_remove k m)"
  by (simp add: hm_wf_def hm_remove_def distinct_delete)

lemma hm_wf_modify [simp]: "hm_wf m \<Longrightarrow> hm_wf (hm_modify k f m)"
  by (auto simp: hm_wf_def hm_modify_def distinct_update split: option.splits)

lemma valid_order_set [simp]: "valid_order ord \<Longrightarrow> set (ord xs) = set xs"
  unfolding valid_order_def by (metis set_mset_mset)

lemma valid_order_length [simp]: "valid_order ord \<Longrightarrow> length (ord xs) = length xs"
  unfolding valid_order_def by (metis size_mset)

lemma valid_order_distinct [simp]: "valid_order ord \<Longrightarrow> distinct (ord xs) = distinct xs"
  unfolding valid_order_def by (metis mset_eq_imp_distinct_iff)

lemma valid_order_id [simp]: "valid_order (\<lambda>xs. xs)"
  by (simp add: valid_order_def)

lemma valid_order_rev [simp]: "valid_order rev"
  by (simp add: valid_order_def)

lemma set_hm_keys [hm_simps, simp]: "valid_order ord \<Longrightarrow> set (hm_keys ord m) = dom (map_of m)"
  by (simp add: hm_keys_def dom_map_of_conv_image_fst)

lemma set_hm_values [hm_simps, simp]: "valid_order ord \<Longrightarrow> set (hm_values ord m) = ran (map_of m)"
  by (force simp: hm_values_def ran_def dom_map_of_conv_image_fst[symmetric] image_iff)

lemma hm_len: "hm_wf m \<Longrightarrow> length m = card (dom (map_of m))"
  by (simp add: hm_wf_def dom_map_of_conv_image_fst distinct_card flip: set_map)

lemma length_hm_insert: "length m \<le> length (hm_insert k v m)"
  unfolding hm_insert_def by (induction m) auto

lemma length_hm_modify [simp]: "length (hm_modify k f m) = length m"
proof -
  have "map_of m k = Some v \<Longrightarrow> length (AList.update k w m) = length m" for v w
    by (induction m) (auto split: if_splits)
  then show ?thesis by (auto simp: hm_modify_def split: option.splits)
qed

lemma map_of_map_value: "map_of (map (\<lambda>(k, v). (k, f v)) m) k = map_option f (map_of m k)"
  by (induction m) auto

lemma length_hm_insert_le: "length (hm_insert k v m) \<le> Suc (length m)"
  unfolding hm_insert_def by (induction m) auto

lemma length_hm_remove: "length (hm_remove k m) \<le> length m"
  by (simp add: hm_remove_def length_delete_le)

lemma hm_get_map [hm_simps, simp]: "map_of (hm_map f m) k = map_option f (map_of m k)"
  by (simp add: hm_map_def map_of_map_value)

lemma hm_wf_map [simp]: "hm_wf (hm_map f m) = hm_wf m"
  by (simp add: hm_wf_def hm_map_def comp_def case_prod_unfold)

lemma length_hm_map [simp]: "length (hm_map f m) = length m"
  by (simp add: hm_map_def)

lemma hm_get_retain [hm_simps]:
  "hm_wf m \<Longrightarrow> map_of (hm_retain P m) k = (case map_of m k of None \<Rightarrow> None | Some v \<Rightarrow> if P v then Some v else None)"
  unfolding hm_retain_def hm_wf_def by (induction m) (auto split: option.splits simp: rev_image_eqI dest: map_of_SomeD)

lemma hm_wf_retain [simp]: "hm_wf m \<Longrightarrow> hm_wf (hm_retain P m)"
  by (simp add: hm_wf_def hm_retain_def distinct_map_filter)

lemma first_min_None [simp]: "first_min f xs = None \<longleftrightarrow> xs = []"
  by (cases xs) auto

lemma first_min_in: "first_min f xs = Some x \<Longrightarrow> x \<in> set xs \<and> (\<forall>y \<in> set xs. f x \<le> f y)"
proof -
  have "fold (\<lambda>b a. if f b < f a then b else a) ys a \<in> set (a # ys) \<and>
      (\<forall>y \<in> set (a # ys). f (fold (\<lambda>b a. if f b < f a then b else a) ys a) \<le> f y)" for ys a
  proof (induction ys arbitrary: a)
    case (Cons b ys)
    show ?case using Cons[of "if f b < f a then b else a"] by (auto split: if_splits)
  qed simp
  then show "first_min f xs = Some x \<Longrightarrow> ?thesis" by (cases xs) auto
qed

section \<open>Facts about strings\<close>

lemma split_on_nonempty [simp]: "split_on c s \<noteq> []"
  by (induction s) (auto split: list.splits)

lemma split_on_no_sep: "c \<notin> set s \<Longrightarrow> split_on c s = [s]"
  by (induction s) auto

lemma split_on_append_sep:
  "c \<notin> set p \<Longrightarrow> split_on c (p @ c # s) = p # split_on c s"
  by (induction p) auto

lemma split_on_join [str_simps]:
  "ps \<noteq> [] \<Longrightarrow> \<forall>p \<in> set ps. c \<notin> set p \<Longrightarrow> split_on c (join_with c ps) = ps"
  by (induction c ps rule: join_with.induct) (auto simp: split_on_no_sep split_on_append_sep)

lemma split_on_pieces: "p \<in> set (split_on c s) \<Longrightarrow> c \<notin> set p"
  by (induction s arbitrary: p) (auto split: list.splits if_splits)

lemma join_with_eq_Nil_iff:
  "\<forall>p \<in> set ps. p \<noteq> [] \<Longrightarrow> join_with c ps = [] \<longleftrightarrow> ps = []"
  by (cases "(c, ps)" rule: join_with.cases) auto

lemma hd_join_with: "ps \<noteq> [] \<Longrightarrow> hd ps \<noteq> [] \<Longrightarrow> hd (join_with c ps) = hd (hd ps)"
  by (cases "(c, ps)" rule: join_with.cases) auto

lemma last_join_with:
  "ps \<noteq> [] \<Longrightarrow> last ps \<noteq> [] \<Longrightarrow> last (join_with c ps) = last (last ps)"
proof (induction c ps rule: join_with.induct)
  case (3 c p q ps)
  then have "join_with c (q # ps) \<noteq> []"
    by (cases ps) auto
  with 3 show ?case by simp
qed auto

lemma trim_id:
  assumes "s \<noteq> [] \<longrightarrow> \<not> is_whitespace (hd s) \<and> \<not> is_whitespace (last s)"
  shows "trim s = s"
proof (cases s)
  case (Cons x xs)
  have "dropWhile is_whitespace s = s"
    using assms Cons by auto
  moreover have "dropWhile is_whitespace (rev s) = rev s"
    using assms Cons by (metis dropWhile_eq_self_iff hd_rev list.distinct(1))
  ultimately show ?thesis
    by (simp add: trim_def trim_start_def trim_end_def)
qed (simp add: trim_def trim_start_def trim_end_def)

section \<open>Interface: a finite map\<close>

text \<open>
  What the code relies on when it stores state in a \<open>HashMap\<close>: what a lookup returns after an
  insertion or a removal, and that both keep the map well formed.
\<close>

locale finite_map =
  fixes empty :: 'm
    and lookup :: "'m \<Rightarrow> 'k \<Rightarrow> 'v option"
    and insert :: "'k \<Rightarrow> 'v \<Rightarrow> 'm \<Rightarrow> 'm"
    and remove :: "'k \<Rightarrow> 'm \<Rightarrow> 'm"
    and wf :: "'m \<Rightarrow> bool"
  assumes lookup_empty: "lookup empty = Map.empty"
    and lookup_insert: "wf m \<Longrightarrow> lookup (insert k v m) = (lookup m)(k \<mapsto> v)"
    and lookup_remove: "wf m \<Longrightarrow> lookup (remove k m) = (lookup m)(k := None)"
    and wf_empty: "wf empty"
    and wf_insert: "wf m \<Longrightarrow> wf (insert k v m)"
    and wf_remove: "wf m \<Longrightarrow> wf (remove k m)"
    and finite_lookup: "wf m \<Longrightarrow> finite (dom (lookup m))"
begin

lemma wf_remove_all: "wf m \<Longrightarrow> wf (fold remove ks m)"
  by (induction ks arbitrary: m) (auto intro: wf_remove)

lemma lookup_remove_all:
  "wf m \<Longrightarrow> lookup (fold remove ks m) = (\<lambda>k. if k \<in> set ks then None else lookup m k)"
  by (induction ks arbitrary: m) (auto simp: lookup_remove wf_remove fun_eq_iff)

end

interpretation hm: finite_map "[]" map_of hm_insert hm_remove hm_wf
  by unfold_locales (auto simp: finite_dom_map_of)

section \<open>Interface: a transition system with an invariant\<close>

text \<open>
  A component that is a state machine provides its steps and an invariant that one step keeps;
  every state a run reaches from a state with the invariant then has it.
\<close>

locale invariant_system =
  fixes step :: "'s \<Rightarrow> 's \<Rightarrow> bool"
    and inv :: "'s \<Rightarrow> bool"
  assumes step_inv: "inv s \<Longrightarrow> step s t \<Longrightarrow> inv t"
begin

lemma run_inv:
  assumes "step\<^sup>*\<^sup>* s t" and "inv s"
  shows "inv t"
  using assms by (induction rule: rtranclp_induct) (auto intro: step_inv)

end

end
