(* ===== verification/AgentPath.thy ===== *)
theory AgentPath
  imports Prelude
begin

text \<open>
  Hierarchical agent addresses, \<open>src/agents/communication/path.rs\<close>: the path type with its parser
  and printer, parent and child, and the single-level wildcard pattern. The lemmas give the exact
  meaning of pattern matching, the round trips between the parser and the printer, and the laws of
  \<open>parent\<close>, \<open>child\<close> and \<open>depth\<close> that the agent tree rests on.
\<close>

section \<open>Definitions\<close>

record agent_path =
  segments :: "string list"

record agent_path_pattern =
  pat_prefix :: "string list"
  pat_suffix :: "string list"

datatype path_error =
    PathEmpty
  | PathNoSegments
  | PatternWithoutStar

definition path_of :: "string list \<Rightarrow> agent_path" where
  "path_of ss = \<lparr>segments = ss\<rparr>"

definition parse :: "string \<Rightarrow> path_error + agent_path" where
  "parse path =
     (let trimmed = trim path in
      if trimmed = [] then Inl PathEmpty
      else if trimmed = ''.'' then Inr (path_of [])
      else if trimmed = ''..'' then Inr (path_of [''..''])
      else
        (let segs = filter (\<lambda>s. s \<noteq> []) (split_on (CHR ''/'') trimmed) in
         if segs = [] then Inl PathNoSegments else Inr (path_of segs)))"

definition parent :: "agent_path \<Rightarrow> agent_path option" where
  "parent p =
     (if segments p = [] \<or> length (segments p) = 1 then None
      else Some (path_of (take (length (segments p) - 1) (segments p))))"

definition child :: "agent_path \<Rightarrow> string \<Rightarrow> agent_path" where
  "child p name = path_of (segments p @ [name])"

definition depth :: "agent_path \<Rightarrow> nat" where
  "depth p = length (segments p)"

definition is_root :: "agent_path \<Rightarrow> bool" where
  "is_root p = (segments p = [])"

text \<open>The two checking loops of \<open>matches_simple\<close>: every segment of the pattern part must be
  present at its index, counted from \<open>start\<close>.\<close>

fun check_from :: "string list \<Rightarrow> nat \<Rightarrow> string list \<Rightarrow> bool" where
  "check_from segs start [] = True"
| "check_from segs start (seg # rest) =
     (if start \<ge> length segs \<or> segs ! start \<noteq> seg then False
      else check_from segs (Suc start) rest)"

definition matches_simple :: "agent_path \<Rightarrow> agent_path_pattern \<Rightarrow> bool" where
  "matches_simple p pat =
     (if pat_prefix pat = [] \<and> pat_suffix pat = [] then length (segments p) = 1
      else if length (segments p) \<noteq> length (pat_prefix pat) + 1 + length (pat_suffix pat) then False
      else if \<not> check_from (segments p) 0 (pat_prefix pat) then False
      else check_from (segments p) (length (pat_prefix pat) + 1) (pat_suffix pat))"

definition to_path_string :: "agent_path \<Rightarrow> string" where
  "to_path_string p = (if segments p = [] then ''.'' else join_with (CHR ''/'') (segments p))"

fun position :: "('a \<Rightarrow> bool) \<Rightarrow> 'a list \<Rightarrow> nat option" where
  "position f [] = None"
| "position f (x # xs) = (if f x then Some 0 else map_option Suc (position f xs))"

definition parse_pattern :: "string \<Rightarrow> path_error + agent_path_pattern" where
  "parse_pattern pattern =
     (let parts = filter (\<lambda>s. s \<noteq> []) (split_on (CHR ''/'') pattern) in
      case position (\<lambda>p. p = ''*'') parts of
        None \<Rightarrow> Inl PatternWithoutStar
      | Some pos \<Rightarrow> Inr \<lparr>pat_prefix = take pos parts, pat_suffix = drop (pos + 1) parts\<rparr>)"

text \<open>The paths that the printer writes so that the parser reads them back: the segments are
  non-empty and hold no separator, the whole is not surrounded by white space, and it is not the
  single segment \<open>"."\<close>.\<close>

definition printable_path :: "agent_path \<Rightarrow> bool" where
  "printable_path p =
     (list_all (\<lambda>s. s \<noteq> [] \<and> CHR ''/'' \<notin> set s) (segments p) \<and>
      (segments p \<noteq> [] \<longrightarrow>
         \<not> is_whitespace (hd (hd (segments p))) \<and> \<not> is_whitespace (last (last (segments p)))) \<and>
      segments p \<noteq> [''.''])"

section \<open>Paths: parent, child, depth\<close>

lemma segments_path_of [simp]: "segments (path_of ss) = ss"
  by (simp add: path_of_def)

lemma path_of_segments [simp]: "path_of (segments p) = p"
  by (simp add: path_of_def)

lemma path_eq_iff: "p = q \<longleftrightarrow> segments p = segments (q :: agent_path)"
  by (metis path_of_segments)

lemma parent_conv:
  "parent p = (if length (segments p) \<le> 1 then None else Some (path_of (butlast (segments p))))"
  by (cases "segments p") (auto simp: parent_def butlast_conv_take)

lemma parent_child: "parent (child p n) = (if is_root p then None else Some p)"
  by (auto simp: parent_conv child_def is_root_def Suc_le_eq)

lemma parent_depth: "parent p = Some q \<Longrightarrow> depth p = Suc (depth q)"
  by (auto simp: parent_conv depth_def split: if_splits)

lemma parent_SomeD: "parent p = Some q \<Longrightarrow> \<exists>n. p = child q n"
proof -
  assume "parent p = Some q"
  then have "segments p \<noteq> []" and "q = path_of (butlast (segments p))"
    by (auto simp: parent_conv split: if_splits)
  then have "p = child q (last (segments p))"
    by (simp add: child_def path_eq_iff)
  then show ?thesis ..
qed

lemma parent_not_root: "parent p = Some q \<Longrightarrow> \<not> is_root q"
  by (auto simp: parent_conv is_root_def split: if_splits dest!: arg_cong[where f = length])

section \<open>Pattern matching\<close>

lemma check_from_iff:
  "check_from segs i part \<longleftrightarrow> (\<forall>j < length part. i + j < length segs \<and> segs ! (i + j) = part ! j)"
proof (induction part arbitrary: i)
  case (Cons a part)
  have "(\<forall>j < length (a # part). i + j < length segs \<and> segs ! (i + j) = (a # part) ! j) \<longleftrightarrow>
      (i < length segs \<and> segs ! i = a) \<and>
      (\<forall>j < length part. Suc i + j < length segs \<and> segs ! (Suc i + j) = part ! j)"
    by (simp add: All_less_Suc2)
  then show ?case using Cons by simp
qed simp

lemma check_from_take:
  assumes "i + length part \<le> length segs"
  shows "check_from segs i part \<longleftrightarrow> take (length part) (drop i segs) = part"
  using assms by (auto simp: check_from_iff list_eq_iff_nth_eq)

lemma matches_simple_iff:
  "matches_simple p pat \<longleftrightarrow> (\<exists>x. segments p = pat_prefix pat @ x # pat_suffix pat)"
proof -
  let ?s = "segments p" and ?a = "pat_prefix pat" and ?b = "pat_suffix pat"
  have split: "(\<exists>x. ?s = ?a @ x # ?b) \<longleftrightarrow>
      length ?s = length ?a + 1 + length ?b \<and> take (length ?a) ?s = ?a \<and>
      drop (length ?a + 1) ?s = ?b" (is "?l \<longleftrightarrow> ?r")
  proof
    assume ?r
    then have "?s = ?a @ ?s ! length ?a # ?b"
      by (metis One_nat_def add_Suc_right add.right_neutral id_take_nth_drop less_add_Suc1
          add_Suc)
    then show ?l ..
  qed auto
  show ?thesis
    unfolding split
    by (auto simp: matches_simple_def check_from_take)
qed

section \<open>Parsing and printing\<close>

lemma parse_segments:
  assumes "parse s = Inr p"
  shows "\<forall>x \<in> set (segments p). x \<noteq> [] \<and> CHR ''/'' \<notin> set x"
  using assms
  by (auto simp: parse_def Let_def dest: split_on_pieces split: if_splits)

lemma printable_trim:
  assumes "printable_path p" and "segments p \<noteq> []"
  shows "trim (to_path_string p) = to_path_string p"
proof -
  let ?ps = "segments p"
  have ne: "hd ?ps \<noteq> []" "last ?ps \<noteq> []"
    using assms by (auto simp: printable_path_def list_all_iff)
  have "to_path_string p = join_with (CHR ''/'') ?ps"
    using assms by (simp add: to_path_string_def)
  then show ?thesis
    using assms ne by (intro trim_id) (simp add: hd_join_with last_join_with printable_path_def)
qed

lemma join_eq_short:
  assumes "join_with (CHR ''/'') ps = s" and "CHR ''/'' \<notin> set s" and "ps \<noteq> []"
  shows "ps = [s]"
  using assms by (cases "(CHR ''/'', ps)" rule: join_with.cases) auto

lemma parse_to_path_string:
  assumes "printable_path p"
  shows "parse (to_path_string p) = Inr p"
proof (cases "segments p = []")
  case True
  then have "p = path_of []" by (simp add: path_eq_iff)
  then show ?thesis
    by (simp add: parse_def to_path_string_def trim_id is_whitespace_def)
next
  case False
  let ?ps = "segments p" and ?s = "join_with (CHR ''/'') (segments p)"
  have ps: "\<forall>x \<in> set ?ps. x \<noteq> [] \<and> CHR ''/'' \<notin> set x" "?ps \<noteq> [''.'']"
    using assms by (auto simp: printable_path_def list_all_iff)
  have trim: "trim ?s = ?s"
    using printable_trim[OF assms False] False by (simp add: to_path_string_def)
  have "?s \<noteq> []" and "?s \<noteq> ''.''"
    using ps False join_with_eq_Nil_iff[of ?ps] join_eq_short[of ?ps "''.''"] by auto
  moreover have "?s = ''..'' \<Longrightarrow> ?ps = [''..'']"
    using join_eq_short[of ?ps "''..''"] False by simp
  moreover have "filter (\<lambda>x. x \<noteq> []) (split_on (CHR ''/'') ?s) = ?ps"
    using ps False by (simp add: split_on_join)
  ultimately show ?thesis
    using trim False by (auto simp: parse_def to_path_string_def Let_def path_eq_iff)
qed

lemma position_Some: "position f xs = Some i \<Longrightarrow>
    i < length xs \<and> f (xs ! i) \<and> (\<forall>j < i. \<not> f (xs ! j))"
  by (induction xs arbitrary: i) (auto simp: less_Suc_eq_0_disj split: if_splits)

lemma position_None: "position f xs = None \<longleftrightarrow> (\<forall>x \<in> set xs. \<not> f x)"
  by (induction xs) auto

section \<open>Properties\<close>

text \<open>A path whose segments are non-empty and free of separators, that is not surrounded by
  white space and is not the single segment \<open>"."\<close>, is read back unchanged from its printed form;
  and whatever the parser accepts has non-empty segments without separators.\<close>

theorem agent_path_roundtrip:
  "(printable_path p \<longrightarrow> parse (to_path_string p) = Inr p) \<and>
   (\<forall>s q. parse s = Inr q \<longrightarrow> (\<forall>x \<in> set (segments q). x \<noteq> [] \<and> CHR ''/'' \<notin> set x))"
  using parse_to_path_string parse_segments by blast

theorem agent_path_roundtrip_witness:
  "parse ''root/research'' = Inr (path_of [''root'', ''research''])"
  using agent_path_roundtrip[of "path_of [''root'', ''research'']"]
  by (simp add: printable_path_def to_path_string_def is_whitespace_def)

text \<open>A path matches a wildcard pattern exactly when it is the prefix, one segment and the
  suffix; the separate treatment of the bare star agrees with that.\<close>

theorem agent_path_matches_simple_exact:
  "matches_simple p pat \<longleftrightarrow> (\<exists>x. segments p = pat_prefix pat @ x # pat_suffix pat)"
  by (rule matches_simple_iff)

text \<open>The parser and the printer do not agree on every accepted input: \<open>"./"\<close> is accepted as
  a path of depth one that prints as \<open>"."\<close>, which is read back as the empty path.\<close>

theorem agent_path_dot_slash_not_stable:
  "\<exists>p q. parse ''./'' = Inr p \<and> depth p = 1 \<and> parse (to_path_string p) = Inr q \<and> depth q = 0"
  by (simp add: parse_def trim_def trim_start_def trim_end_def is_whitespace_def path_of_def depth_def
      to_path_string_def Let_def)

end
