(* ===== verification/AgentMessage.thy ===== *)
theory AgentMessage
  imports AgentPath
begin

text \<open>
  Inter-agent messages, \<open>src/agents/communication/message.rs\<close>: the delivery targets, the kinds of
  message and the message record with its constructors. The identifier (a random UUID) and the
  time stamp of a new message are arguments.
\<close>

datatype agent_target =
    Direct agent_path
  | Broadcast
  | ToParent
  | Pattern "string list" "string list"

datatype agent_message_kind =
    Delegate (dg_task: string) (dg_role: "string option") (dg_token_budget: "u64 option")
      (dg_timeout_secs: u64)
  | Result (rs_success: bool) (rs_summary: "string option") (rs_changes: "string option")
      (rs_evidence: "string option") (rs_risks: "string option") (rs_blockers: "string option")
      (rs_response: string) (rs_actual_tokens: u64)
  | Progress (pr_tokens: string) (pr_partial: bool)
  | Cancel (cn_reason: string)
  | StatusQuery
  | StatusResponse (sr_phase: string) (sr_elapsed_ms: u64) (sr_tokens_used: u64)
  | Custom (cu_event: string)

record agent_message =
  msg_id :: string
  msg_from :: agent_path
  msg_to :: agent_target
  timestamp_ms :: u64
  msg_kind :: agent_message_kind
  payload :: json
  in_reply_to :: "string option"

definition target_to_string :: "agent_target \<Rightarrow> string" where
  "target_to_string t =
     (case t of
        Direct p \<Rightarrow> ''direct:'' @ to_path_string p
      | Broadcast \<Rightarrow> ''broadcast''
      | ToParent \<Rightarrow> ''to_parent''
      | Pattern prefix suffix \<Rightarrow>
          ''pattern:'' @
          (if prefix = [] \<and> suffix = [] then ''*''
           else
             (let p = join_with (CHR ''/'') prefix; s = join_with (CHR ''/'') suffix in
              if p = [] then ''*/'' @ s
              else if s = [] then p @ ''/*''
              else p @ ''/*/'' @ s)))"

definition message_new ::
  "string \<Rightarrow> u64 \<Rightarrow> agent_path \<Rightarrow> agent_target \<Rightarrow> agent_message_kind \<Rightarrow> agent_message" where
  "message_new uuid now from_p to_t k =
     \<lparr>msg_id = uuid, msg_from = from_p, msg_to = to_t, timestamp_ms = now, msg_kind = k,
      payload = JNull, in_reply_to = None\<rparr>"

definition message_delegate ::
  "string \<Rightarrow> u64 \<Rightarrow> agent_path \<Rightarrow> agent_target \<Rightarrow> string \<Rightarrow> string option \<Rightarrow> u64 option \<Rightarrow> u64
   \<Rightarrow> agent_message" where
  "message_delegate uuid now from_p to_t task role token_budget timeout_secs =
     message_new uuid now from_p to_t (Delegate task role token_budget timeout_secs)"

definition message_result ::
  "string \<Rightarrow> u64 \<Rightarrow> agent_path \<Rightarrow> agent_target \<Rightarrow> bool \<Rightarrow> string option \<Rightarrow> string option \<Rightarrow>
   string option \<Rightarrow> string option \<Rightarrow> string option \<Rightarrow> string \<Rightarrow> u64 \<Rightarrow> agent_message" where
  "message_result uuid now from_p to_t success summary changes evidence risks blockers response
     actual_tokens =
     message_new uuid now from_p to_t
       (Result success summary changes evidence risks blockers response actual_tokens)"

definition message_progress ::
  "string \<Rightarrow> u64 \<Rightarrow> agent_path \<Rightarrow> agent_target \<Rightarrow> string \<Rightarrow> bool \<Rightarrow> agent_message" where
  "message_progress uuid now from_p to_t tokens partial =
     message_new uuid now from_p to_t (Progress tokens partial)"

definition message_cancel ::
  "string \<Rightarrow> u64 \<Rightarrow> agent_path \<Rightarrow> agent_target \<Rightarrow> string \<Rightarrow> agent_message" where
  "message_cancel uuid now from_p to_t reason = message_new uuid now from_p to_t (Cancel reason)"

definition message_status_query ::
  "string \<Rightarrow> u64 \<Rightarrow> agent_path \<Rightarrow> agent_target \<Rightarrow> agent_message" where
  "message_status_query uuid now from_p to_t = message_new uuid now from_p to_t StatusQuery"

definition with_payload :: "agent_message \<Rightarrow> json \<Rightarrow> agent_message" where
  "with_payload m v = m\<lparr>payload := v\<rparr>"

definition reply_to :: "agent_message \<Rightarrow> string \<Rightarrow> agent_message" where
  "reply_to m parent_id = m\<lparr>in_reply_to := Some parent_id\<rparr>"

definition is_result :: "agent_message \<Rightarrow> bool" where
  "is_result m = is_Result (msg_kind m)"

definition is_cancel :: "agent_message \<Rightarrow> bool" where
  "is_cancel m = is_Cancel (msg_kind m)"

definition is_delegate :: "agent_message \<Rightarrow> bool" where
  "is_delegate m = is_Delegate (msg_kind m)"

end
