(* ===== verification/AgentTree.thy ===== *)
theory AgentTree
  imports AgentMessage
begin

text \<open>
  The agent tree, \<open>src/agents/communication/tree.rs\<close>, with the execution budget (\<open>budget.rs\<close>) and
  the lifecycle states (\<open>lifecycle.rs\<close>) its nodes carry. The tree is the flat map from paths to
  nodes of the code; the value held by a node's watch channel is a field of the node. The loops
  that walk the tree are partial functions whose value \<open>None\<close> means that the loop does not end.
  The lemmas show that every operation keeps the index well formed, that the walks end on a well
  formed index, and what they return.
\<close>

section \<open>Budget\<close>

record agent_execution_budget =
  aggregate_token_ceiling :: "u64 option"
  aggregate_tokens_used :: u64
  max_depth :: u32
  max_concurrency :: usize
  active_children :: usize

definition budget_new :: agent_execution_budget where
  "budget_new =
     \<lparr>aggregate_token_ceiling = None, aggregate_tokens_used = 0, max_depth = 10,
      max_concurrency = 8, active_children = 0\<rparr>"

definition with_token_ceiling :: "agent_execution_budget \<Rightarrow> u64 \<Rightarrow> agent_execution_budget" where
  "with_token_ceiling b ceiling = b\<lparr>aggregate_token_ceiling := Some ceiling\<rparr>"

definition with_max_depth :: "agent_execution_budget \<Rightarrow> u32 \<Rightarrow> agent_execution_budget" where
  "with_max_depth b d = b\<lparr>max_depth := d\<rparr>"

definition with_max_concurrency :: "agent_execution_budget \<Rightarrow> usize \<Rightarrow> agent_execution_budget" where
  "with_max_concurrency b c = b\<lparr>max_concurrency := c\<rparr>"

definition is_exceeded :: "agent_execution_budget \<Rightarrow> bool" where
  "is_exceeded b =
     (case aggregate_token_ceiling b of
        Some ceiling \<Rightarrow> (if aggregate_tokens_used b \<ge> ceiling then True else False)
      | None \<Rightarrow> False)"

section \<open>Lifecycle\<close>

datatype agent_phase = Planning | Executing | Reflecting | Waiting

datatype agent_lifecycle =
    Registered u64
  | Idle u64
  | Active agent_phase u64 u64
  | Completed string u64 u64 u64
  | Errored string u64 u64
  | Cancelled string u64

fun is_terminal :: "agent_lifecycle \<Rightarrow> bool" where
  "is_terminal (Completed _ _ _ _) = True"
| "is_terminal (Errored _ _ _) = True"
| "is_terminal (Cancelled _ _) = True"
| "is_terminal _ = False"

fun wall_time_ms :: "agent_lifecycle \<Rightarrow> u64 option" where
  "wall_time_ms (Completed _ _ wall_time _) = Some wall_time"
| "wall_time_ms (Errored _ _ wall_time) = Some wall_time"
| "wall_time_ms _ = None"

fun tokens_used :: "agent_lifecycle \<Rightarrow> u64" where
  "tokens_used (Active _ _ tokens) = tokens"
| "tokens_used (Completed _ tokens _ _) = tokens"
| "tokens_used (Errored _ tokens _) = tokens"
| "tokens_used (Cancelled _ tokens) = tokens"
| "tokens_used _ = 0"

fun phase_debug :: "agent_phase \<Rightarrow> string" where
  "phase_debug Planning = ''Planning''"
| "phase_debug Executing = ''Executing''"
| "phase_debug Reflecting = ''Reflecting''"
| "phase_debug Waiting = ''Waiting''"

fun summary :: "agent_lifecycle \<Rightarrow> string" where
  "summary (Registered at_ms) = ''registered at '' @ show_word at_ms"
| "summary (Idle since_ms) = ''idle since '' @ show_word since_ms"
| "summary (Active phase started_at_ms tokens) =
     ''active ('' @ phase_debug phase @ '') since '' @ show_word started_at_ms @
     '', tokens='' @ show_word tokens"
| "summary (Completed result tokens wall_time _) =
     ''completed: '' @ result @ '' ('' @ show_word tokens @ '' tokens, '' @ show_word wall_time @
     ''ms)''"
| "summary (Errored error tokens wall_time) =
     ''errored: '' @ error @ '' ('' @ show_word tokens @ '' tokens, '' @ show_word wall_time @
     ''ms)''"
| "summary (Cancelled reason _) = ''cancelled: '' @ reason"

definition lifecycle_registered :: "u64 \<Rightarrow> agent_lifecycle" where
  "lifecycle_registered now = Registered now"

section \<open>Nodes\<close>

record agent_node_metadata =
  created_at_ms :: u64
  role :: "string option"
  model :: "string option"
  token_budget :: "u64 option"
  depth_limit :: "u32 option"
  fork_context :: bool

definition metadata_new :: "u64 \<Rightarrow> agent_node_metadata" where
  "metadata_new now =
     \<lparr>created_at_ms = now, role = None, model = None, token_budget = None, depth_limit = None,
      fork_context = True\<rparr>"

definition with_role :: "agent_node_metadata \<Rightarrow> string \<Rightarrow> agent_node_metadata" where
  "with_role md r = md\<lparr>role := Some r\<rparr>"

definition with_model :: "agent_node_metadata \<Rightarrow> string \<Rightarrow> agent_node_metadata" where
  "with_model md m = md\<lparr>model := Some m\<rparr>"

definition with_token_budget :: "agent_node_metadata \<Rightarrow> u64 \<Rightarrow> agent_node_metadata" where
  "with_token_budget md b = md\<lparr>token_budget := Some b\<rparr>"

record agent_node =
  node_path :: agent_path
  agent_name :: string
  parent_path :: "agent_path option"
  children :: "agent_path list"
  metadata :: agent_node_metadata
  budget :: agent_execution_budget
  lifecycle :: agent_lifecycle

definition node_new :: "u64 \<Rightarrow> agent_path \<Rightarrow> string \<Rightarrow> agent_node_metadata \<Rightarrow> agent_node" where
  "node_new now p name md =
     \<lparr>node_path = p, agent_name = name, parent_path = None, children = [], metadata = md,
      budget = budget_new, lifecycle = lifecycle_registered now\<rparr>"

definition is_leaf :: "agent_node \<Rightarrow> bool" where
  "is_leaf n = (children n = [])"

definition node_set_lifecycle :: "agent_node \<Rightarrow> agent_lifecycle \<Rightarrow> agent_node" where
  "node_set_lifecycle n st = n\<lparr>lifecycle := st\<rparr>"

section \<open>The tree and its operations\<close>

record agent_tree =
  nodes :: "(agent_path, agent_node) hmap"
  root_path :: "agent_path option"

datatype tree_error = AlreadyRegistered agent_path

definition tree_new :: agent_tree where
  "tree_new = \<lparr>nodes = [], root_path = None\<rparr>"

definition link_child :: "agent_path \<Rightarrow> agent_node \<Rightarrow> agent_node" where
  "link_child p parent_node =
     (if p \<in> set (children parent_node) then parent_node
      else parent_node\<lparr>children := children parent_node @ [p]\<rparr>)"

definition register ::
  "u64 \<Rightarrow> agent_path \<Rightarrow> string \<Rightarrow> agent_node_metadata \<Rightarrow> agent_tree \<Rightarrow> tree_error + agent_tree" where
  "register now p name md t =
     (if hm_contains (nodes t) p then Inl (AlreadyRegistered p)
      else
        (let pp = parent p;
             node = (node_new now p name md)\<lparr>parent_path := pp\<rparr>;
             ns = hm_insert p node (nodes t);
             ns' = (case pp of None \<Rightarrow> ns | Some q \<Rightarrow> hm_modify q (link_child p) ns);
             root' = (if root_path t = None \<and> pp = None then Some p else root_path t)
         in Inr \<lparr>nodes = ns', root_path = root'\<rparr>))"

definition resolve :: "agent_tree \<Rightarrow> agent_path \<Rightarrow> agent_node option" where
  "resolve t p = hm_get (nodes t) p"

definition resolve_mut :: "agent_tree \<Rightarrow> agent_path \<Rightarrow> (agent_node \<Rightarrow> agent_node) \<Rightarrow> agent_tree" where
  "resolve_mut t p f = t\<lparr>nodes := hm_modify p f (nodes t)\<rparr>"

definition resolve_target ::
  "agent_path iter_order \<Rightarrow> agent_tree \<Rightarrow> agent_target \<Rightarrow> agent_node list" where
  "resolve_target ord t target =
     (case target of
        Direct p \<Rightarrow> (case hm_get (nodes t) p of None \<Rightarrow> [] | Some n \<Rightarrow> [n])
      | Broadcast \<Rightarrow> hm_values ord (nodes t)
      | ToParent \<Rightarrow> []
      | Pattern prefix suffix \<Rightarrow>
          filter (\<lambda>n. matches_simple (node_path n) \<lparr>pat_prefix = prefix, pat_suffix = suffix\<rparr>)
            (hm_values ord (nodes t)))"

partial_function (option) ancestors_loop ::
  "agent_tree \<Rightarrow> agent_path option \<Rightarrow> agent_node list \<Rightarrow> agent_node list option" where
  "ancestors_loop t current result =
     (case current of
        None \<Rightarrow> Some result
      | Some cp \<Rightarrow>
          (case hm_get (nodes t) cp of
             None \<Rightarrow> Some result
           | Some node \<Rightarrow> ancestors_loop t (parent (node_path node)) (result @ [node])))"

definition ancestors :: "agent_tree \<Rightarrow> agent_path \<Rightarrow> agent_node list option" where
  "ancestors t p = ancestors_loop t (parent p) []"

definition child_nodes :: "agent_tree \<Rightarrow> agent_node \<Rightarrow> (agent_path \<times> agent_node) list" where
  "child_nodes t node =
     List.map_filter (\<lambda>c. map_option (\<lambda>n. (c, n)) (hm_get (nodes t) c)) (children node)"

partial_function (option) descendants_loop ::
  "agent_tree \<Rightarrow> agent_path list \<Rightarrow> agent_node list \<Rightarrow> agent_node list option" where
  "descendants_loop t queue result =
     (case queue of
        [] \<Rightarrow> Some result
      | current # rest \<Rightarrow>
          (case hm_get (nodes t) current of
             None \<Rightarrow> descendants_loop t rest result
           | Some node \<Rightarrow>
               descendants_loop t (rest @ map fst (child_nodes t node))
                 (result @ map snd (child_nodes t node))))"

definition descendants :: "agent_tree \<Rightarrow> agent_path \<Rightarrow> agent_node list option" where
  "descendants t p = descendants_loop t [p] []"

partial_function (option) descendant_paths_loop ::
  "agent_tree \<Rightarrow> agent_path list \<Rightarrow> agent_path list \<Rightarrow> agent_path list option" where
  "descendant_paths_loop t queue result =
     (case queue of
        [] \<Rightarrow> Some result
      | current # rest \<Rightarrow>
          (case hm_get (nodes t) current of
             None \<Rightarrow> descendant_paths_loop t rest result
           | Some node \<Rightarrow>
               descendant_paths_loop t (rest @ children node) (result @ children node)))"

definition descendant_paths :: "agent_tree \<Rightarrow> agent_path \<Rightarrow> agent_path list option" where
  "descendant_paths t p = descendant_paths_loop t [p] []"

definition tree_root :: "agent_tree \<Rightarrow> agent_node option" where
  "tree_root t = Option.bind (root_path t) (hm_get (nodes t))"

definition unlink_child :: "agent_path \<Rightarrow> agent_node \<Rightarrow> agent_node" where
  "unlink_child p parent_node =
     parent_node\<lparr>children := filter (\<lambda>c. c \<noteq> p) (children parent_node)\<rparr>"

definition remove_subtree ::
  "agent_path iter_order \<Rightarrow> agent_path \<Rightarrow> agent_tree \<Rightarrow> (agent_path list \<times> agent_tree) option" where
  "remove_subtree ord p t =
     (case descendant_paths t p of
        None \<Rightarrow> None
      | Some to_remove \<Rightarrow>
          (let all_removed = p # to_remove;
               parent_path_opt = Option.bind (hm_get (nodes t) p) parent_path;
               ns = (case parent_path_opt of
                       None \<Rightarrow> nodes t
                     | Some q \<Rightarrow> hm_modify q (unlink_child p) (nodes t));
               ns' = fold hm_remove all_removed ns;
               root' = (if root_path t = Some p
                        then (case hm_keys ord ns' of [] \<Rightarrow> None | k # _ \<Rightarrow> Some k)
                        else root_path t)
           in Some (all_removed, \<lparr>nodes = ns', root_path = root'\<rparr>)))"

definition tree_len :: "agent_tree \<Rightarrow> nat" where
  "tree_len t = length (nodes t)"

definition tree_is_empty :: "agent_tree \<Rightarrow> bool" where
  "tree_is_empty t = (nodes t = [])"

section \<open>Well-formed trees\<close>

definition node_ok :: "agent_tree \<Rightarrow> agent_path \<Rightarrow> agent_node \<Rightarrow> bool" where
  "node_ok t p n =
     (node_path n = p \<and> parent_path n = parent p \<and> distinct (children n) \<and>
      list_all (\<lambda>c. hm_contains (nodes t) c \<and> parent c = Some p) (children n))"

definition tree_wf :: "agent_tree \<Rightarrow> bool" where
  "tree_wf t = (hm_wf (nodes t) \<and> list_all (\<lambda>(p, n). node_ok t p n) (nodes t))"

text \<open>\<open>link t p c\<close>: the index lists \<open>c\<close> as a child of the registered node \<open>p\<close>.\<close>

definition link :: "agent_tree \<Rightarrow> agent_path \<Rightarrow> agent_path \<Rightarrow> bool" where
  "link t p c \<longleftrightarrow> (\<exists>n. hm_get (nodes t) p = Some n \<and> c \<in> set (children n))"

text \<open>The proper non-empty prefixes of a path, the longest first.\<close>

definition proper_prefixes :: "agent_path \<Rightarrow> agent_path list" where
  "proper_prefixes p = map (\<lambda>k. path_of (take k (segments p))) (rev [1..<length (segments p)])"

section \<open>Facts about well-formed trees\<close>

lemma list_all_map_of:
  "hm_wf m \<Longrightarrow> list_all (\<lambda>(k, v). P k v) m \<longleftrightarrow> (\<forall>k v. map_of m k = Some v \<longrightarrow> P k v)"
  by (auto simp: hm_wf_def list_all_iff map_of_eq_Some_iff)

lemma tree_wf_iff:
  "tree_wf t \<longleftrightarrow> hm_wf (nodes t) \<and> (\<forall>p n. map_of (nodes t) p = Some n \<longrightarrow> node_ok t p n)"
  by (auto simp: tree_wf_def list_all_map_of)

lemma tree_wfD:
  assumes "tree_wf t" and "map_of (nodes t) p = Some n"
  shows "node_path n = p" "parent_path n = parent p" "distinct (children n)"
    "c \<in> set (children n) \<Longrightarrow> c \<in> dom (map_of (nodes t))"
    "c \<in> set (children n) \<Longrightarrow> parent c = Some p"
  using assms by (auto simp: tree_wf_iff node_ok_def list_all_iff)

lemma link_parent: "tree_wf t \<Longrightarrow> link t p c \<Longrightarrow> parent c = Some p"
  by (auto simp: link_def dest: tree_wfD(5))

lemma link_dom: "tree_wf t \<Longrightarrow> link t p c \<Longrightarrow> c \<in> dom (map_of (nodes t))"
  unfolding link_def by (blast dest: tree_wfD(4))

lemma links_dom: "tree_wf t \<Longrightarrow> (link t)\<^sup>+\<^sup>+ p c \<Longrightarrow> c \<in> dom (map_of (nodes t))"
  by (erule tranclp.cases) (auto dest: link_dom)

lemma links_depth: "(link t)\<^sup>+\<^sup>+ p c \<Longrightarrow> tree_wf t \<Longrightarrow> depth p < depth c"
  by (induction rule: tranclp_induct) (auto dest!: link_parent parent_depth)

lemma links_segments:
  assumes "(link t)\<^sup>+\<^sup>+ p c" and "tree_wf t"
  shows "\<exists>ss. ss \<noteq> [] \<and> segments c = segments p @ ss"
  using assms(1)
proof (induction rule: tranclp_induct)
  case (base c)
  then show ?case
    using parent_SomeD[OF link_parent[OF assms(2) base]] by (auto simp: child_def)
next
  case (step b c)
  then show ?case
    using parent_SomeD[OF link_parent[OF assms(2) step.hyps(2)]] by (auto simp: child_def)
qed

lemma links_parent_cases:
  assumes "(link t)\<^sup>+\<^sup>+ p c" and "tree_wf t" and "parent c = Some q"
  shows "p = q \<or> (link t)\<^sup>+\<^sup>+ p q"
  using assms(1)
proof (cases rule: tranclp.cases)
  case r_into_trancl
  then show ?thesis using link_parent[OF assms(2)] assms(3) by auto
next
  case (trancl_into_trancl b)
  then show ?thesis using link_parent[OF assms(2), of b c] assms(3) by simp
qed

lemma links_first: "(link t)\<^sup>+\<^sup>+ p c \<longleftrightarrow> (\<exists>b. link t p b \<and> (b = c \<or> (link t)\<^sup>+\<^sup>+ b c))"
  by (auto elim: converse_tranclpE intro: tranclp_into_tranclp2)

lemma links_unfold:
  assumes "map_of (nodes t) p = Some n"
  shows "{c. (link t)\<^sup>+\<^sup>+ p c} = set (children n) \<union> {c. \<exists>q \<in> set (children n). (link t)\<^sup>+\<^sup>+ q c}"
proof -
  have "link t p b \<longleftrightarrow> b \<in> set (children n)" for b
    using assms by (simp add: link_def)
  then show ?thesis
    using links_first[of t p] by auto
qed

lemma links_none: "map_of (nodes t) p = None \<Longrightarrow> \<not> (link t)\<^sup>+\<^sup>+ p c"
  using links_first[of t p c] by (auto simp: link_def)

section \<open>The breadth-first walks\<close>

lemma depth_bound: "\<exists>D. \<forall>p \<in> dom (map_of (nodes t)). depth p \<le> D"
  by (metis finite_dom_map_of finite_imageI finite_nat_set_iff_bounded_le image_eqI)

lemma child_nodes_wf:
  assumes "tree_wf t" and "map_of (nodes t) p = Some n"
  shows "child_nodes t n = map (\<lambda>c. (c, the (map_of (nodes t) c))) (children n)"
proof -
  have "\<forall>c \<in> set (children n). \<exists>m. map_of (nodes t) c = Some m"
    using tree_wfD(4)[OF assms] by blast
  then show ?thesis
    unfolding child_nodes_def by (induction "children n") (auto simp: List.map_filter_def)
qed

text \<open>A queue in which no path is a descendant of another; the walk keeps it so.\<close>

definition antichain :: "agent_tree \<Rightarrow> agent_path list \<Rightarrow> bool" where
  "antichain t queue \<longleftrightarrow>
     distinct queue \<and> (\<forall>p \<in> set queue. \<forall>q \<in> set queue. \<not> (link t)\<^sup>+\<^sup>+ p q)"

lemma antichain_step:
  assumes "tree_wf t" and "map_of (nodes t) x = Some n" and "antichain t (x # rest)"
  shows "antichain t (rest @ children n)"
proof -
  note ac = assms(3)[unfolded antichain_def]
  have par: "parent c = Some x" "link t x c" if "c \<in> set (children n)" for c
    using tree_wfD(5)[OF assms(1,2) that] assms(2) that by (auto simp: link_def)
  have "c \<notin> set rest" if "c \<in> set (children n)" for c
    using par(2)[OF that] ac by (auto dest: tranclp.r_into_trancl)
  moreover have "\<not> (link t)\<^sup>+\<^sup>+ r c" if "c \<in> set (children n)" "r \<in> set rest" for r c
    using links_parent_cases[OF _ assms(1) par(1)[OF that(1)], of r] ac that(2) by auto
  moreover have "\<not> (link t)\<^sup>+\<^sup>+ c r" if "c \<in> set (children n)" "r \<in> set rest" for r c
    using par(2)[OF that(1)] ac that(2) by (auto dest: tranclp_into_tranclp2)
  moreover have "\<not> (link t)\<^sup>+\<^sup>+ c c'" if "c \<in> set (children n)" "c' \<in> set (children n)" for c c'
  proof
    assume "(link t)\<^sup>+\<^sup>+ c c'"
    then have "c = x \<or> (link t)\<^sup>+\<^sup>+ c x"
      by (rule links_parent_cases[OF _ assms(1) par(1)[OF that(2)]])
    then show False
      using links_depth[OF _ assms(1)] parent_depth[OF par(1)[OF that(1)]]
      by (metis less_Suc_eq less_irrefl not_less_eq)
  qed
  ultimately show ?thesis
    using ac tree_wfD(3)[OF assms(1,2)] unfolding antichain_def by auto
qed

definition deficit :: "nat \<Rightarrow> agent_path list \<Rightarrow> nat multiset" where
  "deficit D queue = mset (map (\<lambda>p. D - depth p) queue)"

lemma deficit_decreases:
  assumes "\<forall>c \<in> set cs. D - depth c < D - depth x"
  shows "(deficit D (rest @ cs), deficit D (x # rest)) \<in> mult less_than"
proof -
  have "(deficit D rest + deficit D cs, deficit D rest + {#D - depth x#}) \<in> mult less_than"
    by (rule one_step_implies_mult) (use assms in \<open>auto simp: deficit_def\<close>)
  then show ?thesis by (simp add: deficit_def)
qed

lemma bfs_walk:
  assumes "tree_wf t"
  shows "\<exists>rs. descendant_paths_loop t queue acc = Some (acc @ rs) \<and>
    descendants_loop t queue nacc = Some (nacc @ map (\<lambda>c. the (map_of (nodes t) c)) rs) \<and>
    set rs = {c. \<exists>q \<in> set queue. (link t)\<^sup>+\<^sup>+ q c} \<and> (antichain t queue \<longrightarrow> distinct rs)"
proof -
  obtain D where D: "\<forall>p \<in> dom (map_of (nodes t)). depth p \<le> D"
    using depth_bound by blast
  have "wf (inv_image (mult less_than) (deficit D))"
    by (simp add: wf_mult)
  then show ?thesis
  proof (induction queue arbitrary: acc nacc rule: wf_induct_rule)
    case (less queue)
    show ?case
    proof (cases queue)
      case Nil
      then show ?thesis
        by (subst descendant_paths_loop.simps, subst descendants_loop.simps) simp
    next
      case (Cons x rest)
      show ?thesis
      proof (cases "map_of (nodes t) x")
        case None
        have "(deficit D rest, deficit D queue) \<in> mult less_than"
          using deficit_decreases[of "[]"] Cons by simp
        with less.IH[of rest acc nacc] None Cons links_none[OF None] show ?thesis
          by (subst descendant_paths_loop.simps, subst descendants_loop.simps)
            (auto simp: antichain_def)
      next
        case (Some n)
        have lt: "\<forall>c \<in> set (children n). D - depth c < D - depth x"
        proof
          fix c
          assume "c \<in> set (children n)"
          then have "depth c = Suc (depth x)" and "depth c \<le> D"
            using bspec[OF D] tree_wfD(4,5)[OF assms Some, of c] parent_depth[of c x] by blast+
          then show "D - depth c < D - depth x" by simp
        qed
        have "(deficit D (rest @ children n), deficit D queue) \<in> mult less_than"
          using deficit_decreases[OF lt] Cons by simp
        then obtain rs where rs:
          "descendant_paths_loop t (rest @ children n) (acc @ children n) = Some ((acc @ children n) @ rs)"
          "descendants_loop t (rest @ children n) (nacc @ map (\<lambda>c. the (map_of (nodes t) c)) (children n))
             = Some ((nacc @ map (\<lambda>c. the (map_of (nodes t) c)) (children n))
                 @ map (\<lambda>c. the (map_of (nodes t) c)) rs)"
          "set rs = {c. \<exists>q \<in> set (rest @ children n). (link t)\<^sup>+\<^sup>+ q c}"
          "antichain t (rest @ children n) \<longrightarrow> distinct rs"
          using less.IH[of "rest @ children n" "acc @ children n"
              "nacc @ map (\<lambda>c. the (map_of (nodes t) c)) (children n)"] by (auto simp: in_inv_image)
        have "set (children n @ rs) = {c. \<exists>q \<in> set queue. (link t)\<^sup>+\<^sup>+ q c}"
          using links_unfold[OF Some] rs(3) Cons by auto
        moreover have "distinct (children n @ rs)" if "antichain t queue"
        proof -
          have ac: "antichain t (rest @ children n)"
            using antichain_step[OF assms Some] Cons that by simp
          then have "set (children n) \<inter> set rs = {}"
            unfolding rs(3) antichain_def by auto
          then show ?thesis
            using ac rs(4) tree_wfD(3)[OF assms Some] by simp
        qed
        ultimately show ?thesis
          using rs(1,2) Some Cons child_nodes_wf[OF assms Some]
          by (intro exI[of _ "children n @ rs"])
            (simp add: descendant_paths_loop.simps[of t "x # rest"]
              descendants_loop.simps[of t "x # rest"]
              o_def)
      qed
    qed
  qed
qed

lemma antichain_single: "tree_wf t \<Longrightarrow> antichain t [p]"
  using links_depth by (fastforce simp: antichain_def)

lemma descendant_paths_wf:
  assumes "tree_wf t"
  shows "\<exists>ps. descendant_paths t p = Some ps \<and>
    descendants t p = Some (map (\<lambda>c. the (map_of (nodes t) c)) ps) \<and>
    set ps = {c. (link t)\<^sup>+\<^sup>+ p c} \<and> distinct ps"
  using bfs_walk[OF assms, of "[p]" "[]" "[]"] antichain_single[OF assms, of p]
  by (auto simp: descendant_paths_def descendants_def)

section \<open>The operations keep the tree well formed\<close>

lemma tree_new_wf: "tree_wf tree_new"
  by (simp add: tree_wf_def tree_new_def)

lemma parent_neq_self: "parent p \<noteq> Some p"
  using parent_depth by fastforce

lemma register_result:
  assumes "register now p name md t = Inr t'"
  shows "p \<notin> dom (map_of (nodes t))"
    and "map_of (nodes t') q =
      (if q = p then Some ((node_new now p name md)\<lparr>parent_path := parent p\<rparr>)
       else if parent p = Some q then map_option (link_child p) (map_of (nodes t) q)
       else map_of (nodes t) q)"
    and "root_path t' = (if root_path t = None \<and> parent p = None then Some p else root_path t)"
    and "hm_wf (nodes t) \<Longrightarrow> hm_wf (nodes t')"
  using assms parent_neq_self[of p]
  by (auto simp: register_def Let_def split: if_splits option.splits)

lemma register_dom:
  "register now p name md t = Inr t' \<Longrightarrow> dom (map_of (nodes t')) = insert p (dom (map_of (nodes t)))"
  by (auto simp: dom_def register_result(2) split: if_splits)

lemma node_okI:
  assumes "node_path n = p" "parent_path n = parent p" "distinct (children n)"
    and "\<And>c. c \<in> set (children n) \<Longrightarrow> c \<in> dom (map_of (nodes t)) \<and> parent c = Some p"
  shows "node_ok t p n"
  using assms by (simp add: node_ok_def list_all_iff)

lemma register_wf:
  assumes "tree_wf t" and "register now p name md t = Inr t'"
  shows "tree_wf t'"
proof -
  note reg = register_result[OF assms(2)]
  have ok: "node_ok t' q n" if q: "map_of (nodes t') q = Some n" for q n
  proof (cases "q = p")
    case True
    then show ?thesis
      using q by (intro node_okI) (auto simp: reg(2) node_new_def)
  next
    case False
    then obtain m where m: "map_of (nodes t) q = Some m"
      and n: "n = (if parent p = Some q then link_child p m else m)"
      using q by (auto simp: reg(2) split: if_splits)
    note wf = tree_wfD[OF assms(1) m]
    have "p \<notin> set (children m)" using wf(4) reg(1) by blast
    then show ?thesis
      using n wf register_dom[OF assms(2)]
      by (intro node_okI) (auto simp: link_child_def split: if_splits)
  qed
  then show ?thesis
    using assms(1) reg(4) by (simp add: tree_wf_iff)
qed

lemma remove_subtree_cases:
  assumes "tree_wf t"
  obtains ps t' where "remove_subtree ord p t = Some (p # ps, t')"
    and "set ps = {c. (link t)\<^sup>+\<^sup>+ p c}" and "distinct (p # ps)" and "hm_wf (nodes t')"
    and "map_of (nodes t') = (\<lambda>q. if q = p \<or> (link t)\<^sup>+\<^sup>+ p q then None
      else if p \<in> dom (map_of (nodes t)) \<and> parent p = Some q
        then map_option (unlink_child p) (map_of (nodes t) q)
      else map_of (nodes t) q)"
    and "root_path t' = (if root_path t = Some p
      then (case hm_keys ord (nodes t') of [] \<Rightarrow> None | k # _ \<Rightarrow> Some k) else root_path t)"
proof -
  obtain ps where ps: "descendant_paths t p = Some ps" "set ps = {c. (link t)\<^sup>+\<^sup>+ p c}" "distinct ps"
    using descendant_paths_wf[OF assms] by blast
  have notin: "p \<notin> set ps"
    using ps(2) links_depth[OF _ assms] by blast
  define ns where "ns = (case Option.bind (hm_get (nodes t) p) parent_path of
      None \<Rightarrow> nodes t | Some q \<Rightarrow> hm_modify q (unlink_child p) (nodes t))"
  have ns: "hm_wf ns" "map_of ns = (\<lambda>q. if p \<in> dom (map_of (nodes t)) \<and> parent p = Some q
      then map_option (unlink_child p) (map_of (nodes t) q) else map_of (nodes t) q)"
    using assms tree_wfD(2)[OF assms]
    by (auto simp: ns_def tree_wf_iff fun_eq_iff split: option.splits bind_splits)
  define ns' where "ns' = fold hm_remove (p # ps) ns"
  have ns': "hm_wf ns'" "map_of ns' = (\<lambda>k. if k \<in> set (p # ps) then None else map_of ns k)"
    unfolding ns'_def by (rule hm.wf_remove_all[OF ns(1)], rule hm.lookup_remove_all[OF ns(1)])
  have "remove_subtree ord p t = Some (p # ps, \<lparr>nodes = ns', root_path =
      (if root_path t = Some p then (case hm_keys ord ns' of [] \<Rightarrow> None | k # _ \<Rightarrow> Some k)
       else root_path t)\<rparr>)"
    using ps(1) by (simp add: remove_subtree_def Let_def ns_def ns'_def)
  then show ?thesis
    using ps notin ns' ns(2) by (intro that) (auto simp: fun_eq_iff)
qed

lemma remove_subtree_removed:
  assumes "tree_wf t" and "remove_subtree ord p t = Some (removed, t')"
  shows "set removed = insert p {c. (link t)\<^sup>+\<^sup>+ p c}" and "distinct removed"
    and "hd removed = p"
  by (rule remove_subtree_cases[OF assms(1), of ord p]; use assms(2) in simp)+

lemma remove_subtree_nodes:
  assumes "tree_wf t" and "remove_subtree ord p t = Some (removed, t')"
  shows "map_of (nodes t') = (\<lambda>q. if q \<in> set removed then None
      else if p \<in> dom (map_of (nodes t)) \<and> parent p = Some q
        then map_option (unlink_child p) (map_of (nodes t) q)
      else map_of (nodes t) q)"
    and "hm_wf (nodes t')"
  by (rule remove_subtree_cases[OF assms(1), of ord p]; use assms(2) in \<open>auto simp: fun_eq_iff\<close>)+

lemma remove_subtree_dom:
  assumes "tree_wf t" and "remove_subtree ord p t = Some (removed, t')"
  shows "dom (map_of (nodes t')) = dom (map_of (nodes t)) - set removed"
  unfolding remove_subtree_nodes(1)[OF assms] by (auto simp: dom_def split: if_splits)

lemma remove_subtree_wf:
  assumes "tree_wf t" and "remove_subtree ord p t = Some (removed, t')"
  shows "tree_wf t'"
proof -
  note gone = remove_subtree_removed(1)[OF assms]
  note nodes' = remove_subtree_nodes[OF assms]
  note dom' = remove_subtree_dom[OF assms]
  have ok: "node_ok t' q n" if q: "map_of (nodes t') q = Some n" for q n
  proof -
    have keep: "q \<notin> set removed" using q by (auto simp: nodes'(1) split: if_splits)
    then obtain m where m: "map_of (nodes t) q = Some m"
      and n: "n = (if p \<in> dom (map_of (nodes t)) \<and> parent p = Some q then unlink_child p m else m)"
      using q by (auto simp: nodes'(1) split: if_splits)
    note wf = tree_wfD[OF assms(1) m]
    have stay: "\<not> (link t)\<^sup>+\<^sup>+ p c" if "c \<in> set (children m)" for c
      using links_parent_cases[OF _ assms(1) wf(5)[OF that]] keep gone by blast
    have "c \<noteq> p" if "c \<in> set (children n)" for c
      using that n wf(4,5)[of p] by (auto simp: unlink_child_def split: if_splits)
    moreover have "set (children n) \<subseteq> set (children m)" "distinct (children n)"
      using n wf(3) by (auto simp: unlink_child_def)
    moreover have "node_path n = q" "parent_path n = parent q"
      using n wf(1,2) by (auto simp: unlink_child_def)
    ultimately show ?thesis
      using wf(4,5) stay unfolding node_ok_def list_all_iff hm_contains_iff dom' gone by blast
  qed
  then show ?thesis
    using nodes'(2) by (simp add: tree_wf_iff)
qed

lemma resolve_mut_wf:
  assumes "tree_wf t" and "\<And>n. node_path (f n) = node_path n \<and> parent_path (f n) = parent_path n \<and>
    children (f n) = children n"
  shows "tree_wf (resolve_mut t p f)"
proof -
  let ?t = "resolve_mut t p f"
  have dom: "dom (map_of (nodes ?t)) = dom (map_of (nodes t))"
    by (auto simp: resolve_mut_def split: if_splits)
  have "node_ok ?t q n" if n: "map_of (nodes ?t) q = Some n" for q n
  proof -
    obtain m where m: "map_of (nodes t) q = Some m" "node_path n = node_path m"
      "parent_path n = parent_path m" "children n = children m"
      using n assms(2) by (auto simp: resolve_mut_def split: if_splits)
    show ?thesis
      using tree_wfD[OF assms(1) m(1)] m(2-4) by (intro node_okI) (auto simp: dom simp del: domIff)
  qed
  moreover have "hm_wf (nodes ?t)"
    using assms(1) by (simp add: resolve_mut_def tree_wf_iff)
  ultimately show ?thesis by (simp add: tree_wf_iff)
qed

section \<open>The walk towards the root\<close>

lemma proper_prefixes_rec:
  "proper_prefixes p = (case parent p of None \<Rightarrow> [] | Some q \<Rightarrow> q # proper_prefixes q)"
proof (cases "length (segments p) \<le> 1")
  case True
  then have "[1..<length (segments p)] = []" by simp
  then show ?thesis using True by (simp add: proper_prefixes_def parent_conv)
next
  case False
  then obtain n where n: "length (segments p) = Suc n" "1 \<le> n"
    by (cases "length (segments p)") auto
  then have "proper_prefixes p =
      path_of (take n (segments p)) # map (\<lambda>k. path_of (take k (segments p))) (rev [1..<n])"
    by (simp add: proper_prefixes_def)
  moreover have "map (\<lambda>k. path_of (take k (segments p))) (rev [1..<n]) =
      proper_prefixes (path_of (take n (segments p)))"
    using n by (auto simp: proper_prefixes_def min_def)
  ultimately show ?thesis
    using n by (simp add: parent_conv butlast_conv_take)
qed

lemma ancestors_loop_wf:
  assumes "tree_wf t"
  shows "ancestors_loop t (parent p) acc =
    Some (acc @ map (\<lambda>q. the (map_of (nodes t) q))
      (takeWhile (hm_contains (nodes t)) (proper_prefixes p)))"
proof (induction "depth p" arbitrary: p acc rule: less_induct)
  case less
  show ?case
  proof (cases "parent p")
    case None
    then show ?thesis
      by (subst ancestors_loop.simps, subst proper_prefixes_rec) simp
  next
    case (Some q)
    show ?thesis
    proof (cases "map_of (nodes t) q")
      case None
      then show ?thesis
        using Some by (subst ancestors_loop.simps, subst proper_prefixes_rec) (simp add: domIff)
    next
      case (Some n)
      have "depth q < depth p" using \<open>parent p = Some q\<close> parent_depth by fastforce
      from less[OF this, of "acc @ [n]"] Some \<open>parent p = Some q\<close> tree_wfD(1)[OF assms Some]
      show ?thesis
        by (subst ancestors_loop.simps, subst proper_prefixes_rec) (simp add: domIff)
    qed
  qed
qed

section \<open>Runs of the tree\<close>

inductive tree_step :: "agent_tree \<Rightarrow> agent_tree \<Rightarrow> bool" where
  step_register: "register now p name md t = Inr t' \<Longrightarrow> tree_step t t'"
| step_remove: "valid_order ord \<Longrightarrow> remove_subtree ord p t = Some (removed, t') \<Longrightarrow> tree_step t t'"
| step_lifecycle: "tree_step t (resolve_mut t p (\<lambda>n. node_set_lifecycle n st))"
| step_budget: "tree_step t (resolve_mut t p (\<lambda>n. n\<lparr>budget := b\<rparr>))"

inductive_cases tree_stepE: "tree_step t t'"

interpretation tree_sys: invariant_system tree_step tree_wf
  by unfold_locales
    (auto elim!: tree_stepE intro: register_wf remove_subtree_wf resolve_mut_wf
      simp: node_set_lifecycle_def)

lemmas tree_run_wf = tree_sys.run_inv[OF _ tree_new_wf]

section \<open>A small tree for the witnesses\<close>

text \<open>The agents \<open>root\<close> and \<open>root/a\<close>, registered in that order.\<close>

definition ex_root :: agent_path where "ex_root = path_of [''root'']"
definition ex_child :: agent_path where "ex_child = path_of [''root'', ''a'']"

definition ex_register :: "agent_path \<Rightarrow> agent_tree \<Rightarrow> agent_tree" where
  "ex_register p t =
     (case register 0 p (to_path_string p) (metadata_new 0) t of Inl _ \<Rightarrow> t | Inr t' \<Rightarrow> t')"

definition ex_tree :: agent_tree where
  "ex_tree = ex_register ex_child (ex_register ex_root tree_new)"

lemmas tree_eval = ex_register_def ex_root_def ex_child_def tree_new_def register_def node_new_def
  path_of_def parent_def Let_def hm_contains_def hm_insert_def hm_modify_def link_child_def
  hm_remove_def

lemma ex_register_run: "tree_step\<^sup>*\<^sup>* t (ex_register p t)"
  by (auto simp: ex_register_def split: sum.splits intro: step_register)

lemma ex_tree_run: "tree_step\<^sup>*\<^sup>* tree_new ex_tree"
  unfolding ex_tree_def by (rule rtranclp_trans[OF ex_register_run ex_register_run])

lemma ex_tree_eval:
  "ex_tree = \<lparr>nodes =
     [(ex_root, (node_new 0 ex_root ''root'' (metadata_new 0))\<lparr>children := [ex_child]\<rparr>),
      (ex_child, (node_new 0 ex_child ''root/a'' (metadata_new 0))\<lparr>parent_path := Some ex_root\<rparr>)],
     root_path = Some ex_root\<rparr>"
  by (simp add: ex_tree_def tree_eval to_path_string_def)

lemma ex_tree_link: "link ex_tree ex_root ex_child"
  by (simp add: link_def ex_tree_eval)

section \<open>Properties\<close>

text \<open>C1: every tree that a run of registrations, removals, lifecycle and budget updates reaches
  from the empty tree is a well-formed index: each node is stored under its own path with the
  parent that path has, and its child list has no duplicates and names registered paths whose
  parent it is.\<close>

theorem agent_tree_reachable_wf:
  assumes "tree_step\<^sup>*\<^sup>* tree_new t"
  shows "tree_wf t"
  using assms by (rule tree_run_wf)

theorem agent_tree_reachable_wf_witness: "tree_wf ex_tree"
  by (rule agent_tree_reachable_wf[OF ex_tree_run])

text \<open>C8: on every reachable tree the two breadth-first loops end; they return, without
  repetition, exactly the registered paths that the child links lead to from the start, and the
  nodes stored there; each such path extends the start.\<close>

theorem agent_tree_descendants_exact:
  assumes "tree_step\<^sup>*\<^sup>* tree_new t"
  shows "\<exists>ps. descendant_paths t p = Some ps \<and> distinct ps \<and> set ps = {c. (link t)\<^sup>+\<^sup>+ p c} \<and>
    descendants t p = Some (map (\<lambda>c. the (resolve t c)) ps) \<and>
    (\<forall>c \<in> set ps. resolve t c \<noteq> None \<and> (\<exists>ss. ss \<noteq> [] \<and> segments c = segments p @ ss))"
proof -
  have wf: "tree_wf t" by (rule tree_run_wf[OF assms])
  from descendant_paths_wf[OF wf, of p] show ?thesis
    using links_dom[OF wf] links_segments[OF _ wf]
    by (fastforce simp: resolve_def)
qed

theorem agent_tree_descendants_exact_witness:
  "\<exists>ps. descendant_paths ex_tree ex_root = Some ps \<and> ex_child \<in> set ps"
  using agent_tree_descendants_exact[OF ex_tree_run, of ex_root] ex_tree_link by auto

text \<open>Removing a sub-tree of a reachable tree ends, reports the removed path first and then
  every linked descendant once, leaves exactly the other registered paths, and changes no
  remaining node but the parent, whose child list loses the removed path.\<close>

theorem agent_tree_remove_subtree_exact:
  assumes "tree_step\<^sup>*\<^sup>* tree_new t"
  shows "\<exists>removed t'. remove_subtree ord p t = Some (removed, t') \<and>
    hd removed = p \<and> distinct removed \<and> set removed = insert p {c. (link t)\<^sup>+\<^sup>+ p c} \<and>
    (\<forall>q. resolve t' q =
       (if q \<in> set removed then None
        else if resolve t p \<noteq> None \<and> parent p = Some q then map_option (unlink_child p) (resolve t q)
        else resolve t q))"
proof -
  have wf: "tree_wf t" by (rule tree_run_wf[OF assms])
  obtain removed t' where r: "remove_subtree ord p t = Some (removed, t')"
    by (rule remove_subtree_cases[OF wf])
  show ?thesis
    using r remove_subtree_removed[OF wf r]
    by (intro exI[of _ removed] exI[of _ t'])
      (simp add: resolve_def domIff remove_subtree_nodes(1)[OF wf r] del: not_None_eq)
qed

theorem agent_tree_remove_subtree_exact_witness:
  "\<exists>removed t'. remove_subtree rev ex_root ex_tree = Some (removed, t') \<and> ex_child \<in> set removed \<and>
     resolve t' ex_child = None"
  using agent_tree_remove_subtree_exact[OF ex_tree_run, of rev ex_root] ex_tree_link by auto

text \<open>The walk towards the root ends on every reachable tree and returns the nodes of the
  path's proper prefixes, nearest first, up to the first one that is not registered.\<close>

theorem agent_tree_ancestors_exact:
  assumes "tree_step\<^sup>*\<^sup>* tree_new t"
  shows "\<exists>ns. ancestors t p = Some ns \<and>
    map node_path ns = takeWhile (\<lambda>q. resolve t q \<noteq> None) (proper_prefixes p)"
proof -
  have wf: "tree_wf t" by (rule tree_run_wf[OF assms])
  have "node_path (the (map_of (nodes t) q)) = q" if "hm_contains (nodes t) q" for q
    using that tree_wfD(1)[OF wf, of q] by auto
  then have "map node_path (map (\<lambda>q. the (map_of (nodes t) q))
      (takeWhile (hm_contains (nodes t)) (proper_prefixes p))) =
      takeWhile (hm_contains (nodes t)) (proper_prefixes p)"
    unfolding map_map by (intro map_idI) (auto dest: set_takeWhileD)
  then show ?thesis
    using ancestors_loop_wf[OF wf, of p "[]"]
    by (simp add: ancestors_def resolve_def domIff hm_contains_iff[abs_def])
qed

theorem agent_tree_ancestors_exact_witness:
  "\<exists>ns. ancestors ex_tree ex_child = Some ns \<and> map node_path ns = [ex_root]"
  using agent_tree_ancestors_exact[OF ex_tree_run, of ex_child]
  by (simp add: proper_prefixes_def ex_tree_eval ex_child_def ex_root_def path_of_def resolve_def
      upt_rec)

text \<open>Registration does not link a child that was registered before its parent, although the
  comment in the code says that the link is established then: after the parent is registered the
  child is not among its descendants, and removing the parent's sub-tree leaves the child
  registered.\<close>

theorem agent_tree_late_parent_unlinked:
  assumes "tree_step\<^sup>*\<^sup>* tree_new t" and "resolve t c \<noteq> None" and "parent c = Some p"
    and "register now p name md t = Inr t'"
  shows "\<not> (link t')\<^sup>+\<^sup>+ p c \<and>
    (\<exists>removed t''. remove_subtree ord p t' = Some (removed, t'') \<and> resolve t'' c \<noteq> None)"
proof -
  have wf: "tree_wf t'"
    by (rule register_wf[OF tree_run_wf[OF assms(1)] assms(4)])
  have "map_of (nodes t') p = Some ((node_new now p name md)\<lparr>parent_path := parent p\<rparr>)"
    using register_result(2)[OF assms(4), of p] by simp
  then have "\<not> link t' p b" for b by (simp add: link_def node_new_def)
  then have no: "\<not> (link t')\<^sup>+\<^sup>+ p b" for b
    using links_first[of t' p b] by blast
  obtain removed t'' where r: "remove_subtree ord p t' = Some (removed, t'')"
    by (rule remove_subtree_cases[OF wf])
  have "c \<noteq> p" using assms(3) parent_neq_self by blast
  moreover have "c \<in> dom (map_of (nodes t'))"
    using assms(2) register_dom[OF assms(4)] by (auto simp: resolve_def)
  ultimately have "c \<in> dom (map_of (nodes t''))"
    using remove_subtree_dom[OF wf r] remove_subtree_removed(1)[OF wf r] no by auto
  then show ?thesis using r no by (auto simp: resolve_def)
qed

theorem agent_tree_late_parent_unlinked_witness:
  "\<exists>removed t''. remove_subtree rev ex_root (ex_register ex_root (ex_register ex_child tree_new)) =
     Some (removed, t'') \<and> resolve t'' ex_child \<noteq> None"
proof -
  let ?t = "ex_register ex_child tree_new"
  have "register 0 ex_root ''root'' (metadata_new 0) ?t = Inr (ex_register ex_root ?t)"
    by (simp add: tree_eval to_path_string_def)
  moreover have "resolve ?t ex_child \<noteq> None" "parent ex_child = Some ex_root"
    by (simp_all add: tree_eval resolve_def)
  ultimately show ?thesis
    using agent_tree_late_parent_unlinked[OF ex_register_run[of tree_new ex_child]] by blast
qed

text \<open>The cached root can dangle. The code replaces a removed root by an arbitrary registered
  path; if that path lies below another agent, removing that agent's sub-tree leaves the cache
  pointing to an unregistered path, so that the tree is not empty but reports no root.\<close>

theorem agent_tree_root_cache_dangles:
  "\<exists>t r. tree_step\<^sup>*\<^sup>* tree_new t \<and> root_path t = Some r \<and> resolve t r = None \<and>
     tree_root t = None \<and> \<not> tree_is_empty t"
proof -
  let ?x = "path_of [''x'']" and ?y = "path_of [''y'']" and ?a = "ex_root" and ?b = "ex_child"
  let ?t0 = "ex_register ?b (ex_register ?a (ex_register ?y (ex_register ?x tree_new)))"
  let ?t1 = "snd (the (remove_subtree rev ?x ?t0))"
  let ?t2 = "snd (the (remove_subtree rev ?a ?t1))"
  note ev = tree_eval remove_subtree_def descendant_paths_def descendant_paths_loop.simps
    hm_keys_def unlink_child_def
  have run0: "tree_step\<^sup>*\<^sup>* tree_new ?t0"
    by (meson ex_register_run rtranclp_trans)
  have "tree_step ?t0 ?t1"
    by (rule step_remove[of rev ?x _ "[?x]"]) (simp_all add: ev)
  moreover have "tree_step ?t1 ?t2"
    by (rule step_remove[of rev ?a _ "[?a, ?b]"]) (simp_all add: ev)
  moreover have "root_path ?t2 = Some ?b" "resolve ?t2 ?b = None" "\<not> tree_is_empty ?t2"
    by (simp_all add: ev resolve_def tree_is_empty_def)
  ultimately show ?thesis
    using run0
    by (intro exI[of _ ?t2] exI[of _ ?b]) (auto simp: tree_root_def resolve_def)
qed

end
