(* ===== verification/AgentMessenger.thy ===== *)
theory AgentMessenger
  imports AgentTree
begin

text \<open>
  Message routing and delivery, \<open>src/agents/communication/messenger.rs\<close>. The state is the map of
  inboxes and their capacity. A send reads the agent tree once to resolve its targets and then
  takes the lock of the inboxes anew for every target; the retries of the at-least-once send sleep
  between attempts. What other tasks do to the messenger before the lock is taken for the \<open>i\<close>-th
  target of attempt \<open>a\<close> is the argument \<open>env a i\<close>. The watch channel that carries a notification
  number has no receiver in this code, so it and the global counter of these numbers are left out.
  What the messenger relies on of the tree is the interface \<open>agent_directory\<close>.
\<close>

section \<open>Definitions\<close>

record agent_messenger =
  inboxes :: "(agent_path, agent_message list) hmap"
  max_inbox_size :: usize

datatype send_error =
    NoReceivers agent_target
  | DeliveryFailed "agent_path option"

definition default_inbox_capacity :: usize where
  "default_inbox_capacity = 1024"

definition messenger_new :: agent_messenger where
  "messenger_new = \<lparr>inboxes = [], max_inbox_size = default_inbox_capacity\<rparr>"

definition resolve_targets ::
  "agent_path iter_order \<Rightarrow> agent_tree \<Rightarrow> agent_message \<Rightarrow> agent_path list" where
  "resolve_targets ord t msg =
     (case msg_to msg of
        ToParent \<Rightarrow> (case parent (msg_from msg) of None \<Rightarrow> [] | Some p \<Rightarrow> [p])
      | target \<Rightarrow> map node_path (resolve_target ord t target))"

definition deliver_single ::
  "agent_message \<Rightarrow> agent_path \<Rightarrow> agent_messenger \<Rightarrow> bool \<times> agent_messenger" where
  "deliver_single msg p m =
     (let inbox = (case hm_get (inboxes m) p of None \<Rightarrow> [] | Some q \<Rightarrow> q) in
      if length inbox < unat (max_inbox_size m)
      then (True, m\<lparr>inboxes := hm_insert p (inbox @ [msg]) (inboxes m)\<rparr>)
      else (False, m\<lparr>inboxes := hm_insert p inbox (inboxes m)\<rparr>))"

definition inbox_size :: "agent_messenger \<Rightarrow> agent_path \<Rightarrow> nat" where
  "inbox_size m p = (case hm_get (inboxes m) p of None \<Rightarrow> 0 | Some q \<Rightarrow> length q)"

definition remove_inbox :: "agent_path \<Rightarrow> agent_messenger \<Rightarrow> agent_messenger" where
  "remove_inbox p m = m\<lparr>inboxes := hm_remove p (inboxes m)\<rparr>"

text \<open>What other tasks can do between two locks of a send: the map of inboxes is private, so they deliver messages
  (of any kind, to any path) and remove inboxes.\<close>

datatype inbox_op = OpDeliver agent_message agent_path | OpRemove agent_path

fun apply_op :: "inbox_op \<Rightarrow> agent_messenger \<Rightarrow> agent_messenger" where
  "apply_op (OpDeliver msg p) m = snd (deliver_single msg p m)"
| "apply_op (OpRemove p) m = remove_inbox p m"

type_synonym inbox_env = "nat \<Rightarrow> nat \<Rightarrow> agent_messenger \<Rightarrow> agent_messenger"

definition idle :: inbox_env where
  "idle a i m = m"

text \<open>The loops over the targets; \<open>i\<close> is the position of the target.\<close>

fun deliver_to_targets ::
  "(nat \<Rightarrow> agent_messenger \<Rightarrow> agent_messenger) \<Rightarrow> agent_message \<Rightarrow> agent_path list \<Rightarrow> nat \<Rightarrow> agent_messenger \<Rightarrow>
   agent_messenger" where
  "deliver_to_targets env msg [] i m = m"
| "deliver_to_targets env msg (target # targets) i m =
     deliver_to_targets env msg targets (Suc i) (snd (deliver_single msg target (env i m)))"

fun deliver_with_check ::
  "(nat \<Rightarrow> agent_messenger \<Rightarrow> agent_messenger) \<Rightarrow> agent_message \<Rightarrow> agent_path list \<Rightarrow> nat \<Rightarrow> agent_messenger \<Rightarrow>
   (agent_path + unit) \<times> agent_messenger" where
  "deliver_with_check env msg [] i m = (Inr (), m)"
| "deliver_with_check env msg (target # targets) i m =
     (case deliver_single msg target (env i m) of
        (delivered, m') \<Rightarrow>
          (if \<not> delivered then (Inl target, m') else deliver_with_check env msg targets (Suc i) m'))"

definition send_at_most_once ::
  "inbox_env \<Rightarrow> agent_path iter_order \<Rightarrow> agent_tree \<Rightarrow> agent_message \<Rightarrow> agent_messenger \<Rightarrow>
   (send_error + unit) \<times> agent_messenger" where
  "send_at_most_once env ord t msg m =
     (let targets = resolve_targets ord t msg in
      if targets = [] then (Inl (NoReceivers (msg_to msg)), m)
      else (Inr (), deliver_to_targets (env 0) msg targets 0 m))"

text \<open>The attempt loop: \<open>attempt\<close> counts from 0 and the second number is how many attempts are
  left. What other tasks do during the sleep after a failed attempt belongs to the first target of
  the next one.\<close>

fun attempt_loop ::
  "inbox_env \<Rightarrow> agent_message \<Rightarrow> agent_path list \<Rightarrow> nat \<Rightarrow> nat \<Rightarrow> agent_path option \<Rightarrow> agent_messenger \<Rightarrow>
   (send_error + unit) \<times> agent_messenger" where
  "attempt_loop env msg targets attempt 0 last_error m = (Inl (DeliveryFailed last_error), m)"
| "attempt_loop env msg targets attempt (Suc left) last_error m =
     (case deliver_with_check (env attempt) msg targets 0 m of
        (Inr _, m') \<Rightarrow> (Inr (), m')
      | (Inl e, m') \<Rightarrow> attempt_loop env msg targets (Suc attempt) left (Some e) m')"

definition send_at_least_once ::
  "inbox_env \<Rightarrow> agent_path iter_order \<Rightarrow> agent_tree \<Rightarrow> agent_message \<Rightarrow> agent_messenger \<Rightarrow>
   (send_error + unit) \<times> agent_messenger" where
  "send_at_least_once env ord t msg m =
     (let targets = resolve_targets ord t msg in
      if targets = [] then (Inl (NoReceivers (msg_to msg)), m)
      else attempt_loop env msg targets 0 3 None m)"

definition send ::
  "inbox_env \<Rightarrow> agent_path iter_order \<Rightarrow> agent_tree \<Rightarrow> agent_message \<Rightarrow> agent_messenger \<Rightarrow>
   (send_error + unit) \<times> agent_messenger" where
  "send env ord t msg m =
     (case msg_kind msg of
        Delegate _ _ _ _ \<Rightarrow> send_at_least_once env ord t msg m
      | Cancel _ \<Rightarrow> send_at_least_once env ord t msg m
      | Result _ _ _ _ _ _ _ _ \<Rightarrow> send_at_least_once env ord t msg m
      | _ \<Rightarrow> send_at_most_once env ord t msg m)"

text \<open>The messages queued for a path, and the bound the capacity sets.\<close>

definition inbox_of :: "agent_messenger \<Rightarrow> agent_path \<Rightarrow> agent_message list" where
  "inbox_of m p = (case hm_get (inboxes m) p of None \<Rightarrow> [] | Some q \<Rightarrow> q)"

definition messenger_ok :: "agent_messenger \<Rightarrow> bool" where
  "messenger_ok m =
     (hm_wf (inboxes m) \<and>
      list_all (\<lambda>(p, q). length q \<le> unat (max_inbox_size m)) (inboxes m))"

section \<open>Interface: the directory of agents\<close>

text \<open>What the messenger relies on of the agent tree: a resolved node is the one registered under
  its own path, and no path is resolved twice.\<close>

locale agent_directory =
  fixes registered :: "'t \<Rightarrow> agent_path \<Rightarrow> agent_node option"
    and find_all :: "agent_path iter_order \<Rightarrow> 't \<Rightarrow> agent_target \<Rightarrow> agent_node list"
    and dir_ok :: "'t \<Rightarrow> bool"
  assumes find_registered: "dir_ok t \<Longrightarrow> valid_order ord \<Longrightarrow> n \<in> set (find_all ord t target) \<Longrightarrow>
      registered t (node_path n) = Some n"
    and find_distinct: "dir_ok t \<Longrightarrow> valid_order ord \<Longrightarrow> distinct (find_all ord t target)"
begin

lemma found_paths_distinct:
  assumes "dir_ok t" and "valid_order ord"
  shows "distinct (map node_path (find_all ord t target))"
proof -
  have "inj_on node_path (set (find_all ord t target))"
    by (rule inj_onI) (metis find_registered[OF assms] option.inject)
  then show ?thesis
    using find_distinct[OF assms] by (simp add: distinct_map)
qed

lemma found_paths_registered:
  assumes "dir_ok t" and "valid_order ord"
    and "p \<in> set (map node_path (find_all ord t target))"
  shows "registered t p \<noteq> None"
  using assms(3) find_registered[OF assms(1,2)] by auto

end

lemma hm_values_distinct_by:
  assumes "hm_wf m" and "valid_order ord" and "\<And>k v. map_of m k = Some v \<Longrightarrow> f v = k"
  shows "distinct (map f (hm_values ord m))"
proof -
  have "map f (hm_values ord m) = ord (map fst m)"
    unfolding hm_values_def map_map
    using assms(2,3) by (intro map_idI) (fastforce simp: dom_map_of_conv_image_fst[symmetric])
  then show ?thesis using assms(1,2) by (simp add: hm_wf_def)
qed

interpretation tree_dir: agent_directory resolve resolve_target tree_wf
proof unfold_locales
  fix t ord n target
  assume wf: "tree_wf t" and ord: "valid_order ord" and n: "n \<in> set (resolve_target ord t target)"
  then obtain p where "map_of (nodes t) p = Some n"
    by (auto simp: resolve_target_def ran_def split: agent_target.splits option.splits)
  then show "resolve t (node_path n) = Some n"
    using tree_wfD(1)[OF wf] by (simp add: resolve_def)
next
  fix t :: agent_tree and ord :: "agent_path iter_order" and target
  assume wf: "tree_wf t" and ord: "valid_order ord"
  have "distinct (map node_path (hm_values ord (nodes t)))"
    using wf tree_wfD(1)[OF wf] by (intro hm_values_distinct_by ord) (auto simp: tree_wf_iff)
  then have "distinct (hm_values ord (nodes t))"
    by (simp add: distinct_map)
  then show "distinct (resolve_target ord t target)"
    by (auto simp: resolve_target_def split: agent_target.splits option.splits)
qed

lemma resolve_targets_distinct:
  "tree_wf t \<Longrightarrow> valid_order ord \<Longrightarrow> distinct (resolve_targets ord t msg)"
  using tree_dir.found_paths_distinct[of t ord]
  by (auto simp: resolve_targets_def split: agent_target.splits option.splits)

lemma resolve_targets_registered:
  assumes "tree_wf t" and "valid_order ord" and "msg_to msg \<noteq> ToParent"
    and "p \<in> set (resolve_targets ord t msg)"
  shows "resolve t p \<noteq> None"
  using assms tree_dir.found_paths_registered[OF assms(1,2), of p "msg_to msg"]
  by (cases "msg_to msg") (auto simp: resolve_targets_def)

section \<open>Delivery\<close>

lemma inbox_of_deliver_single:
  "inbox_of (snd (deliver_single msg p m)) q =
     (if q = p \<and> fst (deliver_single msg p m) then inbox_of m p @ [msg] else inbox_of m q)"
  by (auto simp: deliver_single_def inbox_of_def Let_def split: option.splits)

lemma fst_deliver_single:
  "fst (deliver_single msg p m) \<longleftrightarrow> length (inbox_of m p) < unat (max_inbox_size m)"
  by (auto simp: deliver_single_def inbox_of_def Let_def split: option.splits)

lemma max_inbox_deliver_single [simp]:
  "max_inbox_size (snd (deliver_single msg p m)) = max_inbox_size m"
  by (auto simp: deliver_single_def Let_def)

lemma inbox_of_deliver_to_targets:
  "distinct targets \<Longrightarrow> inbox_of (deliver_to_targets (idle a) msg targets i m) q =
     (if q \<in> set targets \<and> length (inbox_of m q) < unat (max_inbox_size m)
      then inbox_of m q @ [msg] else inbox_of m q)"
  by (induction targets arbitrary: m i)
    (auto simp: inbox_of_deliver_single fst_deliver_single idle_def)

text \<open>Between two moments an inbox that nobody removes only grows at its end.\<close>

definition grows :: "agent_path \<Rightarrow> agent_messenger \<Rightarrow> agent_messenger \<Rightarrow> bool" where
  "grows p m m' \<longleftrightarrow> (\<exists>ys. inbox_of m' p = inbox_of m p @ ys)"

lemma grows_refl: "grows p m m"
  by (simp add: grows_def)

lemma grows_trans: "grows p m m1 \<Longrightarrow> grows p m1 m2 \<Longrightarrow> grows p m m2"
  by (auto simp: grows_def)

lemma deliver_single_grows: "grows p m (snd (deliver_single msg q m))"
  by (simp add: grows_def inbox_of_deliver_single)

lemma apply_ops_grow: "OpRemove p \<notin> set ops \<Longrightarrow> grows p m (fold apply_op ops m)"
proof (induction ops arbitrary: m)
  case (Cons op ops)
  have "grows p m (apply_op op m)"
    using Cons.prems deliver_single_grows by (cases op) (auto simp: grows_def remove_inbox_def inbox_of_def)
  then show ?case using Cons grows_trans[of p m] by simp
qed (simp add: grows_refl)

lemma deliver_with_check_grows:
  assumes "\<And>j. i \<le> j \<Longrightarrow> j < i + length targets \<Longrightarrow> OpRemove p \<notin> set (ops j)"
  shows "grows p m (snd (deliver_with_check (\<lambda>j. fold apply_op (ops j)) msg targets i m))"
  using assms
proof (induction targets arbitrary: i m)
  case (Cons q targets)
  obtain b m1 where d: "deliver_single msg q (fold apply_op (ops i) m) = (b, m1)" by fastforce
  have "grows p m (fold apply_op (ops i) m)" using Cons.prems[of i] by (simp add: apply_ops_grow)
  then have m1: "grows p m m1" using deliver_single_grows[of p _ msg q] d grows_trans by (metis snd_conv)
  have "grows p m1 (snd (deliver_with_check (\<lambda>j. fold apply_op (ops j)) msg targets (Suc i) m1))"
    by (rule Cons.IH) (use Cons.prems in simp)
  then show ?case using d m1 grows_trans[OF m1] by simp
qed (simp add: grows_refl)

text \<open>A delivery that succeeds has queued the message for every target; it stays queued unless the inbox is removed
  while the later targets are served, and it is behind the old messages unless the inbox was removed before.\<close>

lemma deliver_with_check_queues:
  assumes "deliver_with_check (\<lambda>j. fold apply_op (ops j)) msg targets i m = (Inr (), m')" and "k < length targets"
    and "\<And>j. i + k < j \<Longrightarrow> j < i + length targets \<Longrightarrow> OpRemove (targets ! k) \<notin> set (ops j)"
  shows "\<exists>xs ys. inbox_of m' (targets ! k) = xs @ msg # ys \<and>
    ((\<forall>j. i \<le> j \<and> j \<le> i + k \<longrightarrow> OpRemove (targets ! k) \<notin> set (ops j)) \<longrightarrow> (\<exists>zs. xs = inbox_of m (targets ! k) @ zs))"
  using assms
proof (induction targets arbitrary: i k m)
  case (Cons q targets)
  let ?env = "\<lambda>j. fold apply_op (ops j)" and ?m0 = "fold apply_op (ops i) m"
  obtain b m1 where d: "deliver_single msg q ?m0 = (b, m1)" by fastforce
  with Cons.prems(1) have b: b and rest: "deliver_with_check ?env msg targets (Suc i) m1 = (Inr (), m')"
    by (auto split: if_splits)
  show ?case
  proof (cases k)
    case 0
    have m1: "inbox_of m1 q = inbox_of ?m0 q @ [msg]" using inbox_of_deliver_single[of msg q ?m0 q] d b by simp
    have "grows q m1 m'"
      using deliver_with_check_grows[of "Suc i" targets q ops m1 msg] Cons.prems(3) rest 0 by simp
    then obtain ys where "inbox_of m' q = inbox_of ?m0 q @ msg # ys" unfolding grows_def m1 by auto
    moreover have "OpRemove q \<notin> set (ops i) \<Longrightarrow> \<exists>zs. inbox_of ?m0 q = inbox_of m q @ zs"
      using apply_ops_grow[of q "ops i" m] by (simp add: grows_def)
    ultimately show ?thesis using 0 by auto
  next
    case (Suc k')
    have "\<And>j. Suc i + k' < j \<Longrightarrow> j < Suc i + length targets \<Longrightarrow> OpRemove (targets ! k') \<notin> set (ops j)"
      using Cons.prems(3) Suc by simp
    from Cons.IH[OF rest _ this] Cons.prems(2) Suc obtain xs ys where
      xs: "inbox_of m' (targets ! k') = xs @ msg # ys"
        "(\<forall>j. Suc i \<le> j \<and> j \<le> Suc i + k' \<longrightarrow> OpRemove (targets ! k') \<notin> set (ops j)) \<Longrightarrow> \<exists>zs. xs = inbox_of m1 (targets ! k') @ zs"
      by auto
    have "grows (targets ! k') m m1" if "OpRemove (targets ! k') \<notin> set (ops i)"
      using apply_ops_grow[OF that] deliver_single_grows[of "targets ! k'" ?m0 msg q] d grows_trans by (metis snd_conv)
    then have "(\<forall>j. i \<le> j \<and> j \<le> i + k \<longrightarrow> OpRemove (targets ! k') \<notin> set (ops j)) \<Longrightarrow> \<exists>zs. xs = inbox_of m (targets ! k') @ zs"
      using xs(2) Suc by (fastforce simp: grows_def)
    then show ?thesis using xs(1) Suc by auto
  qed
qed simp

text \<open>\<open>extends k\<close>: the inboxes of the targets gained at most \<open>k\<close> copies of the message at their
  end and no other inbox changed.\<close>

definition extends_by ::
  "nat \<Rightarrow> agent_message \<Rightarrow> agent_path list \<Rightarrow> agent_messenger \<Rightarrow> agent_messenger \<Rightarrow> bool" where
  "extends_by k msg targets m m' \<longleftrightarrow> max_inbox_size m' = max_inbox_size m \<and>
     (\<forall>q. \<exists>j \<le> k. inbox_of m' q = inbox_of m q @ replicate j msg \<and> (q \<notin> set targets \<longrightarrow> j = 0))"

lemma extends_refl: "extends_by k msg targets m m"
  by (auto simp: extends_by_def intro: exI[of _ 0])

lemma extends_trans:
  assumes "extends_by i msg targets m m1" and "extends_by k msg targets m1 m2"
  shows "extends_by (i + k) msg targets m m2"
  unfolding extends_by_def
proof (intro conjI allI)
  fix q
  obtain a b where "a \<le> i" "inbox_of m1 q = inbox_of m q @ replicate a msg" "q \<notin> set targets \<longrightarrow> a = 0"
    "b \<le> k" "inbox_of m2 q = inbox_of m1 q @ replicate b msg" "q \<notin> set targets \<longrightarrow> b = 0"
    using assms unfolding extends_by_def by meson
  then show "\<exists>j \<le> i + k. inbox_of m2 q = inbox_of m q @ replicate j msg \<and> (q \<notin> set targets \<longrightarrow> j = 0)"
    by (intro exI[of _ "a + b"]) (auto simp: replicate_add)
qed (use assms in \<open>auto simp: extends_by_def\<close>)

lemma extends_mono: "i \<le> k \<Longrightarrow> extends_by i msg targets m m' \<Longrightarrow> extends_by k msg targets m m'"
  unfolding extends_by_def by (meson order_trans)

lemma deliver_with_check_extends:
  assumes "distinct targets"
  shows "extends_by 1 msg targets m (snd (deliver_with_check (idle a) msg targets i m))"
  using assms
proof (induction targets arbitrary: m i)
  case (Cons p targets)
  obtain b m1 where d: "deliver_single msg p (idle a i m) = (b, m1)" by fastforce
  have m1: "inbox_of m1 q = (if q = p \<and> b then inbox_of m p @ [msg] else inbox_of m q)"
    "max_inbox_size m1 = max_inbox_size m" for q
    using inbox_of_deliver_single[of msg p m q] max_inbox_deliver_single[of msg p m] d[unfolded idle_def] by simp_all
  show ?case
  proof (cases b)
    case False
    then show ?thesis
      using d m1 by (auto simp: extends_by_def intro: exI[of _ 0])
  next
    case True
    let ?m' = "snd (deliver_with_check (idle a) msg targets (Suc i) m1)"
    have ext: "extends_by 1 msg targets m1 ?m'"
      using Cons by simp
    have "\<exists>j \<le> 1. inbox_of ?m' q = inbox_of m q @ replicate j msg \<and> (q \<notin> set (p # targets) \<longrightarrow> j = 0)" for q
    proof (cases "q = p")
      case True
      then have "inbox_of ?m' q = inbox_of m1 q"
        using ext Cons.prems unfolding extends_by_def by force
      then show ?thesis using True m1 \<open>b\<close> by (intro exI[of _ 1]) auto
    next
      case False
      obtain j where "j \<le> 1" "inbox_of ?m' q = inbox_of m1 q @ replicate j msg" "q \<notin> set targets \<longrightarrow> j = 0"
        using ext unfolding extends_by_def by blast
      with False show ?thesis using m1(1)[of q] by (intro exI[of _ j]) auto
    qed
    then show ?thesis
      using d True ext m1(2) by (simp add: extends_by_def)
  qed
qed (simp add: extends_refl)

lemma attempt_loop_extends:
  assumes "distinct targets"
  shows "extends_by left msg targets m (snd (attempt_loop idle msg targets attempt left last_error m))"
proof (induction left arbitrary: attempt last_error m)
  case (Suc left)
  obtain r m1 where d: "deliver_with_check (idle attempt) msg targets 0 m = (r, m1)" by fastforce
  have e: "extends_by 1 msg targets m m1"
    using deliver_with_check_extends[OF assms, of msg m attempt 0] d by simp
  show ?case
  proof (cases r)
    case (Inl e')
    then show ?thesis
      using d extends_trans[OF e Suc.IH, of "Suc attempt" "Some e'"] by simp
  next
    case (Inr u)
    then show ?thesis using d extends_mono[OF _ e, of "Suc left"] by simp
  qed
qed (simp add: extends_refl)

text \<open>The attempt that succeeded.\<close>

lemma attempt_loop_ok:
  assumes "attempt_loop (\<lambda>a i. fold apply_op (ops a i)) msg targets attempt left last_error m = (Inr (), m')"
  obtains a m0 where "attempt \<le> a" "a < attempt + left"
    "deliver_with_check (\<lambda>i. fold apply_op (ops a i)) msg targets 0 m0 = (Inr (), m')"
    "\<And>p. (\<And>a' j. a' < a \<Longrightarrow> OpRemove p \<notin> set (ops a' j)) \<Longrightarrow> grows p m m0"
  using assms
proof (induction left arbitrary: attempt last_error m thesis)
  case (Suc left)
  obtain r m1 where d: "deliver_with_check (\<lambda>i. fold apply_op (ops attempt i)) msg targets 0 m = (r, m1)" by fastforce
  show ?case
  proof (cases r)
    case (Inl e)
    then have "attempt_loop (\<lambda>a i. fold apply_op (ops a i)) msg targets (Suc attempt) left (Some e) m1 = (Inr (), m')"
      using Suc.prems(2) d by simp
    then obtain a m0 where a: "Suc attempt \<le> a" "a < Suc attempt + left"
      "deliver_with_check (\<lambda>i. fold apply_op (ops a i)) msg targets 0 m0 = (Inr (), m')"
      "\<And>p. (\<And>a' j. a' < a \<Longrightarrow> OpRemove p \<notin> set (ops a' j)) \<Longrightarrow> grows p m1 m0"
      using Suc.IH by blast
    have "grows p m m0" if "\<And>a' j. a' < a \<Longrightarrow> OpRemove p \<notin> set (ops a' j)" for p
      using deliver_with_check_grows[of 0 targets p "ops attempt" m msg] d a(1) that a(4)[OF that] grows_trans[of p m m1 m0]
      by simp
    then show ?thesis using Suc.prems(1)[OF _ _ a(3)] a(1,2) by simp
  next
    case (Inr u)
    then show ?thesis using Suc.prems d grows_refl by (intro Suc.prems(1)[of attempt m]) auto
  qed
qed simp

lemma send_at_least_once_queues:
  assumes "send_at_least_once (\<lambda>a i. fold apply_op (ops a i)) ord t msg m = (Inr (), m')"
    and "targets = resolve_targets ord t msg"
  shows "targets \<noteq> [] \<and> (\<exists>a < 3. \<forall>k < length targets.
     (\<forall>j. k < j \<and> j < length targets \<longrightarrow> OpRemove (targets ! k) \<notin> set (ops a j)) \<longrightarrow>
       (\<exists>xs ys. inbox_of m' (targets ! k) = xs @ msg # ys \<and>
          ((\<forall>a' \<le> a. \<forall>j. OpRemove (targets ! k) \<notin> set (ops a' j)) \<longrightarrow> (\<exists>zs. xs = inbox_of m (targets ! k) @ zs))))"
proof -
  have ne: "targets \<noteq> []"
    and run: "attempt_loop (\<lambda>a i. fold apply_op (ops a i)) msg targets 0 3 None m = (Inr (), m')"
    using assms by (auto simp: send_at_least_once_def Let_def split: if_splits)
  obtain a m0 where a: "a < 0 + 3" "deliver_with_check (\<lambda>i. fold apply_op (ops a i)) msg targets 0 m0 = (Inr (), m')"
    "\<And>p. (\<And>a' j. a' < a \<Longrightarrow> OpRemove p \<notin> set (ops a' j)) \<Longrightarrow> grows p m m0"
    by (rule attempt_loop_ok[OF run]) blast
  have "\<exists>xs ys. inbox_of m' (targets ! k) = xs @ msg # ys \<and>
      ((\<forall>a' \<le> a. \<forall>j. OpRemove (targets ! k) \<notin> set (ops a' j)) \<longrightarrow> (\<exists>zs. xs = inbox_of m (targets ! k) @ zs))"
    if k: "k < length targets" and rm: "\<forall>j. k < j \<and> j < length targets \<longrightarrow> OpRemove (targets ! k) \<notin> set (ops a j)" for k
  proof -
    obtain xs ys where xs: "inbox_of m' (targets ! k) = xs @ msg # ys"
      "(\<forall>j. 0 \<le> j \<and> j \<le> 0 + k \<longrightarrow> OpRemove (targets ! k) \<notin> set (ops a j)) \<Longrightarrow> \<exists>zs. xs = inbox_of m0 (targets ! k) @ zs"
      using deliver_with_check_queues[OF a(2) k] rm by auto
    have "\<exists>zs. xs = inbox_of m (targets ! k) @ zs" if "\<forall>a' \<le> a. \<forall>j. OpRemove (targets ! k) \<notin> set (ops a' j)"
      using xs(2) a(3)[of "targets ! k"] that by (auto simp: grows_def)
    then show ?thesis using xs(1) by blast
  qed
  moreover have "a < 3" using a(1) by simp
  ultimately show ?thesis using ne by blast
qed

lemma send_targets:
  assumes "send env ord t msg m = (Inr (), m')"
  shows "resolve_targets ord t msg \<noteq> []"
  using assms by (auto simp: send_def send_at_least_once_def send_at_most_once_def Let_def
      split: agent_message_kind.splits if_splits)

section \<open>The capacity bound\<close>

lemma messenger_ok_iff:
  "messenger_ok m \<longleftrightarrow> hm_wf (inboxes m) \<and> (\<forall>p. length (inbox_of m p) \<le> unat (max_inbox_size m))"
  by (auto simp: messenger_ok_def list_all_map_of inbox_of_def split: option.splits)

lemma messenger_new_ok: "messenger_ok messenger_new"
  by (simp add: messenger_ok_def messenger_new_def)

lemma deliver_single_ok: "messenger_ok m \<Longrightarrow> messenger_ok (snd (deliver_single msg p m))"
  by (auto simp: messenger_ok_iff inbox_of_deliver_single fst_deliver_single Suc_le_eq)
    (simp add: deliver_single_def Let_def)

lemma deliver_to_targets_ok:
  assumes "\<And>i m. messenger_ok m \<Longrightarrow> messenger_ok (env i m)"
  shows "messenger_ok m \<Longrightarrow> messenger_ok (deliver_to_targets env msg targets i m)"
  by (induction targets arbitrary: m i) (auto simp: deliver_single_ok assms)

lemma deliver_with_check_Cons:
  "deliver_with_check env msg (p # targets) i m =
     (let d = deliver_single msg p (env i m) in
      if fst d then deliver_with_check env msg targets (Suc i) (snd d) else (Inl p, snd d))"
  by (simp add: Let_def split: prod.splits)

lemma deliver_with_check_ok_inv:
  assumes "\<And>i m. messenger_ok m \<Longrightarrow> messenger_ok (env i m)"
  shows "messenger_ok m \<Longrightarrow> messenger_ok (snd (deliver_with_check env msg targets i m))"
  by (induction targets arbitrary: m i)
    (simp_all add: deliver_with_check_Cons Let_def deliver_single_ok assms del: deliver_with_check.simps(2))

lemma attempt_loop_ok_inv:
  assumes "\<And>a i m. messenger_ok m \<Longrightarrow> messenger_ok (env a i m)"
  shows "messenger_ok m \<Longrightarrow> messenger_ok (snd (attempt_loop env msg targets attempt left last_error m))"
proof (induction left arbitrary: attempt last_error m)
  case (Suc left)
  obtain r m1 where d: "deliver_with_check (env attempt) msg targets 0 m = (r, m1)" by fastforce
  have "messenger_ok m1"
    using deliver_with_check_ok_inv[of "env attempt" m msg targets 0] assms Suc.prems d by simp
  then show ?case
    using d Suc.IH by (cases r) auto
qed simp

lemma send_ok_inv:
  assumes "messenger_ok m" and "\<And>a i m. messenger_ok m \<Longrightarrow> messenger_ok (env a i m)"
  shows "messenger_ok (snd (send env ord t msg m))"
proof -
  have "messenger_ok (snd (send_at_least_once env ord t msg m))"
    using attempt_loop_ok_inv[of env m] assms by (simp add: send_at_least_once_def Let_def)
  moreover have "messenger_ok (snd (send_at_most_once env ord t msg m))"
    using assms by (simp add: send_at_most_once_def Let_def deliver_to_targets_ok)
  ultimately show ?thesis
    by (cases "msg_kind msg") (simp_all add: send_def)
qed

lemma remove_inbox_ok: "messenger_ok m \<Longrightarrow> messenger_ok (remove_inbox p m)"
  by (auto simp: messenger_ok_iff remove_inbox_def inbox_of_def split: option.splits if_splits)

lemma apply_ops_ok: "messenger_ok m \<Longrightarrow> messenger_ok (fold apply_op ops m)"
proof (induction ops arbitrary: m)
  case (Cons op ops)
  then show ?case by (cases op) (simp_all add: deliver_single_ok remove_inbox_ok)
qed simp

section \<open>Properties\<close>

text \<open>C11: an at-least-once send takes the lock of the inboxes anew for every target of every attempt, and before each
  lock other tasks may deliver messages and remove inboxes (the lists \<open>ops\<close>). When it reports success, it
  has targets, and there is one attempt of the three after which the message is in the inbox of every target that
  nobody removed while the later targets of that attempt were served; where nobody removed the inbox during the
  whole send, the message is behind all messages that were queued before the send, and none of them is lost.
  Unless the target is the sender's parent, every target is registered.\<close>

theorem messenger_at_least_once_delivered:
  assumes "tree_wf t" and "valid_order ord"
    and "send_at_least_once (\<lambda>a i. fold apply_op (ops a i)) ord t msg m = (Inr (), m')"
    and "targets = resolve_targets ord t msg"
  shows "targets \<noteq> [] \<and>
    (\<exists>a < 3. \<forall>k < length targets.
       (\<forall>j. k < j \<and> j < length targets \<longrightarrow> OpRemove (targets ! k) \<notin> set (ops a j)) \<longrightarrow>
       (\<exists>xs ys. inbox_of m' (targets ! k) = xs @ msg # ys \<and>
          ((\<forall>a' \<le> a. \<forall>j. OpRemove (targets ! k) \<notin> set (ops a' j)) \<longrightarrow> (\<exists>zs. xs = inbox_of m (targets ! k) @ zs)))) \<and>
    (msg_to msg \<noteq> ToParent \<longrightarrow> (\<forall>p \<in> set targets. resolve t p \<noteq> None))"
  using send_at_least_once_queues[OF assms(3,4)] resolve_targets_registered[OF assms(1,2)] assms(4) by blast

definition ex_msg :: agent_message where
  "ex_msg = message_cancel ''id'' 0 ex_root (Direct ex_child) ''stop''"

text \<open>Another task delivers to the same inbox before the lock is taken.\<close>

definition ex_ops :: "nat \<Rightarrow> nat \<Rightarrow> inbox_op list" where
  "ex_ops a i = [OpDeliver (ex_msg\<lparr>msg_id := ''other''\<rparr>) ex_child]"

lemma ex_targets: "resolve_targets rev ex_tree ex_msg = [ex_child]"
  by (simp add: resolve_targets_def resolve_target_def ex_msg_def message_cancel_def message_new_def ex_tree_eval
      node_new_def ex_root_def ex_child_def path_of_def)

lemma ex_send:
  "send_at_least_once (\<lambda>a i. fold apply_op (ex_ops a i)) rev ex_tree ex_msg messenger_new =
     (Inr (), \<lparr>inboxes = [(ex_child, [ex_msg\<lparr>msg_id := ''other''\<rparr>, ex_msg])], max_inbox_size = 1024\<rparr>)"
  by (simp add: send_at_least_once_def ex_targets ex_ops_def
      numeral_3_eq_3 deliver_single_def messenger_new_def default_inbox_capacity_def hm_insert_def)

theorem messenger_at_least_once_delivered_witness:
  "\<exists>m'. send_at_least_once (\<lambda>a i. fold apply_op (ex_ops a i)) rev ex_tree ex_msg messenger_new = (Inr (), m') \<and>
     ex_msg \<in> set (inbox_of m' ex_child) \<and> length (inbox_of m' ex_child) = 2 \<and> resolve ex_tree ex_child \<noteq> None"
  using messenger_at_least_once_delivered[OF tree_run_wf[OF ex_tree_run] valid_order_rev ex_send ex_targets[symmetric]]
    ex_send
  by (auto simp: ex_ops_def inbox_of_def ex_msg_def message_cancel_def message_new_def)

text \<open>When no other task runs meanwhile, a send of any kind, successful or not, only
  appends copies of the message to the inboxes of its targets, at most three to each, and leaves
  every other inbox unchanged; a fire-and-forget send appends at most one and reports success
  exactly when some target was resolved, even if every inbox is full.\<close>

theorem messenger_send_copies:
  assumes "tree_wf t" and "valid_order ord"
  shows "(\<forall>q. \<exists>j \<le> 3. inbox_of (snd (send idle ord t msg m)) q = inbox_of m q @ replicate j msg \<and>
            (q \<notin> set (resolve_targets ord t msg) \<longrightarrow> j = 0)) \<and>
    (\<forall>q. inbox_of (snd (send_at_most_once idle ord t msg m)) q =
       inbox_of m q @ (if q \<in> set (resolve_targets ord t msg) \<and>
           length (inbox_of m q) < unat (max_inbox_size m) then [msg] else [])) \<and>
    (fst (send_at_most_once idle ord t msg m) = Inr () \<longleftrightarrow> resolve_targets ord t msg \<noteq> [])"
proof -
  note dist = resolve_targets_distinct[OF assms, of msg]
  have once: "inbox_of (snd (send_at_most_once idle ord t msg m)) q =
      inbox_of m q @ (if q \<in> set (resolve_targets ord t msg) \<and>
        length (inbox_of m q) < unat (max_inbox_size m) then [msg] else [])" for q
    using inbox_of_deliver_to_targets[OF dist] by (simp add: send_at_most_once_def Let_def)
  have "extends_by 3 msg (resolve_targets ord t msg) m (snd (send_at_least_once idle ord t msg m))"
    using attempt_loop_extends[OF dist, of 3] by (simp add: send_at_least_once_def Let_def extends_refl)
  moreover have "\<exists>j \<le> 3. inbox_of (snd (send_at_most_once idle ord t msg m)) q = inbox_of m q @ replicate j msg \<and>
      (q \<notin> set (resolve_targets ord t msg) \<longrightarrow> j = 0)" for q
    unfolding once by (rule exI[of _ "if q \<in> set (resolve_targets ord t msg) \<and>
        length (inbox_of m q) < unat (max_inbox_size m) then 1 else 0"]) simp
  ultimately have "\<exists>j \<le> 3. inbox_of (snd (send idle ord t msg m)) q = inbox_of m q @ replicate j msg \<and>
      (q \<notin> set (resolve_targets ord t msg) \<longrightarrow> j = 0)" for q
    by (cases "msg_kind msg") (simp_all add: send_def extends_by_def)
  then show ?thesis
    using once by (auto simp: send_at_most_once_def Let_def)
qed

theorem messenger_send_copies_witness:
  "fst (send_at_most_once idle rev ex_tree ex_msg messenger_new) = Inr ()"
  using messenger_send_copies[OF tree_run_wf[OF ex_tree_run] valid_order_rev, of ex_msg messenger_new]
  by (simp add: ex_targets)

text \<open>No inbox ever holds more messages than the capacity: every send keeps the bound, if the
  other tasks keep it (as deliveries and removals do), and so does the removal of an inbox.\<close>

theorem messenger_capacity_kept:
  assumes "messenger_ok m" and "\<And>a i m. messenger_ok m \<Longrightarrow> messenger_ok (env a i m)"
  shows "messenger_ok (snd (send env ord t msg m)) \<and> messenger_ok (remove_inbox p m) \<and>
    inbox_size (snd (send env ord t msg m)) q \<le> unat (max_inbox_size (snd (send env ord t msg m)))"
proof -
  have s: "messenger_ok (snd (send env ord t msg m))"
    by (rule send_ok_inv[OF assms])
  moreover have "inbox_size m' q = length (inbox_of m' q)" for m'
    by (simp add: inbox_size_def inbox_of_def split: option.splits)
  ultimately show ?thesis
    using remove_inbox_ok[OF assms(1)] by (simp add: messenger_ok_iff)
qed

theorem messenger_capacity_kept_witness:
  "messenger_ok (snd (send (\<lambda>a i. fold apply_op (ex_ops a i)) rev ex_tree ex_msg messenger_new))"
  using messenger_capacity_kept[OF messenger_new_ok, of "\<lambda>a i. fold apply_op (ex_ops a i)"] apply_ops_ok by blast

end
