(* ===== verification/Semaphore.thy ===== *)
theory Semaphore
  imports Prelude
begin

text \<open>
  The counting semaphore of the \<open>tokio\<close> library, which is not part of the repository: its
  operations are a record of functions that the models of the execution governor and of the
  bulkhead take as an argument, and \<open>semaphore_laws\<close> states what its documentation promises. A
  ledger pairs a semaphore with the number of permits handed out and not yet dropped.
\<close>

datatype try_acquire_error = Closed | NoPermits

record 's semaphore_ops =
  sem_new :: "usize \<Rightarrow> 's"
  sem_acquire :: "'s \<Rightarrow> unit + 's"
  sem_try_acquire :: "'s \<Rightarrow> try_acquire_error + 's"
  sem_release :: "'s \<Rightarrow> 's"
  sem_permits :: "'s \<Rightarrow> nat"
  sem_closed :: "'s \<Rightarrow> bool"

text \<open>Documented behaviour: a new semaphore is open and has the given number of permits; taking a
  permit (with or without waiting) uses one and fails without waiting exactly when the semaphore is
  closed or has none left; waiting fails only when it is closed; a dropped permit is returned.\<close>

definition semaphore_laws :: "'s semaphore_ops \<Rightarrow> bool" where
  "semaphore_laws ops \<longleftrightarrow>
     (\<forall>n. sem_permits ops (sem_new ops n) = unat n \<and> \<not> sem_closed ops (sem_new ops n)) \<and>
     (\<forall>s s'. sem_try_acquire ops s = Inr s' \<longrightarrow>
        sem_permits ops s = Suc (sem_permits ops s') \<and> sem_closed ops s' = sem_closed ops s) \<and>
     (\<forall>s e. sem_try_acquire ops s = Inl e \<longrightarrow>
        (case e of Closed \<Rightarrow> sem_closed ops s | NoPermits \<Rightarrow> sem_permits ops s = 0)) \<and>
     (\<forall>s s'. sem_acquire ops s = Inr s' \<longrightarrow>
        sem_permits ops s = Suc (sem_permits ops s') \<and> sem_closed ops s' = sem_closed ops s) \<and>
     (\<forall>s. sem_permits ops (sem_release ops s) = Suc (sem_permits ops s) \<and>
        sem_closed ops (sem_release ops s) = sem_closed ops s)"

text \<open>A semaphore that counts, to show that the laws can hold.\<close>

definition counting_semaphore :: "nat semaphore_ops" where
  "counting_semaphore =
     \<lparr>sem_new = unat,
      sem_acquire = (\<lambda>n. case n of 0 \<Rightarrow> Inl () | Suc k \<Rightarrow> Inr k),
      sem_try_acquire = (\<lambda>n. case n of 0 \<Rightarrow> Inl NoPermits | Suc k \<Rightarrow> Inr k),
      sem_release = Suc, sem_permits = (\<lambda>n. n), sem_closed = (\<lambda>_. False)\<rparr>"

text \<open>\<open>ledger_ok ops limit s out\<close>: the permits left and the permits out make up the limit.\<close>

definition ledger_ok :: "'s semaphore_ops \<Rightarrow> usize \<Rightarrow> 's \<Rightarrow> nat \<Rightarrow> bool" where
  "ledger_ok ops limit s out \<longleftrightarrow> sem_permits ops s + out = unat limit \<and> \<not> sem_closed ops s"

lemma counting_semaphore_laws: "semaphore_laws counting_semaphore"
  by (auto simp: semaphore_laws_def counting_semaphore_def split: nat.splits try_acquire_error.splits)

lemma ledger_new: "semaphore_laws ops \<Longrightarrow> ledger_ok ops n (sem_new ops n) 0"
  by (simp add: semaphore_laws_def ledger_ok_def)

lemma ledger_try_acquire:
  "semaphore_laws ops \<Longrightarrow> ledger_ok ops n s out \<Longrightarrow> sem_try_acquire ops s = Inr s' \<Longrightarrow>
     ledger_ok ops n s' (Suc out)"
  unfolding semaphore_laws_def ledger_ok_def by (metis add_Suc_shift)

lemma ledger_acquire:
  "semaphore_laws ops \<Longrightarrow> ledger_ok ops n s out \<Longrightarrow> sem_acquire ops s = Inr s' \<Longrightarrow>
     ledger_ok ops n s' (Suc out)"
  unfolding semaphore_laws_def ledger_ok_def by (metis add_Suc_shift)

lemma ledger_release:
  "semaphore_laws ops \<Longrightarrow> ledger_ok ops n s (Suc out) \<Longrightarrow> ledger_ok ops n (sem_release ops s) out"
  unfolding semaphore_laws_def ledger_ok_def by (metis add_Suc_shift)

lemma ledger_fails:
  assumes "semaphore_laws ops" and "ledger_ok ops n s out" and "sem_try_acquire ops s = Inl e"
  shows "e = NoPermits \<and> out = unat n"
proof -
  have "case e of Closed \<Rightarrow> sem_closed ops s | NoPermits \<Rightarrow> sem_permits ops s = 0"
    using assms(1,3) unfolding semaphore_laws_def by blast
  then show ?thesis
    using assms(2) by (cases e) (auto simp: ledger_ok_def)
qed

lemma ledger_takes_iff:
  assumes "semaphore_laws ops" and "ledger_ok ops n s out"
  shows "(\<exists>s'. sem_try_acquire ops s = Inr s') \<longleftrightarrow> out < unat n"
proof
  assume "\<exists>s'. sem_try_acquire ops s = Inr s'"
  then obtain s' where "ledger_ok ops n s' (Suc out)"
    using ledger_try_acquire[OF assms] by blast
  then show "out < unat n" by (simp add: ledger_ok_def)
next
  assume "out < unat n"
  then show "\<exists>s'. sem_try_acquire ops s = Inr s'"
    using ledger_fails[OF assms] by (cases "sem_try_acquire ops s") auto
qed

end
