(* ===== verification/AgentControl.thy ===== *)
theory AgentControl
  imports AgentTree Semaphore
begin

text \<open>
  Control of agent execution: the limits of the execution governor (\<open>governor.rs\<close>), the slot
  reservation of \<open>agent_thread.rs\<close>, and the context a child inherits (\<open>context.rs\<close>, \<open>forker.rs\<close>),
  all under \<open>src/agents/communication\<close>. The reservation is two atomic steps on a shared counter
  (an increment and, when the slot is refused, a decrement), so besides the function there is a
  step relation in which the steps of many threads interleave.
\<close>

section \<open>Execution governor\<close>

datatype limit_check_result = Allowed | Denied string

record 's execution_governor =
  gov_semaphore :: 's

definition default_global_max_concurrency :: usize where
  "default_global_max_concurrency = 128"

definition governor_new :: "'s semaphore_ops \<Rightarrow> 's execution_governor" where
  "governor_new ops = \<lparr>gov_semaphore = sem_new ops default_global_max_concurrency\<rparr>"

definition governor_with_max_concurrency ::
  "'s semaphore_ops \<Rightarrow> usize \<Rightarrow> 's execution_governor" where
  "governor_with_max_concurrency ops max_c = \<lparr>gov_semaphore = sem_new ops max_c\<rparr>"

definition reason_depth_exceeded :: string where
  "reason_depth_exceeded = ''max_depth exceeded''"

definition reason_concurrency_exceeded :: string where
  "reason_concurrency_exceeded = ''max_concurrency exceeded''"

definition check_limits :: "agent_tree \<Rightarrow> agent_path \<Rightarrow> agent_execution_budget \<Rightarrow> limit_check_result" where
  "check_limits t child_path b =
     (let missing = (case parent child_path of
                       None \<Rightarrow> None
                     | Some pp \<Rightarrow>
                         (case resolve t pp of None \<Rightarrow> Some pp | Some _ \<Rightarrow> None));
          child_depth = (of_nat (depth child_path) :: u32)
      in case missing of
           Some pp \<Rightarrow>
             Denied (''parent path '' @ [CHR 0x27] @ to_path_string pp @ [CHR 0x27] @
                     '' not found in agent tree'')
         | None \<Rightarrow>
             if child_depth \<ge> max_depth b
             then Denied (reason_depth_exceeded @ '': child depth '' @ show_word child_depth @
                          '' >= max depth '' @ show_word (max_depth b))
             else if active_children b \<ge> max_concurrency b
             then Denied (reason_concurrency_exceeded @ '': active children '' @
                          show_word (active_children b) @ '' >= max concurrency '' @
                          show_word (max_concurrency b))
             else if is_exceeded b then Denied ''aggregate_token_ceiling exceeded''
             else Allowed)"

definition governor_acquire ::
  "'s semaphore_ops \<Rightarrow> 's execution_governor \<Rightarrow> string + 's execution_governor" where
  "governor_acquire ops g =
     (case sem_acquire ops (gov_semaphore g) of
        Inl _ \<Rightarrow> Inl ''semaphore closed''
      | Inr s \<Rightarrow> Inr (g\<lparr>gov_semaphore := s\<rparr>))"

definition governor_try_acquire ::
  "'s semaphore_ops \<Rightarrow> 's execution_governor \<Rightarrow> string + 's execution_governor" where
  "governor_try_acquire ops g =
     (case sem_try_acquire ops (gov_semaphore g) of
        Inl e \<Rightarrow> Inl (case e of Closed \<Rightarrow> ''semaphore closed'' | NoPermits \<Rightarrow> ''no permits available'')
      | Inr s \<Rightarrow> Inr (g\<lparr>gov_semaphore := s\<rparr>))"

definition governor_available_permits :: "'s semaphore_ops \<Rightarrow> 's execution_governor \<Rightarrow> nat" where
  "governor_available_permits ops g = sem_permits ops (gov_semaphore g)"

text \<open>The governor together with the number of permits its callers hold; dropping a permit returns
  it to the semaphore.\<close>

inductive governor_step ::
  "'s semaphore_ops \<Rightarrow> 's execution_governor \<times> nat \<Rightarrow> 's execution_governor \<times> nat \<Rightarrow> bool"
  for ops where
  gov_acquire: "governor_acquire ops g = Inr g' \<Longrightarrow> governor_step ops (g, k) (g', Suc k)"
| gov_try: "governor_try_acquire ops g = Inr g' \<Longrightarrow> governor_step ops (g, k) (g', Suc k)"
| gov_refused: "governor_try_acquire ops g = Inl e \<Longrightarrow> governor_step ops (g, k) (g, k)"
| gov_drop: "governor_step ops (g, Suc k) (g\<lparr>gov_semaphore := sem_release ops (gov_semaphore g)\<rparr>, k)"

section \<open>Slot reservation\<close>

datatype spawn_error = CapacityExceeded u64 u64

text \<open>The first atomic step of \<open>try_reserve\<close>: increment and look at the old value.\<close>

definition reserve_increment :: "u64 \<Rightarrow> u64 \<Rightarrow> bool \<times> u64" where
  "reserve_increment n max_b = (n \<ge> max_b, n + 1)"

definition slot_decrement :: "u64 \<Rightarrow> u64" where
  "slot_decrement n = n - 1"

definition try_reserve :: "u64 \<Rightarrow> u64 \<Rightarrow> (spawn_error + unit) \<times> u64" where
  "try_reserve n max_b =
     (let current = n; (full, n') = reserve_increment n max_b in
      if full then (Inl (CapacityExceeded current max_b), slot_decrement n')
      else (Inr (), n'))"

text \<open>Interleaved threads: \<open>holding\<close> guards are alive and \<open>rolling_back\<close> threads have been refused
  but have not decremented the counter yet. At most \<open>2 ^ 64 - 1\<close> threads are in either state.\<close>

record spawn_state =
  counter :: u64
  holding :: nat
  rolling_back :: nat

inductive spawn_step :: "u64 \<Rightarrow> spawn_state \<Rightarrow> spawn_state \<Rightarrow> bool" for max_b where
  sp_reserved: "reserve_increment (counter s) max_b = (False, c) \<Longrightarrow>
     holding s + rolling_back s < 2 ^ 64 - 1 \<Longrightarrow>
     spawn_step max_b s (s\<lparr>counter := c, holding := Suc (holding s)\<rparr>)"
| sp_refused: "reserve_increment (counter s) max_b = (True, c) \<Longrightarrow>
     holding s + rolling_back s < 2 ^ 64 - 1 \<Longrightarrow>
     spawn_step max_b s (s\<lparr>counter := c, rolling_back := Suc (rolling_back s)\<rparr>)"
| sp_rollback: "rolling_back s = Suc r \<Longrightarrow>
     spawn_step max_b s (s\<lparr>counter := slot_decrement (counter s), rolling_back := r\<rparr>)"
| sp_drop: "holding s = Suc h \<Longrightarrow>
     spawn_step max_b s (s\<lparr>counter := slot_decrement (counter s), holding := h\<rparr>)"

definition spawn_init :: spawn_state where
  "spawn_init = \<lparr>counter = 0, holding = 0, rolling_back = 0\<rparr>"

definition spawn_inv :: "u64 \<Rightarrow> spawn_state \<Rightarrow> bool" where
  "spawn_inv max_b s =
     (unat (counter s) = holding s + rolling_back s \<and> holding s \<le> unat max_b)"

section \<open>Context inheritance\<close>

type_synonym path_buf = string

record fork_ctx =
  fc_parent_path :: agent_path
  conversation_summary :: "string option"
  principles :: "string list"
  allowed_base_dir :: "path_buf option"
  inherited_memories :: "string list"

definition fork_ctx_new :: "agent_path \<Rightarrow> fork_ctx" where
  "fork_ctx_new p =
     \<lparr>fc_parent_path = p, conversation_summary = None, principles = [], allowed_base_dir = None,
      inherited_memories = []\<rparr>"

definition with_conversation_summary :: "fork_ctx \<Rightarrow> string \<Rightarrow> fork_ctx" where
  "with_conversation_summary c s = c\<lparr>conversation_summary := Some s\<rparr>"

definition add_principle :: "fork_ctx \<Rightarrow> string \<Rightarrow> fork_ctx" where
  "add_principle c p = c\<lparr>principles := principles c @ [p]\<rparr>"

definition with_allowed_base_dir :: "fork_ctx \<Rightarrow> path_buf \<Rightarrow> fork_ctx" where
  "with_allowed_base_dir c d = c\<lparr>allowed_base_dir := Some d\<rparr>"

definition add_memory :: "fork_ctx \<Rightarrow> string \<Rightarrow> fork_ctx" where
  "add_memory c m = c\<lparr>inherited_memories := inherited_memories c @ [m]\<rparr>"

definition fork_ctx_is_empty :: "fork_ctx \<Rightarrow> bool" where
  "fork_ctx_is_empty c =
     (conversation_summary c = None \<and> principles c = [] \<and> allowed_base_dir c = None \<and>
      inherited_memories c = [])"

record fork_options =
  max_summary_rounds :: usize
  inherit_principles :: bool
  inherit_base_dir :: bool
  inherit_memories :: bool

definition fork_options_default :: fork_options where
  "fork_options_default =
     \<lparr>max_summary_rounds = 10, inherit_principles = True, inherit_base_dir = True,
      inherit_memories = True\<rparr>"

record context_forker =
  default_options :: fork_options

definition forker_new :: context_forker where
  "forker_new = \<lparr>default_options = fork_options_default\<rparr>"

definition with_default_options :: "context_forker \<Rightarrow> fork_options \<Rightarrow> context_forker" where
  "with_default_options f opts = f\<lparr>default_options := opts\<rparr>"

record parent_context =
  pc_conversation_summary :: "string option"
  pc_principles :: "string list"
  pc_allowed_base_dir :: "path_buf option"
  pc_memories :: "string list"

definition fork ::
  "context_forker \<Rightarrow> agent_path \<Rightarrow> agent_path \<Rightarrow> (agent_path \<Rightarrow> parent_context) \<Rightarrow> fork_options option \<Rightarrow>
   fork_ctx" where
  "fork f parent_p child_p parent_context_fn options =
     (let opts = (case options of None \<Rightarrow> default_options f | Some x \<Rightarrow> x);
          parent_ctx = parent_context_fn parent_p;
          c0 = fork_ctx_new child_p;
          c1 = (case pc_conversation_summary parent_ctx of
                  None \<Rightarrow> c0 | Some s \<Rightarrow> with_conversation_summary c0 s);
          c2 = (if inherit_principles opts
                then foldl add_principle c1 (pc_principles parent_ctx) else c1);
          c3 = (if inherit_base_dir opts
                then (case pc_allowed_base_dir parent_ctx of
                        None \<Rightarrow> c2 | Some d \<Rightarrow> with_allowed_base_dir c2 d)
                else c2);
          c4 = (if inherit_memories opts
                then foldl add_memory c3 (pc_memories parent_ctx) else c3)
      in c4)"

definition quick_fork :: "context_forker \<Rightarrow> agent_path \<Rightarrow> agent_path \<Rightarrow> fork_ctx" where
  "quick_fork f parent_p child_p =
     (let empty_ctx = \<lparr>pc_conversation_summary = None, pc_principles = [],
                       pc_allowed_base_dir = None, pc_memories = []\<rparr>
      in fork f parent_p child_p (\<lambda>_. empty_ctx) None)"

section \<open>Facts\<close>

lemma governor_ledger_step:
  assumes "semaphore_laws ops" and "governor_step ops (g, k) (g', k')"
    and "ledger_ok ops n (gov_semaphore g) k"
  shows "ledger_ok ops n (gov_semaphore g') k'"
  using assms(2,3)
proof cases
  case gov_acquire
  then show ?thesis
    using assms(3) ledger_acquire[OF assms(1)]
    by (auto simp: governor_acquire_def split: sum.splits)
next
  case gov_try
  then show ?thesis
    using assms(3) ledger_try_acquire[OF assms(1)]
    by (auto simp: governor_try_acquire_def split: sum.splits)
next
  case gov_drop
  then show ?thesis
    using assms(3) ledger_release[OF assms(1)] by auto
qed (use assms(3) in auto)

lemma governor_run_ledger:
  assumes "semaphore_laws ops"
    and "(governor_step ops)\<^sup>*\<^sup>* (governor_with_max_concurrency ops n, 0) (g, k)"
  shows "ledger_ok ops n (gov_semaphore g) k"
  using assms(2)
proof (induction "(g, k)" arbitrary: g k rule: rtranclp_induct)
  case base
  then show ?case
    using ledger_new[OF assms(1)] by (simp add: governor_with_max_concurrency_def)
next
  case (step y)
  then show ?case
    using governor_ledger_step[OF assms(1), of "fst y" "snd y" g k n] by (cases y) simp
qed

lemma unat_succ: "unat (c :: u64) < 2 ^ 64 - 1 \<Longrightarrow> unat (c + 1) = Suc (unat c)"
  by (simp add: unat_word_ariths)

lemma unat_pred: "0 < unat (c :: u64) \<Longrightarrow> unat (c - 1) = unat c - 1"
  by (metis One_nat_def unat_gt_0 unat_minus_one)

interpretation spawn_sys: invariant_system "spawn_step max_b" "spawn_inv max_b"
proof
  fix s t
  assume inv: "spawn_inv max_b s" and "spawn_step max_b s t"
  from this(2) show "spawn_inv max_b t"
  proof cases
    case (sp_reserved c)
    then show ?thesis
      using inv unat_succ[of "counter s"]
      by (auto simp: spawn_inv_def reserve_increment_def word_le_nat_alt)
  next
    case (sp_refused c)
    then show ?thesis
      using inv unat_succ[of "counter s"] by (auto simp: spawn_inv_def reserve_increment_def)
  next
    case (sp_rollback r)
    then show ?thesis
      using inv unat_pred[of "counter s"] by (simp add: spawn_inv_def slot_decrement_def)
  next
    case (sp_drop h)
    then show ?thesis
      using inv unat_pred[of "counter s"] by (simp add: spawn_inv_def slot_decrement_def)
  qed
qed

lemma foldl_add_principle:
  "foldl add_principle c ps = c\<lparr>principles := principles c @ ps\<rparr>"
  by (induction ps arbitrary: c) (simp_all add: add_principle_def)

lemma foldl_add_memory:
  "foldl add_memory c ms = c\<lparr>inherited_memories := inherited_memories c @ ms\<rparr>"
  by (induction ms arbitrary: c) (simp_all add: add_memory_def)

section \<open>Properties\<close>

text \<open>However acquisitions, refused attempts and drops of permits follow each other, the number
  of permits out never exceeds the maximum, the reported number of free permits is the rest, and
  an attempt that does not wait is refused exactly when all permits are out.\<close>

theorem governor_permits_exact:
  assumes "semaphore_laws ops"
    and "(governor_step ops)\<^sup>*\<^sup>* (governor_with_max_concurrency ops n, 0) (g, held)"
  shows "held \<le> unat n \<and> governor_available_permits ops g = unat n - held \<and>
    (governor_try_acquire ops g = Inl ''no permits available'' \<longleftrightarrow> held = unat n) \<and>
    governor_try_acquire ops g \<noteq> Inl ''semaphore closed''"
proof -
  note ok = governor_run_ledger[OF assms]
  have "(\<exists>s'. sem_try_acquire ops (gov_semaphore g) = Inr s') \<longleftrightarrow> held < unat n"
    by (rule ledger_takes_iff[OF assms(1) ok])
  then show ?thesis
    using ok ledger_fails[OF assms(1) ok]
    by (cases "sem_try_acquire ops (gov_semaphore g)")
      (auto simp: governor_try_acquire_def governor_available_permits_def ledger_ok_def)
qed

theorem governor_permits_exact_witness:
  "\<exists>g. (governor_step counting_semaphore)\<^sup>*\<^sup>*
         (governor_with_max_concurrency counting_semaphore 1, 0) (g, 1) \<and>
       governor_try_acquire counting_semaphore g = Inl ''no permits available''"
proof -
  have "governor_step counting_semaphore
      (governor_with_max_concurrency counting_semaphore 1, 0) (\<lparr>gov_semaphore = 0\<rparr>, Suc 0)"
    by (rule gov_try) (simp add: governor_try_acquire_def governor_with_max_concurrency_def
        counting_semaphore_def)
  then have "(governor_step counting_semaphore)\<^sup>*\<^sup>*
      (governor_with_max_concurrency counting_semaphore 1, 0) (\<lparr>gov_semaphore = 0\<rparr>, 1)"
    by simp
  then show ?thesis
    using governor_permits_exact[OF counting_semaphore_laws] by (metis unsigned_1)
qed

text \<open>A spawn is allowed exactly when the parent is registered (a path without parent needs
  none), the child's depth is strictly below the maximum depth, the number of active children is
  strictly below the maximum and the token ceiling, if any, is not reached. The depth is
  compared after truncation to 32 bits.\<close>

theorem check_limits_allowed_iff:
  "check_limits t c b = Allowed \<longleftrightarrow>
     (\<forall>p. parent c = Some p \<longrightarrow> resolve t p \<noteq> None) \<and>
     depth c mod 2 ^ 32 < unat (max_depth b) \<and>
     unat (active_children b) < unat (max_concurrency b) \<and>
     (\<forall>ceiling. aggregate_token_ceiling b = Some ceiling \<longrightarrow>
        unat (aggregate_tokens_used b) < unat ceiling)"
proof -
  have "unat (of_nat (depth c) :: u32) = depth c mod 2 ^ 32"
    by (simp add: unat_of_nat)
  then show ?thesis
    by (auto simp: check_limits_def Let_def is_exceeded_def word_less_nat_alt word_le_nat_alt not_le
        split: option.splits if_splits)
qed

theorem check_limits_allowed_iff_witness:
  "check_limits ex_tree (child ex_child ''b'') budget_new = Allowed"
proof -
  have p: "parent (child ex_child ''b'') = Some ex_child"
    by (simp add: parent_def child_def ex_child_def path_of_def)
  have d: "depth (child ex_child ''b'') = 3"
    by (simp add: depth_def child_def ex_child_def path_of_def)
  have "resolve ex_tree ex_child \<noteq> None"
    by (simp add: ex_tree_eval resolve_def ex_child_def ex_root_def path_of_def)
  then show ?thesis
    using check_limits_allowed_iff[of ex_tree "child ex_child ''b''" budget_new]
    by (simp add: p d budget_new_def)
qed

text \<open>C10: for every interleaving of the atomic steps of any number of threads (below \<open>2 ^ 64\<close> at a
  time), at most \<open>max_b\<close> guards are alive, the counter is the number of guards alive and of refused
  threads still rolling back, and once no thread is rolling back it is the number of guards:
  no slot is leaked.\<close>

theorem spawn_guard_no_leak:
  assumes "(spawn_step max_b)\<^sup>*\<^sup>* spawn_init s"
  shows "holding s \<le> unat max_b \<and> unat (counter s) = holding s + rolling_back s \<and>
    (rolling_back s = 0 \<longrightarrow> counter s = of_nat (holding s))"
proof -
  have "spawn_inv max_b s"
    by (rule spawn_sys.run_inv[OF assms]) (simp add: spawn_inv_def spawn_init_def)
  then show ?thesis
    by (auto simp: spawn_inv_def) (metis of_nat_unat ucast_id)
qed

theorem spawn_guard_no_leak_witness:
  "\<exists>s. (spawn_step 1)\<^sup>*\<^sup>* spawn_init s \<and> rolling_back s = 1 \<and> holding s \<le> 1"
proof -
  let ?s1 = "\<lparr>counter = 1, holding = 1, rolling_back = 0\<rparr>"
  let ?s2 = "\<lparr>counter = 2, holding = 1, rolling_back = 1\<rparr>"
  have "spawn_step 1 spawn_init ?s1"
    using sp_reserved[of spawn_init 1 1] by (simp add: spawn_init_def reserve_increment_def)
  moreover have "spawn_step 1 ?s1 ?s2"
    using sp_refused[of ?s1 1 2] by (simp add: reserve_increment_def)
  ultimately have "(spawn_step 1)\<^sup>*\<^sup>* spawn_init ?s2"
    by (meson rtranclp.simps)
  then show ?thesis
    using spawn_guard_no_leak by fastforce
qed

text \<open>\<open>fork\<close> copies exactly what the options select from the parent's context, in order, and the
  summary always; but the field documented as the parent's path holds the path of the child, and
  the bound on the number of summary rounds has no effect.\<close>

theorem fork_exact:
  "fork f pp cp get_ctx options =
     (let opts = (case options of None \<Rightarrow> default_options f | Some x \<Rightarrow> x); ctx = get_ctx pp in
      \<lparr>fc_parent_path = cp, conversation_summary = pc_conversation_summary ctx,
       principles = (if inherit_principles opts then pc_principles ctx else []),
       allowed_base_dir = (if inherit_base_dir opts then pc_allowed_base_dir ctx else None),
       inherited_memories = (if inherit_memories opts then pc_memories ctx else [])\<rparr>) \<and>
   fork f pp cp get_ctx (Some (o1\<lparr>max_summary_rounds := k\<rparr>)) = fork f pp cp get_ctx (Some o1) \<and>
   fork_ctx_is_empty (quick_fork f pp cp)"
  by (auto simp: fork_def quick_fork_def fork_ctx_is_empty_def Let_def foldl_add_principle
      foldl_add_memory fork_ctx_new_def with_conversation_summary_def with_allowed_base_dir_def
      split: option.splits)

end
