(* ===== verification/CommunicationBus.thy ===== *)
theory CommunicationBus
  imports AgentMessenger AgentControl
begin

text \<open>
  The communication bus, \<open>src/agents/communication/bus.rs\<close>: one record that owns the agent tree,
  the messenger, the context forker, the execution governor and the metrics. Each public operation
  is a function on that record; a labelled step relation runs them in any order, with the tasks
  that interleave with the retries of a send as a function on the messenger that keeps its bound.
\<close>

section \<open>State\<close>

record communication_metrics =
  messages_sent :: u64
  messages_failed :: u64
  forks_created :: u64

record communication_bus_profile =
  pf_registered_agents :: nat
  pf_messages_sent :: u64
  pf_forks_created :: u64
  pf_healthy :: bool

record 's communication_bus =
  bus_tree :: agent_tree
  bus_messenger :: agent_messenger
  bus_forker :: context_forker
  bus_governor :: "'s execution_governor"
  bus_metrics :: communication_metrics
  metrics_poisoned :: bool

definition metrics_default :: communication_metrics where
  "metrics_default = \<lparr>messages_sent = 0, messages_failed = 0, forks_created = 0\<rparr>"

definition profile_default :: communication_bus_profile where
  "profile_default =
     \<lparr>pf_registered_agents = 0, pf_messages_sent = 0, pf_forks_created = 0, pf_healthy = True\<rparr>"

definition bus_new :: "'s semaphore_ops \<Rightarrow> 's communication_bus" where
  "bus_new ops =
     \<lparr>bus_tree = tree_new, bus_messenger = messenger_new, bus_forker = forker_new,
      bus_governor = governor_new ops, bus_metrics = metrics_default, metrics_poisoned = False\<rparr>"

section \<open>Operations\<close>

definition register_agent ::
  "u64 \<Rightarrow> agent_path \<Rightarrow> string \<Rightarrow> agent_node_metadata \<Rightarrow> 's communication_bus \<Rightarrow>
   (tree_error + unit) \<times> 's communication_bus" where
  "register_agent now p name md b =
     (case register now p name md (bus_tree b) of
        Inl e \<Rightarrow> (Inl e, b)
      | Inr t \<Rightarrow> (Inr (), b\<lparr>bus_tree := t\<rparr>))"

definition remove_agent ::
  "agent_path iter_order \<Rightarrow> agent_path \<Rightarrow> 's communication_bus \<Rightarrow>
   (agent_path list \<times> 's communication_bus) option" where
  "remove_agent ord p b =
     map_option (\<lambda>(removed, t). (removed, b\<lparr>bus_tree := t\<rparr>)) (remove_subtree ord p (bus_tree b))"

definition set_lifecycle ::
  "agent_path \<Rightarrow> agent_lifecycle \<Rightarrow> 's communication_bus \<Rightarrow> 's communication_bus" where
  "set_lifecycle p st b =
     (case resolve (bus_tree b) p of
        None \<Rightarrow> b
      | Some _ \<Rightarrow> b\<lparr>bus_tree := resolve_mut (bus_tree b) p (\<lambda>n. node_set_lifecycle n st)\<rparr>)"

definition cleanup_agent ::
  "agent_path iter_order \<Rightarrow> agent_path \<Rightarrow> 's communication_bus \<Rightarrow> 's communication_bus option" where
  "cleanup_agent ord p b =
     (case remove_agent ord p b of
        None \<Rightarrow> None
      | Some (_, b') \<Rightarrow> Some (b'\<lparr>bus_messenger := remove_inbox p (bus_messenger b')\<rparr>))"

definition send_message ::
  "inbox_env \<Rightarrow> agent_path iter_order \<Rightarrow> agent_message \<Rightarrow>
   's communication_bus \<Rightarrow> (send_error + unit) \<times> 's communication_bus" where
  "send_message env ord msg b =
     (case send env ord (bus_tree b) msg (bus_messenger b) of
        (result, m) \<Rightarrow>
          (let b1 = b\<lparr>bus_messenger := m\<rparr>;
               mt = bus_metrics b1;
               b2 = (if metrics_poisoned b1 then b1
                     else if (case result of Inr _ \<Rightarrow> True | Inl _ \<Rightarrow> False)
                     then b1\<lparr>bus_metrics := mt\<lparr>messages_sent := messages_sent mt + 1\<rparr>\<rparr>
                     else b1\<lparr>bus_metrics := mt\<lparr>messages_failed := messages_failed mt + 1\<rparr>\<rparr>)
           in (result, b2)))"

definition record_fork :: "'s communication_bus \<Rightarrow> 's communication_bus" where
  "record_fork b =
     (if metrics_poisoned b then b
      else b\<lparr>bus_metrics := (bus_metrics b)\<lparr>forks_created := forks_created (bus_metrics b) + 1\<rparr>\<rparr>)"

definition profile :: "'s communication_bus \<Rightarrow> communication_bus_profile" where
  "profile b =
     \<lparr>pf_registered_agents = tree_len (bus_tree b),
      pf_messages_sent = messages_sent (bus_metrics b),
      pf_forks_created = forks_created (bus_metrics b),
      pf_healthy = (messages_failed (bus_metrics b) = 0)\<rparr>"

text \<open>\<open>contended\<close> says whether the tree lock is taken when the snapshot is made.\<close>

definition profile_sync :: "bool \<Rightarrow> 's communication_bus \<Rightarrow> communication_bus_profile" where
  "profile_sync contended b =
     \<lparr>pf_registered_agents = (if contended then 0 else tree_len (bus_tree b)),
      pf_messages_sent = messages_sent (bus_metrics b),
      pf_forks_created = forks_created (bus_metrics b),
      pf_healthy = (messages_failed (bus_metrics b) = 0)\<rparr>"

section \<open>Runs of the bus\<close>

datatype bus_event = EvTree | EvSent | EvFailed | EvFork

definition env_ok :: "inbox_env \<Rightarrow> bool" where
  "env_ok env \<longleftrightarrow> (\<forall>a i m. messenger_ok m \<longrightarrow> messenger_ok (env a i m))"

inductive bus_run :: "'s communication_bus \<Rightarrow> bus_event list \<Rightarrow> 's communication_bus \<Rightarrow> bool" for b0 where
  br_start: "bus_run b0 [] b0"
| br_register: "bus_run b0 es b \<Longrightarrow> register_agent now p name md b = (r, b') \<Longrightarrow>
     bus_run b0 (EvTree # es) b'"
| br_remove: "bus_run b0 es b \<Longrightarrow> remove_agent ord p b = Some (ps, b') \<Longrightarrow>
     bus_run b0 (EvTree # es) b'"
| br_lifecycle: "bus_run b0 es b \<Longrightarrow> bus_run b0 (EvTree # es) (set_lifecycle p st b)"
| br_cleanup: "bus_run b0 es b \<Longrightarrow> cleanup_agent ord p b = Some b' \<Longrightarrow> bus_run b0 (EvTree # es) b'"
| br_sent: "bus_run b0 es b \<Longrightarrow> env_ok env \<Longrightarrow> send_message env ord msg b = (Inr u, b') \<Longrightarrow>
     bus_run b0 (EvSent # es) b'"
| br_failed: "bus_run b0 es b \<Longrightarrow> env_ok env \<Longrightarrow> send_message env ord msg b = (Inl e, b') \<Longrightarrow>
     bus_run b0 (EvFailed # es) b'"
| br_fork: "bus_run b0 es b \<Longrightarrow> bus_run b0 (EvFork # es) (record_fork b)"

definition bus_ok :: "bus_event list \<Rightarrow> 's communication_bus \<Rightarrow> bool" where
  "bus_ok es b \<longleftrightarrow> tree_wf (bus_tree b) \<and> messenger_ok (bus_messenger b) \<and> \<not> metrics_poisoned b \<and>
     bus_metrics b = \<lparr>messages_sent = of_nat (count_list es EvSent),
       messages_failed = of_nat (count_list es EvFailed),
       forks_created = of_nat (count_list es EvFork)\<rparr>"

section \<open>Facts\<close>

lemma bus_ok_new: "bus_ok [] (bus_new ops)"
  by (simp add: bus_ok_def bus_new_def tree_new_wf messenger_new_ok metrics_default_def)

lemma bus_ok_tree:
  assumes "bus_ok es b" and "tree_wf t" and "messenger_ok m"
  shows "bus_ok (EvTree # es) (b\<lparr>bus_tree := t, bus_messenger := m\<rparr>)"
  using assms by (simp add: bus_ok_def)

lemma register_agent_ok:
  assumes "bus_ok es b" and "register_agent now p name md b = (r, b')"
  shows "bus_ok (EvTree # es) b'"
  using assms register_wf[of "bus_tree b" now p name md]
  by (auto simp: bus_ok_def register_agent_def split: sum.splits)

lemma remove_agent_ok:
  assumes "bus_ok es b" and "remove_agent ord p b = Some (ps, b')"
  shows "bus_ok (EvTree # es) b'"
  using assms remove_subtree_wf[of "bus_tree b" ord p]
  by (auto simp: bus_ok_def remove_agent_def)

lemma set_lifecycle_ok: "bus_ok es b \<Longrightarrow> bus_ok (EvTree # es) (set_lifecycle p st b)"
  by (auto simp: bus_ok_def set_lifecycle_def node_set_lifecycle_def split: option.splits
      intro!: resolve_mut_wf)

lemma cleanup_agent_ok:
  assumes "bus_ok es b" and "cleanup_agent ord p b = Some b'"
  shows "bus_ok (EvTree # es) b'"
proof -
  obtain ps b1 where r: "remove_agent ord p b = Some (ps, b1)"
    and b': "b' = b1\<lparr>bus_messenger := remove_inbox p (bus_messenger b1)\<rparr>"
    using assms(2) by (auto simp: cleanup_agent_def split: option.splits)
  from remove_agent_ok[OF assms(1) r] show ?thesis
    by (simp add: b' bus_ok_def remove_inbox_ok)
qed

lemma send_message_ok:
  assumes "bus_ok es b" and "env_ok env" and "send_message env ord msg b = (r, b')"
  shows "bus_ok ((case r of Inr _ \<Rightarrow> EvSent | Inl _ \<Rightarrow> EvFailed) # es) b'"
proof -
  obtain r' m where s: "send env ord (bus_tree b) msg (bus_messenger b) = (r', m)" by fastforce
  have "messenger_ok m"
    using send_ok_inv[of "bus_messenger b" env ord "bus_tree b" msg] assms(1,2) s
    by (simp add: bus_ok_def env_ok_def)
  then show ?thesis
    using assms(1,3) s by (auto simp: send_message_def bus_ok_def Let_def split: sum.splits)
qed

lemma bus_run_ok: "bus_run b0 es b \<Longrightarrow> bus_ok [] b0 \<Longrightarrow> bus_ok es b"
proof (induction rule: bus_run.induct)
  case (br_sent es b env ord msg u b')
  then show ?case using send_message_ok[of es b env ord msg "Inr u" b'] by simp
next
  case (br_failed es b env ord msg e b')
  then show ?case using send_message_ok[of es b env ord msg "Inl e" b'] by simp
next
  case (br_fork es b)
  then show ?case by (simp add: bus_ok_def record_fork_def)
qed (auto intro: register_agent_ok remove_agent_ok set_lifecycle_ok cleanup_agent_ok)

section \<open>Properties\<close>

text \<open>C15: in every run of the bus the tree index stays well formed, no inbox exceeds its capacity,
  the counters are the numbers of successful sends, failed sends and forks of the run (modulo
  \<open>2 ^ 64\<close>), and the profile counts the registered agents and reports health exactly when no send
  has failed.\<close>

theorem bus_run_accounts:
  assumes "bus_run (bus_new ops) es b" and "length es < 2 ^ 64"
  shows "tree_wf (bus_tree b) \<and> messenger_ok (bus_messenger b) \<and>
    unat (pf_messages_sent (profile b)) = count_list es EvSent \<and>
    unat (pf_forks_created (profile b)) = count_list es EvFork \<and>
    pf_registered_agents (profile b) = card {p. resolve (bus_tree b) p \<noteq> None} \<and>
    (pf_healthy (profile b) \<longleftrightarrow> EvFailed \<notin> set es) \<and>
    profile_sync False b = profile b \<and>
    profile_sync True b = (profile b)\<lparr>pf_registered_agents := 0\<rparr>"
proof -
  have ok: "bus_ok es b" by (rule bus_run_ok[OF assms(1) bus_ok_new])
  have bound: "count_list es x < 2 ^ 64" for x
    using assms(2) count_le_length[of es x] by simp
  have nat: "unat (of_nat (count_list es x) :: u64) = count_list es x" for x
    using bound[of x] by (simp add: unat_of_nat)
  have zero: "(of_nat (count_list es EvFailed) :: u64) = 0 \<longleftrightarrow> EvFailed \<notin> set es"
    using nat[of EvFailed] by (metis count_list_0_iff unat_eq_0)
  have "tree_len (bus_tree b) = card {p. resolve (bus_tree b) p \<noteq> None}"
    using ok hm_len[of "nodes (bus_tree b)"] by (simp add: bus_ok_def tree_wf_def tree_len_def resolve_def dom_def)
  then show ?thesis
    using ok nat[of EvSent] nat[of EvFork] zero
    by (simp add: bus_ok_def profile_def profile_sync_def)
qed

definition ex_bus :: "nat communication_bus" where
  "ex_bus = snd (send_message idle rev ex_msg (bus_new counting_semaphore))"

lemma ex_bus_run: "bus_run (bus_new counting_semaphore) [EvFailed] ex_bus"
proof -
  have "send_message idle rev ex_msg (bus_new counting_semaphore) =
      (Inl (NoReceivers (Direct ex_child)), ex_bus)"
    by (simp add: ex_bus_def send_message_def send_def ex_msg_def message_cancel_def message_new_def
        send_at_least_once_def resolve_targets_def resolve_target_def bus_new_def tree_new_def)
  then show ?thesis
    using br_failed[OF br_start, of idle] by (simp add: env_ok_def idle_def)
qed

theorem bus_run_accounts_witness: "\<not> pf_healthy (profile ex_bus)"
  using bus_run_accounts[OF ex_bus_run] by simp

text \<open>Cleaning up a registered agent on a bus that a run reached ends; the agent and its linked
  descendants are no longer registered and the agent's inbox is gone, but the inbox of every other
  path, the removed descendants included, is left as it was.\<close>

theorem bus_cleanup_keeps_descendant_inboxes:
  assumes "bus_run (bus_new ops) es b"
  shows "\<exists>b'. cleanup_agent ord p b = Some b' \<and> resolve (bus_tree b') p = None \<and>
    (\<forall>q. (link (bus_tree b))\<^sup>+\<^sup>+ p q \<longrightarrow> resolve (bus_tree b') q = None) \<and>
    inbox_of (bus_messenger b') p = [] \<and>
    (\<forall>q. q \<noteq> p \<longrightarrow> inbox_of (bus_messenger b') q = inbox_of (bus_messenger b) q)"
proof -
  have wf: "tree_wf (bus_tree b)"
    using bus_run_ok[OF assms bus_ok_new] by (simp add: bus_ok_def)
  obtain ps t' where r: "remove_subtree ord p (bus_tree b) = Some (p # ps, t')"
    by (rule remove_subtree_cases[OF wf])
  have gone: "resolve t' q = None" if "q \<in> set (p # ps)" for q
    using that remove_subtree_nodes(1)[OF wf r] by (simp add: resolve_def)
  have "q \<in> set (p # ps)" if "(link (bus_tree b))\<^sup>+\<^sup>+ p q" for q
    using that remove_subtree_removed(1)[OF wf r] by blast
  then show ?thesis
    using r gone
    by (auto simp: cleanup_agent_def remove_agent_def remove_inbox_def inbox_of_def)
qed

definition ex_bus2 :: "nat communication_bus" where
  "ex_bus2 = (bus_new counting_semaphore)\<lparr>bus_tree := ex_tree\<rparr>"

lemma ex_bus2_run: "bus_run (bus_new counting_semaphore) [EvTree, EvTree] ex_bus2"
proof -
  let ?b0 = "bus_new counting_semaphore"
  let ?b1 = "?b0\<lparr>bus_tree := ex_register ex_root tree_new\<rparr>"
  have "register_agent 0 ex_root (to_path_string ex_root) (metadata_new 0) ?b0 = (Inr (), ?b1)"
    by (simp add: register_agent_def bus_new_def tree_eval)
  moreover have "register_agent 0 ex_child (to_path_string ex_child) (metadata_new 0) ?b1 = (Inr (), ex_bus2)"
    by (simp add: register_agent_def bus_new_def ex_bus2_def ex_tree_def tree_eval)
  ultimately show ?thesis
    by (meson br_start br_register)
qed

theorem bus_cleanup_keeps_descendant_inboxes_witness:
  "\<exists>b'. cleanup_agent rev ex_root ex_bus2 = Some b' \<and> resolve (bus_tree b') ex_child = None"
  using bus_cleanup_keeps_descendant_inboxes[OF ex_bus2_run, of rev ex_root] ex_tree_link
  by (auto simp: ex_bus2_def bus_new_def)

text \<open>Cleaning up an agent does not stop messages to it: afterwards a result or any other
  message that a child of the removed agent addresses to its parent is still accepted, and an
  inbox for the unregistered path is created again.\<close>

theorem bus_to_parent_recreates_inbox:
  assumes "bus_run (bus_new ops) es b" and "cleanup_agent ord p b = Some b'"
    and "msg_to msg = ToParent" and "parent (msg_from msg) = Some p"
    and "0 < unat (max_inbox_size (bus_messenger b))"
  shows "resolve (bus_tree b') p = None \<and>
    (\<exists>b''. send_message idle ord msg b' = (Inr (), b'') \<and> inbox_of (bus_messenger b'') p = [msg] \<and>
       resolve (bus_tree b'') p = None)"
proof -
  have "tree_wf (bus_tree b)"
    using bus_run_ok[OF assms(1) bus_ok_new] by (simp add: bus_ok_def)
  then obtain ps t' where r: "remove_subtree ord p (bus_tree b) = Some (p # ps, t')" "tree_wf (bus_tree b)"
    by (metis remove_subtree_cases)
  have b': "b' = b\<lparr>bus_tree := t', bus_messenger := remove_inbox p (bus_messenger b)\<rparr>"
    using assms(2) r by (auto simp: cleanup_agent_def remove_agent_def)
  have none: "resolve t' p = None"
    using remove_subtree_nodes(1)[OF r(2,1)] by (simp add: resolve_def)
  let ?m = "bus_messenger b'"
  obtain ok m' where d: "deliver_single msg p ?m = (ok, m')" by fastforce
  have empty: "inbox_of ?m p = []" and cap: "max_inbox_size ?m = max_inbox_size (bus_messenger b)"
    by (simp_all add: b' remove_inbox_def inbox_of_def)
  have ok and m': "inbox_of m' p = [msg]"
    using fst_deliver_single[of msg p ?m] inbox_of_deliver_single[of msg p ?m p] d assms(5) empty cap
    by auto
  have tg: "resolve_targets ord (bus_tree b') msg = [p]"
    using assms(3,4) by (simp add: resolve_targets_def)
  have "send idle ord (bus_tree b') msg ?m = (Inr (), m')"
    using d \<open>ok\<close> tg by (cases "msg_kind msg")
      (simp_all add: send_def send_at_least_once_def send_at_most_once_def numeral_3_eq_3 idle_def)
  then show ?thesis
    using none m' by (auto simp: send_message_def Let_def b')
qed

definition ex_reply :: agent_message where
  "ex_reply = message_cancel ''id'' 0 ex_child ToParent ''done''"

theorem bus_to_parent_recreates_inbox_witness:
  "\<exists>b' b''. cleanup_agent rev ex_root ex_bus2 = Some b' \<and>
     send_message idle rev ex_reply b' = (Inr (), b'') \<and>
     inbox_of (bus_messenger b'') ex_root = [ex_reply]"
proof -
  have "tree_wf (bus_tree ex_bus2)"
    using bus_run_ok[OF ex_bus2_run bus_ok_new] by (simp add: bus_ok_def)
  then obtain ps t' where "remove_subtree rev ex_root (bus_tree ex_bus2) = Some (ps, t')"
    by (metis remove_subtree_cases)
  then obtain b' where c: "cleanup_agent rev ex_root ex_bus2 = Some b'"
    by (simp add: cleanup_agent_def remove_agent_def)
  have "msg_to ex_reply = ToParent" "parent (msg_from ex_reply) = Some ex_root"
    by (simp_all add: ex_reply_def message_cancel_def message_new_def parent_def ex_child_def
        ex_root_def path_of_def)
  moreover have "0 < unat (max_inbox_size (bus_messenger ex_bus2))"
    by (simp add: ex_bus2_def bus_new_def messenger_new_def default_inbox_capacity_def)
  ultimately show ?thesis
    using bus_to_parent_recreates_inbox[OF ex_bus2_run c, of ex_reply] c by blast
qed

end
