(* ===== verification/ToolLock.thy ===== *)
theory ToolLock
  imports Prelude
begin

text \<open>
  The read/write locks per file path of the tool executor, \<open>src/orchestration/tool/lock.rs\<close>. The
  mutex around the lock table makes each operation atomic (a poisoned mutex is recovered with its
  data), so the model is the table and one function per operation; a step relation pairs the table
  with the multiset of lock handles that are alive, and the abstract specification says what a
  read/write lock grants in terms of those handles alone. The reader count is a 32-bit word.
\<close>

section \<open>Definitions\<close>

datatype lock_mode = Read | Write

record lock_entry =
  readers :: u32
  writer :: bool

record lock_table =
  locks :: "(string, lock_entry) hmap"

type_synonym lock_handle = "string \<times> lock_mode"

definition lock_manager_new :: lock_table where
  "lock_manager_new = \<lparr>locks = []\<rparr>"

definition try_acquire_inner :: "lock_table \<Rightarrow> string \<Rightarrow> lock_mode \<Rightarrow> bool \<times> lock_table" where
  "try_acquire_inner table p mode =
     (let entry = (case hm_get (locks table) p of
                     None \<Rightarrow> \<lparr>readers = 0, writer = False\<rparr> | Some e \<Rightarrow> e);
          table = table\<lparr>locks := hm_insert p entry (locks table)\<rparr>
      in case mode of
           Read \<Rightarrow>
             if writer entry then (False, table)
             else (True, table\<lparr>locks := hm_insert p (entry\<lparr>readers := readers entry + 1\<rparr>) (locks table)\<rparr>)
         | Write \<Rightarrow>
             if readers entry > 0 \<or> writer entry then (False, table)
             else (True, table\<lparr>locks := hm_insert p (entry\<lparr>writer := True\<rparr>) (locks table)\<rparr>))"

definition try_acquire :: "lock_table \<Rightarrow> string \<Rightarrow> lock_mode \<Rightarrow> lock_handle option \<times> lock_table" where
  "try_acquire table p mode =
     (case try_acquire_inner table p mode of
        (True, table') \<Rightarrow> (Some (p, mode), table')
      | (False, table') \<Rightarrow> (None, table'))"

definition saturating_pred :: "u32 \<Rightarrow> u32" where
  "saturating_pred n = (if n = 0 then 0 else n - 1)"

definition release :: "lock_table \<Rightarrow> string \<Rightarrow> lock_mode \<Rightarrow> lock_table" where
  "release table p mode =
     (case hm_get (locks table) p of
        None \<Rightarrow> table
      | Some entry \<Rightarrow>
          (let entry' = (case mode of
                           Read \<Rightarrow> entry\<lparr>readers := saturating_pred (readers entry)\<rparr>
                         | Write \<Rightarrow> entry\<lparr>writer := False\<rparr>);
               locks' = hm_insert p entry' (locks table)
           in if readers entry' = 0 \<and> \<not> writer entry'
              then table\<lparr>locks := hm_remove p locks'\<rparr>
              else table\<lparr>locks := locks'\<rparr>))"

definition drop_handle :: "lock_table \<Rightarrow> lock_handle \<Rightarrow> lock_table" where
  "drop_handle table h = release table (fst h) (snd h)"

section \<open>Abstract specification and runs\<close>

text \<open>A read lock is granted when no write handle on the path is alive, a write lock when no handle
  on the path is alive.\<close>

definition lock_granted :: "lock_handle multiset \<Rightarrow> string \<Rightarrow> lock_mode \<Rightarrow> bool" where
  "lock_granted held p mode =
     (case mode of
        Read \<Rightarrow> count held (p, Write) = 0
      | Write \<Rightarrow> count held (p, Write) = 0 \<and> count held (p, Read) = 0)"

inductive lock_step ::
  "lock_table \<times> lock_handle multiset \<Rightarrow> lock_table \<times> lock_handle multiset \<Rightarrow> bool" where
  ls_acquired: "try_acquire table p mode = (Some h, table') \<Longrightarrow> size held < 2 ^ 32 - 1 \<Longrightarrow>
     lock_step (table, held) (table', add_mset h held)"
| ls_refused: "try_acquire table p mode = (None, table') \<Longrightarrow> lock_step (table, held) (table', held)"
| ls_dropped: "h \<in># held \<Longrightarrow> lock_step (table, held) (drop_handle table h, held - {#h#})"

inductive_cases lock_stepE: "lock_step s s'"

text \<open>The entry the table must have for a path, given the handles alive.\<close>

definition entry_for :: "lock_handle multiset \<Rightarrow> string \<Rightarrow> lock_entry option" where
  "entry_for held p =
     (if count held (p, Read) = 0 \<and> count held (p, Write) = 0 then None
      else Some \<lparr>readers = of_nat (count held (p, Read)), writer = (0 < count held (p, Write))\<rparr>)"

definition lock_inv :: "lock_table \<times> lock_handle multiset \<Rightarrow> bool" where
  "lock_inv s = (case s of (table, held) \<Rightarrow>
     hm_wf (locks table) \<and> size held < 2 ^ 32 \<and> map_of (locks table) = entry_for held \<and>
     (\<forall>p. count held (p, Write) \<le> 1 \<and> (0 < count held (p, Write) \<longrightarrow> count held (p, Read) = 0)))"

section \<open>Facts\<close>

declare count_greater_zero_iff [simp del]

lemma of_nat_u32_zero: "n < 2 ^ 32 \<Longrightarrow> (of_nat n :: u32) = 0 \<longleftrightarrow> n = 0"
  by (auto simp: word_of_nat_eq_0_iff dest: dvd_imp_le)

lemma count_bound: "size held < 2 ^ 32 \<Longrightarrow> count held h < 2 ^ 32"
  by (meson count_le_size le_less_trans)

lemma entry_for_add:
  "entry_for (add_mset (p, mode) held) =
     (entry_for held)(p \<mapsto> (case mode of
        Read \<Rightarrow> \<lparr>readers = of_nat (count held (p, Read)) + 1, writer = (0 < count held (p, Write))\<rparr>
      | Write \<Rightarrow> \<lparr>readers = of_nat (count held (p, Read)), writer = True\<rparr>))"
  by (cases mode) (auto simp: entry_for_def fun_eq_iff add.commute)

lemma entry_for_other: "q \<noteq> fst h \<Longrightarrow> entry_for (held - {#h#}) q = entry_for held q"
  by (cases h) (auto simp: entry_for_def dest: in_diffD)

text \<open>The code's decision is the specification's.\<close>

lemma try_acquire_granted:
  assumes "lock_inv (table, held)"
  shows "(\<exists>h. fst (try_acquire table p mode) = Some h) \<longleftrightarrow> lock_granted held p mode"
    and "fst (try_acquire table p mode) = Some h \<Longrightarrow> h = (p, mode)"
proof -
  have "map_of (locks table) p = entry_for held p" and b: "count held (p, Read) < 2 ^ 32"
    using assms count_bound by (auto simp: lock_inv_def)
  then show "(\<exists>h. fst (try_acquire table p mode) = Some h) \<longleftrightarrow> lock_granted held p mode"
    using of_nat_u32_zero[OF b]
    by (cases mode) (auto simp: try_acquire_def try_acquire_inner_def lock_granted_def entry_for_def
        Let_def word_gt_0 split: if_splits)
  show "fst (try_acquire table p mode) = Some h \<Longrightarrow> h = (p, mode)"
    by (auto simp: try_acquire_def split: prod.splits bool.splits)
qed

lemma try_acquire_refused_table:
  assumes "lock_inv (table, held)" and "try_acquire table p mode = (None, table')"
  shows "map_of (locks table') = map_of (locks table)" and "hm_wf (locks table')"
proof -
  have "map_of (locks table) p \<noteq> None"
    using assms(2) by (cases "map_of (locks table) p")
      (auto simp: try_acquire_def try_acquire_inner_def Let_def split: lock_mode.splits if_splits)
  then show "map_of (locks table') = map_of (locks table)" and "hm_wf (locks table')"
    using assms by (auto simp: try_acquire_def try_acquire_inner_def Let_def lock_inv_def fun_upd_idem_iff
        split: lock_mode.splits if_splits)
qed

lemma try_acquire_granted_table:
  assumes "lock_inv (table, held)" and "try_acquire table p mode = (Some h, table')"
  shows "map_of (locks table') = entry_for (add_mset h held)" and "hm_wf (locks table')"
proof -
  have h: "h = (p, mode)" and g: "lock_granted held p mode"
    using try_acquire_granted[OF assms(1), of p mode] assms(2) by auto
  have m: "map_of (locks table) = entry_for held"
    using assms(1) by (simp add: lock_inv_def)
  show "map_of (locks table') = entry_for (add_mset h held)"
    using assms(2) g unfolding h entry_for_add
    by (cases mode; cases "entry_for held p")
      (auto simp: try_acquire_def try_acquire_inner_def Let_def m entry_for_def lock_granted_def
        split: if_splits)
  show "hm_wf (locks table')"
    using assms by (auto simp: try_acquire_def try_acquire_inner_def Let_def lock_inv_def
        split: lock_mode.splits if_splits)
qed

lemma drop_handle_table:
  assumes "lock_inv (table, held)" and "h \<in># held"
  shows "map_of (locks (drop_handle table h)) = entry_for (held - {#h#})"
    and "hm_wf (locks (drop_handle table h))"
proof -
  obtain p mode where h: "h = (p, mode)" by fastforce
  have m: "map_of (locks table) = entry_for held" and wf: "hm_wf (locks table)"
    and b: "count held (p, Read) < 2 ^ 32" and w: "count held (p, Write) \<le> 1"
    and x: "0 < count held (p, Write) \<longrightarrow> count held (p, Read) = 0"
    using assms(1) count_bound by (auto simp: lock_inv_def)
  have c: "0 < count held (p, mode)" using assms(2) h by (simp add: count_greater_zero_iff)
  have pred: "saturating_pred (of_nat (count held (p, Read))) = of_nat (count held (p, Read) - 1)"
    if "0 < count held (p, Read)"
    using that of_nat_u32_zero[OF b] by (cases "count held (p, Read)") (simp_all add: saturating_pred_def)
  have z: "(of_nat (count held (p, Read) - 1) :: u32) = 0 \<longleftrightarrow> count held (p, Read) - 1 = 0"
    using b by (intro of_nat_u32_zero) simp
  have "map_of (locks (drop_handle table h)) q = entry_for (held - {#h#}) q" for q
  proof (cases "q = p")
    case True
    then show ?thesis
      using c x w pred z by (cases mode)
        (auto simp: drop_handle_def release_def h m entry_for_def Let_def)
  next
    case False
    then show ?thesis
      using entry_for_other[of q h held]
      by (auto simp: drop_handle_def release_def h m Let_def split: option.splits)
  qed
  then show "map_of (locks (drop_handle table h)) = entry_for (held - {#h#})" by blast
  show "hm_wf (locks (drop_handle table h))"
    using wf by (auto simp: drop_handle_def release_def Let_def split: option.splits)
qed

interpretation lock_sys: invariant_system lock_step lock_inv
proof
  fix s s'
  assume inv: "lock_inv s" and step: "lock_step s s'"
  from step show "lock_inv s'"
  proof cases
    case (ls_acquired table p mode h table' held)
    then have i: "lock_inv (table, held)" using inv by simp
    have "h = (p, mode)" and "lock_granted held p mode"
      using try_acquire_granted[OF i, of p mode] ls_acquired by auto
    then show ?thesis
      using ls_acquired i try_acquire_granted_table[OF i ls_acquired(3)]
      by (cases mode) (auto simp: lock_inv_def lock_granted_def)
  next
    case (ls_refused table p mode table' held)
    then show ?thesis
      using inv try_acquire_refused_table[of table held p mode table'] by (simp add: lock_inv_def)
  next
    case (ls_dropped h held table)
    then have i: "lock_inv (table, held)" using inv by simp
    have le: "count (held - {#h#}) x \<le> count held x" for x by simp
    have "count (held - {#h#}) (p, Write) \<le> 1 \<and>
        (0 < count (held - {#h#}) (p, Write) \<longrightarrow> count (held - {#h#}) (p, Read) = 0)" for p
    proof -
      have "count held (p, Write) \<le> 1" "0 < count held (p, Write) \<Longrightarrow> count held (p, Read) = 0"
        using i by (auto simp: lock_inv_def)
      then show ?thesis
        using le[of "(p, Write)"] le[of "(p, Read)"] by linarith
    qed
    then show ?thesis
      using ls_dropped i drop_handle_table[OF i, of h]
      by (simp add: lock_inv_def size_Diff_singleton less_imp_diff_less del: count_diff)
  qed
qed

lemma lock_inv_new: "lock_inv (lock_manager_new, {#})"
  by (simp add: lock_inv_def lock_manager_new_def entry_for_def fun_eq_iff)

lemmas lock_run_inv = lock_sys.run_inv[OF _ lock_inv_new]

section \<open>Properties\<close>

text \<open>For every sequence of attempts and drops (with fewer than \<open>2 ^ 32\<close> handles alive) at most
  one write handle per path is alive, and none together with a read handle on the same path.\<close>

theorem tool_lock_exclusive:
  assumes "lock_step\<^sup>*\<^sup>* (lock_manager_new, {#}) (table, held)"
  shows "count held (p, Write) \<le> 1 \<and> ((p, Write) \<in># held \<longrightarrow> (p, Read) \<notin># held)"
  using lock_run_inv[OF assms] by (auto simp: lock_inv_def count_greater_zero_iff not_in_iff)

definition ex_locked :: lock_table where
  "ex_locked = snd (try_acquire lock_manager_new ''a'' Write)"

lemma ex_locked_run: "lock_step\<^sup>*\<^sup>* (lock_manager_new, {#}) (ex_locked, {#(''a'', Write)#})"
proof -
  have "try_acquire lock_manager_new ''a'' Write = (Some (''a'', Write), ex_locked)"
    by (simp add: ex_locked_def try_acquire_def try_acquire_inner_def lock_manager_new_def)
  then show ?thesis using ls_acquired[of lock_manager_new "''a''" Write "(''a'', Write)" ex_locked "{#}"]
    by simp
qed

theorem tool_lock_exclusive_witness: "(''a'', Read) \<notin># {#(''a'', Write)#}"
  using tool_lock_exclusive[OF ex_locked_run, of "''a''"] by simp

text \<open>C5: the lock table implements the specification of a read/write lock: in every reachable state
  an attempt succeeds exactly when the handles alive permit it, a success hands out a handle for
  the requested path and mode, and a refused attempt leaves every entry as it was.\<close>

theorem tool_lock_refines_spec:
  assumes "lock_step\<^sup>*\<^sup>* (lock_manager_new, {#}) (table, held)"
  shows "fst (try_acquire table p mode) = (if lock_granted held p mode then Some (p, mode) else None) \<and>
    (\<not> lock_granted held p mode \<longrightarrow>
       map_of (locks (snd (try_acquire table p mode))) = map_of (locks table))"
proof -
  note inv = lock_run_inv[OF assms]
  obtain r table' where t: "try_acquire table p mode = (r, table')" by fastforce
  show ?thesis
  proof (cases r)
    case None
    then show ?thesis
      using t try_acquire_granted(1)[OF inv, of p mode] try_acquire_refused_table(1)[OF inv, of p mode table']
      by simp
  next
    case (Some h)
    then show ?thesis
      using t try_acquire_granted[OF inv, of p mode] by auto
  qed
qed

theorem tool_lock_refines_spec_witness:
  "fst (try_acquire ex_locked ''a'' Read) = None"
  using tool_lock_refines_spec[OF ex_locked_run, of "''a''" Read] by (simp add: lock_granted_def)

text \<open>The table has an entry for a path exactly when a handle on it is alive; once every handle
  has been dropped the table is empty again.\<close>

theorem tool_lock_no_stale_entries:
  assumes "lock_step\<^sup>*\<^sup>* (lock_manager_new, {#}) (table, held)"
  shows "(hm_contains (locks table) p \<longleftrightarrow> (p, Read) \<in># held \<or> (p, Write) \<in># held) \<and>
    (held = {#} \<longrightarrow> locks table = [])"
proof -
  have m: "map_of (locks table) = entry_for held"
    using lock_run_inv[OF assms] by (simp add: lock_inv_def)
  have "map_of (locks table) = Map.empty" if "held = {#}"
    using that m by (simp add: entry_for_def fun_eq_iff)
  moreover have "locks table = []" if "map_of (locks table) = Map.empty"
    using that by (metis map_of_eq_empty_iff)
  ultimately show ?thesis
    using m by (auto simp: entry_for_def domIff count_eq_zero_iff)
qed

theorem tool_lock_no_stale_entries_witness: "hm_contains (locks ex_locked) ''a''"
  using tool_lock_no_stale_entries[OF ex_locked_run, of "''a''"] by simp

end
