(* ===== verification/Bulkhead.thy ===== *)
theory Bulkhead
  imports Semaphore
begin

text \<open>
  The bulkhead of the orchestrator, \<open>src/orchestration/bulkhead.rs\<close>: one semaphore per provider,
  created on first use with a fixed capacity. The map is behind a read/write lock that
  \<open>try_acquire\<close> takes twice; what other threads do between the two is the argument \<open>between\<close>.
  The semaphore itself belongs to the \<open>tokio\<close> library and is a parameter (theory \<open>Semaphore\<close>).
\<close>

section \<open>Definitions\<close>

record 's bulkhead =
  semaphores :: "(string, 's) hmap"
  default_limit :: usize
  lock_poisoned :: bool

definition bulkhead_new :: "usize \<Rightarrow> 's bulkhead" where
  "bulkhead_new limit = \<lparr>semaphores = [], default_limit = limit, lock_poisoned = False\<rparr>"

text \<open>Taking a permit of one semaphore of the map: \<open>Ok(Some(permit))\<close> or \<open>Ok(None)\<close>.\<close>

definition take_permit ::
  "'s semaphore_ops \<Rightarrow> string \<Rightarrow> 's \<Rightarrow> 's bulkhead \<Rightarrow> string option \<times> 's bulkhead" where
  "take_permit ops provider sem b =
     (case sem_try_acquire ops sem of
        Inr sem' \<Rightarrow> (Some provider, b\<lparr>semaphores := hm_insert provider sem' (semaphores b)\<rparr>)
      | Inl _ \<Rightarrow> (None, b))"

definition bulkhead_try_acquire ::
  "'s semaphore_ops \<Rightarrow> ('s bulkhead \<Rightarrow> 's bulkhead) \<Rightarrow> string \<Rightarrow> 's bulkhead \<Rightarrow>
   (string + string option) \<times> 's bulkhead" where
  "bulkhead_try_acquire ops between provider b =
     (if lock_poisoned b then (Inl ''bulkhead semaphore lock poisoned'', b)
      else
        (case hm_get (semaphores b) provider of
           Some sem \<Rightarrow> (case take_permit ops provider sem b of (r, b') \<Rightarrow> (Inr r, b'))
         | None \<Rightarrow>
             (let b1 = between b in
              if lock_poisoned b1 then (Inl ''bulkhead write lock poisoned'', b1)
              else
                (let (sem, b2) =
                       (case hm_get (semaphores b1) provider of
                          Some s \<Rightarrow> (s, b1)
                        | None \<Rightarrow>
                            (let s = sem_new ops (default_limit b1) in
                             (s, b1\<lparr>semaphores := hm_insert provider s (semaphores b1)\<rparr>)))
                 in case take_permit ops provider sem b2 of (r, b') \<Rightarrow> (Inr r, b')))))"

text \<open>Dropping a permit returns it to the semaphore it came from.\<close>

definition drop_permit :: "'s semaphore_ops \<Rightarrow> string \<Rightarrow> 's bulkhead \<Rightarrow> 's bulkhead" where
  "drop_permit ops provider b =
     b\<lparr>semaphores := hm_modify provider (sem_release ops) (semaphores b)\<rparr>"

section \<open>Runs\<close>

text \<open>The bulkhead with the multiset of permits alive. The steps are the atomic sections of the
  code: an attempt that finds the semaphore, and the creation of a semaphore followed by the
  attempt, under the write lock; other threads may run between the sections.\<close>

inductive bulkhead_step ::
  "'s semaphore_ops \<Rightarrow> 's bulkhead \<times> string multiset \<Rightarrow> 's bulkhead \<times> string multiset \<Rightarrow> bool"
  for ops where
  bs_taken: "bulkhead_try_acquire ops (\<lambda>b. b) provider b = (Inr (Some permit), b') \<Longrightarrow>
     bulkhead_step ops (b, held) (b', add_mset permit held)"
| bs_refused: "bulkhead_try_acquire ops (\<lambda>b. b) provider b = (Inr None, b') \<Longrightarrow>
     bulkhead_step ops (b, held) (b', held)"
| bs_dropped: "permit \<in># held \<Longrightarrow> bulkhead_step ops (b, held) (drop_permit ops permit b, held - {#permit#})"

definition bulkhead_inv :: "'s semaphore_ops \<Rightarrow> usize \<Rightarrow> 's bulkhead \<times> string multiset \<Rightarrow> bool" where
  "bulkhead_inv ops limit s = (case s of (b, held) \<Rightarrow>
     hm_wf (semaphores b) \<and> default_limit b = limit \<and> \<not> lock_poisoned b \<and>
     (\<forall>provider. case hm_get (semaphores b) provider of
        None \<Rightarrow> count held provider = 0
      | Some sem \<Rightarrow> ledger_ok ops limit sem (count held provider)))"

section \<open>Facts\<close>

text \<open>The second section of the code reads the map again, so an attempt interleaved with another
  thread that creates the semaphore is the attempt run after that thread.\<close>

lemma try_acquire_between:
  assumes "hm_get (semaphores b) provider = None" and "\<not> lock_poisoned b" and "\<not> lock_poisoned (between b)"
  shows "bulkhead_try_acquire ops between provider b =
    bulkhead_try_acquire ops (\<lambda>b. b) provider (between b)"
  using assms by (auto simp: bulkhead_try_acquire_def Let_def split: option.splits)

text \<open>The semaphore an attempt works on: the one of the map, or a new one.\<close>

definition sem_for :: "'s semaphore_ops \<Rightarrow> 's bulkhead \<Rightarrow> string \<Rightarrow> 's" where
  "sem_for ops b provider =
     (case hm_get (semaphores b) provider of None \<Rightarrow> sem_new ops (default_limit b) | Some s \<Rightarrow> s)"

lemma try_acquire_result:
  assumes "\<not> lock_poisoned b"
  shows "fst (bulkhead_try_acquire ops (\<lambda>b. b) provider b) =
      Inr (case sem_try_acquire ops (sem_for ops b provider) of Inr _ \<Rightarrow> Some provider | Inl _ \<Rightarrow> None)"
    and "map_of (semaphores (snd (bulkhead_try_acquire ops (\<lambda>b. b) provider b))) =
      (map_of (semaphores b))(provider \<mapsto>
        (case sem_try_acquire ops (sem_for ops b provider) of Inr s \<Rightarrow> s | Inl _ \<Rightarrow> sem_for ops b provider))"
    and "default_limit (snd (bulkhead_try_acquire ops (\<lambda>b. b) provider b)) = default_limit b"
    and "lock_poisoned (snd (bulkhead_try_acquire ops (\<lambda>b. b) provider b)) = lock_poisoned b"
    and "hm_wf (semaphores b) \<Longrightarrow> hm_wf (semaphores (snd (bulkhead_try_acquire ops (\<lambda>b. b) provider b)))"
  using assms
  by (auto simp: bulkhead_try_acquire_def take_permit_def sem_for_def Let_def
      fun_upd_idem_iff split: option.splits sum.splits prod.splits)

lemma sem_for_ledger:
  assumes "semaphore_laws ops" and "bulkhead_inv ops limit (b, held)"
  shows "ledger_ok ops limit (sem_for ops b provider) (count held provider)"
proof -
  have "case map_of (semaphores b) provider of None \<Rightarrow> count held provider = 0
      | Some sem \<Rightarrow> ledger_ok ops limit sem (count held provider)" and "default_limit b = limit"
    using assms(2) unfolding bulkhead_inv_def by blast+
  then show ?thesis
    using ledger_new[OF assms(1), of limit]
    by (cases "map_of (semaphores b) provider") (simp_all add: sem_for_def)
qed

lemma bulkhead_inv_upd:
  assumes "bulkhead_inv ops limit (b, held)" and "map_of (semaphores b') = (map_of (semaphores b))(p \<mapsto> s)"
    and "ledger_ok ops limit s (count held' p)" and "\<And>q. q \<noteq> p \<Longrightarrow> count held' q = count held q"
    and "hm_wf (semaphores b')" and "default_limit b' = default_limit b" and "lock_poisoned b' = lock_poisoned b"
  shows "bulkhead_inv ops limit (b', held')"
proof -
  have "case map_of (semaphores b') q of None \<Rightarrow> count held' q = 0
      | Some sem \<Rightarrow> ledger_ok ops limit sem (count held' q)" for q
  proof (cases "q = p")
    case False
    have "case map_of (semaphores b) q of None \<Rightarrow> count held q = 0
        | Some sem \<Rightarrow> ledger_ok ops limit sem (count held q)"
      using assms(1) unfolding bulkhead_inv_def by blast
    then show ?thesis
      using assms(2) assms(4)[OF False] False by (cases "map_of (semaphores b) q") simp_all
  qed (use assms(2,3) in simp)
  then show ?thesis
    using assms(1,5-7) by (simp add: bulkhead_inv_def)
qed

lemma bulkhead_step_inv:
  assumes laws: "semaphore_laws ops" and inv: "bulkhead_inv ops limit s" and "bulkhead_step ops s s'"
  shows "bulkhead_inv ops limit s'"
  using assms(3)
proof cases
  case (bs_taken provider b permit b' held)
  have i: "bulkhead_inv ops limit (b, held)" and np: "\<not> lock_poisoned b" and wf: "hm_wf (semaphores b)"
    using inv bs_taken by (auto simp: bulkhead_inv_def)
  note r = try_acquire_result[OF np, of ops provider, unfolded bs_taken(3), simplified]
  obtain sem where s: "sem_try_acquire ops (sem_for ops b provider) = Inr sem" and "permit = provider"
    using r(1) by (auto split: sum.splits)
  then show ?thesis
    using r(2-5) wf ledger_try_acquire[OF laws sem_for_ledger[OF laws i] s]
    unfolding bs_taken(2) by (intro bulkhead_inv_upd[OF i, of b' provider sem]) auto
next
  case (bs_refused provider b b' held)
  have i: "bulkhead_inv ops limit (b, held)" and np: "\<not> lock_poisoned b" and wf: "hm_wf (semaphores b)"
    using inv bs_refused by (auto simp: bulkhead_inv_def)
  note r = try_acquire_result[OF np, of ops provider, unfolded bs_refused(3), simplified]
  obtain e where s: "sem_try_acquire ops (sem_for ops b provider) = Inl e"
    using r(1) by (auto split: sum.splits)
  then show ?thesis
    using r(2-5) wf sem_for_ledger[OF laws i, of provider]
    unfolding bs_refused(2) by (intro bulkhead_inv_upd[OF i, of b' provider]) auto
next
  case (bs_dropped permit held b)
  have i: "bulkhead_inv ops limit (b, held)" and wf: "hm_wf (semaphores b)"
    using inv bs_dropped by (auto simp: bulkhead_inv_def)
  obtain k where k: "count held permit = Suc k"
    using bs_dropped(3) by (metis count_greater_zero_iff gr0_implies_Suc)
  have "case map_of (semaphores b) permit of None \<Rightarrow> count held permit = 0
      | Some sem \<Rightarrow> ledger_ok ops limit sem (count held permit)"
    using i unfolding bulkhead_inv_def by blast
  then obtain sem where m: "map_of (semaphores b) permit = Some sem" "ledger_ok ops limit sem (Suc k)"
    using k by (auto split: option.splits)
  then show ?thesis
    using wf k ledger_release[OF laws m(2)] unfolding bs_dropped(2)
    by (intro bulkhead_inv_upd[OF i, of _ permit "sem_release ops sem"]) (auto simp: drop_permit_def)
qed

lemma bulkhead_run_inv:
  assumes "semaphore_laws ops" and "(bulkhead_step ops)\<^sup>*\<^sup>* (bulkhead_new limit, {#}) s"
  shows "bulkhead_inv ops limit s"
  using assms(2)
proof (induction rule: rtranclp_induct)
  case base
  then show ?case by (simp add: bulkhead_inv_def bulkhead_new_def)
qed (rule bulkhead_step_inv[OF assms(1)])

section \<open>Properties\<close>

text \<open>At any time at most the default limit of permits of one provider is alive, and an attempt
  for a provider is refused exactly when that provider's own permits are all out, whatever the
  other providers hold.\<close>

theorem bulkhead_isolates_providers:
  assumes "semaphore_laws ops" and "(bulkhead_step ops)\<^sup>*\<^sup>* (bulkhead_new limit, {#}) (b, held)"
  shows "count held provider \<le> unat limit \<and>
    fst (bulkhead_try_acquire ops (\<lambda>b. b) provider b) =
      Inr (if count held provider < unat limit then Some provider else None)"
proof -
  note i = bulkhead_run_inv[OF assms]
  note l = sem_for_ledger[OF assms(1) i, of provider]
  have "\<not> lock_poisoned b" using i by (simp add: bulkhead_inv_def)
  then show ?thesis
    using try_acquire_result(1)[of b ops provider] ledger_takes_iff[OF assms(1) l] l
    by (auto simp: ledger_ok_def split: sum.splits)
qed

definition ex_bulkhead :: "nat bulkhead" where
  "ex_bulkhead = snd (bulkhead_try_acquire counting_semaphore (\<lambda>b. b) ''p'' (bulkhead_new 1))"

lemma ex_bulkhead_run:
  "(bulkhead_step counting_semaphore)\<^sup>*\<^sup>* (bulkhead_new 1, {#}) (ex_bulkhead, {#''p''#})"
proof -
  have "bulkhead_try_acquire counting_semaphore (\<lambda>b. b) ''p'' (bulkhead_new 1) =
      (Inr (Some ''p''), ex_bulkhead)"
    by (simp add: ex_bulkhead_def bulkhead_try_acquire_def bulkhead_new_def take_permit_def
        counting_semaphore_def Let_def)
  then show ?thesis
    using bs_taken[of counting_semaphore "''p''" "bulkhead_new 1" "''p''" ex_bulkhead "{#}"] by auto
qed

theorem bulkhead_isolates_providers_witness:
  "fst (bulkhead_try_acquire counting_semaphore (\<lambda>b. b) ''p'' ex_bulkhead) = Inr None \<and>
   fst (bulkhead_try_acquire counting_semaphore (\<lambda>b. b) ''q'' ex_bulkhead) = Inr (Some ''q'')"
  using bulkhead_isolates_providers[OF counting_semaphore_laws ex_bulkhead_run] by simp

text \<open>An attempt that finds no semaphore and is overtaken before it takes the write lock never
  replaces a semaphore another thread created meanwhile: its result and its effect are those of
  an attempt made after that thread; a lock poisoned meanwhile is reported and nothing changes.\<close>

theorem bulkhead_race_is_sequential:
  assumes "hm_get (semaphores b) provider = None" and "\<not> lock_poisoned b"
  shows "(\<not> lock_poisoned (between b) \<longrightarrow>
      bulkhead_try_acquire ops between provider b =
        bulkhead_try_acquire ops (\<lambda>b. b) provider (between b)) \<and>
    (lock_poisoned (between b) \<longrightarrow>
      bulkhead_try_acquire ops between provider b = (Inl ''bulkhead write lock poisoned'', between b))"
  using try_acquire_between[OF assms] assms by (auto simp: bulkhead_try_acquire_def Let_def)

theorem bulkhead_race_is_sequential_witness:
  "bulkhead_try_acquire counting_semaphore (\<lambda>_. ex_bulkhead) ''p'' (bulkhead_new 1) =
     (Inr None, ex_bulkhead)"
proof -
  have "\<not> lock_poisoned ex_bulkhead"
    by (simp add: ex_bulkhead_def try_acquire_result(4) bulkhead_new_def)
  then have "bulkhead_try_acquire counting_semaphore (\<lambda>_. ex_bulkhead) ''p'' (bulkhead_new 1) =
      bulkhead_try_acquire counting_semaphore (\<lambda>b. b) ''p'' ex_bulkhead"
    using bulkhead_race_is_sequential[of "bulkhead_new 1" "''p''" "\<lambda>_. ex_bulkhead" counting_semaphore]
    by (simp add: bulkhead_new_def)
  then show ?thesis
    by (simp add: ex_bulkhead_def bulkhead_try_acquire_def bulkhead_new_def take_permit_def
        counting_semaphore_def Let_def hm_insert_def)
qed

end
