(* ===== verification/CronStore.thy ===== *)
theory CronStore
  imports Prelude "HOL-Library.Char_ord" "HOL-Library.List_Lexorder" "HOL-Library.Product_Lexorder"
begin

text \<open>
  The durable cron store, \<open>src/orchestration/schedule/cron.rs\<close>, and the claiming part of the server
  tick, \<open>src/acp/background.rs\<close>. The two SQLite tables are lists of rows, and each SQL statement of
  the code is the list operation it denotes; \<open>io k\<close> says whether the \<open>k\<close>-th statement of an
  operation fails in the database. The \<open>croner\<close> and \<open>chrono\<close> libraries that evaluate cron
  expressions are parameters with the laws the code relies on, and so is the JSON library: a payload
  is a value of any type \<open>'v\<close> with a text format. Times are
  epoch seconds, which the code never adds to, so they are integers; the clock is an argument.
\<close>

section \<open>Libraries\<close>

record ('c, 'v) cron_lib =
  cron_from_str :: "string \<Rightarrow> string + 'c"
  timestamp_valid :: "int \<Rightarrow> bool"
  find_next_occurrence :: "'c \<Rightarrow> int \<Rightarrow> string + int"
  json_to_string :: "'v \<Rightarrow> string"
  json_from_str :: "string \<Rightarrow> string + 'v"

text \<open>The search for the next occurrence excludes the given instant, and JSON text that was written
  by the library is read back as the same value.\<close>

definition cron_lib_laws :: "('c, 'v) cron_lib \<Rightarrow> bool" where
  "cron_lib_laws lib \<longleftrightarrow>
     (\<forall>c t n. find_next_occurrence lib c t = Inr n \<longrightarrow> t < n) \<and>
     (\<forall>v. json_from_str lib (json_to_string lib v) = Inr v)"

datatype cron_error =
    InvalidExpression string
  | TimestampOutOfRange int
  | NoFutureFire string int
  | CorruptPayload
  | DatabaseError

section \<open>Data\<close>

record 'v cron_job =
  job_id :: string
  job_expression :: string
  job_payload :: 'v
  job_enabled :: bool
  job_created_at :: int
  job_last_run_at :: "int option"
  job_next_run_at :: "int option"

record cron_job_row =
  row_id :: string
  row_expression :: string
  row_payload :: string
  row_enabled :: int
  row_created_at :: int
  row_last_run_at :: "int option"
  row_next_run_at :: "int option"

record cron_run_row =
  run_id :: string
  run_job_id :: string
  run_started_at :: int
  run_finished_at :: "int option"
  run_ok :: "int option"
  run_output :: string

record cron_store =
  cron_jobs :: "cron_job_row list"
  cron_runs :: "cron_run_row list"
  running :: "string set"

definition cron_job_new :: "int \<Rightarrow> string \<Rightarrow> string \<Rightarrow> 'v \<Rightarrow> bool \<Rightarrow> 'v cron_job" where
  "cron_job_new now i e pl en =
     \<lparr>job_id = i, job_expression = e, job_payload = pl, job_enabled = en, job_created_at = now,
      job_last_run_at = None, job_next_run_at = None\<rparr>"

definition parse_schedule :: "('c, 'v) cron_lib \<Rightarrow> string \<Rightarrow> cron_error + 'c" where
  "parse_schedule lib e =
     (case cron_from_str lib e of Inl _ \<Rightarrow> Inl (InvalidExpression e) | Inr c \<Rightarrow> Inr c)"

definition next_fire_after :: "('c, 'v) cron_lib \<Rightarrow> string \<Rightarrow> int \<Rightarrow> cron_error + int" where
  "next_fire_after lib e after_ts =
     (case parse_schedule lib e of
        Inl err \<Rightarrow> Inl err
      | Inr schedule \<Rightarrow>
          if \<not> timestamp_valid lib after_ts then Inl (TimestampOutOfRange after_ts)
          else (case find_next_occurrence lib schedule after_ts of
                  Inl _ \<Rightarrow> Inl (NoFutureFire e after_ts)
                | Inr n \<Rightarrow> Inr n))"

section \<open>The store\<close>

text \<open>Opening the database of an earlier process keeps its tables; nothing is running.\<close>

definition store_open :: "cron_job_row list \<Rightarrow> cron_run_row list \<Rightarrow> cron_store" where
  "store_open jobs runs = \<lparr>cron_jobs = jobs, cron_runs = runs, running = {}\<rparr>"

definition row_to_job :: "('c, 'v) cron_lib \<Rightarrow> cron_job_row \<Rightarrow> cron_error + 'v cron_job" where
  "row_to_job lib r =
     (case json_from_str lib (row_payload r) of
        Inl _ \<Rightarrow> Inl CorruptPayload
      | Inr v \<Rightarrow>
          Inr \<lparr>job_id = row_id r, job_expression = row_expression r, job_payload = v,
               job_enabled = (row_enabled r \<noteq> 0), job_created_at = row_created_at r,
               job_last_run_at = row_last_run_at r, job_next_run_at = row_next_run_at r\<rparr>)"

text \<open>Reading all rows stops at the first one that cannot be converted.\<close>

fun collect_rows :: "('c, 'v) cron_lib \<Rightarrow> cron_job_row list \<Rightarrow> cron_error + 'v cron_job list" where
  "collect_rows lib [] = Inr []"
| "collect_rows lib (r # rs) =
     (case row_to_job lib r of
        Inl e \<Rightarrow> Inl e
      | Inr j \<Rightarrow> (case collect_rows lib rs of Inl e \<Rightarrow> Inl e | Inr js \<Rightarrow> Inr (j # js)))"

definition query_job ::
  "('c, 'v) cron_lib \<Rightarrow> bool \<Rightarrow> cron_store \<Rightarrow> string \<Rightarrow> cron_error + 'v cron_job option" where
  "query_job lib fails s i =
     (if fails then Inl DatabaseError
      else (case filter (\<lambda>r. row_id r = i) (cron_jobs s) of
              [] \<Rightarrow> Inr None
            | r # _ \<Rightarrow> (case row_to_job lib r of Inl e \<Rightarrow> Inl e | Inr j \<Rightarrow> Inr (Some j))))"

definition add ::
  "('c, 'v) cron_lib \<Rightarrow> (nat \<Rightarrow> bool) \<Rightarrow> int \<Rightarrow> 'v cron_job \<Rightarrow> cron_store \<Rightarrow> (cron_error + 'v cron_job) \<times> cron_store" where
  "add lib io now job s =
     (case next_fire_after lib (job_expression job) now of
        Inl e \<Rightarrow> (Inl e, s)
      | Inr next \<Rightarrow>
          (let job = job\<lparr>job_next_run_at := Some next\<rparr>;
               row = \<lparr>row_id = job_id job, row_expression = job_expression job,
                      row_payload = json_to_string lib (job_payload job),
                      row_enabled = of_bool (job_enabled job), row_created_at = job_created_at job,
                      row_last_run_at = job_last_run_at job, row_next_run_at = job_next_run_at job\<rparr>
           in if io 0 \<or> row_id row \<in> row_id ` set (cron_jobs s) then (Inl DatabaseError, s)
              else (Inr job, s\<lparr>cron_jobs := cron_jobs s @ [row]\<rparr>)))"

definition remove :: "(nat \<Rightarrow> bool) \<Rightarrow> string \<Rightarrow> cron_store \<Rightarrow> bool \<times> cron_store" where
  "remove io i s =
     (if io 0 then (False, s)
      else (0 < length (filter (\<lambda>r. row_id r = i) (cron_jobs s)),
            s\<lparr>cron_jobs := filter (\<lambda>r. row_id r \<noteq> i) (cron_jobs s)\<rparr>))"

definition list_jobs :: "('c, 'v) cron_lib \<Rightarrow> (nat \<Rightarrow> bool) \<Rightarrow> cron_store \<Rightarrow> cron_error + 'v cron_job list" where
  "list_jobs lib io s =
     (if io 0 then Inl DatabaseError
      else collect_rows lib (sort_key (\<lambda>r. (row_created_at r, row_id r)) (cron_jobs s)))"

definition update_rows ::
  "string \<Rightarrow> (cron_job_row \<Rightarrow> cron_job_row) \<Rightarrow> cron_store \<Rightarrow> cron_store" where
  "update_rows i f s = s\<lparr>cron_jobs := map (\<lambda>r. if row_id r = i then f r else r) (cron_jobs s)\<rparr>"

definition set_enabled ::
  "('c, 'v) cron_lib \<Rightarrow> (nat \<Rightarrow> bool) \<Rightarrow> int \<Rightarrow> string \<Rightarrow> bool \<Rightarrow> cron_store \<Rightarrow> (cron_error + bool) \<times> cron_store" where
  "set_enabled lib io now i en s =
     (case query_job lib (io 0) s i of
        Inl e \<Rightarrow> (Inl e, s)
      | Inr None \<Rightarrow> (Inr False, s)
      | Inr (Some job) \<Rightarrow>
          (let next_run = (if en
                 then (case job_next_run_at job of
                         Some n \<Rightarrow>
                           if n > now then Inr (Some n)
                           else (case next_fire_after lib (job_expression job) now of
                                   Inl e \<Rightarrow> Inl e | Inr m \<Rightarrow> Inr (Some m))
                       | None \<Rightarrow> (case next_fire_after lib (job_expression job) now of
                                   Inl e \<Rightarrow> Inl e | Inr m \<Rightarrow> Inr (Some m)))
                 else Inr (job_next_run_at job))
           in case next_run of
                Inl e \<Rightarrow> (Inl e, s)
              | Inr nx \<Rightarrow>
                  if io 1 then (Inl DatabaseError, s)
                  else (Inr True, update_rows i
                          (\<lambda>r. r\<lparr>row_enabled := of_bool en, row_next_run_at := nx\<rparr>) s)))"

definition due_jobs ::
  "('c, 'v) cron_lib \<Rightarrow> (nat \<Rightarrow> bool) \<Rightarrow> int \<Rightarrow> cron_store \<Rightarrow> cron_error + 'v cron_job list" where
  "due_jobs lib io now s =
     (if io 0 then Inl DatabaseError
      else (case collect_rows lib
                   (sort_key (\<lambda>r. (the (row_next_run_at r), row_id r))
                     (filter (\<lambda>r. row_enabled r = 1 \<and> row_next_run_at r \<noteq> None \<and>
                                  the (row_next_run_at r) \<le> now) (cron_jobs s))) of
              Inl e \<Rightarrow> Inl e
            | Inr jobs \<Rightarrow> Inr (filter (\<lambda>j. job_id j \<notin> running s) jobs)))"

text \<open>\<open>uid\<close> is the generated primary key of the run.\<close>

definition begin_run ::
  "(nat \<Rightarrow> bool) \<Rightarrow> string \<Rightarrow> string \<Rightarrow> int \<Rightarrow> cron_store \<Rightarrow> (cron_error + bool) \<times> cron_store" where
  "begin_run io uid i started_at s =
     (if i \<in> running s then (Inr False, s)
      else if io 0 \<or> uid \<in> run_id ` set (cron_runs s) then (Inl DatabaseError, s)
      else (Inr True,
            s\<lparr>cron_runs := cron_runs s @
                [\<lparr>run_id = uid, run_job_id = i, run_started_at = started_at, run_finished_at = None,
                  run_ok = None, run_output = ''''\<rparr>],
              running := insert i (running s)\<rparr>))"

definition finish_run ::
  "('c, 'v) cron_lib \<Rightarrow> (nat \<Rightarrow> bool) \<Rightarrow> int \<Rightarrow> string \<Rightarrow> int \<Rightarrow> bool \<Rightarrow> string \<Rightarrow> cron_store \<Rightarrow>
   (cron_error + unit) \<times> cron_store" where
  "finish_run lib io finished_at i started_at ok out s =
     (if io 0 then (Inl DatabaseError, s)
      else
        (let s1 = s\<lparr>cron_runs := map (\<lambda>r.
                 if run_job_id r = i \<and> run_started_at r = started_at \<and> run_finished_at r = None
                 then r\<lparr>run_finished_at := Some finished_at, run_ok := Some (of_bool ok), run_output := out\<rparr>
                 else r) (cron_runs s)\<rparr>;
             s2 = s1\<lparr>running := running s1 - {i}\<rparr>
         in if io 1 then (Inl DatabaseError, s2)
            else
              (let next_run = (case filter (\<lambda>r. row_id r = i) (cron_jobs s2) of
                     [] \<Rightarrow> None
                   | r # _ \<Rightarrow> (case next_fire_after lib (row_expression r) finished_at of
                                Inr n \<Rightarrow> Some n | Inl _ \<Rightarrow> None))
               in if io 2 then (Inl DatabaseError, s2)
                  else (Inr (), update_rows i
                          (\<lambda>r. r\<lparr>row_last_run_at := Some finished_at, row_next_run_at := next_run\<rparr>) s2))))"

definition crash_output :: string where
  "crash_output = ''crashed: server restarted before the run completed''"

definition recover_crashed_runs ::
  "(nat \<Rightarrow> bool) \<Rightarrow> int \<Rightarrow> cron_store \<Rightarrow> (cron_error + nat) \<times> cron_store" where
  "recover_crashed_runs io now s =
     (if io 0 then (Inl DatabaseError, s)
      else (Inr (length (filter (\<lambda>r. run_finished_at r = None) (cron_runs s))),
            s\<lparr>cron_runs := map (\<lambda>r.
                if run_finished_at r = None
                then r\<lparr>run_finished_at := Some now, run_ok := Some 0, run_output := crash_output\<rparr>
                else r) (cron_runs s)\<rparr>))"

section \<open>The tick\<close>

text \<open>One iteration of \<open>cron_tick_loop\<close>: the due jobs are claimed one after the other; \<open>claims k\<close>
  gives the generated run key and the database faults of the \<open>k\<close>-th claim. The result lists the
  tasks that are spawned, each a job with the time its run started.\<close>

fun claim_jobs ::
  "(nat \<Rightarrow> string \<times> (nat \<Rightarrow> bool)) \<Rightarrow> int \<Rightarrow> nat \<Rightarrow> 'v cron_job list \<Rightarrow> cron_store \<Rightarrow>
   (string \<times> int) list \<times> cron_store" where
  "claim_jobs claims now k [] s = ([], s)"
| "claim_jobs claims now k (job # jobs) s =
     (case begin_run (snd (claims k)) (fst (claims k)) (job_id job) now s of
        (Inr True, s') \<Rightarrow>
          (case claim_jobs claims now (Suc k) jobs s' of
             (tasks, s'') \<Rightarrow> ((job_id job, now) # tasks, s''))
      | (_, s') \<Rightarrow> claim_jobs claims now (Suc k) jobs s')"

definition cron_tick ::
  "('c, 'v) cron_lib \<Rightarrow> (nat \<Rightarrow> bool) \<Rightarrow> (nat \<Rightarrow> string \<times> (nat \<Rightarrow> bool)) \<Rightarrow> int \<Rightarrow> cron_store \<Rightarrow>
   (string \<times> int) list \<times> cron_store" where
  "cron_tick lib io claims now s =
     (case due_jobs lib io now s of
        Inl _ \<Rightarrow> ([], s)
      | Inr due \<Rightarrow> claim_jobs claims now 0 due s)"

section \<open>Runs\<close>

text \<open>The server process with the tasks it has spawned and that have not ended yet. The other
  commands work on the same database from the outside; a restart loses the running set and the
  tasks and recovers the run history.\<close>

inductive cron_step ::
  "('c, 'v) cron_lib \<Rightarrow> cron_store \<times> (string \<times> int) multiset \<Rightarrow> cron_store \<times> (string \<times> int) multiset \<Rightarrow> bool"
  for lib where
  cs_tick: "cron_tick lib io claims now s = (ts, s') \<Longrightarrow> cron_step lib (s, tasks) (s', tasks + mset ts)"
| cs_finish: "(i, t) \<in># tasks \<Longrightarrow> finish_run lib io now i t ok out s = (r, s') \<Longrightarrow>
     cron_step lib (s, tasks) (s', tasks - {#(i, t)#})"
| cs_add: "add lib io now job s = (r, s') \<Longrightarrow> cron_step lib (s, tasks) (s', tasks)"
| cs_remove: "remove io i s = (b, s') \<Longrightarrow> cron_step lib (s, tasks) (s', tasks)"
| cs_enable: "set_enabled lib io now i en s = (r', s') \<Longrightarrow> cron_step lib (s, tasks) (s', tasks)"
| cs_restart: "recover_crashed_runs io now (store_open (cron_jobs s) (cron_runs s)) = (n, s') \<Longrightarrow>
     cron_step lib (s, tasks) (s', {#})"

definition task_count :: "(string \<times> int) multiset \<Rightarrow> string \<Rightarrow> nat" where
  "task_count tasks i = count (image_mset fst tasks) i"

definition cron_inv :: "cron_store \<times> (string \<times> int) multiset \<Rightarrow> bool" where
  "cron_inv st = (case st of (s, tasks) \<Rightarrow>
     distinct (map row_id (cron_jobs s)) \<and>
     (\<forall>i. task_count tasks i \<le> (if i \<in> running s then 1 else 0)))"

section \<open>Facts\<close>

lemma filter_map_same:
  "filter (\<lambda>r. row_id r \<noteq> i) (map (\<lambda>r. if row_id r = i then f r else r) rs) =
     filter (\<lambda>r. row_id r \<noteq> i) rs" if "\<And>r. row_id (f r) = row_id r"
  using that by (induction rs) auto

lemma updated_row:
  assumes "r \<in> set (map (\<lambda>r. if row_id r = i then f r else r) rs)" and "row_id r = i"
  shows "\<exists>r0. r = f r0"
proof -
  obtain r0 where "r = (if row_id r0 = i then f r0 else r0)"
    using assms(1) unfolding set_map by (elim imageE) blast
  then show ?thesis using assms(2) by (cases "row_id r0 = i") auto
qed

lemma filter_map_none: "(\<And>r. \<not> P (f r)) \<Longrightarrow> filter P (map (\<lambda>r. if P r then f r else r) rs) = []"
  by (induction rs) auto

lemma next_fire_later:
  "cron_lib_laws lib \<Longrightarrow> next_fire_after lib e t = Inr n \<Longrightarrow> t < n"
  by (auto simp: next_fire_after_def cron_lib_laws_def split: sum.splits if_splits)

lemma collect_rows_set:
  "collect_rows lib rs = Inr js \<Longrightarrow> j \<in> set js \<longleftrightarrow> (\<exists>r \<in> set rs. row_to_job lib r = Inr j)"
  by (induction rs arbitrary: js) (auto split: sum.splits)

lemma row_to_job_id: "row_to_job lib r = Inr j \<Longrightarrow>
    job_id j = row_id r \<and> job_next_run_at j = row_next_run_at r \<and> job_expression j = row_expression r"
  by (auto simp: row_to_job_def split: sum.splits)

lemma due_jobs_iff:
  assumes "due_jobs lib io t s = Inr js"
  shows "j \<in> set js \<longleftrightarrow> job_id j \<notin> running s \<and>
    (\<exists>r \<in> set (cron_jobs s). row_to_job lib r = Inr j \<and> row_enabled r = 1 \<and>
       (\<exists>n. row_next_run_at r = Some n \<and> n \<le> t))"
proof -
  let ?rows = "filter (\<lambda>r. row_enabled r = 1 \<and> row_next_run_at r \<noteq> None \<and>
      the (row_next_run_at r) \<le> t) (cron_jobs s)"
  obtain jobs where "collect_rows lib (sort_key (\<lambda>r. (the (row_next_run_at r), row_id r)) ?rows) = Inr jobs"
    and "js = filter (\<lambda>j. job_id j \<notin> running s) jobs"
    using assms by (auto simp: due_jobs_def split: if_splits sum.splits)
  from this(2) collect_rows_set[OF this(1), of j] show ?thesis by auto
qed

lemma due_jobs_ids:
  assumes "due_jobs lib io t s = Inr js" and "j \<in> set js"
  shows "job_id j \<notin> running s" and "\<exists>r \<in> set (cron_jobs s). row_id r = job_id j \<and> row_enabled r = 1 \<and>
       (\<exists>n. row_next_run_at r = Some n \<and> n \<le> t)"
  using due_jobs_iff[OF assms(1), of j] assms(2) row_to_job_id by fastforce+

lemma begin_run_cases:
  obtains s' where "begin_run io u i t s = (Inr True, s')" "i \<notin> running s" "running s' = insert i (running s)"
      "cron_jobs s' = cron_jobs s"
  | r where "begin_run io u i t s = (r, s)" "r \<noteq> Inr True"
  by (cases "i \<in> running s"; cases "io 0 \<or> u \<in> run_id ` set (cron_runs s)") (auto simp: begin_run_def)

lemma claim_jobs_spec:
  assumes "claim_jobs claims now k jobs s = (ts, s')"
  shows "distinct (map fst ts) \<and> set (map fst ts) \<inter> running s = {} \<and>
    running s' = running s \<union> set (map fst ts) \<and> cron_jobs s' = cron_jobs s \<and>
    set (map fst ts) \<subseteq> job_id ` set jobs"
  using assms
proof (induction jobs arbitrary: k s ts)
  case (Cons job jobs)
  show ?case
  proof (cases rule: begin_run_cases[of "snd (claims k)" "fst (claims k)" "job_id job" now s])
    case (1 s1)
    obtain ts1 where c: "claim_jobs claims now (Suc k) jobs s1 = (ts1, s')" "ts = (job_id job, now) # ts1"
      using 1 Cons.prems by (auto split: prod.splits)
    from Cons.IH[OF c(1)] 1 c(2) show ?thesis by auto
  next
    case (2 r)
    then have "claim_jobs claims now (Suc k) jobs s = (ts, s')"
      using Cons.prems by (cases r) (auto split: bool.splits)
    from Cons.IH[OF this] show ?thesis by auto
  qed
qed simp

lemma task_count_simps [simp]:
  "task_count {#} i = 0"
  "task_count (tasks + mset ts) i = task_count tasks i + count_list (map fst ts) i"
  by (simp_all add: task_count_def count_mset flip: mset_map)

lemma task_count_remove:
  "(i, t) \<in># tasks \<Longrightarrow> task_count (tasks - {#(i, t)#}) j = task_count tasks j - (if j = i then 1 else 0)"
  by (auto simp: task_count_def image_mset_Diff)

lemma task_count_in: "(i, t) \<in># tasks \<Longrightarrow> 0 < task_count tasks i"
  by (force simp: task_count_def count_greater_zero_iff)

lemma count_list_distinct: "distinct xs \<Longrightarrow> count_list xs x = (if x \<in> set xs then 1 else 0)"
  by (simp add: count_mset[symmetric] distinct_count_atmost_1[THEN iffD1])

lemma cron_tick_spec:
  assumes "cron_tick lib io claims now s = (ts, s')"
  shows "distinct (map fst ts)" "set (map fst ts) \<inter> running s = {}"
    "running s' = running s \<union> set (map fst ts)" "cron_jobs s' = cron_jobs s"
proof -
  have "distinct (map fst ts) \<and> set (map fst ts) \<inter> running s = {} \<and>
      running s' = running s \<union> set (map fst ts) \<and> cron_jobs s' = cron_jobs s"
  proof (cases "due_jobs lib io now s")
    case (Inr due)
    then show ?thesis
      using assms claim_jobs_spec[of claims now 0 due s ts s'] by (simp add: cron_tick_def)
  qed (use assms in \<open>auto simp: cron_tick_def\<close>)
  then show "distinct (map fst ts)" "set (map fst ts) \<inter> running s = {}"
    "running s' = running s \<union> set (map fst ts)" "cron_jobs s' = cron_jobs s" by simp_all
qed

lemma finish_run_running:
  "running (snd (finish_run lib io now i t ok out s)) \<supseteq> running s - {i}"
  "map row_id (cron_jobs (snd (finish_run lib io now i t ok out s))) = map row_id (cron_jobs s)"
  by (auto simp: finish_run_def Let_def update_rows_def)

interpretation cron_sys: invariant_system "cron_step lib" cron_inv
proof
  fix x y
  assume inv: "cron_inv x" and "cron_step lib x y"
  from this(2) show "cron_inv y"
  proof cases
    case (cs_tick io claims now s ts s' tasks)
    note sp = cron_tick_spec[OF cs_tick(3)]
    have le: "task_count tasks j \<le> (if j \<in> running s then 1 else 0)" for j
      using inv cs_tick(1) by (simp add: cron_inv_def)
    have "task_count (tasks + mset ts) j \<le> (if j \<in> running s' then 1 else 0)" for j
      using le[of j] sp(2,3) count_list_distinct[OF sp(1), of j] by (auto split: if_splits)
    then show ?thesis
      using inv cs_tick(1,2) sp(4) by (simp add: cron_inv_def)
  next
    case (cs_finish i t tasks io now ok out s r s')
    have le: "task_count tasks j \<le> (if j \<in> running s then 1 else 0)" for j
      using inv cs_finish(1) by (simp add: cron_inv_def)
    have r: "running s - {i} \<subseteq> running s'" "map row_id (cron_jobs s') = map row_id (cron_jobs s)"
      using finish_run_running[where lib = lib and io = io and now = now and i = i and t = t and ok = ok
          and out = out and s = s] cs_finish(4) by auto
    have "task_count (tasks - {#(i, t)#}) j \<le> (if j \<in> running s' then 1 else 0)" for j
      using le[of j] r(1) task_count_remove[OF cs_finish(3), of j] by (auto split: if_splits)
    then show ?thesis
      using inv cs_finish(1,2) r(2) by (simp add: cron_inv_def)
  next
    case (cs_add io now job s r s' tasks)
    then show ?thesis
      using inv by (auto simp: cron_inv_def add_def Let_def split: sum.splits if_splits)
  next
    case (cs_remove io i s b s' tasks)
    then show ?thesis
      using inv by (auto simp: cron_inv_def remove_def distinct_map_filter split: if_splits)
  next
    case (cs_enable io now i en s r' s' tasks)
    have "running s' = running s" "map row_id (cron_jobs s') = map row_id (cron_jobs s)"
      using cs_enable(3) by (auto simp: set_enabled_def update_rows_def Let_def
          split: sum.splits option.splits if_splits)
    then show ?thesis using inv cs_enable(1,2) by (auto simp: cron_inv_def)
  next
    case (cs_restart io now s n s' tasks)
    then show ?thesis
      using inv by (auto simp: cron_inv_def recover_crashed_runs_def store_open_def split: if_splits)
  qed
qed

lemma cron_inv_open: "cron_inv (store_open [] [], {#})"
  by (simp add: cron_inv_def store_open_def)

lemmas cron_run_inv = cron_sys.run_inv[OF _ cron_inv_open]

section \<open>Properties\<close>

text \<open>C3: no run of a job overlaps another: in every state the server reaches, across ticks,
  completions, failing statements, changes from outside and restarts, at most one task per job is
  alive, and neither \<open>due_jobs\<close> nor a tick returns a job that has a task alive.\<close>

theorem cron_no_overlap:
  assumes "(cron_step lib)\<^sup>*\<^sup>* (store_open [] [], {#}) (s, tasks)"
  shows "task_count tasks i \<le> 1 \<and>
    (0 < task_count tasks i \<longrightarrow>
       (\<forall>io now js j. due_jobs lib io now s = Inr js \<longrightarrow> j \<in> set js \<longrightarrow> job_id j \<noteq> i) \<and>
       (\<forall>io claims now ts s'. cron_tick lib io claims now s = (ts, s') \<longrightarrow> i \<notin> set (map fst ts)))"
proof -
  have le: "task_count tasks i \<le> (if i \<in> running s then 1 else 0)"
    using cron_run_inv[OF assms] by (simp add: cron_inv_def)
  then have r: "0 < task_count tasks i \<Longrightarrow> i \<in> running s"
    by (simp split: if_splits)
  have "job_id j \<noteq> i" if "0 < task_count tasks i" "due_jobs lib io now s = Inr js" "j \<in> set js" for io now js j
    using due_jobs_ids(1)[OF that(2,3)] r[OF that(1)] by blast
  moreover have "i \<notin> set (map fst ts)" if "0 < task_count tasks i" "cron_tick lib io claims now s = (ts, s')"
    for io claims now ts s'
    using cron_tick_spec(2)[OF that(2)] r[OF that(1)] by blast
  ultimately show ?thesis
    using le by (auto split: if_splits)
qed

text \<open>A library whose schedules fire every second and whose payloads are their own text, to show
  that the laws can hold.\<close>

definition every_second :: "(unit, string) cron_lib" where
  "every_second =
     \<lparr>cron_from_str = (\<lambda>e. if e = [] then Inl ''empty'' else Inr ()), timestamp_valid = (\<lambda>_. True),
      find_next_occurrence = (\<lambda>_ t. Inr (t + 1)), json_to_string = (\<lambda>v. v), json_from_str = Inr\<rparr>"

lemma every_second_laws: "cron_lib_laws every_second"
  by (auto simp: cron_lib_laws_def every_second_def)

definition ex_job :: "string cron_job" where
  "ex_job = cron_job_new 0 ''j'' ''* * * * * *'' ''{}'' True"

definition ex_added :: cron_store where
  "ex_added = snd (add every_second (\<lambda>_. False) 0 ex_job (store_open [] []))"

lemmas cron_eval = every_second_def ex_job_def ex_added_def store_open_def add_def next_fire_after_def
  parse_schedule_def cron_job_new_def Let_def

lemma ex_add: "add every_second (\<lambda>_. False) 0 ex_job (store_open [] []) =
    (Inr (ex_job\<lparr>job_next_run_at := Some 1\<rparr>), ex_added)"
  by (simp add: cron_eval)

definition ex_claims :: "nat \<Rightarrow> string \<times> (nat \<Rightarrow> bool)" where
  "ex_claims k = (''run'', \<lambda>_. False)"

definition ex_ticked :: cron_store where
  "ex_ticked = snd (cron_tick every_second (\<lambda>_. False) ex_claims 5 ex_added)"

lemma ex_tick: "cron_tick every_second (\<lambda>_. False) ex_claims 5 ex_added = ([(''j'', 5)], ex_ticked)"
  by (simp add: ex_ticked_def cron_tick_def due_jobs_def row_to_job_def begin_run_def ex_claims_def cron_eval)

lemma ex_cron_run:
  "(cron_step every_second)\<^sup>*\<^sup>* (store_open [] [], {#}) (ex_added, {#})"
  "(cron_step every_second)\<^sup>*\<^sup>* (store_open [] [], {#}) (ex_ticked, {#(''j'', 5)#})"
proof -
  have a: "cron_step every_second (store_open [] [], {#}) (ex_added, {#})"
    by (rule cs_add[OF ex_add])
  then show r: "(cron_step every_second)\<^sup>*\<^sup>* (store_open [] [], {#}) (ex_added, {#})" by blast
  have "cron_step every_second (ex_added, {#}) (ex_ticked, {#(''j'', 5)#})"
    using cs_tick[OF ex_tick, of "{#}"] by simp
  with r show "(cron_step every_second)\<^sup>*\<^sup>* (store_open [] [], {#}) (ex_ticked, {#(''j'', 5)#})"
    by (rule rtranclp.rtrancl_into_rtrancl)
qed

theorem cron_no_overlap_witness:
  "\<forall>io claims now. ''j'' \<notin> set (map fst (fst (cron_tick every_second io claims now ex_ticked)))"
proof (intro allI)
  fix io claims now
  obtain ts s' where "cron_tick every_second io claims now ex_ticked = (ts, s')" by fastforce
  then show "''j'' \<notin> set (map fst (fst (cron_tick every_second io claims now ex_ticked)))"
    using cron_no_overlap[OF ex_cron_run(2), of "''j''"] by (simp add: task_count_def) blast
qed

text \<open>A job that was added is read back as it was stored, with the next match of its expression
  as its fire time, and is not due before that time, in particular not at once; a rejected job
  leaves the store unchanged.\<close>

theorem cron_add_exact:
  assumes "cron_lib_laws lib" and "add lib io now job s = (r, s')"
  shows "(case r of
      Inl e \<Rightarrow> s' = s
    | Inr j \<Rightarrow> \<exists>n. next_fire_after lib (job_expression job) now = Inr n \<and> now < n \<and>
        j = job\<lparr>job_next_run_at := Some n\<rparr> \<and> query_job lib False s' (job_id job) = Inr (Some j) \<and>
        (\<forall>io t js j'. due_jobs lib io t s' = Inr js \<longrightarrow> j' \<in> set js \<longrightarrow> job_id j' = job_id job \<longrightarrow> n \<le> t))"
proof (cases r)
  case (Inl e)
  then show ?thesis
    using assms(2) by (auto simp: add_def Let_def split: sum.splits if_splits)
next
  case (Inr j)
  then obtain n where n: "next_fire_after lib (job_expression job) now = Inr n"
    and fresh: "job_id job \<notin> row_id ` set (cron_jobs s)" and j: "j = job\<lparr>job_next_run_at := Some n\<rparr>"
    and s': "s' = s\<lparr>cron_jobs := cron_jobs s @ [\<lparr>row_id = job_id job, row_expression = job_expression job,
        row_payload = json_to_string lib (job_payload job), row_enabled = of_bool (job_enabled job),
        row_created_at = job_created_at job, row_last_run_at = job_last_run_at job,
        row_next_run_at = Some n\<rparr>]\<rparr>"
    using assms(2) by (auto simp: add_def Let_def split: sum.splits if_splits)
  have others: "filter (\<lambda>r. row_id r = job_id job) (cron_jobs s) = []"
    using fresh by (auto simp: filter_empty_conv image_iff)
  have "json_from_str lib (json_to_string lib v) = Inr v" for v
    using assms(1) by (simp add: cron_lib_laws_def)
  then have "query_job lib False s' (job_id job) = Inr (Some j)"
    by (simp add: query_job_def s' others row_to_job_def j)
  moreover have "n \<le> t" if "due_jobs lib io t s' = Inr js" "j' \<in> set js" "job_id j' = job_id job" for io t js j'
    using due_jobs_ids(2)[OF that(1,2)] that(3) fresh by (force simp: s')
  ultimately show ?thesis
    using Inr n j next_fire_later[OF assms(1) n] by auto
qed

theorem cron_add_exact_witness:
  "query_job every_second False ex_added ''j'' = Inr (Some (ex_job\<lparr>job_next_run_at := Some 1\<rparr>))"
  using cron_add_exact[OF every_second_laws ex_add] by (simp add: ex_job_def cron_job_new_def)

text \<open>Enabling a job whose fire time has passed (or is missing) moves it to the first match after
  now, so re-enabling never fires a missed run; disabling leaves the fire time as it is; every
  other job is unchanged, and an unknown job is reported as such.\<close>

theorem cron_reenable_no_backlog:
  assumes "cron_lib_laws lib" and "set_enabled lib io now i en s = (Inr found, s')"
  shows "(found \<longleftrightarrow> i \<in> row_id ` set (cron_jobs s)) \<and>
    filter (\<lambda>r. row_id r \<noteq> i) (cron_jobs s') = filter (\<lambda>r. row_id r \<noteq> i) (cron_jobs s) \<and>
    (found \<and> en \<longrightarrow> (\<forall>io' js j. due_jobs lib io' now s' = Inr js \<longrightarrow> j \<in> set js \<longrightarrow> job_id j \<noteq> i)) \<and>
    (found \<and> \<not> en \<longrightarrow> (\<forall>io' t js j. due_jobs lib io' t s' = Inr js \<longrightarrow> j \<in> set js \<longrightarrow> job_id j \<noteq> i))"
proof (cases "query_job lib (io 0) s i")
  case (Inr jo)
  show ?thesis
  proof (cases jo)
    case None
    then show ?thesis
      using Inr assms(2) by (force simp: set_enabled_def query_job_def filter_empty_conv
          split: if_splits list.splits sum.splits)
  next
    case (Some job)
    obtain nx where f: found and nx: "en \<Longrightarrow> \<exists>n. nx = Some n \<and> now < n"
      and s': "s' = update_rows i (\<lambda>r. r\<lparr>row_enabled := of_bool en, row_next_run_at := nx\<rparr>) s"
      using assms(2) Inr Some next_fire_later[OF assms(1), of "job_expression job" now]
      by (cases en; cases "job_next_run_at job"; cases "next_fire_after lib (job_expression job) now")
        (auto simp: set_enabled_def Let_def split: if_splits)
    have "filter (\<lambda>r. row_id r = i) (cron_jobs s) \<noteq> []"
      using Inr Some by (auto simp: query_job_def split: if_splits)
    then have m: "i \<in> row_id ` set (cron_jobs s)" by (force simp: filter_empty_conv)
    have upd: "row_enabled r = of_bool en \<and> row_next_run_at r = nx"
      if "r \<in> set (cron_jobs s')" "row_id r = i" for r
    proof -
      have "\<exists>r0. r = r0\<lparr>row_enabled := of_bool en, row_next_run_at := nx\<rparr>"
        using that by (intro updated_row[of r i _ "cron_jobs s"]) (simp_all add: s' update_rows_def)
      then show ?thesis by auto
    qed
    have "filter (\<lambda>r. row_id r \<noteq> i) (cron_jobs s') = filter (\<lambda>r. row_id r \<noteq> i) (cron_jobs s)"
      by (simp add: s' update_rows_def filter_map_same)
    moreover have "en \<and> now < t" if d: "due_jobs lib io' t s' = Inr js" "j \<in> set js" "job_id j = i" for io' t js j
    proof -
      obtain r n where r: "r \<in> set (cron_jobs s')" "row_id r = i" "row_enabled r = 1"
        "row_next_run_at r = Some n" "n \<le> t"
        using due_jobs_ids(2)[OF d(1,2)] d(3) by blast
      with upd[OF r(1,2)] nx show ?thesis by (cases en) auto
    qed
    ultimately show ?thesis
      using f m by blast
  qed
qed (use assms in \<open>auto simp: set_enabled_def\<close>)

theorem cron_reenable_no_backlog_witness:
  "\<exists>s'. set_enabled every_second (\<lambda>_. False) 9 ''j'' True ex_added = (Inr True, s') \<and>
     (case due_jobs every_second (\<lambda>_. False) 9 s' of
        Inr js \<Rightarrow> ''j'' \<notin> set (map job_id js) | Inl _ \<Rightarrow> False)"
proof -
  define s' where "s' = snd (set_enabled every_second (\<lambda>_. False) 9 ''j'' True ex_added)"
  have e: "set_enabled every_second (\<lambda>_. False) 9 ''j'' True ex_added = (Inr True, s')"
    by (simp add: s'_def set_enabled_def query_job_def row_to_job_def cron_eval)
  have "\<exists>js. due_jobs every_second (\<lambda>_. False) 9 s' = Inr js"
    by (simp add: s'_def set_enabled_def query_job_def row_to_job_def due_jobs_def update_rows_def cron_eval)
  then obtain js where d: "due_jobs every_second (\<lambda>_. False) 9 s' = Inr js" by blast
  have "job_id j \<noteq> ''j''" if "j \<in> set js" for j
    using cron_reenable_no_backlog[OF every_second_laws e] d that by blast
  then have "''j'' \<notin> set (map job_id js)" by force
  then show ?thesis
    using e d by simp
qed

text \<open>A completed run that is recorded releases the job, stores the outcome in exactly the open
  rows of that run, and moves the fire time of the job to a match after the completion, or to none,
  so the job is not due again at the completion time.\<close>

theorem cron_finish_advances:
  assumes "cron_lib_laws lib" and "finish_run lib io now i t ok out s = (Inr (), s')"
  shows "running s' = running s - {i} \<and>
    (\<forall>r \<in> set (cron_jobs s'). row_id r = i \<longrightarrow>
       row_last_run_at r = Some now \<and> (\<forall>n. row_next_run_at r = Some n \<longrightarrow> now < n)) \<and>
    (\<forall>io' js j. due_jobs lib io' now s' = Inr js \<longrightarrow> j \<in> set js \<longrightarrow> job_id j \<noteq> i) \<and>
    filter (\<lambda>r. run_job_id r = i \<and> run_started_at r = t \<and> run_finished_at r = None) (cron_runs s') = [] \<and>
    map run_id (cron_runs s') = map run_id (cron_runs s)"
proof -
  define next_run where "next_run = (case filter (\<lambda>r. row_id r = i) (cron_jobs s) of
      [] \<Rightarrow> None | r # _ \<Rightarrow> (case next_fire_after lib (row_expression r) now of
        Inr n \<Rightarrow> Some n | Inl _ \<Rightarrow> None))"
  have later: "now < n" if "next_run = Some n" for n
    using that next_fire_later[OF assms(1)] by (auto simp: next_run_def split: list.splits sum.splits)
  have s': "running s' = running s - {i}"
    "cron_jobs s' = map (\<lambda>r. if row_id r = i
       then r\<lparr>row_last_run_at := Some now, row_next_run_at := next_run\<rparr> else r) (cron_jobs s)"
    "cron_runs s' = map (\<lambda>r. if run_job_id r = i \<and> run_started_at r = t \<and> run_finished_at r = None
       then r\<lparr>run_finished_at := Some now, run_ok := Some (of_bool ok), run_output := out\<rparr> else r) (cron_runs s)"
    using assms(2) by (auto simp: finish_run_def Let_def update_rows_def next_run_def split: if_splits)
  have upd: "row_last_run_at r = Some now \<and> (\<forall>n. row_next_run_at r = Some n \<longrightarrow> now < n)"
    if "r \<in> set (cron_jobs s')" "row_id r = i" for r
  proof -
    have "\<exists>r0. r = r0\<lparr>row_last_run_at := Some now, row_next_run_at := next_run\<rparr>"
      using that by (intro updated_row[of r i _ "cron_jobs s"]) (simp_all add: s'(2))
    then show ?thesis using later by auto
  qed
  then have "job_id j \<noteq> i" if "due_jobs lib io' now s' = Inr js" "j \<in> set js" for io' js j
    using due_jobs_ids(2)[OF that] by fastforce
  moreover have "filter (\<lambda>r. run_job_id r = i \<and> run_started_at r = t \<and> run_finished_at r = None) (cron_runs s') = []"
    "map run_id (cron_runs s') = map run_id (cron_runs s)"
    unfolding s'(3) by (rule filter_map_none) (simp_all add: o_def)
  ultimately show ?thesis
    using upd s'(1) by blast
qed

lemma ex_finish:
  "fst (finish_run every_second (\<lambda>_. False) 7 ''j'' 5 True ''ok'' ex_ticked) = Inr ()"
  by (simp add: finish_run_def Let_def)

theorem cron_finish_advances_witness:
  "running (snd (finish_run every_second (\<lambda>_. False) 7 ''j'' 5 True ''ok'' ex_ticked)) =
     running ex_ticked - {''j''}"
  using cron_finish_advances[OF every_second_laws, of "\<lambda>_. False" 7 "''j''" 5 True "''ok''" ex_ticked
      "snd (finish_run every_second (\<lambda>_. False) 7 ''j'' 5 True ''ok'' ex_ticked)"] ex_finish
  by (metis prod.collapse)

text \<open>When the first statement of \<open>finish_run\<close> fails in the database, the error is returned with
  the running marker still set, and no later tick of this process fires the job, whatever the time
  and the table contain; when a later statement fails, the marker is gone but the fire time has
  not moved, so a job that was due is due again at once.\<close>

theorem cron_finish_faults:
  assumes "finish_run lib io now i t ok out s = (r, s')" and "i \<in> running s"
  shows "(io 0 \<longrightarrow> r = Inl DatabaseError \<and> s' = s \<and>
      (\<forall>s'' io' claims now' ts s3. running s'' = running s' \<longrightarrow>
         cron_tick lib io' claims now' s'' = (ts, s3) \<longrightarrow> i \<notin> set (map fst ts))) \<and>
    (\<not> io 0 \<and> (io 1 \<or> io 2) \<longrightarrow> r = Inl DatabaseError \<and> i \<notin> running s' \<and> cron_jobs s' = cron_jobs s)"
proof -
  have "i \<notin> set (map fst ts)" if "running s'' = running s" "cron_tick lib io' claims now' s'' = (ts, s3)"
    for s'' io' claims now' ts s3
    using cron_tick_spec(2)[OF that(2)] that(1) assms(2) by blast
  moreover have "io 0 \<Longrightarrow> r = Inl DatabaseError \<and> s' = s"
    "\<not> io 0 \<and> (io 1 \<or> io 2) \<Longrightarrow> r = Inl DatabaseError \<and> i \<notin> running s' \<and> cron_jobs s' = cron_jobs s"
    using assms(1) by (auto simp: finish_run_def Let_def split: if_splits)
  ultimately show ?thesis by blast
qed

theorem cron_finish_faults_witness:
  "\<forall>io' claims now'. ''j'' \<notin> set (map fst (fst (cron_tick every_second io' claims now' ex_ticked)))"
proof (intro allI)
  fix io' claims now'
  obtain ts s3 where t: "cron_tick every_second io' claims now' ex_ticked = (ts, s3)" by fastforce
  have "finish_run every_second (\<lambda>_. True) 7 ''j'' 5 True ''ok'' ex_ticked = (Inl DatabaseError, ex_ticked)"
    by (simp add: finish_run_def)
  moreover have "''j'' \<in> running ex_ticked"
    using cron_tick_spec(3)[OF ex_tick] by simp
  ultimately have "''j'' \<notin> set (map fst ts)"
    using cron_finish_faults[of every_second "\<lambda>_. True" 7 "''j''" 5 True "''ok''" ex_ticked
        "Inl DatabaseError" ex_ticked] t by blast
  then show "''j'' \<notin> set (map fst (fst (cron_tick every_second io' claims now' ex_ticked)))"
    by (simp add: t)
qed

text \<open>After a crash and the recovery at the next start, every open run is closed as crashed, the
  schedule is what it was, and a job is due exactly when it is enabled and its fire time has come,
  also if its run was in flight when the process died.\<close>

theorem cron_recovery_catches_up:
  assumes "recover_crashed_runs io now (store_open (cron_jobs s) (cron_runs s)) = (Inr n, s')"
  shows "n = length (filter (\<lambda>r. run_finished_at r = None) (cron_runs s)) \<and>
    filter (\<lambda>r. run_finished_at r = None) (cron_runs s') = [] \<and> cron_jobs s' = cron_jobs s \<and>
    (\<forall>io' t js j. due_jobs lib io' t s' = Inr js \<longrightarrow>
       (j \<in> set js \<longleftrightarrow> (\<exists>r \<in> set (cron_jobs s). row_to_job lib r = Inr j \<and> row_enabled r = 1 \<and>
          (\<exists>m. row_next_run_at r = Some m \<and> m \<le> t))))"
proof -
  have "running s' = {}" "cron_jobs s' = cron_jobs s"
    "filter (\<lambda>r. run_finished_at r = None) (cron_runs s') = []"
    "n = length (filter (\<lambda>r. run_finished_at r = None) (cron_runs s))"
    using assms by (auto simp: recover_crashed_runs_def store_open_def filter_empty_conv split: if_splits)
  then show ?thesis
    using due_jobs_iff[of lib _ _ s'] by simp
qed

theorem cron_recovery_catches_up_witness:
  "\<exists>s'. recover_crashed_runs (\<lambda>_. False) 9 (store_open (cron_jobs ex_ticked) (cron_runs ex_ticked)) =
     (Inr 1, s') \<and> filter (\<lambda>r. run_finished_at r = None) (cron_runs s') = []"
proof -
  have "cron_runs ex_ticked = [\<lparr>run_id = ''run'', run_job_id = ''j'', run_started_at = 5,
      run_finished_at = None, run_ok = None, run_output = ''''\<rparr>]"
    by (simp add: ex_ticked_def cron_tick_def due_jobs_def row_to_job_def begin_run_def ex_claims_def cron_eval)
  then obtain s' where "recover_crashed_runs (\<lambda>_. False) 9
      (store_open (cron_jobs ex_ticked) (cron_runs ex_ticked)) = (Inr 1, s')"
    by (simp add: recover_crashed_runs_def store_open_def)
  then show ?thesis
    using cron_recovery_catches_up[of "\<lambda>_. False" 9 ex_ticked 1 s' every_second] by blast
qed

end
