(* ===== verification/Phases.thy ===== *)
theory Phases
  imports Prelude
begin

text \<open>
  The contract that the phased schedulers share (the planner's DAG and the task decomposer): a list
  of phases is admissible when every member of a phase only requires members of earlier phases.
  The locale \<open>phase_order\<close> states what a provider promises of its requirements (they stay inside
  the task set and go down in some rank, so there is no cycle) and gives the client the two facts
  scheduling rests on: some task is always ready, and an admissible list is a topological order.
\<close>

fun phases_ok :: "('a set \<Rightarrow> 'a \<Rightarrow> bool) \<Rightarrow> 'a set \<Rightarrow> 'a list list \<Rightarrow> bool" where
  "phases_ok ready done [] = True"
| "phases_ok ready done (p # ps) =
     ((\<forall>x \<in> set p. ready done x) \<and> phases_ok ready (done \<union> set p) ps)"

lemma phases_ok_nth:
  assumes "phases_ok (\<lambda>D x. requires x \<subseteq> D) done phases" and "i < length phases"
    and "x \<in> set (phases ! i)" and "y \<in> requires x"
  shows "y \<in> done \<or> (\<exists>j < i. y \<in> set (phases ! j))"
  using assms
proof (induction phases arbitrary: "done" i)
  case (Cons p ps)
  show ?case
  proof (cases i)
    case (Suc k)
    then have "y \<in> done \<union> set p \<or> (\<exists>j < k. y \<in> set (ps ! j))"
      using Cons.IH[of "done \<union> set p" k] Cons.prems by simp
    then show ?thesis
      using Suc by (auto intro: exI[of _ 0] exI[of _ "Suc _"])
  qed (use Cons.prems in auto)
qed simp

locale phase_order =
  fixes ids :: "'a set"
    and requires :: "'a \<Rightarrow> 'a set"
  assumes finite_ids: "finite ids"
    and closed: "x \<in> ids \<Longrightarrow> requires x \<subseteq> ids"
    and ranked: "\<exists>rank :: 'a \<Rightarrow> nat. \<forall>x \<in> ids. \<forall>y \<in> requires x. rank y < rank x"
begin

lemma progress:
  assumes "\<not> ids \<subseteq> D"
  shows "\<exists>x \<in> ids - D. requires x \<subseteq> D"
proof -
  obtain rank :: "'a \<Rightarrow> nat" where rank: "\<And>x y. x \<in> ids \<Longrightarrow> y \<in> requires x \<Longrightarrow> rank y < rank x"
    using ranked by blast
  obtain x where x: "x \<in> ids - D" "\<And>z. z \<in> ids - D \<Longrightarrow> rank x \<le> rank z"
    using assms arg_min_nat_lemma[of "\<lambda>z. z \<in> ids - D" _ rank] by blast
  have "y \<in> D" if y: "y \<in> requires x" for y
  proof (rule ccontr)
    assume "y \<notin> D"
    moreover have "y \<in> ids" "rank y < rank x"
      using x(1) y closed rank by blast+
    ultimately show False using x(2)[of y] by simp
  qed
  then show ?thesis using x(1) by blast
qed

lemma topological:
  assumes "phases_ok (\<lambda>D x. requires x \<subseteq> D) {} phases" and "i < length phases"
    and "x \<in> set (phases ! i)" and "y \<in> requires x"
  shows "\<exists>j < i. y \<in> set (phases ! j)"
  using phases_ok_nth[OF assms] by simp

end

section \<open>Lists in which requirements come first\<close>

text \<open>A sufficient condition: the tasks can be listed so that each only requires earlier ones.\<close>

fun earlier :: "'a set \<Rightarrow> ('a \<times> 'a set) list \<Rightarrow> bool" where
  "earlier seen [] = True"
| "earlier seen (x # xs) = (snd x \<subseteq> seen \<and> earlier (insert (fst x) seen) xs)"

lemma earlier_append:
  "earlier seen (xs @ ys) \<longleftrightarrow> earlier seen xs \<and> earlier (seen \<union> set (map fst xs)) ys"
  by (induction xs arbitrary: seen) auto

lemma earlier_closed:
  assumes "earlier seen xs" and "x \<in> set xs"
  shows "snd x \<subseteq> seen \<union> set (map fst xs)"
proof -
  from assms(2) obtain ys zs where "xs = ys @ x # zs" by (meson split_list)
  then show ?thesis using assms(1) by (auto simp: earlier_append)
qed

lemma earlier_rank:
  assumes "earlier seen xs" and "distinct (map fst xs)" and "set (map fst xs) \<inter> seen = {}"
    and "\<forall>x \<in> set xs. finite (snd x)"
  shows "\<exists>rank :: 'a \<Rightarrow> nat. \<forall>x \<in> set xs. \<forall>d \<in> snd x. rank d < rank (fst x)"
  using assms
proof (induction xs rule: rev_induct)
  case (snoc x xs)
  have e: "earlier seen xs" and new: "fst x \<notin> seen \<union> set (map fst xs)" and own: "fst x \<notin> snd x"
    using snoc.prems by (auto simp: earlier_append)
  obtain rank :: "'a \<Rightarrow> nat" where r: "\<And>t d. t \<in> set xs \<Longrightarrow> d \<in> snd t \<Longrightarrow> rank d < rank (fst t)"
    using snoc.IH[OF e] snoc.prems by auto
  let ?rank = "rank(fst x := Suc (Max (insert 0 (rank ` snd x))))"
  have "?rank d < ?rank (fst t)" if "t \<in> set (xs @ [x])" "d \<in> snd t" for t d
  proof (cases "t \<in> set xs")
    case True
    then have "d \<noteq> fst x" "fst t \<noteq> fst x"
      using earlier_closed[OF e True] that(2) new by (auto, metis imageI)
    then show ?thesis using r[OF True that(2)] by simp
  next
    case False
    then have "t = x" "d \<noteq> fst x" using that own by auto
    then show ?thesis
      using that(2) snoc.prems(4) by (simp add: less_Suc_eq_le)
  qed
  then show ?case by blast
qed simp

lemma earlier_phase_order:
  assumes "earlier {} xs" and "distinct (map fst xs)" and "\<forall>x \<in> set xs. finite (snd x)"
    and "\<And>x. x \<in> set xs \<Longrightarrow> requires (fst x) = snd x"
  shows "phase_order (set (map fst xs)) requires"
proof
  obtain rank :: "'a \<Rightarrow> nat" where "\<forall>x \<in> set xs. \<forall>d \<in> snd x. rank d < rank (fst x)"
    using earlier_rank[OF assms(1,2) _ assms(3)] by auto
  then show "\<exists>rank :: 'a \<Rightarrow> nat. \<forall>x \<in> set (map fst xs). \<forall>y \<in> requires x. rank y < rank x"
    using assms(4) by (intro exI[of _ rank]) auto
  show "requires x \<subseteq> set (map fst xs)" if "x \<in> set (map fst xs)" for x
    using that assms(4) earlier_closed[OF assms(1)] by fastforce
qed simp

end
