(* ===== verification/TaskPlanning.thy ===== *)
theory TaskPlanning
  imports TextOps Phases
begin

text \<open>
  From a task description to an execution plan: the keyword analysis of
  \<open>src/orchestration/task_router.rs\<close> (\<open>analyze_task\<close>, \<open>estimate_complexity\<close>,
  \<open>extract_capabilities\<close>), the plan types of \<open>planner_executor/mod.rs\<close> and the adaptive planner of
  \<open>brain_loop/plan_construction.rs\<close>. Complexity is an 8-bit number.
\<close>

type_synonym u8 = "8 word"

section \<open>Task analysis\<close>

datatype task_type =
    BugFix | FeatureImplementation | Refactoring | TestImplementation | Documentation
  | ArchitectureDesign | PerformanceOptimization | CodeReview | Unknown

record task_characteristics =
  tc_description :: string
  tc_task_type :: task_type
  tc_complexity :: u8
  tc_required_capabilities :: "string list"
  tc_involves_multiple_modules :: bool
  tc_is_time_critical :: bool
  tc_needs_verification :: bool
  tc_has_safety_concerns :: bool

definition contains_any :: "string \<Rightarrow> string list \<Rightarrow> bool" where
  "contains_any s pats = list_ex (str_contains s) pats"

definition estimate_complexity :: "string \<Rightarrow> u8" where
  "estimate_complexity description =
     (let lower = to_lowercase description;
          score = (2 :: u8);
          score = (if contains_any lower [''complex'', ''rewrite'', ''redesign'', ''algorithm'']
                   then score + 2 else score);
          score = (if contains_any lower [''performance'', ''optimization'', ''concurrent'']
                   then score + 1 else score);
          score = (if contains_any lower [''simple'', ''trivial'']
                   then (if score = 0 then 0 else score - 1) else score)
      in min score 5)"

definition extract_capabilities :: "string \<Rightarrow> string list" where
  "extract_capabilities lower =
     (if contains_any lower [''api'', ''rest''] then [''api_design''] else []) @
     (if contains_any lower [''database'', ''sql''] then [''database''] else []) @
     (if contains_any lower [''async'', ''concurrency''] then [''concurrency''] else []) @
     (if contains_any lower [''security'', ''auth'', ''encrypt'', ''safe''] then [''security''] else []) @
     (if contains_any lower [''test''] then [''testing''] else []) @
     (if contains_any lower [''memory'', ''leak'', ''gc'', ''performance''] then [''memory''] else []) @
     (if contains_any lower [''ui'', ''ux''] then [''user_interface''] else [])"

definition classify_task_type :: "string \<Rightarrow> task_type" where
  "classify_task_type lower =
     (if contains_any lower [''fix'', ''bug''] then BugFix
      else if contains_any lower [''feature'', ''implement''] then FeatureImplementation
      else if contains_any lower [''performance'', ''speed''] then PerformanceOptimization
      else if contains_any lower [''refactor'', ''optimize''] then Refactoring
      else if contains_any lower [''test''] then TestImplementation
      else if contains_any lower [''doc'', ''comment''] then Documentation
      else if contains_any lower [''architecture'', ''design''] then ArchitectureDesign
      else if contains_any lower [''review''] then CodeReview
      else Unknown)"

definition analyze_task :: "string \<Rightarrow> task_characteristics" where
  "analyze_task description =
     (let lower = to_lowercase description; ty = classify_task_type lower in
      \<lparr>tc_description = description,
       tc_task_type = ty,
       tc_complexity = estimate_complexity description,
       tc_required_capabilities = extract_capabilities lower,
       tc_involves_multiple_modules = contains_any lower [''multiple'', ''modules'', ''package'', ''cross-''],
       tc_is_time_critical = contains_any lower [''urgent'', ''asap'', ''quick'', ''fast''],
       tc_needs_verification = ty \<in> {BugFix, FeatureImplementation, PerformanceOptimization},
       tc_has_safety_concerns = contains_any lower [''security'', ''safe'', ''memory'', ''delete'', ''drop'']\<rparr>)"

section \<open>Plans\<close>

datatype mode_kind = Ask | Plan | Edit | FullAuto | SafeGuard

record plan_step =
  step_id :: string
  step_description :: string
  step_mode :: mode_kind
  step_agent :: "string option"
  depends_on :: "string list"
  timeout_seconds :: u64

record dag_metrics =
  dm_width :: nat
  dm_depth :: nat
  dm_parallel_group_count :: nat
  dm_total_steps :: nat
  dm_complexity_level :: string

record execution_plan =
  plan_id :: string
  plan_steps :: "plan_step list"
  parallel_groups :: "string list list"
  plan_metrics :: "dag_metrics option"

record agent_task_envelope =
  env_task_id :: string
  env_phase :: string
  env_role :: string
  env_objective :: string
  env_constraints :: "string option"
  env_evidence :: "string option"
  env_input :: json

datatype task_complexity = Simple | Medium | Complex

record planning_context =
  pc_complexity :: task_complexity
  pc_has_code :: bool
  pc_has_research :: bool
  pc_has_multiple_subtasks :: bool
  pc_subtask_hints :: "string list"

definition dag_metrics_default :: dag_metrics where
  "dag_metrics_default =
     \<lparr>dm_width = 0, dm_depth = 0, dm_parallel_group_count = 0, dm_total_steps = 0,
      dm_complexity_level = ''Unknown''\<rparr>"

fun complexity_debug :: "task_complexity \<Rightarrow> string" where
  "complexity_debug Simple = ''Simple''"
| "complexity_debug Medium = ''Medium''"
| "complexity_debug Complex = ''Complex''"

text \<open>The hints given in the input object, and those read off bullet lines of the objective.\<close>

definition input_hints :: "json \<Rightarrow> string list" where
  "input_hints input =
     (case input of
        JObject obj \<Rightarrow>
          (case map_of obj ''subtasks'' of
             Some (JArray hints) \<Rightarrow>
               List.map_filter (\<lambda>h. case h of JString s \<Rightarrow> Some s | _ \<Rightarrow> None) hints
           | _ \<Rightarrow> [])
      | _ \<Rightarrow> [])"

definition is_bullet_char :: "char \<Rightarrow> bool" where
  "is_bullet_char c =
     (c = CHR ''-'' \<or> c = CHR ''*'' \<or> is_ascii_digit c \<or> c = CHR ''.'' \<or> c = CHR '')'')"

definition line_hint :: "string \<Rightarrow> string option" where
  "line_hint line =
     (let trimmed = trim line in
      if starts_with (\<lambda>c. c = CHR ''-'') trimmed \<or> starts_with (\<lambda>c. c = CHR ''*'') trimmed \<or>
         starts_with is_ascii_digit trimmed
      then (let hint = trim (dropWhile is_bullet_char trimmed) in
            if hint \<noteq> [] \<and> utf8_len hint > 5 then Some hint else None)
      else None)"

definition planner_analyze_task :: "agent_task_envelope \<Rightarrow> planning_context" where
  "planner_analyze_task task =
     (let ch = analyze_task (env_objective task);
          hints = input_hints (env_input task);
          hints = (if hints = [] then List.map_filter line_hint (str_lines (env_objective task)) else hints);
          c = tc_complexity ch
      in \<lparr>pc_complexity = (if c = 1 \<or> c = 2 then Simple else if c = 3 then Medium else Complex),
          pc_has_code = tc_task_type ch \<in> {BugFix, FeatureImplementation, Refactoring,
            TestImplementation, PerformanceOptimization, CodeReview},
          pc_has_research = tc_task_type ch \<in> {ArchitectureDesign, Documentation},
          pc_has_multiple_subtasks = tc_involves_multiple_modules ch,
          pc_subtask_hints = hints\<rparr>)"

definition constraint_timeout :: "agent_task_envelope \<Rightarrow> u64 \<Rightarrow> u64" where
  "constraint_timeout task d =
     (case Option.bind (env_constraints task) parse_u64 of Some n \<Rightarrow> n | None \<Rightarrow> d)"

definition mk_step :: "string \<Rightarrow> string \<Rightarrow> mode_kind \<Rightarrow> string list \<Rightarrow> u64 \<Rightarrow> plan_step" where
  "mk_step i d m deps t =
     \<lparr>step_id = i, step_description = d, step_mode = m, step_agent = None, depends_on = deps,
      timeout_seconds = t\<rparr>"

definition sub_ids :: "string \<Rightarrow> nat \<Rightarrow> string list" where
  "sub_ids prefix n = map (\<lambda>i. prefix @ show_nat (i + 1)) [0..<n]"

text \<open>The steps and the parallel groups of each complexity band.\<close>

definition simple_plan :: "agent_task_envelope \<Rightarrow> plan_step list \<times> string list list" where
  "simple_plan task =
     ([mk_step ''exec-1'' (''Execute: '' @ env_objective task) FullAuto [] (constraint_timeout task 300),
       mk_step ''review-1'' ''Review and verify output'' SafeGuard [''exec-1''] 60], [])"

definition medium_plan ::
  "agent_task_envelope \<Rightarrow> string list \<Rightarrow> plan_step list \<times> string list list" where
  "medium_plan task hints =
     (let plan_step = mk_step ''plan-1'' (''Analyze objective: '' @ env_objective task) Edit [] 120 in
      if length hints \<ge> 2
      then
        (let ids = sub_ids ''sub-'' (length hints);
             subs = map (\<lambda>i. mk_step (''sub-'' @ show_nat (i + 1))
                      (''Subtask '' @ show_nat (i + 1) @ '': '' @ hints ! i) FullAuto [''plan-1''] 300)
                      [0..<length hints]
         in (plan_step # subs @
               [mk_step ''review-1'' ''Review and consolidate subtask outputs'' SafeGuard ids 120],
             if length ids \<ge> 2 then [ids] else []))
      else
        ([plan_step,
          mk_step ''exec-1'' (''Execute: '' @ env_objective task) FullAuto [''plan-1''] (constraint_timeout task 600),
          mk_step ''review-1'' ''Review and verify output'' SafeGuard [''exec-1''] 120], []))"

definition complex_plan ::
  "agent_task_envelope \<Rightarrow> string list \<Rightarrow> plan_step list \<times> string list list" where
  "complex_plan task hints =
     (let plan_step = mk_step ''plan-1'' (''Deep analysis: '' @ env_objective task) Edit [] 300;
          n = max (length hints) 3;
          ids = sub_ids ''exec-'' n;
          subs = map (\<lambda>i. mk_step (''exec-'' @ show_nat (i + 1))
                   (if i < length hints then ''Subtask '' @ show_nat (i + 1) @ '': '' @ hints ! i
                    else ''Execution component '' @ show_nat (i + 1)) FullAuto [''plan-1''] 600)
                   [0..<n]
      in (plan_step # subs @
            [mk_step ''review-1'' ''Review and verify consolidated output'' SafeGuard ids 300],
          if length ids \<ge> 2 then [ids] else []))"

definition plan_to_dag :: "agent_task_envelope \<Rightarrow> planning_context \<Rightarrow> execution_plan" where
  "plan_to_dag task ctx =
     (let (steps, groups) = (case pc_complexity ctx of
             Simple \<Rightarrow> simple_plan task
           | Medium \<Rightarrow> medium_plan task (pc_subtask_hints ctx)
           | Complex \<Rightarrow> complex_plan task (pc_subtask_hints ctx));
          metrics = \<lparr>dm_width = (if groups = [] then 1 else Max (set (map length groups))),
                     dm_depth = length steps, dm_parallel_group_count = length groups,
                     dm_total_steps = length steps,
                     dm_complexity_level = complexity_debug (pc_complexity ctx)\<rparr>
      in \<lparr>plan_id = ''plan-'' @ env_task_id task @ ''-dag'', plan_steps = steps,
          parallel_groups = groups, plan_metrics = Some metrics\<rparr>)"

definition plan :: "agent_task_envelope \<Rightarrow> execution_plan" where
  "plan task = plan_to_dag task (planner_analyze_task task)"

section \<open>Well-formed plans\<close>

text \<open>A plan is well formed when its step ids are distinct, none is the id of a marker node of the
  execution graph, and every dependency names an earlier step.\<close>

abbreviation steps_reqs :: "plan_step list \<Rightarrow> (string \<times> string set) list" where
  "steps_reqs steps \<equiv> map (\<lambda>s. (step_id s, set (depends_on s))) steps"

definition plan_wf :: "plan_step list \<Rightarrow> bool" where
  "plan_wf steps =
     (distinct (map step_id steps) \<and> ''start'' \<notin> set (map step_id steps) \<and>
      ''end'' \<notin> set (map step_id steps) \<and> earlier {} (steps_reqs steps))"

section \<open>Facts\<close>

lemma mk_step_simps [simp]:
  "step_id (mk_step i d m deps t) = i" "depends_on (mk_step i d m deps t) = deps"
  by (simp_all add: mk_step_def)

lemma sub_ids_distinct: "distinct (sub_ids prefix n)"
  by (simp add: sub_ids_def distinct_map inj_on_def show_nat_inj)

lemma set_sub_ids: "set (sub_ids prefix n) = {prefix @ show_nat (i + 1) | i. i < n}"
  by (auto simp: sub_ids_def)

lemma earlier_subs:
  "\<forall>x \<in> set xs. snd x \<subseteq> seen \<Longrightarrow> earlier seen xs"
proof (induction xs arbitrary: seen)
  case (Cons x xs)
  then show ?case using Cons.IH[of "insert (fst x) seen"] by (simp add: subset_insertI2)
qed simp

lemma plan_wf_deps:
  assumes "plan_wf steps" and "s \<in> set steps"
  shows "set (depends_on s) \<subseteq> set (map step_id steps)"
  using earlier_closed[of "{}" "steps_reqs steps" "(step_id s, set (depends_on s))"] assms
  by (auto simp: plan_wf_def)

text \<open>A plan of the shape: one root step, numbered steps that depend on it, a final step that depends
  on all of them.\<close>

lemma fan_out_wf:
  assumes "step_id root = ''plan-1''" "depends_on root = []"
    and "map step_id subs = sub_ids prefix n" "\<forall>s \<in> set subs. depends_on s = [''plan-1'']"
    and "step_id final = ''review-1''" "depends_on final = sub_ids prefix n"
    and "prefix = ''sub-'' \<or> prefix = ''exec-''"
  shows "plan_wf (root # subs @ [final])"
proof -
  have ids: "map step_id (root # subs @ [final]) = ''plan-1'' # sub_ids prefix n @ [''review-1'']"
    using assms(1,3,5) by simp
  have out: "x \<notin> set (sub_ids prefix n)" if "x \<in> {''plan-1'', ''review-1'', ''start'', ''end''}" for x
    using that assms(7) by (auto simp: set_sub_ids)
  have "set (map step_id subs) = set (sub_ids prefix n)"
    unfolding assms(3) by (rule refl)
  then have "earlier {''plan-1''} (steps_reqs subs @ steps_reqs [final])"
    unfolding earlier_append using assms(4,6) earlier_subs[of "steps_reqs subs" "{''plan-1''}"]
    by auto
  then show ?thesis
    unfolding plan_wf_def ids using assms(1,2) out sub_ids_distinct by (simp del: set_map)
qed

lemma plan_to_dag_wf: "plan_wf (plan_steps (plan_to_dag task ctx))"
proof (cases "pc_complexity ctx")
  case Simple
  then show ?thesis
    by (simp add: plan_to_dag_def simple_plan_def plan_wf_def)
next
  case Medium
  show ?thesis
  proof (cases "length (pc_subtask_hints ctx) \<ge> 2")
    case True
    then show ?thesis
      using Medium by (simp add: plan_to_dag_def medium_plan_def Let_def)
        (rule fan_out_wf[where prefix = "''sub-''" and n = "length (pc_subtask_hints ctx)"];
          simp add: sub_ids_def)
  next
    case False
    then show ?thesis
      using Medium by (simp add: plan_to_dag_def medium_plan_def Let_def plan_wf_def)
  qed
next
  case Complex
  then show ?thesis
    by (simp add: plan_to_dag_def complex_plan_def Let_def)
      (rule fan_out_wf[where prefix = "''exec-''" and n = "max (length (pc_subtask_hints ctx)) 3"];
        simp add: sub_ids_def)
qed

text \<open>What the plan contains: the final step depends, directly or through the others, on every step.\<close>

lemma plan_groups:
  assumes "g \<in> set (parallel_groups (plan_to_dag task ctx))"
  shows "length g \<ge> 2 \<and> (\<forall>i \<in> set g. \<exists>s \<in> set (plan_steps (plan_to_dag task ctx)).
    step_id s = i \<and> depends_on s = [''plan-1''])"
  using assms
  by (auto simp: plan_to_dag_def simple_plan_def medium_plan_def complex_plan_def Let_def sub_ids_def
      split: task_complexity.splits if_splits)

lemma min_u8: "unat (min a b :: u8) = min (unat a) (unat b)"
  by (simp add: min_def word_le_nat_alt)

section \<open>Properties\<close>

text \<open>The complexity of any description lies between 1 and 5, so the planner's fallback band for
  other values is only reached by 4 and 5.\<close>

theorem complexity_in_range:
  "1 \<le> unat (estimate_complexity d) \<and> unat (estimate_complexity d) \<le> 5 \<and>
   (pc_complexity (planner_analyze_task task) = Complex \<longleftrightarrow>
      unat (tc_complexity (analyze_task (env_objective task))) \<in> {4, 5})"
proof -
  have "estimate_complexity d \<in> {1, 2, 3, 4, 5}" for d
    by (simp add: estimate_complexity_def Let_def)
  then have c: "estimate_complexity d = 1 \<or> estimate_complexity d = 2 \<or> estimate_complexity d = 3 \<or>
      estimate_complexity d = 4 \<or> estimate_complexity d = 5" for d by blast
  show ?thesis
    using c[of d] c[of "env_objective task"]
    by (auto simp: planner_analyze_task_def analyze_task_def Let_def)
qed

text \<open>C14: every plan the planner makes has distinct step ids, none of them the id of the graph's start
  or end node, and every dependency names an earlier step, so the plan has no cycle; the members of a
  parallel group, at least two, all depend on the analysis step and on nothing else.\<close>

theorem plan_is_wf_dag:
  "plan_wf (plan_steps (plan_to_dag task ctx)) \<and>
   (\<forall>g \<in> set (parallel_groups (plan_to_dag task ctx)). length g \<ge> 2 \<and>
      (\<forall>i \<in> set g. \<exists>s \<in> set (plan_steps (plan_to_dag task ctx)).
         step_id s = i \<and> depends_on s = [''plan-1'']))"
  using plan_to_dag_wf plan_groups by blast

definition ex_task :: agent_task_envelope where
  "ex_task = \<lparr>env_task_id = ''t'', env_phase = ''p'', env_role = ''r'', env_objective = ''go'',
     env_constraints = None, env_evidence = None, env_input = JNull\<rparr>"

definition ex_ctx :: planning_context where
  "ex_ctx = \<lparr>pc_complexity = Medium, pc_has_code = False, pc_has_research = False,
     pc_has_multiple_subtasks = False, pc_subtask_hints = [''first part'', ''second part'']\<rparr>"

theorem plan_is_wf_dag_witness:
  "[''sub-1'', ''sub-2''] \<in> set (parallel_groups (plan_to_dag ex_task ex_ctx)) \<and>
   (\<exists>s \<in> set (plan_steps (plan_to_dag ex_task ex_ctx)).
      step_id s = ''sub-2'' \<and> depends_on s = [''plan-1''])"
proof -
  have "parallel_groups (plan_to_dag ex_task ex_ctx) = [[''sub-1'', ''sub-2'']]"
    by (simp add: plan_to_dag_def ex_ctx_def medium_plan_def Let_def sub_ids_def show_nat.simps upt_rec char_of_def bit_0)
  then show ?thesis
    using plan_is_wf_dag[of ex_task ex_ctx] by simp
qed

end
