(* ===== verification/ExecutionGraph.thy ===== *)
theory ExecutionGraph
  imports TaskPlanning Phases "HOL-Library.Char_ord" "HOL-Library.List_Lexorder"
begin

text \<open>
  The execution graph, \<open>src/orchestration/core_dag.rs\<close>, and the bridge that builds it from a plan,
  \<open>planner_execution_graph.rs\<close>. The node map is a hash map, so operations that iterate over it take
  the order as an argument. The cost estimate, a float that this code sets to 1.0 and never reads, is the integer 1.
\<close>

section \<open>Graph\<close>

datatype ex_node_kind = Task | Start | End

datatype ex_node_state = Pending | Running | Completed | Failed string | Skipped

record ex_node =
  node_id :: string
  node_kind :: ex_node_kind
  node_name :: string
  node_state :: ex_node_state
  node_input :: json
  node_output :: "json option"
  cost_estimate :: int
  node_error :: "string option"
  duration_ms :: "u64 option"

record ex_edge =
  edge_from :: string
  edge_to :: string
  edge_label :: "string option"

record execution_graph =
  graph_nodes :: "(string, ex_node) hmap"
  graph_edges :: "ex_edge list"
  start_node :: string
  end_node :: string
  graph_name :: string

definition ex_node_new :: "string \<Rightarrow> ex_node_kind \<Rightarrow> string \<Rightarrow> ex_node" where
  "ex_node_new i k n =
     \<lparr>node_id = i, node_kind = k, node_name = n, node_state = Pending, node_input = JNull,
      node_output = None, cost_estimate = 1, node_error = None, duration_ms = None\<rparr>"

definition graph_new :: "string \<Rightarrow> execution_graph" where
  "graph_new n =
     (let start_n = (ex_node_new ''start'' Start ''Start'')\<lparr>node_state := Completed\<rparr>;
          ns = hm_insert ''start'' start_n [];
          ns = hm_insert ''end'' (ex_node_new ''end'' End ''End'') ns
      in \<lparr>graph_nodes = ns, graph_edges = [], start_node = ''start'', end_node = ''end'', graph_name = n\<rparr>)"

definition add_node :: "ex_node \<Rightarrow> execution_graph \<Rightarrow> execution_graph" where
  "add_node n g = g\<lparr>graph_nodes := hm_insert (node_id n) n (graph_nodes g)\<rparr>"

definition add_edge :: "string \<Rightarrow> string \<Rightarrow> string option \<Rightarrow> execution_graph \<Rightarrow> execution_graph" where
  "add_edge a b l g =
     g\<lparr>graph_edges := graph_edges g @ [\<lparr>edge_from = a, edge_to = b, edge_label = l\<rparr>]\<rparr>"

definition is_failed :: "ex_node_state \<Rightarrow> bool" where
  "is_failed st = (case st of Failed _ \<Rightarrow> True | _ \<Rightarrow> False)"

definition completed_ids :: "execution_graph \<Rightarrow> string set" where
  "completed_ids g = set (map fst (filter (\<lambda>(i, n). node_state n = Completed) (graph_nodes g)))"

definition node_ready :: "execution_graph \<Rightarrow> string \<Rightarrow> ex_node \<Rightarrow> bool" where
  "node_ready g i n =
     (node_kind n = Task \<and> node_state n = Pending \<and>
      list_all (\<lambda>e. edge_from e \<in> completed_ids g) (filter (\<lambda>e. edge_to e = i) (graph_edges g)))"

definition get_ready_nodes :: "string iter_order \<Rightarrow> execution_graph \<Rightarrow> string list" where
  "get_ready_nodes ord g =
     filter (\<lambda>i. node_ready g i (the (hm_get (graph_nodes g) i))) (hm_keys ord (graph_nodes g))"

datatype graph_error = NodeNotFound string

definition set_node_state ::
  "string \<Rightarrow> ex_node_state \<Rightarrow> execution_graph \<Rightarrow> (graph_error + unit) \<times> execution_graph" where
  "set_node_state i st g =
     (case hm_get (graph_nodes g) i of
        None \<Rightarrow> (Inl (NodeNotFound i), g)
      | Some n \<Rightarrow> (Inr (), g\<lparr>graph_nodes := hm_insert i (n\<lparr>node_state := st\<rparr>) (graph_nodes g)\<rparr>))"

definition complete_task ::
  "string \<Rightarrow> json \<Rightarrow> execution_graph \<Rightarrow> (graph_error + unit) \<times> execution_graph" where
  "complete_task i out g =
     (case hm_get (graph_nodes g) i of
        None \<Rightarrow> (Inl (NodeNotFound i), g)
      | Some n \<Rightarrow>
          (Inr (), g\<lparr>graph_nodes :=
             hm_insert i (n\<lparr>node_state := Completed, node_output := Some out\<rparr>) (graph_nodes g)\<rparr>))"

definition graph_is_complete :: "execution_graph \<Rightarrow> bool" where
  "graph_is_complete g =
     (case hm_get (graph_nodes g) (end_node g) of None \<Rightarrow> False | Some n \<Rightarrow> node_state n = Completed)"

section \<open>The bridge\<close>

fun mode_debug :: "mode_kind \<Rightarrow> string" where
  "mode_debug Ask = ''Ask''" | "mode_debug Plan = ''Plan''" | "mode_debug Edit = ''Edit''"
| "mode_debug FullAuto = ''FullAuto''" | "mode_debug SafeGuard = ''SafeGuard''"

definition step_node :: "plan_step \<Rightarrow> ex_node" where
  "step_node s =
     \<lparr>node_id = step_id s, node_kind = Task, node_name = step_description s, node_state = Pending,
      node_input = JObject [(''mode'', JString (mode_debug (step_mode s))),
        (''agent'', case step_agent s of None \<Rightarrow> JNull | Some a \<Rightarrow> JString a),
        (''timeout_seconds'', JNumber (uint (timeout_seconds s)))],
      node_output = None, cost_estimate = 1, node_error = None, duration_ms = None\<rparr>"

definition build_execution_graph_from_plan :: "execution_plan \<Rightarrow> execution_graph" where
  "build_execution_graph_from_plan p =
     (let g = graph_new (''plan-'' @ plan_id p);
          g = fold (\<lambda>s. add_node (step_node s)) (plan_steps p) g
      in fold (\<lambda>s g. fold (\<lambda>d. add_edge d (step_id s) (Some ''depends'')) (depends_on s) g)
           (plan_steps p) g)"

record planner_execution_bridge =
  br_plan :: execution_plan
  br_graph :: execution_graph
  total_steps :: nat

definition from_task :: "agent_task_envelope \<Rightarrow> planner_execution_bridge" where
  "from_task task =
     (let p = plan task in
      \<lparr>br_plan = p, br_graph = build_execution_graph_from_plan p, total_steps = length (plan_steps p)\<rparr>)"

definition ready_nodes :: "string iter_order \<Rightarrow> planner_execution_bridge \<Rightarrow> string list" where
  "ready_nodes ord b = get_ready_nodes ord (br_graph b)"

definition complete_step ::
  "string \<Rightarrow> json \<Rightarrow> planner_execution_bridge \<Rightarrow> planner_execution_bridge" where
  "complete_step i out b = b\<lparr>br_graph := snd (complete_task i out (br_graph b))\<rparr>"

definition fail_step ::
  "string \<Rightarrow> string \<Rightarrow> planner_execution_bridge \<Rightarrow> planner_execution_bridge" where
  "fail_step i e b =
     (let g = snd (set_node_state i (Failed e) (br_graph b)) in
      b\<lparr>br_graph := g\<lparr>graph_nodes := hm_modify i (\<lambda>n. n\<lparr>node_error := Some e\<rparr>) (graph_nodes g)\<rparr>\<rparr>)"

definition bridge_is_complete :: "planner_execution_bridge \<Rightarrow> bool" where
  "bridge_is_complete b = graph_is_complete (br_graph b)"

definition count_nodes :: "(ex_node_state \<Rightarrow> bool) \<Rightarrow> execution_graph \<Rightarrow> nat" where
  "count_nodes p g = length (filter (\<lambda>(i, n). p (node_state n)) (graph_nodes g))"

definition progress_snapshot :: "string iter_order \<Rightarrow> planner_execution_bridge \<Rightarrow> (string \<times> json) list" where
  "progress_snapshot ord b =
     [(''plan_id'', JString (plan_id (br_plan b))),
      (''total_steps'', JNumber (int (total_steps b))),
      (''completed'', JNumber (int (count_nodes (\<lambda>st. st = Completed) (br_graph b)))),
      (''failed'', JNumber (int (count_nodes is_failed (br_graph b)))),
      (''pending'', JNumber (int (count_nodes (\<lambda>st. st = Pending) (br_graph b)))),
      (''ready'', JNumber (int (length (get_ready_nodes ord (br_graph b))))),
      (''parallel_groups'', JNumber (int (length (parallel_groups (br_plan b)))))]"

section \<open>Progress and phases\<close>

definition as_u64_or_0 :: "json option \<Rightarrow> nat" where
  "as_u64_or_0 j = (case j of Some (JNumber n) \<Rightarrow> (if 0 \<le> n then nat n else 0) | _ \<Rightarrow> 0)"

fun join_strings :: "string \<Rightarrow> string list \<Rightarrow> string" where
  "join_strings sep [] = []"
| "join_strings sep [x] = x"
| "join_strings sep (x # y # xs) = x @ sep @ join_strings sep (y # xs)"

definition next_step_hint :: "string iter_order \<Rightarrow> planner_execution_bridge \<Rightarrow> string" where
  "next_step_hint ord b =
     (let snapshot = progress_snapshot ord b;
          ready = ready_nodes ord b;
          completed = as_u64_or_0 (map_of snapshot ''completed'');
          failed = as_u64_or_0 (map_of snapshot ''failed'');
          total = as_u64_or_0 (map_of snapshot ''total_steps'')
      in if ready \<noteq> [] then ''ready to execute: '' @ join_strings '', '' ready
         else if completed \<ge> total then ''all steps completed''
         else if failed > 0 then show_nat failed @ '' steps failed, repair may be needed''
         else ''waiting for dependencies'')"

definition dag_progress_with_suggested_next :: "string iter_order \<Rightarrow> planner_execution_bridge \<Rightarrow> json" where
  "dag_progress_with_suggested_next ord b =
     JObject [(''progress'', JObject (progress_snapshot ord b)),
              (''ready_nodes'', JArray (map JString (ready_nodes ord b))),
              (''next_step_hint'', JString (next_step_hint ord b)),
              (''is_complete'', JBool (bridge_is_complete b))]"

definition dag_is_stalled :: "string iter_order \<Rightarrow> planner_execution_bridge \<Rightarrow> bool" where
  "dag_is_stalled ord b =
     (\<not> bridge_is_complete b \<and>
      count_nodes (\<lambda>st. st = Completed) (br_graph b) + count_nodes is_failed (br_graph b) < total_steps b \<and>
      ready_nodes ord b = [])"

definition step_deps :: "plan_step list \<Rightarrow> (string, string list) hmap" where
  "step_deps steps = fold (\<lambda>s. hm_insert (step_id s) (depends_on s)) steps []"

definition step_is_ready :: "plan_step list \<Rightarrow> string set \<Rightarrow> string \<Rightarrow> bool" where
  "step_is_ready steps completed i =
     (case hm_get (step_deps steps) i of
        None \<Rightarrow> True
      | Some requirements \<Rightarrow>
          list_all (\<lambda>d. d \<notin> set (map step_id steps) \<or> d \<in> completed) requirements)"

text \<open>The \<open>while\<close> loop of \<open>dag_execution_order\<close>: \<open>remaining\<close> is the ordered set of the steps left.\<close>

function order_loop :: "plan_step list \<Rightarrow> string list \<Rightarrow> string set \<Rightarrow> string list list" where
  "order_loop steps remaining completed =
     (if remaining = [] then []
      else
        (let ready_phase = filter (step_is_ready steps completed) remaining in
         if ready_phase = [] then [remaining]
         else ready_phase #
                order_loop steps (filter (\<lambda>i. i \<notin> set ready_phase) remaining)
                  (completed \<union> set ready_phase)))"
  by auto

lemma filter_out_shorter:
  "filter P xs \<noteq> [] \<Longrightarrow> length (filter (\<lambda>i. i \<notin> set (filter P xs)) xs) < length xs"
proof -
  assume "filter P xs \<noteq> []"
  then obtain x where "x \<in> set xs" "P x" by (auto simp: filter_empty_conv)
  then show ?thesis by (intro length_filter_less) auto
qed

termination order_loop
  by (relation "measure (\<lambda>(steps, remaining, completed). length remaining)")
    (simp_all add: filter_out_shorter del: set_filter)

declare order_loop.simps [simp del]

definition dag_execution_order :: "planner_execution_bridge \<Rightarrow> string list list" where
  "dag_execution_order b =
     (let steps = plan_steps (br_plan b) in
      order_loop steps (sorted_list_of_set (set (map step_id steps))) {})"

section \<open>Facts about the phases\<close>

definition plan_requires :: "plan_step list \<Rightarrow> string \<Rightarrow> string set" where
  "plan_requires steps i =
     (case hm_get (step_deps steps) i of
        None \<Rightarrow> {} | Some ds \<Rightarrow> set ds \<inter> set (map step_id steps))"

lemma step_is_ready_iff: "step_is_ready steps D i \<longleftrightarrow> plan_requires steps i \<subseteq> D"
  by (auto simp: step_is_ready_def plan_requires_def list_all_iff split: option.splits)

lemma step_deps_fold:
  "distinct (map step_id steps) \<Longrightarrow>
   map_of (fold (\<lambda>s. hm_insert (step_id s) (depends_on s)) steps m) =
     map_of m ++ map_of (map (\<lambda>s. (step_id s, depends_on s)) steps)"
  by (induction steps arbitrary: m)
    (auto simp: fun_eq_iff map_add_def image_iff dest: map_of_SomeD split: option.splits)

lemma plan_requires_in:
  assumes "distinct (map step_id steps)" and "s \<in> set steps"
  shows "plan_requires steps (step_id s) = set (depends_on s) \<inter> set (map step_id steps)"
proof -
  have "map_of (map (\<lambda>s. (step_id s, depends_on s)) steps) (step_id s) = Some (depends_on s)"
    using assms by (force simp: o_def intro: map_of_is_SomeI)
  then show ?thesis
    using step_deps_fold[OF assms(1), of "[]"] by (simp add: plan_requires_def step_deps_def)
qed

text \<open>Well-formed plans meet the contract of the phased schedulers.\<close>

lemma plan_wf_phase_order:
  assumes "plan_wf steps"
  shows "phase_order (set (map step_id steps)) (plan_requires steps)"
proof -
  have d: "distinct (map step_id steps)" and e: "earlier {} (steps_reqs steps)"
    using assms by (auto simp: plan_wf_def)
  have r: "plan_requires steps (step_id s) = set (depends_on s)" if "s \<in> set steps" for s
    using plan_requires_in[OF d that] plan_wf_deps[OF assms that] by blast
  have "phase_order (set (map fst (steps_reqs steps))) (plan_requires steps)"
    using d r by (intro earlier_phase_order[OF e]) (auto simp: o_def)
  then show ?thesis by (simp add: o_def)
qed

interpretation plan_order: phase_order
  "set (map step_id (plan_steps (plan_to_dag task ctx)))"
  "plan_requires (plan_steps (plan_to_dag task ctx))"
  by (rule plan_wf_phase_order[OF plan_to_dag_wf])

lemma order_loop_partition:
  assumes "distinct remaining"
  shows "distinct (concat (order_loop steps remaining D)) \<and>
    set (concat (order_loop steps remaining D)) = set remaining \<and> [] \<notin> set (order_loop steps remaining D)"
  using assms
proof (induction steps remaining D rule: order_loop.induct)
  case (1 steps remaining D)
  let ?ready = "filter (step_is_ready steps D) remaining"
  let ?rest = "filter (\<lambda>i. i \<notin> set ?ready) remaining"
  show ?case
  proof (cases "remaining = [] \<or> ?ready = []")
    case False
    then have IH: "distinct (concat (order_loop steps ?rest (D \<union> set ?ready))) \<and>
        set (concat (order_loop steps ?rest (D \<union> set ?ready))) = set ?rest \<and>
        [] \<notin> set (order_loop steps ?rest (D \<union> set ?ready))"
      using 1 by simp
    have eq: "order_loop steps remaining D = ?ready # order_loop steps ?rest (D \<union> set ?ready)"
      using False by (simp add: order_loop.simps[of steps remaining D] Let_def)
    have "set ?ready \<inter> set ?rest = {}" "set ?ready \<union> set ?rest = set remaining" by auto
    then show ?thesis
      unfolding eq using IH 1(2) False by (simp only: concat.simps distinct_append set_append) auto
  qed (use 1(2) in \<open>auto simp: order_loop.simps[of steps remaining D] Let_def\<close>)
qed

lemma order_loop_ok:
  assumes "phase_order (set (map step_id steps)) (plan_requires steps)"
    and "set (map step_id steps) \<subseteq> D \<union> set remaining" and "set remaining \<subseteq> set (map step_id steps) - D"
  shows "phases_ok (\<lambda>D x. plan_requires steps x \<subseteq> D) D (order_loop steps remaining D)"
  using assms
proof (induction steps remaining D rule: order_loop.induct)
  case (1 steps remaining D)
  let ?ids = "set (map step_id steps)"
  let ?ready = "filter (step_is_ready steps D) remaining"
  let ?rest = "filter (\<lambda>i. i \<notin> set ?ready) remaining"
  show ?case
  proof (cases "remaining = []")
    case False
    then have "\<not> ?ids \<subseteq> D" using "1.prems"(3) by (cases remaining) auto
    then obtain x where "x \<in> ?ids - D" "plan_requires steps x \<subseteq> D"
      using phase_order.progress[OF "1.prems"(1)] by blast
    then have ne: "?ready \<noteq> []"
      using "1.prems"(2) by (auto simp: filter_empty_conv step_is_ready_iff)
    have eq: "order_loop steps remaining D = ?ready # order_loop steps ?rest (D \<union> set ?ready)"
      using False ne by (simp add: order_loop.simps[of steps remaining D] Let_def)
    have "phases_ok (\<lambda>D x. plan_requires steps x \<subseteq> D) (D \<union> set ?ready)
        (order_loop steps ?rest (D \<union> set ?ready))"
      using "1.prems" by (intro "1.IH"[OF False refl ne]) auto
    then show ?thesis
      unfolding eq by (simp add: step_is_ready_iff)
  qed (simp add: order_loop.simps)
qed

section \<open>Facts about the graph\<close>

text \<open>\<open>graph_inv steps g\<close>: the graph has the nodes and the edges of the steps; the start node is
  completed, the end node pending, and a step is pending, completed or failed.\<close>

definition step_state_ok :: "ex_node_state \<Rightarrow> bool" where
  "step_state_ok st = (st = Pending \<or> st = Completed \<or> is_failed st)"

definition node_inv :: "plan_step list \<Rightarrow> string \<Rightarrow> ex_node \<Rightarrow> bool" where
  "node_inv steps i n =
     (if i = ''start'' then node_kind n = Start \<and> node_state n = Completed
      else if i = ''end'' then node_kind n = End \<and> node_state n = Pending
      else node_kind n = Task \<and> step_state_ok (node_state n))"

definition graph_inv :: "plan_step list \<Rightarrow> execution_graph \<Rightarrow> bool" where
  "graph_inv steps g \<longleftrightarrow>
     hm_wf (graph_nodes g) \<and> end_node g = ''end'' \<and>
     dom (map_of (graph_nodes g)) = {''start'', ''end''} \<union> set (map step_id steps) \<and>
     (\<forall>i n. map_of (graph_nodes g) i = Some n \<longrightarrow> node_inv steps i n) \<and>
     (\<forall>d i. (\<exists>e \<in> set (graph_edges g). edge_from e = d \<and> edge_to e = i) \<longleftrightarrow>
        (\<exists>s \<in> set steps. step_id s = i \<and> d \<in> set (depends_on s)))"

lemma add_nodes_fold:
  "graph_edges (fold (\<lambda>s. add_node (step_node s)) steps g) = graph_edges g"
  "end_node (fold (\<lambda>s. add_node (step_node s)) steps g) = end_node g"
  "hm_wf (graph_nodes g) \<Longrightarrow> hm_wf (graph_nodes (fold (\<lambda>s. add_node (step_node s)) steps g))"
  "dom (map_of (graph_nodes (fold (\<lambda>s. add_node (step_node s)) steps g))) =
     dom (map_of (graph_nodes g)) \<union> set (map step_id steps)"
  by (induction steps arbitrary: g) (auto simp: add_node_def step_node_def)

lemma add_nodes_node:
  "map_of (graph_nodes (fold (\<lambda>s. add_node (step_node s)) steps g)) i = Some n \<Longrightarrow>
     (\<exists>s \<in> set steps. n = step_node s \<and> i = step_id s) \<or> map_of (graph_nodes g) i = Some n"
proof (induction steps arbitrary: g)
  case (Cons s steps)
  have id: "node_id (step_node s) = step_id s" by (simp add: step_node_def)
  show ?case
    using Cons.IH[of "add_node (step_node s) g"] Cons.prems by (auto simp: add_node_def id split: if_splits)
qed simp

lemma add_edges_fold:
  "graph_nodes (fold (\<lambda>d. add_edge d i l) ds g) = graph_nodes g"
  "end_node (fold (\<lambda>d. add_edge d i l) ds g) = end_node g"
  "graph_edges (fold (\<lambda>d. add_edge d i l) ds g) =
     graph_edges g @ map (\<lambda>d. \<lparr>edge_from = d, edge_to = i, edge_label = l\<rparr>) ds"
  by (induction ds arbitrary: g) (auto simp: add_edge_def)

lemma add_all_edges_fold:
  fixes g :: execution_graph
  defines "add \<equiv> \<lambda>s g. fold (\<lambda>d. add_edge d (step_id s) (Some ''depends'')) (depends_on s) g"
  shows "graph_nodes (fold add steps g) = graph_nodes g" "end_node (fold add steps g) = end_node g"
    "(\<exists>e \<in> set (graph_edges (fold add steps g)). edge_from e = d \<and> edge_to e = i) \<longleftrightarrow>
       (\<exists>e \<in> set (graph_edges g). edge_from e = d \<and> edge_to e = i) \<or>
       (\<exists>s \<in> set steps. step_id s = i \<and> d \<in> set (depends_on s))"
proof -
  show "graph_nodes (fold add steps g) = graph_nodes g" "end_node (fold add steps g) = end_node g"
    by (induction steps arbitrary: g) (simp_all add: add_def add_edges_fold)
  have one: "(\<exists>e \<in> set (graph_edges (add s g)). edge_from e = d \<and> edge_to e = i) \<longleftrightarrow>
      (\<exists>e \<in> set (graph_edges g). edge_from e = d \<and> edge_to e = i) \<or>
      (step_id s = i \<and> d \<in> set (depends_on s))" for s g
    by (simp add: add_def add_edges_fold bex_Un image_iff) blast
  show "(\<exists>e \<in> set (graph_edges (fold add steps g)). edge_from e = d \<and> edge_to e = i) \<longleftrightarrow>
       (\<exists>e \<in> set (graph_edges g). edge_from e = d \<and> edge_to e = i) \<or>
       (\<exists>s \<in> set steps. step_id s = i \<and> d \<in> set (depends_on s))"
    by (induction steps arbitrary: g) (simp_all add: one)
qed

lemma build_graph_inv:
  assumes "plan_wf (plan_steps p)"
  shows "graph_inv (plan_steps p) (build_execution_graph_from_plan p)"
proof -
  let ?g0 = "graph_new (''plan-'' @ plan_id p)"
  let ?g1 = "fold (\<lambda>s. add_node (step_node s)) (plan_steps p) ?g0"
  have g0: "hm_wf (graph_nodes ?g0)" "graph_edges ?g0 = []" "end_node ?g0 = ''end''"
    "dom (map_of (graph_nodes ?g0)) = {''start'', ''end''}"
    by (auto simp: graph_new_def Let_def)
  have n0: "node_inv (plan_steps p) i n" if "map_of (graph_nodes ?g0) i = Some n" for i n
    using that by (auto simp: graph_new_def Let_def ex_node_new_def node_inv_def split: if_splits)
  have "node_inv (plan_steps p) i n" if "map_of (graph_nodes ?g1) i = Some n" for i n
    using add_nodes_node[OF that] n0 assms
    by (force simp: node_inv_def step_node_def step_state_ok_def plan_wf_def)
  then show ?thesis
    unfolding graph_inv_def build_execution_graph_from_plan_def Let_def add_all_edges_fold
      add_nodes_fold(1,2,4) g0 using add_nodes_fold(3)[OF g0(1)] by auto
qed

lemma completed_ids_iff:
  "hm_wf (graph_nodes g) \<Longrightarrow>
     i \<in> completed_ids g \<longleftrightarrow> (\<exists>n. map_of (graph_nodes g) i = Some n \<and> node_state n = Completed)"
  by (force simp: completed_ids_def hm_wf_def image_iff)

lemma ready_iff:
  assumes "valid_order ord"
  shows "i \<in> set (get_ready_nodes ord g) \<longleftrightarrow> (\<exists>n. map_of (graph_nodes g) i = Some n \<and> node_ready g i n)"
  using set_hm_keys[OF assms, of "graph_nodes g"] by (auto simp: get_ready_nodes_def)

lemma count_nodes_card:
  assumes "hm_wf (graph_nodes g)"
  shows "count_nodes P g = card {i. \<exists>n. map_of (graph_nodes g) i = Some n \<and> P (node_state n)}"
proof -
  let ?xs = "filter (\<lambda>(i, n). P (node_state n)) (graph_nodes g)"
  have "distinct (map fst ?xs)"
    using assms by (simp add: hm_wf_def distinct_map_filter)
  then have "count_nodes P g = card (set (map fst ?xs))"
    unfolding count_nodes_def by (metis distinct_card length_map)
  moreover have "set (map fst ?xs) = {i. \<exists>n. map_of (graph_nodes g) i = Some n \<and> P (node_state n)}"
    using assms by (force simp: hm_wf_def image_iff)
  ultimately show ?thesis by simp
qed

text \<open>Updating the state of a step that is in the graph keeps the invariant.\<close>

lemma graph_inv_update:
  assumes "graph_inv steps g" and "map_of (graph_nodes g) i = Some n" and "node_kind n = Task"
    and "map_of ns = (map_of (graph_nodes g))(i \<mapsto> n')" and "hm_wf ns"
    and "node_kind n' = Task" and "step_state_ok (node_state n')"
  shows "graph_inv steps (g\<lparr>graph_nodes := ns\<rparr>)"
proof -
  have "node_inv steps i n"
    using assms(1,2) unfolding graph_inv_def by blast
  then have "i \<noteq> ''start''" "i \<noteq> ''end''"
    using assms(3) by (auto simp: node_inv_def split: if_splits)
  then have "node_inv steps i n'"
    using assms(6,7) by (simp add: node_inv_def)
  then show ?thesis
    using assms(1,2,4,5) by (auto simp: graph_inv_def)
qed

lemma complete_step_inv:
  assumes "graph_inv steps (br_graph b)" and "map_of (graph_nodes (br_graph b)) i = Some n" and "node_kind n = Task"
  shows "graph_inv steps (br_graph (complete_step i out b))"
proof -
  have "hm_wf (graph_nodes (br_graph b))" using assms(1) by (simp add: graph_inv_def)
  then show ?thesis
    using assms graph_inv_update[OF assms, of _ "n\<lparr>node_state := Completed, node_output := Some out\<rparr>"]
    by (simp add: complete_step_def complete_task_def step_state_ok_def)
qed

lemma fail_step_inv:
  assumes "graph_inv steps (br_graph b)" and "map_of (graph_nodes (br_graph b)) i = Some n" and "node_kind n = Task"
  shows "graph_inv steps (br_graph (fail_step i e b))"
proof -
  have "hm_wf (graph_nodes (br_graph b))" using assms(1) by (simp add: graph_inv_def)
  then show ?thesis
    using assms graph_inv_update[OF assms, of _ "n\<lparr>node_state := Failed e, node_error := Some e\<rparr>"]
    by (simp add: fail_step_def set_node_state_def step_state_ok_def is_failed_def Let_def)
qed

text \<open>Running a bridge: a ready step is executed and completes or fails.\<close>

inductive bridge_step :: "planner_execution_bridge \<Rightarrow> planner_execution_bridge \<Rightarrow> bool" where
  bg_complete: "valid_order ord \<Longrightarrow> i \<in> set (ready_nodes ord b) \<Longrightarrow> bridge_step b (complete_step i out b)"
| bg_fail: "valid_order ord \<Longrightarrow> i \<in> set (ready_nodes ord b) \<Longrightarrow> bridge_step b (fail_step i e b)"

definition bridge_inv :: "planner_execution_bridge \<Rightarrow> bool" where
  "bridge_inv b \<longleftrightarrow> plan_wf (plan_steps (br_plan b)) \<and> total_steps b = length (plan_steps (br_plan b)) \<and>
     graph_inv (plan_steps (br_plan b)) (br_graph b)"

interpretation bridge_sys: invariant_system bridge_step bridge_inv
proof
  fix b b'
  assume inv: "bridge_inv b" and "bridge_step b b'"
  from this(2) show "bridge_inv b'"
  proof cases
    case (bg_complete ord i out)
    then obtain n where "map_of (graph_nodes (br_graph b)) i = Some n" "node_kind n = Task"
      unfolding ready_nodes_def ready_iff[OF bg_complete(2)] by (auto simp: node_ready_def)
    then show ?thesis
      using inv bg_complete(1) complete_step_inv[of "plan_steps (br_plan b)" b i n out]
      by (simp add: bridge_inv_def) (simp add: complete_step_def)
  next
    case (bg_fail ord i e)
    then obtain n where "map_of (graph_nodes (br_graph b)) i = Some n" "node_kind n = Task"
      unfolding ready_nodes_def ready_iff[OF bg_fail(2)] by (auto simp: node_ready_def)
    then show ?thesis
      using inv bg_fail(1) fail_step_inv[of "plan_steps (br_plan b)" b i n e]
      by (simp add: bridge_inv_def) (simp add: fail_step_def Let_def)
  qed
qed

lemma from_task_inv: "bridge_inv (from_task task)"
  using plan_to_dag_wf build_graph_inv by (simp add: bridge_inv_def from_task_def Let_def plan_def)

lemmas bridge_run_inv = bridge_sys.run_inv[OF _ from_task_inv]

text \<open>The steps of a bridge that are completed.\<close>

definition step_completed :: "planner_execution_bridge \<Rightarrow> string \<Rightarrow> bool" where
  "step_completed b i =
     (i \<in> set (map step_id (plan_steps (br_plan b))) \<and> i \<in> completed_ids (br_graph b))"

lemma bridge_completed_set:
  assumes "bridge_inv b"
  shows "{i. \<exists>n. map_of (graph_nodes (br_graph b)) i = Some n \<and> node_state n = Completed} =
    insert ''start'' {i. step_completed b i}" and "\<not> step_completed b ''start''"
proof -
  let ?g = "br_graph b" and ?ids = "set (map step_id (plan_steps (br_plan b)))"
  have inv: "hm_wf (graph_nodes ?g)" "dom (map_of (graph_nodes ?g)) = {''start'', ''end''} \<union> ?ids"
    and n: "\<And>i n. map_of (graph_nodes ?g) i = Some n \<Longrightarrow> node_inv (plan_steps (br_plan b)) i n"
    and wf: "''start'' \<notin> ?ids"
    using assms unfolding bridge_inv_def graph_inv_def plan_wf_def by blast+
  have s: "step_completed b i \<longleftrightarrow> i \<in> ?ids \<and>
      (\<exists>n. map_of (graph_nodes ?g) i = Some n \<and> node_state n = Completed)" for i
    using completed_ids_iff[OF inv(1)] by (simp add: step_completed_def)
  show "\<not> step_completed b ''start''" using s wf by blast
  have start: "\<exists>n. map_of (graph_nodes ?g) ''start'' = Some n \<and> node_state n = Completed"
  proof -
    have "''start'' \<in> dom (map_of (graph_nodes ?g))" unfolding inv(2) by simp
    then obtain x where "map_of (graph_nodes ?g) ''start'' = Some x" by blast
    then show ?thesis using n[of "''start''" x] by (simp add: node_inv_def)
  qed
  have "i = ''start'' \<or> i \<in> ?ids" if m: "map_of (graph_nodes ?g) i = Some x" "node_state x = Completed" for i x
  proof (rule ccontr)
    assume no: "\<not> (i = ''start'' \<or> i \<in> ?ids)"
    moreover have "i \<in> {''start'', ''end''} \<union> ?ids"
      using m(1) inv(2) by blast
    ultimately have "i = ''end''" by blast
    then show False using n[OF m(1)] m(2) by (simp add: node_inv_def)
  qed
  then show "{i. \<exists>n. map_of (graph_nodes ?g) i = Some n \<and> node_state n = Completed} =
      insert ''start'' {i. step_completed b i}"
    using s start by blast
qed

lemma bridge_completed_count:
  assumes "bridge_inv b"
  shows "count_nodes (\<lambda>st. st = Completed) (br_graph b) = Suc (card {i. step_completed b i})"
proof -
  have "finite {i. step_completed b i}"
    by (rule finite_subset[of _ "set (map step_id (plan_steps (br_plan b)))"]) (auto simp: step_completed_def)
  then show ?thesis
    using count_nodes_card[of "br_graph b" "\<lambda>st. st = Completed"] bridge_completed_set[OF assms] assms
    by (simp add: bridge_inv_def graph_inv_def)
qed

lemma bridge_ready_iff:
  assumes "bridge_inv b" and "valid_order ord"
  shows "i \<in> set (ready_nodes ord b) \<longleftrightarrow> (\<exists>s \<in> set (plan_steps (br_plan b)). step_id s = i \<and>
    (\<forall>d \<in> set (depends_on s). step_completed b d) \<and>
    (\<exists>n. map_of (graph_nodes (br_graph b)) i = Some n \<and> node_state n = Pending))"
proof -
  let ?g = "br_graph b" and ?steps = "plan_steps (br_plan b)"
  have g: "graph_inv ?steps ?g" and wf: "plan_wf ?steps" and hw: "hm_wf (graph_nodes ?g)"
    using assms(1) by (auto simp: bridge_inv_def graph_inv_def)
  have dep_in: "d \<in> set (map step_id ?steps)" if "s \<in> set ?steps" "d \<in> set (depends_on s)" for s d
    using plan_wf_deps[OF wf that(1)] that(2) by blast
  have kind: "node_kind n = Task \<longleftrightarrow> i \<in> set (map step_id ?steps)"
    if "map_of (graph_nodes ?g) i = Some n" for n
  proof -
    have "node_inv ?steps i n" "i \<in> {''start'', ''end''} \<union> set (map step_id ?steps)"
      using g that unfolding graph_inv_def by blast+
    then show ?thesis
      using wf unfolding node_inv_def plan_wf_def by (auto split: if_splits)
  qed
  have edges: "list_all (\<lambda>e. edge_from e \<in> completed_ids ?g) (filter (\<lambda>e. edge_to e = i) (graph_edges ?g)) \<longleftrightarrow>
      (\<forall>s \<in> set ?steps. step_id s = i \<longrightarrow> (\<forall>d \<in> set (depends_on s). d \<in> completed_ids ?g))"
  proof -
    have "(\<exists>e \<in> set (graph_edges ?g). edge_from e = d \<and> edge_to e = i) \<longleftrightarrow>
        (\<exists>s \<in> set ?steps. step_id s = i \<and> d \<in> set (depends_on s))" for d
      using g unfolding graph_inv_def by blast
    then have "(\<forall>e \<in> set (graph_edges ?g). edge_to e = i \<longrightarrow> edge_from e \<in> completed_ids ?g) \<longleftrightarrow>
        (\<forall>s \<in> set ?steps. step_id s = i \<longrightarrow> (\<forall>d \<in> set (depends_on s). d \<in> completed_ids ?g))" by metis
    then show ?thesis by (simp add: list_all_iff) blast
  qed
  have same: "s = s'" if "s \<in> set ?steps" "s' \<in> set ?steps" "step_id s = step_id s'" for s s'
    using wf that by (auto simp: plan_wf_def distinct_map dest: inj_onD)
  have dc: "d \<in> completed_ids ?g \<longleftrightarrow> step_completed b d" if "s \<in> set ?steps" "d \<in> set (depends_on s)" for s d
    using dep_in[OF that] by (simp add: step_completed_def)
  show ?thesis
    unfolding ready_nodes_def ready_iff[OF assms(2)] node_ready_def edges
  proof
    assume "\<exists>n. map_of (graph_nodes ?g) i = Some n \<and> node_kind n = Task \<and> node_state n = Pending \<and>
        (\<forall>s \<in> set ?steps. step_id s = i \<longrightarrow> (\<forall>d \<in> set (depends_on s). d \<in> completed_ids ?g))"
    then show "\<exists>s \<in> set ?steps. step_id s = i \<and> (\<forall>d \<in> set (depends_on s). step_completed b d) \<and>
        (\<exists>n. map_of (graph_nodes ?g) i = Some n \<and> node_state n = Pending)"
    proof
      fix n
      assume n: "map_of (graph_nodes ?g) i = Some n \<and> node_kind n = Task \<and> node_state n = Pending \<and>
        (\<forall>s \<in> set ?steps. step_id s = i \<longrightarrow> (\<forall>d \<in> set (depends_on s). d \<in> completed_ids ?g))"
      then obtain s where "s \<in> set ?steps" "step_id s = i" using kind[of n] by auto
      with n dc show ?thesis by blast
    qed
  next
    assume "\<exists>s \<in> set ?steps. step_id s = i \<and> (\<forall>d \<in> set (depends_on s). step_completed b d) \<and>
        (\<exists>n. map_of (graph_nodes ?g) i = Some n \<and> node_state n = Pending)"
    then obtain s n where s: "s \<in> set ?steps" "step_id s = i" "\<forall>d \<in> set (depends_on s). step_completed b d"
      and n: "map_of (graph_nodes ?g) i = Some n" "node_state n = Pending" by blast
    have "node_kind n = Task" using kind[OF n(1)] s(1,2) by auto
    moreover have "d \<in> completed_ids ?g" if "s' \<in> set ?steps" "step_id s' = i" "d \<in> set (depends_on s')" for s' d
    proof -
      have "s = s'" using same[OF s(1) that(1)] s(2) that(2) by simp
      then show ?thesis using dc[OF that(1,3)] s(3) that(3) by simp
    qed
    ultimately show "\<exists>n. map_of (graph_nodes ?g) i = Some n \<and> node_kind n = Task \<and> node_state n = Pending \<and>
        (\<forall>s \<in> set ?steps. step_id s = i \<longrightarrow> (\<forall>d \<in> set (depends_on s). d \<in> completed_ids ?g))"
      using n by blast
  qed
qed

lemma bridge_progress:
  assumes "bridge_inv b" and "valid_order ord" and "\<forall>i n. map_of (graph_nodes (br_graph b)) i = Some n \<longrightarrow> \<not> is_failed (node_state n)"
    and "i \<in> set (map step_id (plan_steps (br_plan b)))" and "\<not> step_completed b i"
  shows "ready_nodes ord b \<noteq> []"
proof -
  let ?steps = "plan_steps (br_plan b)" and ?g = "br_graph b"
  have wf: "plan_wf ?steps" and g: "graph_inv ?steps ?g" using assms(1) by (auto simp: bridge_inv_def)
  obtain x where x: "x \<in> set (map step_id ?steps) - {i. step_completed b i}" "plan_requires ?steps x \<subseteq> {i. step_completed b i}"
    using phase_order.progress[OF plan_wf_phase_order[OF wf], of "{i. step_completed b i}"] assms(4,5) by blast
  then obtain s where s: "s \<in> set ?steps" "x = step_id s" by auto
  have "d \<in> set (map step_id ?steps)" if "d \<in> set (depends_on s)" for d
    using plan_wf_deps[OF wf s(1)] that by blast
  then have deps: "\<forall>d \<in> set (depends_on s). step_completed b d"
    using x(2) plan_requires_in[of ?steps s] s wf by (auto simp: plan_wf_def)
  have "x \<in> dom (map_of (graph_nodes ?g))" using g x(1) unfolding graph_inv_def by blast
  then obtain n where n: "map_of (graph_nodes ?g) x = Some n" by blast
  have "node_inv ?steps x n" "x \<noteq> ''start''" "x \<noteq> ''end''"
    using g n x(1) wf unfolding graph_inv_def plan_wf_def by blast+
  then have "node_state n = Pending"
    using assms(3) n x(1) completed_ids_iff[of ?g x] g
    by (auto simp: node_inv_def step_state_ok_def step_completed_def graph_inv_def)
  then have "x \<in> set (ready_nodes ord b)"
    unfolding bridge_ready_iff[OF assms(1,2)] using s deps n by blast
  then show ?thesis by auto
qed

section \<open>Properties\<close>

text \<open>For every plan, cyclic or not, the phases of the execution order contain each step id of the
  plan exactly once, and no phase is empty.\<close>

theorem dag_order_partitions:
  "distinct (concat (dag_execution_order b)) \<and>
   set (concat (dag_execution_order b)) = set (map step_id (plan_steps (br_plan b))) \<and>
   [] \<notin> set (dag_execution_order b)"
  using order_loop_partition[of "sorted_list_of_set (set (map step_id (plan_steps (br_plan b))))"
      "plan_steps (br_plan b)" "{}"]
  by (simp add: dag_execution_order_def Let_def)

text \<open>C6: in the execution order of a planned task every dependency of a step is in an earlier phase
  than the step.\<close>

theorem dag_order_topological:
  assumes "s \<in> set (plan_steps (br_plan (from_task task)))" and "d \<in> set (depends_on s)"
    and "k < length (dag_execution_order (from_task task))"
    and "step_id s \<in> set (dag_execution_order (from_task task) ! k)"
  shows "\<exists>j < k. d \<in> set (dag_execution_order (from_task task) ! j)"
proof -
  let ?steps = "plan_steps (br_plan (from_task task))"
  have wf: "plan_wf ?steps" using from_task_inv by (simp add: bridge_inv_def)
  have "d \<in> set (map step_id ?steps)"
    using plan_wf_deps[OF wf assms(1)] assms(2) by blast
  then have d: "d \<in> plan_requires ?steps (step_id s)"
    using plan_requires_in[of ?steps s] wf assms(1,2) by (simp add: plan_wf_def)
  have "phases_ok (\<lambda>D x. plan_requires ?steps x \<subseteq> D) {} (dag_execution_order (from_task task))"
    unfolding dag_execution_order_def Let_def by (rule order_loop_ok[OF plan_wf_phase_order[OF wf]]) auto
  then have "phases_ok (\<lambda>D x. plan_requires (plan_steps (plan_to_dag task (planner_analyze_task task))) x \<subseteq> D)
      {} (dag_execution_order (from_task task))"
    by (simp add: from_task_def Let_def plan_def)
  from plan_order.topological[OF this assms(3,4)] d show ?thesis
    by (simp add: from_task_def Let_def plan_def)
qed

lemma ex_simple: "planner_analyze_task ex_task = \<lparr>pc_complexity = Simple, pc_has_code = False,
    pc_has_research = False, pc_has_multiple_subtasks = False, pc_subtask_hints = []\<rparr>"
proof -
  have "to_lowercase ''go'' = ''go''" by (simp add: to_lowercase_def to_lowercase_char_def)
  then show ?thesis
    by (simp add: planner_analyze_task_def ex_task_def analyze_task_def Let_def classify_task_type_def
        contains_any_def estimate_complexity_def input_hints_def str_lines_def line_hint_def trim_def
        trim_start_def trim_end_def is_whitespace_def starts_with_def is_ascii_digit_def
        List.map_filter_def strip_cr_def)
qed

lemma ex_steps:
  "map step_id (plan_steps (br_plan (from_task ex_task))) = [''exec-1'', ''review-1'']"
  "\<exists>s \<in> set (plan_steps (br_plan (from_task ex_task))). step_id s = ''review-1'' \<and> depends_on s = [''exec-1'']"
  by (simp_all add: from_task_def Let_def plan_def ex_simple plan_to_dag_def simple_plan_def)

theorem dag_order_topological_witness:
  "\<exists>k j. j < k \<and> k < length (dag_execution_order (from_task ex_task)) \<and>
     ''review-1'' \<in> set (dag_execution_order (from_task ex_task) ! k) \<and>
     ''exec-1'' \<in> set (dag_execution_order (from_task ex_task) ! j)"
proof -
  let ?o = "dag_execution_order (from_task ex_task)"
  obtain s where s: "s \<in> set (plan_steps (br_plan (from_task ex_task)))" "step_id s = ''review-1''"
    "depends_on s = [''exec-1'']" using ex_steps(2) by blast
  have "''review-1'' \<in> set (concat ?o)"
    using order_loop_partition[of "sorted_list_of_set (set (map step_id (plan_steps (br_plan (from_task ex_task)))))"
        "plan_steps (br_plan (from_task ex_task))" "{}"] ex_steps(1)
    by (simp add: dag_execution_order_def Let_def flip: set_map)
  then obtain k where "k < length ?o" "''review-1'' \<in> set (?o ! k)"
    unfolding set_concat by (metis UN_E in_set_conv_nth)
  then show ?thesis
    using dag_order_topological[OF s(1), of "''exec-1''" k] s by force
qed

text \<open>C13: a run that executes ready steps never gets stuck: while no step has failed and some step is
  not completed, some step is ready; and a step is ready exactly when it is pending and all its
  dependencies are completed.\<close>

theorem bridge_never_stuck:
  assumes "bridge_step\<^sup>*\<^sup>* (from_task task) b" and "valid_order ord"
  shows "(\<forall>i. i \<in> set (ready_nodes ord b) \<longleftrightarrow> (\<exists>s \<in> set (plan_steps (br_plan b)). step_id s = i \<and>
      (\<forall>d \<in> set (depends_on s). step_completed b d) \<and>
      (\<exists>n. map_of (graph_nodes (br_graph b)) i = Some n \<and> node_state n = Pending))) \<and>
    (count_nodes is_failed (br_graph b) = 0 \<and>
     (\<exists>s \<in> set (plan_steps (br_plan b)). \<not> step_completed b (step_id s)) \<longrightarrow> ready_nodes ord b \<noteq> [])"
proof -
  note inv = bridge_run_inv[OF assms(1)]
  have "\<forall>i n. map_of (graph_nodes (br_graph b)) i = Some n \<longrightarrow> \<not> is_failed (node_state n)"
    if "count_nodes is_failed (br_graph b) = 0"
    using that by (auto simp: count_nodes_def filter_empty_conv dest!: map_of_SomeD)
  then have "ready_nodes ord b \<noteq> []"
    if "count_nodes is_failed (br_graph b) = 0" "s \<in> set (plan_steps (br_plan b))"
      "\<not> step_completed b (step_id s)" for s
    using bridge_progress[OF inv assms(2), of "step_id s"] that by simp
  then show ?thesis
    using bridge_ready_iff[OF inv assms(2)] by blast
qed

theorem bridge_never_stuck_witness: "ready_nodes rev (from_task ex_task) \<noteq> []"
proof -
  have inv: "bridge_inv (from_task ex_task)" by (rule from_task_inv)
  have nodes: "graph_nodes (br_graph (from_task ex_task)) =
      [(''start'', (ex_node_new ''start'' Start ''Start'')\<lparr>node_state := Completed\<rparr>),
       (''end'', ex_node_new ''end'' End ''End'')] @
      map (\<lambda>s. (step_id s, step_node s)) (plan_steps (br_plan (from_task ex_task)))"
    by (simp add: from_task_def Let_def plan_def ex_simple plan_to_dag_def simple_plan_def
        build_execution_graph_from_plan_def add_all_edges_fold add_node_def step_node_def graph_new_def hm_insert_def)
      (simp add: add_edge_def)
  have "count_nodes is_failed (br_graph (from_task ex_task)) = 0"
    by (simp add: count_nodes_def nodes ex_node_new_def is_failed_def step_node_def filter_empty_conv)
  moreover have "\<not> step_completed (from_task ex_task) ''exec-1''"
    using ex_steps(1) by (auto simp: step_completed_def completed_ids_def nodes ex_node_new_def step_node_def)
  moreover have "''exec-1'' \<in> step_id ` set (plan_steps (br_plan (from_task ex_task)))"
    using ex_steps(1) by (metis list.set_intros(1) set_map)
  ultimately show ?thesis
    using bridge_never_stuck[of ex_task "from_task ex_task" rev] by force
qed

text \<open>The progress report counts the start node as a completed step and the end node is never
  completed: when nothing is ready, the hint says that all steps are completed as soon as all but
  one are, and the graph never reports completion, not even when every step is completed.\<close>

theorem bridge_hint_off_by_one:
  assumes "bridge_step\<^sup>*\<^sup>* (from_task task) b" and "ready_nodes ord b = []"
  shows "(next_step_hint ord b = ''all steps completed'' \<longleftrightarrow>
      total_steps b \<le> Suc (card {i. step_completed b i})) \<and>
    \<not> bridge_is_complete b"
proof -
  note inv = bridge_run_inv[OF assms(1)]
  have "node_state n \<noteq> Completed" if "map_of (graph_nodes (br_graph b)) ''end'' = Some n" for n
  proof -
    have "node_inv (plan_steps (br_plan b)) ''end'' n"
      using inv that unfolding bridge_inv_def graph_inv_def by blast
    then show ?thesis by (simp add: node_inv_def)
  qed
  moreover have "end_node (br_graph b) = ''end''"
    using inv by (simp add: bridge_inv_def graph_inv_def)
  ultimately have "\<not> bridge_is_complete b"
    by (auto simp: bridge_is_complete_def graph_is_complete_def split: option.splits)
  moreover have "show_nat n @ '' steps failed, repair may be needed'' \<noteq> ''all steps completed''" for n
    using show_nat_digits[of n] by (cases "show_nat n") (auto simp: is_ascii_digit_def)
  ultimately show ?thesis
    using assms(2) bridge_completed_count[OF inv]
    by (simp add: next_step_hint_def Let_def progress_snapshot_def as_u64_or_0_def nat_add_distrib)
qed

definition ex_bridge1 :: planner_execution_bridge where
  "ex_bridge1 = complete_step ''exec-1'' JNull (from_task ex_task)"

definition ex_bridge2 :: planner_execution_bridge where
  "ex_bridge2 = fail_step ''review-1'' ''boom'' ex_bridge1"

lemma ex_ready:
  "ready_nodes rev (from_task ex_task) = [''exec-1'']"
  "ready_nodes rev ex_bridge1 = [''review-1'']"
  "ready_nodes rev ex_bridge2 = []"
  by code_simp+

lemma ex_bridge_run: "bridge_step\<^sup>*\<^sup>* (from_task ex_task) ex_bridge2"
proof -
  have "bridge_step (from_task ex_task) ex_bridge1"
    unfolding ex_bridge1_def by (rule bg_complete[of rev]) (simp_all add: ex_ready)
  moreover have "bridge_step ex_bridge1 ex_bridge2"
    unfolding ex_bridge2_def by (rule bg_fail[of rev]) (simp_all add: ex_ready)
  ultimately show ?thesis by (meson rtranclp.simps)
qed

theorem bridge_hint_off_by_one_witness:
  "count_nodes is_failed (br_graph ex_bridge2) = 1 \<and> next_step_hint rev ex_bridge2 = ''all steps completed''"
proof -
  have "count_nodes is_failed (br_graph ex_bridge2) = 1" by code_simp
  moreover have "total_steps ex_bridge2 \<le> Suc (card {i. step_completed ex_bridge2 i})"
  proof -
    have "count_nodes (\<lambda>st. st = Completed) (br_graph ex_bridge2) = 2" "total_steps ex_bridge2 = 2"
      by code_simp+
    then show ?thesis
      using bridge_completed_count[OF bridge_run_inv[OF ex_bridge_run]] by simp
  qed
  ultimately show ?thesis
    using bridge_hint_off_by_one[OF ex_bridge_run ex_ready(3)] by blast
qed

end
