(* ===== verification/TaskDecomposer.thy ===== *)
theory TaskDecomposer
  imports TaskPlanning
begin

text \<open>
  The task decomposer, \<open>src/orchestration/task_decomposer.rs\<close>: the rule-based decompositions, the
  phased execution order, and the decomposition by a language model with its fallback. The agent
  that runs the model and the JSON decoders derived for the types are parameters; the clock is an
  argument. Durations are 32-bit and complexities 8-bit numbers.
\<close>

section \<open>Definitions\<close>

record subtask =
  st_id :: string
  st_description :: string
  st_complexity :: u8
  st_dependencies :: "string set"
  st_duration :: u32
  st_priority :: u8

record task_decomposition =
  td_task_id :: string
  td_subtasks :: "subtask list"
  td_phases :: "string list list"
  td_duration :: u32
  td_llm_used :: bool

definition saturating_sub1 :: "u8 \<Rightarrow> u8" where
  "saturating_sub1 c = (if c = 0 then 0 else c - 1)"

definition mk_sub :: "string \<Rightarrow> string \<Rightarrow> u8 \<Rightarrow> string list \<Rightarrow> u32 \<Rightarrow> u8 \<Rightarrow> subtask" where
  "mk_sub i d c deps t p =
     \<lparr>st_id = i, st_description = d, st_complexity = c, st_dependencies = set deps, st_duration = t,
      st_priority = p\<rparr>"

text \<open>\<open>(complexity as i32 - 1).max(1) as u8\<close>.\<close>

definition test_complexity :: "u8 \<Rightarrow> u8" where
  "test_complexity c = of_int (max (uint c - 1) 1)"

definition decompose_bug_fix :: "u8 \<Rightarrow> subtask list" where
  "decompose_bug_fix c =
     [mk_sub ''analyze_bug'' ''Analyze bug symptoms and root cause'' (max c 2) [] 300 5,
      mk_sub ''locate_bug'' ''Locate the bug in the codebase'' c [''analyze_bug''] 600 5,
      mk_sub ''implement_fix'' ''Implement the fix'' c [''locate_bug''] 900 5,
      mk_sub ''write_test'' ''Write test to prevent regression'' (test_complexity c) [''implement_fix''] 600 4,
      mk_sub ''verify_fix'' ''Verify the fix works'' 2 [''implement_fix'', ''write_test''] 300 5]"

definition decompose_feature :: "u8 \<Rightarrow> subtask list" where
  "decompose_feature c =
     [mk_sub ''design_api'' ''Design feature API and interfaces'' (max c 2) [] 600 5,
      mk_sub ''implement_core'' ''Implement core feature logic'' c [''design_api''] 1800 5,
      mk_sub ''implement_edge_cases'' ''Implement error handling and edge cases'' (saturating_sub1 c)
        [''implement_core''] 900 4,
      mk_sub ''write_documentation'' ''Write user and developer documentation'' 2 [''implement_core''] 600 3,
      mk_sub ''add_tests'' ''Add comprehensive tests'' (saturating_sub1 c) [''implement_edge_cases''] 1200 4]"

definition decompose_refactoring :: "u8 \<Rightarrow> subtask list" where
  "decompose_refactoring c =
     [mk_sub ''analyze_current'' ''Analyze current code structure and identify improvements'' c [] 900 5,
      mk_sub ''plan_refactor'' ''Plan refactoring strategy and changes'' (max c 2) [''analyze_current''] 600 5,
      mk_sub ''refactor_code'' ''Execute refactoring'' c [''plan_refactor''] 1800 5,
      mk_sub ''update_tests'' ''Update and run all tests'' (saturating_sub1 c) [''refactor_code''] 900 4,
      mk_sub ''performance_verify'' ''Verify no performance regressions'' 3 [''update_tests''] 600 4]"

definition decompose_architecture :: "u8 \<Rightarrow> subtask list" where
  "decompose_architecture c =
     [mk_sub ''research'' ''Research and analyze existing patterns'' 3 [] 1200 5,
      mk_sub ''design'' ''Design new architecture'' (max c 3) [''research''] 1800 5,
      mk_sub ''prototype'' ''Build prototype/POC'' (max c 2) [''design''] 1200 4,
      mk_sub ''document'' ''Document architecture'' 2 [''design''] 900 4]"

definition decompose_testing :: "subtask list" where
  "decompose_testing =
     [mk_sub ''identify_cases'' ''Identify all test cases needed'' 2 [] 600 5,
      mk_sub ''write_unit_tests'' ''Write unit tests'' 2 [''identify_cases''] 1200 5,
      mk_sub ''write_integration_tests'' ''Write integration tests'' 2 [''identify_cases''] 1200 4,
      mk_sub ''run_all_tests'' ''Run and verify all tests'' 1
        [''write_unit_tests'', ''write_integration_tests''] 300 5]"

definition decompose_generic :: "u8 \<Rightarrow> subtask list" where
  "decompose_generic c =
     (let num_subtasks = max 2 (min 5 (unat c)) in
      map (\<lambda>i. mk_sub (''step_'' @ show_nat i)
             (''Execute step '' @ show_nat (i + 1) @ '' of '' @ show_nat num_subtasks) c
             (if i > 0 then [''step_'' @ show_nat (i - 1)] else []) 600 (max (5 - of_nat i) 1))
        [0..<num_subtasks])"

definition rule_subtasks :: "task_characteristics \<Rightarrow> subtask list" where
  "rule_subtasks ch =
     (case tc_task_type ch of
        BugFix \<Rightarrow> decompose_bug_fix (tc_complexity ch)
      | FeatureImplementation \<Rightarrow> decompose_feature (tc_complexity ch)
      | Refactoring \<Rightarrow> decompose_refactoring (tc_complexity ch)
      | ArchitectureDesign \<Rightarrow> decompose_architecture (tc_complexity ch)
      | TestImplementation \<Rightarrow> decompose_testing
      | _ \<Rightarrow> decompose_generic (tc_complexity ch))"

text \<open>The \<open>while\<close> loop of \<open>compute_execution_phases\<close>.\<close>

definition current_phase :: "subtask list \<Rightarrow> string set \<Rightarrow> string list" where
  "current_phase subtasks completed =
     map st_id (filter (\<lambda>s. st_id s \<notin> completed \<and> st_dependencies s \<subseteq> completed) subtasks)"

function phases_loop :: "subtask list \<Rightarrow> string set \<Rightarrow> string list list" where
  "phases_loop subtasks completed =
     (if card completed < length subtasks
      then (let phase = current_phase subtasks completed in
            if phase = [] then []
            else phase # phases_loop subtasks (completed \<union> set phase))
      else [])"
  by auto

lemma current_phase_new: "x \<in> set (current_phase subtasks D) \<Longrightarrow> x \<in> st_id ` set subtasks - D"
  by (auto simp: current_phase_def)

termination phases_loop
proof (relation "measure (\<lambda>(subtasks, D). card (st_id ` set subtasks - D))")
  fix subtasks :: "subtask list" and D phase
  assume phase: "phase = current_phase subtasks D" "phase \<noteq> []"
  then obtain x where "x \<in> set phase" by (meson hd_in_set)
  then have "x \<in> st_id ` set subtasks - D"
    using current_phase_new phase(1) by blast
  then show "((subtasks, D \<union> set phase), subtasks, D) \<in> measure (\<lambda>(subtasks, D). card (st_id ` set subtasks - D))"
    using \<open>x \<in> set phase\<close> by (auto intro!: psubset_card_mono)
qed simp

declare phases_loop.simps [simp del]

definition compute_execution_phases :: "subtask list \<Rightarrow> string list list" where
  "compute_execution_phases subtasks = phases_loop subtasks {}"

definition max_or_0 :: "u32 list \<Rightarrow> u32" where
  "max_or_0 ds = (if ds = [] then 0 else Max (set ds))"

definition phase_duration :: "subtask list \<Rightarrow> string list \<Rightarrow> u32" where
  "phase_duration subtasks phase =
     max_or_0 (List.map_filter (\<lambda>i. map_option st_duration (List.find (\<lambda>s. st_id s = i) subtasks)) phase)"

definition decompose :: "nat \<Rightarrow> task_characteristics \<Rightarrow> task_decomposition" where
  "decompose now_ms ch =
     (let subtasks = rule_subtasks ch;
          phases = compute_execution_phases subtasks
      in \<lparr>td_task_id = ''task_'' @ show_nat now_ms, td_subtasks = subtasks, td_phases = phases,
          td_duration = sum_list (map (phase_duration subtasks) phases), td_llm_used = False\<rparr>)"

text \<open>The agent: its answer to the decomposition prompt is an error, or an optional JSON output. The
  decoders stand for \<open>serde_json::from_value\<close> at the two types.\<close>

record llm_ops =
  run_task :: "task_characteristics \<Rightarrow> string + json option"
  decode_decomposition :: "json \<Rightarrow> task_decomposition option"
  decode_subtasks :: "json \<Rightarrow> subtask list option"

definition json_get :: "json \<Rightarrow> string \<Rightarrow> json option" where
  "json_get j k = (case j of JObject obj \<Rightarrow> map_of obj k | _ \<Rightarrow> None)"

definition decompose_with_llm ::
  "nat \<Rightarrow> nat \<Rightarrow> task_characteristics \<Rightarrow> llm_ops option \<Rightarrow> task_decomposition" where
  "decompose_with_llm ts now_ms ch agent =
     (let fallback = decompose now_ms ch in
      case agent of
        None \<Rightarrow> fallback
      | Some ops \<Rightarrow>
          (case run_task ops ch of
             Inl _ \<Rightarrow> fallback
           | Inr None \<Rightarrow> fallback
           | Inr (Some out) \<Rightarrow>
               (case decode_decomposition ops out of
                  Some decomp \<Rightarrow>
                    if td_phases decomp = [] \<and> td_subtasks decomp \<noteq> []
                    then decomp\<lparr>td_phases := compute_execution_phases (td_subtasks decomp),
                                td_llm_used := True\<rparr>
                    else decomp\<lparr>td_llm_used := True\<rparr>
                | None \<Rightarrow>
                    (case Option.bind (json_get out ''subtasks'') (decode_subtasks ops) of
                       Some subtasks \<Rightarrow>
                         \<lparr>td_task_id = ''task_'' @ show_nat ts, td_subtasks = subtasks,
                          td_phases = compute_execution_phases subtasks,
                          td_duration = sum_list (map st_duration subtasks), td_llm_used = True\<rparr>
                     | None \<Rightarrow> fallback))))"

section \<open>Facts\<close>

definition sub_requires :: "subtask list \<Rightarrow> string \<Rightarrow> string set" where
  "sub_requires subtasks i = \<Union> (st_dependencies ` {s \<in> set subtasks. st_id s = i})"

abbreviation sub_reqs :: "subtask list \<Rightarrow> (string \<times> string set) list" where
  "sub_reqs subtasks \<equiv> map (\<lambda>s. (st_id s, st_dependencies s)) subtasks"

lemma mk_sub_simps [simp]:
  "st_id (mk_sub i d c deps t p) = i" "st_dependencies (mk_sub i d c deps t p) = set deps"
  by (simp_all add: mk_sub_def)

lemma sub_requires_in:
  "distinct (map st_id subtasks) \<Longrightarrow> s \<in> set subtasks \<Longrightarrow> sub_requires subtasks (st_id s) = st_dependencies s"
  by (auto simp: sub_requires_def distinct_map dest: inj_onD)

lemma phase_order_sub:
  assumes "distinct (map st_id subtasks)" and "earlier {} (sub_reqs subtasks)"
    and "\<forall>s \<in> set subtasks. finite (st_dependencies s)"
  shows "phase_order (set (map st_id subtasks)) (sub_requires subtasks)"
proof -
  have "phase_order (set (map fst (sub_reqs subtasks))) (sub_requires subtasks)"
    using assms sub_requires_in[OF assms(1)] by (intro earlier_phase_order) (auto simp: o_def)
  then show ?thesis by (simp add: o_def)
qed

lemma generic_clamp: "max 2 (min 5 (unat (c :: u8))) \<in> {2, 3, 4, 5}"
  by (auto simp: max_def min_def)

lemma rule_subtasks_wf:
  "distinct (map st_id (rule_subtasks ch)) \<and> earlier {} (sub_reqs (rule_subtasks ch)) \<and>
   (\<forall>s \<in> set (rule_subtasks ch). finite (st_dependencies s))"
proof (cases "tc_task_type ch \<in> {BugFix, FeatureImplementation, Refactoring, ArchitectureDesign, TestImplementation}")
  case True
  then show ?thesis
    by (auto simp: rule_subtasks_def decompose_bug_fix_def decompose_feature_def decompose_refactoring_def
        decompose_architecture_def decompose_testing_def)
next
  case False
  then have r: "rule_subtasks ch = decompose_generic (tc_complexity ch)"
    by (auto simp: rule_subtasks_def split: task_type.splits)
  define n where "n = max 2 (min 5 (unat (tc_complexity ch)))"
  have "n = 2 \<or> n = 3 \<or> n = 4 \<or> n = 5"
    using generic_clamp[of "tc_complexity ch"] by (simp add: n_def)
  then show ?thesis
    unfolding r decompose_generic_def n_def[symmetric] Let_def
    by (elim disjE) (simp_all add: upt_rec show_nat_inj)
qed

interpretation rule_order: phase_order "set (map st_id (rule_subtasks ch))" "sub_requires (rule_subtasks ch)"
  using rule_subtasks_wf phase_order_sub by blast

text \<open>The loop keeps the contract of the phased schedulers; the phases only contain new ids.\<close>

lemma phases_loop_ok:
  assumes "distinct (map st_id subtasks)"
  shows "phases_ok (\<lambda>D x. sub_requires subtasks x \<subseteq> D) D (phases_loop subtasks D) \<and>
    distinct (concat (phases_loop subtasks D)) \<and>
    set (concat (phases_loop subtasks D)) \<subseteq> set (map st_id subtasks) - D"
  using assms
proof (induction subtasks D rule: phases_loop.induct)
  case (1 subtasks D)
  let ?phase = "current_phase subtasks D"
  show ?case
  proof (cases "card D < length subtasks \<and> ?phase \<noteq> []")
    case True
    then have eq: "phases_loop subtasks D = ?phase # phases_loop subtasks (D \<union> set ?phase)"
      by (simp add: phases_loop.simps[of subtasks D] Let_def)
    have IH: "phases_ok (\<lambda>D x. sub_requires subtasks x \<subseteq> D) (D \<union> set ?phase) (phases_loop subtasks (D \<union> set ?phase)) \<and>
        distinct (concat (phases_loop subtasks (D \<union> set ?phase))) \<and>
        set (concat (phases_loop subtasks (D \<union> set ?phase))) \<subseteq> set (map st_id subtasks) - (D \<union> set ?phase)"
      using 1 True by blast
    have ready: "\<forall>x \<in> set ?phase. sub_requires subtasks x \<subseteq> D"
      using sub_requires_in[OF 1(2)] by (auto simp: current_phase_def)
    have new: "set ?phase \<subseteq> set (map st_id subtasks) - D"
      using current_phase_new by fastforce
    have dist: "distinct ?phase"
      using 1(2) by (simp add: current_phase_def distinct_map_filter)
    show ?thesis
      unfolding eq using IH ready new dist by (simp del: set_map) blast
  next
    case False
    then have "phases_loop subtasks D = []"
      by (auto simp: phases_loop.simps[of subtasks D] Let_def)
    then show ?thesis by simp
  qed
qed

lemma phases_loop_complete:
  assumes "phase_order (set (map st_id subtasks)) (sub_requires subtasks)" and "distinct (map st_id subtasks)"
    and "D \<subseteq> set (map st_id subtasks)"
  shows "set (map st_id subtasks) \<subseteq> D \<union> set (concat (phases_loop subtasks D))"
  using assms
proof (induction subtasks D rule: phases_loop.induct)
  case (1 subtasks D)
  let ?ids = "set (map st_id subtasks)" and ?phase = "current_phase subtasks D"
  show ?case
  proof (cases "?ids \<subseteq> D")
    case False
    have "card ?ids = length subtasks" using "1.prems"(2) distinct_card by fastforce
    moreover have "card D < card ?ids"
      using False "1.prems"(3) by (intro psubset_card_mono) auto
    ultimately have c: "card D < length subtasks" by simp
    obtain x where x: "x \<in> ?ids - D" "sub_requires subtasks x \<subseteq> D"
      using phase_order.progress[OF "1.prems"(1) False] by blast
    then obtain s where "s \<in> set subtasks" "x = st_id s" by auto
    then have "x \<in> set ?phase"
      using x sub_requires_in[OF "1.prems"(2)] by (auto simp: current_phase_def)
    then have ne: "?phase \<noteq> []" by auto
    have eq: "phases_loop subtasks D = ?phase # phases_loop subtasks (D \<union> set ?phase)"
      using c ne by (simp add: phases_loop.simps[of subtasks D] Let_def)
    have "D \<union> set ?phase \<subseteq> ?ids"
      using "1.prems"(3) current_phase_new by fastforce
    then show ?thesis
      unfolding eq using "1.IH"[OF c refl ne "1.prems"(1,2)] by auto
  qed blast
qed

section \<open>Properties\<close>

text \<open>The rule-based decomposition of every task schedules each subtask exactly once, and in the
  schedule every dependency of a subtask is in an earlier phase.\<close>

theorem decompose_schedules_all:
  "distinct (concat (td_phases (decompose now ch))) \<and>
   set (concat (td_phases (decompose now ch))) = set (map st_id (td_subtasks (decompose now ch))) \<and>
   (\<forall>s \<in> set (td_subtasks (decompose now ch)). \<forall>d \<in> st_dependencies s. \<forall>k < length (td_phases (decompose now ch)).
      st_id s \<in> set (td_phases (decompose now ch) ! k) \<longrightarrow>
      (\<exists>j < k. d \<in> set (td_phases (decompose now ch) ! j)))"
proof -
  let ?subs = "rule_subtasks ch" and ?phases = "phases_loop (rule_subtasks ch) {}"
  have d: "distinct (map st_id ?subs)" using rule_subtasks_wf by blast
  have ok: "phases_ok (\<lambda>D x. sub_requires ?subs x \<subseteq> D) {} ?phases"
    and dist: "distinct (concat ?phases)" and sub: "set (concat ?phases) \<subseteq> set (map st_id ?subs)"
    using phases_loop_ok[OF d, of "{}"] by auto
  have "set (map st_id ?subs) \<subseteq> set (concat ?phases)"
    using phases_loop_complete[OF rule_order.phase_order_axioms d, of "{}"] by simp
  moreover have "\<exists>j < k. y \<in> set (?phases ! j)"
    if "s \<in> set ?subs" "y \<in> st_dependencies s" "k < length ?phases" "st_id s \<in> set (?phases ! k)" for s y k
    using rule_order.topological[OF ok that(3,4)] sub_requires_in[OF d that(1)] that(2) by simp
  ultimately show ?thesis
    using dist sub by (simp add: decompose_def Let_def compute_execution_phases_def)
qed

theorem decompose_schedules_all_witness:
  "\<exists>k. k < length (td_phases (decompose 0 (analyze_task ''fix it''))) \<and> 0 < k \<and>
     ''verify_fix'' \<in> set (td_phases (decompose 0 (analyze_task ''fix it'')) ! k)"
proof -
  let ?t = "decompose 0 (analyze_task ''fix it'')"
  have "tc_task_type (analyze_task ''fix it'') = BugFix" by code_simp
  then have "td_subtasks ?t = decompose_bug_fix (tc_complexity (analyze_task ''fix it''))"
    by (simp add: decompose_def Let_def rule_subtasks_def)
  then have "\<exists>s \<in> set (td_subtasks ?t). st_id s = ''verify_fix'' \<and> ''write_test'' \<in> st_dependencies s"
    by (simp add: decompose_bug_fix_def)
  then obtain s where s: "s \<in> set (td_subtasks ?t)" "st_id s = ''verify_fix''" "''write_test'' \<in> st_dependencies s"
    by blast
  then have "''verify_fix'' \<in> set (concat (td_phases ?t))"
    using decompose_schedules_all[of 0 "analyze_task ''fix it''"] by force
  then obtain k where k: "k < length (td_phases ?t)" "''verify_fix'' \<in> set (td_phases ?t ! k)"
    unfolding set_concat by (metis UN_E in_set_conv_nth)
  then have "\<exists>j < k. ''write_test'' \<in> set (td_phases ?t ! j)"
    using decompose_schedules_all[of 0 "analyze_task ''fix it''"] s(1,3) k(2)[folded s(2)] by blast
  then show ?thesis using k by (intro exI[of _ k]) auto
qed

text \<open>Whatever subtasks a model returns, the computation of the phases ends and schedules only known
  subtasks whose dependencies are scheduled; a subtask with a dependency that is not the id of a
  subtask is silently left out of the schedule.\<close>

theorem phases_drop_unknown_dependency:
  assumes "distinct (map st_id subtasks)" and "s \<in> set subtasks" and "d \<in> st_dependencies s"
    and "d \<notin> st_id ` set subtasks"
  shows "st_id s \<notin> set (concat (compute_execution_phases subtasks))"
proof
  let ?phases = "phases_loop subtasks {}"
  assume "st_id s \<in> set (concat (compute_execution_phases subtasks))"
  then obtain k where k: "k < length ?phases" "st_id s \<in> set (?phases ! k)"
    unfolding set_concat compute_execution_phases_def by (metis UN_E in_set_conv_nth)
  have ok: "phases_ok (\<lambda>D x. sub_requires subtasks x \<subseteq> D) {} ?phases"
    and sub: "set (concat ?phases) \<subseteq> set (map st_id subtasks)"
    using phases_loop_ok[OF assms(1), of "{}"] by auto
  obtain j where "j < k" "d \<in> set (?phases ! j)"
    using phases_ok_nth[OF ok k] sub_requires_in[OF assms(1,2)] assms(3) by auto
  then have "d \<in> set (concat ?phases)"
    using k(1) by (auto intro!: bexI[of _ "?phases ! j"])
  then show False using sub assms(4) by auto
qed

theorem phases_drop_unknown_dependency_witness:
  "''b'' \<notin> set (concat (compute_execution_phases [mk_sub ''a'' ''x'' 1 [] 1 1, mk_sub ''b'' ''y'' 1 [''zz''] 1 1]))"
  using phases_drop_unknown_dependency[of "[mk_sub ''a'' ''x'' 1 [] 1 1, mk_sub ''b'' ''y'' 1 [''zz''] 1 1]"
      "mk_sub ''b'' ''y'' 1 [''zz''] 1 1" "''zz''"] by simp

end
