(* ===== verification/Rbac.thy ===== *)
theory Rbac
  imports Prelude "HOL-Library.Char_ord" "HOL-Library.List_Lexorder"
begin

text \<open>
  Role-based access control, \<open>src/governance/rbac.rs\<close>: built-in roles and their hierarchy, custom
  roles, tenants and the access decision. A localised message is its key with its arguments; the
  values of environment variables and the contents of the tenants file are arguments (\<open>None\<close> when
  they cannot be read). The decision iterates over a hash map of roles only to suggest a role.
\<close>

section \<open>Roles and permissions\<close>

datatype permission =
    PRead | PWrite | PExecute | PAdmin | PManageUsers | PManageConfig | PManageTenants | PAudit | PMonitor

datatype builtin_role = AdminRole | UserRole | ViewerRole | MonitorRole

fun role_as_str :: "builtin_role \<Rightarrow> string" where
  "role_as_str AdminRole = ''admin''"
| "role_as_str UserRole = ''user''"
| "role_as_str ViewerRole = ''viewer''"
| "role_as_str MonitorRole = ''monitor''"

fun default_permissions :: "builtin_role \<Rightarrow> permission list" where
  "default_permissions AdminRole =
     [PRead, PWrite, PExecute, PAdmin, PManageUsers, PManageConfig, PManageTenants, PAudit]"
| "default_permissions UserRole = [PRead, PWrite]"
| "default_permissions ViewerRole = [PRead]"
| "default_permissions MonitorRole = [PRead, PMonitor]"

datatype role_level = LevelViewer | LevelUser | LevelAdmin

fun level_rank :: "role_level \<Rightarrow> nat" where
  "level_rank LevelViewer = 0" | "level_rank LevelUser = 1" | "level_rank LevelAdmin = 2"

definition inherits :: "role_level \<Rightarrow> role_level \<Rightarrow> bool" where
  "inherits a b = (level_rank a \<ge> level_rank b)"

definition from_role_name :: "string \<Rightarrow> role_level option" where
  "from_role_name n =
     (if n = ''admin'' then Some LevelAdmin else if n = ''user'' then Some LevelUser
      else if n = ''viewer'' then Some LevelViewer else None)"

fun inherited_role_names :: "role_level \<Rightarrow> string list" where
  "inherited_role_names LevelAdmin = [''user'', ''viewer'']"
| "inherited_role_names LevelUser = [''viewer'']"
| "inherited_role_names LevelViewer = []"

record principal =
  pr_id :: string
  pr_roles :: "string list"
  pr_permissions :: "permission set"
  pr_tenant_id :: "string option"

definition principal_new :: "string \<Rightarrow> string list \<Rightarrow> string option \<Rightarrow> principal" where
  "principal_new i rs t = \<lparr>pr_id = i, pr_roles = rs, pr_permissions = {}, pr_tenant_id = t\<rparr>"

definition has_permission :: "principal \<Rightarrow> permission \<Rightarrow> bool" where
  "has_permission p perm = (perm \<in> pr_permissions p)"

datatype message = Tf string "(string \<times> string) list"

datatype access_decision = Allow | Deny message | Escalate string

section \<open>The enforcer\<close>

record rbac_enforcer =
  role_permissions :: "(string, permission set) hmap"
  tenants :: "string set"
  tenant_mode_enabled :: bool

definition init_builtin_roles :: "rbac_enforcer \<Rightarrow> rbac_enforcer" where
  "init_builtin_roles e =
     fold (\<lambda>r e. e\<lparr>role_permissions :=
             hm_insert (role_as_str r) (set (default_permissions r)) (role_permissions e)\<rparr>)
       [AdminRole, UserRole, ViewerRole, MonitorRole] e"

definition enforcer_new :: rbac_enforcer where
  "enforcer_new =
     init_builtin_roles \<lparr>role_permissions = [], tenants = {}, tenant_mode_enabled = False\<rparr>"

definition tenant_ids :: "rbac_enforcer \<Rightarrow> string list" where
  "tenant_ids e = sorted_list_of_set (tenants e)"

definition default_tenant_id :: "rbac_enforcer \<Rightarrow> string option" where
  "default_tenant_id e = (if tenants e = {} then None else Some (Min (tenants e)))"

definition has_tenant :: "rbac_enforcer \<Rightarrow> string \<Rightarrow> bool" where
  "has_tenant e t = (t \<in> tenants e)"

definition register_role :: "string \<Rightarrow> permission list \<Rightarrow> rbac_enforcer \<Rightarrow> rbac_enforcer" where
  "register_role r ps e = e\<lparr>role_permissions := hm_insert r (set ps) (role_permissions e)\<rparr>"

definition add_tenant :: "string \<Rightarrow> rbac_enforcer \<Rightarrow> rbac_enforcer" where
  "add_tenant t e = e\<lparr>tenants := insert t (tenants e), tenant_mode_enabled := True\<rparr>"

text \<open>Splitting at commas, line feeds and carriage returns.\<close>

fun split_tenants :: "string \<Rightarrow> string list" where
  "split_tenants [] = [[]]"
| "split_tenants (c # cs) =
     (if c = CHR '','' \<or> c = CHR 0x0A \<or> c = CHR 0x0D then [] # split_tenants cs
      else (case split_tenants cs of [] \<Rightarrow> [[c]] | p # ps \<Rightarrow> (c # p) # ps))"

definition parsed_tenants :: "string \<Rightarrow> string list" where
  "parsed_tenants raw = filter (\<lambda>s. s \<noteq> []) (map trim (split_tenants raw))"

definition register_tenants_from_str :: "string \<Rightarrow> rbac_enforcer \<Rightarrow> nat \<times> rbac_enforcer" where
  "register_tenants_from_str raw e =
     (let before = card (tenants e);
          e' = fold add_tenant (parsed_tenants raw) e
      in (card (tenants e') - before, e'))"

definition register_tenants_from_env :: "string option \<Rightarrow> rbac_enforcer \<Rightarrow> nat \<times> rbac_enforcer" where
  "register_tenants_from_env var e =
     (case var of
        Some val \<Rightarrow> if trim val \<noteq> [] then register_tenants_from_str val e else (0, e)
      | None \<Rightarrow> (0, e))"

definition register_tenants_from_file_env ::
  "string option \<Rightarrow> (string \<Rightarrow> string option) \<Rightarrow> rbac_enforcer \<Rightarrow> nat \<times> rbac_enforcer" where
  "register_tenants_from_file_env var read_file e =
     (case var of
        Some val \<Rightarrow>
          if trim val \<noteq> []
          then (case read_file (trim val) of None \<Rightarrow> (0, e) | Some content \<Rightarrow> register_tenants_from_str content e)
          else (0, e)
      | None \<Rightarrow> (0, e))"

definition register_tenants_from_sources ::
  "string option \<Rightarrow> string option \<Rightarrow> (string \<Rightarrow> string option) \<Rightarrow> rbac_enforcer \<Rightarrow> nat \<times> rbac_enforcer" where
  "register_tenants_from_sources env_var file_var read_file e =
     (let before = card (tenants e);
          e1 = snd (register_tenants_from_env env_var e);
          e2 = snd (register_tenants_from_file_env file_var read_file e1)
      in (card (tenants e2) - before, e2))"

definition register_tenants_from_json :: "json \<Rightarrow> rbac_enforcer \<Rightarrow> nat \<times> rbac_enforcer" where
  "register_tenants_from_json v e =
     (let before = card (tenants e);
          e' = (case v of
                  JArray arr \<Rightarrow>
                    fold (\<lambda>j e. case j of JString i \<Rightarrow> add_tenant i e | _ \<Rightarrow> e) arr e
                | _ \<Rightarrow> e)
      in (card (tenants e') - before, e'))"

definition collect_inherited_permissions :: "rbac_enforcer \<Rightarrow> string \<Rightarrow> permission set" where
  "collect_inherited_permissions e r =
     (let own = (case hm_get (role_permissions e) r of None \<Rightarrow> {} | Some ps \<Rightarrow> ps)
      in case from_role_name r of
           None \<Rightarrow> own
         | Some level \<Rightarrow>
             fold (\<lambda>n acc. acc \<union> (case hm_get (role_permissions e) n of None \<Rightarrow> {} | Some ps \<Rightarrow> ps))
               (inherited_role_names level) own)"

definition tenant_denial :: "rbac_enforcer \<Rightarrow> principal \<Rightarrow> message option" where
  "tenant_denial e p =
     (if tenant_mode_enabled e
      then (if tenants e = {} then Some (Tf ''error.rbac.no_tenants_configured'' [(''principal'', pr_id p)])
            else (case pr_tenant_id p of
                    None \<Rightarrow> Some (Tf ''error.rbac.missing_tenant'' [(''principal'', pr_id p)])
                  | Some t \<Rightarrow>
                      if t \<notin> tenants e
                      then Some (Tf ''error.rbac.unknown_tenant'' [(''principal'', pr_id p), (''tenant'', t)])
                      else None))
      else None)"

text \<open>\<open>debug\<close> renders the values that the messages quote.\<close>

definition check_access ::
  "string iter_order \<Rightarrow> (string list \<Rightarrow> string) \<Rightarrow> (permission \<Rightarrow> string) \<Rightarrow> rbac_enforcer \<Rightarrow> principal \<Rightarrow>
   permission \<Rightarrow> access_decision" where
  "check_access ord debug_roles debug_perm e p perm =
     (case tenant_denial e p of
        Some m \<Rightarrow> Deny m
      | None \<Rightarrow>
          if list_ex (\<lambda>r. perm \<in> collect_inherited_permissions e r \<or>
                          PAdmin \<in> collect_inherited_permissions e r) (pr_roles p)
          then Allow
          else if has_permission p perm then Allow
          else if \<not> list_ex (\<lambda>r. hm_contains (role_permissions e) r) (pr_roles p)
          then Deny (Tf ''error.rbac.unknown_role''
                      [(''principal'', pr_id p), (''roles'', debug_roles (pr_roles p))])
          else (case List.find (\<lambda>r. perm \<in> the (hm_get (role_permissions e) r) \<and> r \<notin> set (pr_roles p))
                       (hm_keys ord (role_permissions e)) of
                  Some r \<Rightarrow> Escalate r
                | None \<Rightarrow> Deny (Tf ''error.rbac.lacks_permission''
                            [(''principal'', pr_id p), (''perm'', debug_perm perm)])))"

definition resolve_permissions :: "rbac_enforcer \<Rightarrow> principal \<Rightarrow> principal" where
  "resolve_permissions e p =
     fold (\<lambda>r p. p\<lparr>pr_permissions := pr_permissions p \<union> collect_inherited_permissions e r\<rparr>) (pr_roles p) p"

section \<open>Runs\<close>

inductive rbac_step :: "rbac_enforcer \<Rightarrow> rbac_enforcer \<Rightarrow> bool" where
  rb_role: "rbac_step e (register_role r ps e)"
| rb_tenant: "rbac_step e (add_tenant t e)"
| rb_sources: "rbac_step e (snd (register_tenants_from_sources v1 v2 rd e))"
| rb_json: "rbac_step e (snd (register_tenants_from_json j e))"

inductive_cases rbac_stepE: "rbac_step e e'"

definition rbac_inv :: "rbac_enforcer \<Rightarrow> bool" where
  "rbac_inv e = (hm_wf (role_permissions e) \<and> finite (tenants e) \<and>
     (tenant_mode_enabled e \<longleftrightarrow> tenants e \<noteq> {}))"

section \<open>Facts\<close>

lemma fold_add_tenant:
  "tenants (fold add_tenant ts e) = set ts \<union> tenants e"
  "role_permissions (fold add_tenant ts e) = role_permissions e"
  "tenant_mode_enabled (fold add_tenant ts e) \<longleftrightarrow> ts \<noteq> [] \<or> tenant_mode_enabled e"
  by (induction ts arbitrary: e) (auto simp: add_tenant_def)

lemma register_str:
  "snd (register_tenants_from_str raw e) = fold add_tenant (parsed_tenants raw) e"
  by (simp add: register_tenants_from_str_def Let_def)

lemma fold_add_tenant_inv: "rbac_inv e \<Longrightarrow> rbac_inv (fold add_tenant ts e)"
  by (auto simp: rbac_inv_def fold_add_tenant)

lemma register_env_inv: "rbac_inv e \<Longrightarrow> rbac_inv (snd (register_tenants_from_env v e))"
  by (auto simp: register_tenants_from_env_def register_str fold_add_tenant_inv split: option.splits)

lemma register_file_inv: "rbac_inv e \<Longrightarrow> rbac_inv (snd (register_tenants_from_file_env v rd e))"
  by (auto simp: register_tenants_from_file_env_def register_str fold_add_tenant_inv split: option.splits)

lemma register_json_fold:
  "snd (register_tenants_from_json j e) =
     fold add_tenant (case j of JArray arr \<Rightarrow>
       List.map_filter (\<lambda>j. case j of JString i \<Rightarrow> Some i | _ \<Rightarrow> None) arr | _ \<Rightarrow> []) e"
proof -
  have "fold (\<lambda>j e. case j of JString i \<Rightarrow> add_tenant i e | _ \<Rightarrow> e) arr e =
      fold add_tenant (List.map_filter (\<lambda>j. case j of JString i \<Rightarrow> Some i | _ \<Rightarrow> None) arr) e" for arr e
    by (induction arr arbitrary: e) (auto simp: List.map_filter_def split: json.splits)
  then show ?thesis
    by (simp add: register_tenants_from_json_def Let_def split: json.splits)
qed

interpretation rbac_sys: invariant_system rbac_step rbac_inv
proof
  fix e e'
  assume inv: "rbac_inv e" and "rbac_step e e'"
  from this(2) show "rbac_inv e'"
  proof cases
    case (rb_role r ps)
    then show ?thesis using inv by (simp add: rbac_inv_def register_role_def)
  next
    case (rb_tenant t)
    then show ?thesis using inv by (simp add: rbac_inv_def add_tenant_def)
  next
    case (rb_sources v1 v2 rd)
    then show ?thesis
      using register_file_inv[OF register_env_inv[OF inv]]
      by (simp add: register_tenants_from_sources_def Let_def)
  next
    case (rb_json j)
    then show ?thesis using fold_add_tenant_inv[OF inv] by (simp only: register_json_fold)
  qed
qed

lemma enforcer_new_inv: "rbac_inv enforcer_new"
  by (simp add: enforcer_new_def init_builtin_roles_def rbac_inv_def)

lemmas rbac_run_inv = rbac_sys.run_inv[OF _ enforcer_new_inv]

text \<open>The permissions a role has on its own.\<close>

definition own_permissions :: "rbac_enforcer \<Rightarrow> string \<Rightarrow> permission set" where
  "own_permissions e r = (case hm_get (role_permissions e) r of None \<Rightarrow> {} | Some ps \<Rightarrow> ps)"

lemma collect_eq:
  "collect_inherited_permissions e r =
     own_permissions e r \<union>
     (if r = ''admin'' then own_permissions e ''user'' \<union> own_permissions e ''viewer''
      else if r = ''user'' then own_permissions e ''viewer'' else {})"
  by (auto simp: collect_inherited_permissions_def own_permissions_def from_role_name_def Let_def)

lemma check_access_allow:
  "check_access ord dr dp e p perm = Allow \<longleftrightarrow> tenant_denial e p = None \<and>
     ((\<exists>r \<in> set (pr_roles p). perm \<in> collect_inherited_permissions e r \<or> PAdmin \<in> collect_inherited_permissions e r) \<or>
      perm \<in> pr_permissions p)"
  by (auto simp: check_access_def list_ex_iff has_permission_def split: option.splits)

text \<open>The inherited permissions, in terms of the permissions registered for each role.\<close>

lemma ex_collected:
  "(\<exists>r \<in> R. perm \<in> collect_inherited_permissions e r \<or> PAdmin \<in> collect_inherited_permissions e r) \<longleftrightarrow>
   (\<exists>r \<in> R. \<exists>r' ps.
      (r' = r \<or> r = ''admin'' \<and> (r' = ''user'' \<or> r' = ''viewer'') \<or> r = ''user'' \<and> r' = ''viewer'') \<and>
      hm_get (role_permissions e) r' = Some ps \<and> (perm \<in> ps \<or> PAdmin \<in> ps))"
proof -
  have own: "x \<in> own_permissions e n \<longleftrightarrow> (\<exists>ps. hm_get (role_permissions e) n = Some ps \<and> x \<in> ps)" for x n
    by (simp add: own_permissions_def split: option.split)
  define G where "G r r' \<longleftrightarrow> r' = r \<or> r = ''admin'' \<and> (r' = ''user'' \<or> r' = ''viewer'') \<or> r = ''user'' \<and> r' = ''viewer''" for r r' :: string
  have "x \<in> collect_inherited_permissions e r \<longleftrightarrow> (\<exists>r'. G r r' \<and> x \<in> own_permissions e r')" for x r
    unfolding collect_eq G_def by (cases "r = ''admin''"; cases "r = ''user''") auto
  then show ?thesis unfolding G_def[symmetric] own by blast
qed

lemma resolve_permissions_eq:
  "resolve_permissions e p =
     p\<lparr>pr_permissions := pr_permissions p \<union> \<Union> (collect_inherited_permissions e ` set (pr_roles p))\<rparr>"
proof -
  have "fold (\<lambda>r p. p\<lparr>pr_permissions := pr_permissions p \<union> collect_inherited_permissions e r\<rparr>) rs p =
      p\<lparr>pr_permissions := pr_permissions p \<union> \<Union> (collect_inherited_permissions e ` set rs)\<rparr>" for rs p
    by (induction rs arbitrary: p) (simp_all add: Un_assoc)
  then show ?thesis by (simp add: resolve_permissions_def)
qed

section \<open>Properties\<close>

text \<open>C9: on every enforcer reached from the default one, access is allowed exactly when the tenant check
  passes (no tenant is registered at all, or the principal names a registered one) and either the
  permission was granted to the principal directly, or the permissions registered for one of its roles, or
  for a role this one inherits (an admin those of user and viewer, a user those of viewer, a role of another
  name none), contain the permission or the admin permission.\<close>

theorem rbac_allow_iff:
  assumes "rbac_step\<^sup>*\<^sup>* enforcer_new e"
  shows "check_access ord dr dp e p perm = Allow \<longleftrightarrow>
    (tenants e = {} \<or> (\<exists>t \<in> tenants e. pr_tenant_id p = Some t)) \<and>
    (perm \<in> pr_permissions p \<or>
     (\<exists>r \<in> set (pr_roles p). \<exists>r' ps.
        (r' = r \<or> r = ''admin'' \<and> (r' = ''user'' \<or> r' = ''viewer'') \<or> r = ''user'' \<and> r' = ''viewer'') \<and>
        hm_get (role_permissions e) r' = Some ps \<and> (perm \<in> ps \<or> PAdmin \<in> ps)))"
proof -
  have "tenant_mode_enabled e \<longleftrightarrow> tenants e \<noteq> {}"
    using rbac_run_inv[OF assms] by (simp add: rbac_inv_def)
  then have "tenant_denial e p = None \<longleftrightarrow> tenants e = {} \<or> (\<exists>t \<in> tenants e. pr_tenant_id p = Some t)"
    by (auto simp: tenant_denial_def split: option.splits if_splits)
  then show ?thesis unfolding check_access_allow ex_collected[symmetric] by blast
qed

text \<open>A user may read because viewers may; a principal of a registered tenant is needed once there is one.\<close>

theorem rbac_allow_iff_witness:
  "check_access rev (\<lambda>_. []) (\<lambda>_. []) (register_role ''user'' [PWrite] enforcer_new)
     (principal_new ''bob'' [''user''] None) PRead = Allow \<and>
   check_access rev (\<lambda>_. []) (\<lambda>_. []) (add_tenant ''acme'' enforcer_new)
     (principal_new ''eve'' [''admin''] None) PRead \<noteq> Allow"
proof
  have "rbac_step\<^sup>*\<^sup>* enforcer_new (add_tenant ''acme'' enforcer_new)"
    using rb_tenant by blast
  then show "check_access rev (\<lambda>_. []) (\<lambda>_. []) (add_tenant ''acme'' enforcer_new)
      (principal_new ''eve'' [''admin''] None) PRead \<noteq> Allow"
    using rbac_allow_iff[of "add_tenant ''acme'' enforcer_new" rev "\<lambda>_. []" "\<lambda>_. []"
        "principal_new ''eve'' [''admin''] None" PRead]
    by (simp add: add_tenant_def principal_new_def)
next
  let ?e = "register_role ''user'' [PWrite] enforcer_new"
  have "rbac_step\<^sup>*\<^sup>* enforcer_new ?e" using rb_role by blast
  moreover have "tenants ?e = {}" "hm_get (role_permissions ?e) ''viewer'' = Some {PRead}"
    by (simp_all add: register_role_def enforcer_new_def init_builtin_roles_def)
  ultimately show "check_access rev (\<lambda>_. []) (\<lambda>_. []) ?e (principal_new ''bob'' [''user''] None) PRead = Allow"
    using rbac_allow_iff[of ?e rev "\<lambda>_. []" "\<lambda>_. []" "principal_new ''bob'' [''user''] None" PRead]
    by (auto simp: principal_new_def intro: exI[of _ "''viewer''"])
qed

text \<open>Whatever roles are registered or redefined, the effective permissions of the hierarchy only grow
  upwards (viewer, user, admin), resolving a principal's permissions never takes a decision away, and
  a suggested role really has the permission, is not one the principal has, and would give access.\<close>

theorem rbac_hierarchy_and_escalation:
  assumes "valid_order ord"
  shows "collect_inherited_permissions e ''viewer'' \<subseteq> collect_inherited_permissions e ''user'' \<and>
    collect_inherited_permissions e ''user'' \<subseteq> collect_inherited_permissions e ''admin'' \<and>
    (check_access ord dr dp e p perm = Allow \<longleftrightarrow>
       check_access ord dr dp e (resolve_permissions e p) perm = Allow) \<and>
    (check_access ord dr dp e p perm = Escalate r \<longrightarrow>
       perm \<in> own_permissions e r \<and> r \<notin> set (pr_roles p) \<and>
       check_access ord dr dp e (p\<lparr>pr_roles := r # pr_roles p\<rparr>) perm = Allow)"
proof -
  have res: "tenant_denial e (resolve_permissions e p) = tenant_denial e p"
    "pr_roles (resolve_permissions e p) = pr_roles p"
    "pr_permissions (resolve_permissions e p) =
       pr_permissions p \<union> \<Union> (collect_inherited_permissions e ` set (pr_roles p))"
    by (simp_all add: resolve_permissions_eq tenant_denial_def split: option.splits)
  have esc: "perm \<in> own_permissions e r \<and> r \<notin> set (pr_roles p) \<and> tenant_denial e p = None"
    if c: "check_access ord dr dp e p perm = Escalate r"
  proof -
    have "List.find (\<lambda>r. perm \<in> the (hm_get (role_permissions e) r) \<and> r \<notin> set (pr_roles p))
        (hm_keys ord (role_permissions e)) = Some r" "tenant_denial e p = None"
      using c by (auto simp: check_access_def split: option.splits if_splits)
    then have "r \<in> set (hm_keys ord (role_permissions e))" "perm \<in> the (hm_get (role_permissions e) r)"
      "r \<notin> set (pr_roles p)" "tenant_denial e p = None"
      by (auto simp: find_Some_iff)
    then show ?thesis
      using assms by (auto simp: own_permissions_def)
  qed
  have "check_access ord dr dp e (p\<lparr>pr_roles := r # pr_roles p\<rparr>) perm = Allow"
    if "check_access ord dr dp e p perm = Escalate r"
  proof -
    have "tenant_denial e (p\<lparr>pr_roles := r # pr_roles p\<rparr>) = tenant_denial e p"
      by (simp add: tenant_denial_def split: option.splits)
    then show ?thesis using esc[OF that] by (simp add: check_access_allow collect_eq)
  qed
  moreover have "check_access ord dr dp e p perm = Allow \<longleftrightarrow>
      check_access ord dr dp e (resolve_permissions e p) perm = Allow"
    unfolding check_access_allow res by blast
  moreover have "collect_inherited_permissions e ''viewer'' \<subseteq> collect_inherited_permissions e ''user''"
    "collect_inherited_permissions e ''user'' \<subseteq> collect_inherited_permissions e ''admin''"
    by (auto simp: collect_eq)
  ultimately show ?thesis
    using esc by blast
qed

theorem rbac_hierarchy_and_escalation_witness:
  "\<exists>r. check_access rev (\<lambda>_. []) (\<lambda>_. []) enforcer_new (principal_new ''v'' [''viewer''] None) PMonitor = Escalate r \<and>
     PMonitor \<in> own_permissions enforcer_new r"
proof -
  have "check_access rev (\<lambda>_. []) (\<lambda>_. []) enforcer_new (principal_new ''v'' [''viewer''] None) PMonitor =
      Escalate ''monitor''"
    by code_simp
  then show ?thesis
    using rbac_hierarchy_and_escalation[OF valid_order_rev, of enforcer_new "\<lambda>_. []" "\<lambda>_. []"] by blast
qed

text \<open>Registering tenants from the environment and the tenants file adds exactly the non-empty trimmed
  ids of the readable sources and reports how many of them are new.\<close>

theorem rbac_tenant_sources_exact:
  assumes "rbac_step\<^sup>*\<^sup>* enforcer_new e"
  shows "let new = (case v1 of Some s \<Rightarrow> if trim s \<noteq> [] then set (parsed_tenants s) else {} | None \<Rightarrow> {}) \<union>
        (case v2 of Some f \<Rightarrow> if trim f \<noteq> []
           then (case rd (trim f) of Some s \<Rightarrow> set (parsed_tenants s) | None \<Rightarrow> {}) else {} | None \<Rightarrow> {});
        result = register_tenants_from_sources v1 v2 rd e
    in tenants (snd result) = tenants e \<union> new \<and> fst result = card (new - tenants e)"
proof -
  let ?new1 = "case v1 of Some s \<Rightarrow> if trim s \<noteq> [] then set (parsed_tenants s) else {} | None \<Rightarrow> {}"
  let ?new2 = "case v2 of Some f \<Rightarrow> if trim f \<noteq> []
      then (case rd (trim f) of Some s \<Rightarrow> set (parsed_tenants s) | None \<Rightarrow> {}) else {} | None \<Rightarrow> {}"
  have fin: "finite (tenants e)" "finite (?new1 \<union> ?new2)"
    using rbac_run_inv[OF assms] by (auto simp: rbac_inv_def split: option.splits)
  have "tenants (snd (register_tenants_from_env v1 e')) = tenants e' \<union> ?new1" for e'
    by (auto simp: register_tenants_from_env_def register_str fold_add_tenant split: option.splits)
  moreover have "tenants (snd (register_tenants_from_file_env v2 rd e')) = tenants e' \<union> ?new2" for e'
    by (auto simp: register_tenants_from_file_env_def register_str fold_add_tenant split: option.splits)
  ultimately have t: "tenants (snd (register_tenants_from_sources v1 v2 rd e)) = tenants e \<union> (?new1 \<union> ?new2)"
    by (simp add: register_tenants_from_sources_def Let_def Un_assoc)
  have "card (tenants e \<union> (?new1 \<union> ?new2)) - card (tenants e) = card ((?new1 \<union> ?new2) - tenants e)"
    using card_Un_disjoint[OF fin(1), of "(?new1 \<union> ?new2) - tenants e"] fin
    by (simp add: Un_Diff_cancel)
  then show ?thesis
    using t by (simp add: Let_def register_tenants_from_sources_def)
qed

theorem rbac_tenant_sources_exact_witness:
  "fst (register_tenants_from_sources (Some '' a, b,,a '') None (\<lambda>_. None) enforcer_new) = 2"
proof -
  have "set (parsed_tenants '' a, b,,a '') = {''a'', ''b''}" "trim '' a, b,,a '' \<noteq> []"
    by code_simp+
  moreover have "tenants enforcer_new = {}"
    by (simp add: enforcer_new_def init_builtin_roles_def)
  ultimately show ?thesis
    using rbac_tenant_sources_exact[OF rtranclp.rtrancl_refl, where ?v1.0 = "Some '' a, b,,a ''" and ?v2.0 = None
        and rd = "\<lambda>_. None"]
    by (simp add: Let_def)
qed

end
