(* ===== verification/ApprovalChain.thy ===== *)
theory ApprovalChain
  imports TextOps
begin

text \<open>
  The permission hooks of the approval chain, \<open>src/governance/approval_chain.rs\<close>: normalising the
  configured entries (with the quote-aware splitting of a command line), interpreting the output of
  a hook, running the hooks in order and recording each run in the audit log. What the operating
  system does with a hook process is the argument \<open>run\<close>: it fails to start, exceeds the timeout,
  cannot be waited for, or exits with a code (none when killed by a signal) and its standard output.
\<close>

section \<open>Definitions\<close>

datatype permission_hook_config =
    CommandLine string
  | Structured string "string list"

record permission_hook =
  hook_command :: string
  hook_args :: "string list"

datatype hook_verdict = HookAllow | HookDeny | HookOverride

record hook_decision =
  hd_verdict :: "hook_verdict option"
  hd_reason :: "string option"

datatype hook_outcome =
    Verdict hook_verdict "string option"
  | NoOpinion "int option"
  | HookError string

text \<open>The loop of \<open>split_command_line\<close>; a quote takes everything up to the next quote of its kind or
  to the end of the line.\<close>

function split_loop :: "string \<Rightarrow> string \<Rightarrow> bool \<Rightarrow> string list \<Rightarrow> string list" where
  "split_loop [] current in_token tokens = (if in_token then tokens @ [current] else tokens)"
| "split_loop (ch # chars) current in_token tokens =
     (if ch = CHR 0x27 \<or> ch = CHR 0x22
      then split_loop (drop 1 (dropWhile (\<lambda>c. c \<noteq> ch) chars))
             (current @ takeWhile (\<lambda>c. c \<noteq> ch) chars) True tokens
      else if is_whitespace ch
      then (if in_token then split_loop chars [] False (tokens @ [current])
            else split_loop chars current False tokens)
      else split_loop chars (current @ [ch]) True tokens)"
  by pat_completeness auto

lemma length_drop_dropWhile: "length (drop (Suc 0) (dropWhile P xs)) < Suc (length xs)"
  using length_dropWhile_le[of P xs] by (simp add: less_Suc_eq_le)

termination split_loop
  by (relation "measure (\<lambda>(chars, current, in_token, tokens). length chars)")
    (simp_all add: length_drop_dropWhile del: length_drop)

definition split_command_line :: "string \<Rightarrow> string list" where
  "split_command_line line = split_loop line [] False []"

definition to_hook :: "permission_hook_config \<Rightarrow> permission_hook option" where
  "to_hook cfg =
     (case cfg of
        CommandLine line \<Rightarrow>
          (case split_command_line line of
             [] \<Rightarrow> None
           | command # parts \<Rightarrow> Some \<lparr>hook_command = command, hook_args = parts\<rparr>)
      | Structured command args \<Rightarrow>
          if trim command = [] then None
          else Some \<lparr>hook_command = command, hook_args = args\<rparr>)"

definition permission_hooks_from_config :: "permission_hook_config list \<Rightarrow> permission_hook list" where
  "permission_hooks_from_config cfgs = List.map_filter to_hook cfgs"

definition parse_hook_stdout :: "string \<Rightarrow> hook_verdict option" where
  "parse_hook_stdout out =
     (case str_lines out of
        [] \<Rightarrow> None
      | l # _ \<Rightarrow>
          (let w = to_ascii_lowercase (trim l) in
           if w = ''allow'' then Some HookAllow
           else if w = ''deny'' then Some HookDeny
           else if w = ''override'' then Some HookOverride
           else None))"

datatype process_result =
    SpawnFailed string
  | TimedOut
  | WaitFailed string
  | Exited "int option" string

text \<open>\<open>timeout\<close> is the printed form of the timeout.\<close>

definition run_single_hook ::
  "(permission_hook \<Rightarrow> string \<Rightarrow> json \<Rightarrow> process_result) \<Rightarrow> string \<Rightarrow> permission_hook \<Rightarrow> string \<Rightarrow> json \<Rightarrow>
   hook_outcome" where
  "run_single_hook run timeout hook tool_name tool_args =
     (case run hook tool_name tool_args of
        SpawnFailed err \<Rightarrow> HookError (''spawn failed: '' @ err)
      | TimedOut \<Rightarrow> HookError (''timed out after '' @ timeout)
      | WaitFailed err \<Rightarrow> HookError (''wait failed: '' @ err)
      | Exited code out \<Rightarrow>
          if code \<noteq> Some 0 then NoOpinion code
          else (case parse_hook_stdout out of
                  Some verdict \<Rightarrow> Verdict verdict (Some (trim out))
                | None \<Rightarrow> NoOpinion None))"

fun verdict_label :: "hook_verdict \<Rightarrow> string" where
  "verdict_label HookAllow = ''allow''"
| "verdict_label HookDeny = ''deny''"
| "verdict_label HookOverride = ''override''"

record audit_entry =
  ae_phase :: string
  ae_tool :: "string option"
  ae_decision :: string
  ae_inputs :: json
  ae_outputs :: "json option"
  ae_error :: "string option"

definition opt_json :: "('a \<Rightarrow> json) \<Rightarrow> 'a option \<Rightarrow> json" where
  "opt_json f x = (case x of None \<Rightarrow> JNull | Some v \<Rightarrow> f v)"

definition hook_audit_entry ::
  "string \<Rightarrow> permission_hook \<Rightarrow> json \<Rightarrow> hook_outcome \<Rightarrow> audit_entry" where
  "hook_audit_entry tool_name hook tool_args outcome =
     (let (outputs, err) = (case outcome of
            Verdict v reason \<Rightarrow>
              (Some (JObject [(''verdict'', JString (verdict_label v)), (''reason'', opt_json JString reason)]), None)
          | NoOpinion code \<Rightarrow>
              (Some (JObject [(''verdict'', JString ''no_opinion''), (''exit_code'', opt_json JNumber code)]), None)
          | HookError e \<Rightarrow> (None, Some e))
      in \<lparr>ae_phase = ''approval'', ae_tool = Some tool_name, ae_decision = ''permission_hook'',
          ae_inputs = JObject [(''command'', JString (hook_command hook)),
            (''args'', JArray (map JString (hook_args hook))), (''tool_args'', tool_args)],
          ae_outputs = outputs, ae_error = err\<rparr>)"

fun run_permission_hooks ::
  "(permission_hook \<Rightarrow> string \<Rightarrow> json \<Rightarrow> process_result) \<Rightarrow> string \<Rightarrow> permission_hook list \<Rightarrow> string \<Rightarrow>
   json \<Rightarrow> audit_entry list \<Rightarrow> hook_decision \<times> audit_entry list" where
  "run_permission_hooks run timeout [] tool_name tool_args audit =
     (\<lparr>hd_verdict = None, hd_reason = None\<rparr>, audit)"
| "run_permission_hooks run timeout (hook # hooks) tool_name tool_args audit =
     (let outcome = run_single_hook run timeout hook tool_name tool_args;
          audit' = audit @ [hook_audit_entry tool_name hook tool_args outcome]
      in case outcome of
           Verdict verdict reason \<Rightarrow> (\<lparr>hd_verdict = Some verdict, hd_reason = reason\<rparr>, audit')
         | NoOpinion _ \<Rightarrow> run_permission_hooks run timeout hooks tool_name tool_args audit'
         | HookError _ \<Rightarrow> run_permission_hooks run timeout hooks tool_name tool_args audit')"

section \<open>Facts\<close>

definition has_opinion :: "hook_outcome \<Rightarrow> bool" where
  "has_opinion oc = (case oc of Verdict _ _ \<Rightarrow> True | _ \<Rightarrow> False)"

text \<open>Quoting a token that contains no double quote.\<close>

definition quote_token :: "string \<Rightarrow> string" where
  "quote_token t = CHR 0x22 # t @ [CHR 0x22]"

lemma quoted_part:
  "q \<notin> set t \<Longrightarrow> takeWhile (\<lambda>c. c \<noteq> q) (t @ q # rest) = t \<and>
     dropWhile (\<lambda>c. c \<noteq> q) (t @ q # rest) = q # rest"
  by (induction t) auto

lemma split_loop_quoted:
  "CHR 0x22 \<notin> set t \<Longrightarrow>
   split_loop (quote_token t @ rest) [] False tokens = split_loop rest t True tokens"
  using quoted_part[of "CHR 0x22" t rest] by (simp add: quote_token_def)

lemma split_quoted:
  "\<forall>t \<in> set ts. CHR 0x22 \<notin> set t \<Longrightarrow>
   split_loop (join_with (CHR 0x20) (map quote_token ts)) [] False tokens = tokens @ ts"
proof (induction ts arbitrary: tokens)
  case (Cons t ts)
  have t: "CHR 0x22 \<notin> set t" using Cons.prems by simp
  show ?case
  proof (cases ts)
    case Nil
    then show ?thesis using split_loop_quoted[OF t, of "[]" tokens] by simp
  next
    case (Cons u us)
    have "split_loop (CHR 0x20 # join_with (CHR 0x20) (map quote_token ts)) t True tokens =
        split_loop (join_with (CHR 0x20) (map quote_token ts)) [] False (tokens @ [t])"
      by (simp add: is_whitespace_def)
    then show ?thesis
      using split_loop_quoted[OF t, of "CHR 0x20 # join_with (CHR 0x20) (map quote_token ts)" tokens]
        Cons.IH[of "tokens @ [t]"] Cons.prems Cons by simp
  qed
qed simp

lemma hooks_skip:
  assumes "\<not> has_opinion (run_single_hook run timeout hook tool args)"
  shows "run_permission_hooks run timeout (hook # hooks) tool args audit =
    run_permission_hooks run timeout hooks tool args
      (audit @ [hook_audit_entry tool hook args (run_single_hook run timeout hook tool args)])"
  using assms by (simp add: has_opinion_def Let_def split: hook_outcome.splits)

lemma hooks_prefix:
  "\<forall>h \<in> set pre. \<not> has_opinion (run_single_hook run timeout h tool args) \<Longrightarrow>
   run_permission_hooks run timeout (pre @ hooks) tool args audit =
     run_permission_hooks run timeout hooks tool args
       (audit @ map (\<lambda>h. hook_audit_entry tool h args (run_single_hook run timeout h tool args)) pre)"
proof (induction pre arbitrary: audit)
  case (Cons h pre)
  then show ?case using hooks_skip[of run timeout h tool args "pre @ hooks" audit] by simp
qed simp

section \<open>Properties\<close>

text \<open>The first hook with an opinion decides: hooks before it that fail, time out or have no opinion
  only add their audit entry, hooks after it are not run, and the log gains exactly one entry per
  hook that was run, in order.\<close>

theorem hooks_first_opinion_decides:
  assumes "\<forall>h \<in> set pre. \<not> has_opinion (run_single_hook run timeout h tool args)"
    and "run_single_hook run timeout hook tool args = Verdict v reason"
  shows "run_permission_hooks run timeout (pre @ hook # rest) tool args audit =
    (\<lparr>hd_verdict = Some v, hd_reason = reason\<rparr>,
     audit @ map (\<lambda>h. hook_audit_entry tool h args (run_single_hook run timeout h tool args)) (pre @ [hook]))"
  using hooks_prefix[OF assms(1), of "hook # rest" audit] assms(2) by simp

definition ex_run :: "permission_hook \<Rightarrow> string \<Rightarrow> json \<Rightarrow> process_result" where
  "ex_run h tool args =
     (if hook_command h = ''a'' then SpawnFailed ''missing''
      else if hook_command h = ''b'' then Exited (Some 1) ''allow''
      else Exited (Some 0) (''DENY'' @ [CHR 0x0A] @ ''why''))"

definition ex_hook :: "string \<Rightarrow> permission_hook" where
  "ex_hook c = \<lparr>hook_command = c, hook_args = []\<rparr>"

theorem hooks_first_opinion_decides_witness:
  "hd_verdict (fst (run_permission_hooks ex_run ''5s'' [ex_hook ''a'', ex_hook ''b'', ex_hook ''c'', ex_hook ''d''] ''t'' JNull [])) =
     Some HookDeny"
proof -
  have "\<forall>h \<in> set [ex_hook ''a'', ex_hook ''b'']. \<not> has_opinion (run_single_hook ex_run ''5s'' h ''t'' JNull)"
    by (simp add: run_single_hook_def ex_run_def ex_hook_def has_opinion_def)
  moreover have "run_single_hook ex_run ''5s'' (ex_hook ''c'') ''t'' JNull =
      Verdict HookDeny (Some (''DENY'' @ [CHR 0x0A] @ ''why''))"
    by code_simp
  ultimately show ?thesis
    using hooks_first_opinion_decides[of "[ex_hook ''a'', ex_hook ''b'']" ex_run "''5s''" "''t''" JNull "ex_hook ''c''"
        HookDeny "Some (''DENY'' @ [CHR 0x0A] @ ''why'')" "[ex_hook ''d'']" "[]"] by simp
qed

text \<open>When no hook has an opinion the decision is left to the user, every hook has been run once and
  recorded; a hook that exits with an error code never decides, whatever it prints.\<close>

theorem hooks_fail_open:
  assumes "\<forall>h \<in> set hooks. case run h tool args of Exited code out \<Rightarrow> code \<noteq> Some 0 \<or> parse_hook_stdout out = None
      | _ \<Rightarrow> True"
  shows "run_permission_hooks run timeout hooks tool args audit =
    (\<lparr>hd_verdict = None, hd_reason = None\<rparr>,
     audit @ map (\<lambda>h. hook_audit_entry tool h args (run_single_hook run timeout h tool args)) hooks)"
proof -
  have "\<forall>h \<in> set hooks. \<not> has_opinion (run_single_hook run timeout h tool args)"
    using assms by (auto simp: run_single_hook_def has_opinion_def split: process_result.splits option.splits)
  from hooks_prefix[OF this, of "[]" audit] show ?thesis by simp
qed

theorem hooks_fail_open_witness:
  "hd_verdict (fst (run_permission_hooks ex_run ''5s'' [ex_hook ''a'', ex_hook ''b''] ''t'' JNull [])) = None"
  using hooks_fail_open[of "[ex_hook ''a'', ex_hook ''b'']" ex_run "''t''" JNull "''5s''" "[]"]
  by (simp add: ex_run_def ex_hook_def)

text \<open>Splitting a command line inverts quoting: tokens without double quotes, empty ones included,
  that are quoted and joined by blanks are read back as they were.\<close>

theorem split_command_line_roundtrip:
  assumes "\<forall>t \<in> set ts. CHR 0x22 \<notin> set t"
  shows "split_command_line (join_with (CHR 0x20) (map quote_token ts)) = ts"
  using split_quoted[OF assms, of "[]"] by (simp add: split_command_line_def)

theorem split_command_line_roundtrip_witness:
  "split_command_line (join_with (CHR 0x20) (map quote_token [''sh'', ''a b'', ''''])) = [''sh'', ''a b'', '''']"
  by (rule split_command_line_roundtrip) simp

text \<open>An entry without a usable command is not always skipped: a structured entry is refused when its
  command is blank, but a command line of two quotes becomes a hook with the empty command.\<close>

theorem empty_quoted_command_accepted:
  "to_hook (Structured '''' args) = None \<and> to_hook (CommandLine '''') = None \<and>
   to_hook (CommandLine [CHR 0x27, CHR 0x27]) = Some \<lparr>hook_command = '''', hook_args = []\<rparr>"
  by (simp add: to_hook_def split_command_line_def trim_def trim_start_def trim_end_def)

end
