(* ===== verification/CircuitBreaker.thy ===== *)
theory CircuitBreaker
  imports Prelude
begin

text \<open>
  The circuit breaker, \<open>src/resilience/hyper_resilience/state.rs\<close> with its data of \<open>types.rs\<close>: the one
  transition function all entry points of the engine use, at the width of its counters, and the
  result that a breaker that has seen only outcomes is open exactly when the outcomes contain a run
  of failures of the length of the threshold.
\<close>

section \<open>Breaker state machine\<close>

datatype circuit_state = CsClosed | CsOpen | CsHalfOpen

datatype failure_mode = ResourceExhaustion

datatype breaker_outcome = Success | Failure

record circuit_breaker =
  cb_name :: string
  cb_state :: circuit_state
  failure_count :: u64
  threshold :: u64
  recovery_timeout_ms :: u64
  last_failure_ms :: u64
  last_state_change_ms :: u64
  last_failure_mode :: "failure_mode option"
  failure_history :: "failure_mode list"

fun as_label :: "circuit_state \<Rightarrow> string" where
  "as_label CsClosed = ''closed''" | "as_label CsOpen = ''open''" | "as_label CsHalfOpen = ''half-open''"

definition breaker_new :: "string \<Rightarrow> u64 \<Rightarrow> u64 \<Rightarrow> circuit_breaker" where
  "breaker_new n th rec =
     \<lparr>cb_name = n, cb_state = CsClosed, failure_count = 0, threshold = th, recovery_timeout_ms = rec,
      last_failure_ms = 0, last_state_change_ms = 0, last_failure_mode = None, failure_history = []\<rparr>"

definition reset_breaker :: "circuit_breaker \<Rightarrow> circuit_breaker" where
  "reset_breaker cb = cb\<lparr>cb_state := CsClosed, failure_count := 0, last_failure_ms := 0\<rparr>"

definition transition_breaker :: "circuit_breaker \<Rightarrow> breaker_outcome \<Rightarrow> u64 \<Rightarrow> circuit_breaker" where
  "transition_breaker cb outcome now =
     (case outcome of
        Success \<Rightarrow>
          (case cb_state cb of
             CsHalfOpen \<Rightarrow> (reset_breaker cb)\<lparr>last_state_change_ms := now\<rparr>
           | CsClosed \<Rightarrow> cb\<lparr>failure_count := 0\<rparr>
           | CsOpen \<Rightarrow> cb)
      | Failure \<Rightarrow>
          (case cb_state cb of
             CsClosed \<Rightarrow>
               (let cb = cb\<lparr>failure_count := failure_count cb + 1, last_failure_ms := now\<rparr> in
                if failure_count cb \<ge> threshold cb
                then cb\<lparr>cb_state := CsOpen, last_state_change_ms := now\<rparr> else cb)
           | CsOpen \<Rightarrow> cb\<lparr>last_failure_ms := now\<rparr>
           | CsHalfOpen \<Rightarrow>
               cb\<lparr>cb_state := CsOpen, failure_count := failure_count cb + 1, last_failure_ms := now,
                  last_state_change_ms := now\<rparr>))"

definition apply_breaker_outcome :: "circuit_breaker \<Rightarrow> bool \<Rightarrow> u64 \<Rightarrow> circuit_breaker" where
  "apply_breaker_outcome cb success now = transition_breaker cb (if success then Success else Failure) now"

datatype degradation_level = Normal | Degraded | Constrained | Emergency

definition degradation_from_counts :: "nat \<Rightarrow> nat \<Rightarrow> nat \<Rightarrow> degradation_level" where
  "degradation_from_counts open_n total_n failovers =
     (if open_n > 0 \<and> open_n > total_n div 2 then Emergency
      else if open_n > total_n div 3 \<and> open_n > 0 then Constrained
      else if open_n > 0 \<or> failovers > 0 then Degraded
      else Normal)"

section \<open>Runs of outcomes\<close>

definition streak_bound :: "u64 \<Rightarrow> nat" where
  "streak_bound th = max 1 (unat th)"

definition has_streak :: "nat \<Rightarrow> bool list \<Rightarrow> bool" where
  "has_streak k bs \<longleftrightarrow> (\<exists>p s. bs = p @ replicate k False @ s)"

definition trailing_failures :: "bool list \<Rightarrow> nat" where
  "trailing_failures bs = length (takeWhile Not (rev bs))"

lemma trailing_failures_snoc [simp]:
  "trailing_failures [] = 0"
  "trailing_failures (bs @ [b]) = (if b then 0 else Suc (trailing_failures bs))"
  by (simp_all add: trailing_failures_def)

lemma trailing_failures_split: "\<exists>p. bs = p @ replicate (trailing_failures bs) False"
proof -
  have "takeWhile Not (rev bs) = replicate (trailing_failures bs) False"
    unfolding trailing_failures_def by (rule replicate_eqI) (auto dest: set_takeWhileD)
  moreover have "bs = rev (dropWhile Not (rev bs)) @ rev (takeWhile Not (rev bs))"
    by (metis rev_append rev_rev_ident takeWhile_dropWhile_id)
  ultimately show ?thesis by (metis rev_replicate)
qed

lemma trailing_failures_suffix: "k \<le> trailing_failures (p @ replicate k False)"
proof -
  have "takeWhile Not (rev (p @ replicate k False)) = replicate k False @ takeWhile Not (rev p)"
    by (simp only: rev_append rev_replicate) (rule takeWhile_append2, auto)
  then show ?thesis by (simp add: trailing_failures_def)
qed

lemma has_streak_snoc:
  "has_streak k (bs @ [b]) \<longleftrightarrow> has_streak k bs \<or> k \<le> trailing_failures (bs @ [b])"
proof
  assume "has_streak k (bs @ [b])"
  then obtain p s where e: "bs @ [b] = p @ replicate k False @ s" by (auto simp: has_streak_def)
  show "has_streak k bs \<or> k \<le> trailing_failures (bs @ [b])"
  proof (cases s rule: rev_cases)
    case Nil
    then show ?thesis using e trailing_failures_suffix[of k p] by simp
  next
    case (snoc s' x)
    then have "bs = p @ replicate k False @ s'" using e by simp
    then show ?thesis by (auto simp: has_streak_def)
  qed
next
  assume "has_streak k bs \<or> k \<le> trailing_failures (bs @ [b])"
  then show "has_streak k (bs @ [b])"
  proof
    assume "has_streak k bs"
    then show ?thesis unfolding has_streak_def by (metis append.assoc)
  next
    let ?t = "trailing_failures (bs @ [b])"
    assume "k \<le> ?t"
    then have "replicate ?t False = replicate (?t - k) False @ replicate k False"
      by (simp flip: replicate_add)
    with trailing_failures_split[of "bs @ [b]"] show ?thesis
      unfolding has_streak_def by (metis append.assoc append_Nil2)
  qed
qed

definition breaker_tracks :: "u64 \<Rightarrow> bool list \<Rightarrow> circuit_breaker \<Rightarrow> bool" where
  "breaker_tracks th bs cb \<longleftrightarrow> threshold cb = th \<and>
     (if has_streak (streak_bound th) bs then cb_state cb = CsOpen
      else cb_state cb = CsClosed \<and> unat (failure_count cb) = trailing_failures bs \<and>
           trailing_failures bs < streak_bound th)"

lemma has_streak_Nil [simp]: "\<not> has_streak (streak_bound th) []"
  by (simp add: has_streak_def streak_bound_def)

lemma breaker_new_tracks: "breaker_tracks th [] (breaker_new n th rec)"
  using has_streak_Nil[of th] by (simp add: breaker_tracks_def breaker_new_def streak_bound_def)

lemma apply_breaker_outcome_tracks:
  assumes "breaker_tracks th bs cb"
  shows "breaker_tracks th (bs @ [b]) (apply_breaker_outcome cb b now)"
proof (cases "has_streak (streak_bound th) bs")
  case True
  then show ?thesis
    using assms by (simp add: breaker_tracks_def has_streak_snoc apply_breaker_outcome_def transition_breaker_def)
next
  case False
  with assms have cb: "cb_state cb = CsClosed" "unat (failure_count cb) = trailing_failures bs"
    "threshold cb = th" and lt: "trailing_failures bs < streak_bound th"
    by (auto simp: breaker_tracks_def)
  have "unat th < 2 ^ 64" using unsigned_less[of th, where ?'a = nat] by simp
  with lt have "Suc (trailing_failures bs) < 2 ^ 64" by (auto simp: streak_bound_def)
  then have inc: "unat (failure_count cb + 1) = Suc (trailing_failures bs)"
    using cb(2) by (simp add: unat_word_ariths(1))
  have ge: "(th \<le> failure_count cb + 1) = (streak_bound th \<le> Suc (trailing_failures bs))"
    by (simp add: word_le_nat_alt streak_bound_def inc)
  show ?thesis
  proof (cases b)
    case True
    then show ?thesis
      using False cb lt
      by (simp add: breaker_tracks_def has_streak_snoc apply_breaker_outcome_def transition_breaker_def)
  next
    case F: False
    then show ?thesis
      using False cb inc ge
      by (simp add: breaker_tracks_def has_streak_snoc apply_breaker_outcome_def transition_breaker_def Let_def)
  qed
qed

end
