(* ===== verification/ResilienceEngine.thy ===== *)
theory ResilienceEngine
  imports Complex_Main CircuitBreaker "HOL-Library.Char_ord" "HOL-Library.List_Lexorder"
begin

text \<open>
  The resilience engine, \<open>src/resilience/hyper_resilience/engine.rs\<close>: breakers, service health, failover
  groups, self-healing and the health check cycle. Every operation runs under the lock of the maps it
  uses. Counters and times are 64-bit words; rates, mean latencies and scores, floats in the code, are
  exact rationals. The clock, the iteration order of the maps and the outcome of a connection attempt
  are arguments. The futures of a cycle are run one after the other, healing in any order, and
  nothing else runs between the phases of one cycle. Messages are constructors with the values they mention.
\<close>

section \<open>Engine state\<close>

datatype health_status = Healthy | HsDegraded | Unhealthy

record service_health =
  service_name :: string
  sh_status :: health_status
  success_rate :: rat
  error_rate :: rat
  avg_latency_ms :: rat
  last_check_timestamp :: u64

record service_counters =
  total_requests :: u64
  successful_requests :: u64
  consecutive_failures :: u64

record failover_group =
  group_id :: string
  primary_node :: string
  replica_nodes :: "string list"
  current_leader :: string
  health_score :: rat
  last_failover_ms :: u64
  failover_count :: u64

record test_metrics =
  tm_avg_latency_ms :: rat
  tm_error_rate :: rat

record resilience_config =
  circuit_breaker_threshold :: u64
  cfg_recovery_timeout_ms :: u64
  health_check_interval_ms :: u64
  self_healing_enabled :: bool

record resilience_engine =
  config :: resilience_config
  circuit_breakers :: "(string, circuit_breaker) hmap"
  failover_groups :: "(string, failover_group) hmap"
  healths :: "(string, service_health) hmap"
  counters :: "(string, service_counters) hmap"
  healing_actions_taken :: u64
  healing_actions_simulated :: u64
  started_ms :: u64
  metrics :: test_metrics

datatype engine_error =
    BreakerAlreadyRegistered string
  | BreakerNotFound string
  | FailoverAlreadyRegistered string
  | FailoverRequiresReplica string
  | FailoverGroupNotFound string

definition config_default :: resilience_config where
  "config_default =
     \<lparr>circuit_breaker_threshold = 5, cfg_recovery_timeout_ms = 30000, health_check_interval_ms = 5000,
      self_healing_enabled = True\<rparr>"

definition engine_new :: "u64 \<Rightarrow> resilience_config \<Rightarrow> resilience_engine" where
  "engine_new now c =
     \<lparr>config = c, circuit_breakers = [], failover_groups = [], healths = [], counters = [],
      healing_actions_taken = 0, healing_actions_simulated = 0, started_ms = now,
      metrics = \<lparr>tm_avg_latency_ms = 0, tm_error_rate = 0\<rparr>\<rparr>"

definition or_insert :: "'k \<Rightarrow> 'v \<Rightarrow> ('k, 'v) hmap \<Rightarrow> ('k, 'v) hmap" where
  "or_insert k v m = (case hm_get m k of None \<Rightarrow> hm_insert k v m | Some _ \<Rightarrow> m)"

definition register_circuit_breaker ::
  "string \<Rightarrow> u64 \<Rightarrow> u64 \<Rightarrow> resilience_engine \<Rightarrow> (engine_error + unit) \<times> resilience_engine" where
  "register_circuit_breaker n th rec e =
     (if hm_contains (circuit_breakers e) n then (Inl (BreakerAlreadyRegistered n), e)
      else (Inr (), e\<lparr>circuit_breakers := hm_insert n (breaker_new n th rec) (circuit_breakers e)\<rparr>))"

definition health_new :: "u64 \<Rightarrow> string \<Rightarrow> service_health" where
  "health_new now n =
     \<lparr>service_name = n, sh_status = Healthy, success_rate = 1, error_rate = 0, avg_latency_ms = 0,
      last_check_timestamp = now div 1000\<rparr>"

definition counters_default :: service_counters where
  "counters_default = \<lparr>total_requests = 0, successful_requests = 0, consecutive_failures = 0\<rparr>"

definition register_service :: "u64 \<Rightarrow> string \<Rightarrow> resilience_engine \<Rightarrow> resilience_engine" where
  "register_service now n e =
     e\<lparr>healths := or_insert n (health_new now n) (healths e),
       counters := or_insert n counters_default (counters e),
       circuit_breakers := or_insert n
         (breaker_new n (circuit_breaker_threshold (config e)) (cfg_recovery_timeout_ms (config e)))
         (circuit_breakers e)\<rparr>"

definition of_u64 :: "u64 \<Rightarrow> rat" where
  "of_u64 w = of_nat (unat w)"

definition health_status_of :: "rat \<Rightarrow> rat \<Rightarrow> health_status" where
  "health_status_of er sr =
     (if er > 1 / 10 then Unhealthy else if sr < 8 / 10 then HsDegraded else Healthy)"

definition count_outcome :: "bool \<Rightarrow> service_counters \<Rightarrow> service_counters" where
  "count_outcome success c =
     (let c = c\<lparr>total_requests := total_requests c + 1\<rparr> in
      if success
      then c\<lparr>successful_requests := successful_requests c + 1, consecutive_failures := 0\<rparr>
      else c\<lparr>consecutive_failures := consecutive_failures c + 1\<rparr>)"

text \<open>The quotient of a positive float by zero is infinite, so a threshold of zero gives the full severity.\<close>

definition rates :: "u64 \<Rightarrow> service_counters \<Rightarrow> rat \<times> rat" where
  "rates max_failure_threshold c =
     (let total = total_requests c; success_n = successful_requests c; failures = consecutive_failures c;
          sr = (if total = 0 then 1 else of_u64 success_n / of_u64 total);
          er = (if total = 0 then 0
                else of_u64 (if success_n \<le> total then total - success_n else 0) / of_u64 total);
          severity = (if max_failure_threshold = 0 then 1
                      else min (of_u64 failures / of_u64 max_failure_threshold) 1);
          er = (if failures > 0 \<and> failures \<ge> max_failure_threshold
                then max er (severity * (5 / 10)) else er)
      in (sr, er))"

definition mean_latency :: "service_counters \<Rightarrow> rat \<Rightarrow> u64 option \<Rightarrow> rat" where
  "mean_latency c prior latency =
     (case latency of
        Some measured \<Rightarrow>
          (let samples = of_u64 (max (total_requests c) 1); previous_weight = max (samples - 1) 0 in
           if previous_weight = 0 then of_u64 measured
           else (prior * previous_weight + of_u64 measured) / samples)
      | None \<Rightarrow> prior)"

definition record_service_outcome ::
  "u64 \<Rightarrow> string \<Rightarrow> bool \<Rightarrow> u64 option \<Rightarrow> resilience_engine \<Rightarrow> resilience_engine" where
  "record_service_outcome now n success latency e =
     (let c = count_outcome success (case hm_get (counters e) n of None \<Rightarrow> counters_default | Some c \<Rightarrow> c);
          (sr, er) = rates (circuit_breaker_threshold (config e)) c;
          prior = (case hm_get (healths e) n of None \<Rightarrow> 0 | Some h \<Rightarrow> avg_latency_ms h);
          h = (case hm_get (healths e) n of None \<Rightarrow> health_new now n | Some h \<Rightarrow> h);
          h' = h\<lparr>success_rate := sr, error_rate := er, avg_latency_ms := mean_latency c prior latency,
                 sh_status := health_status_of er sr, last_check_timestamp := now div 1000\<rparr>
      in e\<lparr>counters := hm_insert n c (counters e), healths := hm_insert n h' (healths e)\<rparr>)"

definition record_outcome :: "u64 \<Rightarrow> string \<Rightarrow> bool \<Rightarrow> u64 \<Rightarrow> resilience_engine \<Rightarrow> resilience_engine" where
  "record_outcome now n success latency e =
     (let th = circuit_breaker_threshold (config e); rec = cfg_recovery_timeout_ms (config e);
          e = record_service_outcome now n success (Some latency) e;
          cb = (case hm_get (circuit_breakers e) n of None \<Rightarrow> breaker_new n th rec | Some cb \<Rightarrow> cb)
      in e\<lparr>circuit_breakers := hm_insert n (apply_breaker_outcome cb success now) (circuit_breakers e)\<rparr>)"

definition engine_degradation_level :: "string \<Rightarrow> resilience_engine \<Rightarrow> degradation_level" where
  "engine_degradation_level n e =
     (case hm_get (healths e) n of
        Some h \<Rightarrow>
          (case sh_status h of
             Healthy \<Rightarrow> Normal
           | HsDegraded \<Rightarrow> Degraded
           | Unhealthy \<Rightarrow> if success_rate h < 5 / 10 then Emergency else Constrained)
      | None \<Rightarrow> Normal)"

definition should_degrade :: "string \<Rightarrow> resilience_engine \<Rightarrow> bool" where
  "should_degrade n e = (engine_degradation_level n e \<in> {Constrained, Emergency})"

definition breaker_state :: "string \<Rightarrow> resilience_engine \<Rightarrow> circuit_state" where
  "breaker_state n e =
     (case hm_get (circuit_breakers e) n of None \<Rightarrow> CsClosed | Some cb \<Rightarrow> cb_state cb)"

definition recover_service :: "u64 \<Rightarrow> string \<Rightarrow> resilience_engine \<Rightarrow> bool \<times> resilience_engine" where
  "recover_service now n e =
     (case hm_get (healths e) n of
        None \<Rightarrow> (False, e)
      | Some health \<Rightarrow>
          (let failures = (case hm_get (counters e) n of None \<Rightarrow> 0 | Some c \<Rightarrow> consecutive_failures c) in
           if sh_status health = Healthy \<and> breaker_state n e = CsClosed \<and> failures = 0 then (False, e)
           else (True, e\<lparr>
             counters := hm_modify n (\<lambda>c. c\<lparr>consecutive_failures := 0, total_requests := 0,
                                            successful_requests := 0\<rparr>) (counters e),
             circuit_breakers := hm_modify n reset_breaker (circuit_breakers e),
             healths := hm_modify n (\<lambda>h. h\<lparr>sh_status := Healthy, success_rate := 1, error_rate := 0,
                                            last_check_timestamp := now div 1000\<rparr>) (healths e)\<rparr>)))"

fun recover_loop :: "u64 \<Rightarrow> string list \<Rightarrow> resilience_engine \<Rightarrow> string list \<times> resilience_engine" where
  "recover_loop now [] e = ([], e)"
| "recover_loop now (n # ns) e =
     (let (done, e') = recover_service now n e; (ms, e'') = recover_loop now ns e'
      in (if done then n # ms else ms, e''))"

definition recover_services ::
  "string iter_order \<Rightarrow> u64 \<Rightarrow> string option \<Rightarrow> resilience_engine \<Rightarrow> string list \<times> resilience_engine" where
  "recover_services ord now n e =
     (let names = (case n of Some n \<Rightarrow> [n] | None \<Rightarrow> hm_keys ord (healths e));
          (recovered, e') = recover_loop now names e
      in (sort recovered, e'))"

definition open_breaker_count :: "resilience_engine \<Rightarrow> u32" where
  "open_breaker_count e = of_nat (length (filter (\<lambda>(n, cb). cb_state cb = CsOpen) (circuit_breakers e)))"

definition push_history :: "failure_mode \<Rightarrow> circuit_breaker \<Rightarrow> circuit_breaker" where
  "push_history m cb =
     (let hist = failure_history cb @ [m] in
      cb\<lparr>last_failure_mode := Some m, failure_history := (if length hist > 10 then tl hist else hist)\<rparr>)"

definition record_failure_with_mode ::
  "u64 \<Rightarrow> string \<Rightarrow> failure_mode \<Rightarrow> resilience_engine \<Rightarrow> (engine_error + circuit_state) \<times> resilience_engine" where
  "record_failure_with_mode now n m e =
     (case hm_get (circuit_breakers e) n of
        None \<Rightarrow> (Inl (BreakerNotFound n), e)
      | Some cb \<Rightarrow>
          (let cb' = transition_breaker (push_history m cb) Failure now
           in (Inr (cb_state cb'), e\<lparr>circuit_breakers := hm_insert n cb' (circuit_breakers e)\<rparr>)))"

definition record_failure ::
  "u64 \<Rightarrow> string \<Rightarrow> resilience_engine \<Rightarrow> (engine_error + circuit_state) \<times> resilience_engine" where
  "record_failure now n e = record_failure_with_mode now n ResourceExhaustion e"

definition record_success ::
  "u64 \<Rightarrow> string \<Rightarrow> resilience_engine \<Rightarrow> (engine_error + unit) \<times> resilience_engine" where
  "record_success now n e =
     (case hm_get (circuit_breakers e) n of
        None \<Rightarrow> (Inl (BreakerNotFound n), e)
      | Some cb \<Rightarrow>
          (Inr (), e\<lparr>circuit_breakers := hm_insert n (transition_breaker cb Success now) (circuit_breakers e)\<rparr>))"

definition is_available :: "u64 \<Rightarrow> string \<Rightarrow> resilience_engine \<Rightarrow> bool \<times> resilience_engine" where
  "is_available now n e =
     (case hm_get (circuit_breakers e) n of
        None \<Rightarrow> (False, e)
      | Some cb \<Rightarrow>
          (case cb_state cb of
             CsOpen \<Rightarrow>
               if now \<ge> last_failure_ms cb + recovery_timeout_ms cb
               then (True, e\<lparr>circuit_breakers :=
                       hm_insert n (cb\<lparr>cb_state := CsHalfOpen, last_state_change_ms := now\<rparr>) (circuit_breakers e)\<rparr>)
               else (False, e)
           | _ \<Rightarrow> (True, e)))"

definition probe :: "u64 \<Rightarrow> string \<Rightarrow> resilience_engine \<Rightarrow> bool \<times> resilience_engine" where
  "probe now n e = is_available now n e"

definition register_failover_group ::
  "string \<Rightarrow> string \<Rightarrow> string list \<Rightarrow> resilience_engine \<Rightarrow> (engine_error + unit) \<times> resilience_engine" where
  "register_failover_group g primary replicas e =
     (if hm_contains (failover_groups e) g then (Inl (FailoverAlreadyRegistered g), e)
      else if replicas = [] then (Inl (FailoverRequiresReplica g), e)
      else (Inr (), e\<lparr>failover_groups := hm_insert g
             \<lparr>group_id = g, primary_node = primary, replica_nodes = replicas, current_leader = primary,
              health_score = 100, last_failover_ms = 0, failover_count = 0\<rparr> (failover_groups e)\<rparr>))"

fun index_of :: "'a \<Rightarrow> 'a list \<Rightarrow> nat option" where
  "index_of x [] = None"
| "index_of x (y # ys) = (if y = x then Some 0 else map_option Suc (index_of x ys))"

definition next_replica :: "failover_group \<Rightarrow> string" where
  "next_replica g =
     (case index_of (current_leader g) (replica_nodes g) of
        Some idx \<Rightarrow> replica_nodes g ! ((idx + 1) mod length (replica_nodes g))
      | None \<Rightarrow> replica_nodes g ! 0)"

definition trigger_failover ::
  "u64 \<Rightarrow> string \<Rightarrow> resilience_engine \<Rightarrow> (engine_error + string) \<times> resilience_engine" where
  "trigger_failover now g e =
     (case hm_get (failover_groups e) g of
        None \<Rightarrow> (Inl (FailoverGroupNotFound g), e)
      | Some grp \<Rightarrow>
          (let next = next_replica grp;
               grp' = grp\<lparr>current_leader := next, last_failover_ms := now,
                          failover_count := failover_count grp + 1,
                          health_score := max 0 (health_score grp - 10)\<rparr>
           in (Inr next, e\<lparr>failover_groups := hm_insert g grp' (failover_groups e)\<rparr>)))"

definition record_execution :: "u64 \<Rightarrow> string \<Rightarrow> bool \<Rightarrow> resilience_engine \<Rightarrow> resilience_engine" where
  "record_execution now n success e =
     (let th = circuit_breaker_threshold (config e); rec = cfg_recovery_timeout_ms (config e);
          cb = (case hm_get (circuit_breakers e) n of None \<Rightarrow> breaker_new n th rec | Some cb \<Rightarrow> cb);
          cb' = transition_breaker cb (if success then Success else Failure) now;
          e = e\<lparr>circuit_breakers := hm_insert n cb' (circuit_breakers e)\<rparr>
      in record_service_outcome now n success None e)"

section \<open>Reports\<close>

record system_health_snapshot =
  shs_level :: degradation_level
  active_circuit_breakers :: nat
  open_circuits :: nat
  active_failovers :: nat
  shs_avg_latency_ms :: rat
  shs_error_rate :: rat
  timestamp_ms :: u64

datatype resilience_level = Standard | High | Critical

record resilience_profile =
  rp_level :: resilience_level
  rp_system_health :: degradation_level
  rp_total_circuit_breakers :: nat
  rp_open_circuits :: nat
  rp_failover_groups :: nat
  rp_healing_actions_taken :: u64
  rp_healing_actions_simulated :: u64
  uptime_ms :: u64

definition open_entries :: "resilience_engine \<Rightarrow> nat" where
  "open_entries e = length (filter (\<lambda>(n, cb). cb_state cb = CsOpen) (circuit_breakers e))"

definition system_health :: "u64 \<Rightarrow> resilience_engine \<Rightarrow> system_health_snapshot" where
  "system_health now e =
     (let active = length (circuit_breakers e); opn = open_entries e;
          failovers = length (filter (\<lambda>(n, g). failover_count g > 0) (failover_groups e))
      in \<lparr>shs_level = degradation_from_counts opn active failovers, active_circuit_breakers = active,
          open_circuits = opn, active_failovers = failovers,
          shs_avg_latency_ms = tm_avg_latency_ms (metrics e), shs_error_rate = tm_error_rate (metrics e),
          timestamp_ms = now\<rparr>)"

definition saturating_sub :: "u64 \<Rightarrow> u64 \<Rightarrow> u64" where
  "saturating_sub a b = (if b \<le> a then a - b else 0)"

definition engine_profile :: "u64 \<Rightarrow> resilience_engine \<Rightarrow> resilience_profile" where
  "engine_profile now e =
     (let all = length (circuit_breakers e); opn = open_entries e; groups = length (failover_groups e)
      in \<lparr>rp_level = (if opn = 0 \<and> groups = 0 then Standard else if opn \<le> 1 then High else Critical),
          rp_system_health = degradation_from_counts opn all 0, rp_total_circuit_breakers = all,
          rp_open_circuits = opn, rp_failover_groups = groups,
          rp_healing_actions_taken = healing_actions_taken e,
          rp_healing_actions_simulated = healing_actions_simulated e,
          uptime_ms = saturating_sub now (started_ms e)\<rparr>)"

definition breaker_snapshots ::
  "string iter_order \<Rightarrow> resilience_engine \<Rightarrow> (string \<times> circuit_state \<times> u64 \<times> u64 \<times> u64 \<times> u64) list" where
  "breaker_snapshots ord e =
     map (\<lambda>n. let cb = the (hm_get (circuit_breakers e) n); c = hm_get (counters e) n in
            (n, cb_state cb, failure_count cb, case_option 0 total_requests c,
             case_option 0 successful_requests c, last_state_change_ms cb))
       (hm_keys ord (circuit_breakers e))"

section \<open>Self-healing\<close>

datatype self_healing_action =
  RestartNode | PromoteReplica | ClearCircuitBreaker | ScaleResources | ReinitializeComponent

datatype tcp_outcome = TcpConnected | TcpRefused | TcpTimeout

datatype health_check_message =
    CheckPassed string | CheckFailed string | CheckTimeout string u64 | NoAddress string

datatype healing_result =
    ProbeFailed health_check_message
  | BreakerReset string
  | NoBreaker string
  | ReplicaPromoted string string
  | NoGroup string
  | NodeRestartedSimulated string
  | ResourcesScaledSimulated string
  | ComponentReinitialized string

record healing_report =
  hr_action :: self_healing_action
  hr_target :: string
  initiated_ms :: u64
  hr_success :: bool
  duration_ms :: u64
  hr_result :: healing_result

fun split_once :: "char \<Rightarrow> string \<Rightarrow> (string \<times> string) option" where
  "split_once c [] = None"
| "split_once c (x # xs) =
     (if x = c then Some ([], xs) else map_option (\<lambda>(a, b). (x # a, b)) (split_once c xs))"

definition is_digit :: "char \<Rightarrow> bool" where
  "is_digit c = (48 \<le> (of_char c :: nat) \<and> (of_char c :: nat) \<le> 57)"

definition parse_u16 :: "string \<Rightarrow> nat option" where
  "parse_u16 s =
     (let ds = (case s of [] \<Rightarrow> s | c # cs \<Rightarrow> if c = CHR ''+'' then cs else s) in
      if ds = [] \<or> (\<exists>c \<in> set ds. \<not> is_digit c) then None
      else (let v = foldl (\<lambda>v c. 10 * v + ((of_char c :: nat) - 48)) 0 ds in
            if v < 65536 then Some v else None))"

definition try_health_check ::
  "(string \<Rightarrow> nat \<Rightarrow> tcp_outcome) \<Rightarrow> string \<Rightarrow> u64 \<Rightarrow> bool \<times> health_check_message" where
  "try_health_check tcp target timeout =
     (case split_once (CHR '':'') target of
        Some (host, port_str) \<Rightarrow>
          (case parse_u16 port_str of
             Some port \<Rightarrow>
               (let addr = host @ '':'' @ show_nat port in
                case tcp host port of
                  TcpConnected \<Rightarrow> (True, CheckPassed addr)
                | TcpRefused \<Rightarrow> (False, CheckFailed addr)
                | TcpTimeout \<Rightarrow> (False, CheckTimeout addr timeout))
           | None \<Rightarrow> (False, NoAddress target))
      | None \<Rightarrow> (False, NoAddress target))"

definition heal_breaker :: "(string \<Rightarrow> healing_result) \<Rightarrow> string \<Rightarrow> resilience_engine \<Rightarrow>
    (bool \<times> healing_result \<times> bool) \<times> resilience_engine" where
  "heal_breaker res target e =
     (case hm_get (circuit_breakers e) target of
        Some cb \<Rightarrow> ((True, res target, True),
                    e\<lparr>circuit_breakers := hm_insert target (reset_breaker cb) (circuit_breakers e)\<rparr>)
      | None \<Rightarrow> ((False, NoBreaker target, False), e))"

definition promote_replica :: "u64 \<Rightarrow> string \<Rightarrow> resilience_engine \<Rightarrow>
    (bool \<times> healing_result \<times> bool) \<times> resilience_engine" where
  "promote_replica now target e =
     (case hm_get (failover_groups e) target of
        Some g \<Rightarrow>
          (let new_leader = (if replica_nodes g = [] then primary_node g else replica_nodes g ! 0);
               g' = g\<lparr>current_leader := new_leader, failover_count := failover_count g + 1,
                      last_failover_ms := now\<rparr>
           in ((True, ReplicaPromoted new_leader target, True),
               e\<lparr>failover_groups := hm_insert target g' (failover_groups e)\<rparr>))
      | None \<Rightarrow> ((False, NoGroup target, False), e))"

definition healing_effect :: "self_healing_action \<Rightarrow> u64 \<Rightarrow> string \<Rightarrow> resilience_engine \<Rightarrow>
    (bool \<times> healing_result \<times> bool) \<times> resilience_engine" where
  "healing_effect action now target e =
     (case action of
        ClearCircuitBreaker \<Rightarrow> heal_breaker BreakerReset target e
      | PromoteReplica \<Rightarrow> promote_replica now target e
      | RestartNode \<Rightarrow> ((True, NodeRestartedSimulated target, False), e)
      | ScaleResources \<Rightarrow> ((True, ResourcesScaledSimulated target, False), e)
      | ReinitializeComponent \<Rightarrow> heal_breaker ComponentReinitialized target e)"

definition execute_healing ::
  "(string \<Rightarrow> nat \<Rightarrow> tcp_outcome) \<Rightarrow> u64 \<times> u64 \<times> u64 \<Rightarrow> self_healing_action \<Rightarrow> string \<Rightarrow> resilience_engine \<Rightarrow>
   healing_report \<times> resilience_engine" where
  "execute_healing tcp clock action target e =
     (let (started, now, completed) = clock;
          (healthy, check) = try_health_check tcp target 3000
      in if action = ClearCircuitBreaker \<and> \<not> healthy
         then (\<lparr>hr_action = action, hr_target = target, initiated_ms = started, hr_success = False,
                duration_ms = saturating_sub completed started, hr_result = ProbeFailed check\<rparr>, e)
         else
           (let ((success, result, real_effect), e) = healing_effect action now target e;
                e = (if real_effect then e\<lparr>healing_actions_taken := healing_actions_taken e + 1\<rparr>
                     else if success then e\<lparr>healing_actions_simulated := healing_actions_simulated e + 1\<rparr>
                     else e)
            in (\<lparr>hr_action = action, hr_target = target, initiated_ms = started, hr_success = success,
                 duration_ms = saturating_sub completed started, hr_result = result\<rparr>, e)))"

section \<open>Health check cycle\<close>

fun probe_all :: "u64 \<Rightarrow> string list \<Rightarrow> resilience_engine \<Rightarrow> resilience_engine" where
  "probe_all now [] e = e"
| "probe_all now (n # ns) e = probe_all now ns (snd (probe now n e))"

fun heal_all :: "(string \<Rightarrow> nat \<Rightarrow> tcp_outcome) \<Rightarrow> (string \<Rightarrow> u64 \<times> u64 \<times> u64) \<Rightarrow> string list \<Rightarrow>
    resilience_engine \<Rightarrow> resilience_engine" where
  "heal_all tcp clock [] e = e"
| "heal_all tcp clock (n # ns) e =
     heal_all tcp clock ns (snd (execute_healing tcp (clock n) ClearCircuitBreaker n e))"

definition update_metrics :: "resilience_engine \<Rightarrow> resilience_engine" where
  "update_metrics e =
     (let all = length (circuit_breakers e); opn = open_entries e;
          (latency_sum, latency_services) = foldl (\<lambda>(sum, n) (name, h).
             if (case hm_get (counters e) name of None \<Rightarrow> False | Some c \<Rightarrow> total_requests c > 0)
             then (sum + avg_latency_ms h, n + 1) else (sum, n)) (0, 0 :: nat) (healths e)
      in e\<lparr>metrics := \<lparr>
           tm_avg_latency_ms = (if latency_services > 0 then latency_sum / of_nat latency_services else 0),
           tm_error_rate = (if all > 0 then of_nat opn / of_nat all else 0)\<rparr>\<rparr>)"

definition needs_healing :: "degradation_level \<Rightarrow> bool" where
  "needs_healing l = (l = Constrained \<or> l = Emergency)"

definition health_check_cycle ::
  "string iter_order \<Rightarrow> string iter_order \<Rightarrow> (string \<Rightarrow> nat \<Rightarrow> tcp_outcome) \<Rightarrow> u64 \<Rightarrow>
   (string \<Rightarrow> u64 \<times> u64 \<times> u64) \<Rightarrow> resilience_engine \<Rightarrow> resilience_engine" where
  "health_check_cycle ord healing_order tcp now clock e =
     (let breaker_names = hm_keys ord (circuit_breakers e);
          e = probe_all now breaker_names e;
          health = system_health now e;
          e = update_metrics e
      in if needs_healing (shs_level health) \<and> self_healing_enabled (config e)
         then heal_all tcp clock
                (healing_order (filter (\<lambda>n. case hm_get (circuit_breakers e) n of
                   None \<Rightarrow> False | Some cb \<Rightarrow> cb_state cb = CsOpen) breaker_names)) e
         else e)"

section \<open>Runs\<close>

inductive engine_step :: "resilience_engine \<Rightarrow> resilience_engine \<Rightarrow> bool" where
  es_register_breaker: "register_circuit_breaker n th rec e = (r, e') \<Longrightarrow> engine_step e e'"
| es_register_service: "engine_step e (register_service now n e)"
| es_outcome: "engine_step e (record_outcome now n b l e)"
| es_failure: "record_failure_with_mode now n m e = (r', e') \<Longrightarrow> engine_step e e'"
| es_success: "record_success now n e = (r, e') \<Longrightarrow> engine_step e e'"
| es_available: "is_available now n e = (b, e') \<Longrightarrow> engine_step e e'"
| es_recover: "recover_services ord now no e = (ns, e') \<Longrightarrow> engine_step e e'"
| es_group: "register_failover_group g pn rs e = (r, e') \<Longrightarrow> engine_step e e'"
| es_failover: "trigger_failover now g e = (rg, e') \<Longrightarrow> engine_step e e'"
| es_execution: "engine_step e (record_execution now n b e)"
| es_healing: "execute_healing tcp clock a n e = (rep, e') \<Longrightarrow> engine_step e e'"
| es_cycle: "engine_step e (health_check_cycle ord ho tcp now clocks e)"

definition health_inv :: "resilience_engine \<Rightarrow> bool" where
  "health_inv e \<longleftrightarrow> (\<forall>n h. hm_get (healths e) n = Some h \<longrightarrow> sh_status h \<noteq> HsDegraded)"

section \<open>Facts\<close>

lemma of_u64_pos: "0 < w \<Longrightarrow> 0 < of_u64 w"
  unfolding of_u64_def by (metis of_nat_0_less_iff unat_gt_0 word_neq_0_conv)

lemma of_u64_nonneg: "0 \<le> of_u64 w"
  unfolding of_u64_def by (rule of_nat_0_le_iff)

lemma of_u64_diff: "s \<le> t \<Longrightarrow> of_u64 (t - s) = of_u64 t - of_u64 s"
  unfolding of_u64_def by (metis of_nat_diff unat_sub word_le_nat_alt)

lemma of_u64_le: "s \<le> t \<Longrightarrow> of_u64 s \<le> of_u64 t"
  unfolding of_u64_def by (metis of_nat_le_iff word_le_nat_alt)

lemma ratio_complement:
  assumes "t \<noteq> 0"
  shows "1 \<le> of_u64 s / of_u64 t + of_u64 (if s \<le> t then t - s else 0) / of_u64 t"
proof -
  have t: "0 < of_u64 t" using assms by (simp add: of_u64_pos word_neq_0_conv)
  have "of_u64 t \<le> of_u64 s + of_u64 (if s \<le> t then t - s else 0)"
    using of_u64_diff[of s t] of_u64_le[of t s] of_u64_nonneg[of 0]
    by (cases "s \<le> t") (simp_all add: add_increasing2)
  with t show ?thesis by (simp add: add_divide_distrib [symmetric])
qed

lemma rates_sum:
  assumes "rates th c = (sr, er)"
  shows "1 \<le> sr + er"
proof -
  define er0 where "er0 = (if total_requests c = 0 then 0
      else of_u64 (if successful_requests c \<le> total_requests c
        then total_requests c - successful_requests c else 0) / of_u64 (total_requests c))"
  have er: "er0 \<le> er" and sr: "sr = (if total_requests c = 0 then 1
      else of_u64 (successful_requests c) / of_u64 (total_requests c))"
    using assms by (auto simp: rates_def Let_def er0_def)
  have "1 \<le> sr + er0"
  proof (cases "total_requests c = 0")
    case False
    then show ?thesis by (simp add: sr er0_def ratio_complement)
  qed (simp add: sr er0_def)
  with er show ?thesis by linarith
qed

lemma status_not_degraded: "rates th c = (sr, er) \<Longrightarrow> health_status_of er sr \<noteq> HsDegraded"
  using rates_sum[of th c sr er] by (auto simp: health_status_of_def)

lemma record_service_outcome_health:
  assumes "health_inv e"
  shows "health_inv (record_service_outcome now n b l e)"
proof -
  obtain sr er where r: "rates (circuit_breaker_threshold (config e)) (count_outcome b
      (case hm_get (counters e) n of None \<Rightarrow> counters_default | Some c \<Rightarrow> c)) = (sr, er)" by fastforce
  show ?thesis
    using assms status_not_degraded[OF r] by (auto simp: record_service_outcome_def Let_def r health_inv_def)
qed

lemma recover_service_health: "health_inv e \<Longrightarrow> health_inv (snd (recover_service now n e))"
  by (auto simp: recover_service_def health_inv_def Let_def split: option.splits)

lemma recover_loop_health: "health_inv e \<Longrightarrow> health_inv (snd (recover_loop now ns e))"
proof (induction ns arbitrary: e)
  case (Cons n ns)
  obtain b e1 where r: "recover_service now n e = (b, e1)" by fastforce
  then have "health_inv e1" using recover_service_health[OF Cons.prems, of now n] by simp
  moreover obtain ms e2 where "recover_loop now ns e1 = (ms, e2)" by fastforce
  ultimately show ?case using Cons.IH[of e1] by (simp add: r)
qed simp

lemma health_inv_cong: "healths e' = healths e \<Longrightarrow> health_inv e' = health_inv e"
  by (simp add: health_inv_def)

lemma health_inv_breakers: "health_inv (e\<lparr>circuit_breakers := bs\<rparr>) = health_inv e"
  by (simp add: health_inv_def)

lemma healing_effect_healths [simp]: "healths (snd (healing_effect a now n e)) = healths e"
  by (cases a) (auto simp: healing_effect_def heal_breaker_def promote_replica_def Let_def split: option.splits)

lemma execute_healing_healths [simp]: "healths (snd (execute_healing tcp clock a n e)) = healths e"
  using healing_effect_healths[of a "fst (snd clock)" n e]
  by (auto simp: execute_healing_def Let_def simp del: healing_effect_healths split: prod.splits)

lemma is_available_healths [simp]: "healths (snd (is_available now n e)) = healths e"
  by (auto simp: is_available_def split: option.splits circuit_state.splits)

lemma probe_all_healths [simp]: "healths (probe_all now ns e) = healths e"
  by (induction ns arbitrary: e) (simp_all add: probe_def)

lemma heal_all_healths [simp]: "healths (heal_all tcp clock ns e) = healths e"
  by (induction ns arbitrary: e) simp_all

lemma update_metrics_fields [simp]:
  "healths (update_metrics e) = healths e" "circuit_breakers (update_metrics e) = circuit_breakers e"
  "config (update_metrics e) = config e"
  by (simp_all add: update_metrics_def Let_def split: prod.splits)

lemma cycle_healths [simp]: "healths (health_check_cycle ord ho tcp now clocks e) = healths e"
  by (simp add: health_check_cycle_def Let_def)

interpretation engine_sys: invariant_system engine_step health_inv
proof
  fix e e'
  assume inv: "health_inv e" and "engine_step e e'"
  from this(2) show "health_inv e'"
  proof cases
    case (es_register_service now n)
    then show ?thesis
      using inv by (auto simp: health_inv_def register_service_def or_insert_def health_new_def split: option.splits if_splits)
  next
    case (es_outcome now n b l)
    then show ?thesis
      using record_service_outcome_health[OF inv, of now n b "Some l"]
      by (simp add: record_outcome_def Let_def health_inv_def)
  next
    case (es_execution now n b)
    then show ?thesis
      by (simp add: record_execution_def Let_def record_service_outcome_health health_inv_breakers inv)
  next
    case (es_available now n b)
    then show ?thesis using inv is_available_healths[of now n e] by (simp add: health_inv_def)
  next
    case (es_healing tcp clock a n rep)
    then show ?thesis using inv execute_healing_healths[of tcp clock a n e] by (simp add: health_inv_def)
  next
    case es_cycle
    then show ?thesis using inv by (simp add: health_inv_def)
  next
    case (es_recover ord now no ns)
    define names where "names = (case no of Some n \<Rightarrow> [n] | None \<Rightarrow> hm_keys ord (healths e))"
    obtain ms e2 where "recover_loop now names e = (ms, e2)" by fastforce
    then show ?thesis
      using es_recover recover_loop_health[OF inv, of now names]
      by (simp add: recover_services_def Let_def names_def)
  qed (use inv in \<open>auto simp: health_inv_def register_circuit_breaker_def record_failure_with_mode_def record_success_def
      register_failover_group_def trigger_failover_def Let_def split: option.splits if_splits\<close>)
qed

lemma index_of_Some: "index_of x xs = Some i \<Longrightarrow> i < length xs \<and> xs ! i = x"
  by (induction xs arbitrary: i) (auto split: if_splits)

lemma index_of_None: "index_of x xs = None \<longleftrightarrow> x \<notin> set xs"
  by (induction xs) auto

lemma index_of_nth: "distinct xs \<Longrightarrow> i < length xs \<Longrightarrow> index_of (xs ! i) xs = Some i"
  by (metis index_of_None index_of_Some nth_eq_iff_index_eq nth_mem option.exhaust)

section \<open>Breakers driven by outcomes\<close>

type_synonym outcome_event = "u64 \<times> string \<times> bool \<times> u64"

definition feed :: "outcome_event \<Rightarrow> resilience_engine \<Rightarrow> resilience_engine" where
  "feed ev e = (case ev of (now, n, b, l) \<Rightarrow> record_outcome now n b l e)"

definition outcomes_of :: "string \<Rightarrow> outcome_event list \<Rightarrow> bool list" where
  "outcomes_of n evs = map (fst \<circ> snd \<circ> snd) (filter (\<lambda>ev. fst (snd ev) = n) evs)"

lemma record_service_outcome_fields [simp]:
  "circuit_breakers (record_service_outcome now n b l e) = circuit_breakers e"
  "config (record_service_outcome now n b l e) = config e"
  by (simp_all add: record_service_outcome_def Let_def split: prod.splits)

lemma feed_config [simp]: "config (feed ev e) = config e"
  by (cases ev) (simp add: feed_def record_outcome_def Let_def)

lemma config_fold_feed [simp]: "config (fold feed evs e) = config e"
  by (induction evs arbitrary: e) simp_all

lemma feed_breakers:
  "hm_get (circuit_breakers (feed (now, m, b, l) e)) =
     (hm_get (circuit_breakers e))(m \<mapsto> apply_breaker_outcome
       (case hm_get (circuit_breakers e) m of
          None \<Rightarrow> breaker_new m (circuit_breaker_threshold (config e)) (cfg_recovery_timeout_ms (config e))
        | Some cb \<Rightarrow> cb) b now)"
  by (simp add: feed_def record_outcome_def Let_def fun_eq_iff)

lemma fold_feed_tracks:
  fixes t0 :: u64 and c :: resilience_config
  defines "final evs \<equiv> fold feed evs (engine_new t0 c)"
  shows "case hm_get (circuit_breakers (final evs)) n of
           None \<Rightarrow> outcomes_of n evs = []
         | Some cb \<Rightarrow> breaker_tracks (circuit_breaker_threshold c) (outcomes_of n evs) cb"
proof (induction evs rule: rev_induct)
  case Nil
  then show ?case by (simp add: final_def engine_new_def outcomes_of_def)
next
  case (snoc ev evs)
  obtain now m b l where ev: "ev = (now, m, b, l)" by (cases ev)
  have c: "config (final evs) = c" by (simp add: final_def engine_new_def)
  have f: "final (evs @ [ev]) = feed ev (final evs)" by (simp add: final_def)
  show ?case
  proof (cases "m = n")
    case True
    then have o: "outcomes_of n (evs @ [ev]) = outcomes_of n evs @ [b]" by (simp add: outcomes_of_def ev)
    show ?thesis
    proof (cases "hm_get (circuit_breakers (final evs)) n")
      case None
      then show ?thesis
        using snoc.IH True apply_breaker_outcome_tracks[OF breaker_new_tracks, of _ b]
        unfolding o f by (simp add: ev feed_breakers c)
    next
      case (Some cb)
      then show ?thesis
        using snoc.IH True unfolding o f by (simp add: ev feed_breakers c apply_breaker_outcome_tracks)
    qed
  next
    case False
    then have o: "outcomes_of n (evs @ [ev]) = outcomes_of n evs" by (simp add: outcomes_of_def ev)
    show ?thesis using snoc.IH False unfolding o f by (simp add: ev feed_breakers)
  qed
qed

text \<open>C7: Start from a new engine and let any sequence of outcomes of any services arrive. The breaker of a
  service is open exactly when the outcomes of that service, those of the others left out, contain as
  many failures in a row as the threshold (one when the threshold is zero), and closed otherwise;
  no counter wraps around on the way.\<close>

theorem breaker_opens_on_streak:
  "breaker_state n (fold feed evs (engine_new t0 c)) =
     (if has_streak (streak_bound (circuit_breaker_threshold c)) (outcomes_of n evs) then CsOpen else CsClosed)"
  using fold_feed_tracks[where ?t0.0 = t0 and c = c and evs = evs and n = n]
    has_streak_Nil[of "circuit_breaker_threshold c"]
  by (auto simp: breaker_state_def breaker_tracks_def split: option.splits if_splits)

text \<open>An open breaker refuses every request before its last failure plus its recovery timeout, without
  any change, and a success reported in that state changes nothing. From that time on it admits the request and is half
  open; then one success closes it with a failure count of zero, and one failure opens it again, with
  the waiting time counted from that failure.\<close>

theorem breaker_recovery_protocol:
  assumes "hm_get (circuit_breakers e) n = Some cb" and "cb_state cb = CsOpen"
    and "unat (last_failure_ms cb) + unat (recovery_timeout_ms cb) < 2 ^ 64"
  shows "breaker_state n (snd (record_success t n e)) = CsOpen \<and>
    (if unat now < unat (last_failure_ms cb) + unat (recovery_timeout_ms cb)
     then is_available now n e = (False, e)
     else (let e1 = snd (is_available now n e); e2 = snd (record_success t n e1);
               e3 = snd (record_failure t n e1); cb3 = the (hm_get (circuit_breakers e3) n)
           in fst (is_available now n e) \<and> breaker_state n e1 = CsHalfOpen \<and> is_available t n e1 = (True, e1) \<and>
              breaker_state n e2 = CsClosed \<and> failure_count (the (hm_get (circuit_breakers e2) n)) = 0 \<and>
              breaker_state n e3 = CsOpen \<and> last_failure_ms cb3 = t \<and> recovery_timeout_ms cb3 = recovery_timeout_ms cb))"
proof -
  have "unat (last_failure_ms cb + recovery_timeout_ms cb) =
      unat (last_failure_ms cb) + unat (recovery_timeout_ms cb)"
    using assms(3) by (simp add: unat_word_ariths(1))
  then have "is_available now n e =
      (if unat now < unat (last_failure_ms cb) + unat (recovery_timeout_ms cb) then (False, e)
       else (True, e\<lparr>circuit_breakers :=
         hm_insert n (cb\<lparr>cb_state := CsHalfOpen, last_state_change_ms := now\<rparr>) (circuit_breakers e)\<rparr>))"
    using assms(1,2) by (simp add: is_available_def word_le_nat_alt)
  moreover have "breaker_state n (snd (record_success t n e)) = CsOpen"
    using assms(1,2) by (simp add: record_success_def breaker_state_def transition_breaker_def)
  ultimately show ?thesis
    by (simp add: is_available_def breaker_state_def record_success_def record_failure_def push_history_def
        record_failure_with_mode_def transition_breaker_def reset_breaker_def Let_def)
qed

text \<open>A breaker with threshold 1 that failed at time 1000 and waits for 500 milliseconds.\<close>

definition tripped_engine :: resilience_engine where
  "tripped_engine = snd (record_failure 1000 ''db'' (snd (register_circuit_breaker ''db'' 1 500
     (engine_new 0 config_default))))"

lemma breaker_recovery_protocol_witness:
  "is_available 1499 ''db'' tripped_engine = (False, tripped_engine) \<and>
   breaker_state ''db'' (snd (is_available 1500 ''db'' tripped_engine)) = CsHalfOpen"
proof -
  let ?cb = "the (hm_get (circuit_breakers tripped_engine) ''db'')"
  have h: "hm_get (circuit_breakers tripped_engine) ''db'' = Some ?cb" "cb_state ?cb = CsOpen"
    "last_failure_ms ?cb = 1000" "recovery_timeout_ms ?cb = 500"
    by (simp_all add: tripped_engine_def engine_new_def register_circuit_breaker_def record_failure_def
        record_failure_with_mode_def push_history_def transition_breaker_def breaker_new_def Let_def)
  have "unat (last_failure_ms ?cb) + unat (recovery_timeout_ms ?cb) < 2 ^ 64" by (simp add: h(3,4))
  from breaker_recovery_protocol[OF h(1,2) this, of 0 1499] breaker_recovery_protocol[OF h(1,2) this, of 0 1500]
  show ?thesis by (simp add: h(3,4) Let_def)
qed

section \<open>What a health check cycle does to the breakers\<close>

definition probed :: "u64 \<Rightarrow> circuit_breaker \<Rightarrow> circuit_breaker" where
  "probed now cb =
     (if cb_state cb = CsOpen \<and> last_failure_ms cb + recovery_timeout_ms cb \<le> now
      then cb\<lparr>cb_state := CsHalfOpen, last_state_change_ms := now\<rparr> else cb)"

definition reachable_target :: "(string \<Rightarrow> nat \<Rightarrow> tcp_outcome) \<Rightarrow> string \<Rightarrow> bool" where
  "reachable_target tcp n = fst (try_health_check tcp n 3000)"

lemma probed_idem [simp]: "probed now (probed now cb) = probed now cb"
  by (simp add: probed_def)

lemma reset_breaker_idem [simp]: "reset_breaker (reset_breaker cb) = reset_breaker cb"
  by (simp add: reset_breaker_def)

lemma probe_breakers:
  "hm_get (circuit_breakers (snd (probe now m e))) =
     (hm_get (circuit_breakers e))(m := map_option (probed now) (hm_get (circuit_breakers e) m))"
  by (auto simp: probe_def is_available_def probed_def fun_eq_iff split: option.splits circuit_state.splits)

lemma probe_all_breakers:
  "hm_get (circuit_breakers (probe_all now ns e)) n =
     (if n \<in> set ns then map_option (probed now) (hm_get (circuit_breakers e) n)
      else hm_get (circuit_breakers e) n)"
  by (induction ns arbitrary: e) (auto simp: probe_breakers option.map_comp o_def)

lemma is_available_config [simp]: "config (snd (is_available now n e)) = config e"
  by (auto simp: is_available_def split: option.splits circuit_state.splits)

lemma probe_all_config [simp]: "config (probe_all now ns e) = config e"
  by (induction ns arbitrary: e) (simp_all add: probe_def)

lemma clear_breaker_eq:
  "snd (execute_healing tcp clock ClearCircuitBreaker m e) =
     (if reachable_target tcp m \<and> m \<in> dom (hm_get (circuit_breakers e))
      then e\<lparr>circuit_breakers := hm_insert m (reset_breaker (the (hm_get (circuit_breakers e) m))) (circuit_breakers e),
             healing_actions_taken := healing_actions_taken e + 1\<rparr>
      else e)"
  by (auto simp: execute_healing_def reachable_target_def healing_effect_def heal_breaker_def Let_def
      split: prod.splits option.splits)

lemma heal_all_breakers:
  "hm_get (circuit_breakers (heal_all tcp clock ns e)) n =
     (if n \<in> set ns \<and> reachable_target tcp n then map_option reset_breaker (hm_get (circuit_breakers e) n)
      else hm_get (circuit_breakers e) n)"
proof (induction ns arbitrary: e)
  case (Cons m ns)
  show ?case
    by (cases "hm_get (circuit_breakers e) n"; cases "m = n") (auto simp: Cons.IH clear_breaker_eq)
qed simp

definition mostly_open :: "resilience_engine \<Rightarrow> bool" where
  "mostly_open e = (length (circuit_breakers e) < 3 * open_entries e)"

lemma needs_healing_iff: "needs_healing (degradation_from_counts opn all f) \<longleftrightarrow> all < 3 * opn"
  by (auto simp: needs_healing_def degradation_from_counts_def)

lemma system_health_level: "needs_healing (shs_level (system_health now e)) = mostly_open e"
  by (simp add: system_health_def Let_def needs_healing_iff mostly_open_def)

text \<open>C12: In a health check cycle an open breaker whose waiting time is over becomes half open; one that stays
  open is reset only if healing is enabled, more than a third of the breakers are open after that
  probing, and its name is an address that accepts a connection. Every other breaker is unchanged, so
  no cycle closes the breaker of a target that cannot be reached.\<close>

theorem cycle_heals_exactly:
  assumes "valid_order ord" and "valid_order healing_order"
  shows "hm_get (circuit_breakers (health_check_cycle ord healing_order tcp now clock e)) n =
    map_option (\<lambda>cb. let cb' = probed now cb in
        if cb_state cb' = CsOpen \<and> mostly_open (probe_all now (hm_keys ord (circuit_breakers e)) e) \<and>
           self_healing_enabled (config e) \<and> reachable_target tcp n
        then reset_breaker cb' else cb')
      (hm_get (circuit_breakers e) n)"
proof (cases "hm_get (circuit_breakers e) n")
  case None
  then show ?thesis
    by (simp add: health_check_cycle_def Let_def heal_all_breakers probe_all_breakers)
next
  case (Some cb)
  then have "n \<in> dom (hm_get (circuit_breakers e))" by blast
  with Some assms(1,2) show ?thesis
    by (simp add: health_check_cycle_def Let_def heal_all_breakers probe_all_breakers system_health_level)
qed

text \<open>Two open breakers, one of them named by an address that accepts connections.\<close>

definition two_open :: resilience_engine where
  "two_open = snd (record_failure 20 ''host:80'' (snd (record_failure 10 ''db''
     (snd (register_circuit_breaker ''host:80'' 1 500 (snd (register_circuit_breaker ''db'' 1 500
       (engine_new 0 config_default))))))))"

lemma two_open_breakers:
  "circuit_breakers two_open =
     [(''db'', \<lparr>cb_name = ''db'', cb_state = CsOpen, failure_count = 1, threshold = 1, recovery_timeout_ms = 500,
        last_failure_ms = 10, last_state_change_ms = 10, last_failure_mode = Some ResourceExhaustion,
        failure_history = [ResourceExhaustion]\<rparr>),
      (''host:80'', \<lparr>cb_name = ''host:80'', cb_state = CsOpen, failure_count = 1, threshold = 1,
        recovery_timeout_ms = 500, last_failure_ms = 20, last_state_change_ms = 20,
        last_failure_mode = Some ResourceExhaustion, failure_history = [ResourceExhaustion]\<rparr>)]"
  by (simp add: two_open_def engine_new_def register_circuit_breaker_def record_failure_def hm_insert_def hm_contains_def
      record_failure_with_mode_def push_history_def transition_breaker_def breaker_new_def Let_def)

lemma two_open_config: "config two_open = config_default"
  by (simp add: two_open_def engine_new_def register_circuit_breaker_def record_failure_def
      record_failure_with_mode_def Let_def split: option.splits)

lemma two_open_probe: "snd (probe 100 ''db'' two_open) = two_open" "snd (probe 100 ''host:80'' two_open) = two_open"
  by (simp_all add: probe_def is_available_def two_open_breakers)

lemma cycle_heals_exactly_witness:
  "map_option cb_state (hm_get (circuit_breakers (health_check_cycle (\<lambda>xs. xs) rev
     (\<lambda>h p. TcpConnected) 100 (\<lambda>_. (0, 0, 0)) two_open)) ''host:80'') = Some CsClosed \<and>
   map_option cb_state (hm_get (circuit_breakers (health_check_cycle (\<lambda>xs. xs) rev
     (\<lambda>h p. TcpConnected) 100 (\<lambda>_. (0, 0, 0)) two_open)) ''db'') = Some CsOpen"
proof -
  have "reachable_target (\<lambda>h p. TcpConnected) ''host:80''" "\<not> reachable_target (\<lambda>h p. TcpConnected) ''db''"
    by (simp_all add: reachable_target_def try_health_check_def parse_u16_def is_digit_def)
  then show ?thesis
    unfolding cycle_heals_exactly[OF valid_order_id valid_order_rev]
    by (simp add: two_open_breakers two_open_config two_open_probe hm_keys_def probed_def mostly_open_def
        open_entries_def config_default_def reset_breaker_def Let_def)
qed

section \<open>Health status\<close>

text \<open>No service is ever reported as degraded: whatever operations run on a new engine, the status
  of every service is healthy or unhealthy and its degradation level is never the level Degraded. A success rate
  below the threshold of that status always comes with an error rate above the threshold of the
  status unhealthy, which is tested first.\<close>

theorem engine_never_degraded:
  assumes "engine_step\<^sup>*\<^sup>* (engine_new t0 c) e"
  shows "(case hm_get (healths e) n of None \<Rightarrow> True | Some h \<Rightarrow> sh_status h \<noteq> HsDegraded) \<and>
    engine_degradation_level n e \<noteq> Degraded"
proof -
  have "health_inv (engine_new t0 c)" by (simp add: health_inv_def engine_new_def)
  with assms have "health_inv e" by (rule engine_sys.run_inv)
  then show ?thesis
    by (auto simp: health_inv_def engine_degradation_level_def split: option.splits health_status.splits)
qed

lemma engine_never_degraded_witness:
  "engine_degradation_level ''db'' (record_outcome 5 ''db'' False 1 (engine_new 0 config_default)) \<noteq> Degraded \<and>
   engine_degradation_level ''db'' (record_outcome 5 ''db'' False 1 (engine_new 0 config_default)) = Emergency"
proof -
  have "engine_step\<^sup>*\<^sup>* (engine_new 0 config_default) (record_outcome 5 ''db'' False 1 (engine_new 0 config_default))"
    by (rule r_into_rtranclp) (rule engine_step.es_outcome)
  from engine_never_degraded[OF this, of "''db''"] show ?thesis
    by (simp add: engine_degradation_level_def record_outcome_def record_service_outcome_def rates_def count_outcome_def
        counters_default_def engine_new_def config_default_def Let_def health_status_of_def of_u64_def)
qed

section \<open>Failover\<close>

fun failovers :: "u64 list \<Rightarrow> string \<Rightarrow> resilience_engine \<Rightarrow> resilience_engine" where
  "failovers [] g e = e"
| "failovers (t # ts) g e = failovers ts g (snd (trigger_failover t g e))"

lemma trigger_failover_groups:
  "hm_get (failover_groups e) g = Some grp \<Longrightarrow>
   \<exists>grp'. hm_get (failover_groups (snd (trigger_failover t g e))) g = Some grp' \<and>
     fst (trigger_failover t g e) = Inr (next_replica grp) \<and> current_leader grp' = next_replica grp \<and>
     replica_nodes grp' = replica_nodes grp \<and> primary_node grp' = primary_node grp \<and>
     failover_count grp' = failover_count grp + 1"
  by (simp add: trigger_failover_def Let_def)

lemma next_replica_step:
  assumes "distinct (replica_nodes grp)" and "replica_nodes grp \<noteq> []"
    and "current_leader grp = replica_nodes grp ! (k mod length (replica_nodes grp))"
  shows "next_replica grp = replica_nodes grp ! (Suc k mod length (replica_nodes grp))"
proof -
  let ?n = "length (replica_nodes grp)"
  have "k mod ?n < ?n" using assms(2) by simp
  then have "index_of (current_leader grp) (replica_nodes grp) = Some (k mod ?n)"
    using assms(1,3) index_of_nth by auto
  then show ?thesis by (simp add: next_replica_def mod_Suc_eq)
qed

lemma failovers_rotate:
  assumes "hm_get (failover_groups e) g = Some grp" and "distinct (replica_nodes grp)" and "replica_nodes grp \<noteq> []"
    and "current_leader grp = replica_nodes grp ! (k mod length (replica_nodes grp))"
  shows "\<exists>grp'. hm_get (failover_groups (failovers ts g e)) g = Some grp' \<and> replica_nodes grp' = replica_nodes grp \<and>
    current_leader grp' = replica_nodes grp ! ((k + length ts) mod length (replica_nodes grp)) \<and>
    failover_count grp' = failover_count grp + of_nat (length ts)"
  using assms
proof (induction ts arbitrary: e grp k)
  case (Cons t ts)
  obtain grp1 where g1: "hm_get (failover_groups (snd (trigger_failover t g e))) g = Some grp1"
    and l1: "current_leader grp1 = next_replica grp" "replica_nodes grp1 = replica_nodes grp"
      "failover_count grp1 = failover_count grp + 1"
    using trigger_failover_groups[OF Cons.prems(1), of t] by blast
  have "current_leader grp1 = replica_nodes grp1 ! (Suc k mod length (replica_nodes grp1))"
    using next_replica_step[OF Cons.prems(2-4)] l1 by simp
  with Cons.IH[OF g1, of "Suc k"] Cons.prems(2,3) l1(2,3) show ?case by (simp add: algebra_simps)
qed auto

text \<open>For a failover group registered with distinct replicas, the primary not among them, failovers
  promote the replicas in turn: after the first the leader is replica 0, after the next replica 1, and so on
  around the list. The primary never leads again, and each failover is counted.\<close>

theorem failover_rotation:
  assumes "g \<notin> dom (hm_get (failover_groups e))" and "replicas \<noteq> []"
    and "distinct replicas" and "primary \<notin> set replicas"
  shows "\<exists>grp. hm_get (failover_groups (failovers (t # ts) g (snd (register_failover_group g primary replicas e)))) g = Some grp \<and>
    current_leader grp = replicas ! (length ts mod length replicas) \<and> current_leader grp \<noteq> primary \<and>
    failover_count grp = of_nat (length (t # ts))"
proof -
  obtain e0 grp0 where e0: "register_failover_group g primary replicas e = (Inr (), e0)"
    and g0: "hm_get (failover_groups e0) g = Some grp0" "replica_nodes grp0 = replicas"
      "current_leader grp0 = primary" "failover_count grp0 = 0"
    using assms(1,2) by (auto simp: register_failover_group_def)
  have n0: "next_replica grp0 = replicas ! 0"
    using g0 assms(4) index_of_None[of primary replicas] by (simp add: next_replica_def)
  obtain grp1 where g1: "hm_get (failover_groups (snd (trigger_failover t g e0))) g = Some grp1"
    and l1: "current_leader grp1 = replicas ! (0 mod length replicas)" "replica_nodes grp1 = replicas"
      "failover_count grp1 = 1"
    using trigger_failover_groups[OF g0(1), of t] g0 n0 by auto
  have "replicas ! (length ts mod length replicas) \<in> set replicas" using assms(2) by simp
  with failovers_rotate[OF g1, of 0 ts] l1 assms(2-4) show ?thesis
    by (auto simp: e0)
qed

lemma failover_rotation_witness:
  "\<exists>grp. hm_get (failover_groups (failovers [1, 2, 3] ''g''
      (snd (register_failover_group ''g'' ''a'' [''b'', ''c''] (engine_new 0 config_default))))) ''g'' = Some grp \<and>
    current_leader grp = ''b'' \<and> current_leader grp \<noteq> ''a'' \<and> failover_count grp = 3"
  using failover_rotation[of "''g''" "engine_new 0 config_default" "[''b'', ''c'']" "''a''" 1 "[2, 3]"]
  by (simp add: engine_new_def)

section \<open>The two health views\<close>

text \<open>The degradation level of the profile leaves failovers out: it agrees with the level of the system
  health whenever a breaker is open or no group has failed over, but with all breakers closed and a group that failed over the system
  health is degraded and the profile reports a normal system.\<close>

theorem profile_ignores_failovers:
  "rp_system_health (engine_profile t e) = shs_level (system_health t' e) \<longleftrightarrow>
     \<not> (open_circuits (system_health t' e) = 0 \<and> active_failovers (system_health t' e) > 0)"
  by (auto simp: engine_profile_def system_health_def Let_def degradation_from_counts_def)

end
