(* ===== verification/FileDiff.thy ===== *)
theory FileDiff
  imports TextOps "HOL-Library.Sublist"
begin

text \<open>
  The built-in line diff of \<open>src/orchestration/tool/extended/diff.rs\<close>: the table of longest common
  subsequences, the backtracking loop that reads an edit script off it, the grouping of the script
  into hunks and the printed output. The table is filled in place as in the code and shown equal to
  the recursive definition; the script turns one file into the other with as few edits as possible.
  Indices and counts are bounded by the number of lines, at most 5000, so they are natural numbers.
\<close>

section \<open>The table\<close>

definition max_builtin_diff_lines :: nat where
  "max_builtin_diff_lines = 5000"

definition dp_cell :: "string list \<Rightarrow> string list \<Rightarrow> nat list list \<Rightarrow> nat \<Rightarrow> nat \<Rightarrow> nat" where
  "dp_cell a b dp i j =
     (if a ! (i - 1) = b ! (j - 1) then dp ! (i - 1) ! (j - 1) + 1
      else max (dp ! (i - 1) ! j) (dp ! i ! (j - 1)))"

definition dp_set :: "nat list list \<Rightarrow> nat \<Rightarrow> nat \<Rightarrow> nat \<Rightarrow> nat list list" where
  "dp_set dp i j v = dp[i := (dp ! i)[j := v]]"

definition fill_row :: "string list \<Rightarrow> string list \<Rightarrow> nat \<Rightarrow> nat list list \<Rightarrow> nat list list" where
  "fill_row a b i dp = fold (\<lambda>j dp. dp_set dp i j (dp_cell a b dp i j)) [1..<length b + 1] dp"

definition lcs_table :: "string list \<Rightarrow> string list \<Rightarrow> nat list list" where
  "lcs_table a b =
     fold (fill_row a b) [1..<length a + 1] (replicate (length a + 1) (replicate (length b + 1) 0))"

section \<open>The edit script\<close>

datatype op = Keep | Delete | Insert

definition usize_max :: nat where
  "usize_max = 2 ^ 64 - 1"

text \<open>The loop that walks back from the end of both files, in the order of its pushes.\<close>

function backtrack :: "string list \<Rightarrow> string list \<Rightarrow> nat list list \<Rightarrow> nat \<Rightarrow> nat \<Rightarrow> (op \<times> nat \<times> nat) list" where
  "backtrack a b dp i j =
     (if i = 0 \<and> j = 0 then []
      else if i > 0 \<and> j > 0 \<and> a ! (i - 1) = b ! (j - 1)
      then (Keep, i - 1, j - 1) # backtrack a b dp (i - 1) (j - 1)
      else if j > 0 \<and> (i = 0 \<or> dp ! i ! (j - 1) \<ge> dp ! (i - 1) ! j)
      then (Insert, usize_max, j - 1) # backtrack a b dp i (j - 1)
      else (Delete, i - 1, usize_max) # backtrack a b dp (i - 1) j)"
  by auto
termination by (relation "measure (\<lambda>(a, b, dp, i, j). i + j)") auto

declare backtrack.simps [simp del]

definition edit_ops :: "string list \<Rightarrow> string list \<Rightarrow> (op \<times> nat \<times> nat) list" where
  "edit_ops a b = rev (backtrack a b (lcs_table a b) (length a) (length b))"

section \<open>Hunks\<close>

type_synonym item = "nat \<times> op \<times> nat \<times> nat"

fun is_change :: "item \<Rightarrow> bool" where
  "is_change (_, Keep, _, _) = False"
| "is_change (_, Delete, _, _) = True"
| "is_change (_, Insert, _, _) = True"

record group_state =
  hunks :: "item list list"
  current_hunk :: "item list"
  in_change :: bool

definition flush_context :: "nat \<Rightarrow> group_state \<Rightarrow> group_state" where
  "flush_context context st =
     (if \<not> in_change st \<and> current_hunk st \<noteq> []
      then
        (let cur = current_hunk st; trim_start = length cur - context;
             kept = drop trim_start cur; cur = take trim_start cur;
             (kept, cur) = (if trim_start > 0
                            then (drop (trim_start - 1) cur @ kept, take (trim_start - 1) cur)
                            else (kept, cur))
         in st\<lparr>current_hunk := cur, hunks := (if kept \<noteq> [] then hunks st @ [kept] else hunks st)\<rparr>)
      else st)"

definition group_step :: "nat \<Rightarrow> item \<Rightarrow> group_state \<Rightarrow> group_state" where
  "group_step context x st =
     (if is_change x
      then (let st = flush_context context st
            in st\<lparr>in_change := True, current_hunk := current_hunk st @ [x]\<rparr>)
      else st\<lparr>in_change := False, current_hunk := current_hunk st @ [x]\<rparr>)"

definition group_hunks :: "nat \<Rightarrow> item list \<Rightarrow> item list list" where
  "group_hunks context items =
     (let st = fold (group_step context) items \<lparr>hunks = [], current_hunk = [], in_change = False\<rparr>
      in if current_hunk st \<noteq> [] then hunks st @ [current_hunk st] else hunks st)"

section \<open>Output\<close>

fun first_start :: "item \<Rightarrow> nat \<times> nat" where
  "first_start (_, Keep, ai, bj) =
     (if ai \<noteq> usize_max then ai + 1 else 1, if bj \<noteq> usize_max then bj + 1 else 1)"
| "first_start (_, Delete, ai, bj) = (if ai \<noteq> usize_max then ai + 1 else 1, 1)"
| "first_start (_, Insert, ai, bj) = (1, if bj \<noteq> usize_max then bj + 1 else 1)"

fun lower_a :: "item \<Rightarrow> nat \<Rightarrow> nat" where
  "lower_a (_, o', ai, _) s =
     (if (o' = Delete \<or> o' = Keep) \<and> ai \<noteq> usize_max \<and> ai + 1 < s then ai + 1 else s)"

fun lower_b :: "item \<Rightarrow> nat \<Rightarrow> nat" where
  "lower_b (_, o', _, bj) s =
     (if (o' = Insert \<or> o' = Keep) \<and> bj \<noteq> usize_max \<and> bj + 1 < s then bj + 1 else s)"

definition hunk_header :: "item list \<Rightarrow> string" where
  "hunk_header hunk =
     (let (a0, b0) = (case hunk of [] \<Rightarrow> (1, 1) | x # _ \<Rightarrow> first_start x);
          a1 = fold lower_a hunk a0; b1 = fold lower_b hunk b0;
          del_count = length (filter (\<lambda>x. fst (snd x) = Delete) hunk);
          ins_count = length (filter (\<lambda>x. fst (snd x) = Insert) hunk);
          context_before = length (takeWhile (\<lambda>x. fst (snd x) = Keep) hunk)
      in ''@@ -'' @ show_nat (a1 - context_before) @ '','' @ show_nat del_count @ '' +'' @
         show_nat (b1 - context_before) @ '','' @ show_nat ins_count @ '' @@'' @ [CHR 0x0A])"

definition get_line :: "string list \<Rightarrow> nat \<Rightarrow> string" where
  "get_line ls i = (if i < length ls then ls ! i else [])"

fun item_line :: "string list \<Rightarrow> string list \<Rightarrow> item \<Rightarrow> string" where
  "item_line a b (_, Keep, ai, _) = CHR '' '' # get_line a ai @ [CHR 0x0A]"
| "item_line a b (_, Delete, ai, _) = CHR ''-'' # get_line a ai @ [CHR 0x0A]"
| "item_line a b (_, Insert, _, bj) = CHR ''+'' # get_line b bj @ [CHR 0x0A]"

fun print_hunks :: "string list \<Rightarrow> string list \<Rightarrow> item list list \<Rightarrow> string \<Rightarrow> string" where
  "print_hunks a b [] output = output"
| "print_hunks a b (h # hs) output =
     print_hunks a b hs
       (output @ (if output \<noteq> [] then [CHR 0x0A] else []) @ hunk_header h @ concat (map (item_line a b) h))"

definition first_line :: "string list \<Rightarrow> string" where
  "first_line ls = (case ls of [] \<Rightarrow> [] | l # _ \<Rightarrow> l)"

datatype diff_error = DiffLimitExceeded nat nat

definition builtin_diff :: "string \<Rightarrow> string \<Rightarrow> nat \<Rightarrow> diff_error + string" where
  "builtin_diff content_a content_b context =
     (let a = str_lines content_a; b = str_lines content_b in
      if a = b then Inr []
      else if length a > max_builtin_diff_lines \<or> length b > max_builtin_diff_lines
      then Inl (DiffLimitExceeded (length a) (length b))
      else
        (let ops = edit_ops a b; hs = group_hunks context (enumerate 0 ops) in
         if hs = [] then Inr []
         else Inr (''--- a/'' @ first_line a @ [CHR 0x0A] @ ''+++ b/'' @ first_line b @ [CHR 0x0A] @
                   print_hunks a b hs [])))"

section \<open>The table is the recursion\<close>

function lcs :: "string list \<Rightarrow> string list \<Rightarrow> nat \<Rightarrow> nat \<Rightarrow> nat" where
  "lcs a b i j =
     (if i = 0 \<or> j = 0 then 0
      else if a ! (i - 1) = b ! (j - 1) then lcs a b (i - 1) (j - 1) + 1
      else max (lcs a b (i - 1) j) (lcs a b i (j - 1)))"
  by auto
termination by (relation "measure (\<lambda>(a, b, i, j). i + j)") auto

declare lcs.simps [simp del]

lemma lcs_zero [simp]: "lcs a b 0 j = 0" "lcs a b i 0 = 0"
  by (simp_all add: lcs.simps)

lemma lcs_cell:
  "0 < i \<Longrightarrow> 0 < j \<Longrightarrow>
   lcs a b i j = (if a ! (i - 1) = b ! (j - 1) then lcs a b (i - 1) (j - 1) + 1
                  else max (lcs a b (i - 1) j) (lcs a b i (j - 1)))"
  by (subst lcs.simps) simp

text \<open>The part of the table that is right after the first \<open>i\<close> rows and \<open>j\<close> more cells.\<close>

definition dp_ok :: "string list \<Rightarrow> string list \<Rightarrow> nat \<Rightarrow> nat \<Rightarrow> nat list list \<Rightarrow> bool" where
  "dp_ok a b i j dp \<longleftrightarrow> length dp = length a + 1 \<and> (\<forall>r \<in> set dp. length r = length b + 1) \<and>
     (\<forall>k \<le> length a. \<forall>l \<le> length b. k < i \<or> k = i \<and> l \<le> j \<or> l = 0 \<longrightarrow> dp ! k ! l = lcs a b k l)"

lemma dp_ok_set:
  assumes ok: "dp_ok a b i j dp" and "0 < i" "i \<le> length a" "j < length b"
  shows "dp_ok a b i (Suc j) (dp_set dp i (Suc j) (dp_cell a b dp i (Suc j)))"
proof -
  have len: "length dp = length a + 1" "\<And>k. k \<le> length a \<Longrightarrow> length (dp ! k) = length b + 1"
    using ok by (auto simp: dp_ok_def)
  have val: "dp ! k ! l = lcs a b k l" if "k \<le> length a" "l \<le> length b" "k < i \<or> k = i \<and> l \<le> j \<or> l = 0" for k l
    using ok that unfolding dp_ok_def by blast
  have "dp_cell a b dp i (Suc j) = lcs a b i (Suc j)"
    using assms by (simp add: dp_cell_def lcs_cell val)
  moreover have "\<forall>r \<in> set (dp_set dp i (Suc j) v). length r = length b + 1" for v
    using ok assms(3) len by (auto simp: dp_set_def dp_ok_def dest!: set_update_subset_insert[THEN subsetD])
  ultimately show ?thesis
    using assms(3,4) len val
    by (auto simp: dp_ok_def dp_set_def nth_list_update less_Suc_eq_le le_Suc_eq)
qed

lemma fill_row_ok:
  assumes "dp_ok a b i 0 dp" and "0 < i" "i \<le> length a"
  shows "dp_ok a b i (length b) (fill_row a b i dp)"
proof -
  have "l \<le> length b \<Longrightarrow>
    dp_ok a b i l (fold (\<lambda>j dp. dp_set dp i j (dp_cell a b dp i j)) [1..<l + 1] dp)" for l
    using assms by (induction l) (auto intro: dp_ok_set)
  then show ?thesis by (simp add: fill_row_def)
qed

lemma dp_ok_next: "dp_ok a b i (length b) dp \<Longrightarrow> dp_ok a b (Suc i) 0 dp"
  by (auto simp: dp_ok_def less_Suc_eq)

lemma lcs_table_ok: "dp_ok a b (length a + 1) 0 (lcs_table a b)"
proof -
  let ?z = "replicate (length a + 1) (replicate (length b + 1) 0)"
  have "i \<le> length a \<Longrightarrow> dp_ok a b (i + 1) 0 (fold (fill_row a b) [1..<i + 1] ?z)" for i
  proof (induction i)
    case 0
    show ?case by (auto simp: dp_ok_def nth_Cons' simp del: replicate_Suc)
  next
    case (Suc i)
    then show ?case using dp_ok_next[OF fill_row_ok[of a b "Suc i"]] by simp
  qed
  from this[of "length a"] show ?thesis by (simp add: lcs_table_def)
qed

lemma lcs_table_entry: "i \<le> length a \<Longrightarrow> j \<le> length b \<Longrightarrow> lcs_table a b ! i ! j = lcs a b i j"
  using lcs_table_ok[of a b] by (simp add: dp_ok_def)

section \<open>The script is correct and minimal\<close>

lemma subseq_butlast: "subseq (zs @ [z]) xs \<Longrightarrow> subseq zs xs"
  by (metis list_emb_append2 list_emb_Nil subseq_append_iff subseq_order.trans append_Nil2 subseq_order.refl list_emb_append_mono)

lemma subseq_snocE:
  assumes "subseq (zs @ [z]) (xs @ [x])"
  shows "subseq zs xs \<and> (z = x \<or> subseq (zs @ [z]) xs)"
proof -
  obtain us vs where "zs @ [z] = us @ vs" "subseq us xs" "subseq vs [x]"
    using assms by (auto simp: subseq_append_iff)
  moreover from this(3) have "vs = [] \<or> vs = [x]" by (cases vs) (auto split: if_splits)
  ultimately show ?thesis by (auto simp: subseq_butlast)
qed

lemma take_last: "0 < i \<Longrightarrow> i \<le> length xs \<Longrightarrow> take i xs = take (i - 1) xs @ [xs ! (i - 1)]"
  by (metis Suc_diff_1 Suc_le_lessD take_Suc_conv_app_nth)

lemma lcs_upper:
  "i \<le> length a \<Longrightarrow> j \<le> length b \<Longrightarrow> subseq zs (take i a) \<Longrightarrow> subseq zs (take j b) \<Longrightarrow> length zs \<le> lcs a b i j"
proof (induction a b i j arbitrary: zs rule: lcs.induct)
  case (1 a b i j)
  show ?case
  proof (cases "i = 0 \<or> j = 0")
    case True
    then show ?thesis using "1.prems" by auto
  next
    case False
    note ta = take_last[of i a] and tb = take_last[of j b]
    show ?thesis
    proof (cases zs rule: rev_cases)
      case (snoc ys z)
      show ?thesis
      proof (cases "a ! (i - 1) = b ! (j - 1)")
        case True
        have "length ys \<le> lcs a b (i - 1) (j - 1)"
        proof (rule "1.IH"(1)[OF False True])
          show "subseq ys (take (i - 1) a)" "subseq ys (take (j - 1) b)"
            using "1.prems" False snoc ta tb subseq_snocE[of ys z "take (i - 1) a" "a ! (i - 1)"]
              subseq_snocE[of ys z "take (j - 1) b" "b ! (j - 1)"] by simp_all
        qed (use "1.prems" in auto)
        then show ?thesis using False True snoc by (simp add: lcs_cell)
      next
        case ne: False
        have "i - 1 \<le> length a" "j - 1 \<le> length b" using "1.prems" by auto
        then show ?thesis
          using "1.prems" False snoc ta tb "1.IH"(2)[OF False ne, of zs] "1.IH"(3)[OF False ne, of zs] ne
            subseq_snocE[of ys z "take (i - 1) a" "a ! (i - 1)"] subseq_snocE[of ys z "take (j - 1) b" "b ! (j - 1)"]
          by (auto simp: lcs_cell le_max_iff_disj)
      qed
    qed simp
  qed
qed

definition old_lines :: "string list \<Rightarrow> (op \<times> nat \<times> nat) list \<Rightarrow> string list" where
  "old_lines a ops = map (\<lambda>(_, ai, _). a ! ai) (filter (\<lambda>(k, _, _). k \<noteq> Insert) ops)"

definition new_lines :: "string list \<Rightarrow> (op \<times> nat \<times> nat) list \<Rightarrow> string list" where
  "new_lines b ops = map (\<lambda>(_, _, bj). b ! bj) (filter (\<lambda>(k, _, _). k \<noteq> Delete) ops)"

definition kept_lines :: "string list \<Rightarrow> (op \<times> nat \<times> nat) list \<Rightarrow> string list" where
  "kept_lines a ops = map (\<lambda>(_, ai, _). a ! ai) (filter (\<lambda>(k, _, _). k = Keep) ops)"

lemma line_views [simp]:
  "old_lines a (xs @ [(k, ai, bj)]) = old_lines a xs @ (if k = Insert then [] else [a ! ai])"
  "new_lines b (xs @ [(k, ai, bj)]) = new_lines b xs @ (if k = Delete then [] else [b ! bj])"
  "kept_lines a (xs @ [(k, ai, bj)]) = kept_lines a xs @ (if k = Keep then [a ! ai] else [])"
  "old_lines a [] = []" "new_lines b [] = []" "kept_lines a [] = []"
  by (simp_all add: old_lines_def new_lines_def kept_lines_def)

text \<open>What the script of the first \<open>i\<close> and \<open>j\<close> lines says, for any table.\<close>

lemma backtrack_views:
  assumes "i \<le> length a" and "j \<le> length b"
  shows "old_lines a (rev (backtrack a b dp i j)) = take i a \<and> new_lines b (rev (backtrack a b dp i j)) = take j b"
  using assms
proof (induction a b dp i j rule: backtrack.induct)
  case (1 a b dp i j)
  then show ?case
    using take_last[of i a] take_last[of j b] by (subst (1 2) backtrack.simps) auto
qed

lemma backtrack_keeps:
  assumes "i \<le> length a" and "j \<le> length b"
  shows "length (kept_lines a (rev (backtrack a b (lcs_table a b) i j))) = lcs a b i j"
  using assms
proof (induction a b "lcs_table a b" i j rule: backtrack.induct)
  case (1 a b i j)
  show ?case
    using 1 by (subst backtrack.simps) (auto simp: lcs_cell lcs_table_entry max_def)
qed

lemma kept_subseq_old: "subseq (kept_lines a ops) (old_lines a ops)"
  by (induction ops) (auto simp: kept_lines_def old_lines_def split: prod.splits op.splits)

lemma backtrack_keep_eq: "(Keep, ai, bj) \<in> set (backtrack a b dp i j) \<Longrightarrow> a ! ai = b ! bj"
proof (induction a b dp i j rule: backtrack.induct)
  case (1 a b dp i j)
  from "1.prems" show ?case
    by (subst (asm) backtrack.simps) (auto split: if_splits intro: "1.IH")
qed

lemma kept_subseq_new:
  "\<forall>(k, ai, bj) \<in> set ops. k = Keep \<longrightarrow> a ! ai = b ! bj \<Longrightarrow> subseq (kept_lines a ops) (new_lines b ops)"
  by (induction ops) (auto simp: kept_lines_def new_lines_def split: prod.splits op.splits)

text \<open>C17: For any two files the edit script of the built-in diff turns the first into the second: the
  lines it keeps or deletes are those of the first file in order, the lines it keeps or inserts
  those of the second. It is minimal: the lines kept are a longest common subsequence.\<close>

theorem diff_script_minimal:
  "old_lines a (edit_ops a b) = a \<and> new_lines b (edit_ops a b) = b \<and>
   length (kept_lines a (edit_ops a b)) = Max {length zs |zs. subseq zs a \<and> subseq zs b}"
proof -
  let ?ops = "edit_ops a b" and ?S = "{length zs |zs. subseq zs a \<and> subseq zs b}"
  have views: "old_lines a ?ops = a" "new_lines b ?ops = b"
    using backtrack_views[of "length a" a "length b" b "lcs_table a b"] by (simp_all add: edit_ops_def)
  have len: "length (kept_lines a ?ops) = lcs a b (length a) (length b)"
    by (simp add: edit_ops_def backtrack_keeps)
  have "\<forall>(k, ai, bj) \<in> set ?ops. k = Keep \<longrightarrow> a ! ai = b ! bj"
    by (auto simp: edit_ops_def dest: backtrack_keep_eq)
  then have "subseq (kept_lines a ?ops) a" "subseq (kept_lines a ?ops) b"
    using kept_subseq_old[of a ?ops] kept_subseq_new[of ?ops a b] views by simp_all
  moreover have "finite ?S"
    by (rule finite_subset[of _ "{..length a}"]) (auto dest: list_emb_length)
  moreover have "l \<le> length (kept_lines a ?ops)" if "l \<in> ?S" for l
    using that lcs_upper[of "length a" a "length b" b] by (auto simp: len)
  ultimately have "Max ?S = length (kept_lines a ?ops)" by (intro Max_eqI) auto
  with views show ?thesis by simp
qed

section \<open>Hunks\<close>

lemma flush_context_items:
  "mset (concat (hunks (flush_context c st)) @ current_hunk (flush_context c st)) =
     mset (concat (hunks st) @ current_hunk st)"
proof (cases "\<not> in_change st \<and> current_hunk st \<noteq> []")
  case True
  let ?cur = "current_hunk st" and ?k = "length (current_hunk st) - c"
  have 1: "mset (take (?k - 1) ?cur) + mset (drop (?k - 1) (take ?k ?cur)) + mset (drop ?k ?cur) = mset ?cur"
  proof -
    have "take (?k - 1) (take ?k ?cur) @ drop (?k - 1) (take ?k ?cur) @ drop ?k ?cur = ?cur"
      by (metis append.assoc append_take_drop_id)
    then show ?thesis
      by (metis append_take_drop_id mset_append take_take min.absorb1 diff_le_self union_assoc)
  qed
  then show ?thesis using True by (auto simp: flush_context_def Let_def ac_simps)
qed (auto simp: flush_context_def)

lemma group_step_items:
  "mset (concat (hunks (group_step c x st)) @ current_hunk (group_step c x st)) =
     mset (concat (hunks st) @ current_hunk st) + {#x#}"
  using flush_context_items[of c st] by (simp add: group_step_def Let_def)

lemma group_fold_items:
  "mset (concat (hunks (fold (group_step c) xs st)) @ current_hunk (fold (group_step c) xs st)) =
     mset (concat (hunks st) @ current_hunk st) + mset xs"
  by (induction xs arbitrary: st) (use group_step_items in \<open>simp_all add: ac_simps\<close>)

lemma group_hunks_items: "mset (concat (group_hunks c xs)) = mset xs"
  using group_fold_items[of c xs "\<lparr>hunks = [], current_hunk = [], in_change = False\<rparr>"]
  by (auto simp: group_hunks_def Let_def)

lemma fold_keeps:
  "\<forall>x \<in> set xs. \<not> is_change x \<Longrightarrow> in_change st = False \<Longrightarrow>
   fold (group_step c) xs st = st\<lparr>current_hunk := current_hunk st @ xs\<rparr>"
  by (induction xs arbitrary: st) (auto simp: group_step_def)

lemma drop_take_drop: "n \<le> k \<Longrightarrow> drop n (take k xs) @ drop k xs = drop n xs"
proof -
  assume "n \<le> k"
  then have "drop (n - length (take k xs)) (drop k xs) = drop k xs" by (cases "k \<le> length xs") auto
  then show ?thesis using drop_append[of n "take k xs" "drop k xs"] by simp
qed

lemma group_hunks_one_change:
  assumes "\<forall>x \<in> set ks. \<not> is_change x" and "is_change c" and "context + 1 < length ks"
  shows "group_hunks context (ks @ [c]) =
    [drop (length ks - context - 1) ks, take (length ks - context - 1) ks @ [c]]"
proof -
  let ?k = "length ks - context"
  have "drop (?k - 1) (take ?k ks) @ drop ?k ks = drop (?k - 1) ks"
    by (rule drop_take_drop) simp
  then show ?thesis
    using assms by (auto simp: group_hunks_def fold_keeps group_step_def flush_context_def Let_def min_def)
qed

text \<open>Grouping loses no part of the script and repeats none, but it does not keep the order: when more than
  one line more than the context is unchanged before a change, the hunk printed first has the last unchanged
  lines, and the lines before them follow in a second hunk together with the change.\<close>

theorem diff_hunks_out_of_order:
  assumes "\<forall>x \<in> set ks. \<not> is_change x" and "is_change c" and "context + 1 < length ks" and "distinct ks"
  shows "mset (concat (group_hunks context (ks @ [c]))) = mset (ks @ [c]) \<and>
    concat (group_hunks context (ks @ [c])) \<noteq> ks @ [c] \<and>
    hd (concat (group_hunks context (ks @ [c]))) = ks ! (length ks - context - 1)"
proof -
  let ?n = "length ks - context - 1"
  have n: "0 < ?n" "?n < length ks" using assms(3) by auto
  have g: "concat (group_hunks context (ks @ [c])) = drop ?n ks @ take ?n ks @ [c]"
    using group_hunks_one_change[OF assms(1-3)] by simp
  have h: "hd (concat (group_hunks context (ks @ [c]))) = ks ! ?n"
    unfolding g using n(2) by (simp add: hd_append hd_drop_conv_nth)
  have "ks ! ?n \<noteq> ks ! 0" using n nth_eq_iff_index_eq[OF assms(4), of ?n 0] by linarith
  moreover have "hd (ks @ [c]) = ks ! 0" using n by (cases ks) auto
  ultimately have "concat (group_hunks context (ks @ [c])) \<noteq> ks @ [c]" using h by metis
  then show ?thesis using h group_hunks_items by simp
qed

lemma diff_hunks_out_of_order_witness:
  "concat (group_hunks 0 [(0, Keep, 0, 0), (1, Keep, 1, 1), (2, Delete, 2, usize_max)]) \<noteq>
     [(0, Keep, 0, 0), (1, Keep, 1, 1), (2, Delete, 2, usize_max)] \<and>
   hd (concat (group_hunks 0 [(0, Keep, 0, 0), (1, Keep, 1, 1), (2, Delete, 2, usize_max)])) = (1, Keep, 1, 1)"
  using diff_hunks_out_of_order[of "[(0, Keep, 0, 0), (1, Keep, 1, 1)]" "(2, Delete, 2, usize_max)" 0] by simp

section \<open>The whole diff\<close>

lemma edit_ops_Nil: "edit_ops a b = [] \<Longrightarrow> a = b"
  using backtrack_views[of "length a" a "length b" b "lcs_table a b"] by (simp add: edit_ops_def)

lemma group_hunks_Nil: "group_hunks c xs = [] \<Longrightarrow> xs = []"
  using group_hunks_items[of c xs] by simp

text \<open>The built-in diff fails exactly when the files differ and one of them has more than 5000 lines, and its
  output is empty exactly when the files have the same lines.\<close>

theorem diff_result_cases:
  "builtin_diff s t context =
     (if str_lines s = str_lines t then Inr []
      else if 5000 < length (str_lines s) \<or> 5000 < length (str_lines t)
      then Inl (DiffLimitExceeded (length (str_lines s)) (length (str_lines t)))
      else Inr (''--- a/'' @ first_line (str_lines s) @ [CHR 0x0A] @ ''+++ b/'' @ first_line (str_lines t) @ [CHR 0x0A] @
             print_hunks (str_lines s) (str_lines t)
               (group_hunks context (enumerate 0 (edit_ops (str_lines s) (str_lines t)))) []))"
proof -
  have "group_hunks context (enumerate 0 (edit_ops a b)) \<noteq> []" if "a \<noteq> b" for a b
    using that group_hunks_Nil[of "context" "enumerate 0 (edit_ops a b)"] edit_ops_Nil[of a b] length_enumerate[of 0 "edit_ops a b"]
    by fastforce
  then show ?thesis by (simp add: builtin_diff_def Let_def max_builtin_diff_lines_def)
qed

end
