(* ===== verification/ResponseCache.thy ===== *)
theory ResponseCache
  imports Complex_Main TextOps
begin

text \<open>
  The response cache, \<open>src/memory/cache.rs\<close>, with both of its database backends: the table is a list of
  rows with distinct keys, and each SQL statement is an operation on the list that may fail. The order in
  which the database returns rows of equal time is not defined, so the sorted list of rows is an
  argument with its law. Times are seconds; the arithmetic of 64-bit signed integers wraps. Connection
  pools and the blocking task around each operation are left out.
\<close>

section \<open>Data\<close>

record cached_response =
  response_text :: string
  agent_name :: "string option"

record cache_row =
  cache_key :: string
  row_text :: string
  row_agent :: "string option"
  created_at :: int
  updated_at :: int
  expires_at :: int
  hit_count :: nat
  last_hit_at :: "int option"

record put_params =
  p_cache_key :: string
  p_response_text :: string
  p_agent_name :: string
  p_now :: int
  p_expires_at :: int
  p_max_entries :: int

datatype backend = Sqlite | Postgres

record response_cache =
  cache_backend :: backend
  rows :: "cache_row list"
  default_ttl_seconds :: u64
  max_entries :: usize

record response_cache_stats =
  st_entry_count :: nat
  st_max_entries :: usize
  st_total_hits :: nat
  avg_hits_per_entry :: rat

datatype cache_error = StatementFailed

type_synonym row_order = "cache_row list \<Rightarrow> cache_row list"

text \<open>\<open>ORDER BY updated_at DESC\<close>.\<close>

definition sort_law :: "row_order \<Rightarrow> bool" where
  "sort_law ord \<longleftrightarrow> (\<forall>rs. mset (ord rs) = mset rs \<and> sorted_wrt (\<lambda>r s. updated_at r \<ge> updated_at s) (ord rs))"

definition wrap_i64 :: "int \<Rightarrow> int" where
  "wrap_i64 x = sint (word_of_int x :: 64 word)"

section \<open>Statements\<close>

fun select_row :: "string \<Rightarrow> int \<Rightarrow> cache_row list \<Rightarrow> cached_response option" where
  "select_row k now [] = None"
| "select_row k now (r # rs) =
     (if cache_key r = k \<and> expires_at r > now
      then Some \<lparr>response_text = row_text r, agent_name = row_agent r\<rparr> else select_row k now rs)"

definition touch :: "string \<Rightarrow> int \<Rightarrow> cache_row \<Rightarrow> cache_row" where
  "touch k now r = (if cache_key r = k then r\<lparr>hit_count := hit_count r + 1, last_hit_at := Some now\<rparr> else r)"

definition cache_get ::
  "(nat \<Rightarrow> bool) \<Rightarrow> string \<Rightarrow> int \<Rightarrow> cache_row list \<Rightarrow> (cache_error + cached_response option) \<times> cache_row list" where
  "cache_get io k now rs =
     (if io 0 then (Inl StatementFailed, rs)
      else (case select_row k now rs of
              None \<Rightarrow> (Inr None, rs)
            | Some found \<Rightarrow>
                if io 1 then (Inl StatementFailed, rs)
                else (Inr (Some found), map (touch k now) rs)))"

definition new_row :: "put_params \<Rightarrow> cache_row" where
  "new_row p =
     \<lparr>cache_key = p_cache_key p, row_text = p_response_text p, row_agent = Some (p_agent_name p),
      created_at = p_now p, updated_at = p_now p, expires_at = p_expires_at p, hit_count = 0,
      last_hit_at = None\<rparr>"

definition overwrite :: "put_params \<Rightarrow> cache_row \<Rightarrow> cache_row" where
  "overwrite p r =
     (if cache_key r = p_cache_key p
      then r\<lparr>row_text := p_response_text p, row_agent := Some (p_agent_name p), updated_at := p_now p,
             expires_at := p_expires_at p\<rparr>
      else r)"

definition upsert :: "put_params \<Rightarrow> cache_row list \<Rightarrow> cache_row list" where
  "upsert p rs =
     (if p_cache_key p \<in> cache_key ` set rs then map (overwrite p) rs else rs @ [new_row p])"

definition sentinel_limit :: int where
  "sentinel_limit = 2147483647"

text \<open>A negative \<open>OFFSET\<close> counts as zero in SQLite.\<close>

definition evict_sqlite :: "row_order \<Rightarrow> int \<Rightarrow> int \<Rightarrow> cache_row list \<Rightarrow> cache_row list" where
  "evict_sqlite ord limit offset rs =
     (let victims = cache_key ` set (take (nat limit) (drop (nat offset) (ord rs)))
      in filter (\<lambda>r. cache_key r \<notin> victims) rs)"

definition evict_postgres :: "row_order \<Rightarrow> int \<Rightarrow> cache_row list \<Rightarrow> cache_row list" where
  "evict_postgres ord limit rs =
     (let kept = cache_key ` set (take (nat limit) (ord rs)) in filter (\<lambda>r. cache_key r \<in> kept) rs)"

text \<open>A negative \<open>LIMIT\<close> is an error in PostgreSQL.\<close>

definition cache_put ::
  "backend \<Rightarrow> row_order \<Rightarrow> (nat \<Rightarrow> bool) \<Rightarrow> put_params \<Rightarrow> cache_row list \<Rightarrow> (cache_error + unit) \<times> cache_row list" where
  "cache_put b ord io p rs =
     (if io 0 then (Inl StatementFailed, rs)
      else
        (let rs = upsert p rs in
         if io 1 then (Inl StatementFailed, rs)
         else
           (let row_count = int (length rs) in
            if row_count > p_max_entries p
            then
              (case b of
                 Sqlite \<Rightarrow>
                   (let excess = wrap_i64 (row_count - p_max_entries p) in
                    if io 2 then (Inl StatementFailed, rs)
                    else (Inr (), evict_sqlite ord (min excess sentinel_limit) (p_max_entries p) rs))
               | Postgres \<Rightarrow>
                   if io 2 \<or> p_max_entries p < 0 then (Inl StatementFailed, rs)
                   else (Inr (), evict_postgres ord (p_max_entries p) rs))
            else (Inr (), rs))))"

definition build_stats :: "nat \<Rightarrow> nat \<Rightarrow> usize \<Rightarrow> response_cache_stats" where
  "build_stats n hits mx =
     \<lparr>st_entry_count = n, st_max_entries = mx, st_total_hits = hits,
      avg_hits_per_entry = (if n = 0 then 0 else of_nat hits / of_nat n)\<rparr>"

section \<open>The cache\<close>

definition get ::
  "(nat \<Rightarrow> bool) \<Rightarrow> int \<Rightarrow> string \<Rightarrow> response_cache \<Rightarrow> (cache_error + cached_response option) \<times> response_cache" where
  "get io now k c =
     (case cache_get io k now (rows c) of (r, rs) \<Rightarrow> (r, c\<lparr>rows := rs\<rparr>))"

definition put ::
  "row_order \<Rightarrow> (nat \<Rightarrow> bool) \<Rightarrow> int \<Rightarrow> string \<Rightarrow> string \<Rightarrow> string \<Rightarrow> u64 option \<Rightarrow> response_cache \<Rightarrow>
   (cache_error + unit) \<times> response_cache" where
  "put ord io now k text agent ttl_seconds c =
     (if trim text = [] then (Inr (), c)
      else
        (let ttl = (case ttl_seconds of None \<Rightarrow> default_ttl_seconds c | Some t \<Rightarrow> t) in
         if ttl = 0 then (Inr (), c)
         else
           (let p = \<lparr>p_cache_key = k, p_response_text = text, p_agent_name = agent, p_now = now,
                     p_expires_at = wrap_i64 (now + sint ttl), p_max_entries = sint (max_entries c)\<rparr>
            in case cache_put (cache_backend c) ord io p (rows c) of (r, rs) \<Rightarrow> (r, c\<lparr>rows := rs\<rparr>))))"

definition clear_all :: "(nat \<Rightarrow> bool) \<Rightarrow> response_cache \<Rightarrow> (cache_error + nat) \<times> response_cache" where
  "clear_all io c = (if io 0 then (Inl StatementFailed, c) else (Inr (length (rows c)), c\<lparr>rows := []\<rparr>))"

definition entry_count :: "(nat \<Rightarrow> bool) \<Rightarrow> response_cache \<Rightarrow> cache_error + nat" where
  "entry_count io c = (if io 0 then Inl StatementFailed else Inr (length (rows c)))"

definition stats :: "(nat \<Rightarrow> bool) \<Rightarrow> response_cache \<Rightarrow> cache_error + response_cache_stats" where
  "stats io c =
     (if io 0 then Inl StatementFailed
      else Inr (build_stats (length (rows c)) (sum_list (map hit_count (rows c))) (max_entries c)))"

definition get_cached ::
  "(nat \<Rightarrow> bool) \<Rightarrow> int \<Rightarrow> string \<Rightarrow> response_cache \<Rightarrow> (cache_error + (string \<times> string option) option) \<times> response_cache" where
  "get_cached io now k c =
     (case get io now k c of
        (Inl e, c') \<Rightarrow> (Inl e, c')
      | (Inr r, c') \<Rightarrow> (Inr (map_option (\<lambda>x. (response_text x, agent_name x)) r), c'))"

definition put_cached ::
  "row_order \<Rightarrow> (nat \<Rightarrow> bool) \<Rightarrow> int \<Rightarrow> string \<Rightarrow> string \<Rightarrow> string option \<Rightarrow> response_cache \<Rightarrow>
   (cache_error + unit) \<times> response_cache" where
  "put_cached ord io now k text agent c =
     put ord io now k text (case agent of None \<Rightarrow> [] | Some a \<Rightarrow> a) None c"

section \<open>Facts\<close>

definition keys_distinct :: "cache_row list \<Rightarrow> bool" where
  "keys_distinct rs = distinct (map cache_key rs)"

lemma overwrite_key [simp]: "cache_key (overwrite p r) = cache_key r"
  by (simp add: overwrite_def)

lemma touch_key [simp]: "cache_key (touch k now r) = cache_key r"
  by (simp add: touch_def)

lemma map_key_simps [simp]:
  "map cache_key (map (overwrite p) rs) = map cache_key rs" "map cache_key (map (touch k now) rs) = map cache_key rs"
  by simp_all

lemma upsert_distinct [simp]: "keys_distinct rs \<Longrightarrow> keys_distinct (upsert p rs)"
  by (auto simp: keys_distinct_def upsert_def new_row_def o_def)

lemma keys_distinct_filter: "keys_distinct rs \<Longrightarrow> keys_distinct (filter P rs)"
  by (simp add: keys_distinct_def distinct_map_filter)

lemma cache_put_distinct: "keys_distinct rs \<Longrightarrow> keys_distinct (snd (cache_put b ord io p rs))"
  by (auto simp: cache_put_def Let_def evict_sqlite_def evict_postgres_def keys_distinct_filter split: backend.splits)

lemma cache_get_distinct: "keys_distinct rs \<Longrightarrow> keys_distinct (snd (cache_get io k now rs))"
  by (auto simp: cache_get_def keys_distinct_def o_def split: option.splits)

lemma sort_law_set: "sort_law ord \<Longrightarrow> set (ord rs) = set rs"
  unfolding sort_law_def by (metis set_mset_mset)

lemma sort_law_length: "sort_law ord \<Longrightarrow> length (ord rs) = length rs"
  unfolding sort_law_def by (metis size_mset)

lemma sort_law_distinct: "sort_law ord \<Longrightarrow> keys_distinct rs \<Longrightarrow> distinct (map cache_key (ord rs))"
  unfolding sort_law_def keys_distinct_def by (metis mset_eq_imp_distinct_iff mset_map)

text \<open>Both statements keep the first rows of the sorted table.\<close>

lemma evict_agree:
  assumes ord: "sort_law ord" and d: "keys_distinct rs" and "0 \<le> mx" and "int (length rs) - mx \<le> limit"
  shows "evict_sqlite ord limit mx rs = evict_postgres ord mx rs"
proof -
  let ?s = "ord rs" and ?n = "nat mx"
  have "length (drop ?n ?s) \<le> nat limit" using assms(3,4) sort_law_length[OF ord, of rs] by simp
  then have t: "take (nat limit) (drop ?n ?s) = drop ?n ?s" by simp
  have dis: "distinct (map cache_key (take ?n ?s) @ map cache_key (drop ?n ?s))"
    using sort_law_distinct[OF ord d] by (simp flip: map_append)
  have "cache_key r \<notin> cache_key ` set (drop ?n ?s) \<longleftrightarrow> cache_key r \<in> cache_key ` set (take ?n ?s)"
    if "r \<in> set rs" for r
  proof -
    have "r \<in> set (take ?n ?s) \<union> set (drop ?n ?s)"
      using that sort_law_set[OF ord, of rs] by (metis append_take_drop_id set_append)
    then show ?thesis using dis by (auto simp: disjoint_iff)
  qed
  then show ?thesis
    unfolding evict_sqlite_def evict_postgres_def Let_def t by (intro filter_cong) auto
qed

lemma evict_length:
  assumes ord: "sort_law ord" and d: "keys_distinct rs"
  shows "length (evict_postgres ord mx rs) \<le> nat mx"
proof -
  have "length (evict_postgres ord mx rs) = card (cache_key ` set (evict_postgres ord mx rs))"
    using keys_distinct_filter[OF d] unfolding evict_postgres_def Let_def keys_distinct_def
    by (metis distinct_card length_map set_map)
  also have "\<dots> \<le> card (cache_key ` set (take (nat mx) (ord rs)))"
    by (rule card_mono) (auto simp: evict_postgres_def)
  also have "\<dots> \<le> length (take (nat mx) (ord rs))" by (metis card_length length_map set_map)
  finally show ?thesis by simp
qed

lemma wrap_i64_id: "- (2 ^ 63) \<le> x \<Longrightarrow> x < 2 ^ 63 \<Longrightarrow> wrap_i64 x = x"
  by (simp add: wrap_i64_def sint_sbintrunc' signed_take_bit_int_eq_self)

lemma upsert_length: "length (upsert p rs) \<le> length rs + 1"
  by (simp add: upsert_def)

lemma cache_put_agree:
  assumes "sort_law ord" and "keys_distinct rs" and "0 \<le> p_max_entries p" and "int (length rs) < sentinel_limit"
  shows "cache_put Sqlite ord io p rs = cache_put Postgres ord io p rs"
proof -
  let ?rs = "upsert p rs"
  have len: "int (length ?rs) \<le> sentinel_limit" using upsert_length[of p rs] assms(4) by linarith
  have "wrap_i64 (int (length ?rs) - p_max_entries p) = int (length ?rs) - p_max_entries p"
    if "p_max_entries p < int (length ?rs)"
    using that len assms(3) by (intro wrap_i64_id) (simp_all add: sentinel_limit_def)
  moreover have "evict_sqlite ord (min (int (length ?rs) - p_max_entries p) sentinel_limit) (p_max_entries p) ?rs =
      evict_postgres ord (p_max_entries p) ?rs"
    using assms len by (intro evict_agree) auto
  ultimately show ?thesis using assms(3) by (auto simp: cache_put_def Let_def)
qed

text \<open>The two database backends behave alike: for every table with distinct keys, every put and every pattern of failing
  statements they return the same result and leave the same rows, although one deletes the rows after
  the budget and the other the rows not among the newest; the limit of the delete must cover the table.\<close>

theorem cache_backends_agree:
  assumes "sort_law ord" and "keys_distinct rs" and "0 \<le> p_max_entries p" and "int (length rs) < sentinel_limit"
  shows "cache_put Sqlite ord io p rs = cache_put Postgres ord io p rs"
  by (rule cache_put_agree[OF assms])

lemma sort_key_law: "sort_law (sort_key (\<lambda>r. - updated_at r))"
  using sorted_sort_key[of "\<lambda>r. - updated_at r"] by (auto simp: sort_law_def sorted_map)

lemma cache_backends_agree_witness:
  "cache_put Sqlite (sort_key (\<lambda>r. - updated_at r)) (\<lambda>_. False)
     \<lparr>p_cache_key = ''k'', p_response_text = ''t'', p_agent_name = ''a'', p_now = 7, p_expires_at = 9, p_max_entries = 1\<rparr> [] =
   cache_put Postgres (sort_key (\<lambda>r. - updated_at r)) (\<lambda>_. False)
     \<lparr>p_cache_key = ''k'', p_response_text = ''t'', p_agent_name = ''a'', p_now = 7, p_expires_at = 9, p_max_entries = 1\<rparr> []"
  by (rule cache_backends_agree[OF sort_key_law]) (simp_all add: keys_distinct_def sentinel_limit_def)

section \<open>Runs\<close>

inductive cache_step :: "row_order \<Rightarrow> response_cache \<Rightarrow> response_cache \<Rightarrow> bool" for ord where
  cs_get: "get io now k c = (r, c') \<Longrightarrow> cache_step ord c c'"
| cs_put: "put ord io now k t a ttl c = (r, c') \<Longrightarrow> cache_step ord c c'"
| cs_clear: "clear_all io c = (r, c') \<Longrightarrow> cache_step ord c c'"

lemma get_rows: "rows (snd (get io now k c)) = snd (cache_get io k now (rows c))"
  by (simp add: get_def split: prod.splits)

lemma get_config [simp]:
  "max_entries (snd (get io now k c)) = max_entries c" "cache_backend (snd (get io now k c)) = cache_backend c"
  by (simp_all add: get_def split: prod.splits)

definition params_of :: "int \<Rightarrow> string \<Rightarrow> string \<Rightarrow> string \<Rightarrow> u64 option \<Rightarrow> response_cache \<Rightarrow> put_params" where
  "params_of now k text agent ttl c =
     \<lparr>p_cache_key = k, p_response_text = text, p_agent_name = agent, p_now = now,
      p_expires_at = wrap_i64 (now + sint (case ttl of None \<Rightarrow> default_ttl_seconds c | Some t \<Rightarrow> t)),
      p_max_entries = sint (max_entries c)\<rparr>"

definition storable :: "string \<Rightarrow> u64 option \<Rightarrow> response_cache \<Rightarrow> bool" where
  "storable text ttl c \<longleftrightarrow> trim text \<noteq> [] \<and> (case ttl of None \<Rightarrow> default_ttl_seconds c | Some t \<Rightarrow> t) \<noteq> 0"

lemma put_eq:
  "put ord io now k text agent ttl c =
     (if storable text ttl c
      then (case cache_put (cache_backend c) ord io (params_of now k text agent ttl c) (rows c) of
              (r, rs) \<Rightarrow> (r, c\<lparr>rows := rs\<rparr>))
      else (Inr (), c))"
  by (simp add: put_def storable_def params_of_def Let_def)

interpretation cache_sys: invariant_system "cache_step ord" "\<lambda>c. keys_distinct (rows c)" for ord
proof
  fix c c'
  assume d: "keys_distinct (rows c)" and "cache_step ord c c'"
  from this(2) show "keys_distinct (rows c')"
  proof cases
    case (cs_get io now k r)
    then show ?thesis using cache_get_distinct[OF d] get_rows[of io now k c] by simp
  next
    case (cs_put io now k t a ttl r)
    then show ?thesis
      using cache_put_distinct[OF d, of "cache_backend c" ord io "params_of now k t a ttl c"] d
      by (auto simp: put_eq split: if_splits prod.splits)
  next
    case (cs_clear io r)
    then show ?thesis using d by (auto simp: clear_all_def keys_distinct_def split: if_splits)
  qed
qed

lemma cache_put_bounded:
  assumes "sort_law ord" "keys_distinct rs" "0 \<le> p_max_entries p" "int (length rs) < sentinel_limit"
    and "cache_put b ord io p rs = (Inr (), rs')"
  shows "int (length rs') \<le> p_max_entries p"
proof -
  have "cache_put Postgres ord io p rs = (Inr (), rs')"
    using assms(5) cache_put_agree[OF assms(1-4), of io] by (cases b) auto
  then show ?thesis
    using evict_length[OF assms(1) upsert_distinct[OF assms(2)], of "p_max_entries p" p] assms(3)
    by (auto simp: cache_put_def Let_def split: if_splits)
qed

lemma sint_small: "unat (w :: 64 word) < 2 ^ 63 \<Longrightarrow> sint w = int (unat w)"
proof -
  assume a: "unat w < 2 ^ 63"
  have "int (unat w) < int (2 ^ 63)" using a by (simp only: of_nat_less_iff)
  then have "signed_take_bit 63 (int (unat w)) = int (unat w)"
    by (intro signed_take_bit_int_eq_self) (simp_all only: of_nat_power of_nat_numeral, linarith?)
  then show ?thesis using sint_uint[of w] by simp
qed

text \<open>From an empty table, after any operations and any failures of statements, a put that stores something and reports success leaves at
  most \<open>max_entries\<close> rows, whatever the number of rows before it, and the keys stay distinct.\<close>

theorem cache_put_restores_bound:
  assumes "sort_law ord" and "rows c0 = []" and "(cache_step ord)\<^sup>*\<^sup>* c0 c"
    and "unat (max_entries c) < 2 ^ 63" and "int (length (rows c)) < sentinel_limit"
    and "storable text ttl c" and "put ord io now k text agent ttl c = (Inr (), c')"
  shows "length (rows c') \<le> unat (max_entries c) \<and> keys_distinct (rows c')"
proof -
  have d: "keys_distinct (rows c)"
    using cache_sys.run_inv[OF assms(3)] assms(2) by (simp add: keys_distinct_def)
  obtain rs' where rs': "cache_put (cache_backend c) ord io (params_of now k text agent ttl c) (rows c) = (Inr (), rs')"
    "rows c' = rs'"
    using assms(6,7) by (auto simp: put_eq split: prod.splits)
  have mx: "p_max_entries (params_of now k text agent ttl c) = int (unat (max_entries c))"
    using assms(4) by (simp add: params_of_def sint_small)
  have "int (length rs') \<le> int (unat (max_entries c))"
    using cache_put_bounded[OF assms(1) d _ assms(5) rs'(1)] unfolding mx by simp
  moreover have "keys_distinct rs'" using cache_put_distinct[OF d] rs'(1) by (metis snd_conv)
  ultimately show ?thesis using rs'(2) by (simp only: of_nat_le_iff)
qed

definition small_cache :: response_cache where
  "small_cache = \<lparr>cache_backend = Sqlite, rows = [], default_ttl_seconds = 60, max_entries = 1\<rparr>"

lemma cache_put_restores_bound_witness:
  "length (rows (snd (put (sort_key (\<lambda>r. - updated_at r)) (\<lambda>_. False) 7 ''k'' ''text'' ''a'' None small_cache))) \<le> 1"
proof -
  let ?p = "put (sort_key (\<lambda>r. - updated_at r)) (\<lambda>_. False) 7 ''k'' ''text'' ''a'' None small_cache"
  have st: "storable ''text'' None small_cache"
  proof -
    have "trim ''text'' = ''text''" by code_simp
    then show ?thesis by (simp add: storable_def small_cache_def)
  qed
  have "?p = (Inr (), snd ?p)"
    using st by (simp add: put_eq small_cache_def cache_put_def upsert_def params_of_def new_row_def)
  from cache_put_restores_bound[OF sort_key_law _ _ _ _ st this, of small_cache] show ?thesis
    by (simp add: small_cache_def sentinel_limit_def)
qed

section \<open>Reading back\<close>

lemma upsert_row:
  assumes "keys_distinct rs"
  shows "\<exists>r \<in> set (upsert p rs). cache_key r = p_cache_key p \<and> row_text r = p_response_text p \<and>
    row_agent r = Some (p_agent_name p) \<and> updated_at r = p_now p \<and> expires_at r = p_expires_at p"
proof (cases "p_cache_key p \<in> cache_key ` set rs")
  case True
  then obtain r where "r \<in> set rs" "cache_key r = p_cache_key p" by auto
  then show ?thesis using True by (intro bexI[of _ "overwrite p r"]) (auto simp: upsert_def overwrite_def)
next
  case False
  then show ?thesis by (intro bexI[of _ "new_row p"]) (auto simp: upsert_def new_row_def)
qed

lemma select_row_found:
  "keys_distinct rs \<Longrightarrow> r \<in> set rs \<Longrightarrow> cache_key r = k \<Longrightarrow> expires_at r > now \<Longrightarrow>
   select_row k now rs = Some \<lparr>response_text = row_text r, agent_name = row_agent r\<rparr>"
  by (induction rs) (auto simp: keys_distinct_def)

text \<open>A row survives the eviction when fewer than the budget are at least as new.\<close>

lemma newest_kept:
  assumes ord: "sort_law ord" and d: "keys_distinct rs" and r: "r \<in> set rs"
    and few: "card {s \<in> set rs. s \<noteq> r \<and> updated_at s \<ge> updated_at r} < nat mx"
  shows "r \<in> set (evict_postgres ord mx rs)"
proof -
  obtain i where i: "i < length (ord rs)" "ord rs ! i = r"
    using r sort_law_set[OF ord, of rs] by (metis in_set_conv_nth)
  have dist: "distinct (ord rs)" using sort_law_distinct[OF ord d] distinct_map by blast
  have "set (take i (ord rs)) \<subseteq> {s \<in> set rs. s \<noteq> r \<and> updated_at s \<ge> updated_at r}"
  proof
    fix s
    assume "s \<in> set (take i (ord rs))"
    then obtain j where j: "j < i" "ord rs ! j = s" using i(1) by (auto simp: in_set_conv_nth)
    have "updated_at s \<ge> updated_at r"
      using ord i j sorted_wrt_nth_less[of _ "ord rs" j i] by (auto simp: sort_law_def)
    moreover have "s \<noteq> r" using dist i j by (auto simp: nth_eq_iff_index_eq)
    moreover have "s \<in> set rs" using i j sort_law_set[OF ord, of rs] nth_mem[of j "ord rs"] by auto
    ultimately show "s \<in> {s \<in> set rs. s \<noteq> r \<and> updated_at s \<ge> updated_at r}" by simp
  qed
  then have "card (set (take i (ord rs))) \<le> card {s \<in> set rs. s \<noteq> r \<and> updated_at s \<ge> updated_at r}"
    by (intro card_mono) auto
  moreover have "card (set (take i (ord rs))) = i" using dist i by (simp add: distinct_card)
  ultimately have "i < nat mx" using few by linarith
  then have "r \<in> set (take (nat mx) (ord rs))" using i by (auto simp: in_set_conv_nth)
  then show ?thesis using r by (simp add: evict_postgres_def)
qed

lemma upsert_others:
  "{s \<in> set (upsert p rs). cache_key s \<noteq> p_cache_key p} = {s \<in> set rs. cache_key s \<noteq> p_cache_key p}"
  by (force simp: upsert_def new_row_def overwrite_def)

lemma cache_put_keeps_new:
  assumes ord: "sort_law ord" and d: "keys_distinct rs" and mx: "0 \<le> p_max_entries p" and len: "int (length rs) < sentinel_limit"
    and io: "\<not> io 0" "\<not> io 1" "\<not> io 2"
    and few: "card {s \<in> set rs. cache_key s \<noteq> p_cache_key p \<and> updated_at s \<ge> p_now p} < nat (p_max_entries p)"
  obtains r rs' where "cache_put b ord io p rs = (Inr (), rs')" and "r \<in> set rs'" and "keys_distinct rs'"
    and "cache_key r = p_cache_key p" and "row_text r = p_response_text p" and "row_agent r = Some (p_agent_name p)"
    and "expires_at r = p_expires_at p"
proof -
  let ?u = "upsert p rs"
  obtain r where r: "r \<in> set ?u" "cache_key r = p_cache_key p" "row_text r = p_response_text p"
    "row_agent r = Some (p_agent_name p)" "updated_at r = p_now p" "expires_at r = p_expires_at p"
    using upsert_row[OF d] by blast
  have du: "keys_distinct ?u" using d by simp
  have "{s \<in> set ?u. s \<noteq> r \<and> updated_at s \<ge> updated_at r} \<subseteq>
      {s \<in> set rs. cache_key s \<noteq> p_cache_key p \<and> updated_at s \<ge> p_now p}"
  proof
    fix s
    assume s: "s \<in> {s \<in> set ?u. s \<noteq> r \<and> updated_at s \<ge> updated_at r}"
    then have "cache_key s \<noteq> p_cache_key p"
      using du r(1,2) unfolding keys_distinct_def distinct_map inj_on_def by auto
    then have "s \<in> {s \<in> set rs. cache_key s \<noteq> p_cache_key p}" using s upsert_others[of p rs] by auto
    with s r(5) show "s \<in> {s \<in> set rs. cache_key s \<noteq> p_cache_key p \<and> updated_at s \<ge> p_now p}"
      by auto
  qed
  then have "card {s \<in> set ?u. s \<noteq> r \<and> updated_at s \<ge> updated_at r} < nat (p_max_entries p)"
    by (intro le_less_trans[OF card_mono few]) auto
  then have kept: "r \<in> set (evict_postgres ord (p_max_entries p) ?u)" by (rule newest_kept[OF ord du r(1)])
  obtain rs' where rs': "cache_put Postgres ord io p rs = (Inr (), rs')" "r \<in> set rs'"
    using io mx kept r(1) by (cases "int (length ?u) > p_max_entries p") (auto simp: cache_put_def Let_def)
  moreover have "cache_put b ord io p rs = (Inr (), rs')"
    using rs'(1) cache_put_agree[OF ord d mx len, of io] by (cases b) auto
  moreover have "keys_distinct rs'" using cache_put_distinct[OF d, of Postgres ord io p] rs'(1) by simp
  ultimately show ?thesis using r that by blast
qed

text \<open>C18: What was put can be read: if no statement fails and fewer than \<open>max_entries\<close> other rows are as new as the
  put, a lookup of the key before the time to live is over returns the text and the agent, with either backend.\<close>

theorem cache_put_get:
  assumes "sort_law ord" and "keys_distinct (rows c)" and "unat (max_entries c) < 2 ^ 63"
    and "int (length (rows c)) < sentinel_limit" and "trim text \<noteq> []" and "0 < ttl" and "0 \<le> now" "now + int (unat ttl) < 2 ^ 63"
    and "card {s \<in> set (rows c). cache_key s \<noteq> k \<and> updated_at s \<ge> now} < unat (max_entries c)"
    and "t < now + int (unat ttl)"
  shows "fst (get (\<lambda>_. False) t k (snd (put ord (\<lambda>_. False) now k text agent (Some ttl) c))) =
    Inr (Some \<lparr>response_text = text, agent_name = Some agent\<rparr>)"
proof -
  let ?p = "params_of now k text agent (Some ttl) c"
  have "int (unat ttl) < 2 ^ 63" using assms(7,8) by linarith
  then have "unat ttl < 2 ^ 63" by (metis of_nat_less_iff of_nat_numeral of_nat_power)
  moreover have "wrap_i64 (now + int (unat ttl)) = now + int (unat ttl)"
    using assms(7,8) by (intro wrap_i64_id) linarith+
  ultimately have "p_expires_at ?p = now + int (unat ttl)" by (simp add: params_of_def sint_small)
  moreover have mx: "p_max_entries ?p = int (unat (max_entries c))"
    using assms(3) by (simp add: params_of_def sint_small)
  have few: "card {s \<in> set (rows c). cache_key s \<noteq> p_cache_key ?p \<and> updated_at s \<ge> p_now ?p} < nat (p_max_entries ?p)"
    using assms(9) unfolding mx by (simp add: params_of_def)
  have p: "p_cache_key ?p = k" "p_response_text ?p = text" "p_agent_name ?p = agent" by (simp_all add: params_of_def)
  have nn: "0 \<le> p_max_entries ?p" by (simp add: mx)
  note kept = cache_put_keeps_new[OF assms(1,2) nn assms(4) _ _ _ few, where io = "\<lambda>_. False" and b = "cache_backend c"]
  obtain r rs' where rs': "cache_put (cache_backend c) ord (\<lambda>_. False) ?p (rows c) = (Inr (), rs')" "r \<in> set rs'" "keys_distinct rs'"
    "cache_key r = k" "row_text r = text" "row_agent r = Some agent" "expires_at r = p_expires_at ?p"
    using kept unfolding p by blast
  moreover have "storable text (Some ttl) c" using assms(5,6) by (simp add: storable_def)
  ultimately have "select_row k t rs' = Some \<lparr>response_text = text, agent_name = Some agent\<rparr>"
    "rows (snd (put ord (\<lambda>_. False) now k text agent (Some ttl) c)) = rs'"
    using select_row_found[OF rs'(3,2)] assms(10) by (simp_all add: put_eq)
  then show ?thesis by (simp add: get_def cache_get_def)
qed

lemma cache_put_get_witness:
  "fst (get (\<lambda>_. False) 66 ''k'' (snd (put (sort_key (\<lambda>r. - updated_at r)) (\<lambda>_. False) 7 ''k'' ''text'' ''a'' (Some 60) small_cache))) =
    Inr (Some \<lparr>response_text = ''text'', agent_name = Some ''a''\<rparr>)"
proof (rule cache_put_get[OF sort_key_law])
  have "trim ''text'' = ''text''" by code_simp
  then show "trim ''text'' \<noteq> []" by simp
qed (simp_all add: small_cache_def keys_distinct_def sentinel_limit_def)

text \<open>Times have the resolution of a second, so a put can miss: with the table full of rows written in the same second the
  database may order them before the new row, and the put then evicts what it has just stored, reports success,
  and the next lookup finds nothing.\<close>

theorem cache_put_same_second_lost:
  assumes "trim text \<noteq> []" and "cache_key r \<noteq> k" and "updated_at r = now" 
    and c_def: "c = \<lparr>cache_backend = b, rows = [r], default_ttl_seconds = 60, max_entries = 1\<rparr>"
  shows "\<exists>ord. sort_law ord \<and> fst (put ord (\<lambda>_. False) now k text agent None c) = Inr () \<and>
    fst (get (\<lambda>_. False) now k (snd (put ord (\<lambda>_. False) now k text agent None c))) = Inr None"
proof -
  let ?ord = "sort_key (\<lambda>r. - updated_at r)" and ?p = "params_of now k text agent None c"
  have u: "upsert ?p [r] = [r, new_row ?p]" using assms(2) by (auto simp: upsert_def params_of_def)
  have s: "?ord [r, new_row ?p] = [r, new_row ?p]" using assms(3) by (simp add: new_row_def params_of_def)
  have keys: "cache_key (new_row ?p) = k" by (simp add: new_row_def params_of_def)
  have mx: "p_max_entries ?p = 1" by (simp add: params_of_def c_def)
  have "evict_postgres ?ord 1 [r, new_row ?p] = [r]"
    unfolding evict_postgres_def s using assms(2) keys by (auto simp: Let_def)
  then have "cache_put Postgres ?ord (\<lambda>_. False) ?p [r] = (Inr (), [r])" by (simp add: cache_put_def u mx)
  then have put: "cache_put b ?ord (\<lambda>_. False) ?p [r] = (Inr (), [r])"
    using cache_put_agree[OF sort_key_law, of "[r]" ?p "\<lambda>_. False"] mx
    by (cases b) (auto simp: keys_distinct_def sentinel_limit_def)
  have "storable text None c" using assms(1) by (simp add: storable_def c_def)
  then have "put ?ord (\<lambda>_. False) now k text agent None c = (Inr (), c)"
    using put by (simp add: put_eq c_def)
  moreover have "fst (get (\<lambda>_. False) now k c) = Inr None"
    using assms(2) by (simp add: get_def cache_get_def c_def)
  ultimately show ?thesis using sort_key_law by (intro exI[of _ ?ord]) simp
qed

lemma cache_put_same_second_lost_witness:
  "\<exists>ord. sort_law ord \<and>
    fst (get (\<lambda>_. False) 7 ''k'' (snd (put ord (\<lambda>_. False) 7 ''k'' ''text'' ''a'' None
      \<lparr>cache_backend = Sqlite, rows = [new_row (params_of 7 ''j'' ''old'' ''a'' None small_cache)],
       default_ttl_seconds = 60, max_entries = 1\<rparr>))) = Inr None"
proof -
  have "trim ''text'' = ''text''" by code_simp
  then have "trim ''text'' \<noteq> []" by simp
  from cache_put_same_second_lost[OF this _ _ refl, of "new_row (params_of 7 ''j'' ''old'' ''a'' None small_cache)" "''k''" 7 "''a''" Sqlite]
  show ?thesis by (auto simp: new_row_def params_of_def)
qed

end
