(* ===== verification/Council.thy ===== *)
theory Council
  imports Complex_Main Prelude "HOL-Library.Char_ord" "HOL-Library.List_Lexorder"
begin

text \<open>
  The orchestration council, \<open>src/orchestration/council/\<close>: members, proposals, votes, the weighted tally,
  reputation records and the ejection of members. Counters and weights are words of their width and
  wrap; accuracies and multipliers, floats in the code, are rationals, and the rounding of a weight
  is to the nearest integer, halves up. The clock and the iteration order of the maps are arguments; no
  lock is poisoned. The theorems say what a tally decides, that decisions are final, how
  reputation is bounded, and where the council stops accepting proposals.
\<close>

section \<open>Data\<close>

datatype proposal_status = Pending | Active | Passed | Rejected | Tied | Expired

record council_member =
  m_id :: string
  m_name :: string
  m_role :: string
  voting_power :: u32
  specializations :: "string list"
  is_active :: bool
  joined_ms :: u64

record council_proposal =
  p_id :: string
  p_title :: string
  p_description :: string
  submitted_by :: string
  p_options :: "string list"
  p_status :: proposal_status
  p_created_ms :: u64

record council_vote =
  vote_member :: string
  vote_proposal :: string
  selected_option :: string
  vote_weight :: u32
  vote_ms :: u64
  rationale :: "string option"

record vote_result =
  vr_proposal_id :: string
  option_tallies :: "(string, u32) hmap"
  vr_total_votes :: u32
  vr_passed :: bool
  winning_option :: "string option"
  vr_tie :: bool

record council_config =
  council_name :: string
  min_members_for_quorum :: u32
  voting_duration_ms :: u64
  max_proposals :: usize
  enable_reputation :: bool
  reputation_warmup_rounds :: u32
  ejection_threshold :: "rat option"
  ejection_window :: "nat option"
  ejection_warmup_rounds :: "nat option"
  ejection_check_interval_s :: "u64 option"

definition council_config_default :: council_config where
  "council_config_default =
     \<lparr>council_name = ''Orchestration Council'', min_members_for_quorum = 3, voting_duration_ms = 86400000,
      max_proposals = 100, enable_reputation = True, reputation_warmup_rounds = 5,
      ejection_threshold = None, ejection_window = None, ejection_warmup_rounds = None,
      ejection_check_interval_s = None\<rparr>"

record reputation_record =
  rep_member :: string
  rep_total_votes :: u64
  accurate_votes :: u64
  accuracy :: rat
  recent_window :: "bool list"
  influence_multiplier :: rat
  warmup_remaining :: u32

record council =
  c_config :: council_config
  members :: "(string, council_member) hmap"
  proposals :: "(string, council_proposal) hmap"
  votes :: "(string \<times> string, council_vote) hmap"
  reputation :: "(string, reputation_record) hmap"

datatype council_error =
    MemberAlreadyExists string
  | MemberNotFound string
  | MemberInactive string
  | ProposalAlreadyExists string
  | MaxProposalsReached usize
  | ProposalNotFound string
  | ProposalNotActive string proposal_status
  | InvalidOption string string
  | DuplicateVote string string

definition council_new :: "council_config \<Rightarrow> council" where
  "council_new cfg = \<lparr>c_config = cfg, members = [], proposals = [], votes = [], reputation = []\<rparr>"

section \<open>Members and proposals\<close>

definition add_member :: "council_member \<Rightarrow> council \<Rightarrow> (council_error + unit) \<times> council" where
  "add_member m c =
     (if hm_contains (members c) (m_id m) then (Inl (MemberAlreadyExists (m_id m)), c)
      else (Inr (), c\<lparr>members := hm_insert (m_id m) m (members c)\<rparr>))"

definition remove_member :: "string \<Rightarrow> council \<Rightarrow> bool \<times> council" where
  "remove_member i c = (hm_contains (members c) i, c\<lparr>members := hm_remove i (members c)\<rparr>)"

definition get_member :: "string \<Rightarrow> council \<Rightarrow> council_error + council_member" where
  "get_member i c = (case hm_get (members c) i of None \<Rightarrow> Inl (MemberNotFound i) | Some m \<Rightarrow> Inr m)"

definition list_members :: "string iter_order \<Rightarrow> council \<Rightarrow> council_member list" where
  "list_members ord c = sort_key m_id (hm_values ord (members c))"

definition submit_proposal :: "council_proposal \<Rightarrow> council \<Rightarrow> (council_error + unit) \<times> council" where
  "submit_proposal p c =
     (if hm_contains (proposals c) (p_id p) then (Inl (ProposalAlreadyExists (p_id p)), c)
      else if length (proposals c) \<ge> unat (max_proposals (c_config c))
      then (Inl (MaxProposalsReached (max_proposals (c_config c))), c)
      else (Inr (), c\<lparr>proposals := hm_insert (p_id p) p (proposals c)\<rparr>))"

definition get_proposal :: "string \<Rightarrow> council \<Rightarrow> council_error + council_proposal" where
  "get_proposal i c = (case hm_get (proposals c) i of None \<Rightarrow> Inl (ProposalNotFound i) | Some p \<Rightarrow> Inr p)"

definition list_proposals ::
  "string iter_order \<Rightarrow> proposal_status option \<Rightarrow> council \<Rightarrow> council_proposal list" where
  "list_proposals ord status c =
     sort_key p_created_ms
       (case status of
          Some s \<Rightarrow> filter (\<lambda>p. p_status p = s) (hm_values ord (proposals c))
        | None \<Rightarrow> hm_values ord (proposals c))"

definition is_overdue :: "u64 \<Rightarrow> council_config \<Rightarrow> council_proposal \<Rightarrow> bool" where
  "is_overdue now cfg p = (p_status p = Active \<and> now > p_created_ms p + voting_duration_ms cfg)"

definition expire_old_proposals :: "u64 \<Rightarrow> council \<Rightarrow> u32 \<times> council" where
  "expire_old_proposals now c =
     (of_nat (length (filter (\<lambda>(i, p). is_overdue now (c_config c) p) (proposals c))),
      c\<lparr>proposals := map (\<lambda>(i, p). (i, if is_overdue now (c_config c) p then p\<lparr>p_status := Expired\<rparr> else p))
         (proposals c)\<rparr>)"

section \<open>Reputation\<close>

definition reputation_new :: "string \<Rightarrow> u32 \<Rightarrow> reputation_record" where
  "reputation_new i warmup =
     \<lparr>rep_member = i, rep_total_votes = 0, accurate_votes = 0, accuracy = 1 / 2, recent_window = [],
      influence_multiplier = 1, warmup_remaining = warmup\<rparr>"

definition clamp :: "rat \<Rightarrow> rat \<Rightarrow> rat \<Rightarrow> rat" where
  "clamp x lo hi = (if x < lo then lo else if x > hi then hi else x)"

definition window_weight :: "nat \<Rightarrow> nat \<Rightarrow> rat" where
  "window_weight n i = 1 + of_nat i / of_nat n * 2"

definition recent_accuracy :: "bool list \<Rightarrow> rat" where
  "recent_accuracy w =
     (if w = [] then 1 / 2
      else
        (let weighted_sum = sum_list (map (\<lambda>(i, acc). if acc then window_weight (length w) i else 0) (enumerate 0 w));
             total_weight = sum_list (map (\<lambda>(i, acc). window_weight (length w) i) (enumerate 0 w))
         in weighted_sum / max total_weight 1))"

definition reputation_outcome :: "bool \<Rightarrow> reputation_record \<Rightarrow> reputation_record" where
  "reputation_outcome was_accurate r =
     (let w = recent_window r @ [was_accurate]; w = (if length w > 50 then tl w else w);
          acc = clamp (accuracy r * (3 / 10) + recent_accuracy w * (7 / 10)) 0 1;
          r = r\<lparr>rep_total_votes := rep_total_votes r + 1,
                accurate_votes := (if was_accurate then accurate_votes r + 1 else accurate_votes r),
                recent_window := w, accuracy := acc\<rparr>
      in if warmup_remaining r > 0
         then r\<lparr>warmup_remaining := warmup_remaining r - 1, influence_multiplier := 1\<rparr>
         else r\<lparr>influence_multiplier := clamp (1 / 2 + acc) (1 / 2) 2\<rparr>)"

definition ensure_reputation :: "string \<Rightarrow> council \<Rightarrow> council" where
  "ensure_reputation i c =
     (if hm_contains (reputation c) i then c
      else c\<lparr>reputation := hm_insert i (reputation_new i (reputation_warmup_rounds (c_config c))) (reputation c)\<rparr>)"

text \<open>\<open>f64::round\<close> followed by the saturating conversion to \<open>u32\<close>, for numbers that are not negative.\<close>

definition round_to_u32 :: "rat \<Rightarrow> u32" where
  "round_to_u32 x = of_int (min \<lfloor>x + 1 / 2\<rfloor> (2 ^ 32 - 1))"

definition effective_voting_power :: "string \<Rightarrow> u32 \<Rightarrow> council \<Rightarrow> u32" where
  "effective_voting_power i nominal c =
     (if \<not> enable_reputation (c_config c) then nominal
      else (case hm_get (reputation c) i of
              Some r \<Rightarrow>
                if warmup_remaining r > 0 then nominal
                else max (round_to_u32 (of_nat (unat nominal) * influence_multiplier r)) 1
            | None \<Rightarrow> nominal))"

definition get_reputation :: "string \<Rightarrow> council \<Rightarrow> reputation_record option" where
  "get_reputation i c = hm_get (reputation c) i"

definition note_outcome :: "string \<Rightarrow> string option \<Rightarrow> string \<times> string \<Rightarrow> council \<Rightarrow> council" where
  "note_outcome pid winning k c =
     (if snd k \<noteq> pid then c
      else c\<lparr>reputation := hm_modify (fst k)
             (reputation_outcome (case winning of
                None \<Rightarrow> False | Some w \<Rightarrow> selected_option (the (hm_get (votes c) k)) = w)) (reputation c)\<rparr>)"

definition council_record_outcome ::
  "(string \<times> string) iter_order \<Rightarrow> string \<Rightarrow> string option \<Rightarrow> council \<Rightarrow> council" where
  "council_record_outcome ord pid winning c = fold (note_outcome pid winning) (hm_keys ord (votes c)) c"

section \<open>Votes\<close>

definition cast_vote :: "council_vote \<Rightarrow> council \<Rightarrow> (council_error + unit) \<times> council" where
  "cast_vote v c =
     (case hm_get (members c) (vote_member v) of
        None \<Rightarrow> (Inl (MemberNotFound (vote_member v)), c)
      | Some m \<Rightarrow>
          if \<not> is_active m then (Inl (MemberInactive (vote_member v)), c)
          else
            (case hm_get (proposals c) (vote_proposal v) of
               None \<Rightarrow> (Inl (ProposalNotFound (vote_proposal v)), c)
             | Some p \<Rightarrow>
                 if p_status p \<noteq> Active then (Inl (ProposalNotActive (vote_proposal v) (p_status p)), c)
                 else if selected_option v \<notin> set (p_options p)
                 then (Inl (InvalidOption (selected_option v) (vote_proposal v)), c)
                 else if hm_contains (votes c) (vote_member v, vote_proposal v)
                 then (Inl (DuplicateVote (vote_member v) (vote_proposal v)), c)
                 else (Inr (), ensure_reputation (vote_member v)
                        (c\<lparr>votes := hm_insert (vote_member v, vote_proposal v) v (votes c)\<rparr>))))"

definition proposal_votes :: "(string \<times> string) iter_order \<Rightarrow> string \<Rightarrow> council \<Rightarrow> council_vote list" where
  "proposal_votes ord pid c = filter (\<lambda>v. vote_proposal v = pid) (hm_values ord (votes c))"

definition set_status :: "string \<Rightarrow> proposal_status \<Rightarrow> council \<Rightarrow> council" where
  "set_status pid s c = c\<lparr>proposals := hm_modify pid (\<lambda>p. p\<lparr>p_status := s\<rparr>) (proposals c)\<rparr>"

definition count_vote :: "council \<Rightarrow> council_vote \<Rightarrow> (string, u32) hmap \<times> u32 \<Rightarrow> (string, u32) hmap \<times> u32" where
  "count_vote c v tt =
     (let (tallies, all_votes) = tt; w = effective_voting_power (vote_member v) (vote_weight v) c;
          t = (case hm_get tallies (selected_option v) of None \<Rightarrow> 0 | Some t \<Rightarrow> t)
      in (hm_insert (selected_option v) (t + w) tallies, all_votes + w))"

definition tally_all :: "council \<Rightarrow> string list \<Rightarrow> council_vote list \<Rightarrow> (string, u32) hmap \<times> u32" where
  "tally_all c options vs = fold (count_vote c) vs (fold (\<lambda>opt. hm_insert opt 0) options [], 0)"

definition max_tally :: "(string, u32) hmap \<Rightarrow> u32" where
  "max_tally tallies = foldr max (map snd tallies) 0"

definition winners :: "(string, u32) hmap \<Rightarrow> string list" where
  "winners tallies = map fst (filter (\<lambda>(opt, n). n = max_tally tallies \<and> n > 0) tallies)"

definition tally_votes ::
  "(string \<times> string) iter_order \<Rightarrow> string \<Rightarrow> council \<Rightarrow> (council_error + vote_result) \<times> council" where
  "tally_votes ord pid c =
     (case hm_get (proposals c) pid of
        None \<Rightarrow> (Inl (ProposalNotFound pid), c)
      | Some p \<Rightarrow>
          if p_status p \<noteq> Active then (Inl (ProposalNotActive pid (p_status p)), c)
          else
            (let vs = proposal_votes ord pid c; n = (of_nat (length vs) :: u32);
                 total_members = (of_nat (length (members c)) :: u32)
             in if \<not> (n \<ge> min_members_for_quorum (c_config c) \<and> n \<le> total_members)
                then (Inr \<lparr>vr_proposal_id = pid, option_tallies = [], vr_total_votes = n, vr_passed = False,
                           winning_option = None, vr_tie = False\<rparr>, set_status pid Rejected c)
                else
                  (let (tallies, all_votes) = tally_all c (p_options p) vs; ws = winners tallies;
                       tie = length ws > 1;
                       passed = (\<not> tie \<and> p_options p \<noteq> [] \<and> max_tally tallies > 0);
                       status = (if tie then Tied else if passed then Passed else Rejected)
                   in (Inr \<lparr>vr_proposal_id = pid, option_tallies = tallies, vr_total_votes = all_votes,
                            vr_passed = passed, winning_option = (if passed then Some (hd ws) else None),
                            vr_tie = tie\<rparr>, set_status pid status c))))"

section \<open>Ejection and profile\<close>

text \<open>The quotient over an empty window is not a number and is below no threshold.\<close>

definition should_eject :: "council_config \<Rightarrow> reputation_record \<Rightarrow> bool" where
  "should_eject cfg r =
     (let threshold = case_option (3 / 10) id (ejection_threshold cfg); window = case_option 20 id (ejection_window cfg);
          warmup = case_option 10 id (ejection_warmup_rounds cfg); w = recent_window r
      in \<not> unat (rep_total_votes r) < warmup \<and> \<not> warmup_remaining r > 0 \<and> length w \<ge> window \<and> w \<noteq> [] \<and>
         of_nat (length (filter (\<lambda>b. b) w)) / of_nat (length w) < threshold)"

definition auto_eject_low_performers :: "string iter_order \<Rightarrow> council \<Rightarrow> string list \<times> council" where
  "auto_eject_low_performers ord c =
     (let ejected = filter (\<lambda>i. should_eject (c_config c) (the (hm_get (reputation c) i))) (hm_keys ord (reputation c))
      in (ejected, c\<lparr>members := fold (\<lambda>i. hm_modify i (\<lambda>m. m\<lparr>is_active := False\<rparr>)) ejected (members c)\<rparr>))"

record council_profile =
  total_members :: u32
  active_members :: u32
  total_proposals :: u32
  passed_count :: u32
  rejected_count :: u32
  pending_count :: u32
  tied_count :: u32
  reputation_adjusted_members :: u32

definition status_count :: "(proposal_status \<Rightarrow> bool) \<Rightarrow> council \<Rightarrow> u32" where
  "status_count P c = of_nat (length (filter (\<lambda>(i, p). P (p_status p)) (proposals c)))"

definition council_profile_of :: "council \<Rightarrow> council_profile" where
  "council_profile_of c =
     \<lparr>total_members = of_nat (length (members c)),
      active_members = of_nat (length (filter (\<lambda>(i, m). is_active m) (members c))),
      total_proposals = of_nat (length (proposals c)),
      passed_count = status_count (\<lambda>s. s = Passed) c, rejected_count = status_count (\<lambda>s. s = Rejected) c,
      pending_count = status_count (\<lambda>s. s = Pending \<or> s = Active) c, tied_count = status_count (\<lambda>s. s = Tied) c,
      reputation_adjusted_members = of_nat (length (filter (\<lambda>(i, r). warmup_remaining r = 0 \<and>
        \<bar>influence_multiplier r - 1\<bar> > 1 / 100) (reputation c)))\<rparr>"

section \<open>Runs\<close>

inductive council_step :: "council \<Rightarrow> council \<Rightarrow> bool" where
  co_add: "add_member m c = (r, c') \<Longrightarrow> council_step c c'"
| co_remove: "remove_member i c = (b, c') \<Longrightarrow> council_step c c'"
| co_submit: "submit_proposal p c = (r, c') \<Longrightarrow> council_step c c'"
| co_expire: "expire_old_proposals now c = (n, c') \<Longrightarrow> council_step c c'"
| co_vote: "cast_vote v c = (r, c') \<Longrightarrow> council_step c c'"
| co_tally: "tally_votes ord pid c = (rt, c') \<Longrightarrow> council_step c c'"
| co_outcome: "council_step c (council_record_outcome ord pid w c)"
| co_eject: "auto_eject_low_performers ord' c = (ej, c') \<Longrightarrow> council_step c c'"

section \<open>Decisions are final\<close>

definition evolves :: "council \<Rightarrow> council \<Rightarrow> bool" where
  "evolves c c' \<longleftrightarrow> c_config c' = c_config c \<and> length (proposals c) \<le> length (proposals c') \<and>
     (\<forall>i p. hm_get (proposals c) i = Some p \<longrightarrow>
        (\<exists>s. hm_get (proposals c') i = Some (p\<lparr>p_status := s\<rparr>) \<and> (p_status p \<noteq> Active \<longrightarrow> s = p_status p)))"

lemma evolves_refl [simp]: "evolves c c"
  unfolding evolves_def by (metis (no_types) council_proposal.surjective council_proposal.update_convs(6) order_refl)

lemma evolves_same: "c_config c' = c_config c \<Longrightarrow> proposals c' = proposals c \<Longrightarrow> evolves c0 c \<Longrightarrow> evolves c0 c'"
  by (simp add: evolves_def)

lemma evolves_trans:
  assumes "evolves a b" and "evolves b c"
  shows "evolves a c"
  unfolding evolves_def
proof (intro conjI allI impI)
  show "c_config c = c_config a" "length (proposals a) \<le> length (proposals c)" using assms by (auto simp: evolves_def)
  fix i p
  assume "hm_get (proposals a) i = Some p"
  then obtain s where s: "hm_get (proposals b) i = Some (p\<lparr>p_status := s\<rparr>)" "p_status p \<noteq> Active \<longrightarrow> s = p_status p"
    using assms(1) unfolding evolves_def by blast
  then obtain s' where s': "hm_get (proposals c) i = Some (p\<lparr>p_status := s, p_status := s'\<rparr>)"
    "s \<noteq> Active \<longrightarrow> s' = s"
    using assms(2) unfolding evolves_def by (metis council_proposal.select_convs(6) council_proposal.surjective council_proposal.update_convs(6))
  then show "\<exists>s. hm_get (proposals c) i = Some (p\<lparr>p_status := s\<rparr>) \<and> (p_status p \<noteq> Active \<longrightarrow> s = p_status p)"
    using s(2) by (intro exI[of _ s']) auto
qed

lemma set_status_evolves:
  "hm_get (proposals c) pid = Some p \<Longrightarrow> p_status p = Active \<Longrightarrow> evolves c (set_status pid s c)"
  unfolding evolves_def set_status_def
  by (auto simp: intro: exI[of _ s]) (metis council_proposal.surjective council_proposal.update_convs(6))

lemma expire_evolves: "evolves c (snd (expire_old_proposals now c))"
proof -
  have "\<exists>s. (if is_overdue now cfg p then p\<lparr>p_status := Expired\<rparr> else p) = p\<lparr>p_status := s\<rparr> \<and> (p_status p \<noteq> Active \<longrightarrow> s = p_status p)"
    for p cfg by (cases "is_overdue now cfg p") (auto simp: is_overdue_def intro: exI[of _ Expired] exI[of _ "p_status p"])
  then show ?thesis by (simp add: evolves_def expire_old_proposals_def map_of_map_value)
qed

lemma submit_evolves: "evolves c (snd (submit_proposal p c))"
proof (cases "p_id p \<in> dom (hm_get (proposals c)) \<or> length (proposals c) \<ge> unat (max_proposals (c_config c))")
  case True
  then show ?thesis by (auto simp: submit_proposal_def)
next
  case False
  have "\<exists>s. Some q = Some (q\<lparr>p_status := s\<rparr>) \<and> (p_status q \<noteq> Active \<longrightarrow> s = p_status q)" for q :: council_proposal
    by (rule exI[of _ "p_status q"]) simp
  with False show ?thesis by (auto simp: submit_proposal_def evolves_def length_hm_insert)
qed

lemma note_outcome_fields [simp]:
  "proposals (note_outcome pid w k c) = proposals c" "c_config (note_outcome pid w k c) = c_config c"
  "votes (note_outcome pid w k c) = votes c" "members (note_outcome pid w k c) = members c"
  by (simp_all add: note_outcome_def)

lemma fold_note_outcome_fields [simp]:
  "proposals (fold (note_outcome pid w) ks c) = proposals c" "c_config (fold (note_outcome pid w) ks c) = c_config c"
  "votes (fold (note_outcome pid w) ks c) = votes c" "members (fold (note_outcome pid w) ks c) = members c"
  by (induction ks arbitrary: c) simp_all

lemma ensure_reputation_fields [simp]:
  "proposals (ensure_reputation i c) = proposals c" "c_config (ensure_reputation i c) = c_config c"
  "votes (ensure_reputation i c) = votes c" "members (ensure_reputation i c) = members c"
  by (simp_all add: ensure_reputation_def)

lemma cast_vote_fields:
  "proposals (snd (cast_vote v c)) = proposals c \<and> c_config (snd (cast_vote v c)) = c_config c"
  by (auto simp: cast_vote_def split: option.splits)

text \<open>What a tally returns; the three outcomes share the shape of the new state.\<close>

lemma tally_cases:
  assumes "tally_votes ord pid c = (r, c')"
  obtains (error) err where "r = Inl err" "c' = c"
    | (counted) p s res where "r = Inr res" "c' = set_status pid s c" "hm_get (proposals c) pid = Some p" "p_status p = Active"
      "s \<in> {Passed, Rejected, Tied}"
proof (cases "hm_get (proposals c) pid")
  case None
  then show ?thesis using assms by (intro error[of "ProposalNotFound pid"]) (auto simp: tally_votes_def)
next
  case (Some p)
  show ?thesis
  proof (cases "p_status p = Active")
    case False
    then show ?thesis
      using assms Some by (intro error[of "ProposalNotActive pid (p_status p)"]) (auto simp: tally_votes_def)
  next
    case True
    then show ?thesis
      using assms counted[OF _ _ Some] Some
      by (fastforce simp: tally_votes_def Let_def split: if_splits prod.splits)
  qed
qed

lemma step_evolves: "council_step c c' \<Longrightarrow> evolves c c'"
proof (induction rule: council_step.induct)
  case (co_add m c r c')
  then show ?case by (auto simp: add_member_def split: if_splits intro: evolves_same)
next
  case (co_remove i c b c')
  then show ?case by (auto simp: remove_member_def intro: evolves_same)
next
  case (co_submit p c r c')
  then show ?case using submit_evolves[of c p] by simp
next
  case (co_expire now c n c')
  then show ?case using expire_evolves[of c now] by simp
next
  case (co_vote v c r c')
  then show ?case using cast_vote_fields[of v c] by (auto intro: evolves_same)
next
  case (co_tally ord pid c rt c')
  then show ?case by (cases rule: tally_cases) (auto intro: set_status_evolves)
next
  case (co_outcome c ord pid w)
  then show ?case by (auto simp: council_record_outcome_def intro: evolves_same)
next
  case (co_eject ord' c ej c')
  then show ?case by (auto simp: auto_eject_low_performers_def Let_def intro: evolves_same)
qed

interpretation evolution: invariant_system council_step "evolves c0" for c0
  by unfold_locales (metis evolves_trans step_evolves)

text \<open>Decisions are final: a proposal that is not open for voting, because it has passed, was rejected, tied,
  expired or was submitted as pending, is never changed again and never removed, whatever the council does afterwards.\<close>

theorem council_decisions_final:
  assumes "council_step\<^sup>*\<^sup>* c c'" and "hm_get (proposals c) i = Some p" and "p_status p \<noteq> Active"
  shows "hm_get (proposals c') i = Some p"
proof -
  have "evolves c c'" using evolution.run_inv[OF assms(1), of c] by simp
  then obtain s where "hm_get (proposals c') i = Some (p\<lparr>p_status := s\<rparr>)" "s = p_status p"
    using assms(2,3) unfolding evolves_def by blast
  then show ?thesis by simp
qed

definition sample_proposal :: "proposal_status \<Rightarrow> council_proposal" where
  "sample_proposal s = \<lparr>p_id = ''p'', p_title = ''t'', p_description = ''d'', submitted_by = ''a'', p_options = [''yes'', ''no''],
     p_status = s, p_created_ms = 0\<rparr>"

definition sample_council :: "proposal_status \<Rightarrow> council" where
  "sample_council s = \<lparr>c_config = council_config_default\<lparr>max_proposals := 1, min_members_for_quorum := 1\<rparr>,
     members = [(''a'', \<lparr>m_id = ''a'', m_name = ''A'', m_role = ''r'', voting_power = 2, specializations = [], is_active = True,
       joined_ms = 0\<rparr>)],
     proposals = [(''p'', sample_proposal s)],
     votes = [((''a'', ''p''), \<lparr>vote_member = ''a'', vote_proposal = ''p'', selected_option = ''no'', vote_weight = 2, vote_ms = 1,
       rationale = None\<rparr>)], reputation = []\<rparr>"

lemma council_decisions_final_witness:
  "hm_get (proposals (snd (tally_votes (\<lambda>xs. xs) ''p'' (sample_council Expired)))) ''p'' = Some (sample_proposal Expired)"
proof (rule council_decisions_final)
  show "council_step\<^sup>*\<^sup>* (sample_council Expired) (snd (tally_votes (\<lambda>xs. xs) ''p'' (sample_council Expired)))"
    by (rule r_into_rtranclp, rule co_tally) (rule surjective_pairing)
qed (simp_all add: sample_council_def sample_proposal_def)

text \<open>A council that holds as many proposals as its limit never accepts another one: decided and expired proposals are never
  removed and count towards the limit, so every later submission fails.\<close>

theorem council_full_forever:
  assumes "council_step\<^sup>*\<^sup>* c c'" and "unat (max_proposals (c_config c)) \<le> length (proposals c)"
  shows "snd (submit_proposal p c') = c' \<and> (\<exists>err. fst (submit_proposal p c') = Inl err)"
proof -
  have "evolves c c'" using evolution.run_inv[OF assms(1), of c] by simp
  then have "unat (max_proposals (c_config c')) \<le> length (proposals c')" using assms(2) by (simp add: evolves_def)
  then show ?thesis by (auto simp: submit_proposal_def)
qed

lemma council_full_forever_witness:
  "\<exists>err. fst (submit_proposal ((sample_proposal Active)\<lparr>p_id := ''q''\<rparr>) (sample_council Expired)) = Inl err"
  using council_full_forever[of "sample_council Expired" "sample_council Expired" "(sample_proposal Active)\<lparr>p_id := ''q''\<rparr>"]
  by (simp add: sample_council_def)

section \<open>Reputation is bounded\<close>

definition rep_ok :: "reputation_record \<Rightarrow> bool" where
  "rep_ok r \<longleftrightarrow> 0 \<le> accuracy r \<and> accuracy r \<le> 1 \<and> 1 / 2 \<le> influence_multiplier r \<and> influence_multiplier r \<le> 3 / 2 \<and>
     length (recent_window r) \<le> 50"

lemma window_weight_ge: "1 \<le> window_weight n i"
  by (simp add: window_weight_def)

lemma recent_accuracy_bounds: "0 \<le> recent_accuracy w \<and> recent_accuracy w \<le> 1"
proof (cases "w = []")
  case False
  let ?xs = "enumerate 0 w" and ?ww = "window_weight (length w)"
  let ?s = "sum_list (map (\<lambda>(i, acc). if acc then ?ww i else 0) ?xs)" and ?t = "sum_list (map (\<lambda>(i, acc). ?ww i) ?xs)"
  have nn: "0 \<le> ?ww i" for i using window_weight_ge[of "length w" i] by linarith
  have "0 \<le> ?s" by (rule sum_list_nonneg) (auto simp: nn)
  moreover have "?s \<le> ?t" by (rule sum_list_mono) (auto simp: nn)
  moreover have "recent_accuracy w = ?s / max ?t 1" using False by (simp add: recent_accuracy_def Let_def)
  ultimately show ?thesis by (simp add: divide_le_eq_1 le_max_iff_disj less_max_iff_disj)
qed (simp add: recent_accuracy_def)

lemma reputation_outcome_ok:
  assumes "rep_ok r"
  shows "rep_ok (reputation_outcome b r)"
proof -
  have "0 \<le> clamp x 0 1 \<and> clamp x 0 1 \<le> 1" for x by (simp add: clamp_def)
  then show ?thesis
    using assms by (auto simp: rep_ok_def reputation_outcome_def Let_def clamp_def)
qed

definition reps_ok :: "council \<Rightarrow> bool" where
  "reps_ok c \<longleftrightarrow> (\<forall>i r. hm_get (reputation c) i = Some r \<longrightarrow> rep_ok r)"

lemma reputation_new_ok [simp]: "rep_ok (reputation_new i w)"
  by (simp add: rep_ok_def reputation_new_def)

lemma note_outcome_ok: "reps_ok c \<Longrightarrow> reps_ok (note_outcome pid w k c)"
  by (auto simp: reps_ok_def note_outcome_def reputation_outcome_ok)

lemma fold_note_outcome_ok: "reps_ok c \<Longrightarrow> reps_ok (fold (note_outcome pid w) ks c)"
  by (induction ks arbitrary: c) (simp_all add: note_outcome_ok)

lemma ensure_reputation_ok: "reps_ok c \<Longrightarrow> reps_ok (ensure_reputation i c)"
  by (auto simp: reps_ok_def ensure_reputation_def)

lemma reps_ok_same: "reputation c' = reputation c \<Longrightarrow> reps_ok c \<Longrightarrow> reps_ok c'"
  by (simp add: reps_ok_def)

lemma step_reps_ok: "council_step c c' \<Longrightarrow> reps_ok c \<Longrightarrow> reps_ok c'"
proof (induction rule: council_step.induct)
  case (co_vote v c r c')
  then show ?case
    using ensure_reputation_ok[OF reps_ok_same[of "c\<lparr>votes := hm_insert (vote_member v, vote_proposal v) v (votes c)\<rparr>" c]]
    by (auto simp: cast_vote_def split: option.splits if_splits)
next
  case (co_tally ord pid c rt c')
  from co_tally(1) show ?case
    by (cases rule: tally_cases) (use co_tally(2) in \<open>auto simp: set_status_def intro: reps_ok_same\<close>)
next
  case (co_outcome c ord pid w)
  then show ?case by (simp add: council_record_outcome_def fold_note_outcome_ok)
qed (auto simp: add_member_def remove_member_def submit_proposal_def expire_old_proposals_def
      auto_eject_low_performers_def Let_def split: if_splits intro: reps_ok_same)

interpretation reputations: invariant_system council_step reps_ok
  by unfold_locales (rule step_reps_ok)

text \<open>In every run from a new council the multiplier of a member stays between one half and three halves and the window of
  recent outcomes holds at most 50; so a configured ejection window above 50 means that nobody is ever ejected.\<close>

theorem council_reputation_bounds:
  assumes "council_step\<^sup>*\<^sup>* (council_new cfg) c"
  shows "(case get_reputation i c of None \<Rightarrow> True
          | Some r \<Rightarrow> 1 / 2 \<le> influence_multiplier r \<and> influence_multiplier r \<le> 3 / 2 \<and> length (recent_window r) \<le> 50) \<and>
    (valid_order ord \<and> ejection_window (c_config c) = Some n \<and> 50 < n \<longrightarrow> fst (auto_eject_low_performers ord c) = [])"
proof -
  have ok: "reps_ok c"
    by (rule reputations.run_inv[OF assms]) (simp add: reps_ok_def council_new_def)
  have "\<not> should_eject (c_config c) (the (hm_get (reputation c) j))"
    if "j \<in> dom (hm_get (reputation c))" "ejection_window (c_config c) = Some n" "50 < n" for j
  proof -
    obtain r where r: "hm_get (reputation c) j = Some r" using \<open>j \<in> _\<close> by blast
    then have "length (recent_window r) \<le> 50" using ok by (auto simp: reps_ok_def rep_ok_def)
    then show ?thesis using that r by (simp add: should_eject_def Let_def)
  qed
  then show ?thesis
    using ok by (auto simp: get_reputation_def reps_ok_def rep_ok_def auto_eject_low_performers_def Let_def filter_empty_conv
        split: option.splits)
qed

lemma council_reputation_bounds_witness:
  "fst (auto_eject_low_performers (\<lambda>xs. xs) (council_new (council_config_default\<lparr>ejection_window := Some 60\<rparr>))) = []"
  using council_reputation_bounds[of "council_config_default\<lparr>ejection_window := Some 60\<rparr>"
      "council_new (council_config_default\<lparr>ejection_window := Some 60\<rparr>)" "[]" "\<lambda>xs. xs" 60]
  by (simp add: council_new_def council_config_default_def)

section \<open>What a tally decides\<close>

definition votes_ok :: "council \<Rightarrow> bool" where
  "votes_ok c \<longleftrightarrow> (\<forall>k v. hm_get (votes c) k = Some v \<longrightarrow>
     (\<exists>p. hm_get (proposals c) (vote_proposal v) = Some p \<and> selected_option v \<in> set (p_options p)))"

lemma votes_ok_evolves: "votes_ok c \<Longrightarrow> evolves c c' \<Longrightarrow> votes c' = votes c \<Longrightarrow> votes_ok c'"
  unfolding votes_ok_def evolves_def by (metis council_proposal.select_convs(5) council_proposal.surjective council_proposal.update_convs(6))

lemma cast_vote_votes_ok: "votes_ok c \<Longrightarrow> votes_ok (snd (cast_vote v c))"
  by (auto simp: votes_ok_def cast_vote_def split: option.splits)

lemma step_votes_ok: "council_step c c' \<Longrightarrow> votes_ok c \<Longrightarrow> votes_ok c'"
proof (frule step_evolves, induction rule: council_step.induct)
  case (co_vote v c r c')
  then show ?case using cast_vote_votes_ok[of c v] by simp
next
  case (co_tally ord pid c rt c')
  from co_tally(1) have "votes c' = votes c" by (cases rule: tally_cases) (simp_all add: set_status_def)
  with co_tally show ?case by (blast intro: votes_ok_evolves)
next
  case (co_outcome c ord pid w)
  then show ?case by (auto simp: council_record_outcome_def intro: votes_ok_evolves)
qed (auto simp: add_member_def remove_member_def submit_proposal_def expire_old_proposals_def
      auto_eject_low_performers_def Let_def split: if_splits intro: votes_ok_evolves)

interpretation ballots: invariant_system council_step votes_ok
  by unfold_locales (rule step_votes_ok)

definition power_of :: "council \<Rightarrow> council_vote list \<Rightarrow> string \<Rightarrow> nat" where
  "power_of c vs opt =
     sum_list (map (\<lambda>v. unat (effective_voting_power (vote_member v) (vote_weight v) c)) (filter (\<lambda>v. selected_option v = opt) vs))"

definition power_sum :: "council \<Rightarrow> council_vote list \<Rightarrow> nat" where
  "power_sum c vs = sum_list (map (\<lambda>v. unat (effective_voting_power (vote_member v) (vote_weight v) c)) vs)"

lemma power_of_le: "power_of c vs opt \<le> power_sum c vs"
  by (induction vs) (auto simp: power_of_def power_sum_def)

lemma count_votes_fold:
  "snd (fold (count_vote c) vs (t, n)) = n + of_nat (power_sum c vs) \<and>
   hm_get (fst (fold (count_vote c) vs (t, n))) opt =
     (if opt \<in> dom (hm_get t) \<or> opt \<in> selected_option ` set vs
      then Some (case_option 0 id (hm_get t opt) + of_nat (power_of c vs opt)) else None)"
proof (induction vs arbitrary: t n)
  case (Cons v vs)
  obtain t' n' where tn: "count_vote c v (t, n) = (t', n')" by fastforce
  then have "n' = n + effective_voting_power (vote_member v) (vote_weight v) c"
    "hm_get t' = (hm_get t)(selected_option v \<mapsto> case_option 0 id (hm_get t (selected_option v)) +
       effective_voting_power (vote_member v) (vote_weight v) c)"
    by (auto simp: count_vote_def Let_def fun_eq_iff split: option.splits)
  then show ?case using Cons.IH[of t' n'] by (auto simp: tn power_of_def power_sum_def algebra_simps)
qed (auto simp: power_of_def power_sum_def split: option.splits)

lemma init_tallies: "hm_get (fold (\<lambda>opt. hm_insert opt 0) options m) opt = (if opt \<in> set options then Some 0 else hm_get m opt)"
  by (induction options arbitrary: m) auto

lemma tally_all_lookup:
  assumes "\<forall>v \<in> set vs. selected_option v \<in> set options"
  shows "hm_get (fst (tally_all c options vs)) opt = (if opt \<in> set options then Some (of_nat (power_of c vs opt)) else None)"
  using assms count_votes_fold[of c vs "fold (\<lambda>opt. hm_insert opt 0) options []" 0 opt]
  by (auto simp: tally_all_def init_tallies dom_def)

lemma tally_all_wf: "hm_wf (fst (tally_all c options vs))"
proof -
  have init: "hm_wf m \<Longrightarrow> hm_wf (fold (\<lambda>opt. hm_insert opt 0) options m)" for m
    by (induction options arbitrary: m) auto
  have count: "hm_wf t \<Longrightarrow> hm_wf (fst (fold (count_vote c) vs (t, n)))" for t n
    by (induction vs arbitrary: t n) (auto simp: count_vote_def Let_def)
  show ?thesis unfolding tally_all_def by (rule count, rule init) simp
qed

lemma max_tally_ge: "(opt, n) \<in> set t \<Longrightarrow> n \<le> max_tally t"
  unfolding max_tally_def by (induction t) (auto simp: le_max_iff_disj)

lemma max_tally_attained: "max_tally t > 0 \<Longrightarrow> \<exists>opt. (opt, max_tally t) \<in> set t"
  unfolding max_tally_def by (induction t) (auto simp: max_def split: if_splits)

lemma winners_iff:
  assumes wf: "hm_wf t" and pos: "0 < n"
  shows "opt \<in> set (winners t) \<and> hm_get t opt = Some n \<longleftrightarrow>
    hm_get t opt = Some n \<and> (\<forall>opt' m. hm_get t opt' = Some m \<longrightarrow> m \<le> n)"
proof -
  have g: "hm_get t opt = Some n \<longleftrightarrow> (opt, n) \<in> set t" for opt n
    using wf by (simp add: hm_wf_def)
  have "n = max_tally t" if "(opt, n) \<in> set t" "\<forall>opt' m. (opt', m) \<in> set t \<longrightarrow> m \<le> n"
    using that pos max_tally_ge[of opt n t] max_tally_attained[of t] by (metis antisym le_less_trans not_le)
  moreover have "(opt, n) \<in> set t \<Longrightarrow> opt \<in> set (winners t) \<longleftrightarrow> n = max_tally t"
    using wf pos by (auto simp: winners_def hm_wf_def image_iff eq_key_imp_eq_value)
  ultimately show ?thesis
    unfolding g using max_tally_ge[of _ _ t] by blast
qed

lemma winners_pos: "hm_wf t \<Longrightarrow> opt \<in> set (winners t) \<Longrightarrow> \<exists>n. hm_get t opt = Some n \<and> 0 < n"
  by (auto simp: winners_def hm_wf_def)

lemma winners_Nil_iff: "winners t = [] \<longleftrightarrow> max_tally t = 0"
  using max_tally_attained[of t] by (auto simp: winners_def filter_empty_conv word_gt_0 split: prod.splits)

lemma distinct_winners: "hm_wf t \<Longrightarrow> distinct (winners t)"
  by (simp add: winners_def hm_wf_def distinct_map_filter)

lemma winners_of_powers:
  assumes wf: "hm_wf t" and get: "\<And>opt. hm_get t opt = (if opt \<in> A then Some (of_nat (f opt) :: u32) else None)"
    and small: "\<And>opt. f opt < 2 ^ 32"
  shows "set (winners t) = {opt \<in> A. 0 < f opt \<and> (\<forall>opt' \<in> A. f opt' \<le> f opt)}"
proof -
  have le: "(of_nat (f a) :: u32) \<le> of_nat (f b) \<longleftrightarrow> f a \<le> f b" for a b
    using small[of a] small[of b] by (simp add: word_le_nat_alt unat_of_nat)
  have pos: "0 < (of_nat (f a) :: u32) \<longleftrightarrow> 0 < f a" for a
    using small[of a] by (simp add: word_less_nat_alt unat_of_nat)
  have "opt \<in> set (winners t) \<longleftrightarrow> (\<forall>opt' \<in> A. f opt' \<le> f opt)" if "opt \<in> A" "0 < f opt" for opt
    using winners_iff[OF wf, of "of_nat (f opt)" opt] that by (auto simp: get le pos)
  moreover have "opt \<in> A \<and> 0 < f opt" if "opt \<in> set (winners t)" for opt
    using winners_pos[OF wf that] by (auto simp: get pos split: if_splits)
  ultimately show ?thesis by blast
qed

lemma length_gt_1_iff: "distinct xs \<Longrightarrow> 1 < length xs \<longleftrightarrow> (\<exists>a \<in> set xs. \<exists>b \<in> set xs. a \<noteq> b)"
  by (cases xs; cases "tl xs") auto

lemma maximal_singleton:
  fixes f :: "'a \<Rightarrow> nat"
  shows "{x \<in> A. 0 < f x \<and> (\<forall>y \<in> A. f y \<le> f x)} = {w} \<longleftrightarrow> w \<in> A \<and> 0 < f w \<and> (\<forall>x \<in> A. x \<noteq> w \<longrightarrow> f x < f w)"
    (is "?M = {w} \<longleftrightarrow> ?strict")
proof
  assume M: "?M = {w}"
  then have w: "w \<in> A" "0 < f w" "\<forall>y \<in> A. f y \<le> f w" by auto
  have "f x < f w" if "x \<in> A" "x \<noteq> w" for x
  proof (rule ccontr)
    assume "\<not> f x < f w"
    then have "f x = f w" using w(3) that(1) by (simp add: antisym)
    then have "x \<in> ?M" using w that by simp
    with M that(2) show False by blast
  qed
  with w show ?strict by blast
next
  assume s: ?strict
  then have "\<forall>y \<in> A. f y \<le> f w" by (metis less_imp_le_nat order_refl)
  moreover have "x = w" if "x \<in> A" "\<forall>y \<in> A. f y \<le> f x" for x
    using s that by (metis linorder_not_le)
  ultimately show "?M = {w}" using s by auto
qed

lemma singleton_list_iff: "distinct xs \<Longrightarrow> xs = [w] \<longleftrightarrow> set xs = {w}"
  by (cases xs; cases "tl xs") auto

lemma proposal_votes_options:
  assumes "votes_ok c" and "valid_order ord" and "hm_get (proposals c) pid = Some p"
  shows "\<forall>v \<in> set (proposal_votes ord pid c). selected_option v \<in> set (p_options p)"
  using assms by (fastforce simp: proposal_votes_def votes_ok_def ran_def)

text \<open>C19: What a tally decides. When an active proposal of a council reached from an empty one has its quorum and the weights
  do not overflow, the winner is the option whose voters together have strictly more effective voting power than those
  of every other option; the proposal is tied exactly when two options share the greatest positive power; and the status
  stored in the council is the one reported.\<close>

theorem council_tally_decides:
  fixes c :: council
  assumes "council_step\<^sup>*\<^sup>* (council_new cfg) c" and ord: "valid_order ord"
    and p: "hm_get (proposals c) pid = Some p" "p_status p = Active"
    and quorum: "min_members_for_quorum (c_config c) \<le> of_nat (length (proposal_votes ord pid c))"
      "of_nat (length (proposal_votes ord pid c)) \<le> (of_nat (length (members c)) :: u32)"
    and small: "power_sum c (proposal_votes ord pid c) < 2 ^ 32"
  shows "\<exists>res c'. tally_votes ord pid c = (Inr res, c') \<and>
    (\<forall>w. winning_option res = Some w \<longleftrightarrow> w \<in> set (p_options p) \<and> 0 < power_of c (proposal_votes ord pid c) w \<and>
       (\<forall>x \<in> set (p_options p). x \<noteq> w \<longrightarrow>
          power_of c (proposal_votes ord pid c) x < power_of c (proposal_votes ord pid c) w)) \<and>
    (vr_tie res \<longleftrightarrow> (\<exists>a \<in> set (p_options p). \<exists>b \<in> set (p_options p). a \<noteq> b \<and>
       0 < power_of c (proposal_votes ord pid c) a \<and>
       power_of c (proposal_votes ord pid c) b = power_of c (proposal_votes ord pid c) a \<and>
       (\<forall>x \<in> set (p_options p). power_of c (proposal_votes ord pid c) x \<le> power_of c (proposal_votes ord pid c) a))) \<and>
    hm_get (proposals c') pid = Some (p\<lparr>p_status :=
       (if vr_tie res then Tied else if winning_option res = None then Rejected else Passed)\<rparr>)"
proof -
  let ?vs = "proposal_votes ord pid c" and ?A = "set (p_options p)"
  let ?pw = "power_of c ?vs"
  define t where "t = fst (tally_all c (p_options p) ?vs)"
  have "votes_ok c" by (rule ballots.run_inv[OF assms(1)]) (simp add: votes_ok_def council_new_def)
  note opts = proposal_votes_options[OF this ord p(1)]
  have wf: "hm_wf t" by (simp add: t_def tally_all_wf)
  have "?pw opt < 2 ^ 32" for opt using power_of_le[of c ?vs opt] small by linarith
  from winners_of_powers[OF wf _ this] have ws: "set (winners t) = {opt \<in> ?A. 0 < ?pw opt \<and> (\<forall>x \<in> ?A. ?pw x \<le> ?pw opt)}"
    using tally_all_lookup[OF opts] by (simp add: t_def)
  have dist: "distinct (winners t)" by (rule distinct_winners[OF wf])
  have opne: "p_options p \<noteq> []" if "winners t \<noteq> []"
    using that ws by (metis (no_types, lifting) empty_iff list.set(1) list.set_intros(1) mem_Collect_eq neq_Nil_conv)
  let ?tie = "1 < length (winners t)" and ?passed = "length (winners t) = 1"
  obtain n where tn: "tally_all c (p_options p) ?vs = (t, n)" by (metis t_def prod.collapse)
  have passed: "(\<not> ?tie \<and> p_options p \<noteq> [] \<and> max_tally t > 0) = ?passed"
    using opne winners_Nil_iff[of t] by (cases "winners t") (auto simp: word_gt_0)
  let ?res = "\<lparr>vr_proposal_id = pid, option_tallies = t, vr_total_votes = n, vr_passed = ?passed,
      winning_option = (if ?passed then Some (hd (winners t)) else None), vr_tie = ?tie\<rparr>"
  have eq: "tally_votes ord pid c = (Inr ?res, set_status pid (if ?tie then Tied else if ?passed then Passed else Rejected) c)"
    unfolding tally_votes_def using p quorum passed by (simp add: Let_def tn) blast
  have win: "?passed \<and> hd (winners t) = w \<longleftrightarrow> winners t = [w]" for w
    by (cases "winners t") auto
  have sing: "winners t = [w] \<longleftrightarrow> w \<in> ?A \<and> 0 < ?pw w \<and> (\<forall>x \<in> ?A. x \<noteq> w \<longrightarrow> ?pw x < ?pw w)" for w
    unfolding singleton_list_iff[OF dist] ws by (rule maximal_singleton)
  have tie: "?tie \<longleftrightarrow> (\<exists>a \<in> ?A. \<exists>b \<in> ?A. a \<noteq> b \<and> 0 < ?pw a \<and> ?pw b = ?pw a \<and> (\<forall>x \<in> ?A. ?pw x \<le> ?pw a))"
    unfolding length_gt_1_iff[OF dist] ws by (auto intro: antisym) (metis le_antisym)
  let ?c' = "set_status pid (if ?tie then Tied else if ?passed then Passed else Rejected) c"
  show ?thesis
  proof (intro exI[of _ ?res] exI[of _ ?c'] conjI allI)
    show "tally_votes ord pid c = (Inr ?res, ?c')" by (rule eq)
    show "winning_option ?res = Some w \<longleftrightarrow> w \<in> ?A \<and> 0 < ?pw w \<and> (\<forall>x \<in> ?A. x \<noteq> w \<longrightarrow> ?pw x < ?pw w)" for w
      unfolding sing[symmetric] win[symmetric] by simp
    show "vr_tie ?res \<longleftrightarrow> (\<exists>a \<in> ?A. \<exists>b \<in> ?A. a \<noteq> b \<and> 0 < ?pw a \<and> ?pw b = ?pw a \<and> (\<forall>x \<in> ?A. ?pw x \<le> ?pw a))"
      unfolding tie[symmetric] by simp
    show "hm_get (proposals ?c') pid =
        Some (p\<lparr>p_status := if vr_tie ?res then Tied else if winning_option ?res = None then Rejected else Passed\<rparr>)"
      using p(1) by (simp add: set_status_def)
  qed
qed

definition sample_run :: council where
  "sample_run =
     (let member = \<lparr>m_id = ''a'', m_name = ''A'', m_role = ''r'', voting_power = 2, specializations = [], is_active = True,
        joined_ms = 0\<rparr>;
        vote = \<lparr>vote_member = ''a'', vote_proposal = ''p'', selected_option = ''no'', vote_weight = 2, vote_ms = 1,
          rationale = None\<rparr>
      in snd (cast_vote vote (snd (submit_proposal (sample_proposal Active)
           (snd (add_member member (council_new (council_config_default\<lparr>min_members_for_quorum := 1\<rparr>))))))))"

lemma sample_run_reachable: "council_step\<^sup>*\<^sup>* (council_new (council_config_default\<lparr>min_members_for_quorum := 1\<rparr>)) sample_run"
  unfolding sample_run_def Let_def
  by (rule rtranclp.rtrancl_into_rtrancl[OF rtranclp.rtrancl_into_rtrancl[OF r_into_rtranclp]],
      rule co_add, rule surjective_pairing, rule co_submit, rule surjective_pairing, rule co_vote, rule surjective_pairing)

lemma council_tally_decides_witness:
  "\<exists>res c'. tally_votes (\<lambda>xs. xs) ''p'' sample_run = (Inr res, c') \<and> winning_option res = Some ''no'' \<and>
     hm_get (proposals c') ''p'' = Some (sample_proposal Passed)"
proof -
  have vs: "proposal_votes (\<lambda>xs. xs) ''p'' sample_run =
      [\<lparr>vote_member = ''a'', vote_proposal = ''p'', selected_option = ''no'', vote_weight = 2, vote_ms = 1, rationale = None\<rparr>]"
    by code_simp
  have pr: "hm_get (proposals sample_run) ''p'' = Some (sample_proposal Active)" by code_simp
  have pw: "effective_voting_power ''a'' 2 sample_run = 2" by code_simp
  have q: "min_members_for_quorum (c_config sample_run) = 1" "length (members sample_run) = 1" by code_simp+
  have powers: "power_of sample_run (proposal_votes (\<lambda>xs. xs) ''p'' sample_run) x = (if x = ''no'' then 2 else 0)" for x
    by (simp add: vs power_of_def pw)
  show ?thesis
    using council_tally_decides[OF sample_run_reachable valid_order_id pr, unfolded powers]
    by (auto simp: vs q pw power_sum_def sample_proposal_def)
qed

end
