(* ===== verification/FaultDetector.thy ===== *)
theory FaultDetector
  imports Complex_Main TextOps
begin

text \<open>
  Fault detection, \<open>src/fault_tolerance/\<close>: the types of \<open>types.rs\<close>, the state and the health computation of \<open>mod.rs\<close>,
  and the operations of \<open>detector.rs\<close>. Every operation runs under the write lock of the engine and is one
  function on the state; the clock and the iteration order of the maps are arguments. Ratios of node counts are
  rationals. The theorems describe the heartbeat check, the groups of isolated nodes, and the capacity limits.
\<close>

section \<open>Data\<close>

datatype node_status = Online | Degraded | Offline | Recovering

datatype fault_type =
    Crash | Hang | Oom | NetworkSplit | NetworkTimeout | NetworkPartition | FileIOError | ProcessCrash
  | DataCorruption | ResourceExhaustion | RateLimit | AuthFailure | LatencySpike u64 | PartialWrite

fun fault_label :: "fault_type \<Rightarrow> string" where
  "fault_label Crash = ''crash''"
| "fault_label Hang = ''hang''"
| "fault_label Oom = ''oom''"
| "fault_label NetworkSplit = ''network_split''"
| "fault_label NetworkTimeout = ''network_timeout''"
| "fault_label NetworkPartition = ''network_partition''"
| "fault_label FileIOError = ''file_io_error''"
| "fault_label ProcessCrash = ''process_crash''"
| "fault_label ResourceExhaustion = ''resource_exhaustion''"
| "fault_label DataCorruption = ''data_corruption''"
| "fault_label RateLimit = ''rate_limit''"
| "fault_label AuthFailure = ''auth_failure''"
| "fault_label (LatencySpike _) = ''latency_spike''"
| "fault_label PartialWrite = ''partial_write''"

record fault_event =
  f_id :: string
  f_node :: string
  f_type :: fault_type
  severity :: "8 word"
  f_description :: string
  detected_ms :: u64
  resolved_ms :: "u64 option"
  recovered :: bool

datatype isolation_level = Monitor | Quarantine | Shutdown

record isolation_group =
  group_id :: string
  nodes :: "string list"
  g_level :: isolation_level
  g_created_ms :: u64

record heartbeat_record =
  h_node :: string
  last_heartbeat_ms :: u64
  missed_beats :: u32
  h_status :: node_status
  has_reported :: bool

record ft_config =
  heartbeat_timeout_ms :: u64
  max_missed_beats :: u32
  recovery_check_interval_ms :: u64

definition ft_config_default :: ft_config where
  "ft_config_default = \<lparr>heartbeat_timeout_ms = 15000, max_missed_beats = 3, recovery_check_interval_ms = 5000\<rparr>"

datatype recovery_state = Pending | InProgress | Completed | Failed

datatype recovery_action = RestartNode | FailoverToBackup | ScaleUp | Rebalance | NotifyOperator

record recovery_plan =
  plan_id :: string
  plan_node :: string
  plan_actions :: "recovery_action list"
  plan_state :: recovery_state
  plan_created_ms :: u64
  plan_completed_ms :: "u64 option"
  plan_result :: "string option"

datatype escalation_level = Auto | Coordinated | Manual

datatype cluster_health = Healthy | ClusterDegraded | Critical | Down

record cluster_health_config =
  healthy_threshold :: rat
  degraded_threshold :: rat
  unhealthy_threshold :: rat
  critical_fault_count :: nat

definition cluster_health_config_default :: cluster_health_config where
  "cluster_health_config_default =
     \<lparr>healthy_threshold = 1 / 2, degraded_threshold = 1 / 5, unhealthy_threshold = 3 / 10, critical_fault_count = 10\<rparr>"

definition max_faults :: nat where "max_faults = 500"

definition max_recovery_plans :: nat where "max_recovery_plans = 200"

definition max_heartbeats :: nat where "max_heartbeats = 1000"

definition max_groups :: nat where "max_groups = 200"

record ft_engine =
  ft_cfg :: ft_config
  heartbeats :: "(string, heartbeat_record) hmap"
  faults :: "(string, fault_event) hmap"
  isolation_groups :: "(string, isolation_group) hmap"
  fault_counter :: u64
  group_counter :: u64
  recovery_plans :: "(string, recovery_plan) hmap"
  plan_counter :: u64

definition ft_new :: "ft_config \<Rightarrow> ft_engine" where
  "ft_new cfg = \<lparr>ft_cfg = cfg, heartbeats = [], faults = [], isolation_groups = [], fault_counter = 0, group_counter = 0,
     recovery_plans = [], plan_counter = 0\<rparr>"

datatype ft_error =
    NodeAlreadyRegistered string
  | NodeNotRegistered string
  | FaultNotFound string
  | FaultAlreadyResolved string
  | PlanNotFound string
  | PlanNotPending string
  | PlanNotInProgress string

section \<open>Operations\<close>

definition insert_fault ::
  "string \<Rightarrow> fault_type \<Rightarrow> 8 word \<Rightarrow> string \<Rightarrow> u64 \<Rightarrow> ft_engine \<Rightarrow> string \<times> ft_engine" where
  "insert_fault node ft sev desc now s =
     (let n = fault_counter s + 1; fid = ''fault-'' @ show_word n
      in (fid, s\<lparr>fault_counter := n,
           faults := hm_insert fid \<lparr>f_id = fid, f_node = node, f_type = ft, severity = sev, f_description = desc,
             detected_ms = now, resolved_ms = None, recovered = False\<rparr> (faults s)\<rparr>))"

text \<open>Removing the entry with the least key among those visited first.\<close>

definition evict_min :: "string iter_order \<Rightarrow> ('v \<Rightarrow> u64) \<Rightarrow> nat \<Rightarrow> (string, 'v) hmap \<Rightarrow> (string, 'v) hmap" where
  "evict_min ord key limit m =
     (if length m > limit
      then (case first_min (\<lambda>k. key (the (hm_get m k))) (hm_keys ord m) of None \<Rightarrow> m | Some k \<Rightarrow> hm_remove k m)
      else m)"

definition register_node :: "string iter_order \<Rightarrow> u64 \<Rightarrow> string \<Rightarrow> ft_engine \<Rightarrow> (ft_error + unit) \<times> ft_engine" where
  "register_node ord now node s =
     (if hm_contains (heartbeats s) node then (Inl (NodeAlreadyRegistered node), s)
      else (Inr (), s\<lparr>heartbeats := evict_min ord last_heartbeat_ms max_heartbeats
              (hm_insert node \<lparr>h_node = node, last_heartbeat_ms = now, missed_beats = 0, h_status = Online,
                has_reported = False\<rparr> (heartbeats s))\<rparr>))"

definition leave_group :: "string \<Rightarrow> string \<Rightarrow> (string, isolation_group) hmap \<Rightarrow> (string, isolation_group) hmap" where
  "leave_group node gid gs =
     (let gs = hm_modify gid (\<lambda>g. g\<lparr>nodes := filter (\<lambda>n. n \<noteq> node) (nodes g)\<rparr>) gs
      in case hm_get gs gid of
           Some g \<Rightarrow> if nodes g = [] then hm_remove gid gs else gs
         | None \<Rightarrow> gs)"

definition leave_groups ::
  "string iter_order \<Rightarrow> string \<Rightarrow> (string, isolation_group) hmap \<Rightarrow> (string, isolation_group) hmap" where
  "leave_groups ord node gs =
     fold (leave_group node) (filter (\<lambda>k. node \<in> set (nodes (the (hm_get gs k)))) (hm_keys ord gs)) gs"

definition unregister_node :: "string iter_order \<Rightarrow> string \<Rightarrow> ft_engine \<Rightarrow> (ft_error + unit) \<times> ft_engine" where
  "unregister_node ord node s =
     (if \<not> hm_contains (heartbeats s) node then (Inl (NodeNotRegistered node), s)
      else (Inr (), s\<lparr>heartbeats := hm_remove node (heartbeats s),
              faults := hm_retain (\<lambda>f. f_node f \<noteq> node) (faults s),
              isolation_groups := leave_groups ord node (isolation_groups s),
              recovery_plans := hm_retain (\<lambda>p. plan_node p \<noteq> node) (recovery_plans s)\<rparr>))"

definition resolved :: "u64 \<Rightarrow> fault_event \<Rightarrow> fault_event" where
  "resolved now f = f\<lparr>resolved_ms := Some now, recovered := True\<rparr>"

definition report_heartbeat :: "u64 \<Rightarrow> string \<Rightarrow> ft_engine \<Rightarrow> (ft_error + unit) \<times> ft_engine" where
  "report_heartbeat now node s =
     (case hm_get (heartbeats s) node of
        None \<Rightarrow> (Inl (NodeNotRegistered node), s)
      | Some r \<Rightarrow>
          (let r' = r\<lparr>last_heartbeat_ms := now, missed_beats := 0, has_reported := True\<rparr>
           in if h_status r = Offline \<or> h_status r = Recovering
              then (Inr (), s\<lparr>heartbeats := hm_insert node (r'\<lparr>h_status := Online\<rparr>) (heartbeats s),
                      faults := hm_map (\<lambda>f. if f_node f = node \<and> \<not> recovered f then resolved now f else f) (faults s)\<rparr>)
              else (Inr (), s\<lparr>heartbeats := hm_insert node r' (heartbeats s)\<rparr>)))"

definition evict_done ::
  "string iter_order \<Rightarrow> ('v \<Rightarrow> bool) \<Rightarrow> ('v \<Rightarrow> u64) \<Rightarrow> nat \<Rightarrow> (string, 'v) hmap \<Rightarrow> (string, 'v) hmap" where
  "evict_done ord finished time limit m =
     (if length m > limit
      then (let ks = filter (\<lambda>k. finished (the (hm_get m k))) (hm_keys ord m)
            in fold hm_remove (take (length m - limit) (sort_key (\<lambda>k. time (the (hm_get m k))) ks)) m)
      else m)"

definition report_fault ::
  "string iter_order \<Rightarrow> u64 \<Rightarrow> string \<Rightarrow> fault_type \<Rightarrow> 8 word \<Rightarrow> string \<Rightarrow> ft_engine \<Rightarrow> (ft_error + string) \<times> ft_engine" where
  "report_fault ord now node ft sev desc s =
     (if \<not> hm_contains (heartbeats s) node then (Inl (NodeNotRegistered node), s)
      else
        (let (fid, s) = insert_fault node ft sev desc now s
         in (Inr fid, s\<lparr>faults := evict_done ord recovered detected_ms max_faults (faults s),
               heartbeats := hm_modify node (\<lambda>r.
                 if sev \<ge> 8 \<and> h_status r \<noteq> Offline then r\<lparr>h_status := Offline\<rparr>
                 else if sev \<ge> 4 \<and> h_status r = Online then r\<lparr>h_status := Degraded\<rparr>
                 else r) (heartbeats s)\<rparr>)))"

definition resolve_fault :: "u64 \<Rightarrow> string \<Rightarrow> ft_engine \<Rightarrow> (ft_error + unit) \<times> ft_engine" where
  "resolve_fault now fid s =
     (case hm_get (faults s) fid of
        None \<Rightarrow> (Inl (FaultNotFound fid), s)
      | Some f \<Rightarrow>
          if recovered f then (Inl (FaultAlreadyResolved fid), s)
          else (Inr (), s\<lparr>faults := hm_insert fid (resolved now f) (faults s)\<rparr>))"

definition level_status :: "isolation_level \<Rightarrow> heartbeat_record \<Rightarrow> heartbeat_record" where
  "level_status level r =
     (case level of Shutdown \<Rightarrow> r\<lparr>h_status := Offline\<rparr> | Quarantine \<Rightarrow> r\<lparr>h_status := Degraded\<rparr> | Monitor \<Rightarrow> r)"

definition isolate_node ::
  "string iter_order \<Rightarrow> u64 \<Rightarrow> string \<Rightarrow> isolation_level \<Rightarrow> ft_engine \<Rightarrow> (ft_error + unit) \<times> ft_engine" where
  "isolate_node ord now node level s =
     (if \<not> hm_contains (heartbeats s) node then (Inl (NodeNotRegistered node), s)
      else
        (let s = s\<lparr>heartbeats := hm_modify node (level_status level) (heartbeats s)\<rparr>; gs = isolation_groups s
         in case find (\<lambda>k. node \<in> set (nodes (the (hm_get gs k)))) (hm_keys ord gs) of
              Some k \<Rightarrow> (Inr (), s\<lparr>isolation_groups := hm_modify k (\<lambda>g. g\<lparr>g_level := level\<rparr>) gs\<rparr>)
            | None \<Rightarrow>
                (let n = group_counter s + 1; gid = ''group-'' @ show_word n
                 in (Inr (), s\<lparr>group_counter := n,
                      isolation_groups := evict_min ord g_created_ms max_groups
                        (hm_insert gid \<lparr>group_id = gid, nodes = [node], g_level = level, g_created_ms = now\<rparr> gs)\<rparr>))))"

definition saturating_inc :: "u32 \<Rightarrow> u32" where
  "saturating_inc n = (if n = - 1 then n else n + 1)"

definition elapsed_since :: "u64 \<Rightarrow> u64 \<Rightarrow> u64" where
  "elapsed_since now past = (if past \<le> now then now - past else 0)"

definition beats_missed :: "ft_config \<Rightarrow> u64 \<Rightarrow> heartbeat_record \<Rightarrow> u32" where
  "beats_missed cfg now r =
     (if elapsed_since now (last_heartbeat_ms r) \<ge> heartbeat_timeout_ms cfg
      then min (saturating_inc (missed_beats r)) (max_missed_beats cfg) else 0)"

definition active_fault :: "string \<Rightarrow> ft_engine \<Rightarrow> bool" where
  "active_fault node s = list_ex (\<lambda>(k, f). f_node f = node \<and> \<not> recovered f) (faults s)"

definition outage_text :: "string \<Rightarrow> u32 \<Rightarrow> string" where
  "outage_text node n = ''node '' @ [CHR 0x27] @ node @ [CHR 0x27] @ '' missed '' @ show_word n @ '' consecutive heartbeats''"

definition check_node :: "u64 \<Rightarrow> string \<Rightarrow> string list \<times> ft_engine \<Rightarrow> string list \<times> ft_engine" where
  "check_node now node os =
     (let (offenders, s) = os
      in case hm_get (heartbeats s) node of
           None \<Rightarrow> (offenders, s)
         | Some r \<Rightarrow>
             if \<not> has_reported r then (offenders, s)
             else
               (let m = beats_missed (ft_cfg s) now r; limit = max_missed_beats (ft_cfg s); r = r\<lparr>missed_beats := m\<rparr>
                in if m \<ge> limit
                   then (let s = s\<lparr>heartbeats := hm_insert node (r\<lparr>h_status := Offline\<rparr>) (heartbeats s)\<rparr>
                         in (offenders @ [node],
                             if active_fault node s then s
                             else snd (insert_fault node NetworkTimeout 8 (outage_text node limit) now s)))
                   else
                     (offenders, s\<lparr>heartbeats := hm_insert node
                        (if m > 0 then r\<lparr>h_status := Degraded\<rparr>
                         else if h_status r \<noteq> Recovering then r\<lparr>h_status := Online\<rparr> else r) (heartbeats s)\<rparr>)))"

definition check_heartbeats :: "string iter_order \<Rightarrow> u64 \<Rightarrow> ft_engine \<Rightarrow> string list \<times> ft_engine" where
  "check_heartbeats ord now s = fold (check_node now) (hm_keys ord (heartbeats s)) ([], s)"

definition active_faults :: "string iter_order \<Rightarrow> ft_engine \<Rightarrow> fault_event list" where
  "active_faults ord s = filter (\<lambda>f. \<not> recovered f) (hm_values ord (faults s))"

definition node_faults :: "string iter_order \<Rightarrow> string \<Rightarrow> ft_engine \<Rightarrow> fault_event list" where
  "node_faults ord node s = filter (\<lambda>f. f_node f = node \<and> \<not> recovered f) (hm_values ord (faults s))"

definition max_severity :: "fault_event list \<Rightarrow> 8 word" where
  "max_severity fs = foldr max (map severity fs) 0"

definition escalation_level_of :: "string iter_order \<Rightarrow> string \<Rightarrow> ft_engine \<Rightarrow> escalation_level" where
  "escalation_level_of ord node s =
     (case hm_get (heartbeats s) node of
        None \<Rightarrow> Manual
      | Some r \<Rightarrow>
          (let fs = node_faults ord node s; sev = max_severity fs
           in if fs = [] then Auto
              else (case h_status r of
                      Online \<Rightarrow> Auto
                    | Degraded \<Rightarrow> if sev < 7 then Auto else Coordinated
                    | Offline \<Rightarrow> if sev \<ge> 9 then Manual else Coordinated
                    | Recovering \<Rightarrow> Coordinated)))"

section \<open>Health\<close>

definition cluster_health_with_config :: "nat \<Rightarrow> nat \<Rightarrow> nat \<Rightarrow> nat \<Rightarrow> cluster_health_config \<Rightarrow> cluster_health" where
  "cluster_health_with_config n_total offline degraded active cfg =
     (if n_total = 0 then Down
      else
        (let offline_ratio = of_nat offline / of_nat n_total; degraded_ratio = of_nat degraded / of_nat n_total
         in if offline_ratio \<ge> healthy_threshold cfg \<or> active \<ge> critical_fault_count cfg then Critical
            else if offline_ratio \<ge> degraded_threshold cfg \<or> degraded_ratio \<ge> unhealthy_threshold cfg \<or> active > 0
            then ClusterDegraded
            else Healthy))"

definition cluster_health_from_counts :: "nat \<Rightarrow> nat \<Rightarrow> nat \<Rightarrow> nat \<Rightarrow> cluster_health" where
  "cluster_health_from_counts n_total offline degraded active =
     cluster_health_with_config n_total offline degraded active cluster_health_config_default"

record ft_profile =
  total_nodes :: nat
  online_nodes :: nat
  degraded_nodes :: nat
  offline_nodes :: nat
  active_fault_count :: nat
  isolated_groups :: nat
  plans_pending :: nat
  plans_in_progress :: nat
  profile_health :: cluster_health

definition with_status :: "node_status \<Rightarrow> ft_engine \<Rightarrow> nat" where
  "with_status st s = length (filter (\<lambda>(k, r). h_status r = st) (heartbeats s))"

definition in_state :: "recovery_state \<Rightarrow> ft_engine \<Rightarrow> nat" where
  "in_state st s = length (filter (\<lambda>(k, p). plan_state p = st) (recovery_plans s))"

definition ft_profile_of :: "ft_engine \<Rightarrow> ft_profile" where
  "ft_profile_of s =
     (let n_total = length (heartbeats s); active = length (filter (\<lambda>(k, f). \<not> recovered f) (faults s))
      in \<lparr>total_nodes = n_total, online_nodes = with_status Online s, degraded_nodes = with_status Degraded s,
          offline_nodes = with_status Offline s, active_fault_count = active,
          isolated_groups = length (isolation_groups s), plans_pending = in_state Pending s,
          plans_in_progress = in_state InProgress s,
          profile_health = cluster_health_from_counts n_total (with_status Offline s) (with_status Degraded s) active\<rparr>)"

definition cluster_health_of :: "ft_engine \<Rightarrow> cluster_health" where
  "cluster_health_of s =
     (let p = ft_profile_of s
      in if total_nodes p = 0 then Down
         else cluster_health_from_counts (total_nodes p) (offline_nodes p) (degraded_nodes p) (active_fault_count p))"

section \<open>The invariant of the engine\<close>

definition groups_ok :: "(string, isolation_group) hmap \<Rightarrow> bool" where
  "groups_ok gs \<longleftrightarrow> hm_wf gs \<and> (\<forall>k g. hm_get gs k = Some g \<longrightarrow> group_id g = k \<and> (\<exists>n. nodes g = [n])) \<and>
     (\<forall>k k' g g'. hm_get gs k = Some g \<longrightarrow> hm_get gs k' = Some g' \<longrightarrow> nodes g = nodes g' \<longrightarrow> k = k') \<and>
     length gs \<le> max_groups"

definition faults_ok :: "(string, fault_event) hmap \<Rightarrow> bool" where
  "faults_ok fs \<longleftrightarrow> hm_wf fs \<and> (\<forall>k f. hm_get fs k = Some f \<longrightarrow> f_id f = k)"

definition beats_ok :: "(string, heartbeat_record) hmap \<Rightarrow> bool" where
  "beats_ok hs \<longleftrightarrow> hm_wf hs \<and> (\<forall>n r. hm_get hs n = Some r \<longrightarrow> h_node r = n) \<and> length hs \<le> max_heartbeats"

definition plans_ok :: "(string, recovery_plan) hmap \<Rightarrow> bool" where
  "plans_ok ps \<longleftrightarrow> hm_wf ps \<and> (\<forall>k p. hm_get ps k = Some p \<longrightarrow> plan_id p = k)"

definition ft_ok :: "ft_engine \<Rightarrow> bool" where
  "ft_ok s \<longleftrightarrow> groups_ok (isolation_groups s) \<and> faults_ok (faults s) \<and> beats_ok (heartbeats s) \<and> plans_ok (recovery_plans s)"

named_theorems ft_oks "operations that keep the parts of the invariant"

lemma length_remove_present: "k \<in> dom (map_of m) \<Longrightarrow> length (hm_remove k m) < length m"
proof (induction m)
  case (Cons a m)
  then show ?case
    using length_hm_remove[of k m] by (cases a) (auto simp: hm_remove_def domIff)
qed simp

lemma evict_min_wf [ft_oks]: "hm_wf m \<Longrightarrow> hm_wf (evict_min ord key n m)"
  by (simp add: evict_min_def split: option.splits)

lemma evict_min_sub: "hm_get (evict_min ord key n m) k = Some v \<Longrightarrow> hm_get m k = Some v"
  by (auto simp: evict_min_def split: if_splits option.splits)

lemma evict_min_length:
  assumes "valid_order ord" and "length m \<le> Suc n"
  shows "length (evict_min ord key n m) \<le> n"
proof (cases "length m > n")
  case True
  then have "hm_keys ord m \<noteq> []" using assms(1) by (auto simp: hm_keys_def dest: valid_order_length[of _ "map fst m"])
  then obtain k where k: "first_min (\<lambda>k. key (the (hm_get m k))) (hm_keys ord m) = Some k"
    by (metis first_min_None option.exhaust)
  then have "k \<in> dom (map_of m)" using first_min_in[OF k] assms(1) by simp
  then show ?thesis using True k assms(2) length_remove_present[of k m] by (simp add: evict_min_def)
qed (simp add: evict_min_def)

lemma fold_remove_get: "hm_get (fold hm_remove ks m) k = (if k \<in> set ks then None else hm_get m k)"
  by (induction ks arbitrary: m) auto

lemma fold_remove_wf: "hm_wf m \<Longrightarrow> hm_wf (fold hm_remove ks m)"
  by (induction ks arbitrary: m) auto

lemma evict_done_wf [ft_oks]: "hm_wf m \<Longrightarrow> hm_wf (evict_done ord fin time n m)"
  by (simp add: evict_done_def fold_remove_wf)

lemma evict_done_sub: "hm_get (evict_done ord fin time n m) k = Some v \<Longrightarrow> hm_get m k = Some v"
  by (auto simp: evict_done_def fold_remove_get Let_def split: if_splits)

text \<open>Only finished entries are evicted.\<close>

lemma evict_done_keeps:
  assumes "valid_order ord" and "hm_get m k = Some v" and "\<not> fin v"
  shows "hm_get (evict_done ord fin time n m) k = Some v"
proof -
  have "k \<notin> set (take i (sort_key f (filter (\<lambda>k. fin (the (hm_get m k))) (hm_keys ord m))))" for i f
    using assms by (auto dest!: in_set_takeD)
  then have "k \<notin> set (take (length m - n) (sort_key (\<lambda>k. time (the (hm_get m k)))
      (filter (\<lambda>k. fin (the (hm_get m k))) (hm_keys ord m))))" by blast
  then show ?thesis using assms(2) unfolding evict_done_def Let_def by (simp only: fold_remove_get if_False split: if_split) simp
qed

lemma faults_ok_insert [ft_oks]: "faults_ok fs \<Longrightarrow> f_id f = k \<Longrightarrow> faults_ok (hm_insert k f fs)"
  by (auto simp: faults_ok_def)

lemma faults_ok_map [ft_oks]: "faults_ok fs \<Longrightarrow> (\<And>f. f_id (h f) = f_id f) \<Longrightarrow> faults_ok (hm_map h fs)"
  by (auto simp: faults_ok_def)

lemma faults_ok_retain [ft_oks]: "faults_ok fs \<Longrightarrow> faults_ok (hm_retain P fs)"
  by (auto simp: faults_ok_def hm_get_retain split: option.splits if_splits)

lemma faults_ok_evict [ft_oks]: "faults_ok fs \<Longrightarrow> faults_ok (evict_done ord fin time n fs)"
  by (auto simp: faults_ok_def evict_done_wf dest: evict_done_sub)

lemma beats_ok_modify [ft_oks]: "beats_ok hs \<Longrightarrow> (\<And>r. h_node (h r) = h_node r) \<Longrightarrow> beats_ok (hm_modify k h hs)"
  by (auto simp: beats_ok_def)

lemma length_hm_insert_present: "k \<in> dom (map_of m) \<Longrightarrow> length (hm_insert k v m) = length m"
  unfolding hm_insert_def by (induction m) auto

lemma beats_ok_update [ft_oks]: "beats_ok hs \<Longrightarrow> hm_get hs k = Some r \<Longrightarrow> h_node r' = h_node r \<Longrightarrow> beats_ok (hm_insert k r' hs)"
  using length_hm_insert_present[of k hs r'] by (simp add: beats_ok_def domI)

lemma beats_ok_remove [ft_oks]: "beats_ok hs \<Longrightarrow> beats_ok (hm_remove k hs)"
  using length_hm_remove[of k hs] by (auto simp: beats_ok_def)

lemma beats_ok_register [ft_oks]:
  "valid_order ord \<Longrightarrow> beats_ok hs \<Longrightarrow> h_node r = k \<Longrightarrow> beats_ok (evict_min ord key max_heartbeats (hm_insert k r hs))"
  using evict_min_length[of ord "hm_insert k r hs" max_heartbeats key] length_hm_insert_le[of k r hs]
  by (auto simp: beats_ok_def evict_min_wf dest!: evict_min_sub split: if_splits)

lemma plans_ok_retain [ft_oks]: "plans_ok ps \<Longrightarrow> plans_ok (hm_retain P ps)"
  by (auto simp: plans_ok_def hm_get_retain split: option.splits if_splits)

lemma groups_ok_nodes: "groups_ok gs \<Longrightarrow> hm_get gs k = Some g \<Longrightarrow> \<exists>n. nodes g = [n]"
  by (auto simp: groups_ok_def)

text \<open>Leaving a group that has a single node removes it.\<close>

lemma leave_group_single:
  assumes "hm_get gs k = Some g" and "nodes g = [node]"
  shows "leave_group node k gs = hm_remove k (hm_modify k (\<lambda>g. g\<lparr>nodes := filter (\<lambda>n. n \<noteq> node) (nodes g)\<rparr>) gs)"
  using assms by (simp add: leave_group_def Let_def)

lemma fold_leave_group:
  assumes "\<forall>k \<in> set ks. \<exists>g. hm_get gs k = Some g \<and> nodes g = [node]" and "distinct ks"
  shows "hm_get (fold (leave_group node) ks gs) k = (if k \<in> set ks then None else hm_get gs k)"
  using assms
proof (induction ks arbitrary: gs)
  case (Cons a ks)
  then obtain g where "hm_get gs a = Some g" "nodes g = [node]" by auto
  then have g: "hm_get (leave_group node a gs) = (hm_get gs)(a := None)" by (simp add: leave_group_single fun_eq_iff)
  have "\<forall>k \<in> set ks. \<exists>g. hm_get (leave_group node a gs) k = Some g \<and> nodes g = [node]"
    unfolding g using Cons.prems by (metis distinct.simps(2) fun_upd_other list.set_intros(2))
  from Cons.IH[OF this] show ?case using Cons.prems(2) by (simp add: g)
qed simp

lemma leave_groups_get:
  assumes "groups_ok gs" and "valid_order ord"
  shows "hm_get (leave_groups ord node gs) k =
    (case hm_get gs k of None \<Rightarrow> None | Some g \<Rightarrow> if nodes g = [node] then None else Some g)"
proof -
  let ?ks = "filter (\<lambda>k. node \<in> set (nodes (the (hm_get gs k)))) (hm_keys ord gs)"
  have mem: "k \<in> set ?ks \<longleftrightarrow> (\<exists>g. hm_get gs k = Some g \<and> nodes g = [node])" for k
    using assms groups_ok_nodes[OF assms(1), of k] by auto
  have "distinct ?ks" using assms by (simp add: hm_keys_def groups_ok_def hm_wf_def)
  then have "hm_get (leave_groups ord node gs) k = (if k \<in> set ?ks then None else hm_get gs k)"
    unfolding leave_groups_def using mem by (intro fold_leave_group) auto
  then show ?thesis using mem[of k] by (auto split: option.splits)
qed

lemma leave_group_wf: "hm_wf gs \<Longrightarrow> hm_wf (leave_group node k gs)"
  by (simp add: leave_group_def Let_def split: option.splits)

lemma leave_group_length: "length (leave_group node k gs) \<le> length gs"
  using length_hm_remove[of k "hm_modify k (\<lambda>g. g\<lparr>nodes := filter (\<lambda>n. n \<noteq> node) (nodes g)\<rparr>) gs"]
  by (auto simp: leave_group_def Let_def split: option.splits)

lemma leave_groups_wf: "hm_wf gs \<Longrightarrow> hm_wf (leave_groups ord node gs)"
proof -
  have "hm_wf gs \<Longrightarrow> hm_wf (fold (leave_group node) ks gs)" for ks
    by (induction ks arbitrary: gs) (simp_all add: leave_group_wf)
  then show "hm_wf gs \<Longrightarrow> ?thesis" by (simp add: leave_groups_def)
qed

lemma leave_groups_length: "length (leave_groups ord node gs) \<le> length gs"
proof -
  have "length (fold (leave_group node) ks gs) \<le> length gs" for ks
    by (induction ks arbitrary: gs) (auto intro: order_trans[OF _ leave_group_length])
  then show ?thesis by (simp add: leave_groups_def)
qed

lemma groups_ok_sub:
  assumes "groups_ok gs" and "hm_wf gs'" and "length gs' \<le> length gs"
    and "\<And>k g. hm_get gs' k = Some g \<Longrightarrow> hm_get gs k = Some g"
  shows "groups_ok gs'"
  using assms(1-3) assms(4) unfolding groups_ok_def by (meson order_trans)

lemma groups_ok_leave [ft_oks]:
  assumes "groups_ok gs" and "valid_order ord"
  shows "groups_ok (leave_groups ord node gs)"
  using assms by (intro groups_ok_sub[OF assms(1)])
    (auto simp: leave_groups_wf leave_groups_length groups_ok_def leave_groups_get split: option.splits if_splits)

lemma groups_ok_level [ft_oks]: "groups_ok gs \<Longrightarrow> groups_ok (hm_modify k (\<lambda>g. g\<lparr>g_level := level\<rparr>) gs)"
  by (auto simp: groups_ok_def split: if_splits)

lemma groups_ok_insert [ft_oks]:
  assumes ok: "groups_ok gs" and ord: "valid_order ord" and g: "nodes g = [node]" "group_id g = k"
    and new: "\<forall>k' g'. hm_get gs k' = Some g' \<longrightarrow> node \<notin> set (nodes g')"
  shows "groups_ok (evict_min ord key max_groups (hm_insert k g gs))"
proof -
  let ?gs = "hm_insert k g gs" and ?gs' = "evict_min ord key max_groups (hm_insert k g gs)"
  have "length ?gs' \<le> max_groups"
    using ok ord length_hm_insert_le[of k g gs] by (intro evict_min_length) (auto simp: groups_ok_def)
  moreover have "hm_wf ?gs'" using ok by (simp add: evict_min_wf groups_ok_def)
  moreover have "group_id h = j \<and> (\<exists>n. nodes h = [n])" if "hm_get ?gs j = Some h" for j h
    using that ok g by (auto simp: groups_ok_def split: if_splits)
  moreover have "j = j'" if "hm_get ?gs j = Some h" "hm_get ?gs j' = Some h'" "nodes h = nodes h'" for j j' h h'
  proof -
    have "nodes h'' \<noteq> [node]" if "hm_get gs i = Some h''" for i h'' using new that by force
    then show ?thesis using that ok g unfolding groups_ok_def by (metis fun_upd_apply hm_get_insert option.inject)
  qed
  ultimately show ?thesis unfolding groups_ok_def by (blast dest: evict_min_sub)
qed

text \<open>Every operation of the detector keeps the invariant.\<close>

lemma insert_fault_fields:
  "heartbeats (snd (insert_fault n ft sev d now s)) = heartbeats s"
  "isolation_groups (snd (insert_fault n ft sev d now s)) = isolation_groups s"
  "recovery_plans (snd (insert_fault n ft sev d now s)) = recovery_plans s"
  "ft_cfg (snd (insert_fault n ft sev d now s)) = ft_cfg s"
  by (simp_all add: insert_fault_def Let_def)

lemma insert_fault_ok: "faults_ok (faults s) \<Longrightarrow> faults_ok (faults (snd (insert_fault n ft sev d now s)))"
  by (simp add: insert_fault_def Let_def faults_ok_insert)

lemma register_node_ok: "valid_order ord \<Longrightarrow> ft_ok s \<Longrightarrow> ft_ok (snd (register_node ord now n s))"
  by (simp add: register_node_def ft_ok_def ft_oks)

lemma unregister_node_ok: "valid_order ord \<Longrightarrow> ft_ok s \<Longrightarrow> ft_ok (snd (unregister_node ord n s))"
  by (simp add: unregister_node_def ft_ok_def ft_oks)

lemma report_heartbeat_ok:
  assumes "ft_ok s"
  shows "ft_ok (snd (report_heartbeat now n s))"
proof (cases "hm_get (heartbeats s) n")
  case (Some r)
  have "beats_ok (hm_insert n r' (heartbeats s))" if "h_node r' = h_node r" for r'
    using assms Some that by (simp add: ft_ok_def beats_ok_update)
  moreover have "faults_ok (hm_map (\<lambda>f. if f_node f = n \<and> \<not> recovered f then resolved now f else f) (faults s))"
    using assms by (intro faults_ok_map) (auto simp: ft_ok_def resolved_def)
  ultimately show ?thesis using assms Some by (simp add: report_heartbeat_def ft_ok_def Let_def)
qed (use assms in \<open>simp add: report_heartbeat_def\<close>)

lemma report_fault_ok:
  assumes "ft_ok s"
  shows "ft_ok (snd (report_fault ord now n ft sev d s))"
proof -
  have "beats_ok (hm_modify n (\<lambda>r. if sev \<ge> 8 \<and> h_status r \<noteq> Offline then r\<lparr>h_status := Offline\<rparr>
      else if sev \<ge> 4 \<and> h_status r = Online then r\<lparr>h_status := Degraded\<rparr> else r) (heartbeats s))"
    using assms by (intro beats_ok_modify) (auto simp: ft_ok_def)
  then show ?thesis
    using assms insert_fault_ok[of s n ft sev d now]
    by (simp add: report_fault_def ft_ok_def Let_def case_prod_unfold insert_fault_fields faults_ok_evict)
qed

lemma resolve_fault_ok: "ft_ok s \<Longrightarrow> ft_ok (snd (resolve_fault now k s))"
  by (auto simp: resolve_fault_def ft_ok_def faults_ok_def resolved_def split: option.splits)

lemma isolate_node_ok:
  assumes "valid_order ord" and "ft_ok s"
  shows "ft_ok (snd (isolate_node ord now n level s))"
proof -
  let ?gs = "isolation_groups s"
  have "beats_ok (hm_modify n (level_status level) (heartbeats s))"
    using assms(2) by (intro beats_ok_modify) (auto simp: ft_ok_def level_status_def split: isolation_level.splits)
  moreover have "\<forall>k' g'. hm_get ?gs k' = Some g' \<longrightarrow> n \<notin> set (nodes g')"
    if "find (\<lambda>k. n \<in> set (nodes (the (hm_get ?gs k)))) (hm_keys ord ?gs) = None"
    using that assms(1) by (force simp: find_None_iff)
  ultimately show ?thesis
    using assms unfolding isolate_node_def Let_def
    by (cases "find (\<lambda>k. n \<in> set (nodes (the (hm_get ?gs k)))) (hm_keys ord ?gs)")
      (simp_all add: ft_ok_def groups_ok_insert[where node = n] groups_ok_level)
qed

lemma check_node_ok: "ft_ok (snd os) \<Longrightarrow> ft_ok (snd (check_node now n os))"
  by (cases os; cases "hm_get (heartbeats (snd os)) n")
    (auto simp: check_node_def ft_ok_def Let_def beats_ok_update insert_fault_fields insert_fault_ok)

lemma check_heartbeats_ok: "ft_ok s \<Longrightarrow> ft_ok (snd (check_heartbeats ord now s))"
proof -
  have "ft_ok (snd os) \<Longrightarrow> ft_ok (snd (fold (check_node now) ks os))" for ks os
    by (induction ks arbitrary: os) (simp_all add: check_node_ok)
  then show "ft_ok s \<Longrightarrow> ?thesis" by (simp add: check_heartbeats_def)
qed

section \<open>The heartbeat check\<close>

text \<open>What the check does to one record, and who is reported.\<close>

definition late :: "ft_config \<Rightarrow> u64 \<Rightarrow> heartbeat_record \<Rightarrow> bool" where
  "late cfg now r \<longleftrightarrow> unat (heartbeat_timeout_ms cfg) \<le> unat now - unat (last_heartbeat_ms r)"

definition silent :: "ft_config \<Rightarrow> u64 \<Rightarrow> heartbeat_record \<Rightarrow> bool" where
  "silent cfg now r \<longleftrightarrow>
     has_reported r \<and>
     (max_missed_beats cfg = 0 \<or> late cfg now r \<and> unat (max_missed_beats cfg) \<le> unat (missed_beats r) + 1)"

definition checked :: "ft_config \<Rightarrow> u64 \<Rightarrow> heartbeat_record \<Rightarrow> heartbeat_record" where
  "checked cfg now r =
     (if \<not> has_reported r then r
      else r\<lparr>missed_beats := (if late cfg now r then of_nat (min (unat (missed_beats r) + 1) (unat (max_missed_beats cfg))) else 0),
        h_status := (if silent cfg now r then Offline
          else if late cfg now r then Degraded
          else if h_status r = Recovering then Recovering else Online)\<rparr>)"

lemma late_iff: "heartbeat_timeout_ms cfg \<le> elapsed_since now (last_heartbeat_ms r) \<longleftrightarrow> late cfg now r"
  by (auto simp: late_def elapsed_since_def word_le_nat_alt unat_sub_if')

lemma unat_saturating_inc: "unat (saturating_inc n) = min (unat n + 1) (2 ^ 32 - 1)"
proof -
  have lt: "unat n < 2 ^ 32" using unsigned_less[of n] by simp
  have m1: "unat (- 1 :: u32) = 2 ^ 32 - 1" by (simp add: unsigned_minus_1_eq_mask mask_eq_exp_minus_1)
  have top: "n = - 1" if "unat n = 2 ^ 32 - 1"
  proof -
    have "unat n = unat (- 1 :: u32)" using that m1 by simp
    then show ?thesis by (rule unsigned_word_eqI)
  qed
  have "unat (n + 1) = unat n + 1" if "unat n + 1 < 2 ^ 32"
    using that unat_add_lem[of n 1] by simp
  note inc = this
  show ?thesis
  proof (cases "n = - 1")
    case True
    show ?thesis using m1 by (simp add: True saturating_inc_def)
  next
    case False
    then have "unat n + 1 < 2 ^ 32" using top lt by fastforce
    then show ?thesis using inc False by (simp add: saturating_inc_def)
  qed
qed

lemma unat_min_u32: "unat (min a b :: u32) = min (unat a) (unat b)"
  by (auto simp: min_def word_le_nat_alt)

lemma unat_beats_missed:
  "unat (beats_missed cfg now r) =
     (if late cfg now r then min (unat (missed_beats r) + 1) (unat (max_missed_beats cfg)) else 0)"
proof -
  have "unat (max_missed_beats cfg) < 2 ^ 32" using unsigned_less[of "max_missed_beats cfg"] by simp
  then show ?thesis by (auto simp: beats_missed_def late_iff unat_min_u32 unat_saturating_inc)
qed

lemma silent_iff: "silent cfg now r \<longleftrightarrow> has_reported r \<and> max_missed_beats cfg \<le> beats_missed cfg now r"
  by (auto simp: silent_def word_le_nat_alt unat_beats_missed unat_eq_0)

lemma checked_eq:
  "checked cfg now r =
     (if \<not> has_reported r then r
      else r\<lparr>missed_beats := beats_missed cfg now r,
        h_status := (if beats_missed cfg now r \<ge> max_missed_beats cfg then Offline
          else if beats_missed cfg now r > 0 then Degraded
          else if h_status r = Recovering then Recovering else Online)\<rparr>)"
proof -
  have "(if late cfg now r then of_nat (min (unat (missed_beats r) + 1) (unat (max_missed_beats cfg))) else 0) = beats_missed cfg now r"
  proof -
    have "beats_missed cfg now r = of_nat (unat (beats_missed cfg now r))" by simp
    then show ?thesis unfolding unat_beats_missed by (cases "late cfg now r") simp_all
  qed
  moreover have "0 < beats_missed cfg now r \<longleftrightarrow> late cfg now r" if "\<not> max_missed_beats cfg \<le> beats_missed cfg now r"
    using that by (auto simp: word_less_nat_alt word_le_nat_alt unat_beats_missed split: if_splits)
  ultimately show ?thesis by (auto simp: checked_def silent_iff)
qed

definition is_silent :: "u64 \<Rightarrow> ft_engine \<Rightarrow> string \<Rightarrow> bool" where
  "is_silent now s n = (case hm_get (heartbeats s) n of None \<Rightarrow> False | Some r \<Rightarrow> silent (ft_cfg s) now r)"

definition fault_ids_ok :: "ft_engine \<Rightarrow> bool" where
  "fault_ids_ok s \<longleftrightarrow> (\<forall>k \<in> dom (hm_get (faults s)). \<exists>n \<le> unat (fault_counter s). k = ''fault-'' @ show_nat n)"

lemma unat_inc: "unat c < 2 ^ 64 - 1 \<Longrightarrow> unat (c + 1 :: u64) = Suc (unat c)"
  using unat_add_lem[of c 1] by simp

lemma insert_fault_fresh:
  assumes "fault_ids_ok s" and "unat (fault_counter s) < 2 ^ 64 - 1"
  shows "fault_ids_ok (snd (insert_fault n ft sev d now s))" "fst (insert_fault n ft sev d now s) \<notin> dom (hm_get (faults s))"
    "unat (fault_counter (snd (insert_fault n ft sev d now s))) = Suc (unat (fault_counter s))"
proof -
  show new: "fst (insert_fault n ft sev d now s) \<notin> dom (hm_get (faults s))"
    using assms unat_inc[OF assms(2)] by (force simp: insert_fault_def Let_def fault_ids_ok_def show_nat_inj)
  show "fault_ids_ok (snd (insert_fault n ft sev d now s))"
    using assms(1) unat_inc[OF assms(2)] unfolding fault_ids_ok_def insert_fault_def Let_def
    by (auto intro: le_SucI)
  show "unat (fault_counter (snd (insert_fault n ft sev d now s))) = Suc (unat (fault_counter s))"
    using unat_inc[OF assms(2)] by (simp add: insert_fault_def Let_def)
qed

lemma active_fault_iff:
  "hm_wf (faults s) \<Longrightarrow> active_fault n s \<longleftrightarrow> (\<exists>k f. hm_get (faults s) k = Some f \<and> f_node f = n \<and> \<not> recovered f)"
  by (force simp: active_fault_def list_ex_iff hm_wf_def)

lemma active_fault_heartbeats [simp]: "active_fault n (s\<lparr>heartbeats := hs\<rparr>) = active_fault n s"
  by (simp add: active_fault_def)

lemma check_node_beats:
  "hm_get (heartbeats (snd (check_node now n (os, s)))) =
     (hm_get (heartbeats s))(n := map_option (checked (ft_cfg s) now) (hm_get (heartbeats s) n)) \<and>
   fst (check_node now n (os, s)) = (if is_silent now s n then os @ [n] else os) \<and>
   ft_cfg (snd (check_node now n (os, s))) = ft_cfg s"
proof (cases "hm_get (heartbeats s) n")
  case (Some r)
  then show ?thesis
    by (auto simp: check_node_def Let_def is_silent_def silent_iff checked_eq insert_fault_fields fun_eq_iff not_le[symmetric])
qed (auto simp: check_node_def is_silent_def)

lemma check_nodes_beats:
  assumes "distinct ks"
  shows "hm_get (heartbeats (snd (fold (check_node now) ks (os, s)))) n =
      (if n \<in> set ks then map_option (checked (ft_cfg s) now) (hm_get (heartbeats s) n) else hm_get (heartbeats s) n) \<and>
    fst (fold (check_node now) ks (os, s)) = os @ filter (is_silent now s) ks \<and>
    ft_cfg (snd (fold (check_node now) ks (os, s))) = ft_cfg s"
  using assms
proof (induction ks arbitrary: os s)
  case (Cons a ks)
  obtain os' s' where st: "check_node now a (os, s) = (os', s')" by fastforce
  have st': "hm_get (heartbeats s') = (hm_get (heartbeats s))(a := map_option (checked (ft_cfg s) now) (hm_get (heartbeats s) a))"
    "os' = (if is_silent now s a then os @ [a] else os)" "ft_cfg s' = ft_cfg s"
    using check_node_beats[of now a os s] unfolding st by auto
  have "filter (is_silent now s') ks = filter (is_silent now s) ks"
    using Cons.prems by (intro filter_cong) (auto simp: is_silent_def st' split: option.splits)
  then show ?case using Cons.prems Cons.IH[of os' s'] by (auto simp: st st')
qed simp

text \<open>The open faults of a node, and the fault that a silent node gets.\<close>

definition open_faults :: "ft_engine \<Rightarrow> string \<Rightarrow> fault_event set" where
  "open_faults s n = {f. (\<exists>k. hm_get (faults s) k = Some f) \<and> f_node f = n \<and> \<not> recovered f}"

definition outage :: "u64 \<Rightarrow> fault_event \<Rightarrow> bool" where
  "outage now f \<longleftrightarrow> f_type f = NetworkTimeout \<and> severity f = 8 \<and> detected_ms f = now \<and> resolved_ms f = None"

definition opened :: "u64 \<Rightarrow> ft_engine \<Rightarrow> ft_engine \<Rightarrow> string \<Rightarrow> bool \<Rightarrow> bool" where
  "opened now s s' m new \<longleftrightarrow>
     (if new \<and> open_faults s m = {} then \<exists>f. open_faults s' m = {f} \<and> outage now f
      else open_faults s' m = open_faults s m)"

lemma ex_map_upd:
  assumes "M k = None"
  shows "(\<exists>j y. (M(k \<mapsto> x)) j = Some y \<and> P y) \<longleftrightarrow> P x \<or> (\<exists>j y. M j = Some y \<and> P y)"
proof -
  have "(M(k \<mapsto> x)) j = M j" if "M j = Some y" for j y using that assms by auto
  moreover have "(M(k \<mapsto> x)) k = Some x" by simp
  ultimately show ?thesis by (metis fun_upd_apply option.inject)
qed

lemma check_node_faults:
  assumes "faults_ok (faults s)" and "fault_ids_ok s" and "unat (fault_counter s) < 2 ^ 64 - 1"
  shows "fault_ids_ok (snd (check_node now n (os, s))) \<and>
    unat (fault_counter (snd (check_node now n (os, s)))) \<le> Suc (unat (fault_counter s)) \<and>
    (\<forall>k f. hm_get (faults s) k = Some f \<longrightarrow> hm_get (faults (snd (check_node now n (os, s)))) k = Some f) \<and>
    (\<forall>m. active_fault m (snd (check_node now n (os, s))) \<longleftrightarrow> active_fault m s \<or> m = n \<and> is_silent now s n) \<and>
    (\<forall>m. opened now s (snd (check_node now n (os, s))) m (m = n \<and> is_silent now s n))"
    (is "?P (snd (check_node now n (os, s))) (is_silent now s n)")
proof (cases "is_silent now s n \<and> \<not> active_fault n s")
  case False
  then have "faults (snd (check_node now n (os, s))) = faults s \<and> fault_counter (snd (check_node now n (os, s))) = fault_counter s"
    by (auto simp: check_node_def is_silent_def silent_iff Let_def split: option.splits)
  then have same: "faults (snd (check_node now n (os, s))) = faults s" "fault_counter (snd (check_node now n (os, s))) = fault_counter s"
    by simp_all
  have "is_silent now s n \<Longrightarrow> open_faults s n \<noteq> {}"
    using False active_fault_iff[of s n] assms(1) by (auto simp: open_faults_def faults_ok_def)
  then have "opened now s (snd (check_node now n (os, s))) m (m = n \<and> is_silent now s n)" for m
    by (auto simp: opened_def open_faults_def same)
  then show ?thesis using assms(2) False same by (auto simp: fault_ids_ok_def active_fault_def)
next
  case True
  obtain r where r: "hm_get (heartbeats s) n = Some r" "silent (ft_cfg s) now r"
    using True by (auto simp: is_silent_def split: option.splits)
  let ?r = "r\<lparr>missed_beats := beats_missed (ft_cfg s) now r, h_status := Offline\<rparr>"
  let ?s = "s\<lparr>heartbeats := hm_insert n ?r (heartbeats s)\<rparr>"
  let ?d = "outage_text n (max_missed_beats (ft_cfg s))"
  let ?s' = "snd (insert_fault n NetworkTimeout 8 ?d now ?s)" and ?k = "fst (insert_fault n NetworkTimeout 8 ?d now ?s)"
  have eq: "snd (check_node now n (os, s)) = ?s'"
    using r True by (simp add: check_node_def silent_iff Let_def)
  have ids: "fault_ids_ok ?s" using assms(2) by (simp add: fault_ids_ok_def)
  note fresh = insert_fault_fresh[OF ids, of n NetworkTimeout 8 ?d now]
  have get: "\<exists>f. hm_get (faults ?s') = (hm_get (faults s))(?k \<mapsto> f) \<and> f_node f = n \<and> \<not> recovered f \<and> outage now f"
    by (auto simp: insert_fault_def Let_def fun_eq_iff outage_def)
  have wf: "hm_wf (faults s)" "hm_wf (faults ?s')"
    using assms(1) insert_fault_ok[of ?s] by (auto simp: faults_ok_def)
  have "hm_get (faults s) ?k = None" using fresh(2) assms(3) by (simp add: domIff)
  note none = this
  obtain f where f: "hm_get (faults ?s') = (hm_get (faults s))(?k \<mapsto> f)" "f_node f = n" "\<not> recovered f" "outage now f" using get by blast
  have "active_fault m ?s' \<longleftrightarrow> active_fault m s \<or> m = n" for m
    unfolding active_fault_iff[OF wf(1)] active_fault_iff[OF wf(2)] f(1)
    using ex_map_upd[of "hm_get (faults s)" ?k f "\<lambda>g. f_node g = m \<and> \<not> recovered g"] none f(2,3) by auto
  moreover have "hm_get (faults ?s') k = Some f" if "hm_get (faults s) k = Some f" for k f
    using f(1) that none by auto
  moreover have "opened now s ?s' m (m = n \<and> is_silent now s n)" for m
  proof -
    have "open_faults ?s' m = open_faults s m \<union> (if m = n then {f} else {})"
    proof (rule set_eqI)
      fix x
      have mem: "x \<in> open_faults t m \<longleftrightarrow> (\<exists>k y. hm_get (faults t) k = Some y \<and> y = x \<and> f_node y = m \<and> \<not> recovered y)" for t
        by (auto simp: open_faults_def)
      have "x \<in> open_faults ?s' m \<longleftrightarrow>
          (f = x \<and> f_node f = m \<and> \<not> recovered f) \<or> (\<exists>j y. hm_get (faults s) j = Some y \<and> y = x \<and> f_node y = m \<and> \<not> recovered y)"
        unfolding mem f(1) by (rule ex_map_upd) (rule none)
      also have "\<dots> \<longleftrightarrow> x \<in> open_faults s m \<union> (if m = n then {f} else {})"
        unfolding mem[symmetric] using f(2,3) by auto
      finally show "x \<in> open_faults ?s' m \<longleftrightarrow> x \<in> open_faults s m \<union> (if m = n then {f} else {})" .
    qed
    moreover have "open_faults s n = {}" using True active_fault_iff[OF wf(1)] by (auto simp: open_faults_def)
    ultimately show ?thesis using True f(4) by (auto simp: opened_def)
  qed
  ultimately show ?thesis unfolding eq using fresh assms(3) True by simp
qed

lemma check_nodes_faults:
  assumes "faults_ok (faults s)" and "fault_ids_ok s" and "unat (fault_counter s) + length ks < 2 ^ 64" and "distinct ks"
    and "ft_ok s"
  shows "(\<forall>k f. hm_get (faults s) k = Some f \<longrightarrow> hm_get (faults (snd (fold (check_node now) ks (os, s)))) k = Some f) \<and>
    (\<forall>m. active_fault m (snd (fold (check_node now) ks (os, s))) \<longleftrightarrow> active_fault m s \<or> m \<in> set ks \<and> is_silent now s m) \<and>
    (\<forall>m. opened now s (snd (fold (check_node now) ks (os, s))) m (m \<in> set ks \<and> is_silent now s m))"
  using assms
proof (induction ks arbitrary: os s)
  case (Cons a ks)
  obtain os' s' where st: "check_node now a (os, s) = (os', s')" by fastforce
  have lim: "unat (fault_counter s) < 2 ^ 64 - 1" using Cons.prems(3) by simp
  note step = check_node_faults[OF Cons.prems(1,2) lim, of now a os, unfolded st snd_conv]
  have ok: "ft_ok s'" using check_node_ok[of "(os, s)" now a] Cons.prems(5) st by simp
  have sil: "is_silent now s' m \<longleftrightarrow> is_silent now s m" if "m \<in> set ks" for m
    using check_node_beats[of now a os s] that Cons.prems(4) unfolding st by (auto simp: is_silent_def split: option.splits)
  have lim': "unat (fault_counter s') + length ks < 2 ^ 64" using step Cons.prems(3) by simp
  have IH: "(\<forall>k f. hm_get (faults s') k = Some f \<longrightarrow> hm_get (faults (snd (fold (check_node now) ks (os', s')))) k = Some f) \<and>
    (\<forall>m. active_fault m (snd (fold (check_node now) ks (os', s'))) \<longleftrightarrow> active_fault m s' \<or> m \<in> set ks \<and> is_silent now s' m) \<and>
    (\<forall>m. opened now s' (snd (fold (check_node now) ks (os', s'))) m (m \<in> set ks \<and> is_silent now s' m))"
    using Cons.IH[of s' os'] step ok lim' Cons.prems(4) by (simp add: ft_ok_def)
  have "opened now s (snd (fold (check_node now) ks (os', s'))) m (m \<in> set (a # ks) \<and> is_silent now s m)" for m
  proof -
    have first: "opened now s s' m (m = a \<and> is_silent now s a)" using step by blast
    have rest: "opened now s' (snd (fold (check_node now) ks (os', s'))) m (m \<in> set ks \<and> is_silent now s m)"
    proof -
      have "opened now s' (snd (fold (check_node now) ks (os', s'))) m (m \<in> set ks \<and> is_silent now s' m)" using IH by blast
      moreover have "(m \<in> set ks \<and> is_silent now s' m) = (m \<in> set ks \<and> is_silent now s m)" using sil by blast
      ultimately show ?thesis by (simp only:)
    qed
    show ?thesis
    proof (cases "m = a")
      case True
      then show ?thesis using first rest Cons.prems(4) by (auto simp: opened_def)
    next
      case False
      then show ?thesis using first rest by (auto simp: opened_def)
    qed
  qed
  then show ?case using IH step sil by (auto simp: st)
qed (simp add: opened_def)

end
