(* ===== verification/FaultRecovery.thy ===== *)
theory FaultRecovery
  imports FaultDetector
begin

text \<open>
  Recovery plans, \<open>src/fault_tolerance/recovery.rs\<close>, and the recovery cycle of \<open>mod.rs\<close>. The cycle starts the plans of
  independent nodes in a stream of futures; with the lock free each future runs to its end when it is first
  polled, so the items of a stream run one after the other, in the order the stream has them. The clock is read
  once per operation and is an argument of each; the cycle takes it as a function of the operation.
  The theorems say which faults a plan clears, what a cycle does to the plans, when a node gets no plan any
  more, and what holds in every run of the engine.
\<close>

section \<open>Operations\<close>

definition mark_resolved :: "u64 \<Rightarrow> string \<Rightarrow> (string, fault_event) hmap \<Rightarrow> (string, fault_event) hmap" where
  "mark_resolved now fid fs = hm_modify fid (resolved now) fs"

definition resolve_node_faults ::
  "string iter_order \<Rightarrow> string \<Rightarrow> u64 \<Rightarrow> (fault_type \<Rightarrow> bool) \<Rightarrow> ft_engine \<Rightarrow> ft_engine" where
  "resolve_node_faults ord node now P s =
     s\<lparr>faults := fold (mark_resolved now)
        (map f_id (filter (\<lambda>f. f_node f = node \<and> \<not> recovered f \<and> P (f_type f)) (hm_values ord (faults s)))) (faults s)\<rparr>"

definition back_online :: "heartbeat_record \<Rightarrow> heartbeat_record" where
  "back_online r = r\<lparr>h_status := Online, missed_beats := 0\<rparr>"

definition is_open :: "recovery_plan \<Rightarrow> bool" where
  "is_open p \<longleftrightarrow> plan_state p = Pending \<or> plan_state p = InProgress"

definition reintegrate_node ::
  "string iter_order \<Rightarrow> u64 \<Rightarrow> string \<Rightarrow> ft_engine \<Rightarrow> (ft_error + unit) \<times> ft_engine" where
  "reintegrate_node ord now node s =
     (if \<not> hm_contains (heartbeats s) node then (Inl (NodeNotRegistered node), s)
      else
        (let s = s\<lparr>isolation_groups := leave_groups ord node (isolation_groups s)\<rparr>;
             s = s\<lparr>heartbeats := hm_modify node back_online (heartbeats s)\<rparr>;
             s = resolve_node_faults ord node now (\<lambda>_. True) s;
             ids = map plan_id (filter (\<lambda>p. plan_node p = node \<and> is_open p) (hm_values ord (recovery_plans s)))
         in (Inr (), s\<lparr>recovery_plans := fold (\<lambda>i. hm_modify i
              (\<lambda>p. p\<lparr>plan_state := Completed, plan_completed_ms := Some now\<rparr>)) ids (recovery_plans s)\<rparr>)))"

fun action_for :: "fault_type \<Rightarrow> recovery_action" where
  "action_for Crash = RestartNode"
| "action_for Oom = RestartNode"
| "action_for Hang = ScaleUp"
| "action_for ResourceExhaustion = ScaleUp"
| "action_for NetworkSplit = FailoverToBackup"
| "action_for NetworkTimeout = FailoverToBackup"
| "action_for NetworkPartition = FailoverToBackup"
| "action_for ProcessCrash = RestartNode"
| "action_for RateLimit = ScaleUp"
| "action_for (LatencySpike _) = ScaleUp"
| "action_for DataCorruption = Rebalance"
| "action_for FileIOError = NotifyOperator"
| "action_for AuthFailure = NotifyOperator"
| "action_for PartialWrite = NotifyOperator"

definition add_action :: "fault_event \<Rightarrow> recovery_action list \<Rightarrow> recovery_action list" where
  "add_action f actions = (let a = action_for (f_type f) in if a \<in> set actions then actions else actions @ [a])"

definition plan_actions_for :: "fault_event list \<Rightarrow> recovery_action list" where
  "plan_actions_for fs =
     (let actions = fold add_action fs [];
          actions = (if max_severity fs \<ge> 9 then actions @ [NotifyOperator] else actions)
      in if actions = [] then [NotifyOperator] else actions)"

definition is_done :: "recovery_plan \<Rightarrow> bool" where
  "is_done p \<longleftrightarrow> plan_state p = Completed \<or> plan_state p = Failed"

definition create_recovery_plan ::
  "string iter_order \<Rightarrow> u64 \<Rightarrow> string \<Rightarrow> ft_engine \<Rightarrow> (ft_error + string) \<times> ft_engine" where
  "create_recovery_plan ord now node s =
     (if \<not> hm_contains (heartbeats s) node then (Inl (NodeNotRegistered node), s)
      else
        (let actions = plan_actions_for (node_faults ord node s);
             n = plan_counter s + 1; pid = ''plan-'' @ show_word n;
             plan = \<lparr>plan_id = pid, plan_node = node, plan_actions = actions, plan_state = Pending,
               plan_created_ms = now, plan_completed_ms = None, plan_result = None\<rparr>
         in (Inr pid, s\<lparr>plan_counter := n,
               recovery_plans := evict_done ord is_done plan_created_ms max_recovery_plans
                 (hm_insert pid plan (recovery_plans s))\<rparr>)))"

fun action_name :: "recovery_action \<Rightarrow> string" where
  "action_name RestartNode = ''RestartNode''"
| "action_name FailoverToBackup = ''FailoverToBackup''"
| "action_name ScaleUp = ''ScaleUp''"
| "action_name Rebalance = ''Rebalance''"
| "action_name NotifyOperator = ''NotifyOperator''"

fun clears :: "recovery_action \<Rightarrow> fault_type \<Rightarrow> bool" where
  "clears RestartNode ft = True"
| "clears FailoverToBackup ft = (ft \<in> {NetworkSplit, NetworkTimeout, NetworkPartition})"
| "clears ScaleUp ft = (case ft of LatencySpike _ \<Rightarrow> True | _ \<Rightarrow> ft \<in> {Hang, ResourceExhaustion, RateLimit})"
| "clears Rebalance ft = (ft = DataCorruption)"
| "clears NotifyOperator ft = False"

fun dispatch :: "string iter_order \<Rightarrow> u64 \<Rightarrow> string \<Rightarrow> recovery_action \<Rightarrow> ft_engine \<Rightarrow> ft_engine" where
  "dispatch ord now node RestartNode s =
     resolve_node_faults ord node now (clears RestartNode)
       (s\<lparr>heartbeats := hm_modify node back_online (heartbeats s),
          isolation_groups := leave_groups ord node (isolation_groups s)\<rparr>)"
| "dispatch ord now node FailoverToBackup s =
     resolve_node_faults ord node now (clears FailoverToBackup)
       (s\<lparr>heartbeats := hm_modify node (\<lambda>r. r\<lparr>h_status := Recovering\<rparr>) (heartbeats s)\<rparr>)"
| "dispatch ord now node ScaleUp s = resolve_node_faults ord node now (clears ScaleUp) s"
| "dispatch ord now node Rebalance s = resolve_node_faults ord node now (clears Rebalance) s"
| "dispatch ord now node NotifyOperator s = s"

fun comma_join :: "string list \<Rightarrow> string" where
  "comma_join [] = []"
| "comma_join [x] = x"
| "comma_join (x # y # ys) = x @ '', '' @ comma_join (y # ys)"

definition execute_recovery_plan :: "string iter_order \<Rightarrow> u64 \<Rightarrow> string \<Rightarrow> ft_engine \<Rightarrow> (ft_error + unit) \<times> ft_engine" where
  "execute_recovery_plan ord now pid s =
     (case hm_get (recovery_plans s) pid of
        None \<Rightarrow> (Inl (PlanNotFound pid), s)
      | Some p \<Rightarrow>
          if plan_state p \<noteq> Pending then (Inl (PlanNotPending pid), s)
          else
            (let s = fold (dispatch ord now (plan_node p)) (plan_actions p) s
             in (Inr (), s\<lparr>recovery_plans := hm_modify pid (\<lambda>p. p\<lparr>plan_state := InProgress,
                  plan_result := Some (''executed actions: '' @ comma_join (map action_name (plan_actions p)))\<rparr>)
                  (recovery_plans s)\<rparr>)))"

record consistency_check =
  check_id :: string
  check_type :: string
  check_passed :: bool
  check_details :: string
  check_ms :: u64

definition quoted :: "string \<Rightarrow> string" where
  "quoted s = [CHR 0x27] @ s @ [CHR 0x27]"

definition unresolved_count :: "string \<Rightarrow> ft_engine \<Rightarrow> nat" where
  "unresolved_count node s = length (filter (\<lambda>(k, f). f_node f = node \<and> \<not> recovered f) (faults s))"

definition consistency_issues :: "recovery_plan \<Rightarrow> ft_engine \<Rightarrow> string list" where
  "consistency_issues p s =
     (if hm_contains (heartbeats s) (plan_node p) then [] else [''missing heartbeat record'']) @
     (if unresolved_count (plan_node p) s = 0 then []
      else [show_nat (unresolved_count (plan_node p) s) @ '' unresolved faults remain'']) @
     (if plan_state p = InProgress \<or> plan_state p = Completed then [] else [''plan not active (pending or failed)''])"

definition post_recovery_consistency_check :: "u64 \<Rightarrow> string \<Rightarrow> ft_engine \<Rightarrow> consistency_check" where
  "post_recovery_consistency_check now pid s =
     (let (passed, details) =
        (case hm_get (recovery_plans s) pid of
           None \<Rightarrow> (False, ''recovery plan '' @ quoted pid @ '' not found'')
         | Some p \<Rightarrow>
             (let ok = hm_contains (heartbeats s) (plan_node p) \<and> unresolved_count (plan_node p) s = 0 \<and>
                    (plan_state p = InProgress \<or> plan_state p = Completed)
              in (ok, if ok then ''node '' @ quoted (plan_node p) @ '' heartbeat present, '' @
                        show_nat (unresolved_count (plan_node p) s) @ '' unresolved faults cleared, plan completed''
                      else ''inconsistencies detected: '' @ comma_join (consistency_issues p s))))
      in \<lparr>check_id = ''cc-'' @ pid @ ''-'' @ show_word now, check_type = ''post_recovery'', check_passed = passed,
          check_details = details, check_ms = now\<rparr>)"

definition complete_recovery_plan ::
  "u64 \<Rightarrow> u64 \<Rightarrow> string \<Rightarrow> string \<Rightarrow> ft_engine \<Rightarrow> (ft_error + consistency_check) \<times> ft_engine" where
  "complete_recovery_plan now now' pid result s =
     (case hm_get (recovery_plans s) pid of
        None \<Rightarrow> (Inl (PlanNotFound pid), s)
      | Some p \<Rightarrow>
          if plan_state p \<noteq> InProgress then (Inl (PlanNotInProgress pid), s)
          else
            (let s = s\<lparr>recovery_plans := hm_insert pid (p\<lparr>plan_state := Completed, plan_completed_ms := Some now,
                         plan_result := Some result\<rparr>) (recovery_plans s),
                       heartbeats := hm_modify (plan_node p)
                         (\<lambda>r. if h_status r \<noteq> Online then r\<lparr>h_status := Recovering\<rparr> else r) (heartbeats s)\<rparr>
             in (Inr (post_recovery_consistency_check now' pid s), s)))"

definition fail_recovery_plan :: "u64 \<Rightarrow> string \<Rightarrow> string \<Rightarrow> ft_engine \<Rightarrow> (ft_error + unit) \<times> ft_engine" where
  "fail_recovery_plan now pid err s =
     (case hm_get (recovery_plans s) pid of
        None \<Rightarrow> (Inl (PlanNotFound pid), s)
      | Some p \<Rightarrow> (Inr (), s\<lparr>recovery_plans := hm_insert pid (p\<lparr>plan_state := Failed, plan_completed_ms := Some now,
                     plan_result := Some (''failed: '' @ err)\<rparr>) (recovery_plans s)\<rparr>))"

definition active_recovery_plans :: "string iter_order \<Rightarrow> ft_engine \<Rightarrow> recovery_plan list" where
  "active_recovery_plans ord s = filter is_open (hm_values ord (recovery_plans s))"

section \<open>The recovery cycle\<close>

definition has_plan :: "string \<Rightarrow> ft_engine \<Rightarrow> bool" where
  "has_plan node s = list_ex (\<lambda>(k, p). plan_node p = node \<and> plan_state p \<noteq> Completed) (recovery_plans s)"

definition auto_create :: "string iter_order \<Rightarrow> (string \<Rightarrow> u64) \<Rightarrow> string \<Rightarrow> u32 \<times> ft_engine \<Rightarrow> u32 \<times> ft_engine" where
  "auto_create ord clk node cs =
     (let (created, s) = cs
      in if has_plan node s then (created, s)
         else (case create_recovery_plan ord (clk node) node s of
                 (Inl e, s) \<Rightarrow> (created, s)
               | (Inr pid, s) \<Rightarrow> (created + 1, s)))"

text \<open>The four readings of the clock while a plan runs.\<close>

record plan_clock =
  t_execute :: u64
  t_check :: u64
  t_finish :: u64
  t_recheck :: u64

definition auto_execute ::
  "string iter_order \<Rightarrow> (string \<Rightarrow> plan_clock) \<Rightarrow> recovery_plan \<Rightarrow> consistency_check list \<times> ft_engine \<Rightarrow>
     consistency_check list \<times> ft_engine" where
  "auto_execute ord clk plan cs =
     (let (checks, s) = cs; pid = plan_id plan; t = clk pid
      in if plan_state plan \<noteq> Pending then (checks, s)
         else (case execute_recovery_plan ord (t_execute t) pid s of
                 (Inl e, s) \<Rightarrow> (checks, s)
               | (Inr _, s) \<Rightarrow>
                   (let check = post_recovery_consistency_check (t_check t) pid s
                    in (checks @ [check],
                        if check_passed check
                        then snd (complete_recovery_plan (t_finish t) (t_recheck t) pid ''recovery_actions_completed'' s)
                        else snd (fail_recovery_plan (t_finish t) pid (check_details check) s)))))"

record cycle_summary =
  offenders :: "string list"
  plans_created :: u32
  plans_activated :: u32
  summary_health :: cluster_health
  summary_faults :: u32
  summary_groups :: u32
  consistency_checks :: "consistency_check list"

definition run_recovery_cycle ::
  "string iter_order \<Rightarrow> u64 \<Rightarrow> (string \<Rightarrow> u64) \<Rightarrow> (string \<Rightarrow> plan_clock) \<Rightarrow> ft_engine \<Rightarrow> cycle_summary \<times> ft_engine" where
  "run_recovery_cycle ord now clk clk' s =
     (let (offs, s) = check_heartbeats ord now s;
          (created, s) = fold (auto_create ord clk) offs (0, s);
          (checks, s) = fold (auto_execute ord clk') (active_recovery_plans ord s) ([], s);
          p = ft_profile_of s
      in (\<lparr>offenders = offs, plans_created = created, plans_activated = of_nat (length checks),
           summary_health = cluster_health_of s, summary_faults = of_nat (active_fault_count p),
           summary_groups = of_nat (isolated_groups p), consistency_checks = checks\<rparr>, s))"

section \<open>Runs\<close>

inductive ft_step :: "ft_engine \<Rightarrow> ft_engine \<Rightarrow> bool" where
  ft_register: "valid_order ord \<Longrightarrow> register_node ord now n s = (r, s') \<Longrightarrow> ft_step s s'"
| ft_unregister: "valid_order ord \<Longrightarrow> unregister_node ord n s = (r, s') \<Longrightarrow> ft_step s s'"
| ft_heartbeat: "report_heartbeat now n s = (r, s') \<Longrightarrow> ft_step s s'"
| ft_fault: "valid_order ord \<Longrightarrow> report_fault ord now n ft sev d s = (q, s') \<Longrightarrow> ft_step s s'"
| ft_resolve: "resolve_fault now k s = (r, s') \<Longrightarrow> ft_step s s'"
| ft_isolate: "valid_order ord \<Longrightarrow> isolate_node ord now n level s = (r, s') \<Longrightarrow> ft_step s s'"
| ft_check: "valid_order ord \<Longrightarrow> check_heartbeats ord now s = (offs, s') \<Longrightarrow> ft_step s s'"
| ft_reintegrate: "valid_order ord \<Longrightarrow> reintegrate_node ord now n s = (r, s') \<Longrightarrow> ft_step s s'"
| ft_create: "valid_order ord \<Longrightarrow> create_recovery_plan ord now n s = (q, s') \<Longrightarrow> ft_step s s'"
| ft_execute: "valid_order ord \<Longrightarrow> execute_recovery_plan ord now k s = (r, s') \<Longrightarrow> ft_step s s'"
| ft_complete: "complete_recovery_plan now now' k txt s = (c, s') \<Longrightarrow> ft_step s s'"
| ft_fail: "fail_recovery_plan now k txt s = (r, s') \<Longrightarrow> ft_step s s'"

section \<open>What an action does to the faults\<close>

definition settle :: "string \<Rightarrow> u64 \<Rightarrow> (fault_type \<Rightarrow> bool) \<Rightarrow> fault_event \<Rightarrow> fault_event" where
  "settle node now P f = (if f_node f = node \<and> \<not> recovered f \<and> P (f_type f) then resolved now f else f)"

lemma settle_simps [simp]:
  "f_id (settle n now P f) = f_id f" "f_node (settle n now P f) = f_node f" "f_type (settle n now P f) = f_type f"
  by (simp_all add: settle_def resolved_def)

lemma settle_settle: "settle n now Q (settle n now P f) = settle n now (\<lambda>ft. P ft \<or> Q ft) f"
  by (auto simp: settle_def resolved_def)

lemma settle_False: "settle n now (\<lambda>_. False) f = f"
  by (simp add: settle_def)

lemma fold_mark_resolved:
  "hm_get (fold (mark_resolved now) ks fs) k = (if k \<in> set ks then map_option (resolved now) (hm_get fs k) else hm_get fs k)"
proof (induction ks arbitrary: fs)
  case (Cons a ks)
  have "resolved now (resolved now f) = resolved now f" for f by (simp add: resolved_def)
  then show ?case using Cons by (cases "hm_get fs k") (auto simp: mark_resolved_def)
qed simp

lemma resolve_node_faults_get:
  assumes "faults_ok (faults s)" and "valid_order ord"
  shows "hm_get (faults (resolve_node_faults ord node now P s)) k = map_option (settle node now P) (hm_get (faults s) k)"
proof -
  let ?C = "\<lambda>f. f_node f = node \<and> \<not> recovered f \<and> P (f_type f)"
  have "k \<in> set (map f_id (filter ?C (hm_values ord (faults s)))) \<longleftrightarrow> (\<exists>f. hm_get (faults s) k = Some f \<and> ?C f)"
    using assms by (force simp: faults_ok_def ran_def image_iff)
  then show ?thesis
    by (cases "hm_get (faults s) k") (auto simp: resolve_node_faults_def fold_mark_resolved settle_def)
qed

lemma fold_mark_resolved_wf: "hm_wf fs \<Longrightarrow> hm_wf (fold (mark_resolved now) ks fs)"
  by (induction ks arbitrary: fs) (simp_all add: mark_resolved_def)

lemma resolve_node_faults_ok [ft_oks]:
  assumes "faults_ok (faults s)" and "valid_order ord"
  shows "faults_ok (faults (resolve_node_faults ord node now P s))"
  unfolding faults_ok_def resolve_node_faults_get[OF assms]
  using assms(1) by (auto simp: resolve_node_faults_def fold_mark_resolved_wf faults_ok_def)

lemma resolve_node_faults_fields [simp]:
  "heartbeats (resolve_node_faults ord n now P s) = heartbeats s"
  "isolation_groups (resolve_node_faults ord n now P s) = isolation_groups s"
  "recovery_plans (resolve_node_faults ord n now P s) = recovery_plans s"
  "ft_cfg (resolve_node_faults ord n now P s) = ft_cfg s"
  "fault_counter (resolve_node_faults ord n now P s) = fault_counter s"
  "group_counter (resolve_node_faults ord n now P s) = group_counter s"
  "plan_counter (resolve_node_faults ord n now P s) = plan_counter s"
  by (simp_all add: resolve_node_faults_def)

lemma dispatch_fields [simp]:
  "recovery_plans (dispatch ord now n a s) = recovery_plans s" "ft_cfg (dispatch ord now n a s) = ft_cfg s"
  "fault_counter (dispatch ord now n a s) = fault_counter s" "plan_counter (dispatch ord now n a s) = plan_counter s"
  "dom (hm_get (heartbeats (dispatch ord now n a s))) = dom (hm_get (heartbeats s))"
  by (cases a; auto simp: domIff split: if_splits)+

lemma dispatch_ok:
  assumes "ft_ok s" and "valid_order ord"
  shows "ft_ok (dispatch ord now n a s)"
proof -
  have "beats_ok (hm_modify n back_online (heartbeats s))"
    "beats_ok (hm_modify n (\<lambda>r. r\<lparr>h_status := Recovering\<rparr>) (heartbeats s))"
    using assms by (auto simp: ft_ok_def back_online_def intro!: beats_ok_modify)
  then show ?thesis
    using assms by (cases a) (simp_all add: ft_ok_def ft_oks)
qed

lemma dispatch_faults:
  assumes "faults_ok (faults s)" and "valid_order ord"
  shows "hm_get (faults (dispatch ord now n a s)) k = map_option (settle n now (clears a)) (hm_get (faults s) k)"
proof (cases "a = NotifyOperator")
  case True
  have "clears NotifyOperator = (\<lambda>_. False)" by (rule ext) simp
  then show ?thesis using True by (simp add: settle_False map_option_idI)
next
  case False
  have "hm_get (faults (resolve_node_faults ord n now P t)) k = map_option (settle n now P) (hm_get (faults s) k)"
    if "faults t = faults s" for P t
    using resolve_node_faults_get[of t ord n now P k] assms that by simp
  with False show ?thesis by (cases a) (simp_all only: dispatch.simps, simp_all)
qed

lemma dispatch_all:
  assumes "ft_ok s" and "valid_order ord"
  shows "ft_ok (fold (dispatch ord now n) as s) \<and>
    (\<forall>k. hm_get (faults (fold (dispatch ord now n) as s)) k =
       map_option (settle n now (\<lambda>ft. \<exists>a \<in> set as. clears a ft)) (hm_get (faults s) k)) \<and>
    recovery_plans (fold (dispatch ord now n) as s) = recovery_plans s \<and>
    fault_counter (fold (dispatch ord now n) as s) = fault_counter s \<and>
    plan_counter (fold (dispatch ord now n) as s) = plan_counter s \<and>
    dom (hm_get (heartbeats (fold (dispatch ord now n) as s))) = dom (hm_get (heartbeats s))"
  using assms(1)
proof (induction as arbitrary: s)
  case (Cons a as)
  have ok: "ft_ok (dispatch ord now n a s)" by (rule dispatch_ok[OF Cons.prems assms(2)])
  have "map_option (settle n now (\<lambda>ft. \<exists>a \<in> set as. clears a ft)) (hm_get (faults (dispatch ord now n a s)) k) =
      map_option (settle n now (\<lambda>ft. \<exists>a \<in> set (a # as). clears a ft)) (hm_get (faults s) k)" for k
    using Cons.prems assms(2) by (simp add: dispatch_faults ft_ok_def option.map_comp comp_def settle_settle)
  with Cons.IH[OF ok] show ?case by simp
qed (simp add: settle_False map_option_idI)

section \<open>Every run keeps the invariant\<close>

lemma plans_ok_insert [ft_oks]: "plans_ok ps \<Longrightarrow> plan_id p = k \<Longrightarrow> plans_ok (hm_insert k p ps)"
  by (auto simp: plans_ok_def)

lemma plans_ok_evict [ft_oks]: "plans_ok ps \<Longrightarrow> plans_ok (evict_done ord fin time n ps)"
  by (auto simp: plans_ok_def evict_done_wf dest: evict_done_sub)

lemma plans_ok_modify [ft_oks]: "plans_ok ps \<Longrightarrow> (\<And>p. plan_id (h p) = plan_id p) \<Longrightarrow> plans_ok (hm_modify k h ps)"
  by (auto simp: plans_ok_def)

lemma plans_ok_fold_modify [ft_oks]:
  "plans_ok ps \<Longrightarrow> (\<And>p. plan_id (h p) = plan_id p) \<Longrightarrow> plans_ok (fold (\<lambda>i. hm_modify i h) ks ps)"
  by (induction ks arbitrary: ps) (simp_all add: plans_ok_modify)

lemma reintegrate_node_ok:
  assumes "ft_ok s" and "valid_order ord"
  shows "ft_ok (snd (reintegrate_node ord now n s))"
proof -
  have "beats_ok (hm_modify n back_online (heartbeats s))"
    using assms by (auto simp: ft_ok_def back_online_def intro!: beats_ok_modify)
  then show ?thesis
    using assms by (simp add: reintegrate_node_def ft_ok_def ft_oks Let_def)
qed

lemma create_recovery_plan_ok: "ft_ok s \<Longrightarrow> ft_ok (snd (create_recovery_plan ord now n s))"
  by (simp add: create_recovery_plan_def ft_ok_def Let_def ft_oks)

lemma execute_recovery_plan_ok:
  assumes "ft_ok s" and "valid_order ord"
  shows "ft_ok (snd (execute_recovery_plan ord now k s))"
  using assms(1) dispatch_all[OF assms]
  by (auto simp: execute_recovery_plan_def ft_ok_def Let_def intro!: plans_ok_modify split: option.splits)

lemma complete_recovery_plan_ok:
  assumes "ft_ok s"
  shows "ft_ok (snd (complete_recovery_plan now now' k txt s))"
proof (cases "hm_get (recovery_plans s) k")
  case (Some p)
  have "beats_ok (hm_modify (plan_node p) (\<lambda>r. if h_status r \<noteq> Online then r\<lparr>h_status := Recovering\<rparr> else r) (heartbeats s))"
    using assms by (intro beats_ok_modify) (auto simp: ft_ok_def)
  moreover have "plan_id p = k" using assms Some by (simp add: ft_ok_def plans_ok_def)
  ultimately show ?thesis using assms Some by (simp add: complete_recovery_plan_def ft_ok_def Let_def plans_ok_insert)
qed (use assms in \<open>simp add: complete_recovery_plan_def\<close>)

lemma fail_recovery_plan_ok: "ft_ok s \<Longrightarrow> ft_ok (snd (fail_recovery_plan now k txt s))"
  by (auto simp: fail_recovery_plan_def ft_ok_def plans_ok_def split: option.splits)

lemmas op_oks = register_node_ok unregister_node_ok report_heartbeat_ok report_fault_ok resolve_fault_ok isolate_node_ok
  check_heartbeats_ok reintegrate_node_ok create_recovery_plan_ok execute_recovery_plan_ok complete_recovery_plan_ok
  fail_recovery_plan_ok

lemma ft_step_ok: "ft_step s s' \<Longrightarrow> ft_ok s \<Longrightarrow> ft_ok s'"
  by (induction rule: ft_step.induct) (metis op_oks snd_conv)+

interpretation fault_sys: invariant_system ft_step ft_ok
  by unfold_locales (rule ft_step_ok)

lemma ft_new_ok [simp]: "ft_ok (ft_new cfg)"
  by (simp add: ft_ok_def ft_new_def groups_ok_def faults_ok_def beats_ok_def plans_ok_def)

lemma ft_run_ok: "ft_step\<^sup>*\<^sup>* (ft_new cfg) s \<Longrightarrow> ft_ok s"
  using fault_sys.run_inv[of "ft_new cfg" s] by simp

text \<open>In every run of the engine at most 1000 nodes are monitored and at most 200 isolation groups exist; every group
  holds exactly one node, no node is in two groups, and every record is stored under the identifier it carries.\<close>

theorem fault_engine_invariant:
  assumes "ft_step\<^sup>*\<^sup>* (ft_new cfg) s"
  shows "length (heartbeats s) \<le> 1000 \<and> length (isolation_groups s) \<le> 200 \<and>
    (\<forall>k g. hm_get (isolation_groups s) k = Some g \<longrightarrow> group_id g = k \<and> length (nodes g) = 1) \<and>
    (\<forall>k g k' g' n. hm_get (isolation_groups s) k = Some g \<and> hm_get (isolation_groups s) k' = Some g' \<and>
       n \<in> set (nodes g) \<inter> set (nodes g') \<longrightarrow> k = k') \<and>
    (\<forall>n r. hm_get (heartbeats s) n = Some r \<longrightarrow> h_node r = n) \<and>
    (\<forall>k f. hm_get (faults s) k = Some f \<longrightarrow> f_id f = k) \<and>
    (\<forall>k p. hm_get (recovery_plans s) k = Some p \<longrightarrow> plan_id p = k)"
proof -
  have ok: "ft_ok s" by (rule ft_run_ok[OF assms])
  then have g: "groups_ok (isolation_groups s)" by (simp add: ft_ok_def)
  have "k = k'" if "hm_get (isolation_groups s) k = Some h" "hm_get (isolation_groups s) k' = Some h'"
    "n \<in> set (nodes h) \<inter> set (nodes h')" for k k' h h' n
  proof -
    have "nodes h = nodes h'" using groups_ok_nodes[OF g that(1)] groups_ok_nodes[OF g that(2)] that(3) by auto
    then show ?thesis using g that unfolding groups_ok_def by blast
  qed
  moreover have "length (nodes h) = 1" if "hm_get (isolation_groups s) k = Some h" for k h
    using groups_ok_nodes[OF g that] by auto
  moreover have "group_id h = k" if "hm_get (isolation_groups s) k = Some h" for k h
    using g that by (simp add: groups_ok_def)
  moreover have "length (heartbeats s) \<le> 1000" "length (isolation_groups s) \<le> 200"
    using ok by (simp_all add: ft_ok_def groups_ok_def beats_ok_def max_heartbeats_def max_groups_def)
  moreover have "\<forall>n r. hm_get (heartbeats s) n = Some r \<longrightarrow> h_node r = n" "\<forall>k f. hm_get (faults s) k = Some f \<longrightarrow> f_id f = k"
    "\<forall>k p. hm_get (recovery_plans s) k = Some p \<longrightarrow> plan_id p = k"
    using ok by (simp_all add: ft_ok_def beats_ok_def faults_ok_def plans_ok_def)
  ultimately show ?thesis by blast
qed

definition one_node :: "heartbeat_record \<Rightarrow> ft_engine" where
  "one_node r = (ft_new ft_config_default)\<lparr>heartbeats := [(''n'', r)]\<rparr>"

lemma register_one_node:
  "snd (register_node (\<lambda>xs. xs) 0 ''n'' (ft_new ft_config_default)) =
     one_node \<lparr>h_node = ''n'', last_heartbeat_ms = 0, missed_beats = 0, h_status = Online, has_reported = False\<rparr>"
  by (simp add: register_node_def ft_new_def one_node_def evict_min_def max_heartbeats_def hm_insert_def)

lemma one_node_reachable:
  "ft_step\<^sup>*\<^sup>* (ft_new ft_config_default)
     (one_node \<lparr>h_node = ''n'', last_heartbeat_ms = 0, missed_beats = 0, h_status = Online, has_reported = False\<rparr>)"
  unfolding register_one_node[symmetric]
  by (rule r_into_rtranclp, rule ft_register, rule valid_order_id, rule surjective_pairing)

lemma fault_engine_invariant_witness:
  "length (heartbeats (one_node \<lparr>h_node = ''n'', last_heartbeat_ms = 0, missed_beats = 0, h_status = Online,
     has_reported = False\<rparr>)) \<le> 1000"
  using fault_engine_invariant[OF one_node_reachable] by blast

section \<open>Which faults a plan clears\<close>

lemma set_node_faults: "valid_order ord \<Longrightarrow> set (node_faults ord n s) = open_faults s n"
  by (auto simp: node_faults_def open_faults_def ran_def)

lemma unresolved_count_0: "hm_wf (faults s) \<Longrightarrow> unresolved_count n s = 0 \<longleftrightarrow> open_faults s n = {}"
  by (fastforce simp: unresolved_count_def open_faults_def filter_empty_conv hm_wf_def)

lemma clears_iff: "clears a ft \<longleftrightarrow> a = RestartNode \<or> a = action_for ft \<and> a \<noteq> NotifyOperator"
  by (cases a; cases ft) auto

lemma set_fold_add_action: "set (fold add_action fs as) = set as \<union> (\<lambda>f. action_for (f_type f)) ` set fs"
  by (induction fs arbitrary: as) (auto simp: add_action_def Let_def)

lemma plan_clears_iff:
  assumes "f \<in> set fs"
  shows "(\<exists>a \<in> set (plan_actions_for fs). clears a (f_type f)) \<longleftrightarrow>
    (\<exists>g \<in> set fs. action_for (f_type g) = RestartNode) \<or> action_for (f_type f) \<noteq> NotifyOperator"
proof -
  have eq: "set (plan_actions_for fs) - {NotifyOperator} = (\<lambda>f. action_for (f_type f)) ` set fs - {NotifyOperator}"
  proof (cases "fs = []")
    case False
    then have "fold add_action fs [] \<noteq> []" using set_fold_add_action[of fs "[]"] by force
    then show ?thesis by (auto simp: plan_actions_for_def Let_def set_fold_add_action)
  qed (simp add: plan_actions_for_def)
  have mem: "a \<in> set (plan_actions_for fs) \<longleftrightarrow> (\<exists>g \<in> set fs. action_for (f_type g) = a)" if "a \<noteq> NotifyOperator" for a
    using eq[unfolded set_eq_iff, rule_format, of a] that by auto
  have "(\<exists>a \<in> set (plan_actions_for fs). clears a (f_type f)) \<longleftrightarrow> RestartNode \<in> set (plan_actions_for fs) \<or>
      action_for (f_type f) \<noteq> NotifyOperator \<and> action_for (f_type f) \<in> set (plan_actions_for fs)"
    unfolding clears_iff by blast
  then show ?thesis using mem[of RestartNode] mem[of "action_for (f_type f)"] assms by auto
qed

lemma ex_map_option_iff:
  assumes "\<And>g. \<not> R (h g) \<Longrightarrow> h g = g \<and> \<not> C g" and "\<And>g. \<not> C g \<Longrightarrow> h g = g"
  shows "(\<exists>k. map_option h (M k) = Some f) \<and> \<not> R f \<longleftrightarrow> (\<exists>k. M k = Some f) \<and> \<not> R f \<and> \<not> C f"
proof
  assume l: "(\<exists>k. map_option h (M k) = Some f) \<and> \<not> R f"
  then obtain k g where "M k = Some g" "f = h g" by (auto simp: map_option_eq_Some)
  then show "(\<exists>k. M k = Some f) \<and> \<not> R f \<and> \<not> C f" using assms(1)[of g] l by auto
next
  assume r: "(\<exists>k. M k = Some f) \<and> \<not> R f \<and> \<not> C f"
  then obtain k where "M k = Some f" by blast
  then have "map_option h (M k) = Some f" using assms(2)[of f] r by simp
  then show "(\<exists>k. map_option h (M k) = Some f) \<and> \<not> R f" using r by blast
qed

lemma open_faults_dispatch:
  assumes "ft_ok s" and "valid_order ord"
  shows "open_faults (fold (dispatch ord now n) as s) m =
    {f \<in> open_faults s m. \<not> (m = n \<and> (\<exists>a \<in> set as. clears a (f_type f)))}"
proof -
  let ?P = "\<lambda>ft. \<exists>a \<in> set as. clears a ft"
  have get: "hm_get (faults (fold (dispatch ord now n) as s)) k = map_option (settle n now ?P) (hm_get (faults s) k)" for k
    using dispatch_all[OF assms, of now n as] by blast
  have "(\<exists>k. map_option (settle n now ?P) (hm_get (faults s) k) = Some f) \<and> \<not> recovered f \<longleftrightarrow>
      (\<exists>k. hm_get (faults s) k = Some f) \<and> \<not> recovered f \<and> \<not> (f_node f = n \<and> ?P (f_type f))" for f
    by (rule ex_map_option_iff) (auto simp: settle_def resolved_def split: if_splits)
  then show ?thesis unfolding open_faults_def get by blast
qed

lemma create_recovery_plan_new:
  assumes "n \<in> dom (hm_get (heartbeats s))" and "valid_order ord"
  obtains pid s1 p where "create_recovery_plan ord now n s = (Inr pid, s1)" "hm_get (recovery_plans s1) pid = Some p"
    "plan_state p = Pending" "plan_node p = n" "plan_actions p = plan_actions_for (node_faults ord n s)"
    "faults s1 = faults s" "heartbeats s1 = heartbeats s"
proof -
  let ?pid = "''plan-'' @ show_word (plan_counter s + 1)"
  let ?p = "\<lparr>plan_id = ?pid, plan_node = n, plan_actions = plan_actions_for (node_faults ord n s), plan_state = Pending,
      plan_created_ms = now, plan_completed_ms = None, plan_result = None\<rparr>"
  let ?ps = "evict_done ord is_done plan_created_ms max_recovery_plans (hm_insert ?pid ?p (recovery_plans s))"
  let ?s1 = "s\<lparr>plan_counter := plan_counter s + 1, recovery_plans := ?ps\<rparr>"
  have "hm_get ?ps ?pid = Some ?p"
    by (rule evict_done_keeps[OF assms(2)]) (simp_all add: is_done_def)
  moreover have "create_recovery_plan ord now n s = (Inr ?pid, ?s1)"
    using assms(1) by (simp add: create_recovery_plan_def Let_def)
  ultimately show thesis by (intro that[of ?pid ?s1 ?p]) simp_all
qed

text \<open>A plan created for a registered node and executed at once clears every fault it has an action for: its consistency check
  passes exactly when some open fault of the node calls for a restart, or none of them needs the operator. In every
  case the faults of other nodes stay as they are.\<close>

theorem recovery_plan_clears:
  assumes "ft_step\<^sup>*\<^sup>* (ft_new cfg) s" and "n \<in> dom (hm_get (heartbeats s))" and "valid_order ord" and "valid_order ord'"
  shows "\<exists>pid s1 s2. create_recovery_plan ord now n s = (Inr pid, s1) \<and> execute_recovery_plan ord' now' pid s1 = (Inr (), s2) \<and>
    (check_passed (post_recovery_consistency_check t pid s2) \<longleftrightarrow>
       (\<exists>f \<in> open_faults s n. action_for (f_type f) = RestartNode) \<or>
       (\<forall>f \<in> open_faults s n. action_for (f_type f) \<noteq> NotifyOperator)) \<and>
    (\<forall>m. m \<noteq> n \<longrightarrow> open_faults s2 m = open_faults s m)"
proof -
  obtain pid s1 p where create: "create_recovery_plan ord now n s = (Inr pid, s1)" and p: "hm_get (recovery_plans s1) pid = Some p"
    "plan_state p = Pending" "plan_node p = n" "plan_actions p = plan_actions_for (node_faults ord n s)"
    and same: "faults s1 = faults s" "heartbeats s1 = heartbeats s"
    by (rule create_recovery_plan_new[OF assms(2,3), of now])
  have ok: "ft_ok s1" using create_recovery_plan_ok[OF ft_run_ok[OF assms(1)], of ord now n] create by simp
  let ?as = "plan_actions_for (node_faults ord n s)"
  let ?t = "fold (dispatch ord' now' n) ?as s1"
  let ?s2 = "?t\<lparr>recovery_plans := hm_modify pid (\<lambda>p. p\<lparr>plan_state := InProgress,
      plan_result := Some (''executed actions: '' @ comma_join (map action_name (plan_actions p)))\<rparr>) (recovery_plans ?t)\<rparr>"
  have exec: "execute_recovery_plan ord' now' pid s1 = (Inr (), ?s2)"
    using p by (simp add: execute_recovery_plan_def Let_def)
  note d = dispatch_all[OF ok assms(4), of now' n ?as]
  have of: "open_faults ?s2 m = {f \<in> open_faults s m. \<not> (m = n \<and> (\<exists>a \<in> set ?as. clears a (f_type f)))}" for m
    using open_faults_dispatch[OF ok assms(4), of now' n ?as m] same by (simp add: open_faults_def)
  have "check_passed (post_recovery_consistency_check t pid ?s2) \<longleftrightarrow> open_faults ?s2 n = {}"
    using d p assms(2) same unresolved_count_0[of ?s2 n]
    by (simp add: post_recovery_consistency_check_def Let_def ft_ok_def faults_ok_def)
  also have "\<dots> \<longleftrightarrow> (\<exists>f \<in> open_faults s n. action_for (f_type f) = RestartNode) \<or>
      (\<forall>f \<in> open_faults s n. action_for (f_type f) \<noteq> NotifyOperator)"
    unfolding of using plan_clears_iff[of _ "node_faults ord n s"] set_node_faults[OF assms(3), of n s] by auto
  finally show ?thesis using create exec of by (intro exI conjI) auto
qed

lemma recovery_plan_clears_witness:
  "\<exists>pid s1 s2. create_recovery_plan rev 7 ''n'' (one_node \<lparr>h_node = ''n'', last_heartbeat_ms = 0, missed_beats = 0,
       h_status = Online, has_reported = False\<rparr>) = (Inr pid, s1) \<and> execute_recovery_plan rev 8 pid s1 = (Inr (), s2) \<and>
     check_passed (post_recovery_consistency_check 9 pid s2)"
proof -
  let ?s = "one_node \<lparr>h_node = ''n'', last_heartbeat_ms = 0, missed_beats = 0, h_status = Online, has_reported = False\<rparr>"
  have "''n'' \<in> dom (hm_get (heartbeats ?s))" "open_faults ?s ''n'' = {}"
    by (simp_all add: one_node_def ft_new_def open_faults_def domIff)
  then show ?thesis using recovery_plan_clears[OF one_node_reachable, of "''n''" rev rev 7 8 9] by fastforce
qed

section \<open>What a cycle does to the plans\<close>

definition ran_plan :: "bool \<Rightarrow> recovery_plan option \<Rightarrow> recovery_plan option \<Rightarrow> bool" where
  "ran_plan b old new \<longleftrightarrow> (case old of None \<Rightarrow> new = None
     | Some p \<Rightarrow> if plan_state p = Pending \<and> b then \<exists>q. new = Some q \<and> is_done q \<and> plan_node q = plan_node p else new = Some p)"

lemma ran_plan_refl [simp]: "ran_plan False x x"
  by (simp add: ran_plan_def split: option.splits)

lemma ran_plan_trans: "ran_plan b x y \<Longrightarrow> ran_plan c y z \<Longrightarrow> ran_plan (b \<or> c) x z"
  by (cases x) (auto simp: ran_plan_def is_done_def split: if_splits)

lemma execute_then_finish:
  assumes "hm_get (recovery_plans s) k = Some p" and "plan_state p = Pending" and "ft_ok s" and "valid_order ord"
  obtains s1 q where "execute_recovery_plan ord now k s = (Inr (), s1)" "hm_get (recovery_plans s1) = (hm_get (recovery_plans s))(k \<mapsto> q)"
    "plan_state q = InProgress" "plan_node q = plan_node p"
proof -
  note d = dispatch_all[OF assms(3,4), of now "plan_node p" "plan_actions p"]
  let ?t = "fold (dispatch ord now (plan_node p)) (plan_actions p) s"
  let ?h = "\<lambda>p. p\<lparr>plan_state := InProgress,
      plan_result := Some (''executed actions: '' @ comma_join (map action_name (plan_actions p)))\<rparr>"
  let ?s1 = "?t\<lparr>recovery_plans := hm_modify k ?h (recovery_plans ?t)\<rparr>"
  have "execute_recovery_plan ord now k s = (Inr (), ?s1)"
    using assms by (simp add: execute_recovery_plan_def Let_def)
  moreover have "hm_get (recovery_plans ?s1) = (hm_get (recovery_plans s))(k \<mapsto> ?h p)"
    using d assms(1) by (simp add: fun_eq_iff)
  ultimately show thesis by (intro that[of ?s1 "?h p"]) simp_all
qed

lemma finish_plans:
  assumes "hm_get (recovery_plans s) k = Some q"
  shows "plan_state q = InProgress \<Longrightarrow> \<exists>q'. hm_get (recovery_plans (snd (complete_recovery_plan now now' k txt s))) =
      (hm_get (recovery_plans s))(k \<mapsto> q') \<and> is_done q' \<and> plan_node q' = plan_node q"
    and "\<exists>q'. hm_get (recovery_plans (snd (fail_recovery_plan now k txt s))) =
      (hm_get (recovery_plans s))(k \<mapsto> q') \<and> is_done q' \<and> plan_node q' = plan_node q"
  using assms
  by (auto simp: complete_recovery_plan_def fail_recovery_plan_def Let_def fun_eq_iff is_done_def
      intro!: exI[of _ "q\<lparr>plan_state := Completed, plan_completed_ms := Some now, plan_result := Some txt\<rparr>"]
        exI[of _ "q\<lparr>plan_state := Failed, plan_completed_ms := Some now, plan_result := Some (''failed: '' @ txt)\<rparr>"])

lemma auto_execute_plans:
  assumes "ft_ok s" and "valid_order ord"
  shows "ft_ok (snd (auto_execute ord clk plan (cs, s))) \<and>
    ran_plan (plan_state plan = Pending \<and> plan_id plan = k) (hm_get (recovery_plans s) k)
      (hm_get (recovery_plans (snd (auto_execute ord clk plan (cs, s)))) k)"
proof (cases "\<exists>p. plan_state plan = Pending \<and> hm_get (recovery_plans s) (plan_id plan) = Some p \<and> plan_state p = Pending")
  case False
  then have "snd (auto_execute ord clk plan (cs, s)) = s"
    by (auto simp: auto_execute_def execute_recovery_plan_def Let_def split: option.splits)
  with False assms(1) show ?thesis by (auto simp: ran_plan_def split: option.splits)
next
  case True
  then obtain p where p: "hm_get (recovery_plans s) (plan_id plan) = Some p" "plan_state p = Pending" and pl: "plan_state plan = Pending"
    by blast
  let ?t = "clk (plan_id plan)"
  obtain s1 q where ex: "execute_recovery_plan ord (t_execute ?t) (plan_id plan) s = (Inr (), s1)"
    and s1: "hm_get (recovery_plans s1) = (hm_get (recovery_plans s))(plan_id plan \<mapsto> q)" and q: "plan_state q = InProgress" "plan_node q = plan_node p"
    by (rule execute_then_finish[OF p assms])
  have ok: "ft_ok s1" using execute_recovery_plan_ok[OF assms, of "t_execute ?t" "plan_id plan"] ex by simp
  let ?c = "post_recovery_consistency_check (t_check ?t) (plan_id plan) s1"
  let ?fin = "if check_passed ?c then snd (complete_recovery_plan (t_finish ?t) (t_recheck ?t) (plan_id plan) ''recovery_actions_completed'' s1)
      else snd (fail_recovery_plan (t_finish ?t) (plan_id plan) (check_details ?c) s1)"
  have fin: "snd (auto_execute ord clk plan (cs, s)) = ?fin"
    using pl ex by (simp add: auto_execute_def Let_def)
  have q1: "hm_get (recovery_plans s1) (plan_id plan) = Some q" by (simp add: s1)
  note f = finish_plans[OF q1, unfolded s1 fun_upd_upd]
  have "\<exists>q'. hm_get (recovery_plans ?fin) = (hm_get (recovery_plans s))(plan_id plan \<mapsto> q') \<and> is_done q' \<and> plan_node q' = plan_node p"
    using f(1)[OF q(1)] f(2) by (cases "check_passed ?c") (simp_all only: if_True if_False q(2))
  then have "ran_plan (plan_id plan = k) (hm_get (recovery_plans s) k) (hm_get (recovery_plans ?fin) k)"
    using p by (auto simp: ran_plan_def split: option.splits)
  moreover have "ft_ok ?fin" using ok complete_recovery_plan_ok fail_recovery_plan_ok by simp
  ultimately show ?thesis unfolding fin using pl by simp
qed

lemma auto_execute_all:
  assumes "ft_ok s" and "valid_order ord"
  shows "ft_ok (snd (fold (auto_execute ord clk) ps (cs, s))) \<and>
    ran_plan (\<exists>q \<in> set ps. plan_state q = Pending \<and> plan_id q = k) (hm_get (recovery_plans s) k)
      (hm_get (recovery_plans (snd (fold (auto_execute ord clk) ps (cs, s)))) k)"
  using assms(1)
proof (induction ps arbitrary: cs s)
  case (Cons a ps)
  obtain cs' s' where st: "auto_execute ord clk a (cs, s) = (cs', s')" by fastforce
  note step = auto_execute_plans[OF Cons.prems assms(2), of clk a cs k, unfolded st snd_conv]
  have "ran_plan (plan_state a = Pending \<and> plan_id a = k \<or> (\<exists>q \<in> set ps. plan_state q = Pending \<and> plan_id q = k))
      (hm_get (recovery_plans s) k) (hm_get (recovery_plans (snd (fold (auto_execute ord clk) ps (cs', s')))) k)"
    using step Cons.IH[of s' cs'] by (blast intro: ran_plan_trans)
  then show ?case using step Cons.IH[of s' cs'] by (simp add: st)
qed simp

lemma check_heartbeats_plans: "recovery_plans (snd (check_heartbeats ord now s)) = recovery_plans s"
proof -
  have "recovery_plans (snd (check_node now n os)) = recovery_plans (snd os)" for n os
    by (cases os) (auto simp: check_node_def Let_def insert_fault_fields split: option.splits)
  then have "recovery_plans (snd (fold (check_node now) ks os)) = recovery_plans (snd os)" for ks os
    by (induction ks arbitrary: os) simp_all
  then show ?thesis by (simp add: check_heartbeats_def)
qed

lemma auto_create_plans:
  assumes "ft_ok s"
  shows "ft_ok (snd (auto_create ord clk n (c, s))) \<and>
    (hm_get (recovery_plans (snd (auto_create ord clk n (c, s)))) k = Some p \<longrightarrow> hm_get (recovery_plans s) k = Some p \<or> plan_state p = Pending)"
  using assms create_recovery_plan_ok[OF assms, of ord "clk n" n]
  by (auto simp: auto_create_def create_recovery_plan_def Let_def split: sum.splits prod.splits if_splits dest!: evict_done_sub)

lemma auto_create_all:
  assumes "ft_ok s"
  shows "ft_ok (snd (fold (auto_create ord clk) ns (c, s))) \<and>
    (hm_get (recovery_plans (snd (fold (auto_create ord clk) ns (c, s)))) k = Some p \<longrightarrow>
       hm_get (recovery_plans s) k = Some p \<or> plan_state p = Pending)"
  using assms
proof (induction ns arbitrary: c s)
  case (Cons a ns)
  obtain c' s' where st: "auto_create ord clk a (c, s) = (c', s')" by fastforce
  show ?case using auto_create_plans[OF Cons.prems, of ord clk a c k p] Cons.IH[of s' c'] by (auto simp: st)
qed simp

lemma cycle_phases:
  obtains offs s1 c s2 cs s3 where "check_heartbeats ord now s = (offs, s1)" "fold (auto_create ord clk) offs (0, s1) = (c, s2)"
    "fold (auto_execute ord clk') (active_recovery_plans ord s2) ([], s2) = (cs, s3)"
    "snd (run_recovery_cycle ord now clk clk' s) = s3" "offenders (fst (run_recovery_cycle ord now clk clk' s)) = offs"
proof -
  obtain offs s1 where 1: "check_heartbeats ord now s = (offs, s1)" by fastforce
  obtain c s2 where 2: "fold (auto_create ord clk) offs (0, s1) = (c, s2)" by fastforce
  obtain cs s3 where 3: "fold (auto_execute ord clk') (active_recovery_plans ord s2) ([], s2) = (cs, s3)" by fastforce
  show thesis by (rule that[OF 1 2 3]) (simp_all add: run_recovery_cycle_def 1 2 3 Let_def)
qed

text \<open>A recovery cycle finishes what it starts: afterwards no plan is pending, and a plan that is in progress was already
  in progress, unchanged, before the cycle; so plans in progress do not pile up.\<close>

theorem cycle_finishes_plans:
  assumes "ft_step\<^sup>*\<^sup>* (ft_new cfg) s" and "valid_order ord"
    and "hm_get (recovery_plans (snd (run_recovery_cycle ord now clk clk' s))) k = Some p" and "is_open p"
  shows "hm_get (recovery_plans s) k = Some p \<and> plan_state p = InProgress"
proof -
  obtain offs s1 c s2 cs s3 where ph: "check_heartbeats ord now s = (offs, s1)" "fold (auto_create ord clk) offs (0, s1) = (c, s2)"
    "fold (auto_execute ord clk') (active_recovery_plans ord s2) ([], s2) = (cs, s3)"
    and s3: "snd (run_recovery_cycle ord now clk clk' s) = s3"
    by (rule cycle_phases)
  have ok1: "ft_ok s1" using check_heartbeats_ok[OF ft_run_ok[OF assms(1)], of ord now] ph(1) by simp
  have s1: "recovery_plans s1 = recovery_plans s" using check_heartbeats_plans[of ord now s] ph(1) by simp
  have s2: "ft_ok s2 \<and> (hm_get (recovery_plans s2) k = Some p \<longrightarrow> hm_get (recovery_plans s) k = Some p \<or> plan_state p = Pending)"
    using auto_create_all[OF ok1, of ord clk offs 0 k p] ph(2) s1 by simp
  then have plans2: "plans_ok (recovery_plans s2)" by (simp add: ft_ok_def)
  have ran: "ran_plan (\<exists>q \<in> set (active_recovery_plans ord s2). plan_state q = Pending \<and> plan_id q = k)
      (hm_get (recovery_plans s2) k) (Some p)"
    using auto_execute_all[of s2 ord clk' "active_recovery_plans ord s2" "[]" k] s2 assms(2,3) ph(3) s3 by simp
  then obtain p0 where p0: "hm_get (recovery_plans s2) k = Some p0" by (auto simp: ran_plan_def split: option.splits)
  have "\<exists>q \<in> set (active_recovery_plans ord s2). plan_state q = Pending \<and> plan_id q = k" if "plan_state p0 = Pending"
    using that p0 plans2 assms(2) by (auto simp: active_recovery_plans_def is_open_def plans_ok_def ran_def intro!: bexI[of _ p0])
  then have "p = p0 \<and> plan_state p \<noteq> Pending"
    using ran p0 assms(4) by (auto simp: ran_plan_def is_open_def is_done_def split: if_splits)
  then show ?thesis using s2 p0 assms(4) by (auto simp: is_open_def)
qed

section \<open>Identifiers stay fresh\<close>

definition plan_ids_ok :: "ft_engine \<Rightarrow> bool" where
  "plan_ids_ok s \<longleftrightarrow> (\<forall>k \<in> dom (hm_get (recovery_plans s)). \<exists>n \<le> unat (plan_counter s). k = ''plan-'' @ show_nat n)"

definition ids_ok :: "nat \<Rightarrow> ft_engine \<Rightarrow> bool" where
  "ids_ok b s \<longleftrightarrow> fault_ids_ok s \<and> plan_ids_ok s \<and> unat (fault_counter s) \<le> b \<and> unat (plan_counter s) \<le> b"

definition quiet :: "ft_engine \<Rightarrow> ft_engine \<Rightarrow> bool" where
  "quiet s s' \<longleftrightarrow> dom (hm_get (faults s')) \<subseteq> dom (hm_get (faults s)) \<and> fault_counter s' = fault_counter s \<and>
     dom (hm_get (recovery_plans s')) \<subseteq> dom (hm_get (recovery_plans s)) \<and> plan_counter s' = plan_counter s"

lemma quiet_ids: "quiet s s' \<Longrightarrow> ids_ok b s \<Longrightarrow> ids_ok (b + 1000) s'"
proof -
  assume q: "quiet s s'" and i: "ids_ok b s"
  have "fault_ids_ok s'" using q i unfolding quiet_def ids_ok_def fault_ids_ok_def by (simp add: subset_iff)
  moreover have "plan_ids_ok s'" using q i unfolding quiet_def ids_ok_def plan_ids_ok_def by (simp add: subset_iff)
  ultimately show ?thesis using q i by (simp add: quiet_def ids_ok_def)
qed

lemma quiet_refl [simp]: "quiet s s"
  by (simp add: quiet_def)

lemma quiet_register: "quiet s (snd (register_node ord now n s))"
  by (simp add: register_node_def quiet_def)

lemma quiet_unregister: "ft_ok s \<Longrightarrow> quiet s (snd (unregister_node ord n s))"
  by (auto simp: unregister_node_def quiet_def hm_get_retain ft_ok_def faults_ok_def plans_ok_def split: option.splits)

lemma quiet_heartbeat: "quiet s (snd (report_heartbeat now n s))"
  by (auto simp: report_heartbeat_def quiet_def Let_def split: option.splits)

lemma quiet_resolve: "quiet s (snd (resolve_fault now k s))"
  by (auto simp: resolve_fault_def quiet_def split: option.splits)

lemma quiet_isolate: "quiet s (snd (isolate_node ord now n level s))"
  by (auto simp: isolate_node_def quiet_def Let_def split: option.splits)

lemma dom_fold_modify: "dom (hm_get (fold (\<lambda>i. hm_modify i h) ks m)) = dom (hm_get m)"
  by (induction ks arbitrary: m) (auto simp: domIff split: if_splits)

lemma quiet_reintegrate: "ft_ok s \<Longrightarrow> valid_order ord \<Longrightarrow> quiet s (snd (reintegrate_node ord now n s))"
  by (auto simp: reintegrate_node_def quiet_def Let_def dom_fold_modify resolve_node_faults_get ft_ok_def)

lemma quiet_execute:
  assumes "ft_ok s" and "valid_order ord"
  shows "quiet s (snd (execute_recovery_plan ord now k s))"
  using dispatch_all[OF assms]
  by (auto simp: execute_recovery_plan_def quiet_def Let_def split: option.splits if_splits)

lemma quiet_complete: "quiet s (snd (complete_recovery_plan now now' k txt s))"
  by (auto simp: complete_recovery_plan_def quiet_def Let_def split: option.splits)

lemma quiet_fail: "quiet s (snd (fail_recovery_plan now k txt s))"
  by (auto simp: fail_recovery_plan_def quiet_def split: option.splits if_splits)

lemmas quiets = quiet_register quiet_unregister quiet_heartbeat quiet_resolve quiet_isolate quiet_reintegrate quiet_execute
  quiet_complete quiet_fail

lemma ids_ok_faults:
  "ids_ok b s \<Longrightarrow> fault_ids_ok s' \<Longrightarrow> unat (fault_counter s') \<le> b + 1000 \<Longrightarrow> recovery_plans s' = recovery_plans s \<Longrightarrow>
   plan_counter s' = plan_counter s \<Longrightarrow> ids_ok (b + 1000) s'"
  by (simp add: ids_ok_def plan_ids_ok_def)

lemma report_fault_ids:
  assumes "ids_ok b s" and "b + 1000 < 2 ^ 64"
  shows "ids_ok (b + 1000) (snd (report_fault ord now n ft sev d s))"
proof -
  have f: "fault_ids_ok s" "unat (fault_counter s) < 2 ^ 64 - 1" "unat (fault_counter s) \<le> b"
    using assms by (auto simp: ids_ok_def)
  note ins = insert_fault_fresh[OF f(1,2), of n ft sev d now]
  have "ids_ok (b + 1000) s" using quiet_ids[OF quiet_refl assms(1)] .
  moreover have "fault_ids_ok (snd (insert_fault n ft sev d now s)\<lparr>faults := evict_done ord recovered detected_ms max_faults
      (faults (snd (insert_fault n ft sev d now s))), heartbeats := hs\<rparr>)" for hs
    using ins(1) unfolding fault_ids_ok_def by (auto dest!: evict_done_sub)
  ultimately show ?thesis
    using assms ins(3) f(3) by (auto simp: report_fault_def Let_def case_prod_unfold insert_fault_fields
        intro!: ids_ok_faults[OF assms(1)]) (simp add: insert_fault_def Let_def)
qed

lemma check_nodes_ids:
  assumes "fault_ids_ok s" and "ft_ok s" and "unat (fault_counter s) + length ks < 2 ^ 64"
  shows "fault_ids_ok (snd (fold (check_node now) ks (os, s))) \<and>
    unat (fault_counter (snd (fold (check_node now) ks (os, s)))) \<le> unat (fault_counter s) + length ks \<and>
    plan_counter (snd (fold (check_node now) ks (os, s))) = plan_counter s"
  using assms
proof (induction ks arbitrary: os s)
  case (Cons a ks)
  obtain os' s' where st: "check_node now a (os, s) = (os', s')" by fastforce
  have lim: "unat (fault_counter s) < 2 ^ 64 - 1" using Cons.prems(3) by simp
  have "faults_ok (faults s)" using Cons.prems(2) by (simp add: ft_ok_def)
  note step = check_node_faults[OF this Cons.prems(1) lim, of now a os, unfolded st snd_conv]
  have ok: "ft_ok s'" using check_node_ok[of "(os, s)" now a] Cons.prems(2) st by simp
  have "plan_counter (snd (check_node now a (os, s))) = plan_counter s"
    by (auto simp: check_node_def insert_fault_def Let_def split: option.splits)
  then show ?case using step Cons.IH[of s' os'] ok Cons.prems(3) by (simp add: st)
qed simp

lemma check_heartbeats_ids:
  assumes "ids_ok b s" and "ft_ok s" and "b + 1000 < 2 ^ 64" and "valid_order ord"
  shows "ids_ok (b + 1000) (snd (check_heartbeats ord now s))"
proof -
  let ?ks = "hm_keys ord (heartbeats s)"
  have len: "length ?ks \<le> 1000" using assms(2,4) by (simp add: hm_keys_def ft_ok_def beats_ok_def max_heartbeats_def)
  then have "unat (fault_counter s) + length ?ks < 2 ^ 64" using assms(1,3) by (simp add: ids_ok_def)
  from check_nodes_ids[OF _ assms(2) this, of now "[]"] show ?thesis
    using assms(1) len check_heartbeats_plans[of ord now s]
    by (intro ids_ok_faults[OF assms(1)]) (auto simp: check_heartbeats_def ids_ok_def)
qed

lemma create_plan_ids:
  assumes "ids_ok b s" and "b + 1000 < 2 ^ 64"
  shows "ids_ok (b + 1000) (snd (create_recovery_plan ord now n s))"
proof -
  have inc: "unat (plan_counter s + 1) = Suc (unat (plan_counter s))" using assms by (intro unat_inc) (simp add: ids_ok_def)
  have "\<exists>m \<le> Suc (unat (plan_counter s)). k = ''plan-'' @ show_nat m"
    if "k \<in> dom (hm_get (evict_done ord is_done plan_created_ms max_recovery_plans
      (hm_insert (''plan-'' @ show_word (plan_counter s + 1)) p (recovery_plans s))))" for k p
  proof -
    have "k = ''plan-'' @ show_nat (Suc (unat (plan_counter s))) \<or> k \<in> dom (hm_get (recovery_plans s))"
      using that by (auto simp: inc dest!: evict_done_sub split: if_splits)
    then show ?thesis using assms(1) unfolding ids_ok_def plan_ids_ok_def by (blast intro: le_SucI)
  qed
  then show ?thesis
    using assms quiet_ids[OF quiet_refl assms(1)]
    by (auto simp: create_recovery_plan_def Let_def ids_ok_def fault_ids_ok_def plan_ids_ok_def inc)
qed

lemma ft_step_ids: "ft_step s s' \<Longrightarrow> ft_ok s \<Longrightarrow> ids_ok b s \<Longrightarrow> b + 1000 < 2 ^ 64 \<Longrightarrow> ids_ok (b + 1000) s'"
proof (induction rule: ft_step.induct)
  case (ft_fault ord now n ft sev d s q s')
  then show ?case using report_fault_ids[of b s ord now n ft sev d] by simp
next
  case (ft_check ord now s offs s')
  then show ?case using check_heartbeats_ids[of b s ord now] by simp
next
  case (ft_create ord now n s q s')
  then show ?case using create_plan_ids[of b s ord now n] by simp
qed (metis quiets quiet_ids snd_conv)+

lemma ft_run_ids:
  assumes "(ft_step ^^ i) (ft_new cfg) s" and "i * 1000 < 2 ^ 64"
  shows "ft_ok s \<and> ids_ok (i * 1000) s"
  using assms
proof (induction i arbitrary: s)
  case 0
  then have "s = ft_new cfg" by simp
  moreover have "ids_ok 0 (ft_new cfg)" by (simp add: ids_ok_def fault_ids_ok_def plan_ids_ok_def ft_new_def)
  ultimately show ?case by simp
next
  case (Suc i)
  then obtain t where "(ft_step ^^ i) (ft_new cfg) t" "ft_step t s" by auto
  then show ?case using Suc.IH[of t] Suc.prems(2) ft_step_ok[of t s] ft_step_ids[of t s "i * 1000"] by (simp add: add.commute)
qed

text \<open>C20: The heartbeat check, in any state that at most \<open>10 ^ 16\<close> operations lead to. A node that never sent a heartbeat is
  left alone. For any other node, the number of missed beats grows by one, up to the limit, when the last heartbeat is the
  timeout or longer ago, and is reset to zero otherwise; the node is reported, once, and set offline exactly when the new
  number has reached the limit; else it is degraded when it is late, and online (or still recovering) when it is not; nothing
  else of its record changes. No recorded fault is changed or lost. A reported node without an open fault gets exactly one,
  a network timeout of severity 8 detected now; the open faults of every other node stay as they were.\<close>

theorem heartbeat_check_exact:
  assumes "(ft_step ^^ i) (ft_new cfg) s" and "i \<le> 10 ^ 16" and "valid_order ord"
    and "check_heartbeats ord now s = (offs, s')"
    and "limit = unat (max_missed_beats (ft_cfg s))" and "timeout = unat (heartbeat_timeout_ms (ft_cfg s))"
  shows "distinct offs \<and>
    (\<forall>n. hm_get (heartbeats s) n = None \<longrightarrow> n \<notin> set offs \<and> hm_get (heartbeats s') n = None) \<and>
    (\<forall>n r. hm_get (heartbeats s) n = Some r \<and> \<not> has_reported r \<longrightarrow> n \<notin> set offs \<and> hm_get (heartbeats s') n = Some r) \<and>
    (\<forall>n r. hm_get (heartbeats s) n = Some r \<and> has_reported r \<longrightarrow>
       (\<exists>missed. unat missed =
            (if timeout \<le> unat now - unat (last_heartbeat_ms r) then min (unat (missed_beats r) + 1) limit else 0) \<and>
          (n \<in> set offs \<longleftrightarrow> limit \<le> unat missed) \<and>
          hm_get (heartbeats s') n = Some (r\<lparr>missed_beats := missed,
            h_status := (if n \<in> set offs then Offline
              else if timeout \<le> unat now - unat (last_heartbeat_ms r) then Degraded
              else if h_status r = Recovering then Recovering else Online)\<rparr>))) \<and>
    (\<forall>k f. hm_get (faults s) k = Some f \<longrightarrow> hm_get (faults s') k = Some f) \<and>
    (\<forall>n. if n \<in> set offs \<and> open_faults s n = {}
         then \<exists>f. open_faults s' n = {f} \<and> f_type f = NetworkTimeout \<and> severity f = 8 \<and> detected_ms f = now
         else open_faults s' n = open_faults s n)"
proof -
  have "i * 1000 + 1000 < 2 ^ 64" using assms(2) by simp
  then have ok: "ft_ok s" "ids_ok (i * 1000) s" and lim: "i * 1000 + 1000 < 2 ^ 64" using ft_run_ids[OF assms(1)] by simp_all
  let ?ks = "hm_keys ord (heartbeats s)"
  have ks: "distinct ?ks" "set ?ks = dom (hm_get (heartbeats s))" "length ?ks \<le> 1000"
    using ok assms(3) by (simp_all add: hm_keys_def ft_ok_def beats_ok_def hm_wf_def max_heartbeats_def dom_map_of_conv_image_fst)
  have run: "fold (check_node now) ?ks ([], s) = (offs, s')" using assms(4) by (simp add: check_heartbeats_def)
  have offs: "offs = filter (is_silent now s) ?ks"
    and hb: "hm_get (heartbeats s') n = (if n \<in> set ?ks then map_option (checked (ft_cfg s) now) (hm_get (heartbeats s) n)
      else hm_get (heartbeats s) n)" for n
    using check_nodes_beats[OF ks(1), of now "[]" s] by (simp_all add: run)
  have silent_dom: "is_silent now s n \<Longrightarrow> n \<in> set ?ks" for n using ks(2) by (auto simp: is_silent_def split: option.splits)
  then have mem: "n \<in> set offs \<longleftrightarrow> is_silent now s n" for n using offs by auto
  have "unat (fault_counter s) + length ?ks < 2 ^ 64" using ok(2) ks(3) lim by (simp add: ids_ok_def)
  from check_nodes_faults[OF _ _ this ks(1) ok(1), of now "[]"]
  have faults: "\<forall>k f. hm_get (faults s) k = Some f \<longrightarrow> hm_get (faults s') k = Some f"
    "\<forall>m. opened now s s' m (m \<in> set ?ks \<and> is_silent now s m)"
    using ok by (simp_all add: run ft_ok_def ids_ok_def)
  have rec: "hm_get (heartbeats s') n = map_option (checked (ft_cfg s) now) (hm_get (heartbeats s) n)" for n
    using hb[of n] ks(2) by (cases "hm_get (heartbeats s) n") auto
  have "\<exists>missed. unat missed =
          (if timeout \<le> unat now - unat (last_heartbeat_ms r) then min (unat (missed_beats r) + 1) limit else 0) \<and>
        (n \<in> set offs \<longleftrightarrow> limit \<le> unat missed) \<and>
        hm_get (heartbeats s') n = Some (r\<lparr>missed_beats := missed,
          h_status := (if n \<in> set offs then Offline
            else if timeout \<le> unat now - unat (last_heartbeat_ms r) then Degraded
            else if h_status r = Recovering then Recovering else Online)\<rparr>)"
    if r: "hm_get (heartbeats s) n = Some r" "has_reported r" for n r
  proof (intro exI[of _ "beats_missed (ft_cfg s) now r"] conjI)
    let ?m = "beats_missed (ft_cfg s) now r"
    show m: "unat ?m = (if timeout \<le> unat now - unat (last_heartbeat_ms r) then min (unat (missed_beats r) + 1) limit else 0)"
      by (simp add: unat_beats_missed late_def assms(5,6))
    show iff: "n \<in> set offs \<longleftrightarrow> limit \<le> unat ?m"
      using r by (simp add: mem is_silent_def silent_iff word_le_nat_alt assms(5))
    have "0 < ?m \<longleftrightarrow> timeout \<le> unat now - unat (last_heartbeat_ms r)" if "n \<notin> set offs"
      using m that unfolding iff by (auto simp: word_less_nat_alt)
    then show "hm_get (heartbeats s') n = Some (r\<lparr>missed_beats := ?m,
          h_status := (if n \<in> set offs then Offline
            else if timeout \<le> unat now - unat (last_heartbeat_ms r) then Degraded
            else if h_status r = Recovering then Recovering else Online)\<rparr>)"
      using r iff by (simp add: rec checked_eq word_le_nat_alt assms(5))
  qed
  moreover have "n \<notin> set offs \<and> hm_get (heartbeats s') n = Some r" if "hm_get (heartbeats s) n = Some r" "\<not> has_reported r" for n r
    using that by (simp add: mem rec is_silent_def silent_iff checked_eq)
  moreover have "n \<notin> set offs \<and> hm_get (heartbeats s') n = None" if "hm_get (heartbeats s) n = None" for n
    using that by (simp add: mem rec is_silent_def)
  moreover have "if n \<in> set offs \<and> open_faults s n = {}
      then \<exists>f. open_faults s' n = {f} \<and> f_type f = NetworkTimeout \<and> severity f = 8 \<and> detected_ms f = now
      else open_faults s' n = open_faults s n" for n
  proof -
    have eq: "(n \<in> set ?ks \<and> is_silent now s n) = (n \<in> set offs)" using silent_dom[of n] mem[of n] by blast
    from faults(2) have "opened now s s' n (n \<in> set ?ks \<and> is_silent now s n)" by blast
    then have "opened now s s' n (n \<in> set offs)" unfolding eq .
    then show ?thesis by (auto simp: opened_def outage_def)
  qed
  moreover have "distinct offs" using offs ks(1) by simp
  ultimately show ?thesis using faults(1) by blast
qed

text \<open>A node that sent a heartbeat at time 5 is reported by the second of two late checks when the limit is two.\<close>

definition late_engine :: ft_engine where
  "late_engine =
     snd (check_heartbeats (\<lambda>xs. xs) 15005
       (snd (report_heartbeat 5 ''n'' (snd (register_node (\<lambda>xs. xs) 1 ''n''
         (ft_new \<lparr>heartbeat_timeout_ms = 15000, max_missed_beats = 2, recovery_check_interval_ms = 5000\<rparr>))))))"

lemma late_engine_run:
  "(ft_step ^^ 3) (ft_new \<lparr>heartbeat_timeout_ms = 15000, max_missed_beats = 2, recovery_check_interval_ms = 5000\<rparr>) late_engine"
proof -
  have "ft_step s (snd (register_node (\<lambda>xs. xs) 1 ''n'' s))" "ft_step s (snd (report_heartbeat 5 ''n'' s))"
    "ft_step s (snd (check_heartbeats (\<lambda>xs. xs) 15005 s))" for s
    by (rule ft_register[OF valid_order_id surjective_pairing] ft_heartbeat[OF surjective_pairing]
        ft_check[OF valid_order_id surjective_pairing])+
  moreover have "P a b \<Longrightarrow> P b c \<Longrightarrow> P c d \<Longrightarrow> (P ^^ 3) a d" for P :: "ft_engine \<Rightarrow> ft_engine \<Rightarrow> bool" and a b c d
    by (metis numeral_3_eq_3 relpowp_0_I relpowp_Suc_I)
  ultimately show ?thesis unfolding late_engine_def by blast
qed

lemma heartbeat_check_exact_witness:
  "''n'' \<in> set (fst (check_heartbeats (\<lambda>xs. xs) 30000 late_engine)) \<and>
   (\<exists>f. open_faults (snd (check_heartbeats (\<lambda>xs. xs) 30000 late_engine)) ''n'' = {f} \<and> f_type f = NetworkTimeout)"
proof -
  have st: "hm_get (heartbeats late_engine) ''n'' =
      Some \<lparr>h_node = ''n'', last_heartbeat_ms = 5, missed_beats = 1, h_status = Degraded, has_reported = True\<rparr>"
    "ft_cfg late_engine = \<lparr>heartbeat_timeout_ms = 15000, max_missed_beats = 2, recovery_check_interval_ms = 5000\<rparr>"
    "faults late_engine = []"
    by (code_simp)+
  then have "open_faults late_engine ''n'' = {}" by (simp add: open_faults_def)
  moreover obtain offs s' where c: "check_heartbeats (\<lambda>xs. xs) 30000 late_engine = (offs, s')" by fastforce
  have bound: "3 \<le> (10 :: nat) ^ 16" by simp
  note exact = heartbeat_check_exact[OF late_engine_run bound valid_order_id c refl refl]
  have "''n'' \<in> set offs"
    using exact[THEN conjunct2, THEN conjunct2, THEN conjunct2, THEN conjunct1, rule_format, of "''n''"
        "\<lparr>h_node = ''n'', last_heartbeat_ms = 5, missed_beats = 1, h_status = Degraded, has_reported = True\<rparr>"] st(1,2)
    by auto
  moreover have "if ''n'' \<in> set offs \<and> open_faults late_engine ''n'' = {}
      then \<exists>f. open_faults s' ''n'' = {f} \<and> f_type f = NetworkTimeout \<and> severity f = 8 \<and> detected_ms f = 30000
      else open_faults s' ''n'' = open_faults late_engine ''n''"
    using exact[THEN conjunct2, THEN conjunct2, THEN conjunct2, THEN conjunct2, THEN conjunct2, THEN spec, of "''n''"] .
  ultimately show ?thesis by (auto simp: c)
qed

section \<open>Nodes that get no further plan\<close>

lemma evict_done_small: "length m \<le> n \<Longrightarrow> evict_done ord fin time n m = m"
  by (simp add: evict_done_def)

definition plans_of :: "string \<Rightarrow> ft_engine \<Rightarrow> string set" where
  "plans_of n s = {k. \<exists>p. hm_get (recovery_plans s) k = Some p \<and> plan_node p = n}"

lemma has_plan_iff:
  "hm_wf (recovery_plans s) \<Longrightarrow> has_plan n s \<longleftrightarrow> (\<exists>k p. hm_get (recovery_plans s) k = Some p \<and> plan_node p = n \<and> plan_state p \<noteq> Completed)"
  by (force simp: has_plan_def list_ex_iff hm_wf_def)

text \<open>A failed plan that new plans cannot overwrite.\<close>

definition blocked :: "string \<Rightarrow> string \<Rightarrow> recovery_plan \<Rightarrow> nat \<Rightarrow> ft_engine \<Rightarrow> bool" where
  "blocked n k p room s \<longleftrightarrow> ft_ok s \<and> hm_get (recovery_plans s) k = Some p \<and> plan_node p = n \<and> plan_state p = Failed \<and>
     plan_ids_ok s \<and> unat (plan_counter s) + room < 2 ^ 64 \<and> length (recovery_plans s) + room \<le> max_recovery_plans"

lemma auto_create_blocked:
  assumes "blocked n k p (Suc room) s"
  shows "blocked n k p room (snd (auto_create ord clk m (c, s))) \<and> plans_of n (snd (auto_create ord clk m (c, s))) = plans_of n s"
proof (cases "has_plan m s \<or> m \<notin> dom (hm_get (heartbeats s))")
  case True
  then have "snd (auto_create ord clk m (c, s)) = s" by (auto simp: auto_create_def create_recovery_plan_def)
  then show ?thesis using assms by (simp add: blocked_def)
next
  case False
  have "hm_wf (recovery_plans s)" using assms by (simp add: blocked_def ft_ok_def plans_ok_def)
  with False assms have mn: "m \<noteq> n" by (auto simp: has_plan_iff blocked_def)
  let ?pid = "''plan-'' @ show_word (plan_counter s + 1)"
  let ?p = "\<lparr>plan_id = ?pid, plan_node = m, plan_actions = plan_actions_for (node_faults ord m s), plan_state = Pending,
      plan_created_ms = clk m, plan_completed_ms = None, plan_result = None\<rparr>"
  let ?s = "s\<lparr>plan_counter := plan_counter s + 1, recovery_plans := hm_insert ?pid ?p (recovery_plans s)\<rparr>"
  have len: "length (hm_insert ?pid ?p (recovery_plans s)) + room \<le> max_recovery_plans"
    using length_hm_insert_le[of ?pid ?p "recovery_plans s"] assms by (simp add: blocked_def)
  then have eq: "snd (auto_create ord clk m (c, s)) = ?s"
    using False by (simp add: auto_create_def create_recovery_plan_def Let_def evict_done_small domD split: prod.splits)
  have inc: "unat (plan_counter s + 1) = Suc (unat (plan_counter s))" using assms by (intro unat_inc) (simp add: blocked_def)
  have fresh: "?pid \<notin> dom (hm_get (recovery_plans s))"
    using assms inc unfolding blocked_def plan_ids_ok_def by (force simp: show_nat_inj)
  have "plan_ids_ok ?s" using assms inc unfolding blocked_def plan_ids_ok_def by (auto intro: le_SucI)
  moreover have "ft_ok ?s" using assms by (simp add: blocked_def ft_ok_def plans_ok_insert)
  ultimately have "blocked n k p room ?s" using assms inc fresh len by (auto simp: blocked_def)
  moreover have "plans_of n ?s = plans_of n s" using mn fresh by (auto simp: plans_of_def domIff)
  ultimately show ?thesis by (simp only: eq)
qed

lemma auto_create_all_blocked:
  assumes "blocked n k p (length ns + room) s"
  shows "blocked n k p room (snd (fold (auto_create ord clk) ns (c, s))) \<and>
    plans_of n (snd (fold (auto_create ord clk) ns (c, s))) = plans_of n s"
  using assms
proof (induction ns arbitrary: c s)
  case (Cons a ns)
  obtain c' s' where st: "auto_create ord clk a (c, s) = (c', s')" by fastforce
  show ?case using auto_create_blocked[of n k p "length ns + room" s ord clk a c] Cons.prems Cons.IH[of s' c'] by (simp add: st)
qed simp

lemma fold_modify_other: "k \<notin> set ks \<Longrightarrow> hm_get (fold (\<lambda>i. hm_modify i h) ks m) k = hm_get m k"
  by (induction ks arbitrary: m) auto

lemma reintegrate_keeps_done:
  assumes "ft_ok s" and "valid_order ord" and "hm_get (recovery_plans s) k = Some p" and "\<not> is_open p"
  shows "hm_get (recovery_plans (snd (reintegrate_node ord now n s))) k = Some p"
proof -
  have "k \<notin> set (map plan_id (filter (\<lambda>p. plan_node p = n \<and> is_open p) (hm_values ord (recovery_plans s))))"
    using assms by (auto simp: ft_ok_def plans_ok_def ran_def)
  then show ?thesis
    using assms(3) by (simp add: reintegrate_node_def Let_def fold_modify_other del: set_map set_filter)
qed

lemma ran_plans_of:
  assumes "\<And>k. ran_plan (b k) (hm_get (recovery_plans s) k) (hm_get (recovery_plans s') k)"
  shows "plans_of n s' = plans_of n s"
proof -
  have "(\<exists>p. hm_get (recovery_plans s') k = Some p \<and> plan_node p = n) \<longleftrightarrow> (\<exists>p. hm_get (recovery_plans s) k = Some p \<and> plan_node p = n)" for k
    using assms[of k] by (cases "hm_get (recovery_plans s) k") (auto simp: ran_plan_def split: if_splits)
  then show ?thesis by (simp add: plans_of_def)
qed

lemma check_heartbeats_counter: "plan_counter (snd (check_heartbeats ord now s)) = plan_counter s"
proof -
  have "plan_counter (snd (check_node now n os)) = plan_counter (snd os)" for n os
    by (cases os) (auto simp: check_node_def insert_fault_def Let_def split: option.splits)
  then have "plan_counter (snd (fold (check_node now) ks os)) = plan_counter (snd os)" for ks os
    by (induction ks arbitrary: os) simp_all
  then show ?thesis by (simp add: check_heartbeats_def)
qed

lemma check_heartbeats_offenders:
  assumes "ft_ok s" and "valid_order ord"
  shows "length (fst (check_heartbeats ord now s)) \<le> length (heartbeats s)"
proof -
  have "distinct (hm_keys ord (heartbeats s))" using assms by (simp add: hm_keys_def ft_ok_def beats_ok_def hm_wf_def)
  from check_nodes_beats[OF this, of now "[]" s]
  have "length (fst (check_heartbeats ord now s)) \<le> length (hm_keys ord (heartbeats s))"
    by (simp add: check_heartbeats_def)
  then show ?thesis using assms(2) by (simp add: hm_keys_def)
qed

text \<open>A node with a failed plan is not helped again: while the table of plans has room, a recovery cycle creates no plan for it,
  whatever faults it has, and keeps the failed plan; reintegrating the node does not close that plan either.\<close>

theorem failed_plan_blocks_node:
  assumes "(ft_step ^^ i) (ft_new cfg) s" and "i \<le> 10 ^ 16" and "valid_order ord"
    and "hm_get (recovery_plans s) k = Some p" and "plan_state p = Failed"
    and "length (recovery_plans s) + length (heartbeats s) \<le> 200"
  shows "hm_get (recovery_plans (snd (run_recovery_cycle ord now clk clk' s))) k = Some p \<and>
    plans_of (plan_node p) (snd (run_recovery_cycle ord now clk clk' s)) = plans_of (plan_node p) s \<and>
    hm_get (recovery_plans (snd (reintegrate_node ord now (plan_node p) s))) k = Some p"
proof -
  have ok: "ft_ok s" "ids_ok (i * 1000) s" using ft_run_ids[OF assms(1)] assms(2) by simp_all
  obtain offs s1 c s2 cs s3 where ph: "check_heartbeats ord now s = (offs, s1)" "fold (auto_create ord clk) offs (0, s1) = (c, s2)"
    "fold (auto_execute ord clk') (active_recovery_plans ord s2) ([], s2) = (cs, s3)"
    and s3: "snd (run_recovery_cycle ord now clk clk' s) = s3"
    by (rule cycle_phases)
  have s1: "recovery_plans s1 = recovery_plans s" "plan_counter s1 = plan_counter s" "ft_ok s1" "length offs \<le> length (heartbeats s)"
    using check_heartbeats_plans[of ord now s] check_heartbeats_counter[of ord now s] check_heartbeats_ok[OF ok(1), of ord now]
      check_heartbeats_offenders[OF ok(1) assms(3), of now] ph(1) by simp_all
  have "length (heartbeats s) \<le> 1000" using ok(1) by (simp add: ft_ok_def beats_ok_def max_heartbeats_def)
  then have "blocked (plan_node p) k p (length offs + 0) s1"
    using s1 ok(2) assms(2,4-6) by (auto simp: blocked_def ids_ok_def plan_ids_ok_def max_recovery_plans_def)
  from auto_create_all_blocked[OF this, of ord clk 0] have s2: "blocked (plan_node p) k p 0 s2" "plans_of (plan_node p) s2 = plans_of (plan_node p) s1"
    by (simp_all add: ph(2))
  then have ok2: "ft_ok s2" "hm_get (recovery_plans s2) k = Some p" by (simp_all add: blocked_def)
  have ran: "ran_plan (\<exists>q \<in> set (active_recovery_plans ord s2). plan_state q = Pending \<and> plan_id q = j)
      (hm_get (recovery_plans s2) j) (hm_get (recovery_plans s3) j)" for j
    using auto_execute_all[OF ok2(1) assms(3), of clk' "active_recovery_plans ord s2" "[]" j] ph(3) by simp
  have "hm_get (recovery_plans s3) k = Some p" using ran[of k] ok2(2) assms(5) by (simp add: ran_plan_def)
  moreover have "plans_of (plan_node p) s3 = plans_of (plan_node p) s"
    using ran_plans_of[OF ran] s2(2) s1(1) by (simp add: plans_of_def)
  moreover have "hm_get (recovery_plans (snd (reintegrate_node ord now (plan_node p) s))) k = Some p"
    by (rule reintegrate_keeps_done[OF ok(1) assms(3,4)]) (simp add: is_open_def assms(5))
  ultimately show ?thesis unfolding s3 by simp
qed

definition failed_run :: ft_engine where
  "failed_run = snd (fail_recovery_plan 3 ''plan-1'' ''x'' (snd (create_recovery_plan (\<lambda>xs. xs) 2 ''n''
     (snd (register_node (\<lambda>xs. xs) 1 ''n'' (ft_new ft_config_default))))))"

definition failed_plan :: recovery_plan where
  "failed_plan = \<lparr>plan_id = ''plan-1'', plan_node = ''n'', plan_actions = [NotifyOperator], plan_state = Failed, plan_created_ms = 2,
     plan_completed_ms = Some 3, plan_result = Some ''failed: x''\<rparr>"

lemma failed_run_steps: "(ft_step ^^ 3) (ft_new ft_config_default) failed_run"
proof -
  have "ft_step s (snd (register_node (\<lambda>xs. xs) 1 ''n'' s))" "ft_step s (snd (create_recovery_plan (\<lambda>xs. xs) 2 ''n'' s))"
    "ft_step s (snd (fail_recovery_plan 3 ''plan-1'' ''x'' s))" for s
    by (rule ft_register[OF valid_order_id surjective_pairing] ft_create[OF valid_order_id surjective_pairing]
        ft_fail[OF surjective_pairing])+
  then show ?thesis unfolding failed_run_def numeral_3_eq_3 relpowp.simps by blast
qed

lemma failed_run_plan: "hm_get (recovery_plans failed_run) ''plan-1'' = Some failed_plan" "length (recovery_plans failed_run) = 1"
  "length (heartbeats failed_run) = 1"
  by code_simp+

abbreviation fixed_clock :: "u64 \<Rightarrow> string \<Rightarrow> plan_clock" where
  "fixed_clock t \<equiv> \<lambda>_. \<lparr>t_execute = t, t_check = t, t_finish = t, t_recheck = t\<rparr>"

lemma failed_plan_blocks_node_witness:
  "hm_get (recovery_plans (snd (run_recovery_cycle rev 9 (\<lambda>_. 9) (fixed_clock 9) failed_run))) ''plan-1'' = Some failed_plan"
  using failed_plan_blocks_node[OF failed_run_steps, of rev "''plan-1''" failed_plan 9 "\<lambda>_. 9" "fixed_clock 9"] failed_run_plan
  by (simp add: failed_plan_def)

text \<open>An execution that nobody completed.\<close>

definition started_run :: ft_engine where
  "started_run = snd (execute_recovery_plan (\<lambda>xs. xs) 3 ''plan-1'' (snd (create_recovery_plan (\<lambda>xs. xs) 2 ''n''
     (snd (register_node (\<lambda>xs. xs) 1 ''n'' (ft_new ft_config_default))))))"

lemma started_run_reachable: "ft_step\<^sup>*\<^sup>* (ft_new ft_config_default) started_run"
proof -
  have "ft_step s (snd (register_node (\<lambda>xs. xs) 1 ''n'' s))" "ft_step s (snd (create_recovery_plan (\<lambda>xs. xs) 2 ''n'' s))"
    "ft_step s (snd (execute_recovery_plan (\<lambda>xs. xs) 3 ''plan-1'' s))" for s
    by (rule ft_register[OF valid_order_id surjective_pairing] ft_create[OF valid_order_id surjective_pairing]
        ft_execute[OF valid_order_id surjective_pairing])+
  then show ?thesis unfolding started_run_def by (meson rtranclp.rtrancl_into_rtrancl rtranclp.rtrancl_refl)
qed

lemma started_run_cycle:
  "map_option plan_state (hm_get (recovery_plans (snd (run_recovery_cycle (\<lambda>xs. xs) 9 (\<lambda>_. 9) (fixed_clock 9) started_run))) ''plan-1'')
     = Some InProgress"
proof -
  have hb: "heartbeats started_run = [(''n'', \<lparr>h_node = ''n'', last_heartbeat_ms = 1, missed_beats = 0, h_status = Online,
      has_reported = False\<rparr>)]" by code_simp
  have pl: "recovery_plans started_run = [(''plan-1'', \<lparr>plan_id = ''plan-1'', plan_node = ''n'', plan_actions = [NotifyOperator],
      plan_state = InProgress, plan_created_ms = 2, plan_completed_ms = None,
      plan_result = Some ''executed actions: NotifyOperator''\<rparr>)]" by code_simp
  have "check_heartbeats (\<lambda>xs. xs) 9 started_run = ([], started_run)"
    by (simp add: check_heartbeats_def hb hm_keys_def check_node_def)
  then show ?thesis
    by (simp add: run_recovery_cycle_def pl active_recovery_plans_def hm_values_def is_open_def auto_execute_def Let_def)
qed

lemma cycle_finishes_plans_witness: "\<exists>p. hm_get (recovery_plans started_run) ''plan-1'' = Some p \<and> plan_state p = InProgress"
proof -
  obtain p where p: "hm_get (recovery_plans (snd (run_recovery_cycle (\<lambda>xs. xs) 9 (\<lambda>_. 9) (fixed_clock 9) started_run))) ''plan-1'' = Some p"
    "plan_state p = InProgress"
    using started_run_cycle unfolding map_option_eq_Some by blast
  have "is_open p" by (simp add: is_open_def p(2))
  from cycle_finishes_plans[OF started_run_reachable valid_order_id p(1) this] show ?thesis by blast
qed

section \<open>Isolation and removal of nodes\<close>

lemma check_heartbeats_groups: "isolation_groups (snd (check_heartbeats ord now s)) = isolation_groups s"
proof -
  have "isolation_groups (snd (check_node now n os)) = isolation_groups (snd os)" for n os
    by (cases os) (auto simp: check_node_def Let_def insert_fault_fields split: option.splits)
  then have "isolation_groups (snd (fold (check_node now) ks os)) = isolation_groups (snd os)" for ks os
    by (induction ks arbitrary: os) simp_all
  then show ?thesis by (simp add: check_heartbeats_def)
qed

lemma check_heartbeats_record:
  assumes "ft_ok s" and "valid_order ord"
  shows "hm_get (heartbeats (snd (check_heartbeats ord now s))) n = map_option (checked (ft_cfg s) now) (hm_get (heartbeats s) n)"
proof -
  have "distinct (hm_keys ord (heartbeats s))" "set (hm_keys ord (heartbeats s)) = dom (hm_get (heartbeats s))"
    using assms by (simp_all add: hm_keys_def ft_ok_def beats_ok_def hm_wf_def dom_map_of_conv_image_fst)
  with check_nodes_beats[OF this(1), of now "[]" s n] show ?thesis
    by (cases "hm_get (heartbeats s) n") (auto simp: check_heartbeats_def)
qed

lemma isolate_node_effect:
  assumes "ft_ok s" and "valid_order ord" and "hm_get (heartbeats s) n = Some r" and "length (isolation_groups s) < max_groups"
  obtains s1 k g where "isolate_node ord now n level s = (Inr (), s1)" "hm_get (isolation_groups s1) k = Some g" "nodes g = [n]"
    "g_level g = level" "hm_get (heartbeats s1) n = Some (level_status level r)" "ft_cfg s1 = ft_cfg s"
proof (cases "find (\<lambda>k. n \<in> set (nodes (the (hm_get (isolation_groups s) k)))) (hm_keys ord (isolation_groups s))")
  case None
  let ?gid = "''group-'' @ show_word (group_counter s + 1)"
  let ?g = "\<lparr>group_id = ?gid, nodes = [n], g_level = level, g_created_ms = now\<rparr>"
  have "length (hm_insert ?gid ?g (isolation_groups s)) \<le> max_groups"
    using assms(4) length_hm_insert_le[of ?gid ?g "isolation_groups s"] by simp
  then have "evict_min ord g_created_ms max_groups (hm_insert ?gid ?g (isolation_groups s)) = hm_insert ?gid ?g (isolation_groups s)"
    by (simp add: evict_min_def)
  then show thesis
    using None assms(3) by (intro that[of "snd (isolate_node ord now n level s)" ?gid ?g])
      (simp_all add: isolate_node_def Let_def domI)
next
  case (Some k)
  then have "k \<in> set (hm_keys ord (isolation_groups s))" and kn: "n \<in> set (nodes (the (hm_get (isolation_groups s) k)))"
    unfolding find_Some_iff by auto
  then have "k \<in> dom (hm_get (isolation_groups s))" by (simp only: set_hm_keys[OF assms(2)])
  then obtain g where g: "hm_get (isolation_groups s) k = Some g" by blast
  then have ng: "nodes g = [n]" using kn assms(1) groups_ok_nodes[of "isolation_groups s" k g] by (auto simp: ft_ok_def)
  have eq: "isolate_node ord now n level s = (Inr (), s\<lparr>heartbeats := hm_modify n (level_status level) (heartbeats s),
      isolation_groups := hm_modify k (\<lambda>g. g\<lparr>g_level := level\<rparr>) (isolation_groups s)\<rparr>)"
    unfolding isolate_node_def Let_def using assms(3) by (simp add: Some domI)
  show thesis by (rule that[OF eq, of k "g\<lparr>g_level := level\<rparr>"]) (simp_all add: g ng assms(3))
qed

text \<open>Isolation is forgotten: when a node that keeps sending heartbeats is shut down or put in quarantine, the next heartbeat
  check sets it online again, although the node is still in a group with that isolation level.\<close>

theorem isolation_undone_by_check:
  assumes "ft_step\<^sup>*\<^sup>* (ft_new cfg) s" and "valid_order ord" and "level = Shutdown \<or> level = Quarantine"
    and "hm_get (heartbeats s) n = Some r" and "has_reported r" and "length (isolation_groups s) < 200"
    and "elapsed_since now' (last_heartbeat_ms r) < heartbeat_timeout_ms (ft_cfg s)" and "0 < max_missed_beats (ft_cfg s)"
  shows "\<exists>s1 s2 offs r' k g. isolate_node ord now n level s = (Inr (), s1) \<and> check_heartbeats ord now' s1 = (offs, s2) \<and>
    hm_get (heartbeats s1) n = Some (level_status level r) \<and> hm_get (heartbeats s2) n = Some r' \<and> h_status r' = Online \<and>
    hm_get (isolation_groups s2) k = Some g \<and> n \<in> set (nodes g) \<and> g_level g = level"
proof -
  have ok: "ft_ok s" by (rule ft_run_ok[OF assms(1)])
  have room: "length (isolation_groups s) < max_groups" using assms(6) by (simp add: max_groups_def)
  obtain s1 k g where s1: "isolate_node ord now n level s = (Inr (), s1)" "hm_get (isolation_groups s1) k = Some g" "nodes g = [n]"
    "g_level g = level" "hm_get (heartbeats s1) n = Some (level_status level r)" "ft_cfg s1 = ft_cfg s"
    by (rule isolate_node_effect[OF ok assms(2,4) room])
  have ok1: "ft_ok s1" using isolate_node_ok[OF assms(2) ok, of now n level] s1(1) by simp
  obtain offs s2 where s2: "check_heartbeats ord now' s1 = (offs, s2)" by fastforce
  have "hm_get (heartbeats s2) n = Some (checked (ft_cfg s) now' (level_status level r))"
    using check_heartbeats_record[OF ok1 assms(2), of now' n] s1 s2 by simp
  moreover have "h_status (checked (ft_cfg s) now' (level_status level r)) = Online"
    using assms(3,5,7,8) by (auto simp: checked_eq level_status_def beats_missed_def)
  moreover have "isolation_groups s2 = isolation_groups s1" using check_heartbeats_groups[of ord now' s1] s2 by simp
  moreover have "n \<in> set (nodes g)" by (simp add: s1(3))
  ultimately show ?thesis using s1(1,2,4,5) s2 by metis
qed

definition beating_run :: ft_engine where
  "beating_run = snd (report_heartbeat 5 ''n'' (snd (register_node (\<lambda>xs. xs) 1 ''n'' (ft_new ft_config_default))))"

lemma beating_run_reachable: "ft_step\<^sup>*\<^sup>* (ft_new ft_config_default) beating_run"
proof -
  have "ft_step s (snd (register_node (\<lambda>xs. xs) 1 ''n'' s))" "ft_step s (snd (report_heartbeat 5 ''n'' s))" for s
    by (rule ft_register[OF valid_order_id surjective_pairing] ft_heartbeat[OF surjective_pairing])+
  then show ?thesis unfolding beating_run_def by (meson rtranclp.rtrancl_into_rtrancl rtranclp.rtrancl_refl)
qed

lemma beating_run_value:
  "hm_get (heartbeats beating_run) ''n'' = Some \<lparr>h_node = ''n'', last_heartbeat_ms = 5, missed_beats = 0, h_status = Online, has_reported = True\<rparr>"
  "isolation_groups beating_run = []" "ft_cfg beating_run = ft_config_default"
  by code_simp+

lemma isolation_undone_by_check_witness:
  "\<exists>s1 s2 offs r'. isolate_node rev 6 ''n'' Shutdown beating_run = (Inr (), s1) \<and> check_heartbeats rev 7 s1 = (offs, s2) \<and>
     hm_get (heartbeats s2) ''n'' = Some r' \<and> h_status r' = Online"
proof -
  have "elapsed_since 7 5 < heartbeat_timeout_ms (ft_cfg beating_run)" "0 < max_missed_beats (ft_cfg beating_run)"
    unfolding beating_run_value by code_simp+
  from isolation_undone_by_check[OF beating_run_reachable valid_order_rev _ beating_run_value(1), of Shutdown 7 6] this
  show ?thesis by (simp add: beating_run_value(2)) blast
qed

text \<open>Removing a node removes every trace of it and nothing else: no heartbeat record, fault, group or plan names it any
  more, and the entries that do not name it are unchanged. A node that is not registered is an error and changes nothing.\<close>

theorem unregister_exact:
  assumes "ft_step\<^sup>*\<^sup>* (ft_new cfg) s" and "valid_order ord" and "unregister_node ord n s = (q, s')"
  shows "if n \<in> dom (hm_get (heartbeats s))
    then q = Inr () \<and> hm_get (heartbeats s') = (hm_get (heartbeats s))(n := None) \<and>
      (\<forall>k f. hm_get (faults s') k = Some f \<longleftrightarrow> hm_get (faults s) k = Some f \<and> f_node f \<noteq> n) \<and>
      (\<forall>k g. hm_get (isolation_groups s') k = Some g \<longleftrightarrow> hm_get (isolation_groups s) k = Some g \<and> n \<notin> set (nodes g)) \<and>
      (\<forall>k p. hm_get (recovery_plans s') k = Some p \<longleftrightarrow> hm_get (recovery_plans s) k = Some p \<and> plan_node p \<noteq> n)
    else q = Inl (NodeNotRegistered n) \<and> s' = s"
proof (cases "n \<in> dom (hm_get (heartbeats s))")
  case True
  have ok: "groups_ok (isolation_groups s)" "hm_wf (faults s)" "hm_wf (recovery_plans s)"
    using ft_run_ok[OF assms(1)] by (auto simp: ft_ok_def faults_ok_def plans_ok_def)
  have s': "q = Inr ()" "heartbeats s' = hm_remove n (heartbeats s)" "faults s' = hm_retain (\<lambda>f. f_node f \<noteq> n) (faults s)"
    "isolation_groups s' = leave_groups ord n (isolation_groups s)" "recovery_plans s' = hm_retain (\<lambda>p. plan_node p \<noteq> n) (recovery_plans s)"
    using assms(3) True by (auto simp: unregister_node_def)
  have "hm_get (isolation_groups s') k = Some g \<longleftrightarrow> hm_get (isolation_groups s) k = Some g \<and> n \<notin> set (nodes g)" for k g
    using groups_ok_nodes[OF ok(1), of k] by (auto simp: s'(4) leave_groups_get[OF ok(1) assms(2)] split: option.splits)
  then show ?thesis using True s'(1,2) ok by (simp add: s'(3,5) hm_get_retain split: option.splits if_splits) blast
qed (use assms(3) in \<open>simp add: unregister_node_def domIff\<close>)

lemma unregister_exact_witness:
  "fst (unregister_node rev ''m'' beating_run) = Inl (NodeNotRegistered ''m'') \<and> fst (unregister_node rev ''n'' beating_run) = Inr ()"
proof -
  have "''n'' \<in> dom (hm_get (heartbeats beating_run))" "''m'' \<notin> dom (hm_get (heartbeats beating_run))"
    by (simp add: beating_run_value(1) domI, code_simp)
  then show ?thesis
    using unregister_exact[OF beating_run_reachable valid_order_rev surjective_pairing, of "''n''"]
      unregister_exact[OF beating_run_reachable valid_order_rev surjective_pairing, of "''m''"] by simp
qed

end
