(* ===== verification/FaultStore.thy ===== *)
theory FaultStore
  imports FaultRecovery
begin

text \<open>
  Saving and restoring the fault engine, \<open>src/fault_tolerance/mod.rs\<close>, with both backends. The database is four tables of
  rows; every statement may fail, and the failures are an argument. Enumerations are stored by their debug name, whose parser,
  like the serialisation of lists and of the whole snapshot, belongs to the JSON library and is an argument with its law, stated
  as a locale of encoders and decoders. The theorems are the round trip through either backend,
  that identifiers stay fresh after a restart, and what is brought back that should be gone.
\<close>

section \<open>Codecs\<close>

text \<open>What is written can be read.\<close>

locale codec =
  fixes enc :: "'a \<Rightarrow> 'b" and dec :: "'b \<Rightarrow> 'a option"
  assumes dec_enc: "dec (enc x) = Some x"
begin

lemma enc_inj: "enc x = enc y \<longleftrightarrow> x = y"
  by (metis dec_enc option.inject)

lemma dec_or_default: "case_option d id (dec (enc x)) = x"
  by (simp add: dec_enc)

end

text \<open>\<open>as i64\<close> and back.\<close>

definition u64_as_i64 :: "u64 \<Rightarrow> int" where "u64_as_i64 w = sint w"

definition i64_as_u64 :: "int \<Rightarrow> u64" where "i64_as_u64 i = of_int i"

interpretation u64_codec: codec u64_as_i64 "\<lambda>i. Some (i64_as_u64 i)"
  by unfold_locales (simp add: u64_as_i64_def i64_as_u64_def)

section \<open>Rows\<close>

record fault_row =
  fr_id :: string
  fr_node :: string
  fr_type :: string
  fr_severity :: int
  fr_description :: string
  fr_detected :: int
  fr_resolved :: "int option"
  fr_recovered :: int

record plan_row =
  pr_id :: string
  pr_node :: string
  pr_actions :: string
  pr_state :: string
  pr_created :: int
  pr_completed :: "int option"
  pr_result :: "string option"

record group_row =
  gr_id :: string
  gr_nodes :: string
  gr_level :: string
  gr_created :: int

record beat_row =
  br_node :: string
  br_last :: int
  br_missed :: int
  br_status :: string

record ft_db =
  t_faults :: "fault_row list"
  t_plans :: "plan_row list"
  t_groups :: "group_row list"
  t_beats :: "beat_row list"

datatype ft_table = Faults | RecoveryPlans | IsolationGroups | HeartbeatRecords

datatype ft_stmt = OpenDb | CreateTables | BeginTx | Clear ft_table | InsertRow ft_table string | Commit

record ft_snapshot =
  sn_faults :: "(string, fault_event) hmap"
  sn_plans :: "(string, recovery_plan) hmap"
  sn_groups :: "(string, isolation_group) hmap"
  sn_beats :: "(string, heartbeat_record) hmap"

text \<open>The parts of \<open>serde_json\<close> that the module uses; a quoted name is how it reads a plain variant.\<close>

record ft_json =
  fault_to_json :: "fault_type \<Rightarrow> string option"
  fault_of_json :: "string \<Rightarrow> fault_type option"
  actions_to_json :: "recovery_action list \<Rightarrow> string option"
  actions_of_json :: "string \<Rightarrow> recovery_action list option"
  nodes_to_json :: "string list \<Rightarrow> string option"
  nodes_of_json :: "string \<Rightarrow> string list option"
  state_of_json :: "string \<Rightarrow> recovery_state option"
  level_of_json :: "string \<Rightarrow> isolation_level option"
  status_of_json :: "string \<Rightarrow> node_status option"
  snapshot_to_json :: "ft_snapshot \<Rightarrow> string option"
  snapshot_of_json :: "string \<Rightarrow> ft_snapshot option"

text \<open>Derived \<open>Debug\<close> text.\<close>

fun debug_fault :: "fault_type \<Rightarrow> string" where
  "debug_fault Crash = ''Crash''"
| "debug_fault Hang = ''Hang''"
| "debug_fault Oom = ''Oom''"
| "debug_fault NetworkSplit = ''NetworkSplit''"
| "debug_fault NetworkTimeout = ''NetworkTimeout''"
| "debug_fault NetworkPartition = ''NetworkPartition''"
| "debug_fault FileIOError = ''FileIOError''"
| "debug_fault ProcessCrash = ''ProcessCrash''"
| "debug_fault DataCorruption = ''DataCorruption''"
| "debug_fault ResourceExhaustion = ''ResourceExhaustion''"
| "debug_fault RateLimit = ''RateLimit''"
| "debug_fault AuthFailure = ''AuthFailure''"
| "debug_fault (LatencySpike d) = ''LatencySpike { delay_ms: '' @ show_word d @ '' }''"
| "debug_fault PartialWrite = ''PartialWrite''"

fun debug_state :: "recovery_state \<Rightarrow> string" where
  "debug_state Pending = ''Pending''"
| "debug_state InProgress = ''InProgress''"
| "debug_state Completed = ''Completed''"
| "debug_state Failed = ''Failed''"

fun debug_level :: "isolation_level \<Rightarrow> string" where
  "debug_level Monitor = ''Monitor''"
| "debug_level Quarantine = ''Quarantine''"
| "debug_level Shutdown = ''Shutdown''"

fun debug_status :: "node_status \<Rightarrow> string" where
  "debug_status Online = ''Online''"
| "debug_status Degraded = ''Degraded''"
| "debug_status Offline = ''Offline''"
| "debug_status Recovering = ''Recovering''"

definition parse_enum_from_debug :: "(string \<Rightarrow> 'a option) \<Rightarrow> string \<Rightarrow> 'a option" where
  "parse_enum_from_debug of_json s = of_json ([CHR 0x22] @ s @ [CHR 0x22])"

section \<open>Saving to the database\<close>

definition fault_to_row :: "ft_json \<Rightarrow> fault_event \<Rightarrow> fault_row" where
  "fault_to_row js f =
     \<lparr>fr_id = f_id f, fr_node = f_node f,
      fr_type = (case fault_to_json js (f_type f) of Some t \<Rightarrow> t | None \<Rightarrow> debug_fault (f_type f)),
      fr_severity = uint (severity f), fr_description = f_description f, fr_detected = u64_as_i64 (detected_ms f),
      fr_resolved = map_option u64_as_i64 (resolved_ms f), fr_recovered = (if recovered f then 1 else 0)\<rparr>"

definition plan_to_row :: "ft_json \<Rightarrow> recovery_plan \<Rightarrow> plan_row option" where
  "plan_to_row js p = map_option (\<lambda>t.
     \<lparr>pr_id = plan_id p, pr_node = plan_node p, pr_actions = t, pr_state = debug_state (plan_state p),
      pr_created = u64_as_i64 (plan_created_ms p), pr_completed = map_option u64_as_i64 (plan_completed_ms p),
      pr_result = plan_result p\<rparr>) (actions_to_json js (plan_actions p))"

definition group_to_row :: "ft_json \<Rightarrow> isolation_group \<Rightarrow> group_row option" where
  "group_to_row js g = map_option (\<lambda>t.
     \<lparr>gr_id = group_id g, gr_nodes = t, gr_level = debug_level (g_level g), gr_created = u64_as_i64 (g_created_ms g)\<rparr>)
     (nodes_to_json js (nodes g))"

definition beat_to_row :: "heartbeat_record \<Rightarrow> beat_row" where
  "beat_to_row r =
     \<lparr>br_node = h_node r, br_last = u64_as_i64 (last_heartbeat_ms r), br_missed = uint (missed_beats r),
      br_status = debug_status (h_status r)\<rparr>"

text \<open>\<open>INSERT\<close> with a primary key; a failed or conflicting statement is logged and leaves the table.\<close>

definition insert_row :: "(ft_stmt \<Rightarrow> bool) \<Rightarrow> ft_table \<Rightarrow> ('r \<Rightarrow> string) \<Rightarrow> 'r \<Rightarrow> 'r list \<Rightarrow> 'r list" where
  "insert_row io t key r rows =
     (if io (InsertRow t (key r)) \<or> key r \<in> set (map key rows) then rows else rows @ [r])"

definition replace_row :: "(ft_stmt \<Rightarrow> bool) \<Rightarrow> ft_table \<Rightarrow> ('r \<Rightarrow> string) \<Rightarrow> 'r \<Rightarrow> 'r list \<Rightarrow> 'r list" where
  "replace_row io t key r rows =
     (if io (InsertRow t (key r)) then rows else filter (\<lambda>x. key x \<noteq> key r) rows @ [r])"

definition clear_table :: "(ft_stmt \<Rightarrow> bool) \<Rightarrow> ft_table \<Rightarrow> 'r list \<Rightarrow> 'r list" where
  "clear_table io t rows = (if io (Clear t) then rows else [])"

definition insert_some :: "(ft_stmt \<Rightarrow> bool) \<Rightarrow> ft_table \<Rightarrow> ('r \<Rightarrow> string) \<Rightarrow> 'r option \<Rightarrow> 'r list \<Rightarrow> 'r list" where
  "insert_some io t key r rows = (case r of None \<Rightarrow> rows | Some r \<Rightarrow> insert_row io t key r rows)"

definition persist_sqlite :: "ft_json \<Rightarrow> string iter_order \<Rightarrow> (ft_stmt \<Rightarrow> bool) \<Rightarrow> ft_snapshot \<Rightarrow> ft_db \<Rightarrow> ft_db" where
  "persist_sqlite js ord io sn db =
     (if io OpenDb \<or> io CreateTables \<or> io BeginTx \<or> io Commit then db
      else
        \<lparr>t_faults = fold (\<lambda>f. insert_row io Faults fr_id (fault_to_row js f)) (hm_values ord (sn_faults sn))
           (clear_table io Faults (t_faults db)),
         t_plans = fold (\<lambda>p. insert_some io RecoveryPlans pr_id (plan_to_row js p)) (hm_values ord (sn_plans sn))
           (clear_table io RecoveryPlans (t_plans db)),
         t_groups = fold (\<lambda>g. insert_some io IsolationGroups gr_id (group_to_row js g)) (hm_values ord (sn_groups sn))
           (clear_table io IsolationGroups (t_groups db)),
         t_beats = fold (\<lambda>r. replace_row io HeartbeatRecords br_node (beat_to_row r)) (hm_values ord (sn_beats sn))
           (clear_table io HeartbeatRecords (t_beats db))\<rparr>)"

section \<open>Loading\<close>

definition row_to_fault :: "ft_json \<Rightarrow> fault_row \<Rightarrow> fault_event" where
  "row_to_fault js r =
     \<lparr>f_id = fr_id r, f_node = fr_node r,
      f_type = (case fault_of_json js (fr_type r) of
        Some t \<Rightarrow> t
      | None \<Rightarrow> (case parse_enum_from_debug (fault_of_json js) (fr_type r) of Some t \<Rightarrow> t | None \<Rightarrow> Crash)),
      severity = of_int (fr_severity r), f_description = fr_description r, detected_ms = i64_as_u64 (fr_detected r),
      resolved_ms = map_option i64_as_u64 (fr_resolved r), recovered = (fr_recovered r \<noteq> 0)\<rparr>"

definition resumed :: "recovery_state \<Rightarrow> recovery_state" where
  "resumed st = (if st = InProgress then Pending else st)"

definition row_to_plan :: "ft_json \<Rightarrow> plan_row \<Rightarrow> recovery_plan" where
  "row_to_plan js r =
     \<lparr>plan_id = pr_id r, plan_node = pr_node r, plan_actions = case_option [] id (actions_of_json js (pr_actions r)),
      plan_state = resumed (case_option Pending id (parse_enum_from_debug (state_of_json js) (pr_state r))),
      plan_created_ms = i64_as_u64 (pr_created r), plan_completed_ms = map_option i64_as_u64 (pr_completed r),
      plan_result = pr_result r\<rparr>"

definition row_to_group :: "ft_json \<Rightarrow> group_row \<Rightarrow> isolation_group" where
  "row_to_group js r =
     \<lparr>group_id = gr_id r, nodes = case_option [] id (nodes_of_json js (gr_nodes r)),
      g_level = case_option Monitor id (parse_enum_from_debug (level_of_json js) (gr_level r)),
      g_created_ms = i64_as_u64 (gr_created r)\<rparr>"

definition row_to_beat :: "ft_json \<Rightarrow> beat_row \<Rightarrow> heartbeat_record" where
  "row_to_beat js r =
     \<lparr>h_node = br_node r, last_heartbeat_ms = i64_as_u64 (br_last r), missed_beats = of_int (br_missed r),
      h_status = case_option Online id (parse_enum_from_debug (status_of_json js) (br_status r)), has_reported = False\<rparr>"

definition load_table :: "bool \<Rightarrow> ('v \<Rightarrow> string) \<Rightarrow> ('r \<Rightarrow> 'v) \<Rightarrow> 'r list \<Rightarrow> (string, 'v) hmap" where
  "load_table failed key conv rows = (if failed then [] else fold (\<lambda>r. hm_insert (key (conv r)) (conv r)) rows [])"

definition load_sqlite :: "ft_json \<Rightarrow> bool \<Rightarrow> (ft_table \<Rightarrow> bool) \<Rightarrow> ft_db \<Rightarrow> ft_snapshot option" where
  "load_sqlite js open_fails rd db =
     (if open_fails then None
      else
        (let fs = load_table (rd Faults) f_id (row_to_fault js) (t_faults db);
             ps = load_table (rd RecoveryPlans) plan_id (row_to_plan js) (t_plans db);
             gs = load_table (rd IsolationGroups) group_id (row_to_group js) (t_groups db);
             hs = load_table (rd HeartbeatRecords) h_node (row_to_beat js) (t_beats db)
         in if fs = [] \<and> ps = [] \<and> gs = [] \<and> hs = [] then None
            else Some \<lparr>sn_faults = fs, sn_plans = ps, sn_groups = gs, sn_beats = hs\<rparr>))"

section \<open>The engine and its storage\<close>

definition strip_prefix :: "string \<Rightarrow> string \<Rightarrow> string option" where
  "strip_prefix p s = (if take (length p) s = p then Some (drop (length p) s) else None)"

definition max_id_suffix :: "string list \<Rightarrow> string \<Rightarrow> u64" where
  "max_id_suffix ks p =
     foldr max (List.map_filter (\<lambda>k. Option.bind (strip_prefix p k) parse_u64) ks) 0 + 1"

definition apply_snapshot :: "ft_snapshot \<Rightarrow> ft_engine \<Rightarrow> ft_engine" where
  "apply_snapshot sn s =
     s\<lparr>faults := sn_faults sn, recovery_plans := sn_plans sn, isolation_groups := sn_groups sn, heartbeats := sn_beats sn,
       fault_counter := max_id_suffix (map fst (sn_faults sn)) ''fault-'',
       group_counter := max_id_suffix (map fst (sn_groups sn)) ''group-'',
       plan_counter := max_id_suffix (map fst (sn_plans sn)) ''plan-''\<rparr>"

text \<open>The database file is missing until the first save.\<close>

definition restore_sqlite :: "ft_json \<Rightarrow> bool \<Rightarrow> (ft_table \<Rightarrow> bool) \<Rightarrow> ft_db option \<Rightarrow> ft_engine \<Rightarrow> ft_engine" where
  "restore_sqlite js open_fails rd db s =
     (case db of
        None \<Rightarrow> s
      | Some db \<Rightarrow> (case load_sqlite js open_fails rd db of None \<Rightarrow> s | Some sn \<Rightarrow> apply_snapshot sn s))"

definition resume_plan :: "recovery_plan \<Rightarrow> recovery_plan" where
  "resume_plan p = p\<lparr>plan_state := resumed (plan_state p)\<rparr>"

definition load_json :: "ft_json \<Rightarrow> string option \<Rightarrow> ft_snapshot option" where
  "load_json js content = Option.bind content (snapshot_of_json js)"

definition restore_json :: "ft_json \<Rightarrow> bool \<Rightarrow> string option \<Rightarrow> ft_engine \<Rightarrow> ft_engine" where
  "restore_json js read_fails file s =
     (case file of
        None \<Rightarrow> s
      | Some content \<Rightarrow>
          (case load_json js (if read_fails then None else Some content) of
             None \<Rightarrow> s
           | Some sn \<Rightarrow> apply_snapshot (sn\<lparr>sn_plans := hm_map resume_plan (sn_plans sn)\<rparr>) s))"

definition new_with_restore :: "(ft_engine \<Rightarrow> ft_engine) \<Rightarrow> ft_config \<Rightarrow> ft_engine" where
  "new_with_restore restore cfg = restore (ft_new cfg)"

definition is_empty_state :: "ft_engine \<Rightarrow> bool" where
  "is_empty_state s \<longleftrightarrow> faults s = [] \<and> recovery_plans s = [] \<and> isolation_groups s = [] \<and> heartbeats s = []"

definition snapshot_of :: "ft_engine \<Rightarrow> ft_snapshot" where
  "snapshot_of s = \<lparr>sn_faults = faults s, sn_plans = recovery_plans s, sn_groups = isolation_groups s, sn_beats = heartbeats s\<rparr>"

definition empty_db :: ft_db where
  "empty_db = \<lparr>t_faults = [], t_plans = [], t_groups = [], t_beats = []\<rparr>"

definition persist_db :: "ft_json \<Rightarrow> string iter_order \<Rightarrow> (ft_stmt \<Rightarrow> bool) \<Rightarrow> ft_engine \<Rightarrow> ft_db option \<Rightarrow> ft_db option" where
  "persist_db js ord io s db =
     (if is_empty_state s then db
      else if io OpenDb then db
      else Some (persist_sqlite js ord io (snapshot_of s) (case_option empty_db id db)))"

text \<open>A write that fails leaves whatever content the file system left.\<close>

datatype write_result = Written | WriteFailed "string option"

definition persist_json :: "ft_json \<Rightarrow> write_result \<Rightarrow> ft_snapshot \<Rightarrow> string option \<Rightarrow> string option" where
  "persist_json js wr sn file =
     (case snapshot_to_json js sn of
        None \<Rightarrow> file
      | Some t \<Rightarrow> (case wr of Written \<Rightarrow> Some t | WriteFailed left \<Rightarrow> left))"

definition persist_file :: "ft_json \<Rightarrow> write_result \<Rightarrow> ft_engine \<Rightarrow> string option \<Rightarrow> string option" where
  "persist_file js wr s file = (if is_empty_state s then file else persist_json js wr (snapshot_of s) file)"

section \<open>Numbers and identifiers\<close>

interpretation severity_codec: codec "uint :: 8 word \<Rightarrow> int" "\<lambda>i. Some (of_int i)"
  by unfold_locales simp

interpretation missed_codec: codec "uint :: u32 \<Rightarrow> int" "\<lambda>i. Some (of_int i)"
  by unfold_locales simp

lemma show_nat_no_plus: "show_nat n = c # cs \<Longrightarrow> c \<noteq> CHR ''+''"
  using show_nat_digits[of n] by (auto simp: is_ascii_digit_def)

interpretation number_codec: codec "\<lambda>w :: u64. show_word w" parse_u64
proof unfold_locales
  fix w :: u64
  have "unat w < 2 ^ 64" using unsigned_less[of w] by simp
  moreover obtain c cs where "show_word w = c # cs" using show_nat_digits[of "unat w"] by (cases "show_word w") auto
  moreover have "c \<noteq> CHR ''+''" using show_nat_no_plus[OF calculation(2)] .
  ultimately show "parse_u64 (show_word w) = Some w"
    using digits_value_show[of "unat w"] by (simp add: parse_u64_def)
qed

interpretation prefix_codec: codec "\<lambda>t. p @ t" "strip_prefix p" for p
  by unfold_locales (simp add: strip_prefix_def)

section \<open>One table, written and read\<close>

lemma insert_rows:
  "distinct (map key (rows @ map f vs)) \<Longrightarrow> fold (\<lambda>v. insert_row (\<lambda>_. False) t key (f v)) vs rows = rows @ map f vs"
  by (induction vs arbitrary: rows) (auto simp: insert_row_def)

lemma replace_rows:
  "distinct (map key (rows @ map f vs)) \<Longrightarrow> fold (\<lambda>v. replace_row (\<lambda>_. False) t key (f v)) vs rows = rows @ map f vs"
proof (induction vs arbitrary: rows)
  case (Cons v vs)
  have "filter (\<lambda>x. key x \<noteq> key (f v)) rows = rows" using Cons.prems by (auto simp: filter_id_conv) (metis image_eqI)
  then show ?case using Cons by (simp add: replace_row_def)
qed simp

lemma insert_some_rows:
  assumes "\<And>v. v \<in> set vs \<Longrightarrow> g v = Some (f v)"
  shows "fold (\<lambda>v. insert_some io t key (g v)) vs rows = fold (\<lambda>v. insert_row io t key (f v)) vs rows"
  using assms by (intro fold_cong) (auto simp: insert_some_def)

definition keyed :: "('v \<Rightarrow> string) \<Rightarrow> (string, 'v) hmap \<Rightarrow> bool" where
  "keyed key m \<longleftrightarrow> hm_wf m \<and> (\<forall>k v. hm_get m k = Some v \<longrightarrow> key v = k)"

lemma keys_of_values:
  assumes "keyed key m" and "valid_order ord"
  shows "map key (hm_values ord m) = ord (map fst m)"
proof -
  have "key (the (hm_get m k)) = k" if "k \<in> set (ord (map fst m))" for k
    using that assms by (auto simp: keyed_def dom_map_of_conv_image_fst[symmetric] dest: domD)
  then show ?thesis by (simp add: hm_values_def map_idI)
qed

lemma load_fold:
  assumes "distinct (map key vs)"
  shows "hm_get (fold (\<lambda>v. hm_insert (key v) v) vs m) k =
    (case find (\<lambda>v. key v = k) vs of Some v \<Rightarrow> Some v | None \<Rightarrow> hm_get m k)"
  using assms
proof (induction vs arbitrary: m)
  case (Cons v vs)
  have "find (\<lambda>x. key x = key v) vs = None" using Cons.prems by (auto simp: find_None_iff image_iff)
  then show ?case using Cons by (auto split: option.splits)
qed simp

lemma find_value:
  assumes "keyed key m" and "valid_order ord"
  shows "find (\<lambda>v. key v = k) (hm_values ord m) = hm_get m k"
proof (cases "hm_get m k")
  case None
  then have "\<forall>v \<in> set (hm_values ord m). key v \<noteq> k" using assms by (auto simp: keyed_def ran_def)
  then show ?thesis using None by (simp add: find_None_iff)
next
  case (Some v)
  have "\<exists>u \<in> set (hm_values ord m). key u = k" using assms Some by (auto simp: keyed_def ran_def)
  then obtain u where u: "find (\<lambda>v. key v = k) (hm_values ord m) = Some u"
    using find_None_iff[of "\<lambda>v. key v = k"] by (cases "find (\<lambda>v. key v = k) (hm_values ord m)") auto
  then have "u \<in> set (hm_values ord m)" "key u = k" by (auto simp: find_Some_iff)
  then obtain j where "hm_get m j = Some u" using assms(2) by (auto simp: ran_def)
  moreover have "j = k" using assms(1) calculation \<open>key u = k\<close> unfolding keyed_def by metis
  ultimately show ?thesis using u by simp
qed

lemma find_map: "(\<And>v. key (h v) = key v) \<Longrightarrow> find (\<lambda>v. key v = k) (map h vs) = map_option h (find (\<lambda>v. key v = k) vs)"
  by (induction vs) auto

lemma load_table_roundtrip:
  assumes "keyed key m" and "valid_order ord" and "\<And>v. key (h v) = key v"
    and "\<And>v. v \<in> set (hm_values ord m) \<Longrightarrow> conv (row v) = h v"
  shows "hm_get (load_table False key conv (map row (hm_values ord m))) k = map_option h (hm_get m k)"
proof -
  let ?vs = "hm_values ord m"
  have "fold (\<lambda>r. hm_insert (key (conv r)) (conv r)) (map row ?vs) [] = fold (\<lambda>v. hm_insert (key v) v) (map h ?vs) []"
    unfolding fold_map comp_def using assms(4) by (intro fold_cong) auto
  moreover have "distinct (map key (map h ?vs))"
    using assms(1,2,3) keys_of_values[OF assms(1,2)] by (simp add: comp_def keyed_def hm_wf_def)
  ultimately show ?thesis
    using load_fold[of key "map h ?vs" "[]" k] assms(3) find_value[OF assms(1,2), of k]
    by (simp add: load_table_def find_map split: option.splits)
qed

section \<open>The round trip through the database\<close>

definition json_laws :: "ft_json \<Rightarrow> bool" where
  "json_laws js \<longleftrightarrow>
     (\<forall>t. \<exists>x. fault_to_json js t = Some x \<and> fault_of_json js x = Some t) \<and>
     (\<forall>as. \<exists>x. actions_to_json js as = Some x \<and> actions_of_json js x = Some as) \<and>
     (\<forall>ns. \<exists>x. nodes_to_json js ns = Some x \<and> nodes_of_json js x = Some ns) \<and>
     (\<forall>st. state_of_json js ([CHR 0x22] @ debug_state st @ [CHR 0x22]) = Some st) \<and>
     (\<forall>l. level_of_json js ([CHR 0x22] @ debug_level l @ [CHR 0x22]) = Some l) \<and>
     (\<forall>st. status_of_json js ([CHR 0x22] @ debug_status st @ [CHR 0x22]) = Some st)"

definition restored_plan :: "recovery_plan \<Rightarrow> recovery_plan" where
  "restored_plan p = p\<lparr>plan_state := resumed (plan_state p)\<rparr>"

definition restored_beat :: "heartbeat_record \<Rightarrow> heartbeat_record" where
  "restored_beat r = r\<lparr>has_reported := False\<rparr>"

lemma i64_u64 [simp]: "i64_as_u64 (u64_as_i64 w) = w"
  using u64_codec.dec_enc[of w] by simp

lemma map_option_i64_u64 [simp]: "map_option i64_as_u64 (map_option u64_as_i64 x) = x"
  by (cases x) simp_all

lemma fault_row_roundtrip: "json_laws js \<Longrightarrow> row_to_fault js (fault_to_row js f) = f"
proof -
  assume "json_laws js"
  then obtain x where "fault_to_json js (f_type f) = Some x" "fault_of_json js x = Some (f_type f)"
    unfolding json_laws_def by blast
  then show ?thesis by (simp add: row_to_fault_def fault_to_row_def)
qed

lemma plan_row_roundtrip: "json_laws js \<Longrightarrow> \<exists>r. plan_to_row js p = Some r \<and> pr_id r = plan_id p \<and> row_to_plan js r = restored_plan p"
proof -
  assume l: "json_laws js"
  then obtain x where "actions_to_json js (plan_actions p) = Some x" "actions_of_json js x = Some (plan_actions p)"
    unfolding json_laws_def by blast
  then show ?thesis
    using l by (simp add: json_laws_def plan_to_row_def row_to_plan_def parse_enum_from_debug_def restored_plan_def)
qed

lemma group_row_roundtrip: "json_laws js \<Longrightarrow> \<exists>r. group_to_row js g = Some r \<and> gr_id r = group_id g \<and> row_to_group js r = g"
proof -
  assume l: "json_laws js"
  then obtain x where "nodes_to_json js (nodes g) = Some x" "nodes_of_json js x = Some (nodes g)"
    unfolding json_laws_def by blast
  then show ?thesis
    using l by (simp add: json_laws_def group_to_row_def row_to_group_def parse_enum_from_debug_def)
qed

lemma beat_row_roundtrip: "json_laws js \<Longrightarrow> row_to_beat js (beat_to_row r) = restored_beat r"
  by (simp add: json_laws_def beat_to_row_def row_to_beat_def parse_enum_from_debug_def restored_beat_def)

lemma ft_ok_keyed:
  "ft_ok s \<Longrightarrow> keyed f_id (faults s) \<and> keyed plan_id (recovery_plans s) \<and> keyed group_id (isolation_groups s) \<and> keyed h_node (heartbeats s)"
  by (simp add: ft_ok_def keyed_def faults_ok_def plans_ok_def groups_ok_def beats_ok_def)

lemma distinct_ids: "keyed key m \<Longrightarrow> valid_order ord \<Longrightarrow> distinct (map key (hm_values ord m))"
  using keys_of_values[of key m ord] by (simp add: keyed_def hm_wf_def)

lemma persist_tables:
  assumes "ft_ok s" and "valid_order ord"
    and prow: "\<forall>p. plan_to_row js p = Some (prow p) \<and> pr_id (prow p) = plan_id p"
    and grow: "\<forall>g. group_to_row js g = Some (grow g) \<and> gr_id (grow g) = group_id g"
  shows "persist_sqlite js ord (\<lambda>_. False) (snapshot_of s) db =
    \<lparr>t_faults = map (fault_to_row js) (hm_values ord (faults s)), t_plans = map prow (hm_values ord (recovery_plans s)),
     t_groups = map grow (hm_values ord (isolation_groups s)), t_beats = map beat_to_row (hm_values ord (heartbeats s))\<rparr>"
proof -
  note d = distinct_ids[OF _ assms(2)] and k = ft_ok_keyed[OF assms(1)]
  have "distinct (map fr_id (map (fault_to_row js) (hm_values ord (faults s))))"
    "distinct (map br_node (map beat_to_row (hm_values ord (heartbeats s))))"
    "distinct (map pr_id (map prow (hm_values ord (recovery_plans s))))"
    "distinct (map gr_id (map grow (hm_values ord (isolation_groups s))))"
    using d[of f_id "faults s"] d[of plan_id "recovery_plans s"] d[of group_id "isolation_groups s"] d[of h_node "heartbeats s"]
      k prow grow by (simp_all add: comp_def beat_to_row_def fault_to_row_def)
  then show ?thesis
    using insert_some_rows[of _ "plan_to_row js" prow] insert_some_rows[of _ "group_to_row js" grow] prow grow
    by (simp add: persist_sqlite_def snapshot_of_def clear_table_def insert_rows replace_rows)
qed

lemma save_load_db:
  assumes "json_laws js" and "ft_ok s" and "valid_order ord" and "\<not> is_empty_state s"
  obtains sn where "load_sqlite js False (\<lambda>_. False) (persist_sqlite js ord (\<lambda>_. False) (snapshot_of s) db) = Some sn"
    "hm_get (sn_faults sn) = hm_get (faults s)" "\<And>k. hm_get (sn_plans sn) k = map_option restored_plan (hm_get (recovery_plans s) k)"
    "hm_get (sn_groups sn) = hm_get (isolation_groups s)"
    "\<And>k. hm_get (sn_beats sn) k = map_option restored_beat (hm_get (heartbeats s) k)"
proof -
  obtain prow where prow: "\<forall>p. plan_to_row js p = Some (prow p) \<and> pr_id (prow p) = plan_id p \<and> row_to_plan js (prow p) = restored_plan p"
    using plan_row_roundtrip[OF assms(1)] by metis
  obtain grow where grow: "\<forall>g. group_to_row js g = Some (grow g) \<and> gr_id (grow g) = group_id g \<and> row_to_group js (grow g) = g"
    using group_row_roundtrip[OF assms(1)] by metis
  note k = ft_ok_keyed[OF assms(2)]
  let ?fs = "load_table False f_id (row_to_fault js) (map (fault_to_row js) (hm_values ord (faults s)))"
  let ?ps = "load_table False plan_id (row_to_plan js) (map prow (hm_values ord (recovery_plans s)))"
  let ?gs = "load_table False group_id (row_to_group js) (map grow (hm_values ord (isolation_groups s)))"
  let ?hs = "load_table False h_node (row_to_beat js) (map beat_to_row (hm_values ord (heartbeats s)))"
  have fs: "hm_get ?fs j = map_option (\<lambda>f. f) (hm_get (faults s) j)" for j
    by (rule load_table_roundtrip) (use k assms in \<open>auto simp: fault_row_roundtrip\<close>)
  have ps: "hm_get ?ps j = map_option restored_plan (hm_get (recovery_plans s) j)" for j
    by (rule load_table_roundtrip) (use k assms prow in \<open>auto simp: restored_plan_def\<close>)
  have gs: "hm_get ?gs j = map_option (\<lambda>g. g) (hm_get (isolation_groups s) j)" for j
    by (rule load_table_roundtrip) (use k assms grow in auto)
  have hs: "hm_get ?hs j = map_option restored_beat (hm_get (heartbeats s) j)" for j
    by (rule load_table_roundtrip) (use k assms in \<open>auto simp: beat_row_roundtrip restored_beat_def\<close>)
  have ne: "m = [] \<longleftrightarrow> m' = []" if "\<And>j. hm_get m' j = map_option h (hm_get m j)" for m :: "(string, 'v) hmap" and m' :: "(string, 'v) hmap" and h
  proof -
    have "m = [] \<longleftrightarrow> (\<forall>j. hm_get m j = None)" "m' = [] \<longleftrightarrow> (\<forall>j. hm_get m' j = None)"
      by (auto simp flip: fun_eq_iff)
    then show ?thesis using that by simp
  qed
  have "\<not> (?fs = [] \<and> ?ps = [] \<and> ?gs = [] \<and> ?hs = [])"
    using assms(4) ne[OF fs] ne[OF ps] ne[OF gs] ne[OF hs] by (auto simp: is_empty_state_def)
  then have "load_sqlite js False (\<lambda>_. False) (persist_sqlite js ord (\<lambda>_. False) (snapshot_of s) db) =
      Some \<lparr>sn_faults = ?fs, sn_plans = ?ps, sn_groups = ?gs, sn_beats = ?hs\<rparr>"
    using persist_tables[OF assms(2,3), of js prow grow db] prow grow by (simp add: load_sqlite_def Let_def)
  then show thesis
    by (rule that) (simp_all add: fs ps gs hs fun_eq_iff option.map_ident)
qed

section \<open>Identifiers after a restart\<close>

lemma foldr_max_ge: "x \<in> set xs \<Longrightarrow> x \<le> foldr max xs (a :: 'a::linorder)"
  by (induction xs) (auto simp: le_max_iff_disj)

lemma foldr_max_in: "foldr max xs (a :: 'a::linorder) \<in> insert a (set xs)"
  by (induction xs) (auto simp: max_def)

lemma suffix_parse: "Option.bind (strip_prefix p (p @ show_word (w :: u64))) parse_u64 = Some w"
  using prefix_codec.dec_enc[of p "show_word w"] number_codec.dec_enc[of w] by simp

lemma max_id_suffix_covers:
  assumes "\<forall>k \<in> set ks. \<exists>n \<le> b. k = p @ show_nat n" and "b + 1 < 2 ^ 64"
  shows "(\<forall>k \<in> set ks. \<exists>n \<le> unat (max_id_suffix ks p). k = p @ show_nat n) \<and> unat (max_id_suffix ks p) \<le> b + 1"
proof -
  let ?ws = "List.map_filter (\<lambda>k. Option.bind (strip_prefix p k) parse_u64) ks"
  let ?m = "foldr max ?ws (0 :: u64)"
  have id: "\<exists>w. k = p @ show_word w \<and> unat w \<le> b \<and> Option.bind (strip_prefix p k) parse_u64 = Some w" if "k \<in> set ks" for k
  proof -
    obtain n where n: "n \<le> b" "k = p @ show_nat n" using assms(1) \<open>k \<in> set ks\<close> by blast
    then have "unat (of_nat n :: u64) = n" using assms(2) by (simp add: unat_of_nat)
    then show ?thesis using n suffix_parse[of p "of_nat n"] by (intro exI[of _ "of_nat n"]) simp
  qed
  have ws: "w \<in> set ?ws \<longleftrightarrow> (\<exists>k \<in> set ks. Option.bind (strip_prefix p k) parse_u64 = Some w)" for w
    by (auto simp: List.map_filter_def image_iff)
  have "unat w \<le> b" if "w \<in> set ?ws" for w
  proof -
    obtain k where k: "k \<in> set ks" "Option.bind (strip_prefix p k) parse_u64 = Some w" using \<open>w \<in> set ?ws\<close> unfolding ws by blast
    then show ?thesis using id[OF k(1)] by auto
  qed
  then have m: "unat ?m \<le> b" using foldr_max_in[of ?ws 0] by auto
  then have max: "unat (max_id_suffix ks p) = Suc (unat ?m)"
    unfolding max_id_suffix_def by (intro unat_inc) (use assms(2) in simp)
  have "\<exists>n \<le> unat (max_id_suffix ks p). k = p @ show_nat n" if "k \<in> set ks" for k
  proof -
    obtain w where w: "k = p @ show_word w" "Option.bind (strip_prefix p k) parse_u64 = Some w" using id[OF \<open>k \<in> _\<close>] by blast
    then have "w \<le> ?m" using that by (intro foldr_max_ge) (auto simp: ws)
    then show ?thesis using w(1) max by (intro exI[of _ "unat w"]) (simp add: word_le_nat_alt)
  qed
  then show ?thesis using m max by simp
qed

lemma apply_snapshot_ids:
  assumes "ids_ok b s" and "b + 1 < 2 ^ 64" and "dom (hm_get (sn_faults sn)) = dom (hm_get (faults s))"
    and "dom (hm_get (sn_plans sn)) = dom (hm_get (recovery_plans s))"
  shows "ids_ok (b + 1) (apply_snapshot sn t)"
proof -
  have widen: "\<forall>k \<in> set ks. \<exists>n \<le> b. k = p @ show_nat n"
    if "\<forall>k \<in> A. \<exists>n \<le> c. k = p @ show_nat n" "set ks = A" "c \<le> b" for ks A c and p :: string
    using that by (meson order_trans)
  have "\<forall>k \<in> set (map fst (sn_faults sn)). \<exists>n \<le> b. k = ''fault-'' @ show_nat n"
    by (rule widen[of "dom (hm_get (faults s))" "unat (fault_counter s)"])
      (use assms(1,3) in \<open>simp_all add: ids_ok_def fault_ids_ok_def dom_map_of_conv_image_fst\<close>)
  moreover have "\<forall>k \<in> set (map fst (sn_plans sn)). \<exists>n \<le> b. k = ''plan-'' @ show_nat n"
    by (rule widen[of "dom (hm_get (recovery_plans s))" "unat (plan_counter s)"])
      (use assms(1,4) in \<open>simp_all add: ids_ok_def plan_ids_ok_def dom_map_of_conv_image_fst\<close>)
  ultimately show ?thesis
    using max_id_suffix_covers[of "map fst (sn_faults sn)" b "''fault-''"] max_id_suffix_covers[of "map fst (sn_plans sn)" b "''plan-''"] assms(2)
    by (simp add: ids_ok_def fault_ids_ok_def plan_ids_ok_def apply_snapshot_def dom_map_of_conv_image_fst)
qed

lemma fresh_ids:
  assumes "ids_ok b s" and "b + 1 < 2 ^ 64"
  shows "''fault-'' @ show_word (fault_counter s + 1) \<notin> dom (hm_get (faults s))"
    "''plan-'' @ show_word (plan_counter s + 1) \<notin> dom (hm_get (recovery_plans s))"
proof -
  have beyond: "p @ show_word (c + 1) \<notin> A" if ids: "\<forall>k \<in> A. \<exists>n \<le> unat c. k = p @ show_nat n" and bound: "unat c \<le> b" for p A and c :: u64
  proof
    assume "p @ show_word (c + 1) \<in> A"
    then obtain n where "n \<le> unat c" "p @ show_word (c + 1) = p @ show_nat n" using ids by blast
    moreover have "unat (c + 1) = Suc (unat c)" using bound assms(2) by (intro unat_inc) simp
    ultimately show False by (simp add: show_nat_inj)
  qed
  show "''fault-'' @ show_word (fault_counter s + 1) \<notin> dom (hm_get (faults s))"
    by (rule beyond) (use assms(1)[unfolded ids_ok_def fault_ids_ok_def] in blast)+
  show "''plan-'' @ show_word (plan_counter s + 1) \<notin> dom (hm_get (recovery_plans s))"
    by (rule beyond) (use assms(1)[unfolded ids_ok_def plan_ids_ok_def] in blast)+
qed

lemma restore_saved:
  assumes "json_laws js" and "ft_ok s" and "valid_order ord" and "\<not> is_empty_state s"
  obtains sn where "restore_sqlite js False (\<lambda>_. False) (persist_db js ord (\<lambda>_. False) s db) t = apply_snapshot sn t"
    "hm_get (sn_faults sn) = hm_get (faults s)" "\<And>k. hm_get (sn_plans sn) k = map_option restored_plan (hm_get (recovery_plans s) k)"
    "hm_get (sn_groups sn) = hm_get (isolation_groups s)"
    "\<And>k. hm_get (sn_beats sn) k = map_option restored_beat (hm_get (heartbeats s) k)"
proof -
  obtain sn where "load_sqlite js False (\<lambda>_. False) (persist_sqlite js ord (\<lambda>_. False) (snapshot_of s) (case_option empty_db id db)) = Some sn"
    and rest: "hm_get (sn_faults sn) = hm_get (faults s)" "\<And>k. hm_get (sn_plans sn) k = map_option restored_plan (hm_get (recovery_plans s) k)"
    "hm_get (sn_groups sn) = hm_get (isolation_groups s)"
    "\<And>k. hm_get (sn_beats sn) k = map_option restored_beat (hm_get (heartbeats s) k)"
    using save_load_db[OF assms] by blast
  then show thesis using assms(4) by (intro that[OF _ rest]) (simp_all add: restore_sqlite_def persist_db_def)
qed

text \<open>C21: Saving and restarting, with the database. When no statement fails, an engine that starts from the saved state has the same
  faults and isolation groups, the same plans except that those in progress are pending again, and the same heartbeat
  records except that no node counts as having reported; and the next fault and plan get identifiers that are not in use.\<close>

theorem fault_store_roundtrip:
  assumes "(ft_step ^^ i) (ft_new cfg) s" and "i \<le> 10 ^ 16" and "json_laws js" and "valid_order ord" and "\<not> is_empty_state s"
    and "s' = new_with_restore (restore_sqlite js False (\<lambda>_. False) (persist_db js ord (\<lambda>_. False) s db)) cfg'"
  shows "hm_get (faults s') = hm_get (faults s) \<and> hm_get (isolation_groups s') = hm_get (isolation_groups s) \<and>
    (\<forall>k. hm_get (recovery_plans s') k = map_option restored_plan (hm_get (recovery_plans s) k)) \<and>
    (\<forall>n. hm_get (heartbeats s') n = map_option restored_beat (hm_get (heartbeats s) n)) \<and>
    fst (insert_fault n ft sev d now s') \<notin> dom (hm_get (faults s')) \<and>
    ''plan-'' @ show_word (plan_counter s' + 1) \<notin> dom (hm_get (recovery_plans s'))"
proof -
  have ok: "ft_ok s" "ids_ok (i * 1000) s" using ft_run_ids[OF assms(1)] assms(2) by simp_all
  obtain sn where s': "s' = apply_snapshot sn (ft_new cfg')" and sn: "hm_get (sn_faults sn) = hm_get (faults s)"
    "\<And>k. hm_get (sn_plans sn) k = map_option restored_plan (hm_get (recovery_plans s) k)"
    "hm_get (sn_groups sn) = hm_get (isolation_groups s)"
    "\<And>k. hm_get (sn_beats sn) k = map_option restored_beat (hm_get (heartbeats s) k)"
    using restore_saved[OF assms(3) ok(1) assms(4,5), of db "ft_new cfg'"] assms(6) by (metis new_with_restore_def)
  have "ids_ok (i * 1000 + 1) s'"
    unfolding s' by (rule apply_snapshot_ids[OF ok(2)]) (use assms(2) sn in \<open>auto simp: dom_def\<close>)
  from fresh_ids[OF this] have "''fault-'' @ show_word (fault_counter s' + 1) \<notin> dom (hm_get (faults s'))"
    "''plan-'' @ show_word (plan_counter s' + 1) \<notin> dom (hm_get (recovery_plans s'))" using assms(2) by simp_all
  moreover have "fst (insert_fault n ft sev d now s') = ''fault-'' @ show_word (fault_counter s' + 1)"
    by (simp add: insert_fault_def Let_def)
  ultimately show ?thesis using sn by (simp add: s' apply_snapshot_def)
qed

text \<open>The file backend keeps one more field: a restored record still counts as having reported.\<close>

definition same_snapshot :: "ft_snapshot \<Rightarrow> ft_snapshot \<Rightarrow> bool" where
  "same_snapshot sn sn' \<longleftrightarrow> hm_get (sn_faults sn') = hm_get (sn_faults sn) \<and> hm_get (sn_plans sn') = hm_get (sn_plans sn) \<and>
     hm_get (sn_groups sn') = hm_get (sn_groups sn) \<and> hm_get (sn_beats sn') = hm_get (sn_beats sn)"

lemma fault_file_roundtrip:
  assumes "\<And>sn. \<exists>x sn'. snapshot_to_json js sn = Some x \<and> snapshot_of_json js x = Some sn' \<and> same_snapshot sn sn'"
    and "\<not> is_empty_state s" and "s' = new_with_restore (restore_json js False (persist_file js Written s file)) cfg'"
  shows "hm_get (faults s') = hm_get (faults s) \<and> hm_get (isolation_groups s') = hm_get (isolation_groups s) \<and>
    hm_get (heartbeats s') = hm_get (heartbeats s) \<and>
    (\<forall>k. hm_get (recovery_plans s') k = map_option restored_plan (hm_get (recovery_plans s) k))"
proof -
  obtain x sn' where x: "snapshot_to_json js (snapshot_of s) = Some x" "snapshot_of_json js x = Some sn'" "same_snapshot (snapshot_of s) sn'"
    using assms(1) by blast
  then have "s' = apply_snapshot (sn'\<lparr>sn_plans := hm_map resume_plan (sn_plans sn')\<rparr>) (ft_new cfg')"
    using assms(2,3) by (simp add: new_with_restore_def restore_json_def persist_file_def persist_json_def load_json_def)
  moreover have "resume_plan = restored_plan" by (simp add: fun_eq_iff resume_plan_def restored_plan_def)
  ultimately show ?thesis using x(3) by (simp add: apply_snapshot_def same_snapshot_def snapshot_of_def)
qed

text \<open>What was removed comes back: when the last node is unregistered the engine holds nothing, and saving it writes nothing, so
  the database keeps the state saved before and a restart brings the node back.\<close>

theorem fault_store_resurrects:
  assumes "ft_step\<^sup>*\<^sup>* (ft_new cfg) s" and "json_laws js" and "valid_order ord" and "hm_get (heartbeats s) n = Some r"
    and "dom (hm_get (heartbeats s)) = {n}" and "faults s = []" and "isolation_groups s = []" and "recovery_plans s = []"
    and "unregister_node ord n s = (q, s1)"
    and "db1 = persist_db js ord (\<lambda>_. False) s db"
    and "s2 = new_with_restore (restore_sqlite js False (\<lambda>_. False) (persist_db js ord (\<lambda>_. False) s1 db1)) cfg'"
  shows "q = Inr () \<and> heartbeats s1 = [] \<and> hm_get (heartbeats s2) n = Some (restored_beat r)"
proof -
  have ok: "ft_ok s" by (rule ft_run_ok[OF assms(1)])
  have ne: "\<not> is_empty_state s" using assms(4) by (auto simp: is_empty_state_def)
  have "hm_get (hm_remove n (heartbeats s)) = (\<lambda>_. None)"
    using assms(5) by (auto simp: fun_eq_iff domIff)
  then have "hm_remove n (heartbeats s) = []" by (simp only: map_of_eq_empty_iff)
  moreover have "ord [] = []" using valid_order_length[OF assms(3), of "[]"] by simp
  ultimately have s1: "q = Inr ()" "is_empty_state s1" "heartbeats s1 = []"
    using assms(4-9) by (auto simp: unregister_node_def is_empty_state_def hm_retain_def leave_groups_def hm_keys_def)
  then have "persist_db js ord (\<lambda>_. False) s1 db1 = persist_db js ord (\<lambda>_. False) s db"
    using assms(10) by (simp add: persist_db_def)
  moreover obtain sn where "restore_sqlite js False (\<lambda>_. False) (persist_db js ord (\<lambda>_. False) s db) (ft_new cfg') = apply_snapshot sn (ft_new cfg')"
    "hm_get (sn_beats sn) n = map_option restored_beat (hm_get (heartbeats s) n)"
    using restore_saved[OF assms(2) ok assms(3) ne, of db "ft_new cfg'"] by metis
  ultimately show ?thesis using s1 assms(4,11) by (simp add: new_with_restore_def apply_snapshot_def)
qed

text \<open>A codec for the witnesses: variants by their debug name, an action as a letter, a string as its characters, each marked,
  and a terminator.\<close>

fun read_strings :: "string \<Rightarrow> string \<Rightarrow> string list" where
  "read_strings acc [] = []"
| "read_strings acc (m # xs) =
     (if m = CHR 0x00 then acc # read_strings [] xs else case xs of [] \<Rightarrow> [] | c # cs \<Rightarrow> read_strings (acc @ [c]) cs)"

definition write_strings :: "string list \<Rightarrow> string" where
  "write_strings ns = concat (map (\<lambda>n. concat (map (\<lambda>c. [CHR 0x01, c]) n) @ [CHR 0x00]) ns)"

lemma read_one: "read_strings acc (concat (map (\<lambda>c. [CHR 0x01, c]) n) @ CHR 0x00 # rest) = (acc @ n) # read_strings [] rest"
  by (induction n arbitrary: acc) auto

lemma read_write: "read_strings [] (write_strings ns) = ns"
proof (induction ns)
  case (Cons n ns)
  have "write_strings (n # ns) = concat (map (\<lambda>c. [CHR 0x01, c]) n) @ CHR 0x00 # write_strings ns"
    by (simp add: write_strings_def)
  then show ?case using Cons read_one[of "[]" n "write_strings ns"] by simp
qed (simp add: write_strings_def)

fun action_letter :: "recovery_action \<Rightarrow> char" where
  "action_letter RestartNode = CHR ''a''"
| "action_letter FailoverToBackup = CHR ''b''"
| "action_letter ScaleUp = CHR ''c''"
| "action_letter Rebalance = CHR ''d''"
| "action_letter NotifyOperator = CHR ''e''"

definition read_action :: "char \<Rightarrow> recovery_action" where
  "read_action x = (if x = CHR ''a'' then RestartNode else if x = CHR ''b'' then FailoverToBackup else if x = CHR ''c'' then ScaleUp
     else if x = CHR ''d'' then Rebalance else NotifyOperator)"

definition plain_faults :: "fault_type list" where
  "plain_faults = [Crash, Hang, Oom, NetworkSplit, NetworkTimeout, NetworkPartition, FileIOError, ProcessCrash, DataCorruption,
     ResourceExhaustion, RateLimit, AuthFailure, PartialWrite]"

definition toy_store_json :: ft_json where
  "toy_store_json =
     \<lparr>fault_to_json = (\<lambda>t. Some (case t of LatencySpike d \<Rightarrow> show_word d | _ \<Rightarrow> debug_fault t)),
      fault_of_json = (\<lambda>x. case parse_u64 x of Some d \<Rightarrow> Some (LatencySpike d) | None \<Rightarrow> find (\<lambda>t. debug_fault t = x) plain_faults),
      actions_to_json = (\<lambda>as. Some (map action_letter as)), actions_of_json = (\<lambda>x. Some (map read_action x)),
      nodes_to_json = (\<lambda>ns. Some (write_strings ns)), nodes_of_json = (\<lambda>x. Some (read_strings [] x)),
      state_of_json = (\<lambda>x. find (\<lambda>st. [CHR 0x22] @ debug_state st @ [CHR 0x22] = x) [Pending, InProgress, Completed, Failed]),
      level_of_json = (\<lambda>x. find (\<lambda>l. [CHR 0x22] @ debug_level l @ [CHR 0x22] = x) [Monitor, Quarantine, Shutdown]),
      status_of_json = (\<lambda>x. find (\<lambda>st. [CHR 0x22] @ debug_status st @ [CHR 0x22] = x) [Online, Degraded, Offline, Recovering]),
      snapshot_to_json = (\<lambda>_. None), snapshot_of_json = (\<lambda>_. None)\<rparr>"

lemma toy_fault: "\<exists>x. fault_to_json toy_store_json t = Some x \<and> fault_of_json toy_store_json x = Some t"
proof (cases t)
  case (LatencySpike d)
  then show ?thesis using number_codec.dec_enc[of d] by (simp add: toy_store_json_def)
qed (simp_all add: toy_store_json_def plain_faults_def parse_u64_def is_ascii_digit_def)

lemma toy_json_laws: "json_laws toy_store_json"
proof -
  have "read_action (action_letter a) = a" for a by (cases a) (simp_all add: read_action_def)
  then have "map read_action (map action_letter as) = as" for as by (simp add: map_idI)
  moreover have "state_of_json toy_store_json ([CHR 0x22] @ debug_state st @ [CHR 0x22]) = Some st" for st
    by (cases st) (simp_all add: toy_store_json_def)
  moreover have "level_of_json toy_store_json ([CHR 0x22] @ debug_level l @ [CHR 0x22]) = Some l" for l
    by (cases l) (simp_all add: toy_store_json_def)
  moreover have "status_of_json toy_store_json ([CHR 0x22] @ debug_status h @ [CHR 0x22]) = Some h" for h
    by (cases h) (simp_all add: toy_store_json_def)
  ultimately show ?thesis unfolding json_laws_def
    by (intro conjI allI) (simp_all add: toy_fault, simp_all add: toy_store_json_def read_write)
qed

lemma fault_store_roundtrip_witness:
  "hm_get (recovery_plans (new_with_restore (restore_sqlite toy_store_json False (\<lambda>_. False)
     (persist_db toy_store_json rev (\<lambda>_. False) failed_run None)) ft_config_default)) ''plan-1'' = Some (restored_plan failed_plan)"
proof -
  have "\<not> is_empty_state failed_run" using failed_run_plan(2) by (auto simp: is_empty_state_def)
  from fault_store_roundtrip[OF failed_run_steps _ toy_json_laws valid_order_rev this refl] show ?thesis
    using failed_run_plan(1) by simp
qed

lemma fault_store_resurrects_witness:
  "hm_get (heartbeats (new_with_restore (restore_sqlite toy_store_json False (\<lambda>_. False)
     (persist_db toy_store_json rev (\<lambda>_. False) (snd (unregister_node rev ''n'' beating_run))
       (persist_db toy_store_json rev (\<lambda>_. False) beating_run None))) ft_config_default)) ''n'' \<noteq> None"
proof -
  have "faults beating_run = []" "recovery_plans beating_run = []" "heartbeats beating_run =
      [(''n'', \<lparr>h_node = ''n'', last_heartbeat_ms = 5, missed_beats = 0, h_status = Online, has_reported = True\<rparr>)]"
    by code_simp+
  then show ?thesis
    using fault_store_resurrects[OF beating_run_reachable toy_json_laws valid_order_rev beating_run_value(1) _ _ beating_run_value(2) _
        surjective_pairing refl refl] by (simp add: dom_def)
qed

end
