(* ===== verification/AuditChain.thy ===== *)
theory AuditChain
  imports TextOps
begin

text \<open>
  The tamper-evident audit log, \<open>src/security/audit_integrity.rs\<close>: entries chained by hash, the auditor
  that appends to the chain file, and the verification of a file. The hash function, the signature
  scheme, the JSON printer and parser and the file system are arguments; bytes are characters. A
  write can fail before the file is touched or after part of the line is written. The theorems say
  that what the auditor writes verifies, that the current hash fixes the history, and which changes
  of a file verification does not see.
\<close>

section \<open>Entries\<close>

record audit_entry =
  entry_id :: string
  prev_hash :: string
  payload_hash :: string
  payload :: json
  timestamp_ms :: u64
  signature :: "string option"
  key_id :: "string option"

datatype audit_error =
    SerializationError string
  | Io string
  | SignatureVerificationFailed string

text \<open>The libraries: SHA-256 in hexadecimal, the two ways to make an Ed25519 key and sign with it, the base64
  codec, the check of a public key and of a signature, and serialisation to JSON.\<close>

record crypto_lib =
  sha256_hex :: "string \<Rightarrow> string"
  sign_keypair :: "string \<Rightarrow> string \<Rightarrow> string option"
  sign_seed :: "string \<Rightarrow> string \<Rightarrow> string"
  b64_encode :: "string \<Rightarrow> string"
  b64_decode :: "string \<Rightarrow> string option"
  valid_public_key :: "string \<Rightarrow> bool"
  ed_verify :: "string \<Rightarrow> string \<Rightarrow> string \<Rightarrow> bool"

record json_lib =
  json_bytes :: "json \<Rightarrow> string option"
  entry_line :: "audit_entry \<Rightarrow> string option"
  parse_entry :: "string \<Rightarrow> audit_entry option"

definition payload_bytes :: "json_lib \<Rightarrow> json \<Rightarrow> string" where
  "payload_bytes js p = (case json_bytes js p of None \<Rightarrow> [] | Some b \<Rightarrow> b)"

definition entry_new :: "crypto_lib \<Rightarrow> json_lib \<Rightarrow> string \<Rightarrow> string \<Rightarrow> json \<Rightarrow> u64 \<Rightarrow> audit_entry" where
  "entry_new cr js i prev p now =
     \<lparr>entry_id = i, prev_hash = prev, payload_hash = sha256_hex cr (payload_bytes js p), payload = p,
      timestamp_ms = now, signature = None, key_id = None\<rparr>"

definition hash_input :: "audit_entry \<Rightarrow> string" where
  "hash_input e = entry_id e @ prev_hash e @ payload_hash e @ show_word (timestamp_ms e)"

definition compute_hash :: "crypto_lib \<Rightarrow> audit_entry \<Rightarrow> string" where
  "compute_hash cr e = sha256_hex cr (hash_input e)"

definition sign_entry ::
  "crypto_lib \<Rightarrow> string \<Rightarrow> string \<Rightarrow> audit_entry \<Rightarrow> audit_error + audit_entry" where
  "sign_entry cr kid key e =
     (let body = compute_hash cr e;
          sig = (if length key = 64
                 then (case sign_keypair cr key body of
                         None \<Rightarrow> Inl (SignatureVerificationFailed ''keypair'') | Some s \<Rightarrow> Inr s)
                 else if length key = 32 then Inr (sign_seed cr key body)
                 else Inl (SignatureVerificationFailed ''Ed25519 key must be 32 (seed) or 64 (keypair) bytes''))
      in case sig of
           Inl err \<Rightarrow> Inl err
         | Inr s \<Rightarrow> Inr (e\<lparr>signature := Some (b64_encode cr s), key_id := Some kid\<rparr>))"

definition verify_signature :: "crypto_lib \<Rightarrow> string \<Rightarrow> audit_entry \<Rightarrow> audit_error + unit" where
  "verify_signature cr pk e =
     (case signature e of
        None \<Rightarrow> Inl (SignatureVerificationFailed ''entry has no signature'')
      | Some sig_b64 \<Rightarrow>
          (case b64_decode cr sig_b64 of
             None \<Rightarrow> Inl (SignatureVerificationFailed ''base64'')
           | Some sig \<Rightarrow>
               if length pk \<noteq> 32 then Inl (SignatureVerificationFailed ''public key must be 32 bytes'')
               else if \<not> valid_public_key cr pk then Inl (SignatureVerificationFailed ''public key'')
               else if length sig \<noteq> 64 then Inl (SignatureVerificationFailed ''signature must be 64 bytes'')
               else if \<not> ed_verify cr pk (compute_hash cr e) sig then Inl (SignatureVerificationFailed ''signature'')
               else Inr ()))"

section \<open>The chain file\<close>

type_synonym chain_file = "string option"

record auditor =
  current_hash :: string
  last_entry_id :: "string option"
  signing_key :: "(string \<times> string) option"

definition genesis_hash :: string where
  "genesis_hash = replicate 64 (CHR ''0'')"

fun parse_lines :: "json_lib \<Rightarrow> string list \<Rightarrow> audit_error + audit_entry list" where
  "parse_lines js [] = Inr []"
| "parse_lines js (l # ls) =
     (let l = trim l in
      if l = [] then parse_lines js ls
      else (case parse_entry js l of
              None \<Rightarrow> Inl (SerializationError ''line parse'')
            | Some e \<Rightarrow> (case parse_lines js ls of Inl err \<Rightarrow> Inl err | Inr es \<Rightarrow> Inr (e # es))))"

definition load_all_entries :: "json_lib \<Rightarrow> bool \<Rightarrow> chain_file \<Rightarrow> audit_error + audit_entry list" where
  "load_all_entries js read_ok f =
     (case f of
        None \<Rightarrow> Inr []
      | Some content \<Rightarrow> if \<not> read_ok then Inl (Io ''read'') else parse_lines js (str_lines content))"

definition auditor_new :: "crypto_lib \<Rightarrow> json_lib \<Rightarrow> bool \<Rightarrow> chain_file \<Rightarrow> audit_error + auditor" where
  "auditor_new cr js read_ok f =
     (case load_all_entries js read_ok f of
        Inl err \<Rightarrow> Inl err
      | Inr es \<Rightarrow>
          Inr (if es = [] then \<lparr>current_hash = genesis_hash, last_entry_id = None, signing_key = None\<rparr>
               else \<lparr>current_hash = compute_hash cr (last es), last_entry_id = Some (entry_id (last es)),
                     signing_key = None\<rparr>))"

definition auditor_new_signed ::
  "crypto_lib \<Rightarrow> json_lib \<Rightarrow> bool \<Rightarrow> chain_file \<Rightarrow> string \<Rightarrow> string \<Rightarrow> audit_error + auditor" where
  "auditor_new_signed cr js read_ok f kid key =
     (case auditor_new cr js read_ok f of
        Inl err \<Rightarrow> Inl err | Inr a \<Rightarrow> Inr (a\<lparr>signing_key := Some (kid, key)\<rparr>))"

datatype write_outcome = WriteOk | OpenFailed | WriteTorn nat

definition file_content :: "chain_file \<Rightarrow> string" where
  "file_content f = (case f of None \<Rightarrow> [] | Some c \<Rightarrow> c)"

definition append_entry ::
  "crypto_lib \<Rightarrow> json_lib \<Rightarrow> string \<Rightarrow> u64 \<Rightarrow> write_outcome \<Rightarrow> json \<Rightarrow> auditor \<times> chain_file \<Rightarrow>
   (audit_error + audit_entry) \<times> auditor \<times> chain_file" where
  "append_entry cr js uuid now w p st =
     (let (a, f) = st;
          e = entry_new cr js uuid (current_hash a) p now;
          signed = (case signing_key a of None \<Rightarrow> Inr e | Some (kid, key) \<Rightarrow> sign_entry cr kid key e)
      in case signed of
           Inl err \<Rightarrow> (Inl err, a, f)
         | Inr e \<Rightarrow>
             (case entry_line js e of
                None \<Rightarrow> (Inl (SerializationError ''entry''), a, f)
              | Some line \<Rightarrow>
                  (case w of
                     OpenFailed \<Rightarrow> (Inl (Io ''open''), a, f)
                   | WriteTorn k \<Rightarrow> (Inl (Io ''write''), a, Some (file_content f @ take k (line @ [CHR 0x0A])))
                   | WriteOk \<Rightarrow>
                       (Inr e, a\<lparr>current_hash := compute_hash cr e, last_entry_id := Some (entry_id e)\<rparr>,
                        Some (file_content f @ line @ [CHR 0x0A])))))"

section \<open>Verification\<close>

datatype violation_reason =
    PrevHashMismatch string string
  | PayloadHashMismatch string string
  | SignatureInvalid audit_error

record integrity_violation =
  v_entry_id :: string
  v_expected_prev_hash :: string
  v_actual_prev_hash :: string
  v_reason :: violation_reason
  v_entry :: audit_entry

definition violation :: "string \<Rightarrow> audit_entry \<Rightarrow> violation_reason \<Rightarrow> integrity_violation" where
  "violation expected e r =
     \<lparr>v_entry_id = entry_id e, v_expected_prev_hash = expected, v_actual_prev_hash = prev_hash e,
      v_reason = r, v_entry = e\<rparr>"

definition check_entry ::
  "crypto_lib \<Rightarrow> json_lib \<Rightarrow> string option \<Rightarrow> string \<Rightarrow> audit_entry \<Rightarrow> integrity_violation list" where
  "check_entry cr js pk expected e =
     (if prev_hash e \<noteq> expected then [violation expected e (PrevHashMismatch expected (prev_hash e))] else []) @
     (let computed = sha256_hex cr (payload_bytes js (payload e)) in
      if computed \<noteq> payload_hash e then [violation expected e (PayloadHashMismatch computed (payload_hash e))] else []) @
     (if signature e \<noteq> None
      then (case pk of
              None \<Rightarrow> []
            | Some k \<Rightarrow> (case verify_signature cr k e of
                          Inl err \<Rightarrow> [violation expected e (SignatureInvalid err)] | Inr _ \<Rightarrow> []))
      else [])"

fun verify_entries ::
  "crypto_lib \<Rightarrow> json_lib \<Rightarrow> string option \<Rightarrow> string \<Rightarrow> audit_entry list \<Rightarrow> integrity_violation list" where
  "verify_entries cr js pk expected [] = []"
| "verify_entries cr js pk expected (e # es) =
     check_entry cr js pk expected e @ verify_entries cr js pk (compute_hash cr e) es"

definition verify_integrity ::
  "crypto_lib \<Rightarrow> json_lib \<Rightarrow> bool \<Rightarrow> string option \<Rightarrow> chain_file \<Rightarrow> audit_error + integrity_violation list" where
  "verify_integrity cr js read_ok pk f =
     (case load_all_entries js read_ok f of
        Inl err \<Rightarrow> Inl err | Inr es \<Rightarrow> Inr (verify_entries cr js pk genesis_hash es))"

record audit_report =
  from_timestamp_ms :: u64
  to_timestamp_ms :: u64
  entry_count :: nat
  entries :: "audit_entry list"
  integrity_violations :: "integrity_violation list"
  is_chain_intact :: bool

definition export_audit_report ::
  "crypto_lib \<Rightarrow> json_lib \<Rightarrow> bool \<Rightarrow> u64 \<Rightarrow> u64 \<Rightarrow> string option \<Rightarrow> chain_file \<Rightarrow> audit_error + audit_report" where
  "export_audit_report cr js read_ok from_ms to_ms pk f =
     (case load_all_entries js read_ok f of
        Inl err \<Rightarrow> Inl err
      | Inr all_es \<Rightarrow>
          (let es = filter (\<lambda>e. timestamp_ms e \<ge> from_ms \<and> timestamp_ms e \<le> to_ms) all_es in
           case verify_integrity cr js read_ok pk f of
             Inl err \<Rightarrow> Inl err
           | Inr vs \<Rightarrow>
               Inr \<lparr>from_timestamp_ms = from_ms, to_timestamp_ms = to_ms, entry_count = length es,
                    entries = es, integrity_violations = vs, is_chain_intact = (vs = [])\<rparr>))"

section \<open>Chained entries\<close>

fun chained :: "crypto_lib \<Rightarrow> json_lib \<Rightarrow> string \<Rightarrow> audit_entry list \<Rightarrow> bool" where
  "chained cr js h [] = True"
| "chained cr js h (e # es) =
     (prev_hash e = h \<and> payload_hash e = sha256_hex cr (payload_bytes js (payload e)) \<and>
      chained cr js (compute_hash cr e) es)"

definition last_hash :: "crypto_lib \<Rightarrow> string \<Rightarrow> audit_entry list \<Rightarrow> string" where
  "last_hash cr h es = (if es = [] then h else compute_hash cr (last es))"

definition sigs_ok :: "crypto_lib \<Rightarrow> string option \<Rightarrow> audit_entry list \<Rightarrow> bool" where
  "sigs_ok cr pk es \<longleftrightarrow> (case pk of None \<Rightarrow> True
     | Some k \<Rightarrow> list_all (\<lambda>e. signature e = None \<or> verify_signature cr k e = Inr ()) es)"

lemma check_entry_clean:
  "check_entry cr js pk h e = [] \<longleftrightarrow>
     prev_hash e = h \<and> payload_hash e = sha256_hex cr (payload_bytes js (payload e)) \<and> sigs_ok cr pk [e]"
  by (auto simp: check_entry_def sigs_ok_def Let_def split: option.splits sum.splits)

lemma sigs_ok_Cons: "sigs_ok cr pk (e # es) \<longleftrightarrow> sigs_ok cr pk [e] \<and> sigs_ok cr pk es"
  by (simp add: sigs_ok_def split: option.splits)

lemma sigs_ok_append [simp]: "sigs_ok cr pk (xs @ ys) \<longleftrightarrow> sigs_ok cr pk xs \<and> sigs_ok cr pk ys"
  by (auto simp: sigs_ok_def split: option.splits)

lemma verify_clean_iff: "verify_entries cr js pk h es = [] \<longleftrightarrow> chained cr js h es \<and> sigs_ok cr pk es"
proof (induction es arbitrary: h)
  case (Cons e es)
  then show ?case by (auto simp: check_entry_clean sigs_ok_Cons[of cr pk e es])
qed (simp add: sigs_ok_def split: option.splits)

lemma chained_append [simp]:
  "chained cr js h (xs @ ys) \<longleftrightarrow> chained cr js h xs \<and> chained cr js (last_hash cr h xs) ys"
  by (induction xs arbitrary: h) (auto simp: last_hash_def)

section \<open>What the file holds\<close>

text \<open>What the code relies on: a printed entry is one non-empty line without outer white space that parses
  back, and signatures made with a key verify with the public key it belongs to.\<close>

definition codec_ok :: "json_lib \<Rightarrow> bool" where
  "codec_ok js \<longleftrightarrow> (\<forall>e l. entry_line js e = Some l \<longrightarrow>
     parse_entry js l = Some e \<and> trim l = l \<and> l \<noteq> [] \<and> CHR 0x0A \<notin> set l)"

definition sign_law :: "crypto_lib \<Rightarrow> string \<Rightarrow> string \<Rightarrow> bool" where
  "sign_law cr pk key \<longleftrightarrow> length pk = 32 \<and> valid_public_key cr pk \<and>
     (\<forall>body s. length key = 64 \<and> sign_keypair cr key body = Some s \<or> length key = 32 \<and> s = sign_seed cr key body \<longrightarrow>
        b64_decode cr (b64_encode cr s) = Some s \<and> length s = 64 \<and> ed_verify cr pk body s)"

definition unlines :: "string list \<Rightarrow> string" where
  "unlines ls = concat (map (\<lambda>l. l @ [CHR 0x0A]) ls)"

definition file_holds :: "json_lib \<Rightarrow> chain_file \<Rightarrow> audit_entry list \<Rightarrow> bool" where
  "file_holds js f es \<longleftrightarrow> (\<exists>ls. file_content f = unlines ls \<and> list_all2 (\<lambda>e l. entry_line js e = Some l) es ls)"

lemma trim_last: "trim l = l \<Longrightarrow> l \<noteq> [] \<Longrightarrow> \<not> is_whitespace (last l)"
  by (metis hd_dropWhile last_rev rev_is_Nil_conv trim_def trim_end_def)

lemma strip_cr_trimmed: "trim l = l \<Longrightarrow> strip_cr l = l"
proof -
  assume t: "trim l = l"
  have "is_whitespace (CHR 0x0D)" by code_simp
  then show ?thesis using trim_last[OF t] by (auto simp: strip_cr_def)
qed

lemma split_on_unlines:
  "\<forall>l \<in> set ls. CHR 0x0A \<notin> set l \<Longrightarrow> split_on (CHR 0x0A) (unlines ls @ s) = ls @ split_on (CHR 0x0A) s"
  by (induction ls) (simp_all add: unlines_def split_on_append_sep)

lemma str_lines_unlines: "\<forall>l \<in> set ls. CHR 0x0A \<notin> set l \<Longrightarrow> str_lines (unlines ls) = map strip_cr ls"
  using split_on_unlines[of ls "[]"] by (simp add: str_lines_def Let_def butlast_append)

lemma parse_printed:
  "codec_ok js \<Longrightarrow> list_all2 (\<lambda>e l. entry_line js e = Some l) es ls \<Longrightarrow>
   parse_lines js (map strip_cr ls) = Inr es \<and> (\<forall>l \<in> set ls. CHR 0x0A \<notin> set l)"
proof (induction es arbitrary: ls)
  case (Cons e es)
  then obtain l ls' where ls: "ls = l # ls'" "entry_line js e = Some l"
    "list_all2 (\<lambda>e l. entry_line js e = Some l) es ls'" by (auto simp: list_all2_Cons1)
  have "parse_entry js l = Some e \<and> trim l = l \<and> l \<noteq> [] \<and> CHR 0x0A \<notin> set l"
    using Cons.prems(1) ls(2) by (simp add: codec_ok_def)
  with Cons.IH[OF Cons.prems(1) ls(3)] ls(1) show ?case by (simp add: strip_cr_trimmed Let_def)
qed simp

lemma load_file_holds: "codec_ok js \<Longrightarrow> file_holds js f es \<Longrightarrow> load_all_entries js True f = Inr es"
proof -
  assume c: "codec_ok js" and "file_holds js f es"
  then obtain ls where ls: "file_content f = unlines ls" "list_all2 (\<lambda>e l. entry_line js e = Some l) es ls"
    by (auto simp: file_holds_def)
  show ?thesis
  proof (cases f)
    case None
    then have "ls = []" using ls(1) by (cases ls) (auto simp: file_content_def unlines_def)
    then show ?thesis using None ls(2) by (simp add: load_all_entries_def)
  next
    case (Some s)
    then show ?thesis
      using ls parse_printed[OF c ls(2)] by (simp add: load_all_entries_def file_content_def str_lines_unlines)
  qed
qed

lemma file_holds_snoc:
  assumes "file_holds js f es" and "entry_line js e = Some l"
  shows "file_holds js (Some (file_content f @ l @ [CHR 0x0A])) (es @ [e])"
proof -
  obtain ls where "file_content f = unlines ls" "list_all2 (\<lambda>e l. entry_line js e = Some l) es ls"
    using assms(1) by (auto simp: file_holds_def)
  with assms(2) show ?thesis
    unfolding file_holds_def
    by (intro exI[of _ "ls @ [l]"]) (simp add: file_content_def unlines_def list_all2_appendI)
qed

section \<open>Runs\<close>

inductive audit_step :: "crypto_lib \<Rightarrow> json_lib \<Rightarrow> string set \<Rightarrow> auditor \<times> chain_file \<Rightarrow> auditor \<times> chain_file \<Rightarrow> bool"
  for cr js keys where
  as_append: "append_entry cr js uuid now w p st = (r, st') \<Longrightarrow> w \<in> {WriteOk, OpenFailed} \<Longrightarrow> audit_step cr js keys st st'"
| as_reopen: "auditor_new cr js True f = Inr a' \<Longrightarrow> audit_step cr js keys (a, f) (a', f)"
| as_reopen_signed: "auditor_new_signed cr js True f kid key = Inr a' \<Longrightarrow> key \<in> keys \<Longrightarrow>
    audit_step cr js keys (a, f) (a', f)"

definition audit_inv :: "crypto_lib \<Rightarrow> json_lib \<Rightarrow> string set \<Rightarrow> string \<Rightarrow> auditor \<times> chain_file \<Rightarrow> bool" where
  "audit_inv cr js keys pk st \<longleftrightarrow> (\<exists>es. file_holds js (snd st) es \<and> chained cr js genesis_hash es \<and> sigs_ok cr (Some pk) es \<and>
     current_hash (fst st) = last_hash cr genesis_hash es \<and>
     (case signing_key (fst st) of None \<Rightarrow> True | Some (kid, key) \<Rightarrow> key \<in> keys))"

lemma sign_entry_fields:
  "sign_entry cr kid key e = Inr e' \<Longrightarrow> \<exists>s. e' = e\<lparr>signature := Some (b64_encode cr s), key_id := Some kid\<rparr> \<and>
     (length key = 64 \<and> sign_keypair cr key (compute_hash cr e) = Some s \<or>
      length key = 32 \<and> s = sign_seed cr key (compute_hash cr e))"
  by (auto simp: sign_entry_def Let_def split: if_splits option.splits)

lemma compute_hash_sig [simp]: "compute_hash cr (e\<lparr>signature := s, key_id := k\<rparr>) = compute_hash cr e"
  by (simp add: compute_hash_def hash_input_def)

lemma sign_entry_verifies:
  "sign_entry cr kid key e = Inr e' \<Longrightarrow> sign_law cr pk key \<Longrightarrow> sigs_ok cr (Some pk) [e']"
  using sign_entry_fields[of cr kid key e e']
  by (auto simp: sigs_ok_def verify_signature_def sign_law_def)

lemma append_entry_inv:
  assumes inv: "audit_inv cr js keys pk (a, f)" and keys: "\<forall>key \<in> keys. sign_law cr pk key"
    and app: "append_entry cr js uuid now w p (a, f) = (r, st')" and w: "w \<in> {WriteOk, OpenFailed}"
  shows "audit_inv cr js keys pk st'"
proof -
  let ?e = "entry_new cr js uuid (current_hash a) p now"
  define signed where "signed = (case signing_key a of None \<Rightarrow> Inr ?e | Some (kid, key) \<Rightarrow> sign_entry cr kid key ?e)"
  obtain es where es: "file_holds js f es" "chained cr js genesis_hash es" "sigs_ok cr (Some pk) es"
    "current_hash a = last_hash cr genesis_hash es" "case signing_key a of None \<Rightarrow> True | Some (kid, key) \<Rightarrow> key \<in> keys"
    using inv by (auto simp: audit_inv_def)
  show ?thesis
  proof (cases "w = WriteOk \<and> (\<exists>e l. signed = Inr e \<and> entry_line js e = Some l)")
    case True
    then obtain e l where e: "signed = Inr e" "entry_line js e = Some l" "w = WriteOk" by blast
    have st': "st' = (a\<lparr>current_hash := compute_hash cr e, last_entry_id := Some (entry_id e)\<rparr>,
        Some (file_content f @ l @ [CHR 0x0A]))"
      using app e by (simp add: append_entry_def Let_def signed_def[symmetric])
    have c: "chained cr js (current_hash a) [e]"
      using e(1) by (auto simp: signed_def entry_new_def split: option.splits dest!: sign_entry_fields)
    have "sigs_ok cr (Some pk) [e]"
      using e(1) es(5) keys sign_entry_verifies[of cr _ _ ?e e pk]
      by (auto simp: signed_def entry_new_def split: option.splits) (auto simp: sigs_ok_def)
    with file_holds_snoc[OF es(1) e(2)] es c show ?thesis
      unfolding audit_inv_def st' by (intro exI[of _ "es @ [e]"]) (simp add: last_hash_def)
  next
    case False
    have "append_entry cr js uuid now w p (a, f) = (fst (append_entry cr js uuid now w p (a, f)), a, f)"
    proof (cases signed)
      case (Inl err)
      then show ?thesis by (simp add: append_entry_def Let_def signed_def[symmetric])
    next
      case (Inr e)
      then show ?thesis
        using False w by (cases "entry_line js e") (auto simp: append_entry_def Let_def signed_def[symmetric])
    qed
    with app have "st' = (a, f)" by (metis snd_conv)
    with inv show ?thesis by simp
  qed
qed

definition reopened :: "auditor \<Rightarrow> (string \<times> string) option \<Rightarrow> auditor" where
  "reopened a key = a\<lparr>signing_key := key\<rparr>"

lemma new_no_key: "auditor_new cr js ok f = Inr a' \<Longrightarrow> a'\<lparr>signing_key := None\<rparr> = a'"
  by (auto simp: auditor_new_def split: sum.splits)

lemma reopen_inv:
  assumes c: "codec_ok js" and inv: "audit_inv cr js keys pk (a, f)"
    and key: "case key of None \<Rightarrow> True | Some (kid, k) \<Rightarrow> k \<in> keys" and new: "auditor_new cr js True f = Inr a'"
  shows "audit_inv cr js keys pk (reopened a' key, f)"
proof -
  obtain es where es: "file_holds js f es" "chained cr js genesis_hash es" "sigs_ok cr (Some pk) es"
    using inv by (auto simp: audit_inv_def)
  have "current_hash a' = last_hash cr genesis_hash es"
    using new by (auto simp: auditor_new_def load_file_holds[OF c es(1)] last_hash_def)
  with es key show ?thesis unfolding audit_inv_def by (intro exI[of _ es]) (simp add: reopened_def)
qed

interpretation audit_sys: invariant_system "audit_step cr js keys"
  "\<lambda>st. codec_ok js \<longrightarrow> (\<forall>key \<in> keys. sign_law cr pk key) \<longrightarrow> audit_inv cr js keys pk st" for cr js keys pk
proof (unfold_locales, intro impI)
  fix st st'
  assume inv: "codec_ok js \<longrightarrow> (\<forall>key \<in> keys. sign_law cr pk key) \<longrightarrow> audit_inv cr js keys pk st"
    and step: "audit_step cr js keys st st'" and c: "codec_ok js" and k: "\<forall>key \<in> keys. sign_law cr pk key"
  have inv: "audit_inv cr js keys pk st" using inv c k by blast
  from step show "audit_inv cr js keys pk st'"
  proof cases
    case (as_append uuid now w p r)
    then show ?thesis using append_entry_inv[of cr js keys pk "fst st" "snd st"] inv k by simp
  next
    case (as_reopen f a' a)
    then show ?thesis using reopen_inv[OF c, of cr keys pk a f None a'] inv new_no_key[of cr js True f a'] by (simp add: reopened_def)
  next
    case (as_reopen_signed f kid key a' a)
    then show ?thesis
      using reopen_inv[OF c, of cr keys pk a f "Some (kid, key)"] inv
      by (auto simp: auditor_new_signed_def reopened_def split: sum.splits)
  qed
qed

definition fresh_auditor :: auditor where
  "fresh_auditor = \<lparr>current_hash = genesis_hash, last_entry_id = None, signing_key = None\<rparr>"

text \<open>Start without a chain file and append, fail to open the file, and reopen it with or without a signing
  key, in any order. The file always loads, verification finds no violation, with the public key of the
  signing keys or without one, and the auditor holds the hash of the last entry.\<close>

theorem audit_log_verifies:
  assumes "codec_ok js" and "\<forall>key \<in> keys. sign_law cr pk key"
    and "(audit_step cr js keys)\<^sup>*\<^sup>* (fresh_auditor, None) (a, f)"
  shows "verify_integrity cr js True (Some pk) f = Inr [] \<and> verify_integrity cr js True None f = Inr [] \<and>
    (\<exists>es. load_all_entries js True f = Inr es \<and> current_hash a = last_hash cr genesis_hash es)"
proof -
  have "audit_inv cr js keys pk (fresh_auditor, None)"
    by (simp add: audit_inv_def file_holds_def fresh_auditor_def file_content_def unlines_def last_hash_def sigs_ok_def)
  with assms audit_sys.run_inv[OF assms(3), of pk] have "audit_inv cr js keys pk (a, f)" by blast
  then obtain es where es: "file_holds js f es" "chained cr js genesis_hash es" "sigs_ok cr (Some pk) es"
    "current_hash a = last_hash cr genesis_hash es" by (auto simp: audit_inv_def)
  have "sigs_ok cr None es" by (simp add: sigs_ok_def)
  with es show ?thesis by (simp add: verify_integrity_def load_file_holds[OF assms(1)] verify_clean_iff)
qed

text \<open>A toy printer that knows one entry, and constant cryptography.\<close>

definition toy_crypto :: crypto_lib where
  "toy_crypto = \<lparr>sha256_hex = (\<lambda>s. replicate 64 (if s = [] then CHR ''a'' else CHR ''b'')), sign_keypair = (\<lambda>_ _. None),
     sign_seed = (\<lambda>_ _. []), b64_encode = id, b64_decode = Some, valid_public_key = (\<lambda>_. True), ed_verify = (\<lambda>_ _ _. True)\<rparr>"

definition toy_entry :: audit_entry where
  "toy_entry = \<lparr>entry_id = replicate 36 (CHR ''u''), prev_hash = genesis_hash, payload_hash = replicate 64 (CHR ''a''),
     payload = JNull, timestamp_ms = 5, signature = None, key_id = None\<rparr>"

definition toy_json :: json_lib where
  "toy_json = \<lparr>json_bytes = (\<lambda>_. None), entry_line = (\<lambda>e. if e = toy_entry then Some ''x'' else None),
     parse_entry = (\<lambda>l. if l = ''x'' then Some toy_entry else None)\<rparr>"

lemma toy_codec_ok: "codec_ok toy_json"
proof -
  have "trim ''x'' = ''x''" by code_simp
  then show ?thesis by (simp add: codec_ok_def toy_json_def split: if_splits)
qed

lemma toy_append:
  "append_entry toy_crypto toy_json (replicate 36 (CHR ''u'')) 5 WriteOk JNull (fresh_auditor, None) =
     (Inr toy_entry, \<lparr>current_hash = replicate 64 (CHR ''b''), last_entry_id = Some (entry_id toy_entry), signing_key = None\<rparr>,
      Some (''x'' @ [CHR 0x0A]))"
  by (simp add: append_entry_def fresh_auditor_def entry_new_def toy_json_def toy_entry_def toy_crypto_def
      payload_bytes_def compute_hash_def hash_input_def file_content_def eval_nat_numeral)

lemma audit_log_verifies_witness:
  "verify_integrity toy_crypto toy_json True None (Some (''x'' @ [CHR 0x0A])) = Inr []"
proof -
  have "(audit_step toy_crypto toy_json {})\<^sup>*\<^sup>* (fresh_auditor, None)
    (\<lparr>current_hash = replicate 64 (CHR ''b''), last_entry_id = Some (entry_id toy_entry), signing_key = None\<rparr>,
     Some (''x'' @ [CHR 0x0A]))"
    by (rule r_into_rtranclp, rule as_append[OF toy_append]) simp
  from audit_log_verifies[OF toy_codec_ok _ this, of "[]"] show ?thesis by simp
qed

section \<open>What the current hash fixes\<close>

text \<open>Everything of an entry but its signature; the payload through its printed form.\<close>

definition core :: "json_lib \<Rightarrow> audit_entry \<Rightarrow> string \<times> string \<times> string \<times> u64" where
  "core js e = (entry_id e, prev_hash e, payload_bytes js (payload e), timestamp_ms e)"

definition hashed :: "json_lib \<Rightarrow> audit_entry list \<Rightarrow> string set" where
  "hashed js es = hash_input ` set es \<union> payload_bytes js ` payload ` set es"

text \<open>The hash function has no collision among the given strings, gives 64 characters and not the genesis hash.\<close>

definition hash_good_on :: "crypto_lib \<Rightarrow> string set \<Rightarrow> bool" where
  "hash_good_on cr S \<longleftrightarrow> inj_on (sha256_hex cr) S \<and>
     (\<forall>x \<in> S. length (sha256_hex cr x) = 64 \<and> sha256_hex cr x \<noteq> genesis_hash)"

lemma last_hash_length:
  assumes "hash_good_on cr S" and "hashed js es \<subseteq> S"
  shows "length (last_hash cr genesis_hash es) = 64"
proof (cases "es = []")
  case False
  then have "hash_input (last es) \<in> S" using assms(2) by (auto simp: hashed_def)
  then show ?thesis using assms(1) False by (simp add: last_hash_def hash_good_on_def compute_hash_def)
qed (simp add: last_hash_def genesis_hash_def)

lemma hash_input_inj:
  assumes "hash_input e = hash_input e'" "length (entry_id e) = length (entry_id e')"
    "length (prev_hash e) = length (prev_hash e')" "length (payload_hash e) = length (payload_hash e')"
  shows "entry_id e = entry_id e' \<and> prev_hash e = prev_hash e' \<and> payload_hash e = payload_hash e' \<and>
    timestamp_ms e = timestamp_ms e'"
  using assms by (auto simp: hash_input_def show_nat_inj intro: unsigned_word_eqI)

lemma chain_unique:
  assumes "hash_good_on cr S" and "chained cr js genesis_hash es" "chained cr js genesis_hash es'"
    and "hashed js es \<subseteq> S" "hashed js es' \<subseteq> S"
    and "\<forall>e \<in> set es \<union> set es'. length (entry_id e) = 36"
    and "last_hash cr genesis_hash es = last_hash cr genesis_hash es'"
  shows "map (core js) es = map (core js) es'"
  using assms(2-)
proof (induction es arbitrary: es' rule: rev_induct)
  case Nil
  then show ?case
    using assms(1) by (cases es' rule: rev_cases) (auto simp: last_hash_def hash_good_on_def compute_hash_def hashed_def)
next
  case (snoc e es)
  show ?case
  proof (cases es' rule: rev_cases)
    case Nil
    then show ?thesis
      using assms(1) snoc.prems by (auto simp: last_hash_def hash_good_on_def compute_hash_def hashed_def)
  next
    case es': (snoc ds d)
    have S: "hash_input e \<in> S" "hash_input d \<in> S" "payload_bytes js (payload e) \<in> S" "payload_bytes js (payload d) \<in> S"
      "hashed js es \<subseteq> S" "hashed js ds \<subseteq> S"
      using snoc.prems(3,4) es' by (auto simp: hashed_def)
    have inj: "x \<in> S \<Longrightarrow> y \<in> S \<Longrightarrow> sha256_hex cr x = sha256_hex cr y \<Longrightarrow> x = y" for x y
      using assms(1) by (auto simp: hash_good_on_def inj_on_def)
    have c: "prev_hash e = last_hash cr genesis_hash es" "prev_hash d = last_hash cr genesis_hash ds"
      "payload_hash e = sha256_hex cr (payload_bytes js (payload e))"
      "payload_hash d = sha256_hex cr (payload_bytes js (payload d))"
      "chained cr js genesis_hash es" "chained cr js genesis_hash ds"
      using snoc.prems(1,2) unfolding es' chained_append by simp_all
    have "hash_input e = hash_input d"
      using snoc.prems(6) inj[OF S(1,2)] unfolding es' by (simp add: last_hash_def compute_hash_def)
    moreover have "length (entry_id e) = length (entry_id d)" using snoc.prems(5) es' by simp
    moreover have "length (prev_hash e) = length (prev_hash d)"
      using c(1,2) last_hash_length[OF assms(1) S(5)] last_hash_length[OF assms(1) S(6)] by simp
    moreover have "length (payload_hash e) = length (payload_hash d)"
      using assms(1) S(3,4) c(3,4) by (simp add: hash_good_on_def)
    ultimately have eq: "entry_id e = entry_id d \<and> prev_hash e = prev_hash d \<and> payload_hash e = payload_hash d \<and>
        timestamp_ms e = timestamp_ms d" by (rule hash_input_inj)
    then have "payload_bytes js (payload e) = payload_bytes js (payload d)" using c(3,4) inj S by simp
    moreover have "map (core js) es = map (core js) ds"
      using snoc.IH[OF c(5,6) S(5,6)] snoc.prems(5) es' c(1,2) eq by simp
    moreover have "core js e = core js d" using eq calculation(1) by (simp add: core_def)
    ultimately show ?thesis using es' by simp
  qed
qed

text \<open>The hash covers four fields written one after the other, without separators or lengths: text moved from the front
  of one field to the end of the field before it leaves the hash as it is.\<close>

lemma hash_input_ambiguous:
  "compute_hash cr (e\<lparr>entry_id := i, prev_hash := x @ y\<rparr>) = compute_hash cr (e\<lparr>entry_id := i @ x, prev_hash := y\<rparr>)"
  by (simp add: compute_hash_def hash_input_def)

text \<open>C16: The hash of the last entry fixes the hashed part of the history: two files that both verify and end in the same hash
  have the same number of entries, with the same identifiers, timestamps, links and printed payloads. Signatures and key
  identifiers are not hashed and may differ. Two conditions are needed that verification does not check: the hash function has
  no collision on the strings hashed for the two files, and the identifiers of both have the length of a UUID
  (without it the hashed string does not determine where its fields begin). So changing, inserting or deleting an
  entry in the middle is seen by whoever knows the last hash; changing a signature is not.\<close>

theorem audit_hash_fixes_history:
  assumes "load_all_entries js True f = Inr es" and "load_all_entries js True f' = Inr es'"
    and "verify_integrity cr js True pk f = Inr []" and "verify_integrity cr js True pk' f' = Inr []"
    and "hash_good_on cr (hashed js es \<union> hashed js es')"
    and "\<forall>e \<in> set es \<union> set es'. length (entry_id e) = 36"
    and "last_hash cr genesis_hash es = last_hash cr genesis_hash es'"
  shows "map (core js) es = map (core js) es'"
  using assms chain_unique[OF assms(5) _ _ _ _ assms(6,7)]
  by (simp add: verify_integrity_def verify_clean_iff)

text \<open>Two different files: the second line parses to the same entry with a signature.\<close>

definition signed_json :: json_lib where
  "signed_json = toy_json\<lparr>parse_entry := (\<lambda>l. if l = ''x'' then Some toy_entry
     else if l = ''y'' then Some (toy_entry\<lparr>signature := Some ''s'', key_id := Some ''k''\<rparr>) else None)\<rparr>"

lemma audit_hash_fixes_history_witness:
  "map (core signed_json) [toy_entry] = map (core signed_json) [toy_entry\<lparr>signature := Some ''s'', key_id := Some ''k''\<rparr>] \<and>
   load_all_entries signed_json True (Some (''x'' @ [CHR 0x0A])) \<noteq> load_all_entries signed_json True (Some (''y'' @ [CHR 0x0A]))"
proof -
  let ?f = "Some (''x'' @ [CHR 0x0A])" and ?f' = "Some (''y'' @ [CHR 0x0A])"
  let ?e = "toy_entry\<lparr>signature := Some ''s'', key_id := Some ''k''\<rparr>"
  have ls: "str_lines (''x'' @ [CHR 0x0A]) = [''x'']" "trim ''x'' = ''x''"
    "str_lines (''y'' @ [CHR 0x0A]) = [''y'']" "trim ''y'' = ''y''" by code_simp+
  have f: "load_all_entries signed_json True ?f = Inr [toy_entry]" and f': "load_all_entries signed_json True ?f' = Inr [?e]"
    using ls by (simp_all add: load_all_entries_def signed_json_def)
  have "map (core signed_json) [toy_entry] = map (core signed_json) [?e]"
  proof (rule audit_hash_fixes_history[OF f f', of toy_crypto None None])
    show "verify_integrity toy_crypto signed_json True None ?f = Inr []" "verify_integrity toy_crypto signed_json True None ?f' = Inr []"
      unfolding verify_integrity_def f f'
      by (simp_all add: check_entry_def toy_entry_def toy_crypto_def payload_bytes_def signed_json_def toy_json_def)
    show "hash_good_on toy_crypto (hashed signed_json [toy_entry] \<union> hashed signed_json [?e])"
      by (auto simp: hash_good_on_def hashed_def toy_crypto_def toy_entry_def toy_json_def signed_json_def hash_input_def payload_bytes_def
          genesis_hash_def inj_on_def eval_nat_numeral)
    show "\<forall>e \<in> set [toy_entry] \<union> set [?e]. length (entry_id e) = 36" by (simp add: toy_entry_def)
    show "last_hash toy_crypto genesis_hash [toy_entry] = last_hash toy_crypto genesis_hash [?e]"
      by (simp add: last_hash_def)
  qed
  moreover have "toy_entry \<noteq> ?e" by (simp add: toy_entry_def)
  ultimately show ?thesis using f f' by simp
qed

section \<open>What verification does not see\<close>

definition unsigned_entry :: "audit_entry \<Rightarrow> audit_entry" where
  "unsigned_entry e = e\<lparr>signature := None, key_id := None\<rparr>"

lemma chained_unsigned: "chained cr js h (map unsigned_entry es) = chained cr js h es"
  by (induction es arbitrary: h) (simp_all add: unsigned_entry_def)

text \<open>Verification of a file does not see that entries are missing at its end, nor that signatures were
  removed: if the entries of a file verify, so does every initial part of them, and so do the same
  entries with all signatures and key identifiers taken away, whatever public key is given.\<close>

theorem audit_undetected_changes:
  assumes "verify_entries cr js pk genesis_hash es = []"
  shows "verify_entries cr js pk genesis_hash (take n es) = [] \<and>
    verify_entries cr js pk' genesis_hash (map unsigned_entry es) = []"
proof -
  have "chained cr js genesis_hash (take n es @ drop n es)" "sigs_ok cr pk (take n es @ drop n es)"
    using assms by (simp_all add: verify_clean_iff)
  moreover have "sigs_ok cr pk' (map unsigned_entry es)"
    by (simp add: sigs_ok_def list_all_iff unsigned_entry_def split: option.splits)
  ultimately show ?thesis
    using assms unfolding chained_append sigs_ok_append by (simp add: verify_clean_iff chained_unsigned)
qed

lemma audit_undetected_changes_witness:
  "verify_entries toy_crypto toy_json None genesis_hash (take 0 [toy_entry]) = [] \<and>
   verify_entries toy_crypto toy_json (Some []) genesis_hash (map unsigned_entry [toy_entry]) = []"
proof -
  have "verify_entries toy_crypto toy_json None genesis_hash [toy_entry] = []"
    by (simp add: check_entry_def toy_entry_def toy_crypto_def payload_bytes_def toy_json_def)
  from audit_undetected_changes[OF this] show ?thesis by blast
qed

lemma dropWhile_keeps: "c \<in> set s \<Longrightarrow> \<not> P c \<Longrightarrow> c \<in> set (dropWhile P s)"
  by (induction s) auto

lemma trim_nonempty: "c \<in> set s \<Longrightarrow> \<not> is_whitespace c \<Longrightarrow> trim s \<noteq> []"
  using dropWhile_keeps[of c s is_whitespace] dropWhile_keeps[of c "rev (trim_start s)" is_whitespace]
  by (auto simp: trim_def trim_end_def trim_start_def)

lemma append_entry_file:
  "append_entry cr js u t WriteOk p (a, f) = (Inr e, a', f') \<Longrightarrow> entry_line js e = Some l \<Longrightarrow>
   f' = Some (file_content f @ l @ [CHR 0x0A])"
  by (auto simp: append_entry_def Let_def split: sum.splits option.splits)

lemma parse_lines_bad:
  "l \<in> set ls \<Longrightarrow> trim l \<noteq> [] \<Longrightarrow> parse_entry js (trim l) = None \<Longrightarrow> \<exists>err. parse_lines js ls = Inl err"
  by (induction ls) (auto simp: Let_def split: option.splits sum.splits)

text \<open>A write that fails after part of the line has reached the file spoils the log: the next append reports
  success, but its line continues the partial one, and if the two together are not the text of an entry the file can no longer be
  loaded, verified or opened by a new auditor.\<close>

theorem audit_torn_write_spoils_log:
  assumes "codec_ok js" and "file_holds js f es"
    and "append_entry cr js u1 t1 (WriteTorn k) p1 (a, f) = (Inl (Io ''write''), a, Some (file_content f @ part))"
    and "append_entry cr js u2 t2 WriteOk p2 (a, Some (file_content f @ part)) = (Inr e, a2, f2)"
    and "entry_line js e = Some l" and "CHR 0x0A \<notin> set part" and "parse_entry js (trim (part @ l)) = None"
  shows "\<exists>err. load_all_entries js True f2 = Inl err \<and> verify_integrity cr js True pk f2 = Inl err \<and>
    auditor_new cr js True f2 = Inl err"
proof -
  obtain ls where ls: "file_content f = unlines ls" "list_all2 (\<lambda>e l. entry_line js e = Some l) es ls"
    using assms(2) by (auto simp: file_holds_def)
  have l: "trim l = l" "l \<noteq> []" "CHR 0x0A \<notin> set l" using assms(1,5) by (auto simp: codec_ok_def)
  have lw: "\<not> is_whitespace (last l)" by (rule trim_last[OF l(1,2)])
  have "f2 = Some (unlines (ls @ [part @ l]))"
    using append_entry_file[OF assms(4,5)] ls(1) by (simp add: unlines_def file_content_def)
  moreover have "\<forall>m \<in> set (ls @ [part @ l]). CHR 0x0A \<notin> set m"
    using parse_printed[OF assms(1) ls(2)] assms(6) l(3) by auto
  ultimately have load: "load_all_entries js True f2 = parse_lines js (map strip_cr (ls @ [part @ l]))"
    by (simp add: load_all_entries_def str_lines_unlines del: map_append)
  have "strip_cr (part @ l) = part @ l"
  proof -
    have "is_whitespace (CHR 0x0D)" by code_simp
    then show ?thesis using lw l(2) by (auto simp: strip_cr_def)
  qed
  moreover have "trim (part @ l) \<noteq> []" using lw l(2) by (intro trim_nonempty[of "last l"]) auto
  ultimately obtain err where "load_all_entries js True f2 = Inl err"
    using parse_lines_bad[of "part @ l" "map strip_cr (ls @ [part @ l])" js] assms(7) load by auto
  then show ?thesis by (auto simp: verify_integrity_def auditor_new_def)
qed

text \<open>The printed toy entry is torn before its line feed.\<close>

lemma audit_torn_write_spoils_log_witness:
  "\<exists>err. load_all_entries toy_json True (Some (''xx'' @ [CHR 0x0A])) = Inl err \<and>
     verify_integrity toy_crypto toy_json True None (Some (''xx'' @ [CHR 0x0A])) = Inl err \<and>
     auditor_new toy_crypto toy_json True (Some (''xx'' @ [CHR 0x0A])) = Inl err"
proof (rule audit_torn_write_spoils_log[OF toy_codec_ok, where f = None and es = "[]" and part = "''x''" and l = "''x''"
      and a = fresh_auditor and e = toy_entry])
  show "file_holds toy_json None []" by (simp add: file_holds_def file_content_def unlines_def)
  show "append_entry toy_crypto toy_json (replicate 36 (CHR ''u'')) 5 (WriteTorn 1) JNull (fresh_auditor, None) =
    (Inl (Io ''write''), fresh_auditor, Some (file_content None @ ''x''))"
    by (simp add: append_entry_def fresh_auditor_def entry_new_def toy_json_def toy_entry_def toy_crypto_def
        payload_bytes_def file_content_def eval_nat_numeral)
  show "append_entry toy_crypto toy_json (replicate 36 (CHR ''u'')) 5 WriteOk JNull (fresh_auditor, Some (file_content None @ ''x'')) =
    (Inr toy_entry, \<lparr>current_hash = replicate 64 (CHR ''b''), last_entry_id = Some (entry_id toy_entry), signing_key = None\<rparr>,
     Some (''xx'' @ [CHR 0x0A]))"
    by (simp add: append_entry_def fresh_auditor_def entry_new_def toy_json_def toy_entry_def toy_crypto_def
        payload_bytes_def compute_hash_def hash_input_def file_content_def eval_nat_numeral)
  show "entry_line toy_json toy_entry = Some ''x''" by (simp add: toy_json_def)
  show "parse_entry toy_json (trim (''x'' @ ''x'')) = None"
  proof -
    have "trim (''x'' @ ''x'') = ''xx''" by code_simp
    then show ?thesis by (simp add: toy_json_def)
  qed
qed simp

end
