(* ===== verification/AuditLog.thy ===== *)
theory AuditLog
  imports AuditChain "HOL-Library.Option_ord"
begin

text \<open>
  The audit sink, \<open>src/governance/audit.rs\<close>: redaction of sensitive fields, the bounded buffer, the
  bounded queue to the writer thread, and the thread's work on one entry (append a line, rotate
  the log, chain the entry with \<open>AuditChain\<close>, rotate the chain, delete old archives). The directory
  is a list of the other files with their contents and modification times; an archive is
  represented by the content it decompresses to, the bytes of a file by characters. What each
  system call does is an argument. An \<open>f32\<close> is its 32 bits.
\<close>

section \<open>Entries and redaction\<close>

record audit_log_entry =
  al_timestamp :: string
  al_task_id :: string
  al_phase :: string
  al_agent :: "string option"
  al_tool :: "string option"
  al_decision :: string
  al_inputs :: json
  al_outputs :: "json option"
  al_error :: "string option"
  al_confidence :: "u32 option"
  al_data_classification :: "string option"
  al_compliance_tags :: "string list"
  al_retention_policy :: "string option"
  al_correlation_id :: "string option"

definition sensitive_key :: "string \<Rightarrow> bool" where
  "sensitive_key k =
     (let lower = to_lowercase k in
      str_contains lower ''api_key'' \<or> str_contains lower ''secret'' \<or>
      str_contains lower ''password'' \<or> str_contains lower ''token'')"

definition key_like :: "string \<Rightarrow> bool" where
  "key_like s =
     (utf8_len s > 20 \<and> (is_prefix ''sk-'' s \<or> is_prefix ''pk-'' s \<or> is_prefix ''AKIA'' s))"

definition redact_string :: "string \<Rightarrow> string" where
  "redact_string s =
     (if key_like s then take 2 s @ ''...'' @ rev (take 2 (rev s)) else s)"

fun redact_sensitive :: "json \<Rightarrow> json" and redact_members :: "(string \<times> json) list \<Rightarrow> (string \<times> json) list" where
  "redact_sensitive (JObject m) = JObject (redact_members m)"
| "redact_sensitive (JString s) = JString (redact_string s)"
| "redact_sensitive JNull = JNull"
| "redact_sensitive (JBool b) = JBool b"
| "redact_sensitive (JNumber n) = JNumber n"
| "redact_sensitive (JArray xs) = JArray xs"
| "redact_members [] = []"
| "redact_members ((k, v) # m) =
     (k, if sensitive_key k then JString ''**REDACTED**'' else redact_sensitive v) # redact_members m"

section \<open>The buffer and the queue\<close>

datatype writer_msg = MsgEntry audit_log_entry | MsgFlush nat

record audit_log =
  log_entries :: "audit_log_entry list"
  max_entries :: nat
  dropped_count :: u64
  writer :: "writer_msg list option"

definition audit_log_new :: "nat \<Rightarrow> audit_log" where
  "audit_log_new n = \<lparr>log_entries = [], max_entries = n, dropped_count = 0, writer = None\<rparr>"

definition new_with_path :: "nat \<Rightarrow> audit_log" where
  "new_with_path n = \<lparr>log_entries = [], max_entries = n, dropped_count = 0, writer = Some []\<rparr>"

definition queue_bound :: nat where
  "queue_bound = 4096"

definition redact_entry :: "audit_log_entry \<Rightarrow> audit_log_entry" where
  "redact_entry e =
     e\<lparr>al_inputs := redact_sensitive (al_inputs e),
       al_outputs := map_option redact_sensitive (al_outputs e)\<rparr>"

definition record_entry :: "audit_log_entry \<Rightarrow> audit_log \<Rightarrow> audit_log" where
  "record_entry entry l =
     (let e = redact_entry entry;
          l = (if length (log_entries l) \<ge> max_entries l
               then l\<lparr>dropped_count := dropped_count l + 1, log_entries := tl (log_entries l)\<rparr>
               else l);
          l = l\<lparr>log_entries := log_entries l @ [e]\<rparr>
      in case writer l of
           None \<Rightarrow> l
         | Some q \<Rightarrow>
             if length q < queue_bound then l\<lparr>writer := Some (q @ [MsgEntry e])\<rparr>
             else l\<lparr>dropped_count := dropped_count l + 1\<rparr>)"

text \<open>\<open>flush\<close> sends a marker, waiting for room in the queue (\<open>None\<close>: it waits), and then waits for the
  writer to acknowledge it.\<close>

definition flush_send :: "nat \<Rightarrow> audit_log \<Rightarrow> audit_log option" where
  "flush_send ack l =
     (case writer l of
        None \<Rightarrow> Some l
      | Some q \<Rightarrow> if length q < queue_bound then Some (l\<lparr>writer := Some (q @ [MsgFlush ack])\<rparr>) else None)"

definition clear_log :: "audit_log \<Rightarrow> audit_log" where
  "clear_log l = l\<lparr>log_entries := [], dropped_count := 0\<rparr>"

definition log_is_empty :: "audit_log \<Rightarrow> bool" where
  "log_is_empty l = (length (log_entries l) = 0)"

definition last_write_time :: "audit_log \<Rightarrow> string option" where
  "last_write_time l = (if log_entries l = [] then None else Some (al_timestamp (last (log_entries l))))"

section \<open>Files\<close>

datatype file_error = Storage string | Serialization string

text \<open>A file of the directory: name, content, modification time (\<open>None\<close> when it cannot be read).\<close>

type_synonym dir_entry = "string \<times> string \<times> u64 option"

definition archive_name :: "string \<Rightarrow> nat \<Rightarrow> string" where
  "archive_name file_name n = file_name @ ''.'' @ show_nat n @ ''.gz''"

text \<open>The loop that looks for a free slot, with a bound on the number of probes.\<close>

fun free_slot :: "nat \<Rightarrow> dir_entry list \<Rightarrow> string \<Rightarrow> nat \<Rightarrow> string option" where
  "free_slot 0 d name n = None"
| "free_slot (Suc fuel) d name n =
     (let candidate = archive_name name n in
      if candidate \<in> fst ` set d then free_slot fuel d name (n + 1) else Some candidate)"

datatype rotate_outcome =
    RotateOk | SourceOpenFailed | ArchiveCreateFailed | CopyFailed nat | TruncateFailed

definition rotate_file ::
  "rotate_outcome \<Rightarrow> u64 \<Rightarrow> string \<Rightarrow> string \<Rightarrow> dir_entry list \<Rightarrow>
   (file_error + unit) \<times> string \<times> dir_entry list" where
  "rotate_file out now name content d =
     (case free_slot (length d + 1) d name 1 of
        None \<Rightarrow> (Inl (Storage ''slot''), content, d)
      | Some archive \<Rightarrow>
          (case out of
             SourceOpenFailed \<Rightarrow> (Inl (Storage ''open''), content, d)
           | ArchiveCreateFailed \<Rightarrow> (Inl (Storage ''create''), content, d)
           | CopyFailed k \<Rightarrow> (Inl (Storage ''copy''), content, d @ [(archive, take k content, Some now)])
           | TruncateFailed \<Rightarrow> (Inl (Storage ''truncate''), content, d @ [(archive, content, Some now)])
           | RotateOk \<Rightarrow> (Inr (), [], d @ [(archive, content, Some now)])))"

definition is_archive_of :: "string \<Rightarrow> string \<Rightarrow> bool" where
  "is_archive_of stem n =
     (case strip_prefix stem n of
        None \<Rightarrow> False
      | Some rest \<Rightarrow>
          (case strip_suffix ''.gz'' rest of
             None \<Rightarrow> False
           | Some num \<Rightarrow>
               num \<noteq> [] \<and> is_prefix ''.'' num \<and> list_all is_ascii_digit (tl num)))"

definition cleanup_old_archives ::
  "bool \<Rightarrow> string list \<Rightarrow> string \<Rightarrow> nat \<Rightarrow> dir_entry list \<Rightarrow> dir_entry list" where
  "cleanup_old_archives read_ok undeletable stem max_to_keep d =
     (if max_to_keep = 0 \<or> \<not> read_ok then d
      else
        let es = sort_key (\<lambda>(_, _, m). m) (filter (\<lambda>(n, _, _). is_archive_of stem n) d) in
        if length es \<le> max_to_keep then d
        else
          let gone = filter (\<lambda>n. n \<notin> set undeletable) (map fst (take (length es - max_to_keep) es)) in
          filter (\<lambda>(n, _, _). n \<notin> set gone) d)"

definition rotation_bytes :: nat where
  "rotation_bytes = 100 * 1024 * 1024"

section \<open>The writer thread\<close>

text \<open>Serialisation of an entry: to a line and to a value.\<close>

record log_codec =
  log_line :: "audit_log_entry \<Rightarrow> string option"
  log_value :: "audit_log_entry \<Rightarrow> json option"

definition append_ndjson_entry ::
  "log_codec \<Rightarrow> nat \<Rightarrow> bool \<Rightarrow> rotate_outcome \<Rightarrow> u64 \<Rightarrow> write_outcome \<Rightarrow> string \<Rightarrow> audit_log_entry \<Rightarrow>
   string option \<Rightarrow> dir_entry list \<Rightarrow> (file_error + bool) \<times> string option \<times> dir_entry list" where
  "append_ndjson_entry lc limit stat_ok rot now w name entry f d =
     (let opened = (\<lambda>rotated f d.
        case w of
          OpenFailed \<Rightarrow> (Inl (Storage ''open''), f, d)
        | _ \<Rightarrow>
            (case log_line lc entry of
               None \<Rightarrow> (Inl (Serialization ''entry''), Some (file_content f), d)
             | Some line \<Rightarrow>
                 (case w of
                    WriteTorn k \<Rightarrow>
                      (Inl (Storage ''write''), Some (file_content f @ take k (line @ [CHR 0x0A])), d)
                  | _ \<Rightarrow> (Inr rotated, Some (file_content f @ line @ [CHR 0x0A]), d))))
      in case f of
           None \<Rightarrow> opened False None d
         | Some content \<Rightarrow>
             if \<not> stat_ok then (Inl (Storage ''metadata''), f, d)
             else if length content > limit
             then (case rotate_file rot now name content d of
                     (Inl err, content', d') \<Rightarrow> (Inl err, Some content', d')
                   | (Inr _, content', d') \<Rightarrow> opened True (Some content') d')
             else opened False f d)"

definition audit_signing_key_from_env ::
  "(string \<Rightarrow> string option) \<Rightarrow> string option \<Rightarrow> (string \<times> string) option" where
  "audit_signing_key_from_env hex_decode env =
     (case env of
        None \<Rightarrow> None
      | Some raw \<Rightarrow>
          (case hex_decode (trim raw) of
             None \<Rightarrow> None
           | Some bytes \<Rightarrow>
               if length bytes \<noteq> 32 \<and> length bytes \<noteq> 64 then None
               else Some (''goon-audit'', bytes)))"

definition open_chain ::
  "crypto_lib \<Rightarrow> json_lib \<Rightarrow> (string \<times> string) option \<Rightarrow> bool \<Rightarrow> chain_file \<Rightarrow> auditor option" where
  "open_chain cr js key read_ok f =
     (case (case key of
              Some (kid, k) \<Rightarrow> auditor_new_signed cr js read_ok f kid k
            | None \<Rightarrow> auditor_new cr js read_ok f) of
        Inl err \<Rightarrow> None
      | Inr a \<Rightarrow> Some a)"

record writer_state =
  ws_log :: "string option"
  ws_chain_file :: chain_file
  ws_chain :: "auditor option"
  ws_dir :: "dir_entry list"

text \<open>What the system does while one entry is written: the log file (its size is read, the rotation,
  the write), the chain file, the clocks and the fresh identifier, reading the directory and the
  files that cannot be deleted, and the signing key found when the chain is opened again.\<close>

record writer_io =
  io_log_stat :: bool
  io_log_rotate :: rotate_outcome
  io_log_write :: write_outcome
  io_uuid :: string
  io_now_ms :: u64
  io_mtime :: u64
  io_chain_write :: write_outcome
  io_chain_stat :: bool
  io_chain_rotate :: rotate_outcome
  io_chain_read :: bool
  io_key :: "(string \<times> string) option"
  io_dir_read :: bool
  io_undeletable :: "string list"

definition chain_name :: string where
  "chain_name = ''audit_chain.ndjson''"

definition max_archives :: nat where
  "max_archives = 10"

definition rotate_chain_if_needed ::
  "crypto_lib \<Rightarrow> json_lib \<Rightarrow> writer_io \<Rightarrow> nat \<Rightarrow> writer_state \<Rightarrow> (file_error + bool) \<times> writer_state" where
  "rotate_chain_if_needed cr js io threshold st =
     (case (ws_chain st, ws_chain_file st) of
        (Some _, Some content) \<Rightarrow>
          if \<not> io_chain_stat io then (Inl (Storage ''metadata''), st)
          else if length content \<le> threshold then (Inr False, st)
          else
            (case rotate_file (io_chain_rotate io) (io_mtime io) chain_name content (ws_dir st) of
               (Inl err, content', d') \<Rightarrow> (Inl err, st\<lparr>ws_chain_file := Some content', ws_dir := d'\<rparr>)
             | (Inr _, content', d') \<Rightarrow>
                 (Inr True, st\<lparr>ws_chain_file := Some content', ws_dir := d',
                              ws_chain := open_chain cr js (io_key io) (io_chain_read io) (Some content')\<rparr>))
      | _ \<Rightarrow> (Inr False, st))"

definition chain_persisted ::
  "crypto_lib \<Rightarrow> json_lib \<Rightarrow> log_codec \<Rightarrow> writer_io \<Rightarrow> nat \<Rightarrow> audit_log_entry \<Rightarrow> writer_state \<Rightarrow> writer_state" where
  "chain_persisted cr js lc io limit entry st =
     (case ws_chain st of
        None \<Rightarrow> st
      | Some a \<Rightarrow>
          (let st = (case log_value lc entry of
                       None \<Rightarrow> st
                     | Some p \<Rightarrow>
                         (case append_entry cr js (io_uuid io) (io_now_ms io) (io_chain_write io) p (a, ws_chain_file st) of
                            (_, a', f') \<Rightarrow> st\<lparr>ws_chain := Some a', ws_chain_file := f'\<rparr>))
           in case rotate_chain_if_needed cr js io limit st of
                (Inr True, st) \<Rightarrow>
                  st\<lparr>ws_dir := cleanup_old_archives (io_dir_read io) (io_undeletable io) chain_name max_archives (ws_dir st)\<rparr>
              | (_, st) \<Rightarrow> st))"

definition write_one ::
  "crypto_lib \<Rightarrow> json_lib \<Rightarrow> log_codec \<Rightarrow> writer_io \<Rightarrow> nat \<Rightarrow> string \<Rightarrow> audit_log_entry \<Rightarrow> writer_state \<Rightarrow> writer_state" where
  "write_one cr js lc io limit name entry st =
     (case append_ndjson_entry lc limit (io_log_stat io) (io_log_rotate io) (io_mtime io) (io_log_write io) name entry
             (ws_log st) (ws_dir st) of
        (Inl err, f, d) \<Rightarrow> st\<lparr>ws_log := f, ws_dir := d\<rparr>
      | (Inr rotated, f, d) \<Rightarrow>
          chain_persisted cr js lc io limit entry
            (st\<lparr>ws_log := f,
                ws_dir := (if rotated
                           then cleanup_old_archives (io_dir_read io) (io_undeletable io) ''audit.ndjson'' max_archives d
                           else d)\<rparr>))"

text \<open>One turn of the thread: take a message from the queue; the acknowledged markers are returned.\<close>

definition writer_turn ::
  "crypto_lib \<Rightarrow> json_lib \<Rightarrow> log_codec \<Rightarrow> writer_io \<Rightarrow> nat \<Rightarrow> string \<Rightarrow> writer_msg list \<times> writer_state \<Rightarrow>
   nat list \<times> writer_msg list \<times> writer_state" where
  "writer_turn cr js lc io limit name qs =
     (case qs of
        ([], st) \<Rightarrow> ([], [], st)
      | (MsgEntry e # q, st) \<Rightarrow> ([], q, write_one cr js lc io limit name e st)
      | (MsgFlush ack # q, st) \<Rightarrow> ([ack], q, st))"

section \<open>Paths\<close>

definition path_join :: "string \<Rightarrow> string \<Rightarrow> string" where
  "path_join base p =
     (if is_prefix ''/'' p then p
      else if base = [] \<or> last base = CHR ''/'' then base @ p else base @ ''/'' @ p)"

definition dirs_or_fallback :: "string option \<Rightarrow> string option \<Rightarrow> string" where
  "dirs_or_fallback home_var userprofile_var =
     (let home = (case home_var of
                    Some h \<Rightarrow> h | None \<Rightarrow> (case userprofile_var of Some h \<Rightarrow> h | None \<Rightarrow> []));
          base = (if home = [] then ''.goon'' else path_join home ''.goon'')
      in path_join base ''audit.ndjson'')"

section \<open>Redaction\<close>

text \<open>A value exposes a secret when, going down through objects only, it has a sensitive key whose value
  is not the mark, or a string that looks like a key.\<close>

fun exposed :: "json \<Rightarrow> bool" and exposed_members :: "(string \<times> json) list \<Rightarrow> bool" where
  "exposed (JObject m) = exposed_members m"
| "exposed (JString s) = key_like s"
| "exposed JNull = False"
| "exposed (JBool b) = False"
| "exposed (JNumber n) = False"
| "exposed (JArray xs) = False"
| "exposed_members [] = False"
| "exposed_members ((k, v) # m) =
     ((if sensitive_key k then v \<noteq> JString ''**REDACTED**'' else exposed v) \<or> exposed_members m)"

definition entry_clean :: "audit_log_entry \<Rightarrow> bool" where
  "entry_clean e \<longleftrightarrow> \<not> exposed (al_inputs e) \<and> (case al_outputs e of None \<Rightarrow> True | Some v \<Rightarrow> \<not> exposed v)"

lemma utf8_len_append [simp]: "utf8_len (s @ t) = utf8_len s + utf8_len t"
  by (simp add: utf8_len_def)

lemma utf8_len_le: "utf8_len s \<le> 2 * length s"
  by (induction s) (auto simp: utf8_len_def)

lemma utf8_len_take: "utf8_len (take n s) \<le> 2 * n"
  using utf8_len_le[of "take n s"] by simp

lemma redact_string_clean: "\<not> key_like (redact_string s)"
proof (cases "key_like s")
  case True
  have "utf8_len (redact_string s) \<le> 4 + 3 + utf8_len (rev (take 2 (rev s)))"
    using True utf8_len_take[of 2 s] by (simp add: redact_string_def) (simp add: utf8_len_def)
  moreover have "utf8_len (rev (take 2 (rev s))) \<le> 4"
    using utf8_len_le[of "rev (take 2 (rev s))"] by simp
  ultimately have "utf8_len (redact_string s) \<le> 20" by simp
  then show ?thesis by (simp add: key_like_def)
qed (simp add: redact_string_def)

lemma redact_not_exposed:
  "\<not> exposed (redact_sensitive v)" "\<not> exposed_members (redact_members m)"
  by (induction v and m rule: redact_sensitive_redact_members.induct) (auto simp: redact_string_clean)

lemma redact_keeps_keys: "map fst (redact_members m) = map fst m"
  by (induction m) auto

lemma redact_clean_id:
  "\<not> exposed v \<Longrightarrow> redact_sensitive v = v" "\<not> exposed_members m \<Longrightarrow> redact_members m = m"
  by (induction v and m rule: redact_sensitive_redact_members.induct)
    (auto simp: redact_string_def split: if_splits)

lemma redact_entry_clean: "entry_clean (redact_entry e)"
  by (simp add: entry_clean_def redact_entry_def redact_not_exposed split: option.splits)

section \<open>Free slots and clean-up\<close>

lemma archive_name_inj: "archive_name f m = archive_name f n \<longleftrightarrow> m = n"
  by (simp add: archive_name_def show_nat_inj)

lemma free_slot_fresh: "free_slot k d name n = Some x \<Longrightarrow> x \<notin> fst ` set d \<and> (\<exists>m \<ge> n. x = archive_name name m)"
proof (induction k arbitrary: n)
  case (Suc k)
  show ?case
  proof (cases "archive_name name n \<in> fst ` set d")
    case True
    then have "free_slot k d name (n + 1) = Some x" using Suc.prems by (simp add: Let_def)
    from Suc.IH[OF this] show ?thesis by (metis add_leD1)
  next
    case False
    then show ?thesis using Suc.prems by (auto simp: Let_def)
  qed
qed simp

lemma free_slot_None:
  "free_slot k d name n = None \<Longrightarrow> archive_name name ` {n..<n + k} \<subseteq> fst ` set d"
proof (induction k arbitrary: n)
  case (Suc k)
  from Suc.prems have n: "archive_name name n \<in> fst ` set d" and r: "free_slot k d name (n + 1) = None"
    by (auto simp: Let_def split: if_splits)
  have "{n..<n + Suc k} = Set.insert n {n + 1..<(n + 1) + k}" by auto
  with n Suc.IH[OF r] show ?case by simp
qed simp

lemma free_slot_found: "free_slot (length d + 1) d name n \<noteq> None"
proof
  assume "free_slot (length d + 1) d name n = None"
  from free_slot_None[OF this] have "archive_name name ` {n..<n + (length d + 1)} \<subseteq> fst ` set d" .
  then have "card (archive_name name ` {n..<n + (length d + 1)}) \<le> card (fst ` set d)"
    by (intro card_mono) auto
  also have "\<dots> \<le> length d" by (metis card_image_le card_length finite_set le_trans)
  finally show False
    by (subst (asm) card_image) (auto simp: inj_on_def archive_name_inj)
qed

text \<open>Rotation always finds a free archive name, whatever the directory holds, and never overwrites or drops a
  file. When it succeeds the whole content is in one new archive and the log is empty; when it
  fails the log is as it was.\<close>

theorem rotation_keeps_archives:
  assumes "rotate_file out now name content d = (r, content', d')"
  shows "(\<exists>new. d' = d @ new \<and> (\<forall>x \<in> set new. fst x \<notin> fst ` set d)) \<and>
    (r = Inr () \<longleftrightarrow> out = RotateOk) \<and>
    (out = RotateOk \<longrightarrow> content' = [] \<and> (\<exists>n. d' = d @ [(archive_name name n, content, Some now)])) \<and>
    (out \<noteq> RotateOk \<longrightarrow> content' = content)"
proof -
  obtain x where x: "free_slot (length d + 1) d name 1 = Some x" using free_slot_found by blast
  obtain n where n: "x \<notin> fst ` set d" "x = archive_name name n" using free_slot_fresh[OF x] by blast
  show ?thesis
    using assms n unfolding rotate_file_def x option.case by (cases out) auto
qed

lemma rotation_keeps_archives_witness:
  "(\<exists>new. snd (snd (rotate_file RotateOk 7 ''a'' ''x'' [(archive_name ''a'' 1, ''y'', Some 3)])) =
       [(archive_name ''a'' 1, ''y'', Some 3)] @ new) \<and>
   fst (rotate_file RotateOk 7 ''a'' ''x'' [(archive_name ''a'' 1, ''y'', Some 3)]) = Inr ()"
  using rotation_keeps_archives[of RotateOk 7 "''a''" "''x''" "[(archive_name ''a'' 1, ''y'', Some 3)]"
      "fst (rotate_file RotateOk 7 ''a'' ''x'' [(archive_name ''a'' 1, ''y'', Some 3)])"
      "fst (snd (rotate_file RotateOk 7 ''a'' ''x'' [(archive_name ''a'' 1, ''y'', Some 3)]))"
      "snd (snd (rotate_file RotateOk 7 ''a'' ''x'' [(archive_name ''a'' 1, ''y'', Some 3)]))"]
  by simp blast

lemma filter_not_taken:
  "distinct (map f es) \<Longrightarrow> filter (\<lambda>x. f x \<notin> f ` set (take j es)) es = drop j es"
proof (induction es arbitrary: j)
  case (Cons e es)
  show ?case
  proof (cases j)
    case 0
    then show ?thesis by simp
  next
    case (Suc i)
    have "filter (\<lambda>x. f x \<notin> f ` set (take j (e # es))) es = filter (\<lambda>x. f x \<notin> f ` set (take i es)) es"
      using Cons.prems Suc by (intro filter_cong) (auto, metis image_eqI)
    with Cons Suc show ?thesis by simp
  qed
qed simp

lemma sorted_take_drop:
  "sorted (map f es) \<Longrightarrow> x \<in> set (take j es) \<Longrightarrow> y \<in> set (drop j es) \<Longrightarrow> f x \<le> f y"
  using sorted_append[of "map f (take j es)" "map f (drop j es)"] by (simp flip: map_append)

text \<open>Clean-up, when every file can be deleted, leaves the files that are no archives of the log as they
  are, keeps at most the given number of archives, and deletes none that is newer than one it
  keeps.\<close>

theorem cleanup_keeps_newest:
  assumes "distinct (map fst d)" and "0 < k"
  shows "filter (\<lambda>x. \<not> is_archive_of stem (fst x)) (cleanup_old_archives True [] stem k d) =
      filter (\<lambda>x. \<not> is_archive_of stem (fst x)) d \<and>
    length (filter (\<lambda>x. is_archive_of stem (fst x)) (cleanup_old_archives True [] stem k d)) =
      min k (length (filter (\<lambda>x. is_archive_of stem (fst x)) d)) \<and>
    (\<forall>x \<in> set d. \<forall>y \<in> set (cleanup_old_archives True [] stem k d).
       x \<notin> set (cleanup_old_archives True [] stem k d) \<and> is_archive_of stem (fst y) \<longrightarrow> snd (snd x) \<le> snd (snd y))"
proof -
  define A where "A = (\<lambda>x :: dir_entry. is_archive_of stem (fst x))"
  define es where "es = sort_key (\<lambda>x. snd (snd x)) (filter A d)"
  define j where "j = length es - k"
  let ?c = "cleanup_old_archives True [] stem k d"
  have len: "length es = length (filter A d)" by (simp add: es_def)
  have ms: "mset es = mset (filter A d)" by (simp add: es_def)
  have c: "?c = filter (\<lambda>x. fst x \<notin> fst ` set (take j es)) d"
  proof (cases "length es \<le> k")
    case True
    then show ?thesis
      using assms(2) len by (simp add: cleanup_old_archives_def case_prod_unfold A_def[symmetric] j_def)
  next
    case False
    then show ?thesis
      using assms(2) len
      by (simp add: cleanup_old_archives_def case_prod_unfold A_def[symmetric] es_def[symmetric] j_def)
  qed
  have dist: "distinct (map fst es)"
    using distinct_map_filter[OF assms(1), of A] ms by (metis mset_eq_imp_distinct_iff mset_map)
  have inA: "x \<in> set es \<longleftrightarrow> x \<in> set d \<and> A x" for x
    using ms by (simp add: es_def)
  have nd: "x = y" if "x \<in> set d" "y \<in> set d" "fst x = fst y" for x y
    using assms(1) that by (metis eq_key_imp_eq_value prod.collapse)
  have keep: "x \<in> set ?c \<longleftrightarrow> x \<in> set d \<and> x \<notin> set (take j es)" for x
  proof
    assume "x \<in> set ?c"
    then show "x \<in> set d \<and> x \<notin> set (take j es)" by (auto simp: c)
  next
    assume x: "x \<in> set d \<and> x \<notin> set (take j es)"
    have "fst x \<noteq> fst y" if "y \<in> set (take j es)" for y
      using x nd[of x y] that in_set_takeD[OF that] inA by metis
    with x show "x \<in> set ?c" by (auto simp: c)
  qed
  have "filter A ?c = filter (\<lambda>x. fst x \<notin> fst ` set (take j es)) (filter A d)" by (simp add: c conj_commute)
  then have "mset (filter A ?c) = mset (filter (\<lambda>x. fst x \<notin> fst ` set (take j es)) es)"
    by (metis (no_types) ms mset_filter)
  then have "length (filter A ?c) = length es - j"
    by (metis filter_not_taken[OF dist] length_drop size_mset)
  then have two: "length (filter A ?c) = min k (length (filter A d))" by (simp add: j_def len)
  have one: "filter (\<lambda>x. \<not> A x) ?c = filter (\<lambda>x. \<not> A x) d"
    unfolding c filter_filter
  proof (rule filter_cong[OF refl])
    fix x assume x: "x \<in> set d"
    have "A x" if "fst x \<in> fst ` set (take j es)"
      using that nd[OF x] inA by (metis (no_types, lifting) image_iff in_set_takeD)
    then show "(fst x \<notin> fst ` set (take j es) \<and> \<not> A x) = (\<not> A x)" by blast
  qed
  have sorted: "sorted (map (\<lambda>x. snd (snd x)) es)" by (simp add: es_def)
  have three: "snd (snd x) \<le> snd (snd y)" if "x \<in> set d" "y \<in> set ?c" "x \<notin> set ?c" "A y" for x y
  proof (rule sorted_take_drop[OF sorted])
    show "x \<in> set (take j es)" using that keep by blast
    have "y \<in> set es" "y \<notin> set (take j es)" using that keep inA by blast+
    then show "y \<in> set (drop j es)" by (metis Un_iff append_take_drop_id set_append)
  qed
  show ?thesis using one two three by (auto simp: A_def)
qed

definition two_archives :: "dir_entry list" where
  "two_archives = [(''l.2.gz'', ''b'', Some 5), (''l.1.gz'', ''a'', Some 3), (''l.backup.gz'', ''c'', None)]"

lemma cleanup_keeps_newest_witness:
  "length (filter (\<lambda>x. is_archive_of ''l'' (fst x)) (cleanup_old_archives True [] ''l'' 1 two_archives)) =
     min 1 (length (filter (\<lambda>x. is_archive_of ''l'' (fst x)) two_archives)) \<and>
   cleanup_old_archives True [] ''l'' 1 two_archives = [(''l.2.gz'', ''b'', Some 5), (''l.backup.gz'', ''c'', None)]"
proof -
  have d: "distinct (map fst two_archives)" by code_simp
  have "cleanup_old_archives True [] ''l'' 1 two_archives = [(''l.2.gz'', ''b'', Some 5), (''l.backup.gz'', ''c'', None)]"
    by code_simp
  with cleanup_keeps_newest[OF d zero_less_one, of "''l''"] show ?thesis by blast
qed

section \<open>The buffer\<close>

lemma record_no_writer:
  "writer l = None \<Longrightarrow> record_entry e l =
     (if length (log_entries l) \<ge> max_entries l
      then l\<lparr>dropped_count := dropped_count l + 1, log_entries := tl (log_entries l) @ [redact_entry e]\<rparr>
      else l\<lparr>log_entries := log_entries l @ [redact_entry e]\<rparr>)"
  by (simp add: record_entry_def Let_def)

lemma record_max_entries [simp]: "max_entries (record_entry e l) = max_entries l"
  by (simp add: record_entry_def Let_def split: option.splits)

lemma tl_drop_snoc: "n \<le> length xs \<Longrightarrow> 0 < n \<Longrightarrow> tl (drop (length xs - n) xs) @ [y] = drop (Suc (length xs) - n) (xs @ [y])"
  by (simp add: tl_drop drop_Suc[symmetric] Suc_diff_le)

text \<open>Without a file the log holds the redacted forms of the last entries recorded, as many as its size
  allows, in order; the counter says how many were displaced (modulo its width).\<close>

theorem audit_buffer_exact:
  assumes "0 < n"
  shows "fold record_entry es (audit_log_new n) =
    \<lparr>log_entries = drop (length es - n) (map redact_entry es), max_entries = n,
     dropped_count = of_nat (length es - n), writer = None\<rparr>"
proof (induction es rule: rev_induct)
  case Nil
  then show ?case by (simp add: audit_log_new_def)
next
  case (snoc e es)
  show ?case
  proof (cases "n \<le> length es")
    case True
    then have l: "length (drop (length es - n) (map redact_entry es)) = n" by simp
    have "tl (drop (length es - n) (map redact_entry es)) @ [redact_entry e] =
        drop (Suc (length es) - n) (map redact_entry es @ [redact_entry e])"
      using tl_drop_snoc[of n "map redact_entry es" "redact_entry e"] assms True by simp
    then show ?thesis
      using True snoc.IH by (simp add: record_no_writer Suc_diff_le)
  next
    case False
    then show ?thesis using snoc.IH by (simp add: record_no_writer)
  qed
qed

definition sample_entry :: "string \<Rightarrow> json \<Rightarrow> audit_log_entry" where
  "sample_entry t v =
     \<lparr>al_timestamp = t, al_task_id = ''task-001'', al_phase = ''test'', al_agent = None, al_tool = None,
      al_decision = ''proceed'', al_inputs = v, al_outputs = None, al_error = None, al_confidence = None,
      al_data_classification = None, al_compliance_tags = [], al_retention_policy = None, al_correlation_id = None\<rparr>"

lemma audit_buffer_exact_witness:
  "let l = fold record_entry (map (\<lambda>t. sample_entry t JNull) [''1'', ''2'', ''3'']) (audit_log_new 2)
   in map al_timestamp (log_entries l) = [''2'', ''3''] \<and> dropped_count l = 1"
  using audit_buffer_exact[of 2 "map (\<lambda>t. sample_entry t JNull) [''1'', ''2'', ''3'']"]
  by (simp add: sample_entry_def redact_entry_def)

section \<open>The sink as a whole\<close>

text \<open>What is required of the system for the chain: a write happens as a whole or not at all, copying the
  file to an archive does not stop half way, the file can be read, signing keys are known.\<close>

definition good_io :: "string set \<Rightarrow> writer_io \<Rightarrow> bool" where
  "good_io keys io \<longleftrightarrow> io_chain_write io \<in> {WriteOk, OpenFailed} \<and> (\<forall>k. io_chain_rotate io \<noteq> CopyFailed k) \<and>
     io_chain_read io \<and> (case io_key io of None \<Rightarrow> True | Some (kid, key) \<Rightarrow> key \<in> keys)"

definition log_name :: string where
  "log_name = ''audit.ndjson''"

inductive sink_step ::
  "crypto_lib \<Rightarrow> json_lib \<Rightarrow> log_codec \<Rightarrow> nat \<Rightarrow> string set \<Rightarrow> audit_log \<times> writer_state \<Rightarrow> audit_log \<times> writer_state \<Rightarrow> bool"
  for cr js lc limit keys where
  ss_record: "sink_step cr js lc limit keys (l, w) (record_entry e l, w)"
| ss_flush: "flush_send ack l = Some l' \<Longrightarrow> sink_step cr js lc limit keys (l, w) (l', w)"
| ss_clear: "sink_step cr js lc limit keys (l, w) (clear_log l, w)"
| ss_turn: "writer l = Some q \<Longrightarrow> good_io keys io \<Longrightarrow>
    writer_turn cr js lc io limit log_name (q, w) = (acks, q', w') \<Longrightarrow>
    sink_step cr js lc limit keys (l, w) (l\<lparr>writer := Some q'\<rparr>, w')"

definition chain_ok :: "crypto_lib \<Rightarrow> json_lib \<Rightarrow> string \<Rightarrow> string \<Rightarrow> bool" where
  "chain_ok cr js pk c \<longleftrightarrow>
     (\<exists>es. file_holds js (Some c) es \<and> chained cr js genesis_hash es \<and> sigs_ok cr (Some pk) es)"

definition buffer_clean :: "audit_log \<Rightarrow> bool" where
  "buffer_clean l \<longleftrightarrow> list_all entry_clean (log_entries l) \<and>
     (case writer l of None \<Rightarrow> True | Some q \<Rightarrow> (\<forall>e. MsgEntry e \<in> set q \<longrightarrow> entry_clean e) \<and> length q \<le> queue_bound)"

definition archives_ok :: "crypto_lib \<Rightarrow> json_lib \<Rightarrow> string \<Rightarrow> dir_entry list \<Rightarrow> bool" where
  "archives_ok cr js pk d \<longleftrightarrow> (\<forall>x \<in> set d. is_archive_of chain_name (fst x) \<longrightarrow> chain_ok cr js pk (fst (snd x)))"

definition writer_ok :: "crypto_lib \<Rightarrow> json_lib \<Rightarrow> string set \<Rightarrow> string \<Rightarrow> writer_state \<Rightarrow> bool" where
  "writer_ok cr js keys pk w \<longleftrightarrow>
     (\<exists>a. ws_chain w = Some a \<and> audit_inv cr js keys pk (a, ws_chain_file w)) \<and> archives_ok cr js pk (ws_dir w)"

lemma list_all_tl: "list_all P xs \<Longrightarrow> list_all P (tl xs)"
  by (cases xs) auto

lemma record_buffer_clean: "buffer_clean l \<Longrightarrow> buffer_clean (record_entry e l)"
  using redact_entry_clean[of e]
  by (auto simp: buffer_clean_def record_entry_def Let_def list_all_tl split: option.splits)

lemma flush_buffer_clean: "buffer_clean l \<Longrightarrow> flush_send ack l = Some l' \<Longrightarrow> buffer_clean l'"
  by (auto simp: buffer_clean_def flush_send_def split: option.splits if_splits)

lemma turn_buffer_clean:
  "buffer_clean l \<Longrightarrow> writer l = Some q \<Longrightarrow> writer_turn cr js lc io limit name (q, w) = (acks, q', w') \<Longrightarrow>
   buffer_clean (l\<lparr>writer := Some q'\<rparr>)"
  by (auto simp: buffer_clean_def writer_turn_def split: list.splits writer_msg.splits)

lemma archives_ok_append [simp]: "archives_ok cr js pk (d @ d') \<longleftrightarrow> archives_ok cr js pk d \<and> archives_ok cr js pk d'"
  by (auto simp: archives_ok_def)

lemma archives_ok_cleanup: "archives_ok cr js pk d \<Longrightarrow> archives_ok cr js pk (cleanup_old_archives r u stem k d)"
  by (auto simp: archives_ok_def cleanup_old_archives_def Let_def)

lemma audit_inv_chain_ok: "audit_inv cr js keys pk (a, f) \<Longrightarrow> chain_ok cr js pk (file_content f)"
  by (auto simp: audit_inv_def chain_ok_def file_holds_def file_content_def split: option.splits)

lemma log_archive_not_chain: "\<not> is_archive_of chain_name (archive_name log_name n)"
  by (simp add: is_archive_of_def strip_prefix_def is_prefix_def chain_name_def archive_name_def log_name_def)

lemma rotate_file_cases:
  assumes "rotate_file out now name content d = (r, content', d')"
  obtains (same) "d' = d" "content' = content" "r \<noteq> Inr ()"
  | (partial) n k where "d' = d @ [(archive_name name n, take k content, Some now)]" "content' = content"
      "r \<noteq> Inr ()" "out = CopyFailed k"
  | (copied) n where "d' = d @ [(archive_name name n, content, Some now)]" "content' = content" "r \<noteq> Inr ()"
  | (rotated) n where "d' = d @ [(archive_name name n, content, Some now)]" "content' = []" "r = Inr ()"
proof -
  obtain x where x: "free_slot (length d + 1) d name 1 = Some x" using free_slot_found by blast
  obtain n where n: "x = archive_name name n" using free_slot_fresh[OF x] by blast
  note eq = assms[unfolded rotate_file_def x option.case n]
  show thesis
  proof (cases out)
    case RotateOk
    with eq show thesis by (intro rotated[of n]) auto
  next
    case SourceOpenFailed
    with eq show thesis by (intro same) auto
  next
    case ArchiveCreateFailed
    with eq show thesis by (intro same) auto
  next
    case (CopyFailed k)
    with eq show thesis by (intro partial[of n k]) auto
  next
    case TruncateFailed
    with eq show thesis by (intro copied[of n]) auto
  qed
qed

lemma rotate_log_archives:
  "archives_ok cr js pk d \<Longrightarrow> rotate_file out now log_name content d = (r, content', d') \<Longrightarrow> archives_ok cr js pk d'"
  by (elim rotate_file_cases) (auto simp: archives_ok_def log_archive_not_chain)

lemma append_ndjson_archives:
  assumes "append_ndjson_entry lc limit stat_ok rot now w log_name e f d = (r, f', d')" and "archives_ok cr js pk d"
  shows "archives_ok cr js pk d'"
proof -
  have opened: "archives_ok cr js pk x \<Longrightarrow>
    (case w of OpenFailed \<Rightarrow> (Inl (Storage ''open''), g, x)
      | _ \<Rightarrow> (case log_line lc e of
               None \<Rightarrow> (Inl (Serialization ''entry''), Some (file_content g), x)
             | Some line \<Rightarrow>
                 (case w of WriteTorn k \<Rightarrow> (Inl (Storage ''write''), Some (file_content g @ take k (line @ [CHR 0x0A])), x)
                  | _ \<Rightarrow> (Inr rotated, Some (file_content g @ line @ [CHR 0x0A]), x)))) = (r, f', d') \<Longrightarrow>
    archives_ok cr js pk d'" for g x rotated
    by (auto split: write_outcome.splits option.splits)
  show ?thesis
  proof (cases f)
    case None
    then show ?thesis using assms opened[of d] by (simp add: append_ndjson_entry_def)
  next
    case (Some content)
    obtain r1 c1 d1 where rot: "rotate_file rot now log_name content d = (r1, c1, d1)" by (metis prod_cases3)
    have d1: "archives_ok cr js pk d1" using rotate_log_archives[OF assms(2) rot] .
    show ?thesis
      using assms Some rot opened[of d] opened[of d1] d1
      by (cases r1) (auto simp: append_ndjson_entry_def split: if_splits)
  qed
qed

lemma open_chain_empty:
  assumes "open_chain cr js key True (Some []) = ch" and "case key of None \<Rightarrow> True | Some (kid, k) \<Rightarrow> k \<in> keys"
  shows "\<exists>a. ch = Some a \<and> audit_inv cr js keys pk (a, Some [])"
proof -
  have "str_lines [] = []" by (simp add: str_lines_def)
  with assms show ?thesis
    by (auto simp: open_chain_def auditor_new_def auditor_new_signed_def load_all_entries_def audit_inv_def
        file_holds_def file_content_def unlines_def last_hash_def sigs_ok_def split: option.splits)
qed

lemma rotate_chain_ok:
  assumes ok: "writer_ok cr js keys pk st" and io: "good_io keys io"
    and rot: "rotate_chain_if_needed cr js io limit st = (r, st')"
  shows "writer_ok cr js keys pk st'"
proof -
  obtain a where a: "ws_chain st = Some a" "audit_inv cr js keys pk (a, ws_chain_file st)"
    and d: "archives_ok cr js pk (ws_dir st)" using ok by (auto simp: writer_ok_def)
  show ?thesis
  proof (cases "ws_chain_file st")
    case None
    then show ?thesis using rot ok a by (simp add: rotate_chain_if_needed_def)
  next
    case (Some content)
    obtain r1 c1 d1 where rf: "rotate_file (io_chain_rotate io) (io_mtime io) chain_name content (ws_dir st) = (r1, c1, d1)"
      by (metis prod_cases3)
    have c: "chain_ok cr js pk content" using audit_inv_chain_ok[OF a(2)] Some by (simp add: file_content_def)
    have kept: "archives_ok cr js pk d1 \<and> (r1 \<noteq> Inr () \<longrightarrow> c1 = content) \<and> (r1 = Inr () \<longrightarrow> c1 = [])"
      using rf
    proof (cases rule: rotate_file_cases)
      case (partial n k)
      then show ?thesis using io by (auto simp: good_io_def)
    qed (use d c in \<open>auto simp: archives_ok_def\<close>)
    show ?thesis
    proof (cases "\<not> io_chain_stat io \<or> length content \<le> limit")
      case True
      then show ?thesis using rot ok a Some by (auto simp: rotate_chain_if_needed_def split: if_splits)
    next
      case False
      show ?thesis
      proof (cases r1)
        case (Inl err)
        then have "st' = st\<lparr>ws_chain_file := Some content, ws_dir := d1\<rparr>"
          using rot a Some rf False kept by (simp add: rotate_chain_if_needed_def)
        then show ?thesis using a kept Some by (simp add: writer_ok_def)
      next
        case (Inr u)
        then have "st' = st\<lparr>ws_chain_file := Some [], ws_dir := d1,
            ws_chain := open_chain cr js (io_key io) (io_chain_read io) (Some [])\<rparr>"
          using rot a Some rf False kept by (simp add: rotate_chain_if_needed_def)
        moreover have "\<exists>a. open_chain cr js (io_key io) (io_chain_read io) (Some []) = Some a \<and> audit_inv cr js keys pk (a, Some [])"
          using open_chain_empty[of cr js "io_key io" _ keys pk] io by (simp add: good_io_def)
        ultimately show ?thesis using kept by (simp add: writer_ok_def)
      qed
    qed
  qed
qed

lemma chain_persisted_ok:
  assumes ok: "writer_ok cr js keys pk st" and io: "good_io keys io" and keys: "\<forall>key \<in> keys. sign_law cr pk key"
  shows "writer_ok cr js keys pk (chain_persisted cr js lc io limit e st)"
proof -
  obtain a where a: "ws_chain st = Some a" "audit_inv cr js keys pk (a, ws_chain_file st)"
    and d: "archives_ok cr js pk (ws_dir st)" using ok by (auto simp: writer_ok_def)
  define st1 where "st1 = (case log_value lc e of
      None \<Rightarrow> st
    | Some p \<Rightarrow> (case append_entry cr js (io_uuid io) (io_now_ms io) (io_chain_write io) p (a, ws_chain_file st) of
                  (_, a', f') \<Rightarrow> st\<lparr>ws_chain := Some a', ws_chain_file := f'\<rparr>))"
  have st1: "writer_ok cr js keys pk st1"
  proof (cases "log_value lc e")
    case None
    then show ?thesis using ok by (simp add: st1_def)
  next
    case (Some p)
    obtain r a' f' where app: "append_entry cr js (io_uuid io) (io_now_ms io) (io_chain_write io) p (a, ws_chain_file st) = (r, a', f')"
      by (metis prod_cases3)
    have "audit_inv cr js keys pk (a', f')"
      using append_entry_inv[OF a(2) keys app] io by (simp add: good_io_def)
    then show ?thesis using Some app d by (simp add: st1_def writer_ok_def)
  qed
  obtain r2 st2 where rot: "rotate_chain_if_needed cr js io limit st1 = (r2, st2)" by (metis surj_pair)
  have st2: "writer_ok cr js keys pk st2" using rotate_chain_ok[OF st1 io rot] .
  have "chain_persisted cr js lc io limit e st = (if r2 = Inr True
      then st2\<lparr>ws_dir := cleanup_old_archives (io_dir_read io) (io_undeletable io) chain_name max_archives (ws_dir st2)\<rparr>
      else st2)"
    using rot a(1) by (auto simp: chain_persisted_def st1_def[symmetric] split: sum.splits bool.splits)
  with st2 show ?thesis by (auto simp: writer_ok_def archives_ok_cleanup)
qed

lemma write_one_ok:
  assumes ok: "writer_ok cr js keys pk st" and io: "good_io keys io" and keys: "\<forall>key \<in> keys. sign_law cr pk key"
  shows "writer_ok cr js keys pk (write_one cr js lc io limit log_name e st)"
proof -
  obtain r f d where app: "append_ndjson_entry lc limit (io_log_stat io) (io_log_rotate io) (io_mtime io) (io_log_write io)
      log_name e (ws_log st) (ws_dir st) = (r, f, d)" by (metis prod_cases3)
  have d: "archives_ok cr js pk d"
    using append_ndjson_archives[OF app] ok by (simp add: writer_ok_def)
  show ?thesis
  proof (cases r)
    case (Inl err)
    then show ?thesis using app ok d by (simp add: write_one_def writer_ok_def)
  next
    case (Inr rotated)
    then show ?thesis
      using app ok d chain_persisted_ok[OF _ io keys]
      by (simp add: write_one_def writer_ok_def archives_ok_cleanup)
  qed
qed

definition sink_inv :: "crypto_lib \<Rightarrow> json_lib \<Rightarrow> string set \<Rightarrow> string \<Rightarrow> audit_log \<times> writer_state \<Rightarrow> bool" where
  "sink_inv cr js keys pk st \<longleftrightarrow> buffer_clean (fst st) \<and>
     ((\<forall>key \<in> keys. sign_law cr pk key) \<longrightarrow> writer_ok cr js keys pk (snd st))"

interpretation sink_sys: invariant_system "sink_step cr js lc limit keys" "sink_inv cr js keys pk"
  for cr js lc limit keys pk
proof (unfold_locales)
  fix st st'
  assume inv: "sink_inv cr js keys pk st" and step: "sink_step cr js lc limit keys st st'"
  show "sink_inv cr js keys pk st'"
    using step
  proof cases
    case (ss_record l w e)
    then show ?thesis using inv by (simp add: sink_inv_def record_buffer_clean)
  next
    case (ss_flush ack l l' w)
    then show ?thesis using inv flush_buffer_clean by (auto simp: sink_inv_def)
  next
    case (ss_clear l w)
    then show ?thesis using inv by (auto simp: sink_inv_def buffer_clean_def clear_log_def split: option.splits)
  next
    case (ss_turn l q io w acks q' w')
    have "writer_ok cr js keys pk w'" if k: "\<forall>key \<in> keys. sign_law cr pk key"
    proof -
      have w: "writer_ok cr js keys pk w" using inv k ss_turn(1) by (simp add: sink_inv_def)
      show ?thesis
        using ss_turn(5) w write_one_ok[OF w ss_turn(4) k]
        by (auto simp: writer_turn_def split: list.splits writer_msg.splits)
    qed
    moreover have "buffer_clean (l\<lparr>writer := Some q'\<rparr>)"
      using turn_buffer_clean[OF _ ss_turn(3,5)] inv ss_turn(1) by (simp add: sink_inv_def)
    ultimately show ?thesis using ss_turn(2) by (simp add: sink_inv_def)
  qed
qed

text \<open>The sink that starts in an empty directory.\<close>

definition sink_start :: "crypto_lib \<Rightarrow> json_lib \<Rightarrow> (string \<times> string) option \<Rightarrow> nat \<Rightarrow> audit_log \<times> writer_state" where
  "sink_start cr js key n =
     (new_with_path n,
      \<lparr>ws_log = None, ws_chain_file = None, ws_chain = open_chain cr js key True None, ws_dir = []\<rparr>)"

lemma sink_start_inv:
  "case key of None \<Rightarrow> True | Some (kid, k) \<Rightarrow> k \<in> keys \<Longrightarrow> sink_inv cr js keys pk (sink_start cr js key n)"
  by (auto simp: sink_inv_def sink_start_def new_with_path_def buffer_clean_def writer_ok_def archives_ok_def
      open_chain_def auditor_new_def auditor_new_signed_def load_all_entries_def audit_inv_def
      file_holds_def file_content_def unlines_def last_hash_def sigs_ok_def split: option.splits)

lemma chain_ok_verifies:
  "codec_ok js \<Longrightarrow> chain_ok cr js pk c \<Longrightarrow> verify_integrity cr js True (Some pk) (Some c) = Inr []"
  by (auto simp: chain_ok_def verify_integrity_def load_file_holds verify_clean_iff)

lemma audit_inv_verifies:
  "codec_ok js \<Longrightarrow> audit_inv cr js keys pk (a, f) \<Longrightarrow> verify_integrity cr js True (Some pk) f = Inr []"
  by (auto simp: audit_inv_def verify_integrity_def load_file_holds verify_clean_iff)

text \<open>C29: Start the sink in an empty directory; then record entries, flush, clear, and let the writer take messages,
  in any order, with rotations of both files, clean-up of archives, and system calls that fail (the chain file and its archives excepted from torn writes).
  Nothing that waits in the buffer or in the queue exposes a secret, the queue never holds
  more than its bound, the current chain file verifies, and so does every archived one.\<close>

theorem audit_sink_sound:
  assumes codec: "codec_ok js" and keys: "\<forall>k \<in> keys. sign_law cr pk k"
    and key: "case key of None \<Rightarrow> True | Some (kid, k) \<Rightarrow> k \<in> keys"
    and run: "(sink_step cr js lc limit keys)\<^sup>*\<^sup>* (sink_start cr js key n) (l, w)"
  shows "list_all entry_clean (log_entries l) \<and>
    (\<forall>q. writer l = Some q \<longrightarrow> length q \<le> queue_bound \<and> (\<forall>e. MsgEntry e \<in> set q \<longrightarrow> entry_clean e)) \<and>
    verify_integrity cr js True (Some pk) (ws_chain_file w) = Inr [] \<and>
    (\<forall>x \<in> set (ws_dir w). is_archive_of chain_name (fst x) \<longrightarrow>
       verify_integrity cr js True (Some pk) (Some (fst (snd x))) = Inr [])"
proof -
  have inv: "sink_inv cr js keys pk (l, w)"
    by (rule sink_sys.run_inv[OF run]) (rule sink_start_inv[OF key])
  then have w: "writer_ok cr js keys pk w" and b: "buffer_clean l" using keys by (auto simp: sink_inv_def)
  then show ?thesis
    using codec by (auto simp: writer_ok_def buffer_clean_def archives_ok_def audit_inv_verifies chain_ok_verifies
        split: option.splits)
qed

definition toy_log :: log_codec where
  "toy_log = \<lparr>log_line = (\<lambda>_. Some ''l''), log_value = (\<lambda>_. Some JNull)\<rparr>"

definition toy_io :: writer_io where
  "toy_io = \<lparr>io_log_stat = True, io_log_rotate = RotateOk, io_log_write = WriteOk, io_uuid = replicate 36 (CHR ''u''),
     io_now_ms = 5, io_mtime = 9, io_chain_write = WriteOk, io_chain_stat = True, io_chain_rotate = RotateOk,
     io_chain_read = True, io_key = None, io_dir_read = True, io_undeletable = []\<rparr>"

lemma toy_start: "open_chain toy_crypto toy_json None True None = Some fresh_auditor"
  by (simp add: open_chain_def auditor_new_def load_all_entries_def fresh_auditor_def)

lemma toy_write:
  "write_one toy_crypto toy_json toy_log toy_io 1 log_name e (snd (sink_start toy_crypto toy_json None 1)) =
     \<lparr>ws_log = Some (''l'' @ [CHR 0x0A]), ws_chain_file = Some [], ws_chain = Some fresh_auditor,
      ws_dir = [(archive_name chain_name 1, ''x'' @ [CHR 0x0A], Some 9)]\<rparr>"
proof -
  have e: "open_chain toy_crypto toy_json None True (Some []) = Some fresh_auditor"
    by (simp add: open_chain_def auditor_new_def load_all_entries_def fresh_auditor_def str_lines_def)
  have r: "rotate_file RotateOk 9 chain_name (''x'' @ [CHR 0x0A]) [] =
      (Inr (), [], [(archive_name chain_name 1, ''x'' @ [CHR 0x0A], Some 9)])"
    by (simp add: rotate_file_def)
  have c: "cleanup_old_archives True [] chain_name max_archives [x] = [x]" for x
    by (simp add: cleanup_old_archives_def max_archives_def)
  show ?thesis
    using e r c toy_append
    by (simp add: write_one_def append_ndjson_entry_def sink_start_def toy_start toy_log_def toy_io_def
        chain_persisted_def rotate_chain_if_needed_def file_content_def)
qed

lemma audit_sink_sound_witness:
  "\<exists>w. (sink_step toy_crypto toy_json toy_log 1 {})\<^sup>*\<^sup>* (sink_start toy_crypto toy_json None 1)
      ((record_entry (sample_entry ''t'' JNull) (new_with_path 1))\<lparr>writer := Some []\<rparr>, w) \<and>
     length (ws_dir w) = 1 \<and> verify_integrity toy_crypto toy_json True (Some []) (ws_chain_file w) = Inr [] \<and>
     verify_integrity toy_crypto toy_json True (Some []) (Some (fst (snd (hd (ws_dir w))))) = Inr []"
proof -
  let ?st = "sink_start toy_crypto toy_json None 1"
  let ?e = "sample_entry ''t'' JNull"
  let ?l = "record_entry ?e (new_with_path 1)"
  let ?w = "write_one toy_crypto toy_json toy_log toy_io 1 log_name (redact_entry ?e) (snd ?st)"
  have q: "writer ?l = Some [MsgEntry (redact_entry ?e)]"
    by (simp add: record_entry_def new_with_path_def queue_bound_def Let_def)
  have "sink_step toy_crypto toy_json toy_log 1 {} ?st (?l, snd ?st)"
    using ss_record[of toy_crypto toy_json toy_log 1 "{}" "new_with_path 1" "snd ?st" ?e]
    by (simp add: sink_start_def)
  moreover have "sink_step toy_crypto toy_json toy_log 1 {} (?l, snd ?st) (?l\<lparr>writer := Some []\<rparr>, ?w)"
    by (rule ss_turn[OF q, where io = toy_io]) (simp_all add: good_io_def toy_io_def writer_turn_def)
  ultimately have run: "(sink_step toy_crypto toy_json toy_log 1 {})\<^sup>*\<^sup>* ?st (?l\<lparr>writer := Some []\<rparr>, ?w)" by simp
  have a: "is_archive_of chain_name (archive_name chain_name 1)" by code_simp
  from audit_sink_sound[OF toy_codec_ok _ _ run, of "[]"] a run show ?thesis
    by (intro exI[of _ ?w]) (simp add: toy_write del: One_nat_def)
qed

text \<open>Redaction does not look into arrays: a password in an object that is an element of an array is
  buffered and persisted as it was given.\<close>

theorem redaction_skips_arrays:
  "log_entries (record_entry (sample_entry t (JObject [(''headers'', JArray [JObject [(''password'', v)]])])) (audit_log_new 1)) =
     [sample_entry t (JObject [(''headers'', JArray [JObject [(''password'', v)]])])]"
proof -
  have "\<not> sensitive_key ''headers''" by code_simp
  then show ?thesis by (simp add: record_entry_def audit_log_new_def redact_entry_def sample_entry_def Let_def)
qed

end
