(* ===== verification/SecurityGovernor.thy ===== *)
theory SecurityGovernor
  imports AuditLog
begin

text \<open>
  The policy engine, \<open>src/governance/security_governor.rs\<close>: conditions on the resource, the actor and
  the request's attributes, policies in the order of their registration, the verdict of the first
  that matches or of the default, and the counters. The regular expression library is an argument;
  the process-wide cache of compiled patterns is threaded through every evaluation. A localised
  message is its key with its arguments. The mutex is poisoned when a thread panicked while it held it.
\<close>

section \<open>Actions and conditions\<close>

datatype policy_action = ActAllow | ActDeny | ActRequireReview | ActEscalate

fun action_to_string :: "policy_action \<Rightarrow> string" where
  "action_to_string ActAllow = ''allow''"
| "action_to_string ActDeny = ''deny''"
| "action_to_string ActRequireReview = ''require_review''"
| "action_to_string ActEscalate = ''escalate''"

datatype condition_operator =
    OpEquals | OpNotEquals | OpContains | OpStartsWith | OpEndsWith | OpMatches | OpIn | OpNotIn

fun operator_to_string :: "condition_operator \<Rightarrow> string" where
  "operator_to_string OpEquals = ''eq''"
| "operator_to_string OpNotEquals = ''ne''"
| "operator_to_string OpContains = ''contains''"
| "operator_to_string OpStartsWith = ''starts_with''"
| "operator_to_string OpEndsWith = ''ends_with''"
| "operator_to_string OpMatches = ''matches''"
| "operator_to_string OpIn = ''in''"
| "operator_to_string OpNotIn = ''not_in''"

record policy_condition =
  pc_field :: string
  pc_operator :: condition_operator
  pc_value :: string

text \<open>The library: compile a pattern, match, escape.\<close>

record 're regex_lib =
  re_new :: "string \<Rightarrow> 're option"
  re_is_match :: "'re \<Rightarrow> string \<Rightarrow> bool"
  re_escape :: "string \<Rightarrow> string"

type_synonym 're regex_cache = "(string, 're option) hmap"

definition compile_matcher :: "'re regex_lib \<Rightarrow> string \<Rightarrow> 're option" where
  "compile_matcher lib pattern =
     (let glob = (if str_contains pattern ''*''
                  then re_new lib (''^'' @ str_replace [CHR 0x5C, CHR ''*''] ''.*'' (re_escape lib pattern) @ ''$'')
                  else None)
      in case glob of Some re \<Rightarrow> Some re | None \<Rightarrow> re_new lib pattern)"

definition regex_match ::
  "'re regex_lib \<Rightarrow> 're regex_cache \<Rightarrow> string \<Rightarrow> string \<Rightarrow> bool \<times> 're regex_cache" where
  "regex_match lib cache haystack pattern =
     (let cache = (if length cache > 128 then [] else cache);
          (compiled, cache) =
            (case hm_get cache pattern of
               Some c \<Rightarrow> (c, cache)
             | None \<Rightarrow> (let c = compile_matcher lib pattern in (c, hm_insert pattern c cache)))
      in (case compiled of Some re \<Rightarrow> re_is_match lib re haystack | None \<Rightarrow> haystack = pattern, cache))"

definition field_value :: "policy_condition \<Rightarrow> string \<Rightarrow> string \<Rightarrow> (string, string) hmap \<Rightarrow> string option" where
  "field_value c resource actor ctx =
     (if pc_field c = ''resource'' then Some resource
      else if pc_field c = ''actor'' then Some actor
      else hm_get ctx (pc_field c))"

definition evaluate_condition ::
  "'re regex_lib \<Rightarrow> policy_condition \<Rightarrow> string \<Rightarrow> string \<Rightarrow> (string, string) hmap \<Rightarrow> 're regex_cache \<Rightarrow>
   bool \<times> 're regex_cache" where
  "evaluate_condition lib c resource actor ctx cache =
     (case field_value c resource actor ctx of
        None \<Rightarrow> (False, cache)
      | Some haystack \<Rightarrow>
          (case pc_operator c of
             OpEquals \<Rightarrow> (haystack = pc_value c, cache)
           | OpNotEquals \<Rightarrow> (haystack \<noteq> pc_value c, cache)
           | OpContains \<Rightarrow> (str_contains haystack (pc_value c), cache)
           | OpStartsWith \<Rightarrow> (is_prefix (pc_value c) haystack, cache)
           | OpEndsWith \<Rightarrow> (strip_suffix (pc_value c) haystack \<noteq> None, cache)
           | OpMatches \<Rightarrow> regex_match lib cache haystack (pc_value c)
           | OpIn \<Rightarrow> (list_ex (\<lambda>v. trim v = haystack) (split_on (CHR '','') (pc_value c)), cache)
           | OpNotIn \<Rightarrow> (list_all (\<lambda>v. trim v \<noteq> haystack) (split_on (CHR '','') (pc_value c)), cache)))"

section \<open>Policies\<close>

datatype policy_composition = CompAnd | CompOr

datatype detection_severity = SevLow | SevMedium | SevHigh | SevCritical

record security_policy =
  sp_id :: string
  sp_name :: string
  sp_description :: string
  sp_severity :: detection_severity
  sp_action :: policy_action
  sp_conditions :: "policy_condition list"
  sp_composition :: policy_composition
  sp_escalation_level :: "string option"

text \<open>\<open>Iterator::all\<close> and \<open>any\<close>: they stop at the first condition that decides.\<close>

fun all_conditions ::
  "'re regex_lib \<Rightarrow> policy_condition list \<Rightarrow> string \<Rightarrow> string \<Rightarrow> (string, string) hmap \<Rightarrow> 're regex_cache \<Rightarrow>
   bool \<times> 're regex_cache" where
  "all_conditions lib [] resource actor ctx cache = (True, cache)"
| "all_conditions lib (c # cs) resource actor ctx cache =
     (case evaluate_condition lib c resource actor ctx cache of
        (True, cache) \<Rightarrow> all_conditions lib cs resource actor ctx cache
      | (False, cache) \<Rightarrow> (False, cache))"

fun any_condition ::
  "'re regex_lib \<Rightarrow> policy_condition list \<Rightarrow> string \<Rightarrow> string \<Rightarrow> (string, string) hmap \<Rightarrow> 're regex_cache \<Rightarrow>
   bool \<times> 're regex_cache" where
  "any_condition lib [] resource actor ctx cache = (False, cache)"
| "any_condition lib (c # cs) resource actor ctx cache =
     (case evaluate_condition lib c resource actor ctx cache of
        (True, cache) \<Rightarrow> (True, cache)
      | (False, cache) \<Rightarrow> any_condition lib cs resource actor ctx cache)"

definition policy_matches ::
  "'re regex_lib \<Rightarrow> security_policy \<Rightarrow> string \<Rightarrow> string \<Rightarrow> (string, string) hmap \<Rightarrow> 're regex_cache \<Rightarrow>
   bool \<times> 're regex_cache" where
  "policy_matches lib p resource actor ctx cache =
     (if sp_conditions p = [] then (False, cache)
      else (case sp_composition p of
              CompAnd \<Rightarrow> all_conditions lib (sp_conditions p) resource actor ctx cache
            | CompOr \<Rightarrow> any_condition lib (sp_conditions p) resource actor ctx cache))"

section \<open>Verdicts and audit entries\<close>

datatype gov_message = Translated string "(string \<times> string) list" | Verbatim string

record policy_verdict =
  pv_allowed :: bool
  pv_required_review :: bool
  pv_escalation_level :: string
  pv_matched_policy :: "string option"
  pv_reasons :: "gov_message list"

definition verdict_allow :: policy_verdict where
  "verdict_allow =
     \<lparr>pv_allowed = True, pv_required_review = False, pv_escalation_level = ''normal'', pv_matched_policy = None,
      pv_reasons = [Translated ''error.security_governor.allowed_default'' []]\<rparr>"

definition verdict_deny :: "string \<Rightarrow> string \<Rightarrow> policy_verdict" where
  "verdict_deny policy reason =
     \<lparr>pv_allowed = False, pv_required_review = False, pv_escalation_level = ''normal'', pv_matched_policy = Some policy,
      pv_reasons = [Translated ''error.security_governor.denied_by_policy'' [(''name'', policy)], Verbatim reason]\<rparr>"

definition verdict_require_review :: "string \<Rightarrow> string \<Rightarrow> policy_verdict" where
  "verdict_require_review policy reason =
     \<lparr>pv_allowed = True, pv_required_review = True, pv_escalation_level = ''normal'', pv_matched_policy = Some policy,
      pv_reasons = [Translated ''error.security_governor.review_required'' [(''name'', policy)], Verbatim reason]\<rparr>"

definition verdict_escalate :: "string \<Rightarrow> string \<Rightarrow> string \<Rightarrow> policy_verdict" where
  "verdict_escalate policy level reason =
     \<lparr>pv_allowed = True, pv_required_review = False, pv_escalation_level = level, pv_matched_policy = Some policy,
      pv_reasons = [Translated ''error.security_governor.escalated_by_policy'' [(''name'', policy)], Verbatim reason]\<rparr>"

record gov_audit_entry =
  ga_timestamp :: int
  ga_policy_id :: string
  ga_verdict :: policy_verdict
  ga_resource :: string
  ga_actor :: string
  ga_detail :: string

definition gov_audit_entry_new ::
  "int \<Rightarrow> string \<Rightarrow> policy_verdict \<Rightarrow> string \<Rightarrow> string \<Rightarrow> string \<Rightarrow> gov_audit_entry" where
  "gov_audit_entry_new now policy_id verdict resource actor detail =
     \<lparr>ga_timestamp = now, ga_policy_id = policy_id, ga_verdict = verdict, ga_resource = resource,
      ga_actor = actor, ga_detail = detail\<rparr>"

definition show_int :: "int \<Rightarrow> string" where
  "show_int i = (if i < 0 then ''-'' @ show_nat (nat (- i)) else show_nat (nat i))"

definition show_bool :: "bool \<Rightarrow> string" where
  "show_bool b = (if b then ''true'' else ''false'')"

definition to_log_entry :: "gov_audit_entry \<Rightarrow> audit_log_entry" where
  "to_log_entry e =
     \<lparr>al_timestamp = show_int (ga_timestamp e), al_task_id = ga_policy_id e, al_phase = ''security_governor'',
      al_agent = Some (ga_actor e), al_tool = None,
      al_decision = ''allowed='' @ show_bool (pv_allowed (ga_verdict e)) @ '' escalation='' @
        pv_escalation_level (ga_verdict e),
      al_inputs = JObject [(''resource'', JString (ga_resource e)), (''detail'', JString (ga_detail e))],
      al_outputs = None, al_error = None, al_confidence = None, al_data_classification = None,
      al_compliance_tags = [], al_retention_policy = None, al_correlation_id = None\<rparr>"

section \<open>The governor\<close>

record governor_config =
  gc_enabled :: bool
  gc_default_action :: policy_action
  gc_policy_mode :: string
  gc_default_policies :: "security_policy list"

definition governor_config_default :: governor_config where
  "governor_config_default =
     \<lparr>gc_enabled = True, gc_default_action = ActAllow, gc_policy_mode = [], gc_default_policies = []\<rparr>"

record security_governor =
  sg_config :: governor_config
  sg_policies :: "(string, security_policy) hmap"
  sg_total_evaluations :: u64
  sg_total_denials :: u64
  sg_total_reviews :: u64
  sg_active_escalations :: u64
  sg_poisoned :: bool

record governor_profile =
  gp_enabled :: bool
  gp_policies_count :: u64
  gp_total_evaluations :: u64
  gp_total_denials :: u64
  gp_total_reviews :: u64
  gp_active_escalations :: u64

text \<open>An \<open>IndexMap\<close> keeps the order of insertion: replacing a value keeps its place, \<open>shift_remove\<close> closes the gap.\<close>

definition register_policy ::
  "security_policy \<Rightarrow> security_governor \<Rightarrow> security_policy option \<times> security_governor" where
  "register_policy p g =
     (hm_get (sg_policies g) (sp_id p), g\<lparr>sg_policies := hm_insert (sp_id p) p (sg_policies g)\<rparr>)"

definition remove_policy :: "string \<Rightarrow> security_governor \<Rightarrow> bool \<times> security_governor" where
  "remove_policy i g =
     (hm_get (sg_policies g) i \<noteq> None, g\<lparr>sg_policies := hm_remove i (sg_policies g)\<rparr>)"

definition contains_on :: "string \<Rightarrow> string \<Rightarrow> policy_condition" where
  "contains_on field v = \<lparr>pc_field = field, pc_operator = OpContains, pc_value = v\<rparr>"

definition deny_unknown_resource :: security_policy where
  "deny_unknown_resource =
     \<lparr>sp_id = ''deny-unknown-resource'', sp_name = ''Deny Unknown Resource'',
      sp_description = ''Denies access when no specific policy matches'', sp_severity = SevHigh,
      sp_action = ActDeny, sp_conditions = [], sp_composition = CompAnd, sp_escalation_level = None\<rparr>"

definition deny_sensitive_data :: security_policy where
  "deny_sensitive_data =
     \<lparr>sp_id = ''deny-sensitive-data'', sp_name = ''Deny Sensitive Data'',
      sp_description = ''Blocks access to resources containing secret, password, credential, or token'',
      sp_severity = SevHigh, sp_action = ActDeny,
      sp_conditions = map (contains_on ''resource'') [''secret'', ''password'', ''credential'', ''token''],
      sp_composition = CompOr, sp_escalation_level = None\<rparr>"

definition require_review_admin_actions :: security_policy where
  "require_review_admin_actions =
     \<lparr>sp_id = ''require-review-admin-actions'', sp_name = ''Require Review for Admin Actions'',
      sp_description = ''Requires review for actions containing admin or delete'', sp_severity = SevMedium,
      sp_action = ActRequireReview, sp_conditions = map (contains_on ''action'') [''admin'', ''delete''],
      sp_composition = CompOr, sp_escalation_level = None\<rparr>"

definition register_default_policies :: "security_governor \<Rightarrow> security_governor" where
  "register_default_policies g =
     fold (\<lambda>p g. snd (register_policy p g))
       [deny_unknown_resource, deny_sensitive_data, require_review_admin_actions] g"

definition security_governor_new :: "governor_config \<Rightarrow> security_governor" where
  "security_governor_new config =
     (let g = \<lparr>sg_config = config, sg_policies = [], sg_total_evaluations = 0, sg_total_denials = 0,
               sg_total_reviews = 0, sg_active_escalations = 0, sg_poisoned = False\<rparr>
      in if gc_default_policies config = [] then register_default_policies g
         else fold (\<lambda>p g. snd (register_policy p g)) (gc_default_policies config) g)"

section \<open>Evaluation\<close>

fun first_match ::
  "'re regex_lib \<Rightarrow> security_policy list \<Rightarrow> string \<Rightarrow> string \<Rightarrow> (string, string) hmap \<Rightarrow> 're regex_cache \<Rightarrow>
   security_policy option \<times> 're regex_cache" where
  "first_match lib [] resource actor ctx cache = (None, cache)"
| "first_match lib (p # ps) resource actor ctx cache =
     (case policy_matches lib p resource actor ctx cache of
        (True, cache) \<Rightarrow> (Some p, cache)
      | (False, cache) \<Rightarrow> first_match lib ps resource actor ctx cache)"

definition matched_verdict :: "security_policy \<Rightarrow> policy_verdict" where
  "matched_verdict p =
     (case sp_action p of
        ActAllow \<Rightarrow>
          \<lparr>pv_allowed = True, pv_required_review = False, pv_escalation_level = ''normal'', pv_matched_policy = Some (sp_id p),
           pv_reasons = [Translated ''error.security_governor.allowed_by_policy'' [(''name'', sp_name p)]]\<rparr>
      | ActDeny \<Rightarrow>
          \<lparr>pv_allowed = False, pv_required_review = False, pv_escalation_level = ''normal'', pv_matched_policy = Some (sp_id p),
           pv_reasons = [Translated ''error.security_governor.denied_by_policy'' [(''name'', sp_name p)]]\<rparr>
      | ActRequireReview \<Rightarrow>
          \<lparr>pv_allowed = True, pv_required_review = True, pv_escalation_level = ''normal'', pv_matched_policy = Some (sp_id p),
           pv_reasons = [Translated ''error.security_governor.review_required'' [(''name'', sp_name p)]]\<rparr>
      | ActEscalate \<Rightarrow>
          \<lparr>pv_allowed = True, pv_required_review = False,
           pv_escalation_level = (case sp_escalation_level p of Some l \<Rightarrow> l | None \<Rightarrow> ''elevated''),
           pv_matched_policy = Some (sp_id p),
           pv_reasons = [Translated ''error.security_governor.escalated_by_policy'' [(''name'', sp_name p)]]\<rparr>)"

definition default_verdict :: "security_governor \<Rightarrow> policy_verdict" where
  "default_verdict g =
     (let use_catch_all = (hm_contains (sg_policies g) ''deny-unknown-resource'' \<and>
                           gc_default_action (sg_config g) = ActAllow)
      in case gc_default_action (sg_config g) of
           ActAllow \<Rightarrow>
             if use_catch_all
             then \<lparr>pv_allowed = False, pv_required_review = False, pv_escalation_level = ''normal'',
                   pv_matched_policy = Some ''deny-unknown-resource'',
                   pv_reasons = [Translated ''error.security_governor.no_match_denied'' []]\<rparr>
             else \<lparr>pv_allowed = True, pv_required_review = False, pv_escalation_level = ''normal'', pv_matched_policy = None,
                   pv_reasons = [Translated ''error.security_governor.no_match_allowed'' []]\<rparr>
         | ActDeny \<Rightarrow>
             \<lparr>pv_allowed = False, pv_required_review = False, pv_escalation_level = ''normal'', pv_matched_policy = None,
              pv_reasons = [Translated ''error.security_governor.no_match_denied'' []]\<rparr>
         | ActRequireReview \<Rightarrow>
             \<lparr>pv_allowed = True, pv_required_review = True, pv_escalation_level = ''normal'', pv_matched_policy = None,
              pv_reasons = [Translated ''error.security_governor.no_match_review'' []]\<rparr>
         | ActEscalate \<Rightarrow>
             \<lparr>pv_allowed = True, pv_required_review = False, pv_escalation_level = ''elevated'', pv_matched_policy = None,
              pv_reasons = [Translated ''error.security_governor.no_match_escalated'' []]\<rparr>)"

definition do_evaluate ::
  "'re regex_lib \<Rightarrow> security_governor \<Rightarrow> string \<Rightarrow> string \<Rightarrow> (string, string) hmap \<Rightarrow> 're regex_cache \<Rightarrow>
   policy_verdict \<times> 're regex_cache" where
  "do_evaluate lib g resource actor ctx cache =
     (case first_match lib (map snd (sg_policies g)) resource actor ctx cache of
        (Some p, cache) \<Rightarrow> (matched_verdict p, cache)
      | (None, cache) \<Rightarrow> (default_verdict g, cache))"

datatype governor_error = LockPoisoned

definition evaluate ::
  "'re regex_lib \<Rightarrow> string \<Rightarrow> string \<Rightarrow> (string, string) hmap \<Rightarrow> security_governor \<times> 're regex_cache \<Rightarrow>
   (governor_error + policy_verdict) \<times> security_governor \<times> 're regex_cache" where
  "evaluate lib resource actor ctx st =
     (let (g, cache) = st in
      if sg_poisoned g then (Inl LockPoisoned, g, cache)
      else
        let g = g\<lparr>sg_total_evaluations := sg_total_evaluations g + 1\<rparr> in
        if \<not> gc_enabled (sg_config g) then (Inr verdict_allow, g, cache)
        else
          let (v, cache) = do_evaluate lib g resource actor ctx cache in
          if gc_policy_mode (sg_config g) = ''advisory'' then (Inr verdict_allow, g, cache)
          else (Inr v, g, cache))"

definition record_audit_counters :: "gov_audit_entry \<Rightarrow> security_governor \<Rightarrow> security_governor" where
  "record_audit_counters e g =
     (let v = ga_verdict e;
          g = (if \<not> pv_allowed v then g\<lparr>sg_total_denials := sg_total_denials g + 1\<rparr> else g);
          g = (if pv_required_review v then g\<lparr>sg_total_reviews := sg_total_reviews g + 1\<rparr> else g)
      in if pv_escalation_level v \<noteq> ''normal''
         then g\<lparr>sg_active_escalations := sg_active_escalations g + 1\<rparr> else g)"

definition record_audit :: "gov_audit_entry \<Rightarrow> security_governor \<times> audit_log \<Rightarrow> security_governor \<times> audit_log" where
  "record_audit e st = (record_audit_counters e (fst st), record_entry (to_log_entry e) (snd st))"

definition policy_mode :: "security_governor \<Rightarrow> string" where
  "policy_mode g = gc_policy_mode (sg_config g)"

definition policies_count :: "security_governor \<Rightarrow> u64" where
  "policies_count g = (if sg_poisoned g then 0 else of_nat (length (sg_policies g)))"

definition profile :: "security_governor \<Rightarrow> governor_profile" where
  "profile g =
     \<lparr>gp_enabled = gc_enabled (sg_config g), gp_policies_count = of_nat (length (sg_policies g)),
      gp_total_evaluations = sg_total_evaluations g, gp_total_denials = sg_total_denials g,
      gp_total_reviews = sg_total_reviews g, gp_active_escalations = sg_active_escalations g\<rparr>"

section \<open>The cache never changes a decision\<close>

text \<open>A pattern with a star is read as a glob when that compiles, then as a regular expression, then as plain text.\<close>

definition pattern_holds :: "'re regex_lib \<Rightarrow> string \<Rightarrow> string \<Rightarrow> bool" where
  "pattern_holds lib haystack pattern =
     (case (if str_contains pattern ''*''
            then re_new lib (''^'' @ str_replace [CHR 0x5C, CHR ''*''] ''.*'' (re_escape lib pattern) @ ''$'') else None) of
        Some re \<Rightarrow> re_is_match lib re haystack
      | None \<Rightarrow>
          (case re_new lib pattern of Some re \<Rightarrow> re_is_match lib re haystack | None \<Rightarrow> haystack = pattern))"

definition cond_holds ::
  "'re regex_lib \<Rightarrow> string \<Rightarrow> string \<Rightarrow> (string, string) hmap \<Rightarrow> policy_condition \<Rightarrow> bool" where
  "cond_holds lib resource actor ctx c \<longleftrightarrow>
     (\<exists>h. (if pc_field c = ''resource'' then h = resource
          else if pc_field c = ''actor'' then h = actor
          else hm_get ctx (pc_field c) = Some h) \<and>
        (case pc_operator c of
           OpEquals \<Rightarrow> h = pc_value c
         | OpNotEquals \<Rightarrow> h \<noteq> pc_value c
         | OpContains \<Rightarrow> str_contains h (pc_value c)
         | OpStartsWith \<Rightarrow> is_prefix (pc_value c) h
         | OpEndsWith \<Rightarrow> strip_suffix (pc_value c) h \<noteq> None
         | OpMatches \<Rightarrow> pattern_holds lib h (pc_value c)
         | OpIn \<Rightarrow> h \<in> trim ` set (split_on (CHR '','') (pc_value c))
         | OpNotIn \<Rightarrow> h \<notin> trim ` set (split_on (CHR '','') (pc_value c))))"

definition policy_holds ::
  "'re regex_lib \<Rightarrow> string \<Rightarrow> string \<Rightarrow> (string, string) hmap \<Rightarrow> security_policy \<Rightarrow> bool" where
  "policy_holds lib resource actor ctx p \<longleftrightarrow> sp_conditions p \<noteq> [] \<and>
     (case sp_composition p of
        CompAnd \<Rightarrow> list_all (cond_holds lib resource actor ctx) (sp_conditions p)
      | CompOr \<Rightarrow> list_ex (cond_holds lib resource actor ctx) (sp_conditions p))"

definition cache_ok :: "'re regex_lib \<Rightarrow> 're regex_cache \<Rightarrow> bool" where
  "cache_ok lib cache \<longleftrightarrow> hm_wf cache \<and> length cache \<le> 129 \<and>
     (\<forall>p c. hm_get cache p = Some c \<longrightarrow> c = compile_matcher lib p)"

text \<open>A threaded test agrees with its value and keeps the cache.\<close>

definition agrees :: "'re regex_lib \<Rightarrow> ('re regex_cache \<Rightarrow> 'a \<times> 're regex_cache) \<Rightarrow> 'a \<Rightarrow> bool" where
  "agrees lib f v \<longleftrightarrow> (\<forall>cache. cache_ok lib cache \<longrightarrow> fst (f cache) = v \<and> cache_ok lib (snd (f cache)))"

lemma agrees_pure [simp]: "agrees lib (\<lambda>cache. (v, cache)) v"
  by (simp add: agrees_def)

lemma agreesD: "agrees lib f v \<Longrightarrow> cache_ok lib cache \<Longrightarrow> \<exists>cache'. f cache = (v, cache') \<and> cache_ok lib cache'"
  unfolding agrees_def by (cases "f cache") (drule spec[of _ cache], simp)

lemma pattern_holds_compile:
  "pattern_holds lib h pat = (case compile_matcher lib pat of Some re \<Rightarrow> re_is_match lib re h | None \<Rightarrow> h = pat)"
  by (auto simp: pattern_holds_def compile_matcher_def Let_def split: option.splits)

lemma cond_holds_field:
  "cond_holds lib resource actor ctx c \<longleftrightarrow>
     (case field_value c resource actor ctx of
        None \<Rightarrow> False
      | Some h \<Rightarrow>
          (case pc_operator c of
             OpEquals \<Rightarrow> h = pc_value c
           | OpNotEquals \<Rightarrow> h \<noteq> pc_value c
           | OpContains \<Rightarrow> str_contains h (pc_value c)
           | OpStartsWith \<Rightarrow> is_prefix (pc_value c) h
           | OpEndsWith \<Rightarrow> strip_suffix (pc_value c) h \<noteq> None
           | OpMatches \<Rightarrow> pattern_holds lib h (pc_value c)
           | OpIn \<Rightarrow> h \<in> trim ` set (split_on (CHR '','') (pc_value c))
           | OpNotIn \<Rightarrow> h \<notin> trim ` set (split_on (CHR '','') (pc_value c))))"
  unfolding cond_holds_def field_value_def by (cases "pc_operator c") (auto split: option.split)

lemma regex_match_agrees: "agrees lib (\<lambda>cache. regex_match lib cache h pat) (pattern_holds lib h pat)"
  unfolding agrees_def
proof (intro allI impI)
  fix cache assume ok: "cache_ok lib cache"
  define c1 where "c1 = (if length cache > 128 then [] else cache)"
  have c1: "cache_ok lib c1" "length c1 \<le> 128" using ok by (auto simp: c1_def cache_ok_def)
  show "fst (regex_match lib cache h pat) = pattern_holds lib h pat \<and> cache_ok lib (snd (regex_match lib cache h pat))"
  proof (cases "map_of c1 pat")
    case None
    have "cache_ok lib (hm_insert pat (compile_matcher lib pat) c1)"
      using c1 length_hm_insert_le[of pat "compile_matcher lib pat" c1] by (auto simp: cache_ok_def)
    with None show ?thesis by (simp add: regex_match_def c1_def[symmetric] Let_def pattern_holds_compile)
  next
    case (Some c)
    then have "c = compile_matcher lib pat" using c1 by (simp add: cache_ok_def)
    with Some c1 show ?thesis by (simp add: regex_match_def c1_def[symmetric] Let_def pattern_holds_compile)
  qed
qed

lemma evaluate_condition_agrees:
  "agrees lib (evaluate_condition lib c resource actor ctx) (cond_holds lib resource actor ctx c)"
proof (cases "pc_operator c = OpMatches \<and> field_value c resource actor ctx \<noteq> None")
  case True
  then obtain h where h: "field_value c resource actor ctx = Some h" by blast
  have "evaluate_condition lib c resource actor ctx = (\<lambda>cache. regex_match lib cache h (pc_value c))"
    using True by (intro ext) (simp add: evaluate_condition_def h)
  then show ?thesis using True h regex_match_agrees by (simp add: cond_holds_field)
next
  case False
  have "evaluate_condition lib c resource actor ctx cache = (cond_holds lib resource actor ctx c, cache)" for cache
    using False by (cases "pc_operator c"; cases "field_value c resource actor ctx")
      (auto simp: evaluate_condition_def cond_holds_field list_ex_iff list_all_iff)
  then have "evaluate_condition lib c resource actor ctx = (\<lambda>cache. (cond_holds lib resource actor ctx c, cache))" by blast
  then show ?thesis by simp
qed

text \<open>Sequencing of threaded tests.\<close>

lemma agrees_bind:
  assumes "agrees lib f v" and "agrees lib (g v) w" and "\<And>cache. h cache = (case f cache of (b, cache) \<Rightarrow> g b cache)"
  shows "agrees lib h w"
  unfolding agrees_def
proof (intro allI impI)
  fix cache assume "cache_ok lib cache"
  from agreesD[OF assms(1) this] obtain c1 where "f cache = (v, c1)" "cache_ok lib c1" by blast
  with assms(2,3) show "fst (h cache) = w \<and> cache_ok lib (snd (h cache))" by (simp add: agrees_def)
qed

lemma all_conditions_agrees:
  "agrees lib (all_conditions lib cs resource actor ctx) (list_all (cond_holds lib resource actor ctx) cs)"
proof (induction cs)
  case (Cons c cs)
  show ?case
    by (rule agrees_bind[OF evaluate_condition_agrees[of lib c resource actor ctx],
          where g = "\<lambda>b cache. if b then all_conditions lib cs resource actor ctx cache else (False, cache)"])
      (use Cons in \<open>auto simp: agrees_def split: prod.split bool.split\<close>)
qed (simp add: agrees_def)

lemma any_condition_agrees:
  "agrees lib (any_condition lib cs resource actor ctx) (list_ex (cond_holds lib resource actor ctx) cs)"
proof (induction cs)
  case (Cons c cs)
  show ?case
    by (rule agrees_bind[OF evaluate_condition_agrees[of lib c resource actor ctx],
          where g = "\<lambda>b cache. if b then (True, cache) else any_condition lib cs resource actor ctx cache"])
      (use Cons in \<open>auto simp: agrees_def split: prod.split bool.split\<close>)
qed (simp add: agrees_def)

lemma policy_matches_agrees:
  "agrees lib (policy_matches lib p resource actor ctx) (policy_holds lib resource actor ctx p)"
  using all_conditions_agrees[of lib "sp_conditions p"] any_condition_agrees[of lib "sp_conditions p"]
  by (cases "sp_composition p") (auto simp: agrees_def policy_matches_def policy_holds_def)

lemma first_match_agrees:
  "agrees lib (first_match lib ps resource actor ctx) (List.find (policy_holds lib resource actor ctx) ps)"
proof (induction ps)
  case (Cons p ps)
  show ?case
    by (rule agrees_bind[OF policy_matches_agrees[of lib p resource actor ctx],
          where g = "\<lambda>b cache. if b then (Some p, cache) else first_match lib ps resource actor ctx cache"])
      (use Cons in \<open>auto simp: agrees_def split: prod.split bool.split\<close>)
qed (simp add: agrees_def)

section \<open>Verdicts\<close>

definition spec_verdict ::
  "'re regex_lib \<Rightarrow> security_governor \<Rightarrow> string \<Rightarrow> string \<Rightarrow> (string, string) hmap \<Rightarrow> policy_verdict" where
  "spec_verdict lib g resource actor ctx =
     (case List.find (policy_holds lib resource actor ctx) (map snd (sg_policies g)) of
        Some p \<Rightarrow> matched_verdict p | None \<Rightarrow> default_verdict g)"

lemma do_evaluate_agrees:
  assumes "cache_ok lib cache"
  shows "\<exists>cache'. do_evaluate lib g resource actor ctx cache = (spec_verdict lib g resource actor ctx, cache') \<and> cache_ok lib cache'"
  using agreesD[OF first_match_agrees assms, of "map snd (sg_policies g)" resource actor ctx]
  by (auto simp: do_evaluate_def spec_verdict_def split: option.splits)

lemma spec_verdict_count [simp]:
  "spec_verdict lib (g\<lparr>sg_total_evaluations := n\<rparr>) resource actor ctx = spec_verdict lib g resource actor ctx"
  by (simp add: spec_verdict_def default_verdict_def split: option.splits)

lemma evaluate_value:
  assumes "cache_ok lib cache" and "evaluate lib resource actor ctx (g, cache) = (r, g', cache')"
  shows "cache_ok lib cache' \<and>
    r = (if sg_poisoned g then Inl LockPoisoned
         else if \<not> gc_enabled (sg_config g) \<or> gc_policy_mode (sg_config g) = ''advisory'' then Inr verdict_allow
         else Inr (spec_verdict lib g resource actor ctx)) \<and>
    g' = (if sg_poisoned g then g else g\<lparr>sg_total_evaluations := sg_total_evaluations g + 1\<rparr>)"
proof -
  let ?g = "g\<lparr>sg_total_evaluations := sg_total_evaluations g + 1\<rparr>"
  obtain c where "do_evaluate lib ?g resource actor ctx cache = (spec_verdict lib g resource actor ctx, c)"
    "cache_ok lib c"
    using do_evaluate_agrees[OF assms(1), of ?g resource actor ctx] by auto
  with assms show ?thesis by (auto simp: evaluate_def Let_def split: if_splits)
qed

lemma find_first:
  "List.find P (ps @ p # qs) = Some p" if "P p" and "\<forall>q \<in> set ps. \<not> P q"
  using that by (induction ps) auto

text \<open>What a verdict says, apart from the wording of its reasons.\<close>

definition verdict_is :: "policy_verdict \<Rightarrow> bool \<Rightarrow> bool \<Rightarrow> string \<Rightarrow> string option \<Rightarrow> bool" where
  "verdict_is v allowed review level matched \<longleftrightarrow>
     pv_allowed v = allowed \<and> pv_required_review v = review \<and> pv_escalation_level v = level \<and> pv_matched_policy v = matched"

lemma matched_verdict_is:
  "verdict_is (matched_verdict p) (sp_action p \<noteq> ActDeny) (sp_action p = ActRequireReview)
     (if sp_action p = ActEscalate then (case sp_escalation_level p of Some l \<Rightarrow> l | None \<Rightarrow> ''elevated'') else ''normal'') (Some (sp_id p))"
  by (cases "sp_action p") (auto simp: verdict_is_def matched_verdict_def split: option.splits)

lemma default_verdict_is:
  "verdict_is (default_verdict g)
     (gc_default_action (sg_config g) \<noteq> ActDeny \<and>
      \<not> (gc_default_action (sg_config g) = ActAllow \<and> ''deny-unknown-resource'' \<in> fst ` set (sg_policies g)))
     (gc_default_action (sg_config g) = ActRequireReview)
     (if gc_default_action (sg_config g) = ActEscalate then ''elevated'' else ''normal'')
     (if gc_default_action (sg_config g) = ActAllow \<and> ''deny-unknown-resource'' \<in> fst ` set (sg_policies g)
      then Some ''deny-unknown-resource'' else None)"
  by (cases "gc_default_action (sg_config g)") (auto simp: verdict_is_def default_verdict_def dom_map_of_conv_image_fst)

text \<open>C28: What an evaluation answers, whatever the cache of compiled patterns holds and however often it was emptied.
  A governor whose lock is poisoned answers with an error. One that is switched off or only advises allows
  everything, without a review. Otherwise the first policy in the order of registration whose conditions hold
  decides: Deny refuses, Allow lets pass, RequireReview lets pass with a review, Escalate lets pass at the policy's
  level, or elevated. When no policy's conditions hold the default action decides in the same way, except that the
  default Allow refuses as long as a policy is registered under the name of the catch-all, deny-unknown-resource,
  which the verdict then names. Only the counter of evaluations changes, and the cache keeps its bound.\<close>

theorem governor_verdict_exact:
  assumes "cache_ok lib cache" and "evaluate lib resource actor ctx (g, cache) = (r, g', cache')"
  shows "cache_ok lib cache' \<and>
    g' = (if sg_poisoned g then g else g\<lparr>sg_total_evaluations := sg_total_evaluations g + 1\<rparr>) \<and>
    (sg_poisoned g \<longleftrightarrow> r = Inl LockPoisoned) \<and>
    (\<forall>v. r = Inr v \<longrightarrow>
       (if \<not> gc_enabled (sg_config g) \<or> gc_policy_mode (sg_config g) = ''advisory''
        then pv_allowed v \<and> \<not> pv_required_review v \<and> pv_escalation_level v = ''normal'' \<and> pv_matched_policy v = None
        else
          (\<forall>ps p qs. map snd (sg_policies g) = ps @ p # qs \<longrightarrow> policy_holds lib resource actor ctx p \<longrightarrow>
             (\<forall>q \<in> set ps. \<not> policy_holds lib resource actor ctx q) \<longrightarrow>
             (pv_allowed v \<longleftrightarrow> sp_action p \<noteq> ActDeny) \<and>
             (pv_required_review v \<longleftrightarrow> sp_action p = ActRequireReview) \<and>
             pv_escalation_level v =
               (if sp_action p = ActEscalate
                then case sp_escalation_level p of Some l \<Rightarrow> l | None \<Rightarrow> ''elevated'' else ''normal'') \<and>
             pv_matched_policy v = Some (sp_id p)) \<and>
          ((\<forall>p \<in> snd ` set (sg_policies g). \<not> policy_holds lib resource actor ctx p) \<longrightarrow>
             (let act = gc_default_action (sg_config g);
                  refuses = (act = ActAllow \<and> ''deny-unknown-resource'' \<in> fst ` set (sg_policies g))
              in (pv_allowed v \<longleftrightarrow> act \<noteq> ActDeny \<and> \<not> refuses) \<and>
                 (pv_required_review v \<longleftrightarrow> act = ActRequireReview) \<and>
                 pv_escalation_level v = (if act = ActEscalate then ''elevated'' else ''normal'') \<and>
                 pv_matched_policy v = (if refuses then Some ''deny-unknown-resource'' else None)))))"
  (is "_ \<and> _ \<and> _ \<and> (\<forall>v. r = Inr v \<longrightarrow> ?verdict v)")
proof -
  let ?off = "\<not> gc_enabled (sg_config g) \<or> gc_policy_mode (sg_config g) = ''advisory''"
  let ?holds = "policy_holds lib resource actor ctx"
  note val = evaluate_value[OF assms]
  have first: "verdict_is (spec_verdict lib g resource actor ctx) (sp_action p \<noteq> ActDeny) (sp_action p = ActRequireReview)
      (if sp_action p = ActEscalate then case sp_escalation_level p of Some l \<Rightarrow> l | None \<Rightarrow> ''elevated'' else ''normal'')
      (Some (sp_id p))"
    if "map snd (sg_policies g) = ps @ p # qs" and "?holds p" and "\<forall>q \<in> set ps. \<not> ?holds q" for ps p qs
    using that find_first[OF that(2,3), of qs] matched_verdict_is[of p] by (simp add: spec_verdict_def)
  have none: "spec_verdict lib g resource actor ctx = default_verdict g" if "\<forall>p \<in> snd ` set (sg_policies g). \<not> ?holds p"
  proof -
    have "List.find ?holds (map snd (sg_policies g)) = None" using that by (simp add: find_None_iff)
    then show ?thesis by (simp add: spec_verdict_def)
  qed
  show ?thesis
  proof (cases "sg_poisoned g \<or> ?off")
    case True
    then show ?thesis using val by (auto simp: verdict_allow_def)
  next
    case False
    then have r: "r = Inr (spec_verdict lib g resource actor ctx)" using val by simp
    have on: "\<not> ?off" using False by simp
    let ?v = "spec_verdict lib g resource actor ctx"
    show ?thesis
    proof (intro conjI allI impI)
      show "cache_ok lib cache'" "sg_poisoned g \<longleftrightarrow> r = Inl LockPoisoned"
        "g' = (if sg_poisoned g then g else g\<lparr>sg_total_evaluations := sg_total_evaluations g + 1\<rparr>)"
        using val r False by simp_all
      fix v assume "r = Inr v"
      then have v: "v = ?v" using r by simp
      show "?verdict v"
        unfolding v if_not_P[OF on]
        by (intro conjI allI impI; (drule (2) first | drule none); use default_verdict_is[of g] in \<open>simp add: verdict_is_def Let_def\<close>)
    qed
  qed
qed

definition sub_regex :: "string regex_lib" where
  "sub_regex = \<lparr>re_new = Some, re_is_match = (\<lambda>re h. str_contains h re), re_escape = (\<lambda>p. p)\<rparr>"

lemma default_policies_list:
  "sg_policies (security_governor_new governor_config_default) =
     [(sp_id deny_unknown_resource, deny_unknown_resource), (sp_id deny_sensitive_data, deny_sensitive_data),
      (sp_id require_review_admin_actions, require_review_admin_actions)]"
  by (simp add: security_governor_new_def governor_config_default_def register_default_policies_def register_policy_def
      hm_insert_def deny_unknown_resource_def deny_sensitive_data_def require_review_admin_actions_def)

lemma default_config:
  "sg_config (security_governor_new governor_config_default) = governor_config_default"
  "\<not> sg_poisoned (security_governor_new governor_config_default)"
  by (simp_all add: security_governor_new_def governor_config_default_def register_default_policies_def register_policy_def)

lemma default_fields:
  "gc_enabled governor_config_default" "gc_default_action governor_config_default = ActAllow"
  "gc_policy_mode governor_config_default = []"
  by (simp_all add: governor_config_default_def)

definition sensitive_resource :: "string \<Rightarrow> bool" where
  "sensitive_resource r \<longleftrightarrow> str_contains r ''secret'' \<or> str_contains r ''password'' \<or> str_contains r ''credential'' \<or>
     str_contains r ''token''"

definition admin_action :: "(string, string) hmap \<Rightarrow> bool" where
  "admin_action ctx \<longleftrightarrow>
     (case hm_get ctx ''action'' of
        None \<Rightarrow> False | Some a \<Rightarrow> str_contains a ''admin'' \<or> str_contains a ''delete'')"

lemma holds_unknown: "\<not> policy_holds lib r a ctx deny_unknown_resource"
  by (simp add: policy_holds_def deny_unknown_resource_def)

lemma holds_sensitive: "policy_holds lib r a ctx deny_sensitive_data \<longleftrightarrow> sensitive_resource r"
  by (simp add: policy_holds_def deny_sensitive_data_def cond_holds_field contains_on_def field_value_def sensitive_resource_def)

lemma holds_admin: "policy_holds lib r a ctx require_review_admin_actions \<longleftrightarrow> admin_action ctx"
  by (auto simp: policy_holds_def require_review_admin_actions_def cond_holds_field contains_on_def field_value_def
      admin_action_def split: option.splits)

lemma default_spec:
  "spec_verdict lib (security_governor_new governor_config_default) resource actor ctx =
     (if sensitive_resource resource then matched_verdict deny_sensitive_data
      else if admin_action ctx then matched_verdict require_review_admin_actions
      else default_verdict (security_governor_new governor_config_default))"
  by (simp add: spec_verdict_def default_policies_list holds_unknown holds_sensitive holds_admin)

lemma default_catch_all:
  "\<not> pv_allowed (default_verdict (security_governor_new governor_config_default)) \<and>
   \<not> pv_required_review (default_verdict (security_governor_new governor_config_default))"
  by (simp add: default_verdict_def default_config default_policies_list default_fields deny_unknown_resource_def)

text \<open>The default governor allows by default and yet refuses a request that no policy knows.\<close>

lemma governor_verdict_exact_witness:
  "\<exists>v g c. evaluate sub_regex ''file'' ''bob'' [] (security_governor_new governor_config_default, []) = (Inr v, g, c) \<and>
     gc_default_action governor_config_default = ActAllow \<and> \<not> pv_allowed v \<and> \<not> pv_required_review v \<and>
     pv_matched_policy v = Some ''deny-unknown-resource'' \<and> sg_total_evaluations g = 1"
proof -
  let ?g = "security_governor_new governor_config_default"
  obtain r g' c where e: "evaluate sub_regex ''file'' ''bob'' [] (?g, []) = (r, g', c)" by (metis prod_cases3)
  have ok: "cache_ok sub_regex []" by (simp add: cache_ok_def)
  note exact = governor_verdict_exact[OF ok e]
  have "r \<noteq> Inl LockPoisoned" using exact default_config by blast
  then obtain v where r: "r = Inr v" by (cases r) (use governor_error.exhaust in blast)+
  have "\<not> sensitive_resource ''file''" "\<not> admin_action []" by code_simp+
  then have none: "\<forall>p \<in> snd ` set (sg_policies ?g). \<not> policy_holds sub_regex ''file'' ''bob'' [] p"
    by (simp add: default_policies_list holds_unknown holds_sensitive holds_admin)
  have count: "sg_total_evaluations ?g = 0" by code_simp
  have "\<not> pv_allowed v \<and> \<not> pv_required_review v \<and> pv_matched_policy v = Some ''deny-unknown-resource''"
    using exact none unfolding r
    by (simp add: default_config default_fields default_policies_list deny_unknown_resource_def Let_def)
  moreover have "sg_total_evaluations g' = 1" using exact default_config count by simp
  ultimately show ?thesis using e default_fields unfolding r by blast
qed

text \<open>The governor with the default configuration fails closed: it denies every request whose resource
  mentions a secret, and of the others it lets through only those whose action attribute mentions
  admin or delete, and those need a review. Everything else is denied by the catch-all.\<close>

theorem default_governor_exact:
  assumes "cache_ok lib cache"
    and "evaluate lib resource actor ctx (security_governor_new governor_config_default, cache) = (Inr v, g', cache')"
  shows "(pv_allowed v \<longleftrightarrow> \<not> sensitive_resource resource \<and> admin_action ctx) \<and>
    (pv_required_review v \<longleftrightarrow> pv_allowed v)"
proof -
  let ?g = "security_governor_new governor_config_default"
  obtain c where "do_evaluate lib (?g\<lparr>sg_total_evaluations := sg_total_evaluations ?g + 1\<rparr>) resource actor ctx cache =
      (spec_verdict lib ?g resource actor ctx, c)"
    using do_evaluate_agrees[OF assms(1), of "?g\<lparr>sg_total_evaluations := sg_total_evaluations ?g + 1\<rparr>" resource actor ctx] by auto
  with assms(2) have "v = spec_verdict lib ?g resource actor ctx"
    by (auto simp: evaluate_def Let_def default_config default_fields split: if_splits)
  then show ?thesis
    using default_catch_all
    by (simp add: default_spec matched_verdict_def deny_sensitive_data_def require_review_admin_actions_def)
qed

lemma default_governor_exact_witness:
  "\<exists>v g c. evaluate sub_regex ''repo'' ''bob'' [(''action'', ''read'')]
       (security_governor_new governor_config_default, []) = (Inr v, g, c) \<and> \<not> pv_allowed v"
proof -
  let ?e = "evaluate sub_regex ''repo'' ''bob'' [(''action'', ''read'')] (security_governor_new governor_config_default, [])"
  have ok: "cache_ok sub_regex []" by (simp add: cache_ok_def)
  have "isl (fst ?e) = False" by code_simp
  then obtain v where "fst ?e = Inr v" by (cases "fst ?e") auto
  then have e: "?e = (Inr v, fst (snd ?e), snd (snd ?e))" by (metis prod.collapse)
  have "\<not> admin_action [(''action'', ''read'')]" by code_simp
  with default_governor_exact[OF ok e] e show ?thesis by blast
qed

section \<open>Counters and the order of policies\<close>

lemma record_audit_pair: "record_audit e (g, l) = (record_audit_counters e g, record_entry (to_log_entry e) l)"
  by (simp add: record_audit_def)

lemma counters_step:
  "sg_total_denials (record_audit_counters e g) = sg_total_denials g + (if pv_allowed (ga_verdict e) then 0 else 1)"
  "sg_total_reviews (record_audit_counters e g) = sg_total_reviews g + (if pv_required_review (ga_verdict e) then 1 else 0)"
  "sg_active_escalations (record_audit_counters e g) =
     sg_active_escalations g + (if pv_escalation_level (ga_verdict e) = ''normal'' then 0 else 1)"
  "sg_total_evaluations (record_audit_counters e g) = sg_total_evaluations g"
  "sg_policies (record_audit_counters e g) = sg_policies g"
  by (simp_all add: record_audit_counters_def Let_def)

text \<open>The counters account for the audited verdicts: after any sequence of audit records each of them has
  grown by the number of records that were denied, needed a review, or were escalated (modulo the
  width of the counter), the evaluations and policies are as before, and the sink holds
  the converted entries.\<close>

theorem governor_counters_account:
  "let g' = fst (fold record_audit es (g, l)) in
   sg_total_denials g' = sg_total_denials g + of_nat (length (filter (\<lambda>e. \<not> pv_allowed (ga_verdict e)) es)) \<and>
   sg_total_reviews g' = sg_total_reviews g + of_nat (length (filter (\<lambda>e. pv_required_review (ga_verdict e)) es)) \<and>
   sg_active_escalations g' =
     sg_active_escalations g + of_nat (length (filter (\<lambda>e. pv_escalation_level (ga_verdict e) \<noteq> ''normal'') es)) \<and>
   sg_total_evaluations g' = sg_total_evaluations g \<and> sg_policies g' = sg_policies g \<and>
   snd (fold record_audit es (g, l)) = fold record_entry (map to_log_entry es) l"
proof (induction es arbitrary: g l)
  case (Cons e es)
  show ?case
    using Cons[of "record_audit_counters e g" "record_entry (to_log_entry e) l"]
    by (simp add: record_audit_pair counters_step Let_def)
qed simp

lemma keys_hm_insert: "map fst (hm_insert k v m) = (if k \<in> fst ` set m then map fst m else map fst m @ [k])"
  unfolding hm_insert_def by (simp add: update_keys)

text \<open>A policy that replaces another keeps its place in the order; a new one comes last.\<close>

lemma register_policy_order:
  "map fst (sg_policies (snd (register_policy p g))) =
     (if sp_id p \<in> fst ` set (sg_policies g) then map fst (sg_policies g) else map fst (sg_policies g) @ [sp_id p])"
  by (simp add: register_policy_def keys_hm_insert)

end
