(* ===== verification/ModeRuntime.thy ===== *)
theory ModeRuntime
  imports TextOps "HOL-Library.Multiset" "HOL-Library.Char_ord" "HOL-Library.List_Lexorder"
begin

text \<open>
  The execution modes, \<open>src/orchestration/mode.rs\<close>: which tools a mode may use and how often, the approval
  posture, the risk score of an objective, the checks before execution, and one run of a task.
  A risk score is a number of tenths: the sums of 0.1, 0.2 and 0.3 that the code can form in
  double precision compare with its three thresholds as the exact sums do. The JSON object of a
  result is the record of its members. Agents and their answers are arguments.
\<close>

section \<open>Tool sets\<close>

definition ALL_EXEC_TOOL_NAMES :: "string list" where
  "ALL_EXEC_TOOL_NAMES =
     [''read_file'', ''read_file_lines'', ''write_file'', ''edit_file'', ''apply_patch'',
      ''move_path'', ''delete_path'', ''copy_path'', ''create_directory'', ''format_code'',
      ''hash_file'', ''file_watch'', ''search_files'', ''grep'', ''code_index_search'',
      ''go_to_definition'', ''find_references'', ''inspect_git_diff'', ''file_diff'', ''git'',
      ''cargo_check'', ''cargo_test'', ''run_tests'', ''build_run'', ''lint_run'', ''diagnostics'',
      ''shell_exec'', ''list_directory'', ''archive_inspect'', ''archive_extract'', ''compress'',
      ''decompress'', ''http_request'', ''web_search'', ''dns_lookup'', ''ping'', ''port_scan'',
      ''jsonl_read'', ''jsonl_write'', ''json_query'', ''rss_read'', ''docker_ps'',
      ''docker_logs'', ''docker_exec'', ''docker_build'', ''docker_push'', ''docker_compose'',
      ''date_time'', ''environment_info'', ''uuid_gen'', ''random_token'', ''encode_decode'',
      ''template_render'', ''code_metrics'', ''security_scan'', ''search_packages'',
      ''dependency_add'', ''spawn_agent'', ''apply_code_action'', ''skill_list'',
      ''skill_execute'', ''skill_create'', ''skill_reload'']"

definition PENDING_TASK_TOOLS :: "string list" where
  "PENDING_TASK_TOOLS =
     [''read_file'', ''search_files'', ''apply_patch'', ''run_tests'', ''inspect_git_diff'']"

definition READ_ONLY_TOOL_NAMES :: "string list" where
  "READ_ONLY_TOOL_NAMES =
     [''read_file'', ''read_file_lines'', ''search_files'', ''grep'', ''list_directory'',
      ''inspect_git_diff'', ''code_index_search'', ''go_to_definition'', ''find_references'',
      ''file_diff'', ''date_time'', ''environment_info'', ''json_query'', ''archive_inspect'',
      ''dns_lookup'', ''ping'', ''docker_ps'', ''docker_logs'', ''rss_read'', ''jsonl_read'',
      ''code_metrics'', ''security_scan'', ''skill_list'', ''web_search'']"

definition LOW_RISK_TOOL_NAMES :: "string list" where
  "LOW_RISK_TOOL_NAMES =
     [''read_file'', ''read_file_lines'', ''search_files'', ''grep'', ''list_directory'',
      ''inspect_git_diff'', ''code_index_search'', ''go_to_definition'', ''find_references'',
      ''file_diff'', ''date_time'', ''environment_info'', ''json_query'', ''archive_inspect'',
      ''dns_lookup'', ''ping'', ''docker_ps'', ''docker_logs'', ''rss_read'', ''jsonl_read'',
      ''code_metrics'', ''security_scan'', ''skill_list'', ''web_search'', ''uuid_gen'',
      ''random_token'', ''encode_decode'', ''hash_file'', ''diagnostics'', ''format_code'',
      ''svg_export'']"

definition plan_tools :: "string list" where
  "plan_tools =
     filter (\<lambda>t. t \<noteq> ''web_search'' \<and> t \<noteq> ''security_scan'') READ_ONLY_TOOL_NAMES @ [''http_request'']"

section \<open>Modes and postures\<close>

datatype mode_kind = MAsk | MPlan | MEdit | MFullAuto | MSafeGuard

definition mode_kind_from :: "string \<Rightarrow> mode_kind" where
  "mode_kind_from s =
     (let l = to_lowercase s in
      if l = ''ask'' then MAsk
      else if l = ''plan'' then MPlan
      else if l = ''edit'' then MEdit
      else if l = ''agent'' then MFullAuto
      else if l = ''full_auto'' \<or> l = ''fullauto'' then MFullAuto
      else if l = ''safeguard'' \<or> l = ''safe_guard'' then MSafeGuard
      else MAsk)"

datatype auto_degrade_policy = DBlock | DReadOnly | DAllowWithAudit | DConfirmRequired

datatype approval_posture = PSuggest | PAuto | PBypass | PNever

definition is_read_only :: "approval_posture \<Rightarrow> bool" where
  "is_read_only p = (p = PNever)"

definition requires_approval :: "approval_posture \<Rightarrow> bool" where
  "requires_approval p = (p = PSuggest)"

definition is_autonomous :: "approval_posture \<Rightarrow> bool" where
  "is_autonomous p = (p = PAuto \<or> p = PBypass)"

definition posture_from :: "string \<Rightarrow> approval_posture" where
  "posture_from s =
     (let l = to_lowercase s in
      if l = ''suggest'' \<or> l = ''interactive'' then PSuggest
      else if l = ''auto'' \<or> l = ''autonomous'' then PAuto
      else if l = ''bypass'' \<or> l = ''full'' then PBypass
      else if l = ''never'' \<or> l = ''read_only'' then PNever
      else PSuggest)"

fun posture_to_string :: "approval_posture \<Rightarrow> string" where
  "posture_to_string PSuggest = ''suggest''"
| "posture_to_string PAuto = ''auto''"
| "posture_to_string PBypass = ''bypass''"
| "posture_to_string PNever = ''never''"

fun default_posture_for :: "mode_kind \<Rightarrow> approval_posture" where
  "default_posture_for MAsk = PAuto"
| "default_posture_for MPlan = PNever"
| "default_posture_for MEdit = PSuggest"
| "default_posture_for MFullAuto = PAuto"
| "default_posture_for MSafeGuard = PSuggest"

section \<open>Tool policy\<close>

fun policy_for_kind :: "mode_kind \<Rightarrow> string list \<times> nat" where
  "policy_for_kind MAsk = ([], 0)"
| "policy_for_kind MPlan = (plan_tools, 3)"
| "policy_for_kind MEdit = (ALL_EXEC_TOOL_NAMES, 20)"
| "policy_for_kind MFullAuto = (ALL_EXEC_TOOL_NAMES, 50)"
| "policy_for_kind MSafeGuard = (READ_ONLY_TOOL_NAMES, 30)"

fun filter_calls ::
  "string list \<Rightarrow> nat \<Rightarrow> (string \<times> string) list \<Rightarrow> (string \<times> string) list \<Rightarrow> string list \<Rightarrow>
   (string \<times> string) list \<times> string list" where
  "filter_calls allowed max_calls [] kept blocked = (kept, blocked)"
| "filter_calls allowed max_calls ((name, args) # calls) kept blocked =
     (if length kept \<ge> max_calls \<or> name \<notin> set allowed
      then filter_calls allowed max_calls calls kept (blocked @ [name])
      else filter_calls allowed max_calls calls (kept @ [(name, args)]) blocked)"

definition filter_tool_calls_by_policy ::
  "(string \<times> string) list \<Rightarrow> mode_kind \<Rightarrow> (string \<times> string) list \<times> string list" where
  "filter_tool_calls_by_policy tool_calls kind =
     (let (allowed, max_calls) = policy_for_kind kind in filter_calls allowed max_calls tool_calls [] [])"

section \<open>Risk\<close>

text \<open>\<open>char::is_alphanumeric\<close> below U+0100.\<close>

definition is_alphanumeric :: "char \<Rightarrow> bool" where
  "is_alphanumeric c =
     (let n = (of_char c :: nat) in
      (48 \<le> n \<and> n \<le> 57) \<or> (65 \<le> n \<and> n \<le> 90) \<or> (97 \<le> n \<and> n \<le> 122) \<or>
      n \<in> {170, 178, 179, 181, 185, 186, 188, 189, 190} \<or> (192 \<le> n \<and> n \<noteq> 215 \<and> n \<noteq> 247))"

fun split_by :: "(char \<Rightarrow> bool) \<Rightarrow> string \<Rightarrow> string list" where
  "split_by p [] = [[]]"
| "split_by p (c # s) =
     (if p c then [] # split_by p s
      else (case split_by p s of [] \<Rightarrow> [[c]] | w # ws \<Rightarrow> (c # w) # ws))"

definition word_boundary_match :: "string \<Rightarrow> string \<Rightarrow> bool" where
  "word_boundary_match text word =
     list_ex (\<lambda>w. to_ascii_lowercase w = to_ascii_lowercase word) (split_by (\<lambda>c. \<not> is_alphanumeric c) text)"

definition extreme_multis :: "string list" where
  "extreme_multis = [''drop database'', ''drop table'']"

definition high_risk_keywords :: "string list" where
  "high_risk_keywords =
     [''delete'', ''remove'', ''drop'', ''truncate'', ''uninstall'', ''bash'', ''execute_command'',
      ''shell_exec'', ''rm'', ''shutdown'', ''rollback'', ''revert'', ''reset'', ''force'']"

definition medium_risk_keywords :: "string list" where
  "medium_risk_keywords =
     [''write'', ''edit'', ''modify'', ''update'', ''create'', ''patch'', ''rename'', ''move'', ''copy'']"

definition compute_risk_score :: "string \<Rightarrow> nat" where
  "compute_risk_score objective =
     (let lower = to_lowercase objective;
          score = 3 * length (filter (str_contains lower) extreme_multis);
          score = score + 2 * length (filter (word_boundary_match objective) high_risk_keywords);
          score = score + length (filter (word_boundary_match objective) medium_risk_keywords)
      in min score 10)"

text \<open>The thresholds 0.95, 0.40 and 0.15 in hundredths.\<close>

definition safeguard_policy :: "nat \<Rightarrow> auto_degrade_policy" where
  "safeguard_policy risk_score =
     (if 10 * risk_score > 95 then DBlock
      else if 10 * risk_score > 40 then DConfirmRequired
      else DAllowWithAudit)"

definition is_high_risk_operation :: "mode_kind \<Rightarrow> string \<Rightarrow> bool" where
  "is_high_risk_operation kind objective =
     (case kind of
        MEdit \<Rightarrow>
          word_boundary_match objective ''delete'' \<or> word_boundary_match objective ''remove'' \<or>
          word_boundary_match objective ''drop'' \<or> word_boundary_match objective ''truncate''
      | MSafeGuard \<Rightarrow> 10 * compute_risk_score objective > 15
      | _ \<Rightarrow> False)"

section \<open>Tasks and results\<close>

record task_envelope =
  te_task_id :: string
  te_phase :: string
  te_role :: string
  te_objective :: string
  te_constraints :: "string option"
  te_evidence :: "string option"
  te_input :: json

record message =
  msg_role :: string
  msg_content :: string

record pua_report =
  pr_stage :: string
  pr_status :: string
  pr_escalation_level :: string
  pr_required_evidence :: "string list"
  pr_completed_checks :: "string list"
  pr_missing_checks :: "string list"

definition quality_compass :: "string list" where
  "quality_compass =
     [''Build proof captured'', ''Error cases tested'', ''Pattern scan completed'', ''Root cause explained'',
      ''Quality delta stated'']"

definition mode_execution_report :: "string \<Rightarrow> bool \<Rightarrow> pua_report" where
  "mode_execution_report mode high_risk =
     \<lparr>pr_stage = ''mode:'' @ mode,
      pr_status = (if high_risk then ''approval_required'' else ''enforced''),
      pr_escalation_level = (if high_risk then ''L2'' else ''L1''),
      pr_required_evidence = quality_compass,
      pr_completed_checks = [''risk_classification''] @ (if high_risk then [''high_risk_detected''] else []),
      pr_missing_checks = [''build_proof'', ''error_case_validation'', ''pattern_scan'', ''root_cause_summary''] @
        (if high_risk then [''operator_approval''] else [])\<rparr>"

text \<open>The members a result object can have.\<close>

record mode_output =
  mo_mode :: string
  mo_task_id :: string
  mo_status :: string
  mo_note :: "string option"
  mo_is_high_risk :: "bool option"
  mo_risk_score :: "nat option"
  mo_degrade_policy :: "string option"
  mo_level :: "(string \<times> string) option"
  mo_tools_available :: "string list option"
  mo_max_tool_calls :: "nat option"
  mo_message :: "string option"
  mo_agent :: "string option"
  mo_answer :: "string option"

datatype result_output = ModeObject mode_output | AgentValue json

record task_result =
  tr_success :: bool
  tr_output :: "result_output option"
  tr_error :: "string option"
  tr_audit_log :: "string option"
  tr_pua_report :: "pua_report option"

definition output_base :: "string \<Rightarrow> string \<Rightarrow> string \<Rightarrow> mode_output" where
  "output_base mode task_id status =
     \<lparr>mo_mode = mode, mo_task_id = task_id, mo_status = status, mo_note = None, mo_is_high_risk = None, mo_risk_score = None,
      mo_degrade_policy = None, mo_level = None, mo_tools_available = None, mo_max_tool_calls = None,
      mo_message = None, mo_agent = None, mo_answer = None\<rparr>"

text \<open>A score printed with two digits.\<close>

definition show_score :: "nat \<Rightarrow> string" where
  "show_score k = (if k \<ge> 10 then ''1.00'' else ''0.'' @ show_nat k @ ''0'')"

fun policy_debug :: "auto_degrade_policy \<Rightarrow> string" where
  "policy_debug DBlock = ''Block''"
| "policy_debug DReadOnly = ''ReadOnly''"
| "policy_debug DAllowWithAudit = ''AllowWithAudit''"
| "policy_debug DConfirmRequired = ''ConfirmRequired''"

definition quoted :: "string \<Rightarrow> string" where
  "quoted s = [CHR 0x27] @ s @ [CHR 0x27]"

definition audit_ids :: "string \<Rightarrow> string \<Rightarrow> string \<Rightarrow> string" where
  "audit_ids task_id phase role = ''task_id='' @ task_id @ '', phase='' @ phase @ '', role='' @ role"

section \<open>The runtime\<close>

fun mode_name :: "mode_kind \<Rightarrow> string" where
  "mode_name MAsk = ''ask''"
| "mode_name MPlan = ''plan''"
| "mode_name MEdit = ''edit''"
| "mode_name MFullAuto = ''full_auto''"
| "mode_name MSafeGuard = ''safeguard''"

definition use_chat :: "mode_kind \<Rightarrow> bool" where
  "use_chat kind = (kind \<in> {MAsk, MPlan, MFullAuto, MSafeGuard})"

definition edit_pending :: "string \<Rightarrow> string \<Rightarrow> string \<Rightarrow> string \<Rightarrow> task_result" where
  "edit_pending task_id objective phase role =
     \<lparr>tr_success = False,
      tr_output = Some (ModeObject ((output_base ''edit'' task_id ''pending_approval'')
        \<lparr>mo_is_high_risk := Some True, mo_tools_available := Some PENDING_TASK_TOOLS, mo_max_tool_calls := Some 20,
         mo_message := Some (''Edit task '' @ quoted objective @ '' requires approval for high-risk operation'')\<rparr>)),
      tr_error = Some ''Operator approval required for high-risk operation'',
      tr_audit_log = Some (''Edit mode: '' @ audit_ids task_id phase role @ '', high_risk=true''),
      tr_pua_report = Some (mode_execution_report ''edit'' True)\<rparr>"

definition safeguard_blocked :: "nat \<Rightarrow> string \<Rightarrow> string \<Rightarrow> string \<Rightarrow> string \<Rightarrow> task_result" where
  "safeguard_blocked risk task_id objective phase role =
     \<lparr>tr_success = False,
      tr_output = Some (ModeObject ((output_base ''safeguard'' task_id ''blocked'')
        \<lparr>mo_risk_score := Some risk, mo_degrade_policy := Some ''Block'', mo_level := Some (''safety_level'', ''enhanced''),
         mo_tools_available := Some PENDING_TASK_TOOLS, mo_max_tool_calls := Some 30,
         mo_message := Some (''SafeGuard task '' @ quoted objective @ '' blocked: extreme risk ('' @ show_score risk @ '')'')\<rparr>)),
      tr_error = Some (''SafeGuard: Operation blocked due to extreme risk score ('' @ show_score risk @ '')''),
      tr_audit_log = Some (''SafeGuard mode: '' @ audit_ids task_id phase role @ '', risk_score='' @ show_score risk @ '', policy=Block''),
      tr_pua_report = Some (mode_execution_report ''safeguard'' True)\<rparr>"

definition safeguard_confirm :: "nat \<Rightarrow> string \<Rightarrow> string \<Rightarrow> string \<Rightarrow> string \<Rightarrow> task_result" where
  "safeguard_confirm risk task_id objective phase role =
     \<lparr>tr_success = False,
      tr_output = Some (ModeObject ((output_base ''safeguard'' task_id ''pending_approval'')
        \<lparr>mo_risk_score := Some risk, mo_degrade_policy := Some ''ConfirmRequired'', mo_level := Some (''safety_level'', ''enhanced''),
         mo_tools_available := Some PENDING_TASK_TOOLS, mo_max_tool_calls := Some 30,
         mo_message := Some (''SafeGuard task '' @ quoted objective @ '' awaiting safety approval (risk: '' @ show_score risk @ '')'')\<rparr>)),
      tr_error = Some ''SafeGuard: Operator approval required for this operation'',
      tr_audit_log = Some (''SafeGuard mode: '' @ audit_ids task_id phase role @ '', risk_score='' @ show_score risk @ '', policy=ConfirmRequired''),
      tr_pua_report = Some (mode_execution_report ''safeguard'' True)\<rparr>"

definition pre_execute :: "mode_kind \<Rightarrow> string \<Rightarrow> string \<Rightarrow> string \<Rightarrow> string \<Rightarrow> task_result option" where
  "pre_execute kind task_id objective phase role =
     (case kind of
        MEdit \<Rightarrow>
          if is_high_risk_operation MEdit objective then Some (edit_pending task_id objective phase role) else None
      | MSafeGuard \<Rightarrow>
          (let risk = compute_risk_score objective in
           case safeguard_policy risk of
             DBlock \<Rightarrow> Some (safeguard_blocked risk task_id objective phase role)
           | DReadOnly \<Rightarrow> None
           | DAllowWithAudit \<Rightarrow> None
           | DConfirmRequired \<Rightarrow> Some (safeguard_confirm risk task_id objective phase role))
      | _ \<Rightarrow> None)"

definition no_agent_note :: "string \<Rightarrow> string" where
  "no_agent_note mode = ''No suitable '' @ mode @ '' mode agent was available in the registry''"

definition fallback_result :: "mode_kind \<Rightarrow> string \<Rightarrow> string \<Rightarrow> string \<Rightarrow> string \<Rightarrow> task_result" where
  "fallback_result kind task_id objective phase role =
     (let ids = audit_ids task_id phase role in
      case kind of
        MAsk \<Rightarrow>
          \<lparr>tr_success = True,
           tr_output = Some (ModeObject ((output_base ''ask'' task_id ''unavailable'')
             \<lparr>mo_note := Some (no_agent_note ''Ask''),
              mo_message := Some (''Task '' @ quoted objective @ '' processed in Ask mode (no agent available)'')\<rparr>)),
           tr_error = None, tr_audit_log = Some (''Ask mode (fallback): '' @ ids),
           tr_pua_report = Some (mode_execution_report ''ask'' False)\<rparr>
      | MEdit \<Rightarrow>
          \<lparr>tr_success = True,
           tr_output = Some (ModeObject ((output_base ''edit'' task_id ''unavailable'')
             \<lparr>mo_note := Some (no_agent_note ''Edit''), mo_tools_available := Some PENDING_TASK_TOOLS, mo_max_tool_calls := Some 20,
              mo_message := Some (''Edit task '' @ quoted objective @ '' ready for execution'')\<rparr>)),
           tr_error = None, tr_audit_log = Some (''Edit mode: '' @ ids @ '', high_risk=false''),
           tr_pua_report = Some (mode_execution_report ''edit'' False)\<rparr>
      | MFullAuto \<Rightarrow>
          \<lparr>tr_success = True,
           tr_output = Some (ModeObject ((output_base ''fullauto'' task_id ''unavailable'')
             \<lparr>mo_note := Some (no_agent_note ''FullAuto''), mo_level := Some (''execution_level'', ''full_autonomy''),
              mo_tools_available := Some PENDING_TASK_TOOLS, mo_max_tool_calls := Some 50,
              mo_message := Some (''FullAuto task '' @ quoted objective @ '' executed autonomously'')\<rparr>)),
           tr_error = None, tr_audit_log = Some (''FullAuto mode: '' @ ids @ '', autonomy_level=full''),
           tr_pua_report = Some (mode_execution_report ''full_auto'' False)\<rparr>
      | MPlan \<Rightarrow>
          \<lparr>tr_success = True,
           tr_output = Some (ModeObject ((output_base ''plan'' task_id ''unavailable'')
             \<lparr>mo_note := Some (no_agent_note ''Plan''),
              mo_message := Some (''Plan task '' @ quoted objective @ '' ready for analysis'')\<rparr>)),
           tr_error = None, tr_audit_log = Some (''Plan mode: '' @ ids),
           tr_pua_report = Some (mode_execution_report ''plan'' False)\<rparr>
      | MSafeGuard \<Rightarrow>
          (let risk = compute_risk_score objective; policy = safeguard_policy risk in
           \<lparr>tr_success = True,
            tr_output = Some (ModeObject ((output_base ''safeguard'' task_id ''unavailable'')
              \<lparr>mo_note := Some (no_agent_note ''SafeGuard''), mo_risk_score := Some risk,
               mo_degrade_policy := Some (policy_debug policy), mo_level := Some (''safety_level'', ''enhanced''),
               mo_tools_available := Some PENDING_TASK_TOOLS, mo_max_tool_calls := Some 30,
               mo_message := Some (''SafeGuard task '' @ quoted objective @ '' completed with enhanced safety (risk: '' @ show_score risk @ '')'')\<rparr>)),
            tr_error = None,
            tr_audit_log = Some (''SafeGuard mode: '' @ ids @ '', risk_score='' @ show_score risk @ '', policy='' @ policy_debug policy),
            tr_pua_report = Some (mode_execution_report ''safeguard'' False)\<rparr>))"

definition build_chat_messages :: "task_envelope \<Rightarrow> message list" where
  "build_chat_messages t =
     (case te_evidence t of
        Some e \<Rightarrow> if e \<noteq> [] then [\<lparr>msg_role = ''system'', msg_content = ''Context/Evidence:'' @ [CHR 0x0A] @ e\<rparr>] else []
      | None \<Rightarrow> []) @
     [\<lparr>msg_role = ''user'',
       msg_content = ''Objective: '' @ te_objective t @ [CHR 0x0A] @
         (case te_constraints t of Some c \<Rightarrow> ''Constraints: '' @ c @ [CHR 0x0A] | None \<Rightarrow> []) @
         [CHR 0x0A] @ ''Please complete this task and provide the result.''\<rparr>]"

text \<open>An agent: its answer to a chat and to a task, either of which can fail with a message.\<close>

record agent =
  ag_chat :: "message list \<Rightarrow> string + string"
  ag_run_task :: "task_envelope \<Rightarrow> string + task_result"

record mode_runtime =
  mr_kind :: mode_kind
  mr_registry :: "(string, agent) hmap option"
  mr_agent_name :: "string option"
  mr_degrade_policy :: auto_degrade_policy
  mr_posture :: approval_posture

definition mode_runtime_new :: "mode_kind \<Rightarrow> (string, agent) hmap \<Rightarrow> string option \<Rightarrow> mode_runtime" where
  "mode_runtime_new kind registry agent_name =
     \<lparr>mr_kind = kind, mr_registry = Some registry, mr_agent_name = agent_name, mr_degrade_policy = DReadOnly,
      mr_posture = default_posture_for kind\<rparr>"

definition resolve_mode_runtime_with_posture ::
  "string \<Rightarrow> approval_posture option \<Rightarrow> (string, agent) hmap option \<Rightarrow> string option \<Rightarrow> string + mode_runtime" where
  "resolve_mode_runtime_with_posture mode posture registry agent_name =
     (let kind = mode_kind_from mode in
      case registry of
        None \<Rightarrow> Inl ''ModeRuntime requires a registry''
      | Some r \<Rightarrow>
          (let rt = mode_runtime_new kind r agent_name in
           Inr (case posture of Some p \<Rightarrow> rt\<lparr>mr_posture := p\<rparr> | None \<Rightarrow> rt)))"

definition resolve_mode_runtime ::
  "string \<Rightarrow> (string, agent) hmap option \<Rightarrow> string option \<Rightarrow> string + mode_runtime" where
  "resolve_mode_runtime mode registry agent_name = resolve_mode_runtime_with_posture mode None registry agent_name"

definition allowed_tools :: "mode_runtime \<Rightarrow> string list" where
  "allowed_tools rt =
     (if mr_kind rt = MSafeGuard \<and> mr_degrade_policy rt \<noteq> DReadOnly then ALL_EXEC_TOOL_NAMES
      else fst (policy_for_kind (mr_kind rt)))"

definition max_tool_calls :: "mode_runtime \<Rightarrow> nat" where
  "max_tool_calls rt = snd (policy_for_kind (mr_kind rt))"

definition chosen_agent :: "mode_runtime \<Rightarrow> (string \<times> agent) option" where
  "chosen_agent rt =
     (case mr_registry rt of
        None \<Rightarrow> None
      | Some registry \<Rightarrow>
          (case (case mr_agent_name rt of
                   Some n \<Rightarrow> Some n
                 | None \<Rightarrow> (case sort (map fst registry) of [] \<Rightarrow> None | n # _ \<Rightarrow> Some n)) of
             None \<Rightarrow> None
           | Some n \<Rightarrow> map_option (\<lambda>a. (n, a)) (hm_get registry n)))"

definition chat_result :: "mode_kind \<Rightarrow> task_envelope \<Rightarrow> string \<Rightarrow> string \<Rightarrow> task_result" where
  "chat_result kind t name answer =
     \<lparr>tr_success = True,
      tr_output = Some (ModeObject ((output_base (mode_name kind) (te_task_id t) ''completed'')
        \<lparr>mo_agent := Some name, mo_answer := Some answer\<rparr>)),
      tr_error = None,
      tr_audit_log = Some (mode_name kind @ '' mode: '' @ audit_ids (te_task_id t) (te_phase t) (te_role t) @ '', agent='' @ name),
      tr_pua_report = Some (mode_execution_report (mode_name kind) False)\<rparr>"

definition run_mode :: "mode_runtime \<Rightarrow> task_envelope \<Rightarrow> task_result" where
  "run_mode rt t =
     (let kind = mr_kind rt;
          fallback = fallback_result kind (te_task_id t) (te_objective t) (te_phase t) (te_role t)
      in case pre_execute kind (te_task_id t) (te_objective t) (te_phase t) (te_role t) of
           Some early \<Rightarrow> early
         | None \<Rightarrow>
             (case chosen_agent rt of
                None \<Rightarrow> fallback
              | Some (name, a) \<Rightarrow>
                  if use_chat kind
                  then (case ag_chat a (build_chat_messages t) of
                          Inr output \<Rightarrow> chat_result kind t name output
                        | Inl e \<Rightarrow> fallback)
                  else (case ag_run_task a t of
                          Inr r \<Rightarrow> r\<lparr>tr_pua_report := Some (mode_execution_report (mode_name kind) False)\<rparr>
                        | Inl e \<Rightarrow> fallback)))"

section \<open>The tool filter\<close>

lemma filter_calls_kept:
  "fst (filter_calls al m calls kept blocked) =
     kept @ take (m - length kept) (filter (\<lambda>c. fst c \<in> set al) calls)"
  by (induction al m calls kept blocked rule: filter_calls.induct) (auto simp: take_Cons' Suc_diff_le)

lemma filter_calls_mset:
  "mset (map fst (fst (filter_calls al m calls kept blocked))) + mset (snd (filter_calls al m calls kept blocked)) =
     mset (map fst kept) + mset blocked + mset (map fst calls)"
  by (induction al m calls kept blocked rule: filter_calls.induct) auto

text \<open>The filter keeps the first calls to tools of the mode, in order, up to the mode's limit, and reports every
  other call as blocked: none is lost or made up.\<close>

theorem mode_filter_exact:
  "let (kept, blocked) = filter_tool_calls_by_policy calls kind; (allowed, limit) = policy_for_kind kind in
   kept = take limit (filter (\<lambda>c. fst c \<in> set allowed) calls) \<and>
   mset (map fst kept) + mset blocked = mset (map fst calls)"
  using filter_calls_kept[of "fst (policy_for_kind kind)" "snd (policy_for_kind kind)" calls "[]" "[]"]
    filter_calls_mset[of "fst (policy_for_kind kind)" "snd (policy_for_kind kind)" calls "[]" "[]"]
  by (simp add: filter_tool_calls_by_policy_def case_prod_unfold Let_def)

lemma low_risk_extends: "LOW_RISK_TOOL_NAMES = READ_ONLY_TOOL_NAMES @
   [''uuid_gen'', ''random_token'', ''encode_decode'', ''hash_file'', ''diagnostics'', ''format_code'', ''svg_export'']"
  by (simp add: LOW_RISK_TOOL_NAMES_def READ_ONLY_TOOL_NAMES_def)

lemma read_only_exec: "list_all (\<lambda>t. t \<in> set ALL_EXEC_TOOL_NAMES) (''http_request'' # READ_ONLY_TOOL_NAMES)"
  by (simp add: READ_ONLY_TOOL_NAMES_def ALL_EXEC_TOOL_NAMES_def)

lemma low_risk_no_writer:
  "list_all (\<lambda>t. t \<notin> set LOW_RISK_TOOL_NAMES)
     [''write_file'', ''edit_file'', ''apply_patch'', ''move_path'', ''delete_path'', ''copy_path'',
      ''create_directory'', ''shell_exec'', ''git'', ''archive_extract'', ''jsonl_write'']"
  by (simp add: LOW_RISK_TOOL_NAMES_def)

text \<open>What the modes may use: asking uses no tool; the tools of the safeguard mode are low-risk tools, and
  those of the plan mode too except for HTTP requests; both are part of what the executing modes may
  use; and no low-risk tool is among the tools that change files by their own name.\<close>

theorem mode_tool_sets:
  "policy_for_kind MAsk = ([], 0) \<and>
   set (fst (policy_for_kind MSafeGuard)) \<subseteq> set LOW_RISK_TOOL_NAMES \<and>
   set (fst (policy_for_kind MPlan)) \<subseteq> insert ''http_request'' (set LOW_RISK_TOOL_NAMES) \<and>
   set (fst (policy_for_kind MSafeGuard)) \<union> set (fst (policy_for_kind MPlan)) \<subseteq> set (fst (policy_for_kind MEdit)) \<and>
   fst (policy_for_kind MEdit) = fst (policy_for_kind MFullAuto) \<and>
   set LOW_RISK_TOOL_NAMES \<inter> {''write_file'', ''edit_file'', ''apply_patch'', ''move_path'', ''delete_path'', ''copy_path'',
     ''create_directory'', ''shell_exec'', ''git'', ''archive_extract'', ''jsonl_write''} = {}"
proof -
  have "set READ_ONLY_TOOL_NAMES \<subseteq> set LOW_RISK_TOOL_NAMES" by (auto simp: low_risk_extends)
  moreover have "set plan_tools \<subseteq> insert ''http_request'' (set READ_ONLY_TOOL_NAMES)" by (auto simp: plan_tools_def)
  moreover have "insert ''http_request'' (set READ_ONLY_TOOL_NAMES) \<subseteq> set ALL_EXEC_TOOL_NAMES"
    using read_only_exec by (auto simp: list_all_iff)
  ultimately show ?thesis using low_risk_no_writer by (auto simp: list_all_iff)
qed

section \<open>Risk\<close>

lemma split_by_pieces: "w \<in> set (split_by p s) \<Longrightarrow> c \<in> set w \<Longrightarrow> \<not> p c"
  by (induction s arbitrary: w c) (auto split: list.splits if_splits, blast)

lemma is_alphanumeric_lower: "is_alphanumeric (to_ascii_lowercase_char c) = is_alphanumeric c"
  by (auto simp: to_ascii_lowercase_char_def is_alphanumeric_def Let_def of_char_of)

lemma no_word_match:
  assumes "c \<in> set word" and "\<not> is_alphanumeric c"
  shows "\<not> word_boundary_match text word"
proof
  assume "word_boundary_match text word"
  then obtain w where w: "w \<in> set (split_by (\<lambda>c. \<not> is_alphanumeric c) text)"
    and eq: "to_ascii_lowercase w = to_ascii_lowercase word" by (auto simp: word_boundary_match_def list_ex_iff)
  have "to_ascii_lowercase_char c \<in> set (to_ascii_lowercase word)" using assms(1) by (simp add: to_ascii_lowercase_def)
  then obtain d where d: "d \<in> set w" "to_ascii_lowercase_char d = to_ascii_lowercase_char c"
    unfolding eq[symmetric] by (auto simp: to_ascii_lowercase_def)
  have "is_alphanumeric d" using split_by_pieces[OF w d(1)] by simp
  with d(2) assms(2) show False by (metis is_alphanumeric_lower)
qed

lemmas risk_eval = compute_risk_score_def high_risk_keywords_def medium_risk_keywords_def extreme_multis_def
  word_boundary_match_def is_alphanumeric_def to_ascii_lowercase_def to_ascii_lowercase_char_def
  to_lowercase_def to_lowercase_char_def is_high_risk_operation_def

text \<open>Two of the words that raise the risk can never be found: texts are split at underscores, and the
  words have one. An objective that asks for the shell by its tool name has no risk at all.\<close>

theorem underscore_keywords_never_match:
  "\<not> word_boundary_match t ''shell_exec'' \<and> \<not> word_boundary_match t ''execute_command'' \<and>
   compute_risk_score ''shell_exec'' = 0"
proof -
  have a: "\<not> is_alphanumeric (CHR ''_'')" by (simp add: is_alphanumeric_def)
  have "compute_risk_score ''shell_exec'' = 0"
    by (simp add: risk_eval)
  with no_word_match[of "CHR ''_''"] a show ?thesis by simp
qed

text \<open>In safeguard mode an objective is stopped exactly when its score is at least a half, while the mode
  itself calls objectives from two tenths on high-risk. So there are objectives that the
  edit mode stops for approval and that the safeguard mode, which is meant to be stricter, runs.\<close>

theorem safeguard_runs_high_risk:
  "(pre_execute MSafeGuard i obj p r = None \<longleftrightarrow> compute_risk_score obj \<le> 4) \<and>
   (is_high_risk_operation MSafeGuard obj \<longleftrightarrow> 2 \<le> compute_risk_score obj) \<and>
   (is_high_risk_operation MSafeGuard ''delete all files'' \<and> pre_execute MEdit i ''delete all files'' p r \<noteq> None \<and>
    pre_execute MSafeGuard i ''delete all files'' p r = None)"
proof -
  have d: "compute_risk_score ''delete all files'' = 2" "is_high_risk_operation MEdit ''delete all files''"
    by (simp_all add: risk_eval)
  have a: "pre_execute MSafeGuard i x p r = None \<longleftrightarrow> compute_risk_score x \<le> 4" for x
    by (auto simp: pre_execute_def safeguard_policy_def Let_def)
  have b: "is_high_risk_operation MSafeGuard x \<longleftrightarrow> 2 \<le> compute_risk_score x" for x
    by (auto simp: is_high_risk_operation_def)
  have e: "pre_execute MEdit i ''delete all files'' p r \<noteq> None" using d(2) by (simp add: pre_execute_def)
  show ?thesis using a b d(1) e by simp
qed

section \<open>Runs\<close>

lemma pre_execute_fails: "pre_execute kind i obj p r = Some res \<Longrightarrow> \<not> tr_success res \<and> tr_error res \<noteq> None"
  by (auto simp: pre_execute_def edit_pending_def safeguard_blocked_def safeguard_confirm_def Let_def
      split: mode_kind.splits if_splits auto_degrade_policy.splits)

lemma fallback_succeeds: "tr_success (fallback_result kind i obj p r) \<and> tr_error (fallback_result kind i obj p r) = None"
  by (cases kind) (simp_all add: fallback_result_def Let_def)

text \<open>A run reports failure exactly when the mode stopped the task before any agent saw it, or, in edit
  mode, when the agent itself reported failure. In every other case it reports success without an
  error: also when there is no agent, and when the agent's answer failed.\<close>

theorem mode_run_fails_iff:
  "\<not> tr_success (run_mode rt t) \<longleftrightarrow>
     (\<exists>early. pre_execute (mr_kind rt) (te_task_id t) (te_objective t) (te_phase t) (te_role t) = Some early) \<or>
     mr_kind rt = MEdit \<and>
     (\<exists>name a res. chosen_agent rt = Some (name, a) \<and> ag_run_task a t = Inr res \<and> \<not> tr_success res)"
proof (cases "pre_execute (mr_kind rt) (te_task_id t) (te_objective t) (te_phase t) (te_role t)")
  case None
  have chat: "use_chat k \<longleftrightarrow> k \<noteq> MEdit" for k by (cases k) (simp_all add: use_chat_def)
  show ?thesis
  proof (cases "chosen_agent rt")
    case None
    then show ?thesis using \<open>pre_execute _ _ _ _ _ = None\<close> fallback_succeeds by (simp add: run_mode_def Let_def)
  next
    case (Some na)
    obtain name a where na: "na = (name, a)" by (cases na)
    show ?thesis
      using None Some na fallback_succeeds chat
      by (cases "ag_chat a (build_chat_messages t)"; cases "ag_run_task a t")
        (auto simp: run_mode_def Let_def chat_result_def)
  qed
next
  case (Some res)
  then show ?thesis using pre_execute_fails by (auto simp: run_mode_def Let_def)
qed

text \<open>A task whose agent fails is reported as done: in the full-automatic mode the result of a run whose chat
  failed is a success, has no error, and says that the task was executed.\<close>

theorem failed_chat_reported_as_success:
  assumes "mr_kind rt = MFullAuto" and "chosen_agent rt = Some (name, a)" and "ag_chat a (build_chat_messages t) = Inl e"
  shows "tr_success (run_mode rt t) \<and> tr_error (run_mode rt t) = None \<and>
    (\<exists>out. tr_output (run_mode rt t) = Some (ModeObject out) \<and>
       mo_message out = Some (''FullAuto task '' @ quoted (te_objective t) @ '' executed autonomously''))"
  using assms by (simp add: run_mode_def pre_execute_def use_chat_def fallback_result_def Let_def)

definition mute_agent :: agent where
  "mute_agent = \<lparr>ag_chat = (\<lambda>_. Inl ''down''), ag_run_task = (\<lambda>_. Inl ''down'')\<rparr>"

lemma failed_chat_reported_as_success_witness:
  "tr_success (run_mode (mode_runtime_new MFullAuto [(''a'', mute_agent)] None)
     \<lparr>te_task_id = ''t'', te_phase = ''p'', te_role = ''r'', te_objective = ''deploy'', te_constraints = None, te_evidence = None,
      te_input = JNull\<rparr>)"
  using failed_chat_reported_as_success[of "mode_runtime_new MFullAuto [(''a'', mute_agent)] None" "''a''" mute_agent]
  by (simp add: mode_runtime_new_def chosen_agent_def mute_agent_def)

end
