(* ===== verification/ToolRegistry.thy ===== *)
theory ToolRegistry
  imports ModeRuntime
begin

text \<open>
  Tools and their registry, \<open>src/orchestration/tool/types.rs\<close> and \<open>src/orchestration/tool/mod.rs\<close>: inputs and
  outputs, profiles, names and aliases, registration that is undone by a guard
  (\<open>src/orchestration/registration.rs\<close>), the chain of fallback tools, the hooks around a run, and
  the profiles of the core tools (\<open>src/orchestration/tool/registration/core.rs\<close>). What a tool does is a function of its
  input and of the state of the world, which it changes; the allow-list of the governance module is
  part of the registry's state.
\<close>

section \<open>Tools\<close>

record tool_input =
  ti_task_id :: string
  ti_phase :: string
  ti_agent_role :: string
  ti_objective :: string
  ti_constraints :: "string option"
  ti_evidence :: "string option"
  ti_payload :: json
  ti_allowed_base_dir :: "string option"

record tool_output =
  out_success :: bool
  out_result :: "json option"
  out_error :: "string option"
  out_verification :: "string option"
  out_audit_log :: "string option"
  out_pua_report :: "pua_report option"

record retry_policy =
  rp_max_retries :: nat
  rp_retry_on_failure :: bool

datatype tool_exposure = Direct | Deferred | Hidden

datatype tool_risk_level = RiskLow | RiskMedium | RiskHigh

record tool_profile =
  tp_capability :: string
  tp_risk_level :: tool_risk_level
  tp_timeout_budget_ms :: u64
  tp_retry_policy :: retry_policy
  tp_fallback_chain :: "string list"

record 'w tool =
  tl_exposure :: tool_exposure
  tl_run :: "tool_input \<Rightarrow> 'w \<Rightarrow> (string + tool_output) \<times> 'w"

record 'w tool_registry =
  rg_tools :: "(string, 'w tool) hmap"
  rg_profiles :: "(string, tool_profile) hmap"
  rg_aliases :: "(string, string) hmap"
  rg_allowlist :: "string set"

section \<open>The registry\<close>

definition registry_new_empty :: "string set \<Rightarrow> 'w tool_registry" where
  "registry_new_empty allow = \<lparr>rg_tools = [], rg_profiles = [], rg_aliases = [], rg_allowlist = allow\<rparr>"

definition register_with_profile :: "string \<Rightarrow> 'w tool \<Rightarrow> tool_profile \<Rightarrow> 'w tool_registry \<Rightarrow> 'w tool_registry" where
  "register_with_profile name t p r =
     r\<lparr>rg_allowlist := insert name (rg_allowlist r), rg_profiles := hm_insert name p (rg_profiles r),
       rg_tools := hm_insert name t (rg_tools r)\<rparr>"

definition no_retry :: retry_policy where
  "no_retry = \<lparr>rp_max_retries = 0, rp_retry_on_failure = False\<rparr>"

definition register_tool :: "string \<Rightarrow> 'w tool \<Rightarrow> 'w tool_registry \<Rightarrow> 'w tool_registry" where
  "register_tool name t r =
     register_with_profile name t
       \<lparr>tp_capability = ''custom'', tp_risk_level = RiskMedium, tp_timeout_budget_ms = 30000,
        tp_retry_policy = no_retry, tp_fallback_chain = []\<rparr> r"

definition unregister :: "string \<Rightarrow> 'w tool_registry \<Rightarrow> bool \<times> 'w tool_registry" where
  "unregister name r =
     (let removed = (hm_get (rg_tools r) name \<noteq> None);
          r = r\<lparr>rg_tools := hm_remove name (rg_tools r)\<rparr>
      in (removed,
          if removed
          then r\<lparr>rg_profiles := hm_remove name (rg_profiles r),
                 rg_aliases := hm_retain (\<lambda>canonical. canonical \<noteq> name) (rg_aliases r)\<rparr>
          else r))"

text \<open>A guard holds the name to unregister until it has been used.\<close>

definition register_guarded :: "string \<Rightarrow> 'w tool \<Rightarrow> 'w tool_registry \<Rightarrow> string option \<times> 'w tool_registry" where
  "register_guarded name t r = (Some name, register_tool name t r)"

definition release_guard :: "string option \<Rightarrow> 'w tool_registry \<Rightarrow> string option \<times> 'w tool_registry" where
  "release_guard g r = (case g of None \<Rightarrow> (None, r) | Some name \<Rightarrow> (None, snd (unregister name r)))"

definition register_alias :: "string \<Rightarrow> string \<Rightarrow> 'w tool_registry \<Rightarrow> 'w tool_registry" where
  "register_alias alias canonical r = r\<lparr>rg_aliases := hm_insert alias canonical (rg_aliases r)\<rparr>"

definition get_tool :: "'w tool_registry \<Rightarrow> string \<Rightarrow> 'w tool option" where
  "get_tool r name =
     (case hm_get (rg_tools r) name of
        Some t \<Rightarrow> Some t
      | None \<Rightarrow> Option.bind (hm_get (rg_aliases r) name) (hm_get (rg_tools r)))"

definition tool_names :: "'w tool_registry \<Rightarrow> string list" where
  "tool_names r = sort (map fst (rg_tools r))"

definition all_tool_names :: "'w tool_registry \<Rightarrow> string list" where
  "all_tool_names r = sort (map fst (rg_tools r) @ map fst (rg_aliases r))"

definition tools_by_exposure :: "tool_exposure \<Rightarrow> 'w tool_registry \<Rightarrow> string list" where
  "tools_by_exposure x r = sort (map fst (filter (\<lambda>(_, t). tl_exposure t = x) (rg_tools r)))"

definition tool_profile_of :: "'w tool_registry \<Rightarrow> string \<Rightarrow> tool_profile option" where
  "tool_profile_of r name =
     (let canonical = (case hm_get (rg_aliases r) name of Some c \<Rightarrow> c | None \<Rightarrow> name)
      in hm_get (rg_profiles r) canonical)"

section \<open>Fallbacks\<close>

text \<open>\<open>Path::file_name\<close> on Unix.\<close>

definition file_name :: "string \<Rightarrow> string option" where
  "file_name p =
     (let comps = filter (\<lambda>c. c \<noteq> [] \<and> c \<noteq> ''.'') (split_on (CHR ''/'') p)
      in if comps = [] \<or> last comps = ''..'' then None else Some (last comps))"

definition as_str :: "json \<Rightarrow> string option" where
  "as_str v = (case v of JString s \<Rightarrow> Some s | _ \<Rightarrow> None)"

definition adapt_fallback_input :: "string \<Rightarrow> string \<Rightarrow> tool_input \<Rightarrow> tool_input" where
  "adapt_fallback_input primary fallback input =
     (case ti_payload input of
        JObject obj \<Rightarrow>
          if primary = ''read_file'' \<and> fallback = ''search_files''
          then (case hm_get obj ''path'' of
                  Some path \<Rightarrow>
                    (let base = (case Option.bind (as_str path) file_name of Some n \<Rightarrow> n | None \<Rightarrow> [])
                     in input\<lparr>ti_payload := JObject (hm_insert ''pattern'' (JString base) (hm_remove ''path'' obj))\<rparr>)
                | None \<Rightarrow> input)
          else if primary \<in> {''code_index_search'', ''go_to_definition'', ''find_references''} \<and> fallback = ''grep''
          then (case (case hm_get obj ''query'' of Some q \<Rightarrow> Some q | None \<Rightarrow> hm_get obj ''symbol'') of
                  Some t \<Rightarrow> input\<lparr>ti_payload := JObject (hm_insert ''pattern'' t obj)\<rparr>
                | None \<Rightarrow> input)
          else input
      | _ \<Rightarrow> input)"

fun run_fallbacks ::
  "'w tool_registry \<Rightarrow> string \<Rightarrow> tool_input \<Rightarrow> string list \<Rightarrow> tool_output \<Rightarrow> 'w \<Rightarrow> (string + tool_output) \<times> 'w" where
  "run_fallbacks r name input [] last_result w = (Inr last_result, w)"
| "run_fallbacks r name input (fb_name # rest) last_result w =
     (case get_tool r fb_name of
        None \<Rightarrow> run_fallbacks r name input rest last_result w
      | Some fb \<Rightarrow>
          (case tl_run fb (adapt_fallback_input name fb_name input) w of
             (Inl e, w) \<Rightarrow> (Inl e, w)
           | (Inr fb_result, w) \<Rightarrow>
               if out_success fb_result
               then (Inr (fb_result\<lparr>out_audit_log := Some (''primary '' @ quoted name @ '' failed, fallback '' @ quoted fb_name @ '' succeeded'')\<rparr>), w)
               else run_fallbacks r name input rest fb_result w))"

definition run_fallback_chain ::
  "'w tool_registry \<Rightarrow> string \<Rightarrow> tool_input \<Rightarrow> 'w \<Rightarrow> (string + tool_output) \<times> 'w" where
  "run_fallback_chain r name input w =
     (case get_tool r name of
        None \<Rightarrow> (Inl (''error.tool_not_found '' @ name), w)
      | Some primary \<Rightarrow>
          (case tl_run primary input w of
             (Inl e, w) \<Rightarrow> (Inl e, w)
           | (Inr res, w) \<Rightarrow>
               if out_success res then (Inr res, w)
               else run_fallbacks r name input
                      (case tool_profile_of r name of Some p \<Rightarrow> tp_fallback_chain p | None \<Rightarrow> []) res w))"

section \<open>Hooks\<close>

text \<open>The registered hooks run side by side; \<open>results\<close> holds what they answered, in the order of registration.\<close>

fun first_error :: "(string + unit) list \<Rightarrow> string + unit" where
  "first_error [] = Inr ()"
| "first_error (Inl e # rs) = Inl e"
| "first_error (Inr u # rs) = first_error rs"

definition run_pre_async :: "bool \<Rightarrow> (string + unit) list \<Rightarrow> string + unit" where
  "run_pre_async poisoned results = (if poisoned \<or> results = [] then Inr () else first_error results)"

text \<open>The entry point that runs the hooks itself; the answers of the hooks are arguments, the hooks
  after the run see its outcome (\<open>Some\<close> when they are called).\<close>

definition run_with_fallback_async ::
  "bool \<Rightarrow> (string + unit) list \<Rightarrow> 'w tool_registry \<Rightarrow> string \<Rightarrow> tool_input \<Rightarrow> 'w \<Rightarrow>
   (string + tool_output) \<times> tool_output option \<times> 'w" where
  "run_with_fallback_async poisoned results r name input w =
     (case get_tool r name of
        None \<Rightarrow> (Inl (''error.tool_not_found '' @ name), None, w)
      | Some _ \<Rightarrow>
          (case run_pre_async poisoned results of
             Inl e \<Rightarrow> (Inl e, None, w)
           | Inr _ \<Rightarrow>
               (case run_fallback_chain r name input w of
                  (Inl e, w) \<Rightarrow> (Inl e, None, w)
                | (Inr res, w) \<Rightarrow> (Inr res, if poisoned then None else Some res, w))))"

section \<open>The core tools\<close>

definition one_retry :: retry_policy where
  "one_retry = \<lparr>rp_max_retries = 1, rp_retry_on_failure = True\<rparr>"

definition profile_of :: "string \<Rightarrow> tool_risk_level \<Rightarrow> u64 \<Rightarrow> retry_policy \<Rightarrow> string list \<Rightarrow> tool_profile" where
  "profile_of cap risk budget retry chain =
     \<lparr>tp_capability = cap, tp_risk_level = risk, tp_timeout_budget_ms = budget, tp_retry_policy = retry, tp_fallback_chain = chain\<rparr>"

definition core_profiles :: "(string \<times> tool_profile) list" where
  "core_profiles =
     [(''read_file'', profile_of ''filesystem_read'' RiskLow 10000 one_retry [''search_files'']),
      (''write_file'', profile_of ''filesystem_write'' RiskHigh 15000 no_retry []),
      (''search_files'', profile_of ''filesystem_search'' RiskLow 10000 one_retry []),
      (''apply_patch'', profile_of ''patch_apply'' RiskHigh 20000 no_retry [''inspect_git_diff'']),
      (''run_tests'', profile_of ''verification_execute'' RiskMedium 300000 one_retry [''inspect_git_diff'']),
      (''inspect_git_diff'', profile_of ''scm_diff'' RiskLow 8000 one_retry []),
      (''skill_list'', profile_of ''skill_list'' RiskLow 5000 no_retry []),
      (''skill_execute'', profile_of ''skill_execute'' RiskMedium 120000 one_retry []),
      (''skill_create'', profile_of ''skill_create'' RiskMedium 30000 no_retry []),
      (''skill_reload'', profile_of ''skill_reload'' RiskLow 30000 no_retry [])]"

definition core_aliases :: "(string \<times> string) list" where
  "core_aliases =
     [(''file_move'', ''move_path''), (''file_delete'', ''delete_path''), (''execute_command'', ''shell_exec''),
      (''terminal'', ''shell_exec''), (''bash'', ''shell_exec''), (''find_path'', ''search_files''),
      (''semantic_search'', ''code_index_search''), (''cargo_test'', ''run_tests''), (''find_files'', ''search_files'')]"

definition register_core :: "(string \<Rightarrow> 'w tool) \<Rightarrow> 'w tool_registry \<Rightarrow> 'w tool_registry" where
  "register_core impl r =
     fold (\<lambda>(a, c). register_alias a c) core_aliases
       (fold (\<lambda>(n, p). register_with_profile n (impl n) p) core_profiles r)"

section \<open>Registration and roll-back\<close>

definition resolves_to :: "'w tool_registry \<Rightarrow> string \<Rightarrow> string \<Rightarrow> bool" where
  "resolves_to r x name \<longleftrightarrow>
     x = name \<or> hm_get (rg_tools r) x = None \<and> hm_get (rg_aliases r) x = Some name"

lemma get_unregister:
  assumes "hm_wf (rg_aliases r)" and "hm_get (rg_aliases r) name = None"
  shows "get_tool (snd (unregister name r)) x = (if resolves_to r x name then None else get_tool r x)"
  using assms
  by (auto simp: unregister_def get_tool_def resolves_to_def hm_get_retain Let_def fun_upd_def split: option.splits bind_splits)

lemma get_register:
  "get_tool (register_tool name t r) x =
     (if resolves_to r x name then Some t else get_tool r x)"
  by (auto simp: register_tool_def register_with_profile_def get_tool_def resolves_to_def split: option.splits bind_splits)

lemma resolves_register: "resolves_to (register_tool name t r) x name = resolves_to r x name"
  by (auto simp: register_tool_def register_with_profile_def resolves_to_def)

text \<open>Dropping the guard of a registration removes the tool under its name and its aliases, and nothing else.
  So the registry answers as before the registration exactly when no tool had that name: a tool
  that was replaced is not restored.\<close>

theorem registration_guard_exact:
  assumes "hm_wf (rg_aliases r)" and "hm_get (rg_aliases r) name = None"
    and "register_guarded name t r = (g, r1)"
  shows "get_tool r1 name = Some t \<and>
    get_tool (snd (release_guard g r1)) x = (if resolves_to r x name then None else get_tool r x) \<and>
    release_guard (fst (release_guard g r1)) (snd (release_guard g r1)) = release_guard g r1 \<and>
    (get_tool (snd (release_guard g r1)) = get_tool r \<longleftrightarrow> hm_get (rg_tools r) name = None)"
proof -
  have g: "g = Some name" and r1: "r1 = register_tool name t r" using assms(3) by (auto simp: register_guarded_def)
  have al: "rg_aliases r1 = rg_aliases r" by (simp add: r1 register_tool_def register_with_profile_def)
  have get: "get_tool (snd (release_guard g r1)) x = (if resolves_to r x name then None else get_tool r x)" for x
    using get_unregister[of r1 name x] assms(1,2)
    by (simp add: g release_guard_def al) (simp add: r1 resolves_register get_register)
  have none: "get_tool r x = None" if "resolves_to r x name" "hm_get (rg_tools r) name = None" for x
    using that assms(2) by (auto simp: resolves_to_def get_tool_def)
  have "get_tool (snd (release_guard g r1)) = get_tool r \<longleftrightarrow> hm_get (rg_tools r) name = None"
  proof
    assume "get_tool (snd (release_guard g r1)) = get_tool r"
    then have "get_tool r name = None" using get[of name] by (simp add: resolves_to_def)
    then show "hm_get (rg_tools r) name = None" by (auto simp: get_tool_def split: option.splits)
  next
    assume "hm_get (rg_tools r) name = None"
    then show "get_tool (snd (release_guard g r1)) = get_tool r" using get none by (auto simp: fun_eq_iff)
  qed
  moreover have "get_tool r1 name = Some t" by (simp add: r1 get_register resolves_to_def)
  moreover have "release_guard (fst (release_guard g r1)) (snd (release_guard g r1)) = release_guard g r1"
    by (simp add: g release_guard_def)
  ultimately show ?thesis using get by blast
qed

definition null_tool :: "unit tool" where
  "null_tool = \<lparr>tl_exposure = Direct, tl_run = (\<lambda>_ w. (Inl ''none'', w))\<rparr>"

lemma registration_guard_exact_witness:
  "get_tool (snd (release_guard (Some ''grep'') (register_tool ''grep'' null_tool (register_tool ''grep'' null_tool (registry_new_empty {}))))) ''grep'' = None"
  using registration_guard_exact[of "register_tool ''grep'' null_tool (registry_new_empty {})" "''grep''" null_tool
      "Some ''grep''" _ "''grep''", OF _ _ register_guarded_def]
  by (simp add: resolves_to_def register_tool_def register_with_profile_def registry_new_empty_def)

section \<open>Fallbacks of the core tools\<close>

lemma register_with_profile_fields [simp]:
  "rg_tools (register_with_profile n t p r) = hm_insert n t (rg_tools r)"
  "rg_profiles (register_with_profile n t p r) = hm_insert n p (rg_profiles r)"
  "rg_aliases (register_with_profile n t p r) = rg_aliases r"
  by (simp_all add: register_with_profile_def)

lemma fold_register_other:
  "name \<notin> fst ` set ps \<Longrightarrow> hm_get (rg_tools (fold (\<lambda>(n, p). register_with_profile n (impl n) p) ps r)) name = hm_get (rg_tools r) name \<and>
   hm_get (rg_profiles (fold (\<lambda>(n, p). register_with_profile n (impl n) p) ps r)) name = hm_get (rg_profiles r) name"
  by (induction ps arbitrary: r) auto

lemma fold_register_get:
  "distinct (map fst ps) \<Longrightarrow> (name, p) \<in> set ps \<Longrightarrow>
   hm_get (rg_tools (fold (\<lambda>(n, p). register_with_profile n (impl n) p) ps r)) name = Some (impl name) \<and>
   hm_get (rg_profiles (fold (\<lambda>(n, p). register_with_profile n (impl n) p) ps r)) name = Some p"
proof (induction ps arbitrary: r)
  case (Cons q ps)
  obtain n p' where q: "q = (n, p')" by (cases q)
  show ?case
  proof (cases "name = n \<and> p = p'")
    case True
    then show ?thesis
      using Cons.prems q fold_register_other[of name ps impl "register_with_profile n (impl n) p' r"] by auto
  next
    case False
    then show ?thesis using Cons q by auto
  qed
qed simp

lemma fold_alias_tools [simp]:
  "rg_tools (fold (\<lambda>(a, c). register_alias a c) as r) = rg_tools r"
  "rg_profiles (fold (\<lambda>(a, c). register_alias a c) as r) = rg_profiles r"
  by (induction as arbitrary: r) (auto simp: register_alias_def)

lemma core_distinct: "distinct (map fst core_profiles)"
  by (simp add: core_profiles_def)

lemma core_lookup:
  assumes "(name, p) \<in> set core_profiles"
  shows "hm_get (rg_tools (register_core impl r)) name = Some (impl name)"
    "get_tool (register_core impl r) name = Some (impl name)" "hm_get (rg_profiles (register_core impl r)) name = Some p"
  using fold_register_get[OF core_distinct assms, of impl r] by (simp_all add: register_core_def get_tool_def)

lemma core_alias:
  "hm_get (rg_aliases (register_core impl (registry_new_empty A))) name = map_of core_aliases name"
proof -
  have a: "rg_aliases (fold (\<lambda>(a, c). register_alias a c) as r) = fold (\<lambda>(a, c). hm_insert a c) as (rg_aliases r)" for as and r :: "'a tool_registry"
    by (induction as arbitrary: r) (auto simp: register_alias_def)
  have b: "rg_aliases (fold (\<lambda>(n, p). register_with_profile n (impl n) p) ps r) = rg_aliases r" for ps and r :: "'a tool_registry"
    by (induction ps arbitrary: r) (auto simp: register_with_profile_def)
  show ?thesis
    unfolding register_core_def a b by (simp add: core_aliases_def registry_new_empty_def)
qed

text \<open>C23: A failing test run is reported as a success: when the test tool ran and reported failure, its fallback
  shows the current diff, and if that works, its output is the result, whether the tool was
  called by its name or by its alias. The same happens to a patch that did not apply.\<close>

theorem failed_tests_reported_as_success:
  assumes "name \<in> {''run_tests'', ''cargo_test'', ''apply_patch''}"
    and "tl_run (impl (if name = ''cargo_test'' then ''run_tests'' else name)) input w = (Inr failed, w1)" and "\<not> out_success failed"
    and "tl_run (impl ''inspect_git_diff'') input w1 = (Inr diff, w2)" and "out_success diff"
  shows "run_fallback_chain (register_core impl (registry_new_empty A)) name input w =
    (Inr (diff\<lparr>out_audit_log := Some (''primary '' @ quoted name @ '' failed, fallback '' @ quoted ''inspect_git_diff'' @ '' succeeded'')\<rparr>), w2)"
proof -
  let ?r = "register_core impl (registry_new_empty A)"
  let ?n = "if name = ''cargo_test'' then ''run_tests'' else name"
  obtain p where p: "(?n, p) \<in> set core_profiles" "tp_fallback_chain p = [''inspect_git_diff'']"
  proof -
    have "(''run_tests'', profile_of ''verification_execute'' RiskMedium 300000 one_retry [''inspect_git_diff'']) \<in> set core_profiles"
      "(''apply_patch'', profile_of ''patch_apply'' RiskHigh 20000 no_retry [''inspect_git_diff'']) \<in> set core_profiles"
      by (simp_all add: core_profiles_def)
    note c = this
    show thesis
    proof (cases "name = ''apply_patch''")
      case True
      then show thesis using c(2) by (intro that[of "profile_of ''patch_apply'' RiskHigh 20000 no_retry [''inspect_git_diff'']"]) (simp_all add: profile_of_def)
    next
      case False
      then have "?n = ''run_tests''" using assms(1) by auto
      then show thesis
        using c(1) by (intro that[of "profile_of ''verification_execute'' RiskMedium 300000 one_retry [''inspect_git_diff'']"]) (simp_all add: profile_of_def)
    qed
  qed
  have d: "get_tool ?r ''inspect_git_diff'' = Some (impl ''inspect_git_diff'')"
    by (rule core_lookup(2)[of _ "profile_of ''scm_diff'' RiskLow 8000 one_retry []"]) (simp add: core_profiles_def)
  have al: "hm_get (rg_aliases ?r) name = (if name = ''cargo_test'' then Some ''run_tests'' else None)"
    using assms(1) by (elim insertE emptyE) (simp_all add: core_alias core_aliases_def)
  have "hm_get (rg_tools ?r) ''cargo_test'' = None"
    using fold_register_other[of "''cargo_test''" core_profiles impl "registry_new_empty A"]
    by (simp add: register_core_def registry_new_empty_def) (simp add: core_profiles_def)
  then have g: "get_tool ?r name = Some (impl ?n)"
    using core_lookup(1)[OF p(1), of impl "registry_new_empty A"] al by (auto simp: get_tool_def)
  have "tool_profile_of ?r name = Some p"
    using core_lookup(3)[OF p(1), of impl "registry_new_empty A"] al by (auto simp: tool_profile_of_def)
  moreover have "adapt_fallback_input name ''inspect_git_diff'' input = input"
    by (simp add: adapt_fallback_input_def split: json.split)
  ultimately show ?thesis using g d p(2) assms(2-5) by (simp add: run_fallback_chain_def)
qed

definition plain_output :: "bool \<Rightarrow> tool_output" where
  "plain_output b = \<lparr>out_success = b, out_result = None, out_error = None, out_verification = None, out_audit_log = None,
     out_pua_report = None\<rparr>"

definition sample_input :: tool_input where
  "sample_input = \<lparr>ti_task_id = ''t'', ti_phase = ''p'', ti_agent_role = ''r'', ti_objective = ''o'', ti_constraints = None,
     ti_evidence = None, ti_payload = JNull, ti_allowed_base_dir = None\<rparr>"

definition red_build :: "string \<Rightarrow> unit tool" where
  "red_build n = \<lparr>tl_exposure = Direct, tl_run = (\<lambda>_ w. (Inr (plain_output (n \<noteq> ''run_tests'')), w))\<rparr>"

lemma failed_tests_reported_as_success_witness:
  "map_sum id out_success (fst (run_fallback_chain (register_core red_build (registry_new_empty {})) ''cargo_test'' sample_input ())) = Inr True"
  using failed_tests_reported_as_success[of "''cargo_test''" red_build sample_input "()" "plain_output False" "()" "plain_output True" "()" "{}"]
  by (simp add: red_build_def plain_output_def)

end
