(* ===== verification/Guardian.thy ===== *)
theory Guardian
  imports Complex_Main AuditLog ToolRegistry
begin

text \<open>
  The independent review of tool actions, \<open>src/governance/guardian.rs\<close>, and the tool hook that uses it,
  \<open>GuardianHook\<close> of \<open>src/orchestration/tool/types.rs\<close>: the breaker that counts denials, the reading of
  the reviewer's answer, and one review. The model's answer, its failure or the timeout is an
  argument. A review has two locked sections with the model call between them, so reviews may overlap. A
  \<open>VecDeque\<close> has at least the capacity that was asked for, how much is an argument; the prompt is not
  represented, a confidence is a rational number.
\<close>

section \<open>The breaker\<close>

datatype guardian_decision =
    GAllow rat
  | GDeny string
  | GEscalate string

definition is_allowed :: "guardian_decision \<Rightarrow> bool" where
  "is_allowed d = (case d of GAllow _ \<Rightarrow> True | _ \<Rightarrow> False)"

text \<open>The allocator: the capacity of a new buffer and of one that grows.\<close>

record ring_alloc =
  ra_with_capacity :: "nat \<Rightarrow> nat"
  ra_grow :: "nat \<Rightarrow> nat"

record guardian_breaker =
  max_consecutive_denials :: u32
  max_recent_denials :: u32
  denials :: "bool list"
  denials_capacity :: nat
  consecutive_denials :: u32

definition guardian_breaker_new :: "ring_alloc \<Rightarrow> u32 \<Rightarrow> u32 \<Rightarrow> nat \<Rightarrow> guardian_breaker" where
  "guardian_breaker_new al max_consecutive max_recent window_size =
     \<lparr>max_consecutive_denials = max_consecutive, max_recent_denials = max_recent, denials = [],
      denials_capacity = ra_with_capacity al window_size, consecutive_denials = 0\<rparr>"

definition guardian_breaker_default :: "ring_alloc \<Rightarrow> guardian_breaker" where
  "guardian_breaker_default al = guardian_breaker_new al 3 10 50"

definition recent_denials :: "guardian_breaker \<Rightarrow> u32" where
  "recent_denials b = sum_list (map (\<lambda>d. if d then 1 else 0) (denials b))"

definition should_skip_review :: "guardian_breaker \<Rightarrow> bool" where
  "should_skip_review b =
     (if consecutive_denials b \<ge> max_consecutive_denials b then True
      else recent_denials b \<ge> max_recent_denials b)"

definition saturating_inc :: "u32 \<Rightarrow> u32" where
  "saturating_inc n = (if n = - 1 then n else n + 1)"

definition push_back :: "ring_alloc \<Rightarrow> bool \<Rightarrow> guardian_breaker \<Rightarrow> guardian_breaker" where
  "push_back al d b =
     b\<lparr>denials := denials b @ [d],
       denials_capacity := (if length (denials b) \<ge> denials_capacity b then ra_grow al (denials_capacity b)
                            else denials_capacity b)\<rparr>"

definition record_decision :: "ring_alloc \<Rightarrow> bool \<Rightarrow> guardian_breaker \<Rightarrow> guardian_breaker" where
  "record_decision al is_denial b =
     (let b = b\<lparr>consecutive_denials := (if is_denial then saturating_inc (consecutive_denials b) else 0)\<rparr>;
          b = (if length (denials b) \<ge> denials_capacity b then b\<lparr>denials := tl (denials b)\<rparr> else b)
      in push_back al is_denial b)"

record guardian_status =
  gs_consecutive_denials :: u32
  gs_max_consecutive_denials :: u32
  gs_recent_denials :: u32
  gs_max_recent_denials :: u32
  gs_tripped :: bool

definition circuit_breaker_status :: "guardian_breaker \<Rightarrow> guardian_status" where
  "circuit_breaker_status b =
     \<lparr>gs_consecutive_denials = consecutive_denials b, gs_max_consecutive_denials = max_consecutive_denials b,
      gs_recent_denials = recent_denials b, gs_max_recent_denials = max_recent_denials b,
      gs_tripped = should_skip_review b\<rparr>"

section \<open>The answer\<close>

definition thinking_prefix :: string where
  "thinking_prefix = ''__thinking__''"

definition sanitize_response :: "string \<Rightarrow> string" where
  "sanitize_response r = str_replace thinking_prefix [] r"

definition not_blank :: "string \<Rightarrow> bool" where
  "not_blank l = (trim l \<noteq> [])"

definition parse_decision :: "string \<Rightarrow> guardian_decision" where
  "parse_decision response =
     (let ls = str_lines (sanitize_response response);
          first_line = (case List.find not_blank ls of Some l \<Rightarrow> to_uppercase (trim l) | None \<Rightarrow> [])
      in if first_line = ''ALLOW'' then GAllow (8 / 10)
         else if first_line = ''DENY''
         then GDeny (case List.find not_blank (drop 1 ls) of Some l \<Rightarrow> trim l | None \<Rightarrow> ''denied by Guardian review'')
         else GDeny (''Guardian: could not parse decision from response: '' @ [CHR 0x27] @ first_line @ [CHR 0x27]))"

section \<open>A review\<close>

datatype review_result = Reply string | ChatFailed string | ReviewTimedOut

definition timeout_ms :: "u64 option \<Rightarrow> u64" where
  "timeout_ms t = (case t of Some n \<Rightarrow> n | None \<Rightarrow> 90000)"

text \<open>The first locked section: \<open>Some\<close> decision when the breaker is tripped.\<close>

definition begin_review :: "ring_alloc \<Rightarrow> guardian_breaker \<Rightarrow> guardian_decision option \<times> guardian_breaker" where
  "begin_review al b =
     (if should_skip_review b
      then let b = record_decision al False b in
           (Some (GEscalate (''circuit breaker tripped ('' @ show_word (consecutive_denials b) @ '' consecutive denials)'')), b)
      else (None, b))"

text \<open>The second one, after the call.\<close>

definition end_review ::
  "ring_alloc \<Rightarrow> u64 \<Rightarrow> review_result \<Rightarrow> guardian_breaker \<Rightarrow> guardian_decision \<times> guardian_breaker" where
  "end_review al timeout result b =
     (case result of
        Reply response \<Rightarrow>
          (let decision = parse_decision response in (decision, record_decision al (\<not> is_allowed decision) b))
      | ChatFailed e \<Rightarrow> (GDeny (''Guardian review chat failed: '' @ e), record_decision al True b)
      | ReviewTimedOut \<Rightarrow>
          (GDeny (''Guardian review timed out after '' @ show_word timeout @ ''ms''), record_decision al True b))"

definition review_action ::
  "ring_alloc \<Rightarrow> u64 \<Rightarrow> review_result \<Rightarrow> guardian_breaker \<Rightarrow> guardian_decision \<times> guardian_breaker" where
  "review_action al timeout result b =
     (case begin_review al b of
        (Some decision, b) \<Rightarrow> (decision, b)
      | (None, b) \<Rightarrow> end_review al timeout result b)"

section \<open>The tool hook\<close>

definition guardian_audit_entry :: "string \<Rightarrow> string \<Rightarrow> tool_input \<Rightarrow> guardian_decision \<Rightarrow> audit_log_entry" where
  "guardian_audit_entry now tool_name input decision =
     (let (verdict, reason) =
            (case decision of
               GAllow _ \<Rightarrow> (''allow'', []) | GDeny r \<Rightarrow> (''deny'', r) | GEscalate r \<Rightarrow> (''escalate_to_user'', r))
      in \<lparr>al_timestamp = now, al_task_id = ti_task_id input, al_phase = ''approval'', al_agent = None,
          al_tool = Some tool_name, al_decision = ''guardian_review'',
          al_inputs = JObject [(''tool_name'', JString tool_name), (''tool_args'', ti_payload input)],
          al_outputs = Some (JObject [(''verdict'', JString verdict), (''reason'', JString reason)]),
          al_error = None, al_confidence = None, al_data_classification = None, al_compliance_tags = [],
          al_retention_policy = None, al_correlation_id = None\<rparr>)"

definition guardian_pre_execute ::
  "ring_alloc \<Rightarrow> u64 \<Rightarrow> review_result \<Rightarrow> string \<Rightarrow> string \<Rightarrow> tool_input \<Rightarrow> guardian_breaker \<times> audit_log \<Rightarrow>
   (string + unit) \<times> guardian_breaker \<times> audit_log" where
  "guardian_pre_execute al timeout result now tool_name input st =
     (let (decision, b) = review_action al timeout result (fst st);
          l = record_entry (guardian_audit_entry now tool_name input decision) (snd st)
      in (case decision of
            GAllow _ \<Rightarrow> Inr ()
          | GDeny reason \<Rightarrow> Inl (''guardian denied: '' @ reason)
          | GEscalate reason \<Rightarrow> Inl (''guardian escalated: '' @ reason), b, l))"

section \<open>Fail-closed\<close>

definition approves :: "string \<Rightarrow> bool" where
  "approves response \<longleftrightarrow>
     (\<exists>l. List.find not_blank (str_lines (sanitize_response response)) = Some l \<and> to_uppercase (trim l) = ''ALLOW'')"

lemma parse_allowed_iff: "is_allowed (parse_decision r) \<longleftrightarrow> approves r"
  by (auto simp: parse_decision_def approves_def is_allowed_def Let_def split: option.splits)

lemma review_allowed_iff:
  "is_allowed (fst (review_action al t result b)) \<longleftrightarrow> \<not> should_skip_review b \<and> (\<exists>r. result = Reply r \<and> approves r)"
  by (auto simp: review_action_def begin_review_def end_review_def Let_def parse_allowed_iff[symmetric] split: review_result.splits)
    (auto simp: is_allowed_def)

lemma guardian_hook_cases:
  "guardian_pre_execute al t result now tool input (b, l) = (r, b', l') \<Longrightarrow>
   (r = Inr () \<longleftrightarrow> \<not> should_skip_review b \<and> (\<exists>answer. result = Reply answer \<and> approves answer)) \<and>
   (\<exists>d. is_allowed d = (r = Inr ()) \<and> l' = record_entry (guardian_audit_entry now tool input d) l)"
  using review_allowed_iff[of al t result b]
  by (auto simp: guardian_pre_execute_def is_allowed_def Let_def split: prod.splits guardian_decision.splits)

text \<open>C27: The guardian hook lets a tool run exactly when the breaker is not tripped and the reviewer answered
  with a first non-blank line that is the word allow; a tripped breaker, an error, a timeout and
  every other answer block the tool. Each decision, whatever it is, adds its entry to the audit log.\<close>

theorem guardian_hook_fail_closed:
  "guardian_pre_execute al t result now tool input (b, l) = (r, b', l') \<Longrightarrow>
   (r = Inr () \<longleftrightarrow> \<not> should_skip_review b \<and> (\<exists>answer. result = Reply answer \<and> approves answer)) \<and>
   (\<exists>d. is_allowed d = (r = Inr ()) \<and> l' = record_entry (guardian_audit_entry now tool input d) l)"
  by (rule guardian_hook_cases)

definition exact_alloc :: ring_alloc where
  "exact_alloc = \<lparr>ra_with_capacity = (\<lambda>n. n), ra_grow = (\<lambda>n. if n = 0 then 4 else 2 * n)\<rparr>"

lemma guardian_hook_fail_closed_witness:
  "fst (guardian_pre_execute exact_alloc 90000 (Reply ([CHR 0x0A] @ '' allow '' @ [CHR 0x0A] @ ''fine'')) ''now'' ''bash'' sample_input
     (guardian_breaker_default exact_alloc, audit_log_new 1)) = Inr ()"
proof -
  let ?a = "[CHR 0x0A] @ '' allow '' @ [CHR 0x0A] @ ''fine''"
  let ?p = "guardian_pre_execute exact_alloc 90000 (Reply ?a) ''now'' ''bash'' sample_input
     (guardian_breaker_default exact_alloc, audit_log_new 1)"
  have "is_allowed (parse_decision ?a)" "\<not> should_skip_review (guardian_breaker_default exact_alloc)" by code_simp+
  then show ?thesis
    using guardian_hook_fail_closed[of exact_alloc 90000 "Reply ?a" "''now''" "''bash''" sample_input
        "guardian_breaker_default exact_alloc" "audit_log_new 1" "fst ?p" "fst (snd ?p)" "snd (snd ?p)"]
    by (simp add: parse_allowed_iff del: append.simps)
qed

section \<open>The window\<close>

fun trailing :: "bool list \<Rightarrow> nat" where
  "trailing [] = 0"
| "trailing (d # ds) = (if trailing ds = length ds \<and> d then Suc (length ds) else trailing ds)"

lemma trailing_le: "trailing ds \<le> length ds"
  by (induction ds) auto

lemma trailing_snoc [simp]: "trailing (ds @ [d]) = (if d then Suc (trailing ds) else 0)"
  by (induction ds) auto

lemma saturating_inc_nat: "saturating_inc (of_nat (min n (2 ^ 32 - 1))) = of_nat (min (Suc n) (2 ^ 32 - 1))"
proof (cases "n < 2 ^ 32 - 1")
  case True
  then have "unat (of_nat n :: u32) = n" by (simp add: unat_of_nat take_bit_nat_eq_self)
  moreover have "unat (- 1 :: u32) = 2 ^ 32 - 1" by (simp add: unsigned_minus_1_eq_mask mask_eq_exp_minus_1)
  ultimately have "(of_nat n :: u32) \<noteq> - 1" using True by (metis less_irrefl)
  with True show ?thesis by (simp add: saturating_inc_def min_def)
next
  case False
  then show ?thesis by (simp add: saturating_inc_def min_def)
qed

lemma record_decision_below:
  assumes "0 < denials_capacity b" and "length (denials b) \<le> denials_capacity b"
  shows "record_decision al d b =
    b\<lparr>consecutive_denials := (if d then saturating_inc (consecutive_denials b) else 0),
      denials := drop (Suc (length (denials b)) - denials_capacity b) (denials b @ [d])\<rparr>"
  using assms by (cases "denials b") (auto simp: record_decision_def push_back_def Let_def)

text \<open>The breaker remembers exactly the last decisions, as many as the buffer holds, and counts the denials at
  the end of the history, stopping at the largest number: whatever the history, for every buffer that is not empty.\<close>

theorem guardian_breaker_exact:
  assumes "ra_with_capacity al window = Suc c"
  shows "fold (record_decision al) ds (guardian_breaker_new al mc mr window) =
    \<lparr>max_consecutive_denials = mc, max_recent_denials = mr, denials = drop (length ds - Suc c) ds,
     denials_capacity = Suc c, consecutive_denials = of_nat (min (trailing ds) (2 ^ 32 - 1))\<rparr>"
proof (induction ds rule: rev_induct)
  case Nil
  then show ?case by (simp add: guardian_breaker_new_def assms)
next
  case (snoc d ds)
  have "drop (Suc (length (drop (length ds - Suc c) ds)) - Suc c) (drop (length ds - Suc c) ds @ [d]) =
      drop (Suc (length ds) - Suc c) (ds @ [d])"
  proof (cases "length ds \<le> c")
    case False
    then have "Suc (length ds) - Suc c = Suc (length ds - Suc c)" by simp
    with False show ?thesis by simp
  qed simp
  then show ?case
    using snoc.IH saturating_inc_nat[of "trailing ds"] by (simp add: record_decision_below del: drop_append)
qed

lemma guardian_breaker_exact_witness:
  "denials (fold (record_decision exact_alloc) [True, False, True, True] (guardian_breaker_new exact_alloc 3 10 2)) = [True, True] \<and>
   consecutive_denials (fold (record_decision exact_alloc) [True, False, True, True] (guardian_breaker_new exact_alloc 3 10 2)) = 2"
  using guardian_breaker_exact[of exact_alloc 2 1 "[True, False, True, True]" 3 10]
  by (simp add: exact_alloc_def)

section \<open>Tripping\<close>

lemma recent_denials_count: "recent_denials b = of_nat (length (filter (\<lambda>d. d) (denials b)))"
proof -
  have "sum_list (map (\<lambda>d. if d then 1 else 0) ds) = (of_nat (length (filter (\<lambda>d. d) ds)) :: u32)" for ds
    by (induction ds) auto
  then show ?thesis by (simp add: recent_denials_def)
qed

lemma recent_after_release:
  assumes "0 < denials_capacity b" and "length (denials b) \<le> denials_capacity b" and "length (denials b) < 2 ^ 32"
  shows "recent_denials (record_decision al False b) \<le> recent_denials b"
proof -
  let ?n = "\<lambda>ds. length (filter (\<lambda>d. d) ds)"
  have d: "denials (record_decision al False b) = drop (Suc (length (denials b)) - denials_capacity b) (denials b @ [False])"
    using assms by (simp add: record_decision_below)
  have "?n (drop k ds) \<le> ?n ds" for k ds by (metis append_take_drop_id filter_append le_add2 length_append)
  then have "?n (denials (record_decision al False b)) \<le> ?n (denials b @ [False])" unfolding d by blast
  then have le: "?n (denials (record_decision al False b)) \<le> ?n (denials b)" by simp
  have small: "?n (denials b) < 2 ^ 32" using assms(3) length_filter_le[of "\<lambda>d. d" "denials b"] by linarith
  have u: "k < 2 ^ 32 \<Longrightarrow> unat (of_nat k :: u32) = k" for k by (simp add: unat_of_nat take_bit_nat_eq_self)
  show ?thesis unfolding recent_denials_count word_le_nat_alt using le small u by (metis le_less_trans)
qed

text \<open>A breaker that is tripped by denials in a row lets go after one escalation, although nobody has approved
  anything: the escalation is recorded as a decision that is no denial, the next action is sent to the
  reviewer again. The reason that is reported always speaks of zero denials in a row.\<close>

theorem guardian_breaker_releases:
  assumes "should_skip_review b" and "0 < max_consecutive_denials b" and "recent_denials b < max_recent_denials b"
    and "0 < denials_capacity b" and "length (denials b) \<le> denials_capacity b" and "length (denials b) < 2 ^ 32"
  shows "fst (begin_review al b) = Some (GEscalate ''circuit breaker tripped (0 consecutive denials)'') \<and>
    \<not> should_skip_review (snd (begin_review al b))"
proof -
  let ?b = "record_decision al False b"
  have c: "consecutive_denials ?b = 0" "max_consecutive_denials ?b = max_consecutive_denials b"
    "max_recent_denials ?b = max_recent_denials b"
    by (simp_all add: record_decision_def push_back_def Let_def)
  have "recent_denials ?b < max_recent_denials ?b"
    using recent_after_release[OF assms(4-6), of al] assms(3) c by simp
  moreover have "\<not> max_consecutive_denials ?b \<le> consecutive_denials ?b" using assms(2) c by simp
  ultimately have "\<not> should_skip_review ?b" by (simp add: should_skip_review_def)
  moreover have "show_nat 0 = ''0''" by code_simp
  ultimately show ?thesis using assms(1) c by (simp add: begin_review_def Let_def)
qed

lemma guardian_breaker_releases_witness:
  "let b = fold (record_decision exact_alloc) [True, True, True] (guardian_breaker_default exact_alloc)
   in should_skip_review b \<and> \<not> should_skip_review (snd (begin_review exact_alloc b))"
proof -
  let ?b = "fold (record_decision exact_alloc) [True, True, True] (guardian_breaker_default exact_alloc)"
  have "should_skip_review ?b" "0 < max_consecutive_denials ?b" "recent_denials ?b < max_recent_denials ?b"
    "0 < denials_capacity ?b" "length (denials ?b) \<le> denials_capacity ?b" "length (denials ?b) < 2 ^ 32"
    by (simp_all add: guardian_breaker_default_def guardian_breaker_new_def exact_alloc_def record_decision_def push_back_def
        should_skip_review_def saturating_inc_def recent_denials_def Let_def)
  with guardian_breaker_releases[of ?b exact_alloc] show ?thesis by (simp add: Let_def)
qed

text \<open>The reason of a denial is looked for from the second line on, even when the first line is blank.\<close>

lemma deny_reason_after_blank_line:
  "parse_decision ([CHR 0x0A] @ ''DENY'' @ [CHR 0x0A] @ ''unsafe'') = GDeny ''DENY''"
  by code_simp

end
