(* ===== verification/GovernanceGate.thy ===== *)
theory GovernanceGate
  imports ModeRuntime ApprovalChain
begin

unbundle bit_operations_syntax

text \<open>
  The permission gate of the tool executor: the sharded cache of permission answers and the low-risk
  tools, \<open>src/orchestration/tool/governance_gate.rs\<close>, and \<open>ensure_tool_permission\<close> of
  \<open>src/orchestration/tool/executor.rs\<close>, which asks the cache, then the permission hooks, then the client.
  What the client answers and what a hook process does are arguments. Each shard is changed under its
  own lock, so the operations on the cache are atomic; a call that found no answer decides later, when other calls may
  have inserted one (\<open>gate_step\<close>).
\<close>

section \<open>The cache\<close>

record gov_cache =
  gv_cache :: "(string, bool) hmap"
  gv_order :: "string list"
  gv_max_entries :: nat

definition gov_cache_new :: "nat \<Rightarrow> gov_cache" where
  "gov_cache_new n = \<lparr>gv_cache = [], gv_order = [], gv_max_entries = n\<rparr>"

definition gov_cache_get :: "gov_cache \<Rightarrow> string \<Rightarrow> bool option" where
  "gov_cache_get c k = hm_get (gv_cache c) k"

fun evict :: "nat \<Rightarrow> (string, bool) hmap \<Rightarrow> string list \<Rightarrow> (string, bool) hmap \<times> string list" where
  "evict n m [] = (m, [])"
| "evict n m (k # ks) = (if length (k # ks) > n then evict n (hm_remove k m) ks else (m, k # ks))"

definition gov_cache_insert :: "string \<Rightarrow> bool \<Rightarrow> gov_cache \<Rightarrow> gov_cache" where
  "gov_cache_insert k v c =
     (if hm_contains (gv_cache c) k then c
      else
        let (m, ks) = evict (gv_max_entries c) (hm_insert k v (gv_cache c)) (gv_order c @ [k])
        in c\<lparr>gv_cache := m, gv_order := ks\<rparr>)"

text \<open>The bytes of a string of characters below U+0100.\<close>

definition utf8_bytes :: "string \<Rightarrow> u64 list" where
  "utf8_bytes s =
     concat (map (\<lambda>c. let n = (of_char c :: nat) in
                      if n < 128 then [of_nat n] else [of_nat (192 + n div 64), of_nat (128 + n mod 64)]) s)"

definition hash_key :: "string \<Rightarrow> u64" where
  "hash_key key = fold (\<lambda>b h. (h XOR b) * 0x100000001b3) (utf8_bytes key) 0xcbf29ce484222325"

definition SHARD_COUNT :: nat where
  "SHARD_COUNT = 16"

type_synonym sharded_cache = "gov_cache list"

definition sharded_new :: "nat \<Rightarrow> sharded_cache" where
  "sharded_new total_max_entries =
     (let per_shard = total_max_entries div SHARD_COUNT in map (\<lambda>_. gov_cache_new per_shard) [0..<SHARD_COUNT])"

definition shard_index :: "string \<Rightarrow> nat" where
  "shard_index key = unat (hash_key key) mod SHARD_COUNT"

definition sharded_get :: "sharded_cache \<Rightarrow> string \<Rightarrow> bool option" where
  "sharded_get shards key = gov_cache_get (shards ! shard_index key) key"

definition sharded_insert :: "string \<Rightarrow> bool \<Rightarrow> sharded_cache \<Rightarrow> sharded_cache" where
  "sharded_insert key v shards =
     (let idx = shard_index key in shards[idx := gov_cache_insert key v (shards ! idx)])"

definition governance_cache :: sharded_cache where
  "governance_cache = sharded_new 1000"

definition is_low_risk_tool :: "string \<Rightarrow> bool" where
  "is_low_risk_tool tool_name = (tool_name \<in> set LOW_RISK_TOOL_NAMES)"

section \<open>The permission gate\<close>

record server_config =
  sc_governance_enabled :: bool
  sc_governance_policy_mode :: string
  sc_permission_hooks :: "permission_hook_config list"

definition enforce_permission_gate :: "server_config \<Rightarrow> bool" where
  "enforce_permission_gate cfg =
     (let mode = to_ascii_lowercase (trim (sc_governance_policy_mode cfg))
      in sc_governance_enabled cfg \<and> (mode = [] \<or> mode = ''active''))"

datatype client_reply = ClientAnswer bool | ClientError string

text \<open>What happens outside: the hook processes, the printed timeout, whether the task that runs the hooks fails,
  and the client's reply.\<close>

record gate_env =
  ge_run :: "permission_hook \<Rightarrow> string \<Rightarrow> json \<Rightarrow> process_result"
  ge_timeout :: string
  ge_hooks_lost :: bool
  ge_client :: client_reply

definition cache_key :: "string \<Rightarrow> string \<Rightarrow> string" where
  "cache_key session_id tool_name = session_id @ '':'' @ tool_name"

definition hooks_verdict ::
  "gate_env \<Rightarrow> server_config \<Rightarrow> string \<Rightarrow> json \<Rightarrow> audit_entry list \<Rightarrow> hook_verdict option \<times> audit_entry list" where
  "hooks_verdict env cfg tool_name args audit =
     (let hooks = permission_hooks_from_config (sc_permission_hooks cfg) in
      if hooks = [] then (None, audit)
      else
        let (d, audit) = run_permission_hooks (ge_run env) (ge_timeout env) hooks tool_name args audit
        in (if ge_hooks_lost env then None else hd_verdict d, audit))"

text \<open>What a call does after it has found no answer in the cache.\<close>

definition gate_decide ::
  "gate_env \<Rightarrow> server_config \<Rightarrow> string \<Rightarrow> string \<Rightarrow> json \<Rightarrow> sharded_cache \<times> audit_entry list \<Rightarrow>
   bool \<times> sharded_cache \<times> audit_entry list" where
  "gate_decide env cfg key tool_name args st =
     (case hooks_verdict env cfg tool_name args (snd st) of
        (Some HookDeny, audit) \<Rightarrow> (False, sharded_insert key False (fst st), audit)
      | (Some HookAllow, audit) \<Rightarrow> (True, sharded_insert key True (fst st), audit)
      | (Some HookOverride, audit) \<Rightarrow> (True, sharded_insert key True (fst st), audit)
      | (None, audit) \<Rightarrow>
          (let result = (case ge_client env of ClientAnswer b \<Rightarrow> b | ClientError e \<Rightarrow> True)
           in (result, sharded_insert key result (fst st), audit)))"

definition ensure_tool_permission ::
  "gate_env \<Rightarrow> server_config option \<Rightarrow> string option \<Rightarrow> string \<Rightarrow> json \<Rightarrow> sharded_cache \<times> audit_entry list \<Rightarrow>
   bool \<times> sharded_cache \<times> audit_entry list" where
  "ensure_tool_permission env server session tool_name args st =
     (case server of
        None \<Rightarrow> (True, st)
      | Some cfg \<Rightarrow>
          if \<not> enforce_permission_gate cfg then (True, st)
          else
            (case session of
               None \<Rightarrow> (True, st)
             | Some session_id \<Rightarrow>
                 (let key = cache_key session_id tool_name in
                  case sharded_get (fst st) key of
                    Some cached \<Rightarrow> (cached, st)
                  | None \<Rightarrow> gate_decide env cfg key tool_name args st)))"

section \<open>The cache: bound and what it returns\<close>

definition gov_cache_ok :: "gov_cache \<Rightarrow> bool" where
  "gov_cache_ok c \<longleftrightarrow> distinct (gv_order c) \<and> set (gv_order c) = dom (map_of (gv_cache c)) \<and>
     length (gv_order c) \<le> gv_max_entries c"

lemma evict_drop:
  "evict n m ks = (fold hm_remove (take (length ks - n) ks) m, drop (length ks - n) ks)"
  by (induction n m ks rule: evict.induct) (auto simp: Suc_diff_le)

lemma gov_cache_insert_new:
  assumes "gov_cache_ok c" and "map_of (gv_cache c) k = None" and "0 < gv_max_entries c"
  shows "gov_cache_ok (gov_cache_insert k v c) \<and>
    gov_cache_get (gov_cache_insert k v c) =
      (\<lambda>x. if x = k then Some v
           else if length (gv_order c) = gv_max_entries c \<and> x = hd (gv_order c) then None else gov_cache_get c x)"
proof -
  let ?o = "gv_order c" and ?m = "hm_insert k v (gv_cache c)" and ?n = "gv_max_entries c"
  have k: "k \<notin> set ?o" using assms(1,2) by (auto simp: gov_cache_ok_def)
  have len: "length ?o \<le> ?n" using assms(1) by (simp add: gov_cache_ok_def)
  show ?thesis
  proof (cases "length ?o = ?n")
    case True
    then obtain h t where o: "?o = h # t" using assms(3) by (cases ?o) auto
    have e: "evict ?n ?m (?o @ [k]) = (hm_remove h ?m, t @ [k])" using True o by (simp add: evict_drop)
    have d: "dom (map_of (gv_cache c)) = insert h (set t)" "h \<notin> set t" "distinct t"
      using assms(1) o by (auto simp: gov_cache_ok_def)
    have "h \<noteq> k" using k o by auto
    then show ?thesis
      using e d k o True assms(2) len
      by (auto simp: gov_cache_insert_def gov_cache_ok_def gov_cache_get_def fun_eq_iff)
  next
    case False
    then have e: "evict ?n ?m (?o @ [k]) = (?m, ?o @ [k])" using len by (simp add: evict_drop)
    then show ?thesis
      using assms(1,2) k len False by (auto simp: gov_cache_insert_def gov_cache_ok_def gov_cache_get_def fun_eq_iff)
  qed
qed

lemma gov_cache_insert_old: "map_of (gv_cache c) k = Some w \<Longrightarrow> gov_cache_insert k v c = c"
  by (simp add: gov_cache_insert_def domI)

lemma gov_cache_insert_max [simp]: "gv_max_entries (gov_cache_insert k v c) = gv_max_entries c"
  by (simp add: gov_cache_insert_def case_prod_unfold Let_def)

definition sharded_ok :: "nat \<Rightarrow> sharded_cache \<Rightarrow> bool" where
  "sharded_ok per_shard s \<longleftrightarrow> length s = SHARD_COUNT \<and>
     list_all (\<lambda>c. gov_cache_ok c \<and> gv_max_entries c = per_shard) s"

definition sharded_size :: "sharded_cache \<Rightarrow> nat" where
  "sharded_size s = sum_list (map (\<lambda>c. length (gv_order c)) s)"

lemma shard_index_less [simp]: "shard_index k < SHARD_COUNT"
  by (simp add: shard_index_def SHARD_COUNT_def)

lemma sharded_new_ok: "sharded_ok (n div SHARD_COUNT) (sharded_new n)"
  by (simp add: sharded_ok_def sharded_new_def list_all_iff gov_cache_new_def gov_cache_ok_def Let_def)

lemma sharded_shard: "sharded_ok n s \<Longrightarrow> i < length s \<Longrightarrow> gov_cache_ok (s ! i) \<and> gv_max_entries (s ! i) = n"
  by (simp add: sharded_ok_def list_all_length)

lemma gov_cache_insert_ok: "gov_cache_ok c \<Longrightarrow> 0 < gv_max_entries c \<Longrightarrow> gov_cache_ok (gov_cache_insert k v c)"
  using gov_cache_insert_new[of c k v] gov_cache_insert_old[of c k _ v] by (cases "map_of (gv_cache c) k") auto

lemma sharded_insert_ok:
  assumes "sharded_ok n s" and "0 < n"
  shows "sharded_ok n (sharded_insert k v s)"
proof -
  have l: "length s = SHARD_COUNT" using assms(1) by (simp add: sharded_ok_def)
  have "gov_cache_ok (gov_cache_insert k v (s ! shard_index k))"
    using sharded_shard[OF assms(1), of "shard_index k"] assms(2) l by (intro gov_cache_insert_ok) auto
  then show ?thesis
    using assms(1) sharded_shard[OF assms(1), of "shard_index k"] l
    by (auto simp: sharded_ok_def sharded_insert_def Let_def list_all_length nth_list_update)
qed

lemma sharded_size_bound: "sharded_ok n s \<Longrightarrow> sharded_size s \<le> SHARD_COUNT * n"
proof -
  assume ok: "sharded_ok n s"
  have "sum_list (map (\<lambda>c. length (gv_order c)) s) \<le> sum_list (map (\<lambda>_. n) s)"
    using ok by (intro sum_list_mono) (auto simp: sharded_ok_def list_all_iff gov_cache_ok_def)
  with ok show ?thesis by (simp add: sharded_size_def sharded_ok_def sum_list_triv)
qed

lemma sharded_insert_exact:
  assumes "sharded_ok n s" and "0 < n"
  shows "sharded_ok n (sharded_insert k v s) \<and> sharded_size (sharded_insert k v s) \<le> SHARD_COUNT * n \<and>
    sharded_get (sharded_insert k v s) k = (case sharded_get s k of Some old \<Rightarrow> Some old | None \<Rightarrow> Some v) \<and>
    (\<forall>x. x \<noteq> k \<longrightarrow> sharded_get (sharded_insert k v s) x \<in> {None, sharded_get s x} \<and>
       (shard_index x \<noteq> shard_index k \<longrightarrow> sharded_get (sharded_insert k v s) x = sharded_get s x))"
proof -
  let ?c = "s ! shard_index k"
  have l: "length s = SHARD_COUNT" using assms(1) by (simp add: sharded_ok_def)
  have c: "gov_cache_ok ?c" "0 < gv_max_entries ?c"
    using sharded_shard[OF assms(1), of "shard_index k"] assms(2) l by auto
  have g: "sharded_get (sharded_insert k v s) x =
      (if shard_index x = shard_index k then gov_cache_get (gov_cache_insert k v ?c) x else sharded_get s x)" for x
    using l by (simp add: sharded_get_def sharded_insert_def Let_def)
  have ok: "sharded_ok n (sharded_insert k v s)" by (rule sharded_insert_ok[OF assms])
  show ?thesis
  proof (cases "sharded_get s k")
    case None
    then have "map_of (gv_cache ?c) k = None" by (simp add: sharded_get_def gov_cache_get_def)
    from gov_cache_insert_new[OF c(1) this c(2), of v] g None show ?thesis
      using ok sharded_size_bound[OF ok] by (auto simp: sharded_get_def)
  next
    case (Some old)
    then have "gov_cache_insert k v ?c = ?c" by (intro gov_cache_insert_old) (simp add: sharded_get_def gov_cache_get_def)
    with g Some show ?thesis using ok sharded_size_bound[OF ok] by (auto simp: sharded_get_def)
  qed
qed

text \<open>C26: The cache of permission answers keeps its bound, and the first answer stays: inserting an answer for
  a key that has one changes nothing, otherwise the key has the new answer afterwards. Another key
  keeps its answer or, when it was the oldest of a full shard, loses it; keys of other shards are not touched.\<close>

theorem gate_cache_first_answer_stays:
  assumes "sharded_ok n s" and "0 < n"
  shows "sharded_ok n (sharded_insert k v s) \<and> sharded_size (sharded_insert k v s) \<le> SHARD_COUNT * n \<and>
    sharded_get (sharded_insert k v s) k = (case sharded_get s k of Some old \<Rightarrow> Some old | None \<Rightarrow> Some v) \<and>
    (\<forall>x. x \<noteq> k \<longrightarrow> sharded_get (sharded_insert k v s) x \<in> {None, sharded_get s x} \<and>
       (shard_index x \<noteq> shard_index k \<longrightarrow> sharded_get (sharded_insert k v s) x = sharded_get s x))"
  by (rule sharded_insert_exact[OF assms])

lemma gate_cache_first_answer_stays_witness:
  "sharded_get (sharded_insert ''s:bash'' True (sharded_insert ''s:bash'' False governance_cache)) ''s:bash'' = Some False"
proof -
  have ok: "sharded_ok 62 governance_cache"
    using sharded_new_ok[of 1000] by (simp add: governance_cache_def SHARD_COUNT_def)
  have empty: "sharded_get governance_cache k = None" for k
    using shard_index_less[of k]
    by (simp add: governance_cache_def sharded_get_def sharded_new_def gov_cache_get_def gov_cache_new_def Let_def)
  have one: "sharded_get (sharded_insert ''s:bash'' False governance_cache) ''s:bash'' = Some False"
    using gate_cache_first_answer_stays[OF ok, of "''s:bash''" False] empty by simp
  show ?thesis
    using gate_cache_first_answer_stays[of 62 "sharded_insert ''s:bash'' False governance_cache" "''s:bash''" True] one
      sharded_insert_ok[OF ok] by simp
qed

section \<open>Who may run a tool\<close>

text \<open>A call of the gate, and the key of its answer.\<close>

record gate_call =
  gl_env :: gate_env
  gl_server :: "server_config option"
  gl_session :: "string option"
  gl_tool :: string
  gl_args :: json

definition gate_on :: "gate_call \<Rightarrow> bool" where
  "gate_on c \<longleftrightarrow>
     (\<exists>cfg i. gl_server c = Some cfg \<and> gl_session c = Some i \<and> sc_governance_enabled cfg \<and>
        to_ascii_lowercase (trim (sc_governance_policy_mode cfg)) \<in> {[], ''active''})"

definition call_key :: "gate_call \<Rightarrow> string" where
  "call_key c = (case gl_session c of None \<Rightarrow> [] | Some i \<Rightarrow> i @ CHR '':'' # gl_tool c)"

text \<open>What the call itself finds out: the word that a hook which exits with code 0 prints first, and the answer of the first
  hook that says one of the three words, or of the client when no hook does (or the hooks are lost).\<close>

definition says :: "gate_call \<Rightarrow> permission_hook \<Rightarrow> string option" where
  "says c h =
     (case ge_run (gl_env c) h (gl_tool c) (gl_args c) of
        Exited code out \<Rightarrow>
          (if code = Some 0
           then (case str_lines out of [] \<Rightarrow> None | l # _ \<Rightarrow> Some (to_ascii_lowercase (trim l)))
           else None)
      | _ \<Rightarrow> None)"

definition hook_words :: "gate_call \<Rightarrow> string list" where
  "hook_words c =
     (case gl_server c of
        None \<Rightarrow> []
      | Some cfg \<Rightarrow>
          filter (\<lambda>w. w \<in> {''allow'', ''deny'', ''override''})
            (List.map_filter (says c) (permission_hooks_from_config (sc_permission_hooks cfg))))"

definition own_answer :: "gate_call \<Rightarrow> bool" where
  "own_answer c \<longleftrightarrow>
     (if hook_words c \<noteq> [] \<and> \<not> ge_hooks_lost (gl_env c) then hd (hook_words c) \<noteq> ''deny''
      else ge_client (gl_env c) \<noteq> ClientAnswer False)"

text \<open>Calls from many tasks: a call runs without interruption, or it finds no answer in the cache and decides later, when
  others may have inserted one. The state is the cache, the audit entries, the calls that wait and the answers given.\<close>

type_synonym gate_state = "sharded_cache \<times> audit_entry list \<times> gate_call list \<times> (gate_call \<times> bool) list"

inductive gate_step :: "gate_state \<Rightarrow> gate_state \<Rightarrow> bool" where
  gs_call: "ensure_tool_permission (gl_env c) (gl_server c) (gl_session c) (gl_tool c) (gl_args c) (cache, audit) = (b, cache', audit') \<Longrightarrow>
     gate_step (cache, audit, waiting, answers) (cache', audit', waiting, answers @ [(c, b)])"
| gs_miss: "gate_on c \<Longrightarrow> sharded_get cache (call_key c) = None \<Longrightarrow>
     gate_step (cache, audit, waiting, answers) (cache, audit, c # waiting, answers)"
| gs_decide: "c \<in> set waiting \<Longrightarrow> gl_server c = Some cfg \<Longrightarrow>
     gate_decide (gl_env c) cfg (call_key c) (gl_tool c) (gl_args c) (cache, audit) = (b, cache', audit') \<Longrightarrow>
     gate_step (cache, audit, waiting, answers) (cache', audit', remove1 c waiting, answers @ [(c, b)])"

inductive_cases gate_stepE: "gate_step s s'"

fun word_verdict :: "string \<Rightarrow> hook_verdict" where
  "word_verdict w = (if w = ''deny'' then HookDeny else if w = ''allow'' then HookAllow else HookOverride)"

lemma run_hooks_words:
  "hd_verdict (fst (run_permission_hooks (ge_run (gl_env c)) timeout hooks (gl_tool c) (gl_args c) audit)) =
     (case filter (\<lambda>w. w \<in> {''allow'', ''deny'', ''override''}) (List.map_filter (says c) hooks) of
        [] \<Rightarrow> None | w # _ \<Rightarrow> Some (word_verdict w))"
proof (induction hooks arbitrary: audit)
  case Nil
  show ?case by (simp add: List.map_filter_def)
next
  case (Cons h hooks)
  show ?case
  proof (cases "ge_run (gl_env c) h (gl_tool c) (gl_args c)")
    case (Exited code out)
    show ?thesis
    proof (cases "code = Some 0")
      case code: True
      show ?thesis
      proof (cases "str_lines out")
        case Nil
        then show ?thesis using Exited code Cons.IH
          by (simp add: run_single_hook_def parse_hook_stdout_def says_def List.map_filter_def Let_def)
      next
        case (Cons l ls)
        then show ?thesis using Exited code Cons.IH
          by (simp add: run_single_hook_def parse_hook_stdout_def says_def List.map_filter_def Let_def)
      qed
    next
      case False
      then have "says c h = None" using Exited by (simp add: says_def)
      then show ?thesis using Exited False Cons.IH
        by (simp add: run_single_hook_def List.map_filter_def Let_def)
    qed
  qed (use Cons.IH in \<open>simp_all add: run_single_hook_def says_def List.map_filter_def Let_def\<close>)
qed

lemma hooks_verdict_words:
  assumes "gl_server c = Some cfg"
  shows "fst (hooks_verdict (gl_env c) cfg (gl_tool c) (gl_args c) audit) =
    (if ge_hooks_lost (gl_env c) then None else case hook_words c of [] \<Rightarrow> None | w # _ \<Rightarrow> Some (word_verdict w))"
  using run_hooks_words[of c "ge_timeout (gl_env c)" "permission_hooks_from_config (sc_permission_hooks cfg)" audit] assms
  by (auto simp: hooks_verdict_def hook_words_def Let_def List.map_filter_def split: prod.splits)

lemma gate_decide_own:
  assumes "gl_server c = Some cfg" and "gate_decide (gl_env c) cfg key (gl_tool c) (gl_args c) (cache, audit) = (b, cache', audit')"
  shows "b = own_answer c \<and> cache' = sharded_insert key b cache"
proof -
  obtain v a where v: "hooks_verdict (gl_env c) cfg (gl_tool c) (gl_args c) audit = (v, a)" by fastforce
  have "v = (if ge_hooks_lost (gl_env c) then None else case hook_words c of [] \<Rightarrow> None | w # _ \<Rightarrow> Some (word_verdict w))"
    using hooks_verdict_words[OF assms(1), of audit] v by simp
  then show ?thesis
    using assms(2) v
    by (cases "ge_client (gl_env c)"; cases "hook_words c")
      (auto simp: gate_decide_def own_answer_def Let_def split: if_splits)
qed

lemma gate_on_iff:
  "gate_on c \<longleftrightarrow> (\<exists>cfg i. gl_server c = Some cfg \<and> gl_session c = Some i \<and> enforce_permission_gate cfg)"
  by (auto simp: gate_on_def enforce_permission_gate_def Let_def)

lemma ensure_cases:
  assumes "ensure_tool_permission (gl_env c) (gl_server c) (gl_session c) (gl_tool c) (gl_args c) (cache, audit) = (b, cache', audit')"
  obtains (off) "\<not> gate_on c" "b" "cache' = cache"
  | (hit) "gate_on c" "sharded_get cache (call_key c) = Some b" "cache' = cache"
  | (decided) "gate_on c" "b = own_answer c" "cache' = sharded_insert (call_key c) b cache"
proof (cases "gate_on c")
  case False
  then show ?thesis
    using assms off by (auto simp: gate_on_iff ensure_tool_permission_def split: option.splits if_splits)
next
  case True
  then obtain cfg i where c: "gl_server c = Some cfg" "gl_session c = Some i" "enforce_permission_gate cfg"
    by (auto simp: gate_on_iff)
  have key: "cache_key i (gl_tool c) = call_key c" using c(2) by (simp add: cache_key_def call_key_def)
  show ?thesis
  proof (cases "sharded_get cache (call_key c)")
    case None
    then have "gate_decide (gl_env c) cfg (call_key c) (gl_tool c) (gl_args c) (cache, audit) = (b, cache', audit')"
      using assms c key by (simp add: ensure_tool_permission_def Let_def)
    from gate_decide_own[OF c(1) this] True show ?thesis using decided by blast
  next
    case (Some v)
    then have "b = v" "cache' = cache" using assms c key by (simp_all add: ensure_tool_permission_def Let_def)
    then show ?thesis using hit[OF True] Some by blast
  qed
qed

text \<open>Every answer in the cache and every answer given under the gate was found out by a call with the same key.\<close>

definition known :: "(gate_call \<times> bool) list \<Rightarrow> string \<Rightarrow> bool \<Rightarrow> bool" where
  "known answers k b \<longleftrightarrow> (\<exists>c'. (c', b) \<in> set answers \<and> gate_on c' \<and> call_key c' = k \<and> own_answer c' = b)"

definition gate_inv :: "gate_state \<Rightarrow> bool" where
  "gate_inv st \<longleftrightarrow>
     (case st of (cache, audit, waiting, answers) \<Rightarrow>
        sharded_ok 62 cache \<and> (\<forall>c \<in> set waiting. gate_on c) \<and>
        (\<forall>k v. sharded_get cache k = Some v \<longrightarrow> known answers k v) \<and>
        (\<forall>c b. (c, b) \<in> set answers \<longrightarrow> (if gate_on c then known answers (call_key c) b else b)))"

lemma gate_invD:
  assumes "gate_inv (cache, audit, waiting, answers)"
  shows "sharded_ok 62 cache" and "\<forall>c \<in> set waiting. gate_on c"
    and "sharded_get cache k = Some v \<Longrightarrow> known answers k v"
    and "(c, b) \<in> set answers \<Longrightarrow> gate_on c \<Longrightarrow> known answers (call_key c) b"
    and "(c, b) \<in> set answers \<Longrightarrow> \<not> gate_on c \<Longrightarrow> b"
  using assms unfolding gate_inv_def prod.case by (meson if_splits)+

lemma known_append: "known answers k b \<Longrightarrow> known (answers @ xs) k b"
  by (auto simp: known_def)

lemma known_own: "gate_on c \<Longrightarrow> known (answers @ [(c, own_answer c)]) (call_key c) (own_answer c)"
  by (auto simp: known_def)

text \<open>An answer that is known, or given while the gate is off, keeps the invariant.\<close>

lemma gate_inv_answer:
  assumes "gate_inv (cache, audit, waiting, answers)" and "set waiting' \<subseteq> set waiting" and "sharded_ok 62 cache'"
    and "\<And>k v. sharded_get cache' k = Some v \<Longrightarrow> known (answers @ [(c, b)]) k v"
    and "if gate_on c then known (answers @ [(c, b)]) (call_key c) b else b"
  shows "gate_inv (cache', audit', waiting', answers @ [(c, b)])"
proof -
  note old = gate_invD[OF assms(1)]
  have "if gate_on d then known (answers @ [(c, b)]) (call_key d) v else v" if "(d, v) \<in> set (answers @ [(c, b)])" for d v
  proof (cases "(d, v) = (c, b)")
    case True
    then show ?thesis using assms(5) by simp
  next
    case False
    then have "(d, v) \<in> set answers" using that by auto
    then show ?thesis using old(4)[of d v] old(5)[of d v] known_append[of answers "call_key d" v] by simp
  qed
  then show ?thesis using assms(2,3,4) old(2) unfolding gate_inv_def prod.case by blast
qed

lemma sharded_get_insert:
  assumes "sharded_ok 62 s" and "sharded_get (sharded_insert k v s) x = Some w"
  shows "x = k \<and> w = v \<or> sharded_get s x = Some w"
  using sharded_insert_exact[OF assms(1), of k v] assms(2) by (cases "x = k") (auto split: option.splits)

lemma decided_inv:
  assumes "gate_inv (cache, audit, waiting, answers)" and "gate_on c" and "set waiting' \<subseteq> set waiting"
  shows "gate_inv (sharded_insert (call_key c) (own_answer c) cache, audit', waiting', answers @ [(c, own_answer c)])"
proof (rule gate_inv_answer[OF assms(1,3)])
  have ok: "sharded_ok 62 cache" and cached: "\<And>k v. sharded_get cache k = Some v \<Longrightarrow> known answers k v"
    using gate_invD[OF assms(1)] by blast+
  show "sharded_ok 62 (sharded_insert (call_key c) (own_answer c) cache)" by (rule sharded_insert_ok[OF ok]) simp
  show "known (answers @ [(c, own_answer c)]) k v"
    if "sharded_get (sharded_insert (call_key c) (own_answer c) cache) k = Some v" for k v
    using sharded_get_insert[OF ok that] known_own[OF assms(2)] known_append[OF cached] by blast
  show "if gate_on c then known (answers @ [(c, own_answer c)]) (call_key c) (own_answer c) else own_answer c"
    using assms(2) known_own[OF assms(2)] by simp
qed

interpretation gate_sys: invariant_system gate_step gate_inv
proof
  fix s s'
  assume inv: "gate_inv s" and "gate_step s s'"
  from this(2) show "gate_inv s'"
  proof cases
    case (gs_call c cache audit b cache' audit' waiting answers)
    note inv = inv[unfolded gs_call(1)]
    have ok: "sharded_ok 62 cache" and cached: "\<And>k v. sharded_get cache k = Some v \<Longrightarrow> known answers k v"
      using gate_invD[OF inv] by blast+
    from gs_call(3) show ?thesis
    proof (cases rule: ensure_cases)
      case off
      then show ?thesis unfolding gs_call(2) off(3)
        using known_append[OF cached] by (intro gate_inv_answer[OF inv _ ok]) simp_all
    next
      case hit
      then show ?thesis unfolding gs_call(2) hit(3)
        using known_append[OF cached] by (intro gate_inv_answer[OF inv _ ok]) simp_all
    next
      case decided
      then show ?thesis using decided_inv[OF inv, of c waiting audit'] unfolding gs_call(2) by simp
    qed
  next
    case (gs_miss c cache audit waiting answers)
    with inv have inv: "gate_inv (cache, audit, waiting, answers)" by simp
    show ?thesis using gs_miss gate_invD[OF inv] unfolding gate_inv_def prod.case by auto
  next
    case (gs_decide c waiting cfg cache audit b cache' audit' answers)
    note inv = inv[unfolded gs_decide(1)]
    have "gate_on c" using gate_invD(2)[OF inv] gs_decide(3) by blast
    moreover have "set (remove1 c waiting) \<subseteq> set waiting" by (rule set_remove1_subset)
    ultimately show ?thesis
      using decided_inv[OF inv, of c "remove1 c waiting" audit'] gate_decide_own[OF gs_decide(4,5)]
      unfolding gs_decide(2) by simp
  qed
qed

lemma colon_free_key:
  assumes "i @ CHR '':'' # t = j @ CHR '':'' # u" and "CHR '':'' \<notin> set i" and "CHR '':'' \<notin> set j"
  shows "i = j \<and> t = u"
proof -
  have "takeWhile (\<lambda>x. x \<noteq> CHR '':'') (i @ CHR '':'' # t) = i" "takeWhile (\<lambda>x. x \<noteq> CHR '':'') (j @ CHR '':'' # u) = j"
    using assms(2,3) by (subst takeWhile_append2; force)+
  then show ?thesis using assms(1) by auto
qed

text \<open>C24: Whatever calls of the gate are made, one after the other or overlapping, from an empty cache on: a call for which the
  gate is off (no server, no session, governance disabled or in another mode) is allowed. Every other answer, refusal
  or permission, was found out in this run by a call with the same session and tool, for which the gate was on: the
  first of its hooks to say a word said deny (or allow or override), or no hook did and the client answered no (or
  yes, or could not be asked). So no verdict is made up or taken over from another session or tool, as long as session
  identifiers contain no colon; with one, only the joined text of session and tool is the same.\<close>

theorem gate_answers_sound:
  assumes "gate_step\<^sup>*\<^sup>* (governance_cache, [], [], []) (cache, audit, waiting, answers)" and "(c, b) \<in> set answers"
  shows "if gate_on c
    then \<exists>c'. (c', b) \<in> set answers \<and> gate_on c' \<and> own_answer c' = b \<and> call_key c' = call_key c \<and>
      ((\<forall>d \<in> fst ` set answers. \<forall>i. gl_session d = Some i \<longrightarrow> CHR '':'' \<notin> set i) \<longrightarrow>
         gl_session c' = gl_session c \<and> gl_tool c' = gl_tool c)
    else b"
proof -
  have "sharded_get governance_cache k = None" for k
    using shard_index_less[of k]
    by (simp add: governance_cache_def sharded_get_def sharded_new_def gov_cache_get_def gov_cache_new_def Let_def)
  moreover have "sharded_ok 62 governance_cache"
    using sharded_new_ok[of 1000] by (simp add: governance_cache_def SHARD_COUNT_def)
  ultimately have "gate_inv (governance_cache, [], [], [])" by (simp add: gate_inv_def)
  from gate_sys.run_inv[OF assms(1) this] have inv: "gate_inv (cache, audit, waiting, answers)" .
  show ?thesis
  proof (cases "gate_on c")
    case True
    then obtain c' where c': "(c', b) \<in> set answers" "gate_on c'" "call_key c' = call_key c" "own_answer c' = b"
      using gate_invD(4)[OF inv assms(2)] unfolding known_def by blast
    obtain i j where ij: "gl_session c = Some i" "gl_session c' = Some j" using True c'(2) by (auto simp: gate_on_def)
    have "gl_session c' = gl_session c \<and> gl_tool c' = gl_tool c"
      if "\<forall>d \<in> fst ` set answers. \<forall>i. gl_session d = Some i \<longrightarrow> CHR '':'' \<notin> set i"
    proof -
      have "CHR '':'' \<notin> set i" "CHR '':'' \<notin> set j" using that ij assms(2) c'(1) by force+
      then show ?thesis using colon_free_key[of j "gl_tool c'" i "gl_tool c"] c'(3) ij by (simp add: call_key_def)
    qed
    then show ?thesis using True c' by auto
  next
    case False
    then show ?thesis using gate_invD(5)[OF inv assms(2)] by simp
  qed
qed

text \<open>C25: When the client cannot be asked, the tool is not only allowed once: the approval is cached, so the
  next call of the tool in the session is allowed whatever the client would answer then.\<close>

theorem client_error_cached_as_approval:
  assumes "sharded_ok n cache" and "0 < n" and "enforce_permission_gate cfg"
    and "sharded_get cache (cache_key i tool) = None" and "fst (hooks_verdict env cfg tool args audit) = None"
    and "ge_client env = ClientError e"
    and "ensure_tool_permission env (Some cfg) (Some i) tool args (cache, audit) = (b, st)"
  shows "b \<and> fst (ensure_tool_permission env' (Some cfg) (Some i) tool args' st)"
proof -
  obtain a where h: "hooks_verdict env cfg tool args audit = (None, a)" using assms(5) by (metis prod.collapse)
  have st: "b" "st = (sharded_insert (cache_key i tool) True cache, a)"
    using assms(3,4,6,7) h by (auto simp: ensure_tool_permission_def gate_decide_def Let_def)
  have l: "length cache = SHARD_COUNT" using assms(1) by (simp add: sharded_ok_def)
  have c: "gov_cache_ok (cache ! shard_index (cache_key i tool))" "0 < gv_max_entries (cache ! shard_index (cache_key i tool))"
    using sharded_shard[OF assms(1), of "shard_index (cache_key i tool)"] assms(2) l by auto
  have "map_of (gv_cache (cache ! shard_index (cache_key i tool))) (cache_key i tool) = None"
    using assms(4) by (simp add: sharded_get_def gov_cache_get_def)
  from gov_cache_insert_new[OF c(1) this c(2), of True]
  have "sharded_get (fst st) (cache_key i tool) = Some True"
    using l st(2) by (simp add: sharded_get_def sharded_insert_def Let_def)
  with st(1) assms(3) show ?thesis by (simp add: ensure_tool_permission_def Let_def)
qed

definition silent_env :: "client_reply \<Rightarrow> gate_env" where
  "silent_env r = \<lparr>ge_run = (\<lambda>_ _ _. TimedOut), ge_timeout = ''5s'', ge_hooks_lost = False, ge_client = r\<rparr>"

definition active_config :: server_config where
  "active_config = \<lparr>sc_governance_enabled = True, sc_governance_policy_mode = '' Active '', sc_permission_hooks = []\<rparr>"

lemma client_error_cached_as_approval_witness:
  "fst (ensure_tool_permission (silent_env (ClientAnswer False)) (Some active_config) (Some ''s'') ''bash'' JNull
     (snd (ensure_tool_permission (silent_env (ClientError ''timeout'')) (Some active_config) (Some ''s'') ''bash'' JNull
        (governance_cache, []))))"
proof -
  let ?e = "ensure_tool_permission (silent_env (ClientError ''timeout'')) (Some active_config) (Some ''s'') ''bash'' JNull
      (governance_cache, [])"
  have ok: "sharded_ok 62 governance_cache"
    using sharded_new_ok[of 1000] by (simp add: governance_cache_def SHARD_COUNT_def)
  have on: "enforce_permission_gate active_config" by code_simp
  have empty: "sharded_get governance_cache k = None" for k
    using shard_index_less[of k]
    by (simp add: governance_cache_def sharded_get_def sharded_new_def gov_cache_get_def gov_cache_new_def Let_def)
  have h: "fst (hooks_verdict (silent_env r) active_config ''bash'' JNull []) = None" for r
    by (simp add: hooks_verdict_def active_config_def permission_hooks_from_config_def)
  have e: "?e = (fst ?e, snd ?e)" by simp
  from client_error_cached_as_approval[OF ok _ on empty h _ e, of "''timeout''"]
  show ?thesis by (simp add: silent_env_def)
qed

text \<open>The client refuses the first call; the second is refused from the cache although the client would allow it.\<close>

definition ask_call :: "client_reply \<Rightarrow> gate_call" where
  "ask_call r = \<lparr>gl_env = silent_env r, gl_server = Some active_config, gl_session = Some ''s'', gl_tool = ''bash'', gl_args = JNull\<rparr>"

lemma gate_answers_sound_witness:
  "\<exists>cache audit answers. gate_step\<^sup>*\<^sup>* (governance_cache, [], [], []) (cache, audit, [], answers) \<and>
     (ask_call (ClientAnswer True), False) \<in> set answers \<and> gate_on (ask_call (ClientAnswer True)) \<and>
     (\<exists>c'. (c', False) \<in> set answers \<and> \<not> own_answer c')"
proof -
  let ?c = "\<lambda>b. ask_call (ClientAnswer b)"
  let ?ask = "\<lambda>b. ensure_tool_permission (gl_env (?c b)) (gl_server (?c b)) (gl_session (?c b)) (gl_tool (?c b)) (gl_args (?c b))"
  let ?k = "''s:bash''"
  have mode: "enforce_permission_gate active_config" by code_simp
  have hooks: "hooks_verdict (silent_env r) active_config ''bash'' JNull a = (None, a)" for r a
    by (simp add: hooks_verdict_def active_config_def permission_hooks_from_config_def)
  have ok: "sharded_ok 62 governance_cache"
    using sharded_new_ok[of 1000] by (simp add: governance_cache_def SHARD_COUNT_def)
  have empty: "sharded_get governance_cache ?k = None"
    using shard_index_less[of ?k]
    by (simp add: governance_cache_def sharded_get_def sharded_new_def gov_cache_get_def gov_cache_new_def Let_def)
  let ?new = "sharded_insert ?k False governance_cache"
  have e1: "?ask False (governance_cache, []) = (False, ?new, [])"
    using mode empty by (simp add: ask_call_def ensure_tool_permission_def cache_key_def gate_decide_def hooks Let_def)
      (simp add: silent_env_def)
  have "sharded_get ?new ?k = Some False" using sharded_insert_exact[OF ok, of ?k False] empty by simp
  then have e2: "?ask True (?new, []) = (False, ?new, [])"
    using mode by (simp add: ask_call_def ensure_tool_permission_def cache_key_def Let_def)
  have "gate_step\<^sup>*\<^sup>* (governance_cache, [], [], []) (?new, [], [], [(?c False, False)])"
    using gs_call[OF e1, of "[]" "[]"] by simp
  from rtranclp.rtrancl_into_rtrancl[OF this] gs_call[OF e2, of "[]" "[(?c False, False)]"]
  have run: "gate_step\<^sup>*\<^sup>* (governance_cache, [], [], []) (?new, [], [], [(?c False, False), (?c True, False)])"
    by simp
  have on: "gate_on (?c True)"
    using mode by (simp add: gate_on_def ask_call_def enforce_permission_gate_def Let_def)
  have "\<exists>c'. (c', False) \<in> set [(?c False, False), (?c True, False)] \<and> \<not> own_answer c'"
    using gate_answers_sound[OF run, of "?c True" False] on by (simp only: if_True) auto
  with run on show ?thesis by (metis list.set_intros(1) list.set_intros(2))
qed

end
