(* ===== verification/ToolExecutor.thy ===== *)
theory ToolExecutor
  imports ToolRegistry GovernanceGate
begin

text \<open>
  The tool executor, \<open>src/orchestration/tool/executor.rs\<close>, with the event bus it fires
  (\<open>src/orchestration/events/\<close>): the life of one call (validation, permission gate, event listeners, hooks,
  retries within a time budget, the events after it) and the collection of a batch with its circuit
  breaker. Whether arguments are valid, the hooks' answers, when the time budget of an attempt runs out
  and the base directory of the session are arguments; display texts, notifications and durations are
  not represented. An attempt that exceeds the budget is dropped while one of the tools of its fallback chain runs:
  the tools before it have run, those behind it never start, and what the running one does to the
  world is an argument (its whole effect if it is a blocking task, which runs on, any part of it if its future is dropped).
\<close>

section \<open>The event bus\<close>

datatype agent_event =
    AgentPreStep string
  | AgentRequest string
  | ToolsPreExecute string json
  | ToolsPostExecute string bool
  | AgentTurnStopping string

datatype event_verdict = EvContinue | EvConsume

text \<open>A listener is known by its address; the guard of a registration removes every entry with that address.\<close>

record event_bus =
  eb_listeners :: "(nat \<times> (agent_event \<Rightarrow> event_verdict)) list"
  eb_poisoned :: bool

definition event_bus_new :: event_bus where
  "event_bus_new = \<lparr>eb_listeners = [], eb_poisoned = False\<rparr>"

definition register_listener :: "nat \<Rightarrow> (agent_event \<Rightarrow> event_verdict) \<Rightarrow> event_bus \<Rightarrow> event_bus" where
  "register_listener i f b = (if eb_poisoned b then b else b\<lparr>eb_listeners := eb_listeners b @ [(i, f)]\<rparr>)"

definition drop_listener :: "nat \<Rightarrow> event_bus \<Rightarrow> event_bus" where
  "drop_listener i b =
     (if eb_poisoned b then b else b\<lparr>eb_listeners := filter (\<lambda>(j, _). j \<noteq> i) (eb_listeners b)\<rparr>)"

fun dispatch_to :: "(nat \<times> (agent_event \<Rightarrow> event_verdict)) list \<Rightarrow> agent_event \<Rightarrow> event_verdict" where
  "dispatch_to [] e = EvContinue"
| "dispatch_to ((_, f) # ls) e = (if f e = EvConsume then EvConsume else dispatch_to ls e)"

definition dispatch :: "event_bus \<Rightarrow> agent_event \<Rightarrow> event_verdict" where
  "dispatch b e = (if eb_poisoned b then EvContinue else dispatch_to (eb_listeners b) e)"

section \<open>One call\<close>

record exec_config =
  xc_max_concurrency :: nat
  xc_circuit_breaker_limit :: nat
  xc_operation_mode :: string
  xc_governance_required :: bool
  xc_is_safeguard :: bool
  xc_session_id :: "string option"

definition exec_config_default :: exec_config where
  "exec_config_default =
     \<lparr>xc_max_concurrency = 10, xc_circuit_breaker_limit = 5, xc_operation_mode = ''ask'', xc_governance_required = False,
      xc_is_safeguard = False, xc_session_id = None\<rparr>"

record exec_item =
  xi_tool_name :: string
  xi_output :: tool_output
  xi_success :: bool

record 'w exec_env =
  xe_args_valid :: bool
  xe_schema :: "string option"
  xe_gate :: gate_env
  xe_server :: "server_config option"
  xe_base_dir :: "string option"
  xe_hooks_poisoned :: bool
  xe_hook_results :: "(string + unit) list"
  xe_timeout :: "nat \<Rightarrow> (nat \<times> ('w \<Rightarrow> 'w)) option"

text \<open>The state that a call can change: the permission cache with its audit entries, the events that were fired,
  and the world the tools act on.\<close>

record 'w exec_state =
  xs_gate :: "sharded_cache \<times> audit_entry list"
  xs_events :: "agent_event list"
  xs_world :: 'w

definition failed_output :: "string \<Rightarrow> tool_output" where
  "failed_output e =
     \<lparr>out_success = False, out_result = None, out_error = Some e, out_verification = None, out_audit_log = None, out_pua_report = None\<rparr>"

definition failed_item :: "string \<Rightarrow> string \<Rightarrow> exec_item" where
  "failed_item name e = \<lparr>xi_tool_name = name, xi_output = failed_output e, xi_success = False\<rparr>"

definition validation_error :: "string \<Rightarrow> string option \<Rightarrow> string" where
  "validation_error name schema =
     (case schema of
        Some s \<Rightarrow> ''Tool '' @ quoted name @ '' call rejected: required parameters were not provided.'' @ [CHR 0x0A] @
          ''Expected input schema for '' @ quoted name @ '':'' @ [CHR 0x0A] @ s @ [CHR 0x0A] @
          ''Please re-read the schema and provide ALL required parameters in your next tool call.''
      | None \<Rightarrow> ''Tool '' @ quoted name @ '' call rejected: required parameters were not provided.'')"

definition gate_approves ::
  "'w exec_env \<Rightarrow> exec_config \<Rightarrow> string \<Rightarrow> json \<Rightarrow> sharded_cache \<times> audit_entry list \<Rightarrow> bool \<times> sharded_cache \<times> audit_entry list" where
  "gate_approves env cfg name args gate =
     (if xc_governance_required cfg
      then if is_low_risk_tool name \<and> \<not> xc_is_safeguard cfg then (True, gate)
           else ensure_tool_permission (xe_gate env) (xe_server env) (xc_session_id cfg) name args gate
      else (True, gate))"

text \<open>The calls of an attempt: the tool and the registered tools of its fallback chain, each with its input.\<close>

definition chain_calls :: "'w tool_registry \<Rightarrow> string \<Rightarrow> tool_input \<Rightarrow> ('w tool \<times> tool_input) list" where
  "chain_calls r name input =
     (case get_tool r name of
        None \<Rightarrow> []
      | Some primary \<Rightarrow>
          (primary, input) #
          List.map_filter (\<lambda>fb_name. map_option (\<lambda>fb. (fb, adapt_fallback_input name fb_name input)) (get_tool r fb_name))
            (case tool_profile_of r name of Some p \<Rightarrow> tp_fallback_chain p | None \<Rightarrow> []))"

text \<open>The world when the attempt is dropped while call \<open>j\<close> runs; none when the attempt ends before that call.\<close>

fun cut_calls :: "('w tool \<times> tool_input) list \<Rightarrow> nat \<Rightarrow> ('w \<Rightarrow> 'w) \<Rightarrow> 'w \<Rightarrow> 'w option" where
  "cut_calls [] j part w = None"
| "cut_calls (c # cs) 0 part w = Some (part w)"
| "cut_calls (c # cs) (Suc j) part w =
     (case tl_run (fst c) (snd c) w of
        (Inl e, w) \<Rightarrow> None
      | (Inr out, w) \<Rightarrow> if out_success out then None else cut_calls cs j part w)"

definition timed_out ::
  "'w exec_env \<Rightarrow> 'w tool_registry \<Rightarrow> string \<Rightarrow> tool_input \<Rightarrow> u64 \<Rightarrow> nat \<Rightarrow> 'w \<Rightarrow> 'w option" where
  "timed_out env r name input budget attempt w =
     (if budget > 0
      then (case xe_timeout env attempt of
              None \<Rightarrow> None
            | Some (j, part) \<Rightarrow> cut_calls (chain_calls r name input) j part w)
      else None)"

text \<open>The loop of attempts; \<open>retries\<close> is the number of retries that are left.\<close>

fun attempts ::
  "'w exec_env \<Rightarrow> 'w tool_registry \<Rightarrow> string \<Rightarrow> tool_input \<Rightarrow> u64 \<Rightarrow> nat \<Rightarrow> nat \<Rightarrow> 'w \<Rightarrow> (string + tool_output) \<times> 'w" where
  "attempts env r name input budget attempt retries w =
     (case timed_out env r name input budget attempt w of
        Some w \<Rightarrow> (Inl (''tool '' @ quoted name @ '' timed out after '' @ show_word budget @ ''ms (profile timeout budget)''), w)
      | None \<Rightarrow>
          (case run_fallback_chain r name input w of
             (Inr out, w) \<Rightarrow> (Inr out, w)
           | (Inl e, w) \<Rightarrow>
               (case retries of
                  0 \<Rightarrow> (Inl e, w)
                | Suc n \<Rightarrow> attempts env r name input budget (attempt + 1) n w)))"

declare attempts.simps [simp del]

definition retry_policy_of :: "'w tool_registry \<Rightarrow> string \<Rightarrow> retry_policy" where
  "retry_policy_of r name = (case tool_profile_of r name of Some p \<Rightarrow> tp_retry_policy p | None \<Rightarrow> no_retry)"

definition max_exec_retries :: "'w tool_registry \<Rightarrow> string \<Rightarrow> nat" where
  "max_exec_retries r name =
     (let p = retry_policy_of r name in if rp_retry_on_failure p then rp_max_retries p else 0)"

definition timeout_budget :: "'w tool_registry \<Rightarrow> string \<Rightarrow> u64" where
  "timeout_budget r name = (case tool_profile_of r name of Some p \<Rightarrow> tp_timeout_budget_ms p | None \<Rightarrow> 0)"

definition call_input :: "'w exec_env \<Rightarrow> exec_config \<Rightarrow> string \<Rightarrow> json \<Rightarrow> string \<Rightarrow> nat \<Rightarrow> tool_input" where
  "call_input env cfg name args objective iteration =
     \<lparr>ti_task_id = ''autonomy-'' @ show_nat iteration @ ''-'' @ name, ti_phase = ''execute'', ti_agent_role = ''assistant'',
      ti_objective = objective, ti_constraints = None, ti_evidence = None, ti_payload = args,
      ti_allowed_base_dir = (case xc_session_id cfg of Some _ \<Rightarrow> xe_base_dir env | None \<Rightarrow> None)\<rparr>"

definition execute_single_tool ::
  "'w exec_env \<Rightarrow> event_bus \<Rightarrow> 'w tool_registry \<Rightarrow> exec_config \<Rightarrow> string \<Rightarrow> json \<Rightarrow> string \<Rightarrow> nat \<Rightarrow> 'w exec_state \<Rightarrow>
   exec_item \<times> 'w exec_state" where
  "execute_single_tool env bus r cfg name args objective iteration st =
     (if \<not> xe_args_valid env then (failed_item name (validation_error name (xe_schema env)), st)
      else
        case gate_approves env cfg name args (xs_gate st) of
          (approved, gate) \<Rightarrow>
            let st = st\<lparr>xs_gate := gate\<rparr> in
            if \<not> approved then (failed_item name (''Tool '' @ quoted name @ '' denied by user approval gate.''), st)
            else if get_tool r name = None
            then (failed_item name (''Tool '' @ quoted name @ '' not found in registry''), st)
            else
              let input = call_input env cfg name args objective iteration;
                  pre = ToolsPreExecute name args;
                  verdict = dispatch bus pre;
                  st = st\<lparr>xs_events := xs_events st @ [pre]\<rparr>
              in if verdict = EvConsume
                 then (failed_item name (''Tool '' @ quoted name @ '' intercepted by event listener.''), st)
                 else
                   case run_pre_async (xe_hooks_poisoned env) (xe_hook_results env) of
                     Inl e \<Rightarrow> (failed_item name (''Tool '' @ quoted name @ '' blocked by pre-execute governance hook: '' @ e), st)
                   | Inr _ \<Rightarrow>
                       (case attempts env r name input (timeout_budget r name) 0 (max_exec_retries r name) (xs_world st) of
                          (res, w) \<Rightarrow>
                            let out = (case res of Inr out \<Rightarrow> out | Inl e \<Rightarrow> failed_output e);
                                st = st\<lparr>xs_world := w, xs_events := xs_events st @ [ToolsPostExecute name (out_success out)]\<rparr>
                            in (\<lparr>xi_tool_name = name, xi_output = out, xi_success = out_success out\<rparr>, st)))"

section \<open>A batch\<close>

record exec_result =
  xr_tool_results :: "exec_item list"
  xr_failure_count :: nat
  xr_circuit_breaker_triggered :: bool

text \<open>The results arrive in the order in which the calls complete; the outcomes reported to the resilience
  engine are returned. Calls that are still running when the breaker trips are dropped.\<close>

fun collect :: "nat \<Rightarrow> exec_item list \<Rightarrow> exec_result \<Rightarrow> bool list \<Rightarrow> exec_result \<times> bool list" where
  "collect limit [] res reported = (res, reported)"
| "collect limit (item # items) res reported =
     (let failures = (if xi_success item then xr_failure_count res else xr_failure_count res + 1);
          res = res\<lparr>xr_tool_results := xr_tool_results res @ [item], xr_failure_count := failures\<rparr>;
          reported = reported @ [xi_success item]
      in if limit > 0 \<and> failures \<ge> limit then (res\<lparr>xr_circuit_breaker_triggered := True\<rparr>, reported)
         else collect limit items res reported)"

definition execute_tools_concurrent :: "exec_config \<Rightarrow> exec_item list \<Rightarrow> exec_result \<times> bool list" where
  "execute_tools_concurrent cfg completions =
     collect (xc_circuit_breaker_limit cfg) completions
       \<lparr>xr_tool_results = [], xr_failure_count = 0, xr_circuit_breaker_triggered = False\<rparr> []"

section \<open>What has to agree before a tool runs\<close>

definition cleared ::
  "'w exec_env \<Rightarrow> event_bus \<Rightarrow> 'w tool_registry \<Rightarrow> exec_config \<Rightarrow> string \<Rightarrow> json \<Rightarrow> sharded_cache \<times> audit_entry list \<Rightarrow> bool" where
  "cleared env bus r cfg name args gate \<longleftrightarrow>
     xe_args_valid env \<and> fst (gate_approves env cfg name args gate) \<and> get_tool r name \<noteq> None \<and>
     dispatch bus (ToolsPreExecute name args) = EvContinue \<and>
     run_pre_async (xe_hooks_poisoned env) (xe_hook_results env) = Inr ()"

lemma not_consume: "v \<noteq> EvConsume \<longleftrightarrow> v = EvContinue"
  by (cases v) auto

lemma pre_hooks_ok: "run_pre_async p rs = Inr () \<longleftrightarrow> p \<or> (\<forall>x \<in> set rs. x = Inr ())"
proof -
  have "first_error rs = Inr () \<longleftrightarrow> (\<forall>x \<in> set rs. x = Inr ())"
    by (induction rs rule: first_error.induct) auto
  then show ?thesis by (auto simp: run_pre_async_def)
qed

lemma execute_single_tool_cases:
  assumes "execute_single_tool env bus r cfg name args objective iteration st = (item, st')"
  shows "if cleared env bus r cfg name args (xs_gate st)
    then \<exists>res w. attempts env r name (call_input env cfg name args objective iteration) (timeout_budget r name) 0
                   (max_exec_retries r name) (xs_world st) = (res, w) \<and>
           xs_world st' = w \<and> (xi_success item \<longleftrightarrow> (\<exists>out. res = Inr out \<and> out_success out)) \<and>
           xs_events st' = xs_events st @ [ToolsPreExecute name args, ToolsPostExecute name (xi_success item)]
    else \<not> xi_success item \<and> xs_world st' = xs_world st \<and>
         xs_events st' \<in> {xs_events st, xs_events st @ [ToolsPreExecute name args]}"
proof -
  obtain approved gate where g: "gate_approves env cfg name args (xs_gate st) = (approved, gate)" by (metis surj_pair)
  obtain res w where a: "attempts env r name (call_input env cfg name args objective iteration) (timeout_budget r name) 0
      (max_exec_retries r name) (xs_world st) = (res, w)" by (metis surj_pair)
  show ?thesis
  proof (cases "cleared env bus r cfg name args (xs_gate st)")
    case True
    then have c: "xe_args_valid env" "approved" "get_tool r name \<noteq> None" "dispatch bus (ToolsPreExecute name args) = EvContinue"
      "run_pre_async (xe_hooks_poisoned env) (xe_hook_results env) = Inr ()" using g by (auto simp: cleared_def)
    have "item = \<lparr>xi_tool_name = name, xi_output = (case res of Inr out \<Rightarrow> out | Inl e \<Rightarrow> failed_output e),
        xi_success = out_success (case res of Inr out \<Rightarrow> out | Inl e \<Rightarrow> failed_output e)\<rparr> \<and>
      xs_world st' = w \<and> xs_events st' = xs_events st @
        [ToolsPreExecute name args, ToolsPostExecute name (out_success (case res of Inr out \<Rightarrow> out | Inl e \<Rightarrow> failed_output e))]"
      using assms c g a by (auto simp: execute_single_tool_def Let_def)
    with True a show ?thesis by (auto simp: failed_output_def split: sum.splits)
  next
    case False
    have "\<not> xi_success item \<and> xs_world st' = xs_world st \<and>
        xs_events st' \<in> {xs_events st, xs_events st @ [ToolsPreExecute name args]}"
    proof (cases "xe_args_valid env \<and> approved \<and> get_tool r name \<noteq> None \<and> dispatch bus (ToolsPreExecute name args) = EvContinue")
      case True
      with False g obtain e where "run_pre_async (xe_hooks_poisoned env) (xe_hook_results env) = Inl e"
        by (cases "run_pre_async (xe_hooks_poisoned env) (xe_hook_results env)") (auto simp: cleared_def)
      with True assms g show ?thesis by (auto simp: execute_single_tool_def Let_def failed_item_def)
    next
      case neg: False
      then show ?thesis
        using assms g by (auto simp: execute_single_tool_def Let_def failed_item_def not_consume[symmetric] split: if_splits)
    qed
    with False show ?thesis by simp
  qed
qed

text \<open>C2: A tool acts only when its arguments are valid, the permission gate approves, the tool is registered, no
  listener consumes the event and no hook objects. Otherwise the call fails, the world is
  as it was and no event says that the tool ran. When all agree, the world is as the attempts leave it, the call
  succeeds exactly when the tool's own output says so, and one event before and one after it is fired.\<close>

theorem tool_runs_only_when_cleared:
  assumes "execute_single_tool env bus r cfg name args objective iteration st = (item, st')"
  shows "if cleared env bus r cfg name args (xs_gate st)
    then \<exists>res w. attempts env r name (call_input env cfg name args objective iteration) (timeout_budget r name) 0
                   (max_exec_retries r name) (xs_world st) = (res, w) \<and>
           xs_world st' = w \<and> (xi_success item \<longleftrightarrow> (\<exists>out. res = Inr out \<and> out_success out)) \<and>
           xs_events st' = xs_events st @ [ToolsPreExecute name args, ToolsPostExecute name (xi_success item)]
    else \<not> xi_success item \<and> xs_world st' = xs_world st \<and>
         xs_events st' \<in> {xs_events st, xs_events st @ [ToolsPreExecute name args]}"
  by (rule execute_single_tool_cases[OF assms])

definition open_env :: "(string + unit) list \<Rightarrow> 'w exec_env" where
  "open_env hooks = \<lparr>xe_args_valid = True, xe_schema = None, xe_gate = silent_env (ClientAnswer False), xe_server = None, xe_base_dir = None,
     xe_hooks_poisoned = False, xe_hook_results = hooks, xe_timeout = (\<lambda>_. None)\<rparr>"

definition counting_tool :: "nat tool" where
  "counting_tool = \<lparr>tl_exposure = Direct, tl_run = (\<lambda>_ w. (Inr (plain_output True), w + 1))\<rparr>"

lemma tool_runs_only_when_cleared_witness:
  "let run = (\<lambda>hooks. execute_single_tool (open_env hooks) event_bus_new (register_tool ''t'' counting_tool (registry_new_empty {}))
                exec_config_default ''t'' JNull ''o'' 1 \<lparr>xs_gate = ([], []), xs_events = [], xs_world = 0\<rparr>)
   in xs_world (snd (run [Inl ''no''])) = 0 \<and> xs_world (snd (run [Inr ()])) = 1"
proof -
  let ?r = "register_tool ''t'' counting_tool (registry_new_empty {})"
  let ?st = "\<lparr>xs_gate = ([], []), xs_events = [], xs_world = 0 :: nat\<rparr>"
  let ?run = "\<lambda>hooks. execute_single_tool (open_env hooks) event_bus_new ?r exec_config_default ''t'' JNull ''o'' 1 ?st"
  have g: "get_tool ?r ''t'' = Some counting_tool" by (simp add: get_register resolves_to_def)
  have n: "\<not> cleared (open_env [Inl ''no'']) event_bus_new ?r exec_config_default ''t'' JNull (xs_gate ?st)"
    and y: "cleared (open_env [Inr ()]) event_bus_new ?r exec_config_default ''t'' JNull (xs_gate ?st)"
    by (simp_all add: cleared_def open_env_def run_pre_async_def gate_approves_def exec_config_default_def g
        dispatch_def event_bus_new_def)
  have t: "tl_run counting_tool i 0 = (Inr (plain_output True), 1)" "out_success (plain_output True)" for i
    by (simp_all add: counting_tool_def plain_output_def)
  have a: "attempts (open_env [Inr ()]) ?r ''t'' i b 0 k 0 = (Inr (plain_output True), 1)" for i b k
    using t by (simp add: attempts.simps run_fallback_chain_def g open_env_def timed_out_def)
  show ?thesis
    using tool_runs_only_when_cleared[of "open_env [Inl ''no'']" event_bus_new ?r exec_config_default "''t''" JNull "''o''" 1 ?st
        "fst (?run [Inl ''no''])" "snd (?run [Inl ''no''])"] n
      tool_runs_only_when_cleared[of "open_env [Inr ()]" event_bus_new ?r exec_config_default "''t''" JNull "''o''" 1 ?st
        "fst (?run [Inr ()])" "snd (?run [Inr ()])"] y a
    by (simp add: Let_def)
qed

section \<open>Attempts\<close>

text \<open>The world before each attempt when every attempt before it was made.\<close>

fun world_before :: "'w tool_registry \<Rightarrow> string \<Rightarrow> tool_input \<Rightarrow> 'w \<Rightarrow> nat \<Rightarrow> 'w" where
  "world_before r name input w 0 = w"
| "world_before r name input w (Suc k) = snd (run_fallback_chain r name input (world_before r name input w k))"

lemma world_before_shift:
  "world_before r name input (snd (run_fallback_chain r name input w)) k = world_before r name input w (Suc k)"
  by (induction k) auto

definition attempt_result :: "'w tool_registry \<Rightarrow> string \<Rightarrow> tool_input \<Rightarrow> 'w \<Rightarrow> nat \<Rightarrow> string + tool_output" where
  "attempt_result r name input w k = fst (run_fallback_chain r name input (world_before r name input w k))"

definition world_after :: "('w tool \<times> tool_input) list \<Rightarrow> 'w \<Rightarrow> 'w" where
  "world_after cs w = fold (\<lambda>(t, i) w. snd (tl_run t i w)) cs w"

text \<open>The calls before the one that was dropped have run and reported failure.\<close>

lemma cut_calls_iff:
  "cut_calls cs j part w = Some w' \<longleftrightarrow>
     j < length cs \<and> w' = part (world_after (take j cs) w) \<and>
     (\<forall>i < j. \<exists>out. fst (tl_run (fst (cs ! i)) (snd (cs ! i)) (world_after (take i cs) w)) = Inr out \<and> \<not> out_success out)"
proof (induction cs j part w rule: cut_calls.induct)
  case (3 c cs j part w)
  obtain res w1 where run: "tl_run (fst c) (snd c) w = (res, w1)" by fastforce
  have after: "world_after (take (Suc i) (c # cs)) w = world_after (take i cs) w1" for i
    using run by (simp add: world_after_def split_beta)
  have all: "(\<forall>i < Suc j. P i) \<longleftrightarrow> P 0 \<and> (\<forall>i < j. P (Suc i))" for P by (metis less_Suc_eq_0_disj)
  show ?case
  proof (cases "\<exists>out. res = Inr out \<and> \<not> out_success out")
    case True
    then obtain out where "res = Inr out" "\<not> out_success out" by blast
    with 3[of res w1 out] run show ?thesis unfolding all by (simp add: after) (simp add: world_after_def split_beta)
  next
    case False
    then have "cut_calls (c # cs) (Suc j) part w = None" using run by (auto split: sum.splits)
    moreover have "\<not> (\<exists>out. fst (tl_run (fst ((c # cs) ! 0)) (snd ((c # cs) ! 0)) (world_after (take 0 (c # cs)) w)) = Inr out \<and> \<not> out_success out)"
      using False run by (simp add: world_after_def)
    ultimately show ?thesis by (metis option.distinct(1) zero_less_Suc)
  qed
qed (simp_all add: world_after_def eq_commute)

lemma attempts_from:
  "\<exists>k \<le> retries.
     (\<forall>j < k. timed_out env r name input budget (attempt + j) (world_before r name input w j) = None \<and>
        (\<exists>e. attempt_result r name input w j = Inl e)) \<and>
     (case timed_out env r name input budget (attempt + k) (world_before r name input w k) of
        Some w' \<Rightarrow> attempts env r name input budget attempt retries w =
          (Inl (''tool '' @ quoted name @ '' timed out after '' @ show_word budget @ ''ms (profile timeout budget)''), w')
      | None \<Rightarrow> attempts env r name input budget attempt retries w =
          (attempt_result r name input w k, world_before r name input w (Suc k)) \<and>
          (k < retries \<longrightarrow> (\<exists>out. attempt_result r name input w k = Inr out)))"
proof (induction retries arbitrary: attempt w)
  case 0
  show ?case
    by (rule exI[of _ 0])
      (auto simp: attempts.simps[of _ _ _ _ _ _ 0] attempt_result_def split: prod.splits sum.splits option.splits)
next
  case (Suc n)
  obtain res w1 where run: "run_fallback_chain r name input w = (res, w1)" by (metis surj_pair)
  show ?case
  proof (cases "timed_out env r name input budget attempt w \<noteq> None \<or> (\<exists>out. res = Inr out)")
    case True
    then show ?thesis
      using run by (intro exI[of _ 0])
        (auto simp: attempts.simps[of _ _ _ _ _ _ "Suc n"] attempt_result_def split: option.splits)
  next
    case False
    then obtain e where e: "res = Inl e" "timed_out env r name input budget attempt w = None" by (cases res) auto
    have shift: "attempt_result r name input w1 j = attempt_result r name input w (Suc j)"
      "world_before r name input w1 j = world_before r name input w (Suc j)" for j
      using world_before_shift[of r name input w j] run by (simp_all add: attempt_result_def del: world_before.simps)
    have step: "attempts env r name input budget attempt (Suc n) w = attempts env r name input budget (attempt + 1) n w1"
      using e run by (auto simp: attempts.simps[of _ _ _ _ _ _ "Suc n"])
    have idx: "attempt + 1 + j = attempt + Suc j" for j by simp
    obtain k where k: "k \<le> n"
      "\<forall>j < k. timed_out env r name input budget (attempt + Suc j) (world_before r name input w (Suc j)) = None \<and>
        (\<exists>e. attempt_result r name input w (Suc j) = Inl e)"
      "case timed_out env r name input budget (attempt + Suc k) (world_before r name input w (Suc k)) of
        Some w' \<Rightarrow> attempts env r name input budget attempt (Suc n) w =
          (Inl (''tool '' @ quoted name @ '' timed out after '' @ show_word budget @ ''ms (profile timeout budget)''), w')
      | None \<Rightarrow> attempts env r name input budget attempt (Suc n) w =
          (attempt_result r name input w (Suc k), world_before r name input w (Suc (Suc k))) \<and>
          (k < n \<longrightarrow> (\<exists>out. attempt_result r name input w (Suc k) = Inr out))"
      using Suc[of "attempt + 1" w1] unfolding step idx shift by blast
    have zero: "timed_out env r name input budget (attempt + 0) (world_before r name input w 0) = None \<and>
        (\<exists>e. attempt_result r name input w 0 = Inl e)"
      using e run by (simp add: attempt_result_def)
    have "\<forall>j < Suc k. timed_out env r name input budget (attempt + j) (world_before r name input w j) = None \<and>
        (\<exists>e. attempt_result r name input w j = Inl e)"
      using zero k(2) by (metis less_Suc_eq_0_disj)
    moreover have "Suc k < Suc n \<longleftrightarrow> k < n" "Suc k \<le> Suc n" using k(1) by simp_all
    ultimately show ?thesis using k(3) by (intro exI[of _ "Suc k"]) (simp only: )
  qed
qed

text \<open>C22: The retry loop makes at most one attempt more than the retries allowed, one after the other on the world the last
  one left. It goes on only after an attempt that ended in an error within its time budget; a tool that reports failure in
  its output is not tried again. The result is that of the last attempt, unless its budget (of more than zero) runs
  out: then the result is the timeout, there is no further attempt, and the attempt was dropped while one call of its chain
  ran: every call before it had run and reported failure, the call itself did what an interrupted call does, and no
  later call of the chain ran.\<close>

theorem retry_loop_exact:
  "\<exists>k \<le> retries.
     (\<forall>j < k. timed_out env r name input budget j (world_before r name input w j) = None \<and>
        (\<exists>e. attempt_result r name input w j = Inl e)) \<and>
     (timed_out env r name input budget k (world_before r name input w k) = None \<and>
        attempts env r name input budget 0 retries w = (attempt_result r name input w k, world_before r name input w (Suc k)) \<and>
        (k < retries \<longrightarrow> (\<exists>out. attempt_result r name input w k = Inr out)) \<or>
      0 < budget \<and>
      (\<exists>j part cs. xe_timeout env k = Some (j, part) \<and> cs = chain_calls r name input \<and> j < length cs \<and>
         (\<forall>i < j. \<exists>out. fst (tl_run (fst (cs ! i)) (snd (cs ! i)) (world_after (take i cs) (world_before r name input w k))) = Inr out \<and>
            \<not> out_success out) \<and>
         attempts env r name input budget 0 retries w =
           (Inl (''tool '' @ quoted name @ '' timed out after '' @ show_word budget @ ''ms (profile timeout budget)''),
            part (world_after (take j cs) (world_before r name input w k)))))"
proof -
  obtain k where k: "k \<le> retries"
    "\<forall>j < k. timed_out env r name input budget j (world_before r name input w j) = None \<and>
        (\<exists>e. attempt_result r name input w j = Inl e)"
    "case timed_out env r name input budget k (world_before r name input w k) of
        Some w' \<Rightarrow> attempts env r name input budget 0 retries w =
          (Inl (''tool '' @ quoted name @ '' timed out after '' @ show_word budget @ ''ms (profile timeout budget)''), w')
      | None \<Rightarrow> attempts env r name input budget 0 retries w =
          (attempt_result r name input w k, world_before r name input w (Suc k)) \<and>
          (k < retries \<longrightarrow> (\<exists>out. attempt_result r name input w k = Inr out))"
    using attempts_from[of retries env r name input budget 0 w] unfolding add_0 by blast
  show ?thesis
  proof (cases "timed_out env r name input budget k (world_before r name input w k)")
    case None
    then show ?thesis using k by auto
  next
    case (Some w')
    then obtain j part where j: "0 < budget" "xe_timeout env k = Some (j, part)"
      "cut_calls (chain_calls r name input) j part (world_before r name input w k) = Some w'"
      by (auto simp: timed_out_def split: if_splits option.splits)
    show ?thesis
      using k(1,2) k(3)[unfolded Some option.case] j(1,2) j(3)[unfolded cut_calls_iff] by blast
  qed
qed

text \<open>The budget of the first attempt runs out while its only tool runs; the tool has then added 5.\<close>

lemma retry_loop_exact_witness:
  "\<exists>e. attempts ((open_env [])\<lparr>xe_timeout := \<lambda>_. Some (0, \<lambda>w. w + 5)\<rparr>)
     (register_tool ''t'' counting_tool (registry_new_empty {})) ''t'' sample_input 7 0 2 (0 :: nat) = (Inl e, 5)"
proof -
  let ?r = "register_tool ''t'' counting_tool (registry_new_empty {})"
  let ?env = "(open_env [])\<lparr>xe_timeout := \<lambda>_. Some (0, \<lambda>w. w + 5)\<rparr>"
  have g: "get_tool ?r ''t'' = Some counting_tool" by (simp add: get_register resolves_to_def)
  have out: "timed_out ?env ?r ''t'' sample_input 7 k w \<noteq> None" for k w
    by (simp add: timed_out_def chain_calls_def g)
  obtain k where k: "\<forall>j < k. timed_out ?env ?r ''t'' sample_input 7 j (world_before ?r ''t'' sample_input 0 j) = None"
    "\<exists>j part cs. xe_timeout ?env k = Some (j, part) \<and>
       attempts ?env ?r ''t'' sample_input 7 0 2 0 =
         (Inl (''tool '' @ quoted ''t'' @ '' timed out after '' @ show_word (7 :: u64) @ ''ms (profile timeout budget)''),
          part (world_after (take j cs) (world_before ?r ''t'' sample_input 0 k)))"
    using retry_loop_exact[of 2 ?env ?r "''t''" sample_input 7 0] out by blast
  have "k = 0" using k(1) out by blast
  then show ?thesis using k(2) by (auto simp: world_after_def)
qed

section \<open>Batches\<close>

definition failures :: "exec_item list \<Rightarrow> nat" where
  "failures items = length (filter (\<lambda>i. \<not> xi_success i) items)"

lemma failures_simps [simp]:
  "failures [] = 0" "failures (i # is) = (if xi_success i then 0 else 1) + failures is"
  by (simp_all add: failures_def)

lemma collect_from:
  assumes "limit = 0 \<or> xr_failure_count res < limit" and "\<not> xr_circuit_breaker_triggered res"
  shows "\<exists>n \<le> length items.
    collect limit items res reported =
      (\<lparr>xr_tool_results = xr_tool_results res @ take n items, xr_failure_count = xr_failure_count res + failures (take n items),
        xr_circuit_breaker_triggered = (limit > 0 \<and> xr_failure_count res + failures items \<ge> limit)\<rparr>,
       reported @ map xi_success (take n items)) \<and>
    (if limit > 0 \<and> xr_failure_count res + failures items \<ge> limit
     then xr_failure_count res + failures (take n items) = limit \<and> n > 0 \<and> \<not> xi_success (items ! (n - 1))
     else n = length items)"
  using assms
proof (induction items arbitrary: res reported)
  case Nil
  then show ?case by (cases res) auto
next
  case (Cons i items)
  let ?f = "if xi_success i then xr_failure_count res else xr_failure_count res + 1"
  let ?res = "res\<lparr>xr_tool_results := xr_tool_results res @ [i], xr_failure_count := ?f\<rparr>"
  show ?case
  proof (cases "limit > 0 \<and> ?f \<ge> limit")
    case True
    then have "\<not> xi_success i" "xr_failure_count res + 1 = limit" using Cons.prems by (auto split: if_splits)
    then show ?thesis using True by (intro exI[of _ 1]) (cases res; simp)
  next
    case False
    then have "limit = 0 \<or> xr_failure_count ?res < limit" by auto
    from Cons.IH[OF this, of "reported @ [xi_success i]"] Cons.prems(2)
    obtain n where n: "n \<le> length items"
      "collect limit items ?res (reported @ [xi_success i]) =
        (\<lparr>xr_tool_results = xr_tool_results ?res @ take n items, xr_failure_count = xr_failure_count ?res + failures (take n items),
          xr_circuit_breaker_triggered = (limit > 0 \<and> xr_failure_count ?res + failures items \<ge> limit)\<rparr>,
         (reported @ [xi_success i]) @ map xi_success (take n items))"
      "if limit > 0 \<and> xr_failure_count ?res + failures items \<ge> limit
       then xr_failure_count ?res + failures (take n items) = limit \<and> n > 0 \<and> \<not> xi_success (items ! (n - 1))
       else n = length items" by auto
    have c: "collect limit (i # items) res reported = collect limit items ?res (reported @ [xi_success i])"
      using False by (auto simp: Let_def)
    show ?thesis
      unfolding c n(2) using n(1,3) by (intro exI[of _ "Suc n"]) (auto simp: nth_Cons' split: if_splits)
  qed
qed

text \<open>A batch returns the calls in the order in which they completed and counts the failures. The breaker
  trips exactly when it is on and at least as many calls fail as its limit says; it then stops at the
  call that reached the limit, and otherwise every call is returned. Exactly the returned calls are
  reported to the resilience engine.\<close>

theorem batch_breaker_exact:
  "\<exists>n \<le> length items.
    execute_tools_concurrent cfg items =
      (\<lparr>xr_tool_results = take n items, xr_failure_count = failures (take n items),
        xr_circuit_breaker_triggered = (xc_circuit_breaker_limit cfg > 0 \<and> failures items \<ge> xc_circuit_breaker_limit cfg)\<rparr>,
       map xi_success (take n items)) \<and>
    (if xc_circuit_breaker_limit cfg > 0 \<and> failures items \<ge> xc_circuit_breaker_limit cfg
     then failures (take n items) = xc_circuit_breaker_limit cfg \<and> n > 0 \<and> \<not> xi_success (items ! (n - 1))
     else n = length items)"
proof -
  let ?res = "\<lparr>xr_tool_results = [], xr_failure_count = 0, xr_circuit_breaker_triggered = False\<rparr>"
  have "xc_circuit_breaker_limit cfg = 0 \<or> xr_failure_count ?res < xc_circuit_breaker_limit cfg" by auto
  moreover have "\<not> xr_circuit_breaker_triggered ?res" by simp
  ultimately show ?thesis
    using collect_from[of "xc_circuit_breaker_limit cfg" ?res items "[]"]
    unfolding execute_tools_concurrent_def by (simp only: exec_result.simps add_0 append_Nil)
qed

end
