(* ===== verification/DriftProtection.thy ===== *)
theory DriftProtection
  imports Complex_Main Prelude
begin

text \<open>
  Drift protection, \<open>src/governance/drift/drift_protection.rs\<close>: metrics with rolling baselines, policies with
  thresholds, and the check that raises alerts. Floating point numbers are reals, the iteration
  orders of the two hash maps and the clock are arguments, and the texts of alerts and suggestions
  are constructors with the values they mention.
\<close>

section \<open>Data\<close>

datatype drift_type = DtGoal | DtCapability | DtBehavioral | DtPerformance | DtContext

datatype drift_severity = SvNotice | SvWarning | SvCritical | SvBreach

fun severity_rank :: "drift_severity \<Rightarrow> nat" where
  "severity_rank SvNotice = 0" | "severity_rank SvWarning = 1" | "severity_rank SvCritical = 2" | "severity_rank SvBreach = 3"

lemma severity_rank_inj: "severity_rank a = severity_rank b \<longleftrightarrow> a = b"
  by (cases a; cases b) simp_all

instantiation drift_severity :: linorder
begin

definition less_eq_drift_severity :: "drift_severity \<Rightarrow> drift_severity \<Rightarrow> bool" where
  "less_eq_drift_severity a b \<longleftrightarrow> severity_rank a \<le> severity_rank b"

definition less_drift_severity :: "drift_severity \<Rightarrow> drift_severity \<Rightarrow> bool" where
  "less_drift_severity a b \<longleftrightarrow> severity_rank a < severity_rank b"

instance
  by standard (auto simp: less_eq_drift_severity_def less_drift_severity_def severity_rank_inj)

end

record drift_metric =
  dm_name :: string
  dm_current_value :: real
  dm_baseline_value :: real
  dm_deviation :: real
  dm_drift_type :: drift_type
  dm_measured_ms :: u64

datatype drift_message = DriftDetected drift_severity string real real

record drift_alert =
  da_id :: string
  da_metric_name :: string
  da_drift_type :: drift_type
  da_severity :: drift_severity
  da_deviation :: real
  da_message :: drift_message
  da_triggered_ms :: u64
  da_resolved :: bool
  da_resolved_ms :: "u64 option"

record drift_policy =
  dp_name :: string
  dp_drift_types :: "drift_type list"
  dp_warning_threshold :: real
  dp_critical_threshold :: real
  dp_breach_threshold :: real
  dp_cooldown_ms :: u64
  dp_auto_remediate :: bool

record drift_profile =
  df_total_metrics :: nat
  df_active_alerts :: nat
  df_critical_alerts :: nat
  df_highest_severity :: "drift_severity option"
  df_last_check_ms :: u64

record drift_config =
  dc_check_interval_ms :: u64
  dc_max_alerts :: nat
  dc_auto_resolve_after_ms :: u64

definition drift_config_default :: drift_config where
  "drift_config_default = \<lparr>dc_check_interval_ms = 60000, dc_max_alerts = 100, dc_auto_resolve_after_ms = 3600000\<rparr>"

record drift_engine =
  de_config :: drift_config
  de_policies :: "(string, drift_policy) hmap"
  de_metrics :: "(string, drift_metric) hmap"
  de_metric_history :: "(string, drift_metric list) hmap"
  de_alerts :: "drift_alert list"
  de_alert_counter :: u64
  de_poisoned :: bool

section \<open>Operations\<close>

definition drift_engine_new :: "drift_config \<Rightarrow> drift_engine" where
  "drift_engine_new config =
     \<lparr>de_config = config, de_policies = [], de_metrics = [], de_metric_history = [], de_alerts = [],
      de_alert_counter = 0, de_poisoned = False\<rparr>"

definition check_interval_ms :: "drift_engine \<Rightarrow> u64" where
  "check_interval_ms e = dc_check_interval_ms (de_config e)"

datatype drift_error = DriftLockPoisoned | PolicyAlreadyRegistered string

definition register_drift_policy :: "drift_policy \<Rightarrow> drift_engine \<Rightarrow> (drift_error + unit) \<times> drift_engine" where
  "register_drift_policy p e =
     (if de_poisoned e then (Inl DriftLockPoisoned, e)
      else if hm_contains (de_policies e) (dp_name p) then (Inl (PolicyAlreadyRegistered (dp_name p)), e)
      else (Inr (), e\<lparr>de_policies := hm_insert (dp_name p) p (de_policies e)\<rparr>))"

definition compute_deviation :: "real \<Rightarrow> real \<Rightarrow> real" where
  "compute_deviation current baseline =
     (let denominator = (if \<bar>baseline\<bar> < 1 / 100 then 1 / 100 else \<bar>baseline\<bar>)
      in \<bar>current - baseline\<bar> / denominator)"

definition effective_baseline :: "drift_engine \<Rightarrow> string \<Rightarrow> real \<Rightarrow> real \<Rightarrow> real" where
  "effective_baseline e name current_value baseline_value =
     (if baseline_value = 0
      then (case hm_get (de_metric_history e) name of
              Some historical \<Rightarrow>
                (let window = drop (length historical - 5) historical
                 in sum_list (map dm_current_value window) / real (length window))
            | None \<Rightarrow> current_value)
      else baseline_value)"

definition record_metric ::
  "u64 \<Rightarrow> string \<Rightarrow> real \<Rightarrow> real \<Rightarrow> drift_type \<Rightarrow> drift_engine \<Rightarrow> (drift_error + unit) \<times> drift_engine" where
  "record_metric now_ms name current_value baseline_value drift_type e =
     (if de_poisoned e then (Inl DriftLockPoisoned, e)
      else
        let baseline = effective_baseline e name current_value baseline_value;
            metric = \<lparr>dm_name = name, dm_current_value = current_value, dm_baseline_value = baseline,
                      dm_deviation = compute_deviation current_value baseline, dm_drift_type = drift_type,
                      dm_measured_ms = now_ms\<rparr>;
            entry = (case hm_get (de_metric_history e) name of Some h \<Rightarrow> h | None \<Rightarrow> []) @ [metric];
            entry = (if length entry > 100 then tl entry else entry)
        in (Inr (), e\<lparr>de_metrics := hm_insert name metric (de_metrics e),
                      de_metric_history := hm_insert name entry (de_metric_history e)\<rparr>))"

definition saturating_since :: "u64 \<Rightarrow> u64 \<Rightarrow> u64" where
  "saturating_since now t = (if t \<le> now then now - t else 0)"

definition auto_resolve :: "drift_config \<Rightarrow> u64 \<Rightarrow> drift_alert \<Rightarrow> drift_alert" where
  "auto_resolve cfg now_ms a =
     (if \<not> da_resolved a \<and> saturating_since now_ms (da_triggered_ms a) \<ge> dc_auto_resolve_after_ms cfg
      then a\<lparr>da_resolved := True, da_resolved_ms := Some now_ms\<rparr> else a)"

definition severity_for :: "drift_policy \<Rightarrow> real \<Rightarrow> drift_severity option" where
  "severity_for p deviation =
     (if deviation \<ge> dp_breach_threshold p then Some SvBreach
      else if deviation \<ge> dp_critical_threshold p then Some SvCritical
      else if deviation \<ge> dp_warning_threshold p then Some SvWarning
      else None)"

fun threshold_of :: "drift_policy \<Rightarrow> drift_severity \<Rightarrow> real" where
  "threshold_of p SvBreach = dp_breach_threshold p"
| "threshold_of p SvCritical = dp_critical_threshold p"
| "threshold_of p SvWarning = dp_warning_threshold p"
| "threshold_of p SvNotice = 0"

definition cools_down :: "u64 \<Rightarrow> drift_metric \<Rightarrow> drift_policy \<Rightarrow> drift_severity \<Rightarrow> drift_alert \<Rightarrow> bool" where
  "cools_down now_ms m p severity a \<longleftrightarrow>
     da_metric_name a = dm_name m \<and> da_drift_type a = dm_drift_type m \<and> da_severity a = severity \<and> \<not> da_resolved a \<and>
     saturating_since now_ms (da_triggered_ms a) < dp_cooldown_ms p"

datatype remediation =
    RealignGoal string real
  | ScaleResources string
  | ReviewConfiguration string
  | Investigate drift_type string

definition suggestion_for :: "drift_alert \<Rightarrow> remediation" where
  "suggestion_for a =
     (case da_drift_type a of
        DtGoal \<Rightarrow> RealignGoal (da_metric_name a) (da_deviation a)
      | DtPerformance \<Rightarrow> ScaleResources (da_metric_name a)
      | DtBehavioral \<Rightarrow> ReviewConfiguration (da_metric_name a)
      | t \<Rightarrow> Investigate t (da_metric_name a))"

definition suggest_remediation :: "drift_engine \<Rightarrow> remediation list" where
  "suggest_remediation e = map suggestion_for (filter (\<lambda>a. \<not> da_resolved a) (de_alerts e))"

definition new_alert :: "u64 \<Rightarrow> u64 \<Rightarrow> drift_metric \<Rightarrow> drift_policy \<Rightarrow> drift_severity \<Rightarrow> drift_alert" where
  "new_alert now_ms n m p severity =
     \<lparr>da_id = ''drift-'' @ show_word n, da_metric_name = dm_name m, da_drift_type = dm_drift_type m, da_severity = severity,
      da_deviation = dm_deviation m, da_message = DriftDetected severity (dm_name m) (dm_deviation m) (threshold_of p severity),
      da_triggered_ms = now_ms, da_resolved = False, da_resolved_ms = None\<rparr>"

text \<open>One turn of the inner loop. The state is the engine, the alerts raised so far and the
  actions of automatic remediation. For a policy with automatic remediation the lock is dropped, taken by
  \<open>suggest_remediation\<close> and taken again: \<open>env k False\<close> and \<open>env k True\<close> are what other tasks do to the engine before and
  after the suggestions of the \<open>k\<close>-th alert are made.\<close>

type_synonym drift_env = "nat \<Rightarrow> bool \<Rightarrow> drift_engine \<Rightarrow> drift_engine"

definition check_pair ::
  "drift_env \<Rightarrow> u64 \<Rightarrow> drift_metric \<times> drift_policy \<Rightarrow> drift_engine \<times> drift_alert list \<times> remediation list \<Rightarrow>
   drift_engine \<times> drift_alert list \<times> remediation list" where
  "check_pair env now_ms mp st =
     (let (m, p) = mp; (e, new_alerts, actions) = st in
      if dm_drift_type m \<notin> set (dp_drift_types p) then st
      else
        case severity_for p (dm_deviation m) of
          None \<Rightarrow> st
        | Some severity \<Rightarrow>
            if list_ex (cools_down now_ms m p severity) (de_alerts e) then st
            else
              let n = de_alert_counter e + 1;
                  alert = new_alert now_ms n m p severity;
                  alerts = de_alerts e @ [alert];
                  alerts = (if length alerts > dc_max_alerts (de_config e) then tl alerts else alerts);
                  e = e\<lparr>de_alert_counter := n, de_alerts := alerts\<rparr>
              in if dp_auto_remediate p
                 then let k = length new_alerts;
                          e1 = env k False e
                      in (env k True e1, new_alerts @ [alert], actions @ suggest_remediation e1)
                 else (e, new_alerts @ [alert], actions))"

definition check_for_drift ::
  "drift_env \<Rightarrow> string iter_order \<Rightarrow> string iter_order \<Rightarrow> u64 \<Rightarrow> drift_engine \<Rightarrow> drift_alert list \<times> drift_engine" where
  "check_for_drift env metric_order policy_order now_ms e =
     (let policies = hm_values policy_order (de_policies e);
          metrics = hm_values metric_order (de_metrics e);
          e = e\<lparr>de_alerts := map (auto_resolve (de_config e) now_ms) (de_alerts e)\<rparr>;
          (e, new_alerts, actions) = fold (check_pair env now_ms) (List.product metrics policies) (e, [], [])
      in (new_alerts, e))"

definition drift_profile_of :: "u64 \<Rightarrow> drift_engine \<Rightarrow> drift_profile" where
  "drift_profile_of now_ms e =
     (let active = filter (\<lambda>a. \<not> da_resolved a) (de_alerts e) in
      \<lparr>df_total_metrics = length (de_metrics e), df_active_alerts = length active,
       df_critical_alerts = length (filter (\<lambda>a. da_severity a \<ge> SvCritical) active),
       df_highest_severity = (case map da_severity active of [] \<Rightarrow> None | s # ss \<Rightarrow> Some (fold max ss s)),
       df_last_check_ms = now_ms\<rparr>)"

section \<open>What a check raises\<close>

fun drifts :: "drift_metric \<Rightarrow> drift_policy \<Rightarrow> drift_severity \<Rightarrow> bool" where
  "drifts m p SvBreach \<longleftrightarrow> dm_drift_type m \<in> set (dp_drift_types p) \<and> dp_breach_threshold p \<le> dm_deviation m"
| "drifts m p SvCritical \<longleftrightarrow>
     dm_drift_type m \<in> set (dp_drift_types p) \<and> dp_critical_threshold p \<le> dm_deviation m \<and>
     dm_deviation m < dp_breach_threshold p"
| "drifts m p SvWarning \<longleftrightarrow>
     dm_drift_type m \<in> set (dp_drift_types p) \<and> dp_warning_threshold p \<le> dm_deviation m \<and>
     dm_deviation m < dp_critical_threshold p \<and> dm_deviation m < dp_breach_threshold p"
| "drifts m p SvNotice \<longleftrightarrow> False"

text \<open>An unresolved alert for the metric, its type and the severity, raised less than the cooldown ago.\<close>

definition recent :: "u64 \<Rightarrow> drift_metric \<Rightarrow> drift_policy \<Rightarrow> drift_severity \<Rightarrow> drift_alert \<Rightarrow> bool" where
  "recent now_ms m p s a \<longleftrightarrow>
     da_metric_name a = dm_name m \<and> da_drift_type a = dm_drift_type m \<and> da_severity a = s \<and> \<not> da_resolved a \<and>
     unat now_ms - unat (da_triggered_ms a) < unat (dp_cooldown_ms p)"

definition reports :: "u64 \<Rightarrow> drift_metric \<Rightarrow> drift_severity \<Rightarrow> drift_alert \<Rightarrow> bool" where
  "reports now_ms m s a \<longleftrightarrow>
     da_metric_name a = dm_name m \<and> da_drift_type a = dm_drift_type m \<and> da_severity a = s \<and>
     da_deviation a = dm_deviation m \<and> da_triggered_ms a = now_ms \<and> \<not> da_resolved a"

lemma reports_new [simp]: "reports now m s (new_alert now n m p s)"
  by (simp add: reports_def new_alert_def)

lemma unat_saturating_since: "unat (saturating_since now t) = unat now - unat t"
  by (auto simp: saturating_since_def unat_sub_if' word_le_nat_alt)

lemma cools_down_recent: "cools_down = recent"
  by (intro ext) (simp add: cools_down_def recent_def word_less_nat_alt unat_saturating_since)

lemma drifts_iff:
  "drifts m p s \<longleftrightarrow> dm_drift_type m \<in> set (dp_drift_types p) \<and> severity_for p (dm_deviation m) = Some s"
  by (cases s) (auto simp: severity_for_def)

text \<open>No policy remediates automatically, or nothing else runs.\<close>

definition undisturbed :: "drift_env \<Rightarrow> drift_policy \<Rightarrow> bool" where
  "undisturbed env p \<longleftrightarrow> dp_auto_remediate p \<longrightarrow> (\<forall>k b e. env k b e = e)"

lemma check_pair_cases [consumes 1, case_names quiet cooling raised]:
  assumes "undisturbed env p"
  obtains (quiet) "\<not> (\<exists>s. drifts m p s)" "check_pair env now (m, p) (e, new, acts) = (e, new, acts)"
  | (cooling) s a where "drifts m p s" "a \<in> set (de_alerts e)" "recent now m p s a"
      "check_pair env now (m, p) (e, new, acts) = (e, new, acts)"
  | (raised) s n acts' alerts where "drifts m p s" "\<not> list_ex (recent now m p s) (de_alerts e)"
      "alerts = de_alerts e @ [new_alert now n m p s]"
      "check_pair env now (m, p) (e, new, acts) =
         (e\<lparr>de_alert_counter := n, de_alerts := if length alerts > dc_max_alerts (de_config e) then tl alerts else alerts\<rparr>,
          new @ [new_alert now n m p s], acts')"
proof (cases "\<exists>s. drifts m p s")
  case False
  then show ?thesis using quiet by (auto simp: drifts_iff check_pair_def split: option.split)
next
  case True
  then obtain s where s: "drifts m p s" by blast
  show ?thesis
  proof (cases "list_ex (recent now m p s) (de_alerts e)")
    case True
    then obtain a where a: "a \<in> set (de_alerts e)" "recent now m p s a" by (auto simp: list_ex_iff)
    show ?thesis by (rule cooling[OF s a]) (use s True in \<open>simp add: drifts_iff check_pair_def cools_down_recent\<close>)
  next
    case False
    have idle: "\<not> dp_auto_remediate p \<or> (\<forall>k b e. env k b e = e)" using assms by (simp add: undisturbed_def)
    show ?thesis
      by (cases "dp_auto_remediate p"; rule raised[OF s False refl])
        (use s False idle in \<open>simp_all add: drifts_iff check_pair_def cools_down_recent Let_def\<close>)
  qed
qed

text \<open>The loop: \<open>old\<close> are the alerts before it, and the list of the engine is a suffix of the old and the new ones.\<close>

definition sound_alert :: "u64 \<Rightarrow> (drift_metric \<times> drift_policy) set \<Rightarrow> bool \<Rightarrow> drift_alert list \<Rightarrow> drift_alert \<Rightarrow> bool" where
  "sound_alert now mps room old a \<longleftrightarrow>
     (\<exists>m p s. (m, p) \<in> mps \<and> drifts m p s \<and> reports now m s a \<and> (room \<longrightarrow> \<not> list_ex (recent now m p s) old))"

lemma sound_alert_weaken: "sound_alert now mps r old a \<Longrightarrow> (r' \<Longrightarrow> r) \<Longrightarrow> sound_alert now mps r' old a"
  unfolding sound_alert_def by blast

definition seen :: "u64 \<Rightarrow> drift_alert list \<Rightarrow> drift_metric \<times> drift_policy \<Rightarrow> bool" where
  "seen now alerts mp \<longleftrightarrow>
     (\<forall>s. drifts (fst mp) (snd mp) s \<longrightarrow>
        (\<exists>a \<in> set alerts. recent now (fst mp) (snd mp) s a \<or> reports now (fst mp) s a))"

lemma seen_mono: "seen now alerts mp \<Longrightarrow> set alerts \<subseteq> set alerts' \<Longrightarrow> seen now alerts' mp"
  unfolding seen_def by blast

definition loop_ok ::
  "u64 \<Rightarrow> (drift_metric \<times> drift_policy) set \<Rightarrow> nat \<Rightarrow> drift_alert list \<Rightarrow> (drift_metric \<times> drift_policy) list \<Rightarrow>
   drift_engine \<times> drift_alert list \<times> remediation list \<Rightarrow> bool" where
  "loop_ok now mps mx old done st \<longleftrightarrow>
     (case st of (e, new, acts) \<Rightarrow>
        dc_max_alerts (de_config e) = mx \<and> length new \<le> length done \<and>
        de_alerts e = drop (length old + length new - mx) (old @ new) \<and>
        list_all (\<lambda>a. sound_alert now mps (length old + length done \<le> mx) old a) new \<and>
        list_all (seen now (old @ new)) done)"

lemma tl_drop_push:
  assumes "xs = drop (length zs - mx) zs"
  shows "(if length (xs @ [x]) > mx then tl (xs @ [x]) else xs @ [x]) = drop (length zs + 1 - mx) (zs @ [x])"
proof -
  have eq: "xs @ [x] = drop (length zs - mx) (zs @ [x])" using assms by simp
  show ?thesis
  proof (cases "length zs < mx")
    case True
    then show ?thesis using assms by simp
  next
    case False
    then have "length (xs @ [x]) > mx" using assms by simp
    moreover have "tl (xs @ [x]) = drop (Suc (length zs - mx)) (zs @ [x])" unfolding eq by (simp only: tl_drop drop_Suc)
    ultimately show ?thesis using False by (simp add: Suc_diff_le)
  qed
qed

lemma check_pair_loop_ok:
  assumes ok: "loop_ok now mps mx old done st" and mem: "mp \<in> mps" and env: "undisturbed env (snd mp)"
  shows "loop_ok now mps mx old (done @ [mp]) (check_pair env now mp st)"
proof -
  obtain e new acts where st: "st = (e, new, acts)" by (cases st)
  obtain m p where mp: "mp = (m, p)" by (cases mp)
  have mx: "dc_max_alerts (de_config e) = mx" and len: "length new \<le> length done"
    and al: "de_alerts e = drop (length old + length new - mx) (old @ new)"
    and snd': "list_all (\<lambda>a. sound_alert now mps (length old + length done \<le> mx) old a) new"
    and seen': "list_all (seen now (old @ new)) done"
    using ok by (simp_all add: loop_ok_def st)
  have snd1: "list_all (\<lambda>a. sound_alert now mps (length old + length (done @ [mp]) \<le> mx) old a) new"
    using snd' by (rule list.pred_mono_strong) (erule sound_alert_weaken, simp)
  from env have "undisturbed env p" by (simp add: mp)
  then show ?thesis
  proof (cases rule: check_pair_cases[of env p m now e new acts])
    case quiet
    then show ?thesis using mx len al snd1 seen' by (simp add: loop_ok_def st mp seen_def)
  next
    case (cooling s a)
    have "a \<in> set (old @ new)" using cooling(2) al in_set_dropD by metis
    then have "seen now (old @ new) (m, p)" using cooling(1,3) by (auto simp: seen_def drifts_iff)
    then show ?thesis using cooling(4) mx len al snd1 seen' by (simp add: loop_ok_def st mp)
  next
    case (raised s n acts' alerts)
    let ?a = "new_alert now n m p s"
    have "sound_alert now mps (length old + length (done @ [mp]) \<le> mx) old ?a"
      unfolding sound_alert_def
    proof (intro exI conjI impI)
      show "(m, p) \<in> mps" using mem mp by simp
      show "drifts m p s" by (rule raised(1))
      show "reports now m s ?a" by simp
      assume "length old + length (done @ [mp]) \<le> mx"
      then have "de_alerts e = old @ new" using al len by simp
      then show "\<not> list_ex (recent now m p s) old" using raised(2) by simp
    qed
    moreover have "list_all (seen now (old @ new @ [?a])) done"
      using seen' by (rule list.pred_mono_strong) (auto elim: seen_mono)
    moreover have "seen now (old @ new @ [?a]) (m, p)"
      using raised(1) reports_new[of now m s n p] by (auto simp: seen_def drifts_iff)
    moreover have "(if length alerts > mx then tl alerts else alerts) = drop (length old + length (new @ [?a]) - mx) (old @ new @ [?a])"
      using tl_drop_push[of "de_alerts e" "old @ new" mx ?a] al
      unfolding raised(3) by (simp del: drop_append add: add.assoc)
    ultimately show ?thesis using raised(4) mx len snd1 by (simp add: loop_ok_def st mp)
  qed
qed

lemma check_fold_loop_ok:
  assumes "loop_ok now mps mx old done st" and "set pairs \<subseteq> mps"
    and "\<And>mp. mp \<in> mps \<Longrightarrow> undisturbed env (snd mp)"
  shows "loop_ok now mps mx old (done @ pairs) (fold (check_pair env now) pairs st)"
  using assms
proof (induction pairs arbitrary: "done" st)
  case (Cons mp pairs)
  then have "loop_ok now mps mx old ((done @ [mp]) @ pairs) (fold (check_pair env now) pairs (check_pair env now mp st))"
    using check_pair_loop_ok[OF Cons.prems(1), of mp env] by (intro Cons.IH) auto
  then show ?case by simp
qed simp

text \<open>C40: A check first resolves the alerts that are open for the configured time or longer, and no others. It then
  raises alerts only for a metric whose deviation reaches a threshold of a policy for its type, with the severity of the
  highest threshold reached (breach before critical before warning), and it raises or finds one for every such metric
  and policy: an alert raised now, or an unresolved one of this severity that is younger than the cooldown.
  The list keeps the most recent of the old and new alerts up to its bound; when the bound leaves room for
  all, every such metric is covered in the list that the check leaves, and nothing is raised while an alert of before the check is
  younger than the cooldown. Other tasks may run in the middle of a check only for policies with
  automatic remediation.\<close>

theorem drift_check_exact:
  fixes e :: drift_engine
  assumes "valid_order metric_order" and "valid_order policy_order"
    and "length (de_alerts e) \<le> dc_max_alerts (de_config e)"
    and "\<forall>p \<in> ran (map_of (de_policies e)). dp_auto_remediate p \<longrightarrow> (\<forall>k b e. env k b e = e)"
    and "check_for_drift env metric_order policy_order now e = (new, e')"
    and "old = map (\<lambda>a. if \<not> da_resolved a \<and> unat (dc_auto_resolve_after_ms (de_config e)) \<le> unat now - unat (da_triggered_ms a)
           then a\<lparr>da_resolved := True, da_resolved_ms := Some now\<rparr> else a) (de_alerts e)"
    and "pairs = ran (map_of (de_metrics e)) \<times> ran (map_of (de_policies e))"
    and "room \<longleftrightarrow> length old + length (de_metrics e) * length (de_policies e) \<le> dc_max_alerts (de_config e)"
  shows "de_alerts e' = drop (length old + length new - dc_max_alerts (de_config e)) (old @ new) \<and>
    (\<forall>a \<in> set new. \<exists>(m, p) \<in> pairs. \<exists>s. drifts m p s \<and> reports now m s a \<and> (room \<longrightarrow> \<not> (\<exists>b \<in> set old. recent now m p s b))) \<and>
    (\<forall>(m, p) \<in> pairs. \<forall>s. drifts m p s \<longrightarrow>
       (\<exists>a \<in> set (if room then de_alerts e' else old @ new). recent now m p s a \<or> reports now m s a))"
proof -
  let ?ms = "hm_values metric_order (de_metrics e)" and ?ps = "hm_values policy_order (de_policies e)"
  let ?mx = "dc_max_alerts (de_config e)"
  have pairs: "set (List.product ?ms ?ps) = pairs" using assms(1,2,7) by simp
  have len: "length (List.product ?ms ?ps) = length (de_metrics e) * length (de_policies e)"
    using assms(1,2) by (simp add: hm_values_def)
  have old: "old = map (auto_resolve (de_config e) now) (de_alerts e)"
    unfolding assms(6) by (simp add: auto_resolve_def word_le_nat_alt unat_saturating_since)
  have env: "undisturbed env (snd mp)" if "mp \<in> pairs" for mp
    using that assms(4,7) by (auto simp: undisturbed_def)
  obtain acts where f: "fold (check_pair env now) (List.product ?ms ?ps) (e\<lparr>de_alerts := old\<rparr>, [], []) = (e', new, acts)"
    using assms(5) by (auto simp: check_for_drift_def Let_def old split: prod.splits)
  have "loop_ok now pairs ?mx old [] (e\<lparr>de_alerts := old\<rparr>, [], [])"
    using assms(3) by (simp add: loop_ok_def old)
  from check_fold_loop_ok[OF this, of "List.product ?ms ?ps" env] pairs f env
  have ok: "loop_ok now pairs ?mx old (List.product ?ms ?ps) (e', new, acts)" by simp
  have "list_all (seen now (old @ new)) (List.product ?ms ?ps)" and
    "list_all (sound_alert now pairs room old) new" and n: "length new \<le> length (de_metrics e) * length (de_policies e)" and
    al: "de_alerts e' = drop (length old + length new - ?mx) (old @ new)"
    using ok assms(8) len by (simp_all add: loop_ok_def)
  then have seen: "\<forall>mp \<in> pairs. seen now (old @ new) mp" and sound: "\<forall>a \<in> set new. sound_alert now pairs room old a"
    unfolding list_all_iff pairs by simp_all
  have "set (if room then de_alerts e' else old @ new) = set (old @ new)" using al n assms(8) by auto
  then show ?thesis using al seen sound unfolding sound_alert_def seen_def list_ex_iff by fastforce
qed

definition latency_policy :: drift_policy where
  "latency_policy =
     \<lparr>dp_name = ''harness_validation_latency'', dp_drift_types = [DtPerformance], dp_warning_threshold = 1 / 2,
      dp_critical_threshold = 8 / 10, dp_breach_threshold = 95 / 100, dp_cooldown_ms = 60000, dp_auto_remediate = False\<rparr>"

text \<open>The check does not distinguish a slower from a faster measurement: a call that takes a tenth of the time of
  the one before raises a critical alert for performance drift.\<close>

definition measured_twice :: drift_engine where
  "measured_twice =
     snd (record_metric 2 ''latency'' (1 / 10) 0 DtPerformance
       (snd (record_metric 1 ''latency'' 1 0 DtPerformance
         (snd (register_drift_policy latency_policy (drift_engine_new drift_config_default))))))"

lemma faster_call_raises_alert:
  "map da_severity (fst (check_for_drift (\<lambda>_ _ e. e) (\<lambda>xs. xs) (\<lambda>xs. xs) 3 measured_twice)) = [SvCritical]"
  by (simp add: measured_twice_def record_metric_def register_drift_policy_def drift_engine_new_def effective_baseline_def
      compute_deviation_def check_for_drift_def hm_values_def check_pair_def severity_for_def latency_policy_def
      drift_config_default_def hm_insert_def hm_contains_def new_alert_def Let_def)

lemma drift_check_exact_witness:
  "\<exists>a \<in> set (fst (check_for_drift (\<lambda>_ _ e. e) (\<lambda>xs. xs) (\<lambda>xs. xs) 3 measured_twice)). da_severity a = SvCritical \<and>
     (\<exists>(m, p) \<in> ran (map_of (de_metrics measured_twice)) \<times> ran (map_of (de_policies measured_twice)).
        drifts m p SvCritical \<and> reports 3 m SvCritical a)"
proof -
  obtain new e' where c: "check_for_drift (\<lambda>_ _ e. e) (\<lambda>xs. xs) (\<lambda>xs. xs) 3 measured_twice = (new, e')" by fastforce
  have "map da_severity new = [SvCritical]" using faster_call_raises_alert c by simp
  then obtain a where a: "a \<in> set new" "da_severity a = SvCritical" by (cases new) auto
  have "de_alerts measured_twice = []"
    by (simp add: measured_twice_def record_metric_def register_drift_policy_def drift_engine_new_def hm_contains_def Let_def)
  then have "length (de_alerts measured_twice) \<le> dc_max_alerts (de_config measured_twice)" by simp
  from drift_check_exact[OF valid_order_id valid_order_id this _ c refl refl refl] a
  show ?thesis unfolding c by (fastforce simp: reports_def)
qed

end
