(* ===== verification/Hardening.thy ===== *)
theory Hardening
  imports AuditLog
begin

text \<open>
  Budgets and sandbox policy, \<open>src/governance/hardening.rs\<close>: the budget of a task, the quotas of tenants
  with their slots for concurrent tasks, the cache of idempotent results, the sandbox levels and
  the policy that applies when access control is not configured. The clocks are arguments (milliseconds
  since the epoch, the number of the day, and for \<open>Instant\<close> a number of milliseconds that never
  decreases); \<open>usize\<close> is a 64-bit word.
\<close>

section \<open>The budget of a task\<close>

record task_budget =
  max_tokens :: usize
  max_wall_clock_seconds :: u64
  max_tool_calls :: usize
  max_api_calls :: usize

definition task_budget_default :: task_budget where
  "task_budget_default =
     \<lparr>max_tokens = 120000, max_wall_clock_seconds = 3600, max_tool_calls = 256, max_api_calls = 256\<rparr>"

record budget_exceeded =
  be_limit_type :: string
  be_limit :: usize
  be_used :: usize

definition budget_exceeded_to_string :: "budget_exceeded \<Rightarrow> string" where
  "budget_exceeded_to_string e =
     ''budget exceeded: '' @ be_limit_type e @ '' limit='' @ show_word (be_limit e) @ '', used='' @ show_word (be_used e)"

record budget_tracker =
  bt_task_budget :: task_budget
  bt_tokens_used :: usize
  bt_tool_calls_made :: usize
  bt_started_at :: nat

definition saturating_add :: "usize \<Rightarrow> usize \<Rightarrow> usize" where
  "saturating_add a b = (if unat a + unat b < 2 ^ 64 then a + b else - 1)"

definition budget_tracker_new :: "nat \<Rightarrow> task_budget \<Rightarrow> budget_tracker" where
  "budget_tracker_new now b =
     \<lparr>bt_task_budget = b, bt_tokens_used = 0, bt_tool_calls_made = 0, bt_started_at = now\<rparr>"

definition record_tokens :: "usize \<Rightarrow> budget_tracker \<Rightarrow> (budget_exceeded + unit) \<times> budget_tracker" where
  "record_tokens tokens t =
     (let t = t\<lparr>bt_tokens_used := saturating_add (bt_tokens_used t) tokens\<rparr> in
      if bt_tokens_used t > max_tokens (bt_task_budget t)
      then (Inl \<lparr>be_limit_type = ''tokens'', be_limit = max_tokens (bt_task_budget t), be_used = bt_tokens_used t\<rparr>, t)
      else (Inr (), t))"

definition record_tool_call :: "budget_tracker \<Rightarrow> (budget_exceeded + unit) \<times> budget_tracker" where
  "record_tool_call t =
     (let t = t\<lparr>bt_tool_calls_made := saturating_add (bt_tool_calls_made t) 1\<rparr> in
      if bt_tool_calls_made t > max_tool_calls (bt_task_budget t)
      then (Inl \<lparr>be_limit_type = ''tool_calls'', be_limit = max_tool_calls (bt_task_budget t),
                 be_used = bt_tool_calls_made t\<rparr>, t)
      else (Inr (), t))"

definition reset_budget :: "nat \<Rightarrow> budget_tracker \<Rightarrow> budget_tracker" where
  "reset_budget now t = t\<lparr>bt_started_at := now, bt_tokens_used := 0, bt_tool_calls_made := 0\<rparr>"

definition check_wall_clock :: "nat \<Rightarrow> budget_tracker \<Rightarrow> budget_exceeded + unit" where
  "check_wall_clock now t =
     (let elapsed = of_nat ((now - bt_started_at t) div 1000); limit = max_wall_clock_seconds (bt_task_budget t) in
      if elapsed > limit
      then Inl \<lparr>be_limit_type = ''wall_clock_seconds'', be_limit = limit, be_used = elapsed\<rparr>
      else Inr ())"

definition remaining_tokens :: "budget_tracker \<Rightarrow> usize" where
  "remaining_tokens t =
     (if max_tokens (bt_task_budget t) < bt_tokens_used t then 0
      else max_tokens (bt_task_budget t) - bt_tokens_used t)"

definition task_budget_for_target :: "string option \<Rightarrow> task_budget" where
  "task_budget_for_target target =
     (let s = to_ascii_lowercase (case target of Some x \<Rightarrow> x | None \<Rightarrow> ''local-dev'') in
      if s \<in> {''ci'', ''ci-pipeline''}
      then \<lparr>max_tokens = 20000, max_wall_clock_seconds = 600, max_tool_calls = 64, max_api_calls = 64\<rparr>
      else if s \<in> {''managed-service'', ''managed''}
      then \<lparr>max_tokens = 8000, max_wall_clock_seconds = 300, max_tool_calls = 24, max_api_calls = 24\<rparr>
      else \<lparr>max_tokens = 120000, max_wall_clock_seconds = 3600, max_tool_calls = 256, max_api_calls = 256\<rparr>)"

section \<open>The quotas of tenants\<close>

record tenant_quota =
  tq_tenant_id :: string
  tq_daily_token_limit :: usize
  tq_concurrent_tasks_limit :: usize
  tq_daily_api_call_limit :: usize

record tenant_enforcer =
  te_quotas :: "(string, tenant_quota) hmap"
  te_token_usage :: "(string, usize) hmap"
  te_api_call_usage :: "(string, usize) hmap"
  te_active_tasks :: "(string, usize) hmap"
  te_last_started_ms :: "(string, int) hmap"
  te_current_day :: int

definition STALE_SLOT_TIMEOUT_MS :: int where
  "STALE_SLOT_TIMEOUT_MS = 30 * 60 * 1000"

definition unix_ts_day_number :: "int \<Rightarrow> int" where
  "unix_ts_day_number secs = secs div 86400"

text \<open>Rust's division of signed numbers rounds towards zero.\<close>

definition today :: "int \<Rightarrow> int" where
  "today now_ms = unix_ts_day_number (sgn now_ms * (\<bar>now_ms\<bar> div 1000))"

definition i64_saturating_sub :: "int \<Rightarrow> int \<Rightarrow> int" where
  "i64_saturating_sub a b = max (- (2 ^ 63)) (min (2 ^ 63 - 1) (a - b))"

definition tenant_enforcer_new :: "int \<Rightarrow> tenant_enforcer" where
  "tenant_enforcer_new now_ms =
     \<lparr>te_quotas = [], te_token_usage = [], te_api_call_usage = [], te_active_tasks = [], te_last_started_ms = [],
      te_current_day = today now_ms\<rparr>"

definition reset_daily_if_day_changed :: "int \<Rightarrow> tenant_enforcer \<Rightarrow> tenant_enforcer" where
  "reset_daily_if_day_changed now_ms e =
     (if today now_ms \<noteq> te_current_day e
      then e\<lparr>te_token_usage := [], te_api_call_usage := [], te_current_day := today now_ms\<rparr>
      else e)"

definition set_quota :: "tenant_quota \<Rightarrow> tenant_enforcer \<Rightarrow> tenant_enforcer" where
  "set_quota q e = e\<lparr>te_quotas := hm_insert (tq_tenant_id q) q (te_quotas e)\<rparr>"

definition count_of :: "(string, usize) hmap \<Rightarrow> string \<Rightarrow> usize" where
  "count_of m t = (case hm_get m t of Some n \<Rightarrow> n | None \<Rightarrow> 0)"

datatype quota_error =
    NoQuota string
  | ConcurrentLimit string usize usize
  | DailyTokens string usize usize
  | DailyCalls string usize usize

text \<open>The tests that both entry points share.\<close>

definition check_limits :: "tenant_quota \<Rightarrow> string \<Rightarrow> tenant_enforcer \<Rightarrow> quota_error + unit" where
  "check_limits q t e =
     (let tasks = count_of (te_active_tasks e) t; tokens = count_of (te_token_usage e) t;
          calls = count_of (te_api_call_usage e) t
      in if tasks \<ge> tq_concurrent_tasks_limit q then Inl (ConcurrentLimit t tasks (tq_concurrent_tasks_limit q))
         else if tokens \<ge> tq_daily_token_limit q then Inl (DailyTokens t tokens (tq_daily_token_limit q))
         else if calls \<ge> tq_daily_api_call_limit q then Inl (DailyCalls t calls (tq_daily_api_call_limit q))
         else Inr ())"

definition check_can_start :: "int \<Rightarrow> string \<Rightarrow> tenant_enforcer \<Rightarrow> (quota_error + unit) \<times> tenant_enforcer" where
  "check_can_start now_ms t e =
     (let e = reset_daily_if_day_changed now_ms e in
      case hm_get (te_quotas e) t of
        None \<Rightarrow> (Inl (NoQuota t), e)
      | Some q \<Rightarrow> (check_limits q t e, e))"

definition recover_stale :: "int \<Rightarrow> tenant_quota \<Rightarrow> string \<Rightarrow> tenant_enforcer \<Rightarrow> tenant_enforcer" where
  "recover_stale now_ms q t e =
     (if count_of (te_active_tasks e) t \<ge> tq_concurrent_tasks_limit q
      then (case hm_get (te_last_started_ms e) t of
              None \<Rightarrow> e
            | Some started \<Rightarrow>
                if i64_saturating_sub now_ms started > STALE_SLOT_TIMEOUT_MS
                then e\<lparr>te_active_tasks := hm_insert t 0 (te_active_tasks e),
                       te_last_started_ms := hm_remove t (te_last_started_ms e)\<rparr>
                else e)
      else e)"

definition check_and_start_task :: "int \<Rightarrow> string \<Rightarrow> tenant_enforcer \<Rightarrow> (quota_error + unit) \<times> tenant_enforcer" where
  "check_and_start_task now_ms t e =
     (let e = reset_daily_if_day_changed now_ms e in
      case hm_get (te_quotas e) t of
        None \<Rightarrow> (Inl (NoQuota t), e)
      | Some q \<Rightarrow>
          (let e = recover_stale now_ms q t e in
           case check_limits q t e of
             Inl err \<Rightarrow> (Inl err, e)
           | Inr _ \<Rightarrow>
               (Inr (), e\<lparr>te_active_tasks := hm_insert t (count_of (te_active_tasks e) t + 1) (te_active_tasks e),
                          te_last_started_ms := hm_insert t now_ms (te_last_started_ms e)\<rparr>)))"

definition start_task :: "string \<Rightarrow> tenant_enforcer \<Rightarrow> tenant_enforcer" where
  "start_task t e = e\<lparr>te_active_tasks := hm_insert t (count_of (te_active_tasks e) t + 1) (te_active_tasks e)\<rparr>"

definition record_usage :: "string \<Rightarrow> usize \<Rightarrow> usize \<Rightarrow> tenant_enforcer \<Rightarrow> tenant_enforcer" where
  "record_usage t tokens api_calls e =
     (let tasks = count_of (te_active_tasks e) t in
      e\<lparr>te_token_usage := hm_insert t (count_of (te_token_usage e) t + tokens) (te_token_usage e),
        te_api_call_usage := hm_insert t (count_of (te_api_call_usage e) t + api_calls) (te_api_call_usage e),
        te_active_tasks := hm_insert t (if tasks = 0 then 0 else tasks - 1) (te_active_tasks e)\<rparr>)"

definition auto_provision_default :: "usize \<Rightarrow> usize \<Rightarrow> usize \<Rightarrow> tenant_enforcer \<Rightarrow> tenant_enforcer" where
  "auto_provision_default tokens tasks calls e =
     (if hm_contains (te_quotas e) ''default-tenant'' then e
      else set_quota \<lparr>tq_tenant_id = ''default-tenant'', tq_daily_token_limit = tokens,
                      tq_concurrent_tasks_limit = tasks, tq_daily_api_call_limit = calls\<rparr> e)"

section \<open>The cache of idempotent results\<close>

record idempotent_result =
  ir_response :: json
  ir_cached_at :: nat

record idempotency_cache =
  ic_results :: "(string, idempotent_result) hmap"
  ic_tenant_keys :: "(string, string list) hmap"
  ic_ttl :: nat
  ic_max_entries_per_tenant :: nat

definition MAX_ENTRIES_PER_TENANT :: nat where
  "MAX_ENTRIES_PER_TENANT = 1000"

definition tenant_from_key :: "string \<Rightarrow> string" where
  "tenant_from_key key = hd (split_on (CHR '':'') key)"

definition idempotency_cache_new :: "nat \<Rightarrow> idempotency_cache" where
  "idempotency_cache_new ttl =
     \<lparr>ic_results = [], ic_tenant_keys = [], ic_ttl = ttl, ic_max_entries_per_tenant = MAX_ENTRIES_PER_TENANT\<rparr>"

definition cache_get :: "nat \<Rightarrow> idempotency_cache \<Rightarrow> string \<Rightarrow> idempotent_result option" where
  "cache_get now c key =
     (case hm_get (ic_results c) key of
        None \<Rightarrow> None
      | Some entry \<Rightarrow> if now - ir_cached_at entry > ic_ttl c then None else Some entry)"

definition queue_of :: "idempotency_cache \<Rightarrow> string \<Rightarrow> string list" where
  "queue_of c t = (case hm_get (ic_tenant_keys c) t of Some ks \<Rightarrow> ks | None \<Rightarrow> [])"

definition cache_insert :: "nat \<Rightarrow> string \<Rightarrow> json \<Rightarrow> idempotency_cache \<Rightarrow> idempotency_cache" where
  "cache_insert now key response c =
     (let tenant = tenant_from_key key;
          ks = (if hm_contains (ic_results c) key then filter (\<lambda>k. k \<noteq> key) (queue_of c tenant) else queue_of c tenant);
          to_evict = (if length ks \<ge> ic_max_entries_per_tenant c then length ks - ic_max_entries_per_tenant c + 1 else 0);
          results = fold hm_remove (take to_evict ks) (ic_results c)
      in c\<lparr>ic_tenant_keys := hm_insert tenant (drop to_evict ks @ [key]) (ic_tenant_keys c),
           ic_results := hm_insert key \<lparr>ir_response = response, ir_cached_at = now\<rparr> results\<rparr>)"

section \<open>The sandbox\<close>

datatype sandbox_level = SbNone | SbBasic | SbStrict | SbIsolated

fun sandbox_to_string :: "sandbox_level \<Rightarrow> string" where
  "sandbox_to_string SbNone = ''none''"
| "sandbox_to_string SbBasic = ''basic''"
| "sandbox_to_string SbStrict = ''strict''"
| "sandbox_to_string SbIsolated = ''isolated''"

fun level_index :: "sandbox_level \<Rightarrow> nat" where
  "level_index SbNone = 0"
| "level_index SbBasic = 1"
| "level_index SbStrict = 2"
| "level_index SbIsolated = 3"

definition can_execute_read_file :: "sandbox_level \<Rightarrow> bool" where
  "can_execute_read_file l = (case l of SbNone \<Rightarrow> True | SbBasic \<Rightarrow> True | SbStrict \<Rightarrow> True | SbIsolated \<Rightarrow> True)"

definition can_execute_search :: "sandbox_level \<Rightarrow> bool" where
  "can_execute_search l = (case l of SbNone \<Rightarrow> True | SbBasic \<Rightarrow> True | SbStrict \<Rightarrow> True | SbIsolated \<Rightarrow> True)"

definition can_execute_write :: "sandbox_level \<Rightarrow> bool" where
  "can_execute_write l = (case l of SbNone \<Rightarrow> True | SbBasic \<Rightarrow> True | SbStrict \<Rightarrow> False | SbIsolated \<Rightarrow> False)"

definition can_execute_shell :: "sandbox_level \<Rightarrow> bool" where
  "can_execute_shell l = (case l of SbNone \<Rightarrow> True | SbBasic \<Rightarrow> False | SbStrict \<Rightarrow> False | SbIsolated \<Rightarrow> False)"

definition can_execute_network :: "sandbox_level \<Rightarrow> bool" where
  "can_execute_network l = (case l of SbNone \<Rightarrow> True | SbBasic \<Rightarrow> True | SbStrict \<Rightarrow> False | SbIsolated \<Rightarrow> False)"

definition sandbox_check :: "sandbox_level \<Rightarrow> string \<Rightarrow> bool" where
  "sandbox_check l operation =
     (if operation = ''read'' then can_execute_read_file l
      else if operation = ''search'' then can_execute_search l
      else if operation = ''write'' then can_execute_write l
      else if operation = ''shell'' then can_execute_shell l
      else if operation = ''network'' then can_execute_network l
      else False)"

datatype governance_action = GaRead | GaSearch | GaWrite | GaShell | GaNetwork

fun action_as_str :: "governance_action \<Rightarrow> string" where
  "action_as_str GaRead = ''read''"
| "action_as_str GaSearch = ''search''"
| "action_as_str GaWrite = ''write''"
| "action_as_str GaShell = ''shell''"
| "action_as_str GaNetwork = ''network''"

record policy_bundle =
  pb_name :: string
  pb_deployment_target :: string
  pb_max_autonomy :: string
  pb_require_approval_for_write :: bool
  pb_enable_code_execution :: bool
  pb_sandbox_level :: sandbox_level

definition bundle_local_dev :: policy_bundle where
  "bundle_local_dev =
     \<lparr>pb_name = ''local-dev'', pb_deployment_target = ''local-dev'', pb_max_autonomy = ''edit'',
      pb_require_approval_for_write = False, pb_enable_code_execution = True, pb_sandbox_level = SbNone\<rparr>"

definition bundle_ci_pipeline :: policy_bundle where
  "bundle_ci_pipeline =
     \<lparr>pb_name = ''ci-pipeline'', pb_deployment_target = ''ci'', pb_max_autonomy = ''agent'',
      pb_require_approval_for_write = True, pb_enable_code_execution = True, pb_sandbox_level = SbBasic\<rparr>"

definition bundle_managed_service :: policy_bundle where
  "bundle_managed_service =
     \<lparr>pb_name = ''managed-service'', pb_deployment_target = ''managed-service'', pb_max_autonomy = ''edit'',
      pb_require_approval_for_write = True, pb_enable_code_execution = False, pb_sandbox_level = SbStrict\<rparr>"

definition bundle_production_hardened :: policy_bundle where
  "bundle_production_hardened =
     \<lparr>pb_name = ''production-hardened'', pb_deployment_target = ''production'', pb_max_autonomy = ''agent'',
      pb_require_approval_for_write = True, pb_enable_code_execution = False, pb_sandbox_level = SbIsolated\<rparr>"

definition policy_bundle_for_target :: "string option \<Rightarrow> policy_bundle" where
  "policy_bundle_for_target target =
     (let s = to_ascii_lowercase (case target of Some x \<Rightarrow> x | None \<Rightarrow> ''local-dev'') in
      if s \<in> {''ci'', ''ci-pipeline'', ''simple-server'', ''simple''} then bundle_ci_pipeline
      else if s \<in> {''managed-service'', ''managed''} then bundle_managed_service
      else if s \<in> {''production'', ''prod'', ''multi-users-server'', ''multi-user-server'', ''multi''}
      then bundle_production_hardened
      else bundle_local_dev)"

record hardening_decision =
  hd_allowed :: bool
  hd_reason :: string
  hd_policy_name :: string
  hd_sandbox_level :: sandbox_level

definition enforce_action :: "policy_bundle \<Rightarrow> governance_action \<Rightarrow> hardening_decision" where
  "enforce_action policy action =
     (let l = pb_sandbox_level policy;
          allowed = (case action of
             GaRead \<Rightarrow> can_execute_read_file l | GaSearch \<Rightarrow> can_execute_search l | GaWrite \<Rightarrow> can_execute_write l
           | GaShell \<Rightarrow> can_execute_shell l | GaNetwork \<Rightarrow> can_execute_network l);
          q = [CHR 0x27]
      in \<lparr>hd_allowed = allowed,
          hd_reason = (if allowed
            then ''policy '' @ q @ pb_name policy @ q @ '' allows '' @ action_as_str action @ '' action''
            else ''policy '' @ q @ pb_name policy @ q @ '' denied '' @ action_as_str action @
                 '' action at sandbox level '' @ q @ sandbox_to_string l @ q),
          hd_policy_name = pb_name policy, hd_sandbox_level = l\<rparr>)"

definition rbac_fallback_allows_action :: "string option \<Rightarrow> governance_action \<Rightarrow> hardening_decision" where
  "rbac_fallback_allows_action target action =
     (let d = enforce_action (policy_bundle_for_target target) action; q = [CHR 0x27] in
      d\<lparr>hd_reason := ''RBAC unavailable; applying deployment fallback policy '' @ q @ hd_policy_name d @ q @ '': '' @ hd_reason d\<rparr>)"

section \<open>Records of autonomous edits\<close>

record edit_audit_entry =
  ea_timestamp :: string
  ea_agent :: string
  ea_file_path :: string
  ea_change_summary :: string
  ea_approval_reason :: string
  ea_confidence_score :: u32
  ea_reversible :: bool

definition edit_to_log_entry :: "edit_audit_entry \<Rightarrow> audit_log_entry" where
  "edit_to_log_entry e =
     \<lparr>al_timestamp = ea_timestamp e, al_task_id = ea_file_path e, al_phase = ''autonomous_edit'', al_agent = Some (ea_agent e),
      al_tool = None, al_decision = ''approval='' @ ea_approval_reason e,
      al_inputs = JObject [(''file_path'', JString (ea_file_path e)), (''change_summary'', JString (ea_change_summary e)),
        (''reversible'', JBool (ea_reversible e))],
      al_outputs = None, al_error = None, al_confidence = Some (ea_confidence_score e), al_data_classification = None,
      al_compliance_tags = [], al_retention_policy = None, al_correlation_id = None\<rparr>"

definition record_edit :: "edit_audit_entry \<Rightarrow> audit_log \<Rightarrow> audit_log" where
  "record_edit e l = record_entry (edit_to_log_entry e) l"

section \<open>Budget of tool calls\<close>

lemma unat_saturating_add: "unat (saturating_add a b) = min (unat a + unat b) (2 ^ 64 - 1)"
  by (auto simp: saturating_add_def unat_word_ariths unsigned_minus_1_eq_mask mask_eq_exp_minus_1)

definition call_result :: "budget_tracker \<Rightarrow> budget_exceeded + unit" where
  "call_result t = fst (record_tool_call t)"

definition after_calls :: "nat \<Rightarrow> budget_tracker \<Rightarrow> budget_tracker" where
  "after_calls n t = ((\<lambda>t. snd (record_tool_call t)) ^^ n) t"

lemma snd_record_tool_call:
  "snd (record_tool_call t) = t\<lparr>bt_tool_calls_made := saturating_add (bt_tool_calls_made t) 1\<rparr>"
  by (simp add: record_tool_call_def Let_def)

lemma after_calls_made:
  "unat (bt_tool_calls_made (after_calls n t)) = min (unat (bt_tool_calls_made t) + n) (2 ^ 64 - 1) \<and>
   bt_task_budget (after_calls n t) = bt_task_budget t"
proof (induction n)
  case 0
  have "unat (bt_tool_calls_made t) < 2 ^ 64" using unsigned_less[of "bt_tool_calls_made t"] by simp
  then show ?case by (simp add: after_calls_def)
next
  case (Suc n)
  then show ?case
    by (simp add: after_calls_def snd_record_tool_call unat_saturating_add del: One_nat_def)
qed

text \<open>After a reset exactly the first \<open>max_tool_calls\<close> calls are within the budget; the counter never wraps
  around, so a budget that is used up stays used up until the next reset.\<close>

lemma tool_call_budget_exact:
  assumes "max_tool_calls (bt_task_budget t) \<noteq> - 1"
  shows "call_result (after_calls n (reset_budget now t)) = Inr () \<longleftrightarrow> n < unat (max_tool_calls (bt_task_budget t))"
proof -
  let ?t = "after_calls n (reset_budget now t)"
  let ?m = "max_tool_calls (bt_task_budget t)"
  have b: "bt_task_budget ?t = bt_task_budget t" using after_calls_made[of n "reset_budget now t"] by (simp add: reset_budget_def)
  have c: "unat (saturating_add (bt_tool_calls_made ?t) 1) = min (n + 1) (2 ^ 64 - 1)"
    using after_calls_made[of n "reset_budget now t"] by (simp add: reset_budget_def unat_saturating_add del: One_nat_def)
  have "unat ?m < 2 ^ 64" using unsigned_less[of ?m] by simp
  moreover have "unat ?m \<noteq> 2 ^ 64 - 1"
    using assms by (simp add: word_unat_eq_iff unsigned_minus_1_eq_mask mask_eq_exp_minus_1)
  ultimately have m: "unat ?m < 2 ^ 64 - 1" by simp
  have "call_result ?t = Inr () \<longleftrightarrow> \<not> ?m < saturating_add (bt_tool_calls_made ?t) 1"
    by (simp add: call_result_def record_tool_call_def Let_def b)
  also have "\<dots> \<longleftrightarrow> unat (saturating_add (bt_tool_calls_made ?t) 1) \<le> unat ?m" by (simp add: word_less_nat_alt not_less)
  also have "\<dots> \<longleftrightarrow> n < unat ?m" using m by (simp add: c min_def) linarith
  finally show ?thesis .
qed

section \<open>Quotas\<close>

lemma unat_plus_one_less:
  assumes "a < b"
  shows "unat (a + 1 :: usize) = unat a + 1"
proof -
  have "unat b < 2 ^ 64" using unsigned_less[of b] by simp
  then have "unat a + 1 < 2 ^ 64" using assms by (simp add: word_less_nat_alt)
  then show ?thesis by (simp add: unat_word_ariths)
qed

lemma count_of_insert [simp]: "count_of (hm_insert t n m) x = (if x = t then n else count_of m x)"
  by (simp add: count_of_def)

lemma count_of_Nil [simp]: "count_of [] t = 0"
  by (simp add: count_of_def)

lemma reset_daily_fields [simp]:
  "te_quotas (reset_daily_if_day_changed now e) = te_quotas e"
  "te_active_tasks (reset_daily_if_day_changed now e) = te_active_tasks e"
  "te_last_started_ms (reset_daily_if_day_changed now e) = te_last_started_ms e"
  by (simp_all add: reset_daily_if_day_changed_def)

definition stale :: "int \<Rightarrow> string \<Rightarrow> tenant_enforcer \<Rightarrow> bool" where
  "stale now_ms t e =
     (case hm_get (te_last_started_ms e) t of
        None \<Rightarrow> False | Some started \<Rightarrow> i64_saturating_sub now_ms started > STALE_SLOT_TIMEOUT_MS)"

lemma recover_stale_fields [simp]:
  "te_quotas (recover_stale now q t e) = te_quotas e"
  "te_token_usage (recover_stale now q t e) = te_token_usage e"
  "te_api_call_usage (recover_stale now q t e) = te_api_call_usage e"
  "te_current_day (recover_stale now q t e) = te_current_day e"
  by (simp_all add: recover_stale_def split: option.split)

lemma recover_stale_active:
  "count_of (te_active_tasks (recover_stale now q t e)) x =
     (if x = t \<and> tq_concurrent_tasks_limit q \<le> count_of (te_active_tasks e) t \<and> stale now t e then 0
      else count_of (te_active_tasks e) x)"
  by (simp add: recover_stale_def stale_def split: option.split)

lemma stale_reset [simp]: "stale now t (reset_daily_if_day_changed n e) = stale now t e"
  by (simp add: stale_def)

text \<open>A task starts exactly when the tenant has a quota, a slot is free (or all slots are stale), and the day's
  tokens and calls are below their limits; the counts of another day do not matter. A start takes
  one slot and stamps the time.\<close>

lemma check_and_start_cases:
  assumes "check_and_start_task now t e = (r, e')"
  obtains (none) "hm_get (te_quotas e) t = None" "r = Inl (NoQuota t)" "e' = reset_daily_if_day_changed now e"
  | (refused) q err where "hm_get (te_quotas e) t = Some q"
      "check_limits q t (recover_stale now q t (reset_daily_if_day_changed now e)) = Inl err" "r = Inl err"
      "e' = recover_stale now q t (reset_daily_if_day_changed now e)"
  | (started) q e1 where "hm_get (te_quotas e) t = Some q"
      "e1 = recover_stale now q t (reset_daily_if_day_changed now e)" "check_limits q t e1 = Inr ()" "r = Inr ()"
      "e' = e1\<lparr>te_active_tasks := hm_insert t (count_of (te_active_tasks e1) t + 1) (te_active_tasks e1),
               te_last_started_ms := hm_insert t now (te_last_started_ms e1)\<rparr>"
proof (cases "hm_get (te_quotas e) t")
  case None
  then have "(Inl (NoQuota t), reset_daily_if_day_changed now e) = (r, e')"
    using assms by (simp only: check_and_start_task_def Let_def reset_daily_fields option.case)
  then show thesis using None by (intro none) simp_all
next
  case (Some q)
  let ?e = "recover_stale now q t (reset_daily_if_day_changed now e)"
  show thesis
  proof (cases "check_limits q t ?e")
    case (Inl err)
    have "(Inl err, ?e) = (r, e')"
      using assms by (simp only: check_and_start_task_def Let_def reset_daily_fields Some Inl option.case sum.case)
    then show thesis using Some Inl by (intro refused[of q err]) simp_all
  next
    case (Inr u)
    have "(Inr (), ?e\<lparr>te_active_tasks := hm_insert t (count_of (te_active_tasks ?e) t + 1) (te_active_tasks ?e),
            te_last_started_ms := hm_insert t now (te_last_started_ms ?e)\<rparr>) = (r, e')"
      using assms by (simp only: check_and_start_task_def Let_def reset_daily_fields Some Inr option.case sum.case)
    then show thesis using Some Inr by (intro started[of q ?e]) simp_all
  qed
qed

lemma check_limits_ok:
  "check_limits q t e = Inr () \<longleftrightarrow>
     count_of (te_active_tasks e) t < tq_concurrent_tasks_limit q \<and>
     count_of (te_token_usage e) t < tq_daily_token_limit q \<and> count_of (te_api_call_usage e) t < tq_daily_api_call_limit q"
  by (auto simp: check_limits_def Let_def)

lemma reset_daily_usage:
  "count_of (te_token_usage (reset_daily_if_day_changed now e)) t =
     (if today now = te_current_day e then count_of (te_token_usage e) t else 0)"
  "count_of (te_api_call_usage (reset_daily_if_day_changed now e)) t =
     (if today now = te_current_day e then count_of (te_api_call_usage e) t else 0)"
  by (simp_all add: reset_daily_if_day_changed_def)

lemma check_and_start_ok_iff:
  "fst (check_and_start_task now t e) = Inr () \<longleftrightarrow>
     (\<exists>q. hm_get (te_quotas e) t = Some q \<and>
        (count_of (te_active_tasks e) t < tq_concurrent_tasks_limit q \<or> stale now t e \<and> 0 < tq_concurrent_tasks_limit q) \<and>
        (today now = te_current_day e \<longrightarrow>
           count_of (te_token_usage e) t < tq_daily_token_limit q \<and> count_of (te_api_call_usage e) t < tq_daily_api_call_limit q) \<and>
        0 < tq_daily_token_limit q \<and> 0 < tq_daily_api_call_limit q)"
proof (cases "hm_get (te_quotas e) t")
  case None
  then show ?thesis by (simp add: check_and_start_task_def Let_def)
next
  case (Some q)
  let ?e = "recover_stale now q t (reset_daily_if_day_changed now e)"
  have "fst (check_and_start_task now t e) = Inr () \<longleftrightarrow> check_limits q t ?e = Inr ()"
    using Some by (simp add: check_and_start_task_def Let_def split: sum.split)
  then show ?thesis
    using Some word_gt_0 unfolding check_limits_ok
    by (auto simp: recover_stale_active reset_daily_usage not_le not_less word_coorder.not_eq_extremum
        dest: order.strict_trans1[OF word_zero_le])
qed

text \<open>All slots are in use and the last start was more than half an hour ago.\<close>

definition leaked :: "int \<Rightarrow> string \<Rightarrow> tenant_enforcer \<Rightarrow> bool" where
  "leaked now_ms t e \<longleftrightarrow>
     (\<exists>q s. hm_get (te_quotas e) t = Some q \<and> hm_get (te_last_started_ms e) t = Some s \<and>
        tq_concurrent_tasks_limit q \<le> count_of (te_active_tasks e) t \<and> 1800000 < now_ms - s)"

lemma saturating_sub_greater: "i64_saturating_sub a b > STALE_SLOT_TIMEOUT_MS \<longleftrightarrow> 1800000 < a - b"
  by (auto simp: i64_saturating_sub_def STALE_SLOT_TIMEOUT_MS_def)

lemma recover_stale_leaked:
  assumes "hm_get (te_quotas e) t = Some q" and "e1 = recover_stale now q t (reset_daily_if_day_changed now e)"
  shows "count_of (te_active_tasks e1) x = (if x = t \<and> leaked now t e then 0 else count_of (te_active_tasks e) x)"
    and "hm_get (te_last_started_ms e1) x = (if x = t \<and> leaked now t e then None else hm_get (te_last_started_ms e) x)"
  using assms by (auto simp: recover_stale_def leaked_def saturating_sub_greater split: option.split)

lemma today_day: "0 \<le> now \<Longrightarrow> today now = now div 86400000"
  by (cases "now = 0") (simp_all add: today_def unix_ts_day_number_def sgn_if zdiv_zmult2_eq[symmetric])

lemma check_limits_err:
  assumes "check_limits q t e = Inl err"
  shows "err = ConcurrentLimit t (count_of (te_active_tasks e) t) (tq_concurrent_tasks_limit q) \<and>
      tq_concurrent_tasks_limit q \<le> count_of (te_active_tasks e) t \<or>
    err = DailyTokens t (count_of (te_token_usage e) t) (tq_daily_token_limit q) \<and>
      tq_daily_token_limit q \<le> count_of (te_token_usage e) t \<or>
    err = DailyCalls t (count_of (te_api_call_usage e) t) (tq_daily_api_call_limit q) \<and>
      tq_daily_api_call_limit q \<le> count_of (te_api_call_usage e) t"
  using assms by (auto simp: check_limits_def Let_def split: if_splits)

lemma check_and_start_refusal:
  assumes "check_and_start_task now t e = (Inl err, e')"
  shows "(case err of
       NoQuota t' \<Rightarrow> t' = t \<and> hm_get (te_quotas e) t = None
     | ConcurrentLimit t' n l \<Rightarrow> t' = t \<and> n = count_of (te_active_tasks e') t \<and> l \<le> n \<and>
         map_option tq_concurrent_tasks_limit (hm_get (te_quotas e) t) = Some l
     | DailyTokens t' n l \<Rightarrow> t' = t \<and> n = count_of (te_token_usage e') t \<and> l \<le> n \<and>
         map_option tq_daily_token_limit (hm_get (te_quotas e) t) = Some l
     | DailyCalls t' n l \<Rightarrow> t' = t \<and> n = count_of (te_api_call_usage e') t \<and> l \<le> n \<and>
         map_option tq_daily_api_call_limit (hm_get (te_quotas e) t) = Some l)"
  using assms
proof (cases rule: check_and_start_cases)
  case (refused q err')
  then show ?thesis using check_limits_err[OF refused(2)] by auto
qed auto

lemma check_and_start_state:
  assumes "check_and_start_task now t e = (r, e')"
  shows "count_of (te_active_tasks e') x =
      (if x \<noteq> t then count_of (te_active_tasks e) x
       else (if leaked now t e then 0 else count_of (te_active_tasks e) t) + (if r = Inr () then 1 else 0))"
    and "hm_get (te_last_started_ms e') x =
      (if x \<noteq> t then hm_get (te_last_started_ms e) x
       else if r = Inr () then Some now else if leaked now t e then None else hm_get (te_last_started_ms e) t)"
    and "te_quotas e' = te_quotas e" and "te_current_day e' = today now"
    and "count_of (te_token_usage e') x = (if today now = te_current_day e then count_of (te_token_usage e) x else 0)"
    and "count_of (te_api_call_usage e') x = (if today now = te_current_day e then count_of (te_api_call_usage e) x else 0)"
proof -
  have "te_current_day (reset_daily_if_day_changed now e) = today now" by (simp add: reset_daily_if_day_changed_def)
  note d = this reset_daily_usage
  have n: "hm_get (te_quotas e) t = None \<Longrightarrow> \<not> leaked now t e" by (simp add: leaked_def)
  show "count_of (te_active_tasks e') x =
      (if x \<noteq> t then count_of (te_active_tasks e) x
       else (if leaked now t e then 0 else count_of (te_active_tasks e) t) + (if r = Inr () then 1 else 0))"
    using assms by (cases rule: check_and_start_cases) (simp_all add: n recover_stale_leaked(1)[OF _ refl])
  show "hm_get (te_last_started_ms e') x =
      (if x \<noteq> t then hm_get (te_last_started_ms e) x
       else if r = Inr () then Some now else if leaked now t e then None else hm_get (te_last_started_ms e) t)"
    using assms by (cases rule: check_and_start_cases) (simp_all add: n recover_stale_leaked(2)[OF _ refl])
  show "te_quotas e' = te_quotas e" "te_current_day e' = today now"
    "count_of (te_token_usage e') x = (if today now = te_current_day e then count_of (te_token_usage e) x else 0)"
    "count_of (te_api_call_usage e') x = (if today now = te_current_day e then count_of (te_api_call_usage e) x else 0)"
    using assms by (cases rule: check_and_start_cases; simp add: d)+
qed

text \<open>C31: A task starts exactly when the tenant has a quota, a slot is free or all slots count as leaked (the
  last start is more than half an hour ago), and the tokens and calls of the day are below their limits, those of another
  day counting as none; a tenant with a limit of zero never starts. A start takes one slot, after leaked
  slots were given back, and stamps the tenant with the time. A refusal takes no slot and stamps nothing: it only
  gives leaked slots back; its reason is true of the state it leaves and names the quota's limit.
  No other tenant's slots or stamps change, no quota does, and usage is only forgotten when the day changes.\<close>

theorem tenant_start_exact:
  assumes "check_and_start_task now t e = (r, e')" and "0 \<le> now"
    and "sameday \<longleftrightarrow> now div 86400000 = te_current_day e"
  shows "(r = Inr () \<longleftrightarrow>
     (\<exists>q. hm_get (te_quotas e) t = Some q \<and>
        (count_of (te_active_tasks e) t < tq_concurrent_tasks_limit q \<or> leaked now t e \<and> 0 < tq_concurrent_tasks_limit q) \<and>
        (sameday \<longrightarrow> count_of (te_token_usage e) t < tq_daily_token_limit q \<and>
           count_of (te_api_call_usage e) t < tq_daily_api_call_limit q) \<and>
        0 < tq_daily_token_limit q \<and> 0 < tq_daily_api_call_limit q)) \<and>
    (r = Inr () \<longrightarrow>
       unat (count_of (te_active_tasks e') t) = (if leaked now t e then 1 else unat (count_of (te_active_tasks e) t) + 1) \<and>
       hm_get (te_last_started_ms e') t = Some now) \<and>
    (\<forall>err. r = Inl err \<longrightarrow>
       count_of (te_active_tasks e') t = (if leaked now t e then 0 else count_of (te_active_tasks e) t) \<and>
       hm_get (te_last_started_ms e') t = (if leaked now t e then None else hm_get (te_last_started_ms e) t) \<and>
       (case err of
          NoQuota t' \<Rightarrow> t' = t \<and> hm_get (te_quotas e) t = None
        | ConcurrentLimit t' n l \<Rightarrow> t' = t \<and> n = count_of (te_active_tasks e') t \<and> l \<le> n \<and>
            map_option tq_concurrent_tasks_limit (hm_get (te_quotas e) t) = Some l
        | DailyTokens t' n l \<Rightarrow> t' = t \<and> n = count_of (te_token_usage e') t \<and> l \<le> n \<and>
            map_option tq_daily_token_limit (hm_get (te_quotas e) t) = Some l
        | DailyCalls t' n l \<Rightarrow> t' = t \<and> n = count_of (te_api_call_usage e') t \<and> l \<le> n \<and>
            map_option tq_daily_api_call_limit (hm_get (te_quotas e) t) = Some l)) \<and>
    (\<forall>x. x \<noteq> t \<longrightarrow> count_of (te_active_tasks e') x = count_of (te_active_tasks e) x \<and>
       hm_get (te_last_started_ms e') x = hm_get (te_last_started_ms e) x) \<and>
    (\<forall>x. count_of (te_token_usage e') x = (if sameday then count_of (te_token_usage e) x else 0) \<and>
       count_of (te_api_call_usage e') x = (if sameday then count_of (te_api_call_usage e) x else 0)) \<and>
    te_quotas e' = te_quotas e"
proof -
  have day: "today now = te_current_day e \<longleftrightarrow> sameday" using assms(2,3) by (simp add: today_day)
  note state = check_and_start_state[OF assms(1)]
  have iff: "r = Inr () \<longleftrightarrow>
     (\<exists>q. hm_get (te_quotas e) t = Some q \<and>
        (count_of (te_active_tasks e) t < tq_concurrent_tasks_limit q \<or> leaked now t e \<and> 0 < tq_concurrent_tasks_limit q) \<and>
        (sameday \<longrightarrow> count_of (te_token_usage e) t < tq_daily_token_limit q \<and>
           count_of (te_api_call_usage e) t < tq_daily_api_call_limit q) \<and>
        0 < tq_daily_token_limit q \<and> 0 < tq_daily_api_call_limit q)"
    using check_and_start_ok_iff[of now t e] assms(1) unfolding day
    by (auto simp: leaked_def stale_def saturating_sub_greater not_less split: option.splits)
  have slot: "unat (count_of (te_active_tasks e') t) = (if leaked now t e then 1 else unat (count_of (te_active_tasks e) t) + 1)"
    if "r = Inr ()"
    using that iff state(1)[of t] by (auto simp: unat_plus_one_less)
  show ?thesis
    using iff slot state(2)[of t] check_and_start_refusal[of now t e _ e'] assms(1) state(1,2) state(3,5,6) day
    by (intro conjI allI impI) simp_all
qed

definition sample_quota :: tenant_quota where
  "sample_quota = \<lparr>tq_tenant_id = ''a'', tq_daily_token_limit = 10, tq_concurrent_tasks_limit = 1, tq_daily_api_call_limit = 5\<rparr>"

lemma tenant_start_exact_witness:
  "fst (check_and_start_task 2000000 ''a'' (snd (check_and_start_task 0 ''a'' (set_quota sample_quota (tenant_enforcer_new 0))))) = Inr () \<and>
   fst (check_and_start_task 1000000 ''a'' (snd (check_and_start_task 0 ''a'' (set_quota sample_quota (tenant_enforcer_new 0))))) \<noteq> Inr ()"
proof -
  let ?e = "snd (check_and_start_task 0 ''a'' (set_quota sample_quota (tenant_enforcer_new 0)))"
  have st: "te_quotas ?e = [(''a'', sample_quota)]" "te_active_tasks ?e = [(''a'', 1)]" "te_last_started_ms ?e = [(''a'', 0)]"
    "te_token_usage ?e = []" "te_api_call_usage ?e = []" "te_current_day ?e = 0"
    by (code_simp)+
  have q: "tq_concurrent_tasks_limit sample_quota = 1" "tq_daily_token_limit sample_quota = 10" "tq_daily_api_call_limit sample_quota = 5"
    by (simp_all add: sample_quota_def)
  have a: "fst (check_and_start_task 2000000 ''a'' ?e) = Inr ()"
    using tenant_start_exact[OF surjective_pairing[of "check_and_start_task 2000000 ''a'' ?e"] _ refl]
    by (simp add: st q leaked_def count_of_def)
  have b: "fst (check_and_start_task 1000000 ''a'' ?e) \<noteq> Inr ()"
    using tenant_start_exact[OF surjective_pairing[of "check_and_start_task 1000000 ''a'' ?e"] _ refl]
    by (simp add: st q leaked_def count_of_def)
  show ?thesis using a b by simp
qed

section \<open>Running tasks\<close>

text \<open>The enforcer together with the number of tasks of each tenant that really run. A task ends by
  reporting its usage, or it fails and its slot stays taken. The guard of the two start steps says
  that no task runs longer than the timeout for stale slots.\<close>

definition none_outlives :: "int \<Rightarrow> string \<Rightarrow> tenant_enforcer \<times> (string \<Rightarrow> nat) \<Rightarrow> bool" where
  "none_outlives now t s \<longleftrightarrow> (stale now t (fst s) \<longrightarrow> snd s t = 0)"

inductive tenant_step :: "tenant_enforcer \<times> (string \<Rightarrow> nat) \<Rightarrow> tenant_enforcer \<times> (string \<Rightarrow> nat) \<Rightarrow> bool" where
  start: "none_outlives now t (e, run) \<Longrightarrow> check_and_start_task now t e = (Inr (), e') \<Longrightarrow>
    tenant_step (e, run) (e', run(t := run t + 1))"
| refuse: "none_outlives now t (e, run) \<Longrightarrow> check_and_start_task now t e = (Inl err, e') \<Longrightarrow> tenant_step (e, run) (e', run)"
| probe: "check_can_start now t e = (r, e') \<Longrightarrow> tenant_step (e, run) (e', run)"
| finish: "0 < run t \<Longrightarrow> tenant_step (e, run) (record_usage t tokens calls e, run(t := run t - 1))"
| crash: "0 < run t \<Longrightarrow> tenant_step (e, run) (e, run(t := run t - 1))"

inductive_cases tenant_stepE: "tenant_step s s'"

definition slots_ok :: "(string, tenant_quota) hmap \<Rightarrow> tenant_enforcer \<times> (string \<Rightarrow> nat) \<Rightarrow> bool" where
  "slots_ok qs s \<longleftrightarrow>
     te_quotas (fst s) = qs \<and>
     (\<forall>t. snd s t \<le> unat (count_of (te_active_tasks (fst s)) t) \<and>
        (case hm_get qs t of
           None \<Rightarrow> count_of (te_active_tasks (fst s)) t = 0
         | Some q \<Rightarrow> count_of (te_active_tasks (fst s)) t \<le> tq_concurrent_tasks_limit q))"

lemma slots_ok_quota: "slots_ok qs s \<Longrightarrow> te_quotas (fst s) = qs"
  by (simp add: slots_ok_def)

lemma slots_okD:
  assumes "slots_ok qs (e, run)"
  shows "run t \<le> unat (count_of (te_active_tasks e) t)"
    and "hm_get qs t = None \<Longrightarrow> count_of (te_active_tasks e) t = 0"
    and "hm_get qs t = Some q \<Longrightarrow> count_of (te_active_tasks e) t \<le> tq_concurrent_tasks_limit q"
  using assms by (auto simp: slots_ok_def dest: spec[of _ t])

lemma slots_okI:
  assumes "te_quotas e = qs" and "\<And>t. run t \<le> unat (count_of (te_active_tasks e) t)"
    and "\<And>t. hm_get qs t = None \<Longrightarrow> count_of (te_active_tasks e) t = 0"
    and "\<And>t q. hm_get qs t = Some q \<Longrightarrow> count_of (te_active_tasks e) t \<le> tq_concurrent_tasks_limit q"
  shows "slots_ok qs (e, run)"
  using assms by (auto simp: slots_ok_def split: option.split)

text \<open>Clearing stale slots keeps the bounds when none of the tenant's tasks runs.\<close>

lemma recover_slots_ok:
  assumes "slots_ok qs (e, run)" and "none_outlives now t (e, run)" and "hm_get qs t = Some q"
  shows "slots_ok qs (recover_stale now q t (reset_daily_if_day_changed now e), run)"
  using assms(1,2) slots_okD[OF assms(1)] slots_ok_quota[OF assms(1)]
  by (intro slots_okI) (auto simp: recover_stale_active none_outlives_def)

lemma start_slots_ok:
  assumes ok: "slots_ok qs (e, run)" and out: "none_outlives now t (e, run)"
    and start: "check_and_start_task now t e = (r, e')"
  shows "slots_ok qs (e', if r = Inr () then run(t := run t + 1) else run)"
  using start
proof (cases rule: check_and_start_cases)
  case none
  then show ?thesis using ok slots_okD[OF ok] slots_ok_quota[OF ok] by (auto intro!: slots_okI)
next
  case (refused q err)
  have "hm_get qs t = Some q" using refused(1) slots_ok_quota[OF ok] by simp
  then show ?thesis using refused recover_slots_ok[OF ok out] by simp
next
  case (started q e1)
  have q: "hm_get qs t = Some q" using started(1) slots_ok_quota[OF ok] by simp
  have ok1: "slots_ok qs (e1, run)" unfolding started(2) by (rule recover_slots_ok[OF ok out q])
  let ?a = "count_of (te_active_tasks e1) t"
  have lt: "?a < tq_concurrent_tasks_limit q" using started(3) by (simp add: check_limits_ok)
  have succ: "unat (?a + 1) = unat ?a + 1" using lt by (rule unat_plus_one_less)
  have le: "?a + 1 \<le> tq_concurrent_tasks_limit q" using lt succ by (simp add: word_le_nat_alt word_less_nat_alt)
  have "slots_ok qs (e', run(t := run t + 1))"
  proof (rule slots_okI)
    show "te_quotas e' = qs" using slots_ok_quota[OF ok1] started(5) by simp
    show "(run(t := run t + 1)) x \<le> unat (count_of (te_active_tasks e') x)" for x
      using slots_okD(1)[OF ok1, of x] succ started(5) by auto
    show "count_of (te_active_tasks e') x = 0" if "hm_get qs x = None" for x
      using slots_okD(2)[OF ok1 that] that q started(5) by auto
    show "count_of (te_active_tasks e') x \<le> tq_concurrent_tasks_limit qx" if "hm_get qs x = Some qx" for x qx
      using slots_okD(3)[OF ok1 that] that q le started(5) by auto
  qed
  then show ?thesis using started(4) by simp
qed

lemma finish_slots_ok:
  assumes ok: "slots_ok qs (e, run)" and pos: "0 < run t"
  shows "slots_ok qs (record_usage t tokens calls e, run(t := run t - 1))"
proof -
  let ?a = "count_of (te_active_tasks e) t"
  have nz: "?a \<noteq> 0" using slots_okD(1)[OF ok, of t] pos by auto
  have pred: "unat (?a - 1) = unat ?a - 1" using nz by (rule unat_minus_one)
  have le: "?a - 1 \<le> ?a" using pred by (simp add: word_le_nat_alt)
  show ?thesis
  proof (rule slots_okI)
    show "te_quotas (record_usage t tokens calls e) = qs" using slots_ok_quota[OF ok] by (simp add: record_usage_def Let_def)
    show "(run(t := run t - 1)) x \<le> unat (count_of (te_active_tasks (record_usage t tokens calls e)) x)" for x
      using slots_okD(1)[OF ok, of x] nz pred by (auto simp: record_usage_def Let_def)
    show "count_of (te_active_tasks (record_usage t tokens calls e)) x = 0" if "hm_get qs x = None" for x
      using slots_okD(2)[OF ok that] nz by (auto simp: record_usage_def Let_def)
    show "count_of (te_active_tasks (record_usage t tokens calls e)) x \<le> tq_concurrent_tasks_limit qx"
      if "hm_get qs x = Some qx" for x qx
      using slots_okD(3)[OF ok that] nz le by (auto simp: record_usage_def Let_def)
  qed
qed

lemma tenant_step_ok:
  assumes "slots_ok qs s" and "tenant_step s s'"
  shows "slots_ok qs s'"
  using assms(2,1)
proof (cases rule: tenant_step.cases)
  case (start now t e run e')
  then show ?thesis using assms(1) start_slots_ok[of qs e run now t "Inr ()" e'] by simp
next
  case (refuse now t e run err e')
  then show ?thesis using assms(1) start_slots_ok[of qs e run now t "Inl err" e'] by simp
next
  case (probe now t e r e' run)
  have "e' = reset_daily_if_day_changed now e"
    using probe(3) by (auto simp: check_can_start_def Let_def split: option.splits)
  then show ?thesis using assms(1) probe slots_okD[of qs e run] slots_ok_quota[of qs "(e, run)"] by (auto intro!: slots_okI)
next
  case (finish run t e tokens calls)
  then show ?thesis using assms(1) finish_slots_ok by blast
next
  case (crash run t e)
  then have ok: "slots_ok qs (e, run)" using assms(1) by simp
  have "(run(t := run t - 1)) x \<le> unat (count_of (te_active_tasks e) x)" for x
    using slots_okD(1)[OF ok, of x] by auto
  then show ?thesis using crash ok slots_okD[OF ok] slots_ok_quota[OF ok] by (auto intro!: slots_okI)
qed

interpretation tenants: invariant_system tenant_step "slots_ok qs" for qs
  by unfold_locales (rule tenant_step_ok)

text \<open>C30: Whatever tasks start, finish, fail without giving their slot back, and whatever time it is: as long as no
  task runs longer than the timeout for stale slots, a tenant never has more tasks running than
  its limit, and a tenant without a quota never has any.\<close>

theorem tenant_quota_safe:
  assumes "te_active_tasks e0 = []" and "tenant_step\<^sup>*\<^sup>* (e0, \<lambda>_. 0) (e, run)"
  shows "run t \<le> (case hm_get (te_quotas e0) t of None \<Rightarrow> 0 | Some q \<Rightarrow> unat (tq_concurrent_tasks_limit q))"
proof -
  have "slots_ok (te_quotas e0) (e0, \<lambda>_. 0)" using assms(1) by (auto intro!: slots_okI)
  then have ok: "slots_ok (te_quotas e0) (e, run)" using tenants.run_inv[OF assms(2)] by blast
  show ?thesis
    using slots_okD[OF ok, of t] by (cases "hm_get (te_quotas e0) t") (auto simp: word_le_nat_alt)
qed

lemma tenant_quota_safe_witness:
  "\<exists>e. tenant_step\<^sup>*\<^sup>* (set_quota sample_quota (tenant_enforcer_new 0), \<lambda>_. 0) (e, (\<lambda>_. 0)(''a'' := 1)) \<and>
     ((\<lambda>_. 0)(''a'' := 1 :: nat)) ''a'' \<le> unat (tq_concurrent_tasks_limit sample_quota)"
proof -
  let ?e0 = "set_quota sample_quota (tenant_enforcer_new 0)"
  obtain e where e: "check_and_start_task 0 ''a'' ?e0 = (Inr (), e)"
  proof -
    have "fst (check_and_start_task 0 ''a'' ?e0) = Inr ()" by code_simp
    then show ?thesis using that[of "snd (check_and_start_task 0 ''a'' ?e0)"] by (metis prod.collapse)
  qed
  have "none_outlives 0 ''a'' (?e0, \<lambda>_. 0)" by (simp add: none_outlives_def)
  from tenant_step.start[OF this e]
  have run: "tenant_step\<^sup>*\<^sup>* (?e0, \<lambda>_. 0) (e, (\<lambda>_. 0)(''a'' := 1))" by simp
  have "te_active_tasks ?e0 = []" and q: "te_quotas ?e0 = [(''a'', sample_quota)]" by (code_simp)+
  with tenant_quota_safe[OF _ run, of "''a''"] run show ?thesis by auto
qed

section \<open>The cache of results\<close>

definition cache_ok :: "idempotency_cache \<Rightarrow> bool" where
  "cache_ok c \<longleftrightarrow>
     0 < ic_max_entries_per_tenant c \<and>
     (\<forall>t. distinct (queue_of c t) \<and> length (queue_of c t) \<le> ic_max_entries_per_tenant c \<and>
        (\<forall>k \<in> set (queue_of c t). tenant_from_key k = t)) \<and>
     (\<forall>k. hm_get (ic_results c) k \<noteq> None \<longleftrightarrow> k \<in> set (queue_of c (tenant_from_key k)))"

lemma cache_okD:
  assumes "cache_ok c"
  shows "0 < ic_max_entries_per_tenant c" and "distinct (queue_of c t)"
    and "length (queue_of c t) \<le> ic_max_entries_per_tenant c"
    and "k \<in> set (queue_of c t) \<Longrightarrow> tenant_from_key k = t"
    and "hm_get (ic_results c) k \<noteq> None \<longleftrightarrow> k \<in> set (queue_of c (tenant_from_key k))"
  using assms by (auto simp: cache_ok_def)

lemma cache_new_ok: "cache_ok (idempotency_cache_new ttl)"
  by (simp add: cache_ok_def idempotency_cache_new_def queue_of_def MAX_ENTRIES_PER_TENANT_def)

lemma hm_get_fold_remove: "hm_get (fold hm_remove ks m) k = (if k \<in> set ks then None else hm_get m k)"
  by (induction ks arbitrary: m) auto

text \<open>The key that an insertion evicts: the oldest of the tenant, when the tenant is full and the key is new.\<close>

definition evicted :: "idempotency_cache \<Rightarrow> string \<Rightarrow> string list" where
  "evicted c key =
     (let q = queue_of c (tenant_from_key key) in
      if key \<notin> set q \<and> length q = ic_max_entries_per_tenant c then take 1 q else [])"

lemma filter_not_take:
  assumes "distinct xs"
  shows "filter (\<lambda>k. k \<notin> set (take n xs)) xs = drop n xs"
proof -
  let ?P = "\<lambda>k. k \<notin> set (take n xs)"
  have "filter ?P (take n xs @ drop n xs) = filter ?P (take n xs) @ filter ?P (drop n xs)" by (rule filter_append)
  moreover have "filter ?P (take n xs) = []" by (simp add: filter_empty_conv)
  moreover have "filter ?P (drop n xs) = drop n xs"
    using set_take_disj_set_drop_if_distinct[OF assms, of n n] by (intro filter_True) auto
  ultimately show ?thesis by simp
qed

lemma cache_insert_queue:
  assumes ok: "cache_ok c"
  shows "queue_of (cache_insert now key v c) t =
    (if t = tenant_from_key key
     then filter (\<lambda>k. k \<notin> set (evicted c key) \<and> k \<noteq> key) (queue_of c t) @ [key] else queue_of c t)"
    and "hm_get (ic_results (cache_insert now key v c)) k =
    (if k = key then Some \<lparr>ir_response = v, ir_cached_at = now\<rparr>
     else if k \<in> set (evicted c key) then None else hm_get (ic_results c) k)"
proof -
  let ?t = "tenant_from_key key"
  let ?q = "queue_of c ?t"
  let ?m = "ic_max_entries_per_tenant c"
  let ?ks = "if hm_contains (ic_results c) key then filter (\<lambda>k. k \<noteq> key) ?q else ?q"
  let ?n = "if length ?ks \<ge> ?m then length ?ks - ?m + 1 else 0"
  note okD = cache_okD[OF ok]
  have mem: "hm_contains (ic_results c) key \<longleftrightarrow> key \<in> set ?q" using okD(5)[of key] by auto
  have "filter (\<lambda>k. k \<noteq> key) ?q = ?q" if "key \<notin> set ?q" using that by (intro filter_True) auto
  then have ks: "?ks = filter (\<lambda>k. k \<noteq> key) ?q" using mem by simp
  have ev: "take ?n ?ks = evicted c key"
  proof (cases "key \<in> set ?q")
    case True
    have "length (filter (\<lambda>k. k \<noteq> key) ?q) < length ?q" using True by (rule length_filter_less) simp
    then have "length ?ks < ?m" using okD(3)[of ?t] ks by simp
    then show ?thesis using True by (simp add: evicted_def Let_def)
  next
    case False
    then have "?ks = ?q" using mem by simp
    then show ?thesis using okD(3)[of ?t] False by (auto simp: evicted_def Let_def)
  qed
  have "distinct ?ks" using okD(2)[of ?t] ks by simp
  then have "filter (\<lambda>k. k \<notin> set (take ?n ?ks)) ?ks = drop ?n ?ks" by (rule filter_not_take)
  then have dr: "drop ?n ?ks = filter (\<lambda>k. k \<notin> set (evicted c key) \<and> k \<noteq> key) ?q"
    unfolding ev unfolding ks by (simp add: conj_commute)
  have ins: "cache_insert now key v c = c\<lparr>ic_tenant_keys := hm_insert ?t (drop ?n ?ks @ [key]) (ic_tenant_keys c),
      ic_results := hm_insert key \<lparr>ir_response = v, ir_cached_at = now\<rparr> (fold hm_remove (take ?n ?ks) (ic_results c))\<rparr>"
    by (simp only: cache_insert_def Let_def)
  show "queue_of (cache_insert now key v c) t =
    (if t = ?t then filter (\<lambda>k. k \<notin> set (evicted c key) \<and> k \<noteq> key) (queue_of c t) @ [key] else queue_of c t)"
    unfolding ins dr by (simp add: queue_of_def)
  show "hm_get (ic_results (cache_insert now key v c)) k =
    (if k = key then Some \<lparr>ir_response = v, ir_cached_at = now\<rparr>
     else if k \<in> set (evicted c key) then None else hm_get (ic_results c) k)"
    unfolding ins ev by (simp add: hm_get_fold_remove)
qed

lemma evicted_tenant: "cache_ok c \<Longrightarrow> k \<in> set (evicted c key) \<Longrightarrow> tenant_from_key k = tenant_from_key key"
  using cache_okD(4)[of c k "tenant_from_key key"] by (auto simp: evicted_def Let_def split: if_splits dest: in_set_takeD)

lemma evicted_length:
  assumes ok: "cache_ok c"
  shows "length (filter (\<lambda>k. k \<notin> set (evicted c key) \<and> k \<noteq> key) (queue_of c (tenant_from_key key))) < ic_max_entries_per_tenant c"
proof -
  let ?q = "queue_of c (tenant_from_key key)"
  let ?f = "filter (\<lambda>k. k \<notin> set (evicted c key) \<and> k \<noteq> key) ?q"
  note okD = cache_okD[OF ok]
  show ?thesis
  proof (cases "length ?q = ic_max_entries_per_tenant c")
    case full: True
    have "\<exists>k. k \<in> set ?q \<and> \<not> (k \<notin> set (evicted c key) \<and> k \<noteq> key)"
    proof (cases "key \<in> set ?q")
      case True
      then show ?thesis by blast
    next
      case False
      then have "evicted c key = take 1 ?q" using full by (simp add: evicted_def Let_def)
      then have "hd ?q \<in> set (evicted c key)" and "hd ?q \<in> set ?q" using full okD(1) by (cases ?q; simp)+
      then show ?thesis by blast
    qed
    then obtain k where k: "k \<in> set ?q" "\<not> (k \<notin> set (evicted c key) \<and> k \<noteq> key)" by blast
    have "length ?f < length ?q" using k by (intro length_filter_less[of k])
    then show ?thesis using full by simp
  next
    case False
    have "length ?f \<le> length ?q" by (rule length_filter_le)
    then show ?thesis using False okD(3)[of "tenant_from_key key"] by linarith
  qed
qed

lemma cache_insert_max [simp]: "ic_max_entries_per_tenant (cache_insert now key v c) = ic_max_entries_per_tenant c"
  and cache_insert_ttl [simp]: "ic_ttl (cache_insert now key v c) = ic_ttl c"
  by (simp_all add: cache_insert_def Let_def)

lemma cache_insert_ok:
  assumes ok: "cache_ok c"
  shows "cache_ok (cache_insert now key v c)"
proof -
  note okD = cache_okD[OF ok]
  have len: "length (queue_of (cache_insert now key v c) t) \<le> ic_max_entries_per_tenant c" for t
    using okD(3)[of t] evicted_length[OF ok, of key] by (auto simp: cache_insert_queue[OF ok])
  have iff: "hm_get (ic_results (cache_insert now key v c)) k \<noteq> None \<longleftrightarrow>
      k \<in> set (queue_of (cache_insert now key v c) (tenant_from_key k))" for k
    using okD(5)[of k] evicted_tenant[OF ok, of k key] by (auto simp: cache_insert_queue[OF ok])
  show ?thesis
    using okD(1,2,4) len iff unfolding cache_ok_def
    by (auto simp: cache_insert_queue(1)[OF ok])
qed

lemma split_on_hd: "c \<notin> set s \<Longrightarrow> split_on c s = [s]"
  by (induction s) auto

lemma tenant_prefix: "tenant_from_key key = takeWhile (\<lambda>c. c \<noteq> CHR '':'') key"
proof -
  have "hd (split_on c s) = takeWhile (\<lambda>x. x \<noteq> c) s \<and> split_on c s \<noteq> []" for c s
    by (induction s) (auto split: list.split)
  then show ?thesis by (simp add: tenant_from_key_def)
qed

section \<open>Which results a sequence of insertions leaves\<close>

text \<open>An insertion is a time, a key and a response; the keys of a tenant in the order of their last insertion.\<close>

type_synonym insertion = "nat \<times> string \<times> json"

definition insert_all :: "insertion list \<Rightarrow> idempotency_cache \<Rightarrow> idempotency_cache" where
  "insert_all ins c = fold (\<lambda>(now, key, v). cache_insert now key v) ins c"

definition recent_keys :: "string \<Rightarrow> insertion list \<Rightarrow> string list" where
  "recent_keys t ins = remdups (filter (\<lambda>k. tenant_from_key k = t) (map (\<lambda>(now, key, v). key) ins))"

lemma remdups_snoc: "remdups (xs @ [x]) = filter (\<lambda>k. k \<noteq> x) (remdups xs) @ [x]"
  by (induction xs) auto

lemma recent_keys_snoc:
  "recent_keys t (ins @ [(now, key, v)]) =
     (if tenant_from_key key = t then filter (\<lambda>k. k \<noteq> key) (recent_keys t ins) @ [key] else recent_keys t ins)"
  by (simp add: recent_keys_def remdups_snoc)

lemma recent_keys_distinct: "distinct (recent_keys t ins)"
  by (simp add: recent_keys_def)

text \<open>The queue of a tenant holds its most recently inserted keys.\<close>

definition newest :: "nat \<Rightarrow> 'a list \<Rightarrow> 'a list" where
  "newest n xs = drop (length xs - n) xs"

lemma newest_append: "length ys = n \<Longrightarrow> newest n (xs @ ys) = ys"
  by (simp add: newest_def)

lemma newest_all: "length xs \<le> n \<Longrightarrow> newest n xs = xs"
  by (simp add: newest_def)

lemma newest_split:
  obtains (full) ys where "xs = ys @ newest m xs" "length (newest m xs) = m"
  | (small) "newest m xs = xs" "length xs < m"
proof (cases "length xs < m")
  case True
  then show ?thesis using small by (simp add: newest_all)
next
  case False
  then show ?thesis using full[of "take (length xs - m) xs"] by (simp add: newest_def)
qed

lemma newest_push:
  assumes "distinct xs" and "0 < m"
    and "ev = (if k \<notin> set (newest m xs) \<and> length (newest m xs) = m then take 1 (newest m xs) else [])"
  shows "filter (\<lambda>x. x \<notin> set ev \<and> x \<noteq> k) (newest m xs) @ [k] = newest m (filter (\<lambda>x. x \<noteq> k) xs @ [k])"
proof -
  have "newest m (zs @ [k]) = newest (m - 1) zs @ [k]" for zs
    using assms(2) by (cases m) (simp_all add: newest_def)
  moreover have "filter (\<lambda>x. x \<notin> set ev \<and> x \<noteq> k) (newest m xs) = newest (m - 1) (filter (\<lambda>x. x \<noteq> k) xs)"
  proof (cases rule: newest_split[of xs m])
    case small
    have "length (filter (\<lambda>x. x \<noteq> k) xs) \<le> m - 1" using small(2) length_filter_le[of "\<lambda>x. x \<noteq> k" xs] by linarith
    then show ?thesis using small assms(3) by (simp add: newest_all)
  next
    case (full ys)
    define zs where "zs = newest m xs"
    note f = full[folded zs_def] and ev = assms(3)[folded zs_def]
    have d: "distinct zs" using assms(1) f(1) by (metis distinct_append)
    show ?thesis
    proof (cases "k \<in> set zs")
      case True
      then obtain as bs where zs: "zs = as @ k # bs" by (meson split_list)
      have "filter (\<lambda>x. x \<noteq> k) as = as" "filter (\<lambda>x. x \<noteq> k) bs = bs" using d unfolding zs by (intro filter_True; auto)+
      then have fl: "filter (\<lambda>x. x \<noteq> k) zs = as @ bs" by (simp add: zs)
      have "newest (m - 1) (filter (\<lambda>x. x \<noteq> k) ys @ filter (\<lambda>x. x \<noteq> k) zs) = filter (\<lambda>x. x \<noteq> k) zs"
        by (rule newest_append) (use f(2) in \<open>simp add: fl; simp add: zs\<close>)
      then show ?thesis using True ev unfolding zs_def[symmetric] by (subst f(1)) simp
    next
      case False
      obtain b bs where zs: "zs = b # bs" using f(2) assms(2) by (cases zs) auto
      have ev': "ev = [b]" using False ev f(2) zs by simp
      have fl: "filter (\<lambda>x. x \<noteq> k) zs = zs" using False by (intro filter_True) auto
      have "newest (m - 1) ((filter (\<lambda>x. x \<noteq> k) ys @ [b]) @ bs) = bs"
        by (rule newest_append) (use f(2) zs in simp)
      moreover have "filter (\<lambda>x. x \<noteq> k) xs = (filter (\<lambda>x. x \<noteq> k) ys @ [b]) @ bs"
        using fl by (subst f(1)) (simp add: zs)
      moreover have "filter (\<lambda>x. x \<notin> set ev \<and> x \<noteq> k) zs = bs"
        using d False unfolding zs ev' by (auto intro: filter_True)
      ultimately show ?thesis unfolding zs_def[symmetric] by simp
    qed
  qed
  ultimately show ?thesis by simp
qed

definition lru_ok :: "insertion list \<Rightarrow> idempotency_cache \<Rightarrow> bool" where
  "lru_ok ins c \<longleftrightarrow> cache_ok c \<and> (\<forall>t. queue_of c t = newest (ic_max_entries_per_tenant c) (recent_keys t ins)) \<and>
     (\<forall>k r. hm_get (ic_results c) k = Some r \<longrightarrow>
        map_of (map (\<lambda>(now, key, v). (key, \<lparr>ir_response = v, ir_cached_at = now\<rparr>)) (rev ins)) k = Some r)"

lemma insert_all_snoc: "insert_all (ins @ [(now, key, v)]) c = cache_insert now key v (insert_all ins c)"
  by (simp add: insert_all_def)

lemma insert_all_lru:
  "lru_ok ins (insert_all ins (idempotency_cache_new ttl)) \<and>
   ic_max_entries_per_tenant (insert_all ins (idempotency_cache_new ttl)) = MAX_ENTRIES_PER_TENANT \<and>
   ic_ttl (insert_all ins (idempotency_cache_new ttl)) = ttl"
proof (induction ins rule: rev_induct)
  case Nil
  show ?case using cache_new_ok by (simp add: insert_all_def lru_ok_def recent_keys_def newest_def
        idempotency_cache_new_def queue_of_def)
next
  case (snoc i ins)
  obtain now key v where i: "i = (now, key, v)" by (cases i)
  define c where "c = insert_all ins (idempotency_cache_new ttl)"
  have ok: "cache_ok c" and q: "queue_of c t = newest (ic_max_entries_per_tenant c) (recent_keys t ins)"
    and mx: "ic_max_entries_per_tenant c = MAX_ENTRIES_PER_TENANT" "ic_ttl c = ttl"
    and val: "hm_get (ic_results c) k = Some r \<Longrightarrow>
      map_of (map (\<lambda>(now, key, v). (key, \<lparr>ir_response = v, ir_cached_at = now\<rparr>)) (rev ins)) k = Some r" for t k r
    using snoc.IH by (simp_all add: lru_ok_def c_def)
  have pos: "0 < ic_max_entries_per_tenant c" using cache_okD(1)[OF ok] .
  have "queue_of (cache_insert now key v c) t = newest (ic_max_entries_per_tenant c) (recent_keys t (ins @ [i]))" for t
  proof (cases "t = tenant_from_key key")
    case True
    have "queue_of (cache_insert now key v c) t = filter (\<lambda>k. k \<notin> set (evicted c key) \<and> k \<noteq> key) (queue_of c t) @ [key]"
      using True by (simp add: cache_insert_queue(1)[OF ok])
    also have "\<dots> = newest (ic_max_entries_per_tenant c) (filter (\<lambda>k. k \<noteq> key) (recent_keys t ins) @ [key])"
      unfolding q by (rule newest_push[OF recent_keys_distinct pos]) (simp add: evicted_def Let_def True[symmetric] q)
    finally show ?thesis using True by (simp add: i recent_keys_snoc)
  next
    case False
    then show ?thesis using q[of t] by (simp add: cache_insert_queue(1)[OF ok] i recent_keys_snoc)
  qed
  moreover have "map_of (map (\<lambda>(now, key, v). (key, \<lparr>ir_response = v, ir_cached_at = now\<rparr>)) (rev (ins @ [i]))) k = Some r"
    if "hm_get (ic_results (cache_insert now key v c)) k = Some r" for k r
    using that val[of k r] by (auto simp: cache_insert_queue(2)[OF ok] i split: if_splits)
  ultimately show ?case
    using cache_insert_ok[OF ok] mx by (simp add: i insert_all_snoc c_def[symmetric] lru_ok_def)
qed

lemma recent_keys_split:
  assumes "k \<notin> (\<lambda>(now, key, v). key) ` set after"
  shows "\<exists>xs. recent_keys (tenant_from_key k) (before @ (now, k, v) # after) = xs @ k # recent_keys (tenant_from_key k) after"
proof -
  let ?f = "\<lambda>is. filter (\<lambda>x. tenant_from_key x = tenant_from_key k) (map (\<lambda>(now, key, v). key) (is :: insertion list))"
  have "k \<notin> set (?f after)" using assms by auto
  moreover have "\<exists>xs. remdups (as @ k # bs) = xs @ k # remdups bs" if "k \<notin> set bs" for as bs
  proof (induction as)
    case (Cons a as)
    then show ?case by (metis append_Cons remdups.simps(2))
  qed (use that in simp)
  ultimately show ?thesis by (simp add: recent_keys_def)
qed

lemma newest_mem:
  assumes "distinct (xs @ k # ys)"
  shows "k \<in> set (newest n (xs @ k # ys)) \<longleftrightarrow> length ys < n"
proof (cases "length ys < n")
  case True
  then obtain j where "newest n (xs @ k # ys) = drop j xs @ k # ys"
    unfolding newest_def by (simp add: drop_Cons' Suc_diff_le)
  then show ?thesis using True by simp
next
  case False
  then have "newest n (xs @ k # ys) = newest n ys" by (simp add: newest_def not_less Suc_diff_le)
  then show ?thesis using assms False by (auto simp: newest_def dest: in_set_dropD)
qed

text \<open>C32: After any sequence of insertions into a new cache, a key answers exactly with what was last inserted for it,
  as long as its lifetime is not over and fewer than 1000 other keys of the same tenant (the part of the key before the
  first colon) were inserted after it; otherwise, and when it was never inserted, it does not answer.
  So what an insertion throws away is the key of the tenant whose last insertion is the oldest.\<close>

theorem idempotency_cache_exact:
  assumes "k \<notin> (\<lambda>(now, key, v). key) ` set after"
  shows "cache_get later (insert_all (before @ (now, k, v) # after) (idempotency_cache_new ttl)) k =
      (if later - now \<le> ttl \<and>
          card {k'. k' \<in> (\<lambda>(now, key, v). key) ` set after \<and>
                takeWhile (\<lambda>c. c \<noteq> CHR '':'') k' = takeWhile (\<lambda>c. c \<noteq> CHR '':'') k} < 1000
       then Some \<lparr>ir_response = v, ir_cached_at = now\<rparr> else None) \<and>
    cache_get later (insert_all after (idempotency_cache_new ttl)) k = None"
proof
  define c where "c = insert_all (before @ (now, k, v) # after) (idempotency_cache_new ttl)"
  let ?t = "tenant_from_key k"
  have lru: "lru_ok (before @ (now, k, v) # after) c" and mx: "ic_max_entries_per_tenant c = 1000" "ic_ttl c = ttl"
    using insert_all_lru[of "before @ (now, k, v) # after" ttl] by (simp_all add: c_def MAX_ENTRIES_PER_TENANT_def)
  obtain xs where xs: "recent_keys ?t (before @ (now, k, v) # after) = xs @ k # recent_keys ?t after"
    using recent_keys_split[OF assms] by blast
  have "hm_get (ic_results c) k \<noteq> None \<longleftrightarrow> k \<in> set (newest 1000 (xs @ k # recent_keys ?t after))"
    using lru mx xs cache_okD(5)[of c k] by (simp add: lru_ok_def)
  also have "\<dots> \<longleftrightarrow> length (recent_keys ?t after) < 1000"
    by (rule newest_mem) (use recent_keys_distinct[of ?t "before @ (now, k, v) # after"] in \<open>simp add: xs\<close>)
  also have "length (recent_keys ?t after) = card (set (recent_keys ?t after))"
    using recent_keys_distinct distinct_card by metis
  also have "set (recent_keys ?t after) = {k'. k' \<in> (\<lambda>(now, key, v). key) ` set after \<and>
      takeWhile (\<lambda>c. c \<noteq> CHR '':'') k' = takeWhile (\<lambda>c. c \<noteq> CHR '':'') k}"
    by (auto simp: recent_keys_def tenant_prefix)
  finally have live: "hm_get (ic_results c) k \<noteq> None \<longleftrightarrow> card {k'. k' \<in> (\<lambda>(now, key, v). key) ` set after \<and>
      takeWhile (\<lambda>c. c \<noteq> CHR '':'') k' = takeWhile (\<lambda>c. c \<noteq> CHR '':'') k} < 1000" .
  let ?m = "map (\<lambda>(now, key, v). (key, \<lparr>ir_response = v, ir_cached_at = now\<rparr>))"
  have "map_of (?m (rev after)) k = None" using assms by (force simp: map_of_eq_None_iff)
  then have "map_of (?m (rev (before @ (now, k, v) # after))) k = Some \<lparr>ir_response = v, ir_cached_at = now\<rparr>"
    by (simp add: map_add_def)
  then have val: "hm_get (ic_results c) k = Some r \<Longrightarrow> r = \<lparr>ir_response = v, ir_cached_at = now\<rparr>" for r
    using lru unfolding lru_ok_def by fastforce
  show "cache_get later (insert_all (before @ (now, k, v) # after) (idempotency_cache_new ttl)) k =
      (if later - now \<le> ttl \<and>
          card {k'. k' \<in> (\<lambda>(now, key, v). key) ` set after \<and>
                takeWhile (\<lambda>c. c \<noteq> CHR '':'') k' = takeWhile (\<lambda>c. c \<noteq> CHR '':'') k} < 1000
       then Some \<lparr>ir_response = v, ir_cached_at = now\<rparr> else None)"
    using live val mx(2) unfolding c_def[symmetric]
    by (cases "hm_get (ic_results c) k") (auto simp: cache_get_def)
next
  have "lru_ok after (insert_all after (idempotency_cache_new ttl))" using insert_all_lru by blast
  moreover have "map_of (map (\<lambda>(now, key, v). (key, \<lparr>ir_response = v, ir_cached_at = now\<rparr>)) (rev after)) k = None"
    using assms by (force simp: map_of_eq_None_iff)
  ultimately have "hm_get (ic_results (insert_all after (idempotency_cache_new ttl))) k = None"
    unfolding lru_ok_def by (metis option.exhaust option.simps(3))
  then show "cache_get later (insert_all after (idempotency_cache_new ttl)) k = None" by (simp add: cache_get_def)
qed

lemma idempotency_cache_exact_witness:
  "cache_get 5 (insert_all [(3, ''a:x'', JNull), (4, ''a:y'', JNull)] (idempotency_cache_new 10)) ''a:x'' =
     Some \<lparr>ir_response = JNull, ir_cached_at = 3\<rparr> \<and>
   cache_get 14 (insert_all [(3, ''a:x'', JNull), (4, ''a:y'', JNull)] (idempotency_cache_new 10)) ''a:x'' = None"
proof -
  have "card {k'. k' = ''a:y'' \<and> P k'} < 1000" for P
    by (rule le_less_trans[OF card_mono[of "{''a:y''}"]]) auto
  then show ?thesis
    using idempotency_cache_exact[of "''a:x''" "[(4, ''a:y'', JNull)]" _ "[]" 3 JNull 10]
    by simp
qed

text \<open>A key without a separator is its own tenant, so the bound per tenant does not bound such keys.\<close>

lemma key_without_tenant: "CHR '':'' \<notin> set key \<Longrightarrow> tenant_from_key key = key"
  by (simp add: tenant_from_key_def split_on_hd)

section \<open>The sandbox\<close>

text \<open>The level's answer for an action.\<close>

definition level_allows :: "sandbox_level \<Rightarrow> governance_action \<Rightarrow> bool" where
  "level_allows l a = sandbox_check l (action_as_str a)"

lemmas sandbox_defs = sandbox_check_def can_execute_read_file_def can_execute_search_def can_execute_write_def
  can_execute_shell_def can_execute_network_def

lemma level_allows_simps:
  "level_allows l GaRead" "level_allows l GaSearch" "level_allows l GaShell \<longleftrightarrow> l = SbNone"
  "level_allows l GaWrite \<longleftrightarrow> l = SbNone \<or> l = SbBasic" "level_allows l GaNetwork \<longleftrightarrow> l = SbNone \<or> l = SbBasic"
  by (cases l; simp add: level_allows_def sandbox_defs)+

lemma enforce_action_allowed: "hd_allowed (enforce_action p a) = level_allows (pb_sandbox_level p) a"
  by (cases a) (simp_all add: enforce_action_def level_allows_def sandbox_check_def Let_def)

lemma fallback_allowed:
  "hd_allowed (rbac_fallback_allows_action target a) = level_allows (pb_sandbox_level (policy_bundle_for_target target)) a"
  by (simp add: rbac_fallback_allows_action_def Let_def enforce_action_allowed)

text \<open>The sandbox levels form a chain: what a level allows, every less strict level allows; reading and searching are
  always allowed, and shell commands only without a sandbox. The fallback for a missing access control
  decides by the level of the deployment target's bundle; an unknown target has no sandbox.\<close>

theorem sandbox_levels_monotone:
  "(level_index l \<le> level_index l' \<and> level_allows l' a \<longrightarrow> level_allows l a) \<and>
   level_allows l GaRead \<and> level_allows l GaSearch \<and> (level_allows l GaShell \<longleftrightarrow> l = SbNone) \<and>
   hd_allowed (rbac_fallback_allows_action target a) = level_allows (pb_sandbox_level (policy_bundle_for_target target)) a \<and>
   hd_allowed (rbac_fallback_allows_action (Some ''staging'') a)"
proof -
  have mono: "level_index l \<le> level_index l' \<and> level_allows l' a \<longrightarrow> level_allows l a"
    by (cases a; cases l; cases l') (simp_all add: level_allows_simps)
  have "pb_sandbox_level (policy_bundle_for_target (Some ''staging'')) = SbNone" by code_simp
  then have "hd_allowed (rbac_fallback_allows_action (Some ''staging'') a)"
    by (cases a) (simp_all add: fallback_allowed level_allows_simps)
  then show ?thesis using mono by (simp add: fallback_allowed level_allows_simps)
qed

lemma sandbox_levels_monotone_witness:
  "level_allows SbBasic GaWrite \<and> level_allows SbNone GaWrite"
  using sandbox_levels_monotone[of SbNone SbBasic GaWrite] by (simp add: level_allows_simps)

end
