(* ===== verification/ToolCapability.thy ===== *)
theory ToolCapability
  imports Hardening
begin

text \<open>
  The classification of tools by name, \<open>src/governance/tool_capability.rs\<close>: one table that gives a tool its
  sandbox operation, its governance action and its risk class, and for tools that are not in the table
  keywords of the name.
\<close>

section \<open>The table\<close>

datatype tool_operation = OpRead | OpWrite | OpShell | OpNetwork | OpSearch | OpUnknown

datatype tool_risk_class = RcReadOnly | RcLowRiskWrite | RcHighRiskExecute | RcAdmin

type_synonym tool_classification = "string \<times> tool_operation \<times> governance_action \<times> tool_risk_class option"

definition query_tools :: "tool_classification list" where
  "query_tools =
     [(''read_file'', OpRead, GaRead, Some RcReadOnly),
      (''read_file_lines'', OpRead, GaRead, None),
      (''read'', OpRead, GaRead, None),
      (''list_directory'', OpRead, GaRead, None),
      (''list_files'', OpRead, GaRead, None),
      (''ls'', OpRead, GaRead, None),
      (''date_time'', OpRead, GaRead, None),
      (''skill_list'', OpRead, GaRead, None),
      (''skill-finder'', OpRead, GaRead, Some RcReadOnly),
      (''skill_reload'', OpRead, GaRead, None),
      (''chat.execute'', OpRead, GaRead, None),
      (''acp_trace_get'', OpRead, GaRead, Some RcReadOnly),
      (''acp_debug_panel_get'', OpRead, GaRead, Some RcReadOnly),
      (''goon_workflow_run_list'', OpRead, GaRead, Some RcReadOnly),
      (''goon_workflow_run_get'', OpRead, GaRead, Some RcReadOnly),
      (''goon_metrics_window_query'', OpRead, GaRead, Some RcReadOnly)]"

definition query_tools_more :: "tool_classification list" where
  "query_tools_more =
     [(''goon_metrics_errors_summary'', OpRead, GaRead, Some RcReadOnly),
      (''goon_provider_capabilities'', OpRead, GaRead, Some RcReadOnly),
      (''prompts_list'', OpRead, GaRead, Some RcReadOnly),
      (''prompts_get'', OpRead, GaRead, Some RcReadOnly),
      (''workflow_execute'', OpRead, GaRead, None),
      (''workflow_ask'', OpRead, GaRead, None),
      (''workflow_generate'', OpRead, GaRead, None),
      (''import_skill'', OpRead, GaRead, None),
      (''archive_inspect'', OpRead, GaRead, None),
      (''jsonl_read'', OpRead, GaRead, None),
      (''environment_info'', OpRead, GaRead, None),
      (''echo_skill'', OpRead, GaRead, None),
      (''builtin.echo'', OpRead, GaRead, None),
      (''goon_skill_version_list'', OpRead, GaRead, None)]"

definition document_readers :: "tool_classification list" where
  "document_readers =
     [(''read_pdf'', OpRead, GaRead, None),
      (''read_docx'', OpRead, GaRead, None),
      (''read_excel'', OpRead, GaRead, None),
      (''read_ppt'', OpRead, GaRead, None),
      (''email_parse'', OpRead, GaRead, None),
      (''invoice_parse'', OpRead, GaRead, None),
      (''web_scrape'', OpRead, GaRead, None),
      (''dxf_read'', OpRead, GaRead, None),
      (''step_read'', OpRead, GaRead, None),
      (''obj_read'', OpRead, GaRead, None),
      (''obj_model_read'', OpRead, GaRead, None),
      (''stl_read'', OpRead, GaRead, None),
      (''gltf_read'', OpRead, GaRead, None),
      (''iges_read'', OpRead, GaRead, None),
      (''ply_read'', OpRead, GaRead, None),
      (''geo_util'', OpRead, GaRead, None),
      (''gcode_read'', OpRead, GaRead, None),
      (''gpx_read'', OpRead, GaRead, None),
      (''svg_read'', OpRead, GaRead, None)]"

definition data_readers :: "tool_classification list" where
  "data_readers =
     [(''image_analyze'', OpRead, GaRead, None),
      (''csv_read'', OpRead, GaRead, None),
      (''csv_analyze'', OpRead, GaRead, None),
      (''toml_read'', OpRead, GaRead, None),
      (''yaml_read'', OpRead, GaRead, None),
      (''rss_read'', OpRead, GaRead, None),
      (''sqlite_query'', OpRead, GaRead, None),
      (''game_server_query'', OpRead, GaRead, None),
      (''game_price_tracker'', OpRead, GaRead, None),
      (''game_matchmaking'', OpRead, GaRead, None),
      (''game_achievements'', OpRead, GaRead, None),
      (''game_mod_list'', OpRead, GaRead, None),
      (''game_coaching_assistant'', OpRead, GaRead, None)]"

definition analysis_tools :: "tool_classification list" where
  "analysis_tools =
     [(''cargo_check'', OpRead, GaRead, None),
      (''diagnostics'', OpRead, GaRead, None),
      (''code_metrics'', OpRead, GaRead, None),
      (''encode_decode'', OpRead, GaRead, None),
      (''file_diff'', OpRead, GaRead, None),
      (''file_watch'', OpRead, GaRead, None),
      (''hash_file'', OpRead, GaRead, None),
      (''lint_run'', OpRead, GaRead, None),
      (''random_token'', OpRead, GaRead, None),
      (''security_scan'', OpRead, GaRead, None),
      (''template_render'', OpRead, GaRead, None),
      (''uuid_gen'', OpRead, GaRead, None),
      (''inspect_git_diff'', OpRead, GaRead, Some RcReadOnly),
      (''docker_logs'', OpRead, GaRead, None)]"

definition search_tools :: "tool_classification list" where
  "search_tools =
     [(''grep'', OpSearch, GaSearch, None),
      (''find_path'', OpSearch, GaSearch, None),
      (''semantic_search'', OpSearch, GaSearch, None),
      (''code_index_search'', OpSearch, GaSearch, None),
      (''find_files'', OpSearch, GaSearch, None),
      (''search'', OpSearch, GaSearch, None),
      (''find'', OpSearch, GaSearch, None),
      (''search_files'', OpSearch, GaSearch, Some RcReadOnly),
      (''search_packages'', OpSearch, GaSearch, None)]"

definition network_tools :: "tool_classification list" where
  "network_tools =
     [(''http_request'', OpNetwork, GaNetwork, None),
      (''web_search'', OpNetwork, GaNetwork, None),
      (''dns_lookup'', OpNetwork, GaNetwork, None),
      (''ping'', OpNetwork, GaNetwork, None),
      (''port_scan'', OpNetwork, GaNetwork, None),
      (''git'', OpNetwork, GaNetwork, None),
      (''github_search_skills'', OpNetwork, GaNetwork, None),
      (''game_monitor'', OpNetwork, GaNetwork, None),
      (''goon_provider_test_connection'', OpNetwork, GaNetwork, Some RcHighRiskExecute),
      (''goon_provider_test_completion'', OpNetwork, GaNetwork, Some RcHighRiskExecute)]"

definition shell_tools :: "tool_classification list" where
  "shell_tools =
     [(''run_tests'', OpShell, GaShell, Some RcHighRiskExecute),
      (''execute_command'', OpShell, GaShell, Some RcHighRiskExecute),
      (''terminal'', OpShell, GaShell, None),
      (''bash'', OpShell, GaShell, Some RcHighRiskExecute),
      (''cargo_test'', OpShell, GaShell, None),
      (''shell_exec'', OpShell, GaShell, Some RcHighRiskExecute),
      (''run'', OpShell, GaShell, None),
      (''build_run'', OpShell, GaShell, None),
      (''docker_build'', OpShell, GaShell, None),
      (''docker_compose'', OpShell, GaShell, None),
      (''docker_exec'', OpShell, GaShell, None),
      (''docker_push'', OpShell, GaShell, None),
      (''spawn_agent'', OpShell, GaShell, None),
      (''game_launch'', OpShell, GaShell, None),
      (''game_keyboard_input'', OpShell, GaShell, None),
      (''game_mouse_input'', OpShell, GaShell, None),
      (''game_auto_grind'', OpShell, GaShell, None),
      (''skill_execute'', OpShell, GaShell, None)]"

definition write_tools :: "tool_classification list" where
  "write_tools =
     [(''write_file'', OpWrite, GaWrite, Some RcLowRiskWrite),
      (''write'', OpWrite, GaWrite, None),
      (''create'', OpWrite, GaWrite, None),
      (''apply_patch'', OpWrite, GaWrite, Some RcLowRiskWrite),
      (''apply_code_action'', OpWrite, GaWrite, None),
      (''create_directory'', OpWrite, GaWrite, None),
      (''dependency_add'', OpWrite, GaWrite, None),
      (''delete_path'', OpWrite, GaWrite, None),
      (''move_path'', OpWrite, GaWrite, None),
      (''copy_path'', OpWrite, GaWrite, None),
      (''file_move'', OpWrite, GaWrite, None),
      (''file_delete'', OpWrite, GaWrite, None),
      (''edit_file'', OpWrite, GaWrite, None),
      (''format_code'', OpWrite, GaWrite, None),
      (''compress'', OpWrite, GaWrite, None),
      (''decompress'', OpWrite, GaWrite, None)]"

definition write_tools_more :: "tool_classification list" where
  "write_tools_more =
     [(''archive_extract'', OpWrite, GaWrite, None),
      (''jsonl_write'', OpWrite, GaWrite, None),
      (''csv_write'', OpWrite, GaWrite, None),
      (''csv_transform'', OpWrite, GaWrite, None),
      (''toml_write'', OpWrite, GaWrite, None),
      (''yaml_write'', OpWrite, GaWrite, None),
      (''write_docx'', OpWrite, GaWrite, None),
      (''write_excel'', OpWrite, GaWrite, None),
      (''write_ppt'', OpWrite, GaWrite, None),
      (''svg_generate'', OpWrite, GaWrite, None),
      (''svg_export'', OpWrite, GaWrite, None),
      (''stl_generate'', OpWrite, GaWrite, None),
      (''qrcode_generate'', OpWrite, GaWrite, None),
      (''image_generate'', OpWrite, GaWrite, None),
      (''image_resize'', OpWrite, GaWrite, None)]"

definition write_tools_last :: "tool_classification list" where
  "write_tools_last =
     [(''image_convert'', OpWrite, GaWrite, None),
      (''skill_create'', OpWrite, GaWrite, None),
      (''skill-creator'', OpWrite, GaWrite, None),
      (''goon_skill_update'', OpWrite, GaWrite, None),
      (''goon_skill_version_rollback'', OpWrite, GaWrite, None),
      (''goon_workflow_run_cancel'', OpWrite, GaWrite, Some RcAdmin),
      (''goon_workflow_run_pause'', OpWrite, GaWrite, Some RcAdmin),
      (''goon_workflow_run_resume'', OpWrite, GaWrite, Some RcAdmin),
      (''game_screen_capture'', OpWrite, GaWrite, None),
      (''game_replay_recorder'', OpWrite, GaWrite, None),
      (''game_save_manager'', OpWrite, GaWrite, None),
      (''game_mod_install'', OpWrite, GaWrite, None),
      (''pdf_merge'', OpWrite, GaWrite, None),
      (''pdf_split'', OpWrite, GaWrite, None),
      (''cad_convert'', OpWrite, GaWrite, None)]"

definition TOOL_CLASSIFICATIONS :: "tool_classification list" where
  "TOOL_CLASSIFICATIONS =
     query_tools @ query_tools_more @ document_readers @ data_readers @ analysis_tools @ search_tools @
     network_tools @ shell_tools @ write_tools @ write_tools_more @ write_tools_last"

definition lookup_tool :: "string \<Rightarrow> tool_classification option" where
  "lookup_tool tool = List.find (\<lambda>row. fst row = tool) TOOL_CLASSIFICATIONS"

section \<open>Keywords\<close>

definition contains_any :: "string list \<Rightarrow> string \<Rightarrow> bool" where
  "contains_any kws s = list_ex (str_contains s) kws"

definition classify_operation_by_keyword :: "string \<Rightarrow> tool_operation" where
  "classify_operation_by_keyword tool =
     (let lower = to_ascii_lowercase tool in
      if is_prefix ''phase.'' tool then OpRead
      else if contains_any [''shell'', ''command'', ''docker'', ''bash'', ''terminal'', ''exec''] lower then OpShell
      else if contains_any [''http'', ''request'', ''network'', ''dns'', ''ping'', ''git'', ''port_scan''] lower then OpNetwork
      else if contains_any [''search'', ''find'', ''grep''] lower then OpSearch
      else if contains_any [''write'', ''edit'', ''create'', ''delete'', ''move'', ''rename'', ''patch'', ''apply'', ''copy'', ''remove'',
        ''compress'', ''decompress'', ''extract'', ''generate'', ''convert'', ''resize'', ''transform'', ''install''] lower then OpWrite
      else if contains_any [''read'', ''list'', ''get'', ''query'', ''inspect'', ''view'', ''show'', ''check'', ''diff'', ''analyze'',
        ''parse'', ''scrape''] lower then OpRead
      else OpUnknown)"

definition classify_action_by_keyword :: "string \<Rightarrow> governance_action" where
  "classify_action_by_keyword tool =
     (let lower = to_ascii_lowercase tool in
      if is_prefix ''phase.'' tool then GaRead
      else if contains_any [''shell'', ''command'', ''docker''] lower then GaShell
      else if contains_any [''write'', ''edit'', ''create'', ''delete'', ''move'', ''rename'', ''patch'', ''apply''] lower then GaWrite
      else if contains_any [''search'', ''find''] lower then GaSearch
      else if contains_any [''http'', ''request'', ''network''] lower then GaNetwork
      else GaRead)"

definition classify_risk_by_keyword :: "string \<Rightarrow> tool_risk_class" where
  "classify_risk_by_keyword tool =
     (let lower = to_ascii_lowercase tool in
      if contains_any [''delete'', ''remove'', ''drop'', ''rm'', ''shutdown'', ''rollback'', ''revert'', ''reset'', ''force'', ''truncate'',
        ''uninstall''] lower then RcHighRiskExecute
      else if contains_any [''write'', ''edit'', ''modify'', ''update'', ''create'', ''patch'', ''rename'', ''move'', ''copy''] lower
      then RcLowRiskWrite
      else if contains_any [''read'', ''list'', ''search'', ''grep'', ''find'', ''view'', ''show'', ''get'', ''check'', ''test''] lower
      then RcReadOnly
      else RcLowRiskWrite)"

section \<open>The registry\<close>

definition tool_operation_of :: "string \<Rightarrow> tool_operation" where
  "tool_operation_of tool =
     (case lookup_tool tool of Some (_, oper, _, _) \<Rightarrow> oper | None \<Rightarrow> classify_operation_by_keyword tool)"

definition tool_action_of :: "string \<Rightarrow> governance_action" where
  "tool_action_of tool =
     (case lookup_tool tool of Some (_, _, act, _) \<Rightarrow> act | None \<Rightarrow> classify_action_by_keyword tool)"

definition tool_risk_class_of :: "string \<Rightarrow> tool_risk_class" where
  "tool_risk_class_of tool =
     (if is_prefix ''goon_skill_'' tool then RcAdmin
      else (case lookup_tool tool of Some (_, _, _, Some r) \<Rightarrow> r | _ \<Rightarrow> classify_risk_by_keyword tool))"

definition known_names :: "string list" where
  "known_names = map fst TOOL_CLASSIFICATIONS"

lemmas table_defs = TOOL_CLASSIFICATIONS_def query_tools_def query_tools_more_def document_readers_def data_readers_def analysis_tools_def search_tools_def network_tools_def shell_tools_def write_tools_def write_tools_more_def write_tools_last_def

section \<open>Agreement of the classifications\<close>

fun action_of_operation :: "tool_operation \<Rightarrow> governance_action option" where
  "action_of_operation OpRead = Some GaRead"
| "action_of_operation OpWrite = Some GaWrite"
| "action_of_operation OpShell = Some GaShell"
| "action_of_operation OpNetwork = Some GaNetwork"
| "action_of_operation OpSearch = Some GaSearch"
| "action_of_operation OpUnknown = None"

lemma rows_agree: "list_all (\<lambda>(_, oper, act, _). action_of_operation oper = Some act) TOOL_CLASSIFICATIONS"
  by (simp add: table_defs)

lemma lookup_in_table: "lookup_tool tool = Some row \<Longrightarrow> row \<in> set TOOL_CLASSIFICATIONS \<and> fst row = tool"
  by (auto simp: lookup_tool_def find_Some_iff)

lemma contains_any_append: "contains_any (xs @ ys) s = (contains_any xs s \<or> contains_any ys s)"
  by (simp add: contains_any_def)

lemma unlisted_shell_iff:
  "classify_operation_by_keyword tool = OpShell \<and> classify_action_by_keyword tool \<noteq> GaShell \<longleftrightarrow>
     \<not> is_prefix ''phase.'' tool \<and> contains_any [''bash'', ''terminal'', ''exec''] (to_ascii_lowercase tool) \<and>
     \<not> contains_any [''shell'', ''command'', ''docker''] (to_ascii_lowercase tool)"
  using contains_any_append[of "[''shell'', ''command'', ''docker'']" "[''bash'', ''terminal'', ''exec'']" "to_ascii_lowercase tool"]
  by (auto simp: classify_operation_by_keyword_def classify_action_by_keyword_def Let_def)

text \<open>For a tool of the table the sandbox operation and the governance action always agree. For other tools
  they do not: a name with bash, terminal or exec in it, and none of shell, command and docker, is a
  shell operation for the sandbox but not a shell action for access control; it counts as the
  other keywords say, and as reading when there are none.\<close>

theorem classifications_agree_iff_listed:
  "(lookup_tool tool \<noteq> None \<longrightarrow> action_of_operation (tool_operation_of tool) = Some (tool_action_of tool)) \<and>
   (tool_operation_of tool = OpShell \<and> tool_action_of tool \<noteq> GaShell \<longleftrightarrow>
      lookup_tool tool = None \<and> \<not> is_prefix ''phase.'' tool \<and>
      contains_any [''bash'', ''terminal'', ''exec''] (to_ascii_lowercase tool) \<and>
      \<not> contains_any [''shell'', ''command'', ''docker''] (to_ascii_lowercase tool))"
proof (cases "lookup_tool tool")
  case None
  then show ?thesis using unlisted_shell_iff[of tool] by (simp add: tool_operation_of_def tool_action_of_def)
next
  case (Some row)
  obtain n oper act r where row: "row = (n, oper, act, r)" by (cases row)
  have "action_of_operation oper = Some act"
    using lookup_in_table[OF Some] rows_agree row by (auto simp: list_all_iff)
  then show ?thesis using Some row by (cases oper) (auto simp: tool_operation_of_def tool_action_of_def)
qed

lemma classifications_agree_iff_listed_witness:
  "tool_operation_of ''exec_query'' = OpShell \<and> tool_action_of ''exec_query'' = GaRead \<and>
   action_of_operation (tool_operation_of ''shell_exec'') = Some (tool_action_of ''shell_exec'')"
proof -
  have l: "lookup_tool ''shell_exec'' \<noteq> None" by code_simp
  have "tool_operation_of ''exec_query'' = OpShell" "tool_action_of ''exec_query'' = GaRead" by code_simp+
  then show ?thesis
    using classifications_agree_iff_listed[of "''exec_query''"] classifications_agree_iff_listed[of "''shell_exec''"] l by simp
qed

end
