(* ===== verification/RuntimeControls.thy ===== *)
theory RuntimeControls
  imports Complex_Main ToolCapability "HOL-Library.Char_ord" "HOL-Library.List_Lexorder"
begin

text \<open>
  Adaptive runtime controls, \<open>src/governance/runtime_controls.rs\<close>: bounded windows of recent outcomes, the
  95th percentile of the latency from a bounded sample, reliability scores of agents and phases, the bandit
  that recommends a phase, and the escalation test. Rates, scores and rewards, floats in the code, are
  real numbers; latencies are whole milliseconds. The random index of the reservoir is an argument.
\<close>

section \<open>Latencies\<close>

definition ONLINE_CONTROLLER_WINDOW :: nat where
  "ONLINE_CONTROLLER_WINDOW = 64"

record latency_estimator =
  le_samples :: "nat list"
  le_max_samples :: nat
  le_count :: u64

definition latency_estimator_new :: "nat \<Rightarrow> latency_estimator" where
  "latency_estimator_new n = \<lparr>le_samples = [], le_max_samples = n, le_count = 0\<rparr>"

definition latency_estimator_default :: latency_estimator where
  "latency_estimator_default = latency_estimator_new ONLINE_CONTROLLER_WINDOW"

text \<open>\<open>rnd n\<close> is the random number below \<open>n\<close> that is drawn.\<close>

definition record_latency :: "(nat \<Rightarrow> nat) \<Rightarrow> nat \<Rightarrow> latency_estimator \<Rightarrow> latency_estimator" where
  "record_latency rnd latency_ms est =
     (let est = est\<lparr>le_count := le_count est + 1\<rparr> in
      if length (le_samples est) < le_max_samples est
      then est\<lparr>le_samples := le_samples est @ [latency_ms]\<rparr>
      else
        let idx = rnd (min (unat (le_count est)) (le_max_samples est)) in
        if idx < length (le_samples est) then est\<lparr>le_samples := (le_samples est)[idx := latency_ms]\<rparr> else est)"

definition p95_index :: "nat \<Rightarrow> nat" where
  "p95_index n = min (nat \<lceil>real n * 95 / 100\<rceil> - 1) (n - 1)"

definition p95 :: "latency_estimator \<Rightarrow> nat" where
  "p95 est = (if le_samples est = [] then 0 else sort (le_samples est) ! p95_index (length (le_samples est)))"

section \<open>Windows of outcomes\<close>

text \<open>\<open>True\<close> is a failure.\<close>

definition push_signal :: "bool list \<Rightarrow> bool \<Rightarrow> bool list" where
  "push_signal window success =
     (if length window \<ge> ONLINE_CONTROLLER_WINDOW then tl window else window) @ [\<not> success]"

definition window_failure_rate :: "bool list \<Rightarrow> real" where
  "window_failure_rate window =
     (if window = [] then 0 else real (length (filter (\<lambda>failed. failed) window)) / real (length window))"

record signal_window =
  sw_recent_failures :: "bool list"
  sw_latency_estimator :: latency_estimator
  sw_attempts :: u64

definition signal_window_default :: signal_window where
  "signal_window_default =
     \<lparr>sw_recent_failures = [], sw_latency_estimator = latency_estimator_default, sw_attempts = 0\<rparr>"

definition saturating_succ :: "u64 \<Rightarrow> u64" where
  "saturating_succ n = (if n = - 1 then n else n + 1)"

definition record_signal :: "(nat \<Rightarrow> nat) \<Rightarrow> bool \<Rightarrow> nat \<Rightarrow> signal_window \<Rightarrow> signal_window" where
  "record_signal rnd success duration_ms w =
     w\<lparr>sw_recent_failures := push_signal (sw_recent_failures w) success,
       sw_latency_estimator := record_latency rnd duration_ms (sw_latency_estimator w),
       sw_attempts := saturating_succ (sw_attempts w)\<rparr>"

definition clamp01 :: "real \<Rightarrow> real" where
  "clamp01 x = max 0 (min 1 x)"

definition ONLINE_CONTROLLER_MIN_AGENT_SAMPLES :: u64 where
  "ONLINE_CONTROLLER_MIN_AGENT_SAMPLES = 3"

definition latency_score :: "nat \<Rightarrow> real" where
  "latency_score latency_ms = (if latency_ms = 0 then 1 / 2 else clamp01 (1 / (1 + real latency_ms / 5000)))"

definition reliability_score :: "signal_window \<Rightarrow> real option" where
  "reliability_score w =
     (if sw_attempts w < ONLINE_CONTROLLER_MIN_AGENT_SAMPLES then None
      else
        let success_score = 1 - window_failure_rate (sw_recent_failures w) in
        Some (clamp01 (75 / 100 * success_score + 25 / 100 * latency_score (p95 (sw_latency_estimator w)))))"

section \<open>The bandit\<close>

record bandit_arm =
  ba_pulls :: u64
  ba_reward_sum :: real

definition bandit_arm_default :: bandit_arm where
  "bandit_arm_default = \<lparr>ba_pulls = 0, ba_reward_sum = 0\<rparr>"

definition update_arm :: "real \<Rightarrow> bandit_arm \<Rightarrow> bandit_arm" where
  "update_arm reward a = a\<lparr>ba_pulls := saturating_succ (ba_pulls a), ba_reward_sum := ba_reward_sum a + reward\<rparr>"

definition mean_reward :: "bandit_arm \<Rightarrow> real" where
  "mean_reward a = (if ba_pulls a = 0 then 1 / 2 else clamp01 (ba_reward_sum a / real (unat (ba_pulls a))))"

definition ucb_score :: "u64 \<Rightarrow> bandit_arm \<Rightarrow> real" where
  "ucb_score total_pulls a =
     (if ba_pulls a = 0 then 1
      else
        let explore = 14 / 10 * sqrt (ln (real (max (unat total_pulls) 1)) / real (unat (ba_pulls a)))
        in max 0 (min 2 (mean_reward a + explore)))"

section \<open>The controller\<close>

record controller =
  oc_recent_failures :: "bool list"
  oc_latency_estimator :: latency_estimator
  oc_agent_windows :: "(string, signal_window) hmap"
  oc_phase_agent_windows :: "(string, signal_window) hmap"
  oc_task_type_agent_windows :: "(string, signal_window) hmap"
  oc_phase_windows :: "(string, signal_window) hmap"
  oc_phase_bandit_arms :: "(string, bandit_arm) hmap"
  oc_phase_bandit_total_pulls :: u64

definition controller_default :: controller where
  "controller_default =
     \<lparr>oc_recent_failures = [], oc_latency_estimator = latency_estimator_default, oc_agent_windows = [],
      oc_phase_agent_windows = [], oc_task_type_agent_windows = [], oc_phase_windows = [], oc_phase_bandit_arms = [],
      oc_phase_bandit_total_pulls = 0\<rparr>"

definition infer_task_type_from_phase :: "string \<Rightarrow> string" where
  "infer_task_type_from_phase phase_name =
     (let p = to_ascii_lowercase phase_name in
      if p = ''planning'' then ''architecture_design''
      else if p = ''coding'' then ''feature_implementation''
      else if p = ''review'' then ''code_review''
      else if p = ''delivery'' then ''documentation''
      else ''general'')"

definition pair_key :: "string \<Rightarrow> string \<Rightarrow> string" where
  "pair_key scope agent_name = scope @ ''::'' @ agent_name"

definition window_at :: "(string, signal_window) hmap \<Rightarrow> string \<Rightarrow> signal_window" where
  "window_at m k = (case hm_get m k of Some w \<Rightarrow> w | None \<Rightarrow> signal_window_default)"

definition record_outcome :: "(nat \<Rightarrow> nat) \<Rightarrow> bool \<Rightarrow> nat \<Rightarrow> controller \<Rightarrow> controller" where
  "record_outcome rnd success duration_ms c =
     c\<lparr>oc_recent_failures := push_signal (oc_recent_failures c) success,
       oc_latency_estimator := record_latency rnd duration_ms (oc_latency_estimator c)\<rparr>"

definition record_in :: "(nat \<Rightarrow> nat) \<Rightarrow> bool \<Rightarrow> nat \<Rightarrow> string \<Rightarrow> (string, signal_window) hmap \<Rightarrow> (string, signal_window) hmap" where
  "record_in rnd success duration_ms k m = hm_insert k (record_signal rnd success duration_ms (window_at m k)) m"

definition record_agent_outcome ::
  "(nat \<Rightarrow> nat) \<Rightarrow> (nat \<Rightarrow> nat) \<Rightarrow> (nat \<Rightarrow> nat) \<Rightarrow> string \<Rightarrow> string \<Rightarrow> bool \<Rightarrow> nat \<Rightarrow> controller \<Rightarrow> controller" where
  "record_agent_outcome rnd1 rnd2 rnd3 phase_name agent_name success duration_ms c =
     c\<lparr>oc_agent_windows := record_in rnd1 success duration_ms agent_name (oc_agent_windows c),
       oc_phase_agent_windows := record_in rnd2 success duration_ms (pair_key phase_name agent_name) (oc_phase_agent_windows c),
       oc_task_type_agent_windows :=
         record_in rnd3 success duration_ms (pair_key (infer_task_type_from_phase phase_name) agent_name)
           (oc_task_type_agent_windows c)\<rparr>"

definition score_at :: "(string, signal_window) hmap \<Rightarrow> string \<Rightarrow> real option" where
  "score_at m k = Option.bind (hm_get m k) reliability_score"

definition agent_reliability_score :: "controller \<Rightarrow> string \<Rightarrow> string \<Rightarrow> real" where
  "agent_reliability_score c phase_name agent_name =
     (case (score_at (oc_phase_agent_windows c) (pair_key phase_name agent_name), score_at (oc_agent_windows c) agent_name) of
        (Some phase, Some global) \<Rightarrow> clamp01 (7 / 10 * phase + 3 / 10 * global)
      | (Some phase, None) \<Rightarrow> phase
      | (None, Some global) \<Rightarrow> global
      | (None, None) \<Rightarrow> 1 / 2)"

definition agent_reliability_score_with_task_type :: "controller \<Rightarrow> string \<Rightarrow> string \<Rightarrow> string \<Rightarrow> real" where
  "agent_reliability_score_with_task_type c phase_name task_type agent_name =
     (case score_at (oc_task_type_agent_windows c) (pair_key task_type agent_name) of
        Some tt \<Rightarrow>
          (case (score_at (oc_phase_agent_windows c) (pair_key phase_name agent_name), score_at (oc_agent_windows c) agent_name) of
             (Some p, Some g) \<Rightarrow> clamp01 (60 / 100 * p + 25 / 100 * tt + 15 / 100 * g)
           | (Some p, None) \<Rightarrow> clamp01 (70 / 100 * p + 30 / 100 * tt)
           | (None, Some g) \<Rightarrow> clamp01 (55 / 100 * tt + 45 / 100 * g)
           | (None, None) \<Rightarrow> tt)
      | None \<Rightarrow> agent_reliability_score c phase_name agent_name)"

definition rank_agent_names_for_phase :: "controller \<Rightarrow> string \<Rightarrow> string list \<Rightarrow> (string \<times> real) list" where
  "rank_agent_names_for_phase c phase_name agent_names =
     (let task_type = infer_task_type_from_phase phase_name
      in sort_key (\<lambda>(_, score). - score)
           (map (\<lambda>name. (name, agent_reliability_score_with_task_type c phase_name task_type name)) agent_names))"

definition record_phase_reward :: "string \<Rightarrow> real \<Rightarrow> controller \<Rightarrow> controller" where
  "record_phase_reward phase_name reward c =
     (let arm = (case hm_get (oc_phase_bandit_arms c) phase_name of Some a \<Rightarrow> a | None \<Rightarrow> bandit_arm_default)
      in c\<lparr>oc_phase_bandit_total_pulls := saturating_succ (oc_phase_bandit_total_pulls c),
           oc_phase_bandit_arms := hm_insert phase_name (update_arm (clamp01 reward) arm) (oc_phase_bandit_arms c)\<rparr>)"

definition record_phase_outcome :: "(nat \<Rightarrow> nat) \<Rightarrow> string \<Rightarrow> bool \<Rightarrow> nat \<Rightarrow> controller \<Rightarrow> controller" where
  "record_phase_outcome rnd phase_name success duration_ms c =
     (let latency_penalty = clamp01 (real duration_ms / 15000) * (4 / 10);
          reward = (if success then 1 else 0) - latency_penalty
      in record_phase_reward phase_name (clamp01 reward)
           (c\<lparr>oc_phase_windows := record_in rnd success duration_ms phase_name (oc_phase_windows c)\<rparr>))"

definition phase_reliability :: "controller \<Rightarrow> string \<Rightarrow> real" where
  "phase_reliability c name = (case score_at (oc_phase_windows c) name of Some r \<Rightarrow> r | None \<Rightarrow> 1 / 2)"

definition phase_composite :: "controller \<Rightarrow> string \<Rightarrow> real \<times> nat" where
  "phase_composite c name =
     (let (bandit_ucb, mean, pulls) =
            (case hm_get (oc_phase_bandit_arms c) name of
               Some arm \<Rightarrow> (ucb_score (oc_phase_bandit_total_pulls c) arm, mean_reward arm, unat (ba_pulls arm))
             | None \<Rightarrow> (1, 1 / 2, 0));
          normalized_ucb = clamp01 (bandit_ucb / 2)
      in (clamp01 (55 / 100 * normalized_ucb + 30 / 100 * mean + 15 / 100 * phase_reliability c name), pulls))"

text \<open>Sorted by the composite score, then by the number of pulls, then by position: two stable sorts.\<close>

definition recommend_phase :: "controller \<Rightarrow> string list \<Rightarrow> string option" where
  "recommend_phase c phase_candidates =
     (case sort_key (\<lambda>name. - fst (phase_composite c name))
             (sort_key (\<lambda>name. - int (snd (phase_composite c name))) phase_candidates) of
        [] \<Rightarrow> None
      | name # _ \<Rightarrow> Some name)"

definition phase_policy_snapshot :: "controller \<Rightarrow> string list \<Rightarrow> (string \<times> real \<times> real \<times> nat) list" where
  "phase_policy_snapshot c phase_candidates =
     map (\<lambda>name.
       let (mean, pulls) = (case hm_get (oc_phase_bandit_arms c) name of
                              Some arm \<Rightarrow> (mean_reward arm, unat (ba_pulls arm)) | None \<Rightarrow> (1 / 2, 0))
       in (name, mean, phase_reliability c name, pulls)) phase_candidates"

definition failure_rate :: "controller \<Rightarrow> real" where
  "failure_rate c = window_failure_rate (oc_recent_failures c)"

definition latency_p95_ms :: "controller \<Rightarrow> nat" where
  "latency_p95_ms c = p95 (oc_latency_estimator c)"

definition control_mode :: "controller \<Rightarrow> string" where
  "control_mode c =
     (if failure_rate c \<ge> 50 / 100 \<or> latency_p95_ms c \<ge> 30000 then ''critical''
      else if failure_rate c \<ge> 25 / 100 \<or> latency_p95_ms c \<ge> 15000 then ''elevated''
      else ''normal'')"

definition violation_trend :: "controller \<Rightarrow> string" where
  "violation_trend c =
     (if failure_rate c \<ge> 40 / 100 then ''degrading''
      else if failure_rate c \<ge> 20 / 100 then ''unstable''
      else ''stable'')"

definition should_escalate :: "controller \<Rightarrow> bool" where
  "should_escalate c \<longleftrightarrow> failure_rate c \<ge> 25 / 100 \<or> latency_p95_ms c \<ge> 15000"

section \<open>Percentile\<close>

lemma sorted_count_le:
  assumes "sorted ys" and "i < length ys"
  shows "i + 1 \<le> length (filter (\<lambda>x. x \<le> ys ! i) ys)"
proof -
  have "filter (\<lambda>x. x \<le> ys ! i) (take (Suc i) ys) = take (Suc i) ys"
    using assms by (intro filter_True) (auto simp: in_set_conv_nth sorted_nth_mono)
  then have "i + 1 = length (filter (\<lambda>x. x \<le> ys ! i) (take (Suc i) ys))" using assms(2) by simp
  also have "\<dots> \<le> length (filter (\<lambda>x. x \<le> ys ! i) (take (Suc i) ys @ drop (Suc i) ys))" by (simp only: filter_append length_append le_add1)
  finally show ?thesis by simp
qed

lemma sorted_count_less:
  assumes "sorted ys" and "i < length ys"
  shows "length (filter (\<lambda>x. x < ys ! i) ys) \<le> i"
proof -
  have "filter (\<lambda>x. x < ys ! i) (drop i ys) = []"
    using assms by (auto simp: filter_empty_conv in_set_conv_nth not_less sorted_nth_mono)
  then have "length (filter (\<lambda>x. x < ys ! i) (take i ys @ drop i ys)) = length (filter (\<lambda>x. x < ys ! i) (take i ys))"
    by (simp only: filter_append append_Nil2)
  also have "\<dots> \<le> i" using length_filter_le[of "\<lambda>x. x < ys ! i" "take i ys"] assms(2) by simp
  finally show ?thesis by simp
qed

lemma count_sort: "length (filter P (sort xs)) = length (filter P xs)"
  by (metis mset_filter mset_sort size_mset)

lemma p95_index_bounds:
  assumes "0 < n"
  shows "p95_index n < n" and "95 * n \<le> 100 * (p95_index n + 1)" and "100 * p95_index n < 95 * n"
proof -
  define k where "k = nat \<lceil>real n * 95 / 100\<rceil>"
  have lo: "real n * 95 / 100 \<le> real k" unfolding k_def by linarith
  have hi: "real k < real n * 95 / 100 + 1" unfolding k_def by linarith
  have kn: "k \<le> n" using hi assms by linarith
  have "0 < real n * 95 / 100" using assms by simp
  then have k1: "1 \<le> k" using lo by linarith
  have eq: "p95_index n = k - 1" unfolding p95_index_def k_def[symmetric] by (rule min_absorb1) (use kn in linarith)
  show "p95_index n < n" using eq kn k1 by linarith
  have "real (95 * n) \<le> real (100 * k)" using lo by simp
  then have "95 * n \<le> 100 * k" by (simp only: of_nat_le_iff)
  then show "95 * n \<le> 100 * (p95_index n + 1)" using eq k1 by simp
  have "real (100 * k) < real (95 * n + 100)" using hi by simp
  then have "100 * k < 95 * n + 100" by (simp only: of_nat_less_iff)
  then show "100 * p95_index n < 95 * n" using eq k1 by (simp add: diff_mult_distrib2)
qed

lemma p95_arith:
  fixes n :: nat
  assumes "i + 1 \<le> a" and "b \<le> i" and "95 * n \<le> 100 * (i + 1)" and "100 * i < 95 * n"
  shows "95 * n \<le> 100 * a" and "100 * b < 95 * n"
proof -
  have "100 * (i + 1) \<le> 100 * a" using assms(1) by (rule mult_le_mono2)
  then show "95 * n \<le> 100 * a" using assms(3) by (rule order_trans[rotated])
  have "100 * b \<le> 100 * i" using assms(2) by (rule mult_le_mono2)
  then show "100 * b < 95 * n" using assms(4) by (rule order.strict_trans1)
qed

text \<open>C33: The latency percentile is one of the samples; at least 95 of 100 samples do not exceed it, and
  fewer than 95 of 100 are below it.\<close>

theorem p95_exact:
  assumes "le_samples est \<noteq> []"
  shows "p95 est \<in> set (le_samples est) \<and>
    95 * length (le_samples est) \<le> 100 * length (filter (\<lambda>x. x \<le> p95 est) (le_samples est)) \<and>
    100 * length (filter (\<lambda>x. x < p95 est) (le_samples est)) < 95 * length (le_samples est)"
proof -
  let ?xs = "le_samples est"
  let ?ys = "sort ?xs"
  let ?i = "p95_index (length ?xs)"
  have n: "0 < length ?xs" using assms by simp
  have i: "?i < length ?ys" using p95_index_bounds(1)[OF n] by simp
  have v: "p95 est = ?ys ! ?i" using assms by (simp add: p95_def)
  have "p95 est \<in> set ?xs" unfolding v using nth_mem[OF i] by (simp only: set_sort)
  moreover have a: "?i + 1 \<le> length (filter (\<lambda>x. x \<le> p95 est) ?xs)"
    using sorted_count_le[OF _ i] unfolding v count_sort by simp
  moreover have b: "length (filter (\<lambda>x. x < p95 est) ?xs) \<le> ?i"
    using sorted_count_less[OF _ i] unfolding v count_sort by simp
  ultimately show ?thesis using p95_arith[OF a b p95_index_bounds(2,3)[OF n]] by blast
qed

lemma p95_exact_witness:
  "p95 \<lparr>le_samples = [7], le_max_samples = 64, le_count = 1\<rparr> = 7"
  using p95_exact[of "\<lparr>le_samples = [7], le_max_samples = 64, le_count = 1\<rparr>"] by simp

section \<open>Escalation\<close>

lemma push_signal_length: "length w \<le> ONLINE_CONTROLLER_WINDOW \<Longrightarrow> length (push_signal w b) \<le> ONLINE_CONTROLLER_WINDOW"
  by (simp add: push_signal_def ONLINE_CONTROLLER_WINDOW_def)

lemma rate_bounds: "0 \<le> window_failure_rate w \<and> window_failure_rate w \<le> 1"
  using length_filter_le[of "\<lambda>x. x" w] by (auto simp: window_failure_rate_def divide_le_eq_1)

lemma failures_tl: "length (filter (\<lambda>x. x) w) \<le> length (filter (\<lambda>x. x) (tl w)) + 1"
  by (cases w) auto

text \<open>A recorded failure never lowers the rate of failures.\<close>

lemma failure_keeps_rate: "window_failure_rate w \<le> window_failure_rate (push_signal w False)"
proof (cases "w = []")
  case True
  then show ?thesis using rate_bounds by (simp add: window_failure_rate_def)
next
  case False
  let ?f = "length (filter (\<lambda>x. x) w)"
  let ?g = "length (filter (\<lambda>x. x) (tl w))"
  have le: "?f \<le> length w" by (rule length_filter_le)
  have pos: "0 < length w" using False by simp
  show ?thesis
  proof (cases "length w \<ge> ONLINE_CONTROLLER_WINDOW")
    case True
    have "window_failure_rate (push_signal w False) = real (?g + 1) / real (length w)"
      using True False by (simp add: push_signal_def window_failure_rate_def)
    then show ?thesis
      using failures_tl[of w] False pos by (simp add: window_failure_rate_def divide_right_mono)
  next
    case small: False
    have "window_failure_rate (push_signal w False) = real (?f + 1) / real (length w + 1)"
      using small by (simp add: push_signal_def window_failure_rate_def)
    moreover have "real ?f / real (length w) \<le> real (?f + 1) / real (length w + 1)"
      using le pos by (simp add: frac_le_eq field_simps divide_nonpos_pos)
    ultimately show ?thesis using False by (simp add: window_failure_rate_def)
  qed
qed

lemma record_failure_keeps_rate: "failure_rate c \<le> failure_rate (record_outcome rnd False d c)"
  using failure_keeps_rate by (simp add: failure_rate_def record_outcome_def)

lemma control_mode_normal_iff: "control_mode c = ''normal'' \<longleftrightarrow> \<not> should_escalate c"
  by (auto simp: control_mode_def should_escalate_def)

section \<open>Scores\<close>

lemma clamp01_bounds: "0 \<le> clamp01 x \<and> clamp01 x \<le> 1"
  by (simp add: clamp01_def)

lemma reliability_bounds: "score_at m k = Some r \<Longrightarrow> 0 \<le> r \<and> r \<le> 1"
  using clamp01_bounds by (auto simp: score_at_def reliability_score_def Let_def bind_eq_Some_conv split: if_splits)

lemma agent_score_bounds:
  "0 \<le> agent_reliability_score c p a \<and> agent_reliability_score c p a \<le> 1"
  using reliability_bounds clamp01_bounds by (auto simp: agent_reliability_score_def split: option.split)

lemma agent_score_task_bounds:
  "0 \<le> agent_reliability_score_with_task_type c p t a \<and> agent_reliability_score_with_task_type c p t a \<le> 1"
  using reliability_bounds clamp01_bounds agent_score_bounds[of c p a]
  by (auto simp: agent_reliability_score_with_task_type_def split: option.split)

text \<open>Ranking the agents of a phase loses and adds none, gives each the score of its own windows, a number between
  zero and one, and puts better scores first; agents with equal scores keep their order.\<close>

theorem ranking_exact:
  "map fst (filter (\<lambda>x. snd x = s) (rank_agent_names_for_phase c p names)) =
     filter (\<lambda>a. agent_reliability_score_with_task_type c p (infer_task_type_from_phase p) a = s) names \<and>
   mset (map fst (rank_agent_names_for_phase c p names)) = mset names \<and>
   sorted (map (\<lambda>x. - snd x) (rank_agent_names_for_phase c p names)) \<and>
   list_all (\<lambda>x. 0 \<le> snd x \<and> snd x \<le> 1) (rank_agent_names_for_phase c p names)"
proof -
  let ?f = "\<lambda>a. agent_reliability_score_with_task_type c p (infer_task_type_from_phase p) a"
  have r: "rank_agent_names_for_phase c p names = sort_key (\<lambda>x. - snd x) (map (\<lambda>a. (a, ?f a)) names)"
    by (simp add: rank_agent_names_for_phase_def Let_def case_prod_unfold)
  have "filter (\<lambda>x. snd x = s) (sort_key (\<lambda>x. - snd x) (map (\<lambda>a. (a, ?f a)) names)) =
      filter (\<lambda>x. snd x = s) (map (\<lambda>a. (a, ?f a)) names)"
    using filter_sort[of "\<lambda>x. snd x = s" "\<lambda>x. - snd x" "map (\<lambda>a. (a, ?f a)) names"]
      sort_key_stable[of "\<lambda>x. - snd x" "- s" "map (\<lambda>a. (a, ?f a)) names"] by simp
  then have "map fst (filter (\<lambda>x. snd x = s) (rank_agent_names_for_phase c p names)) = filter (\<lambda>a. ?f a = s) names"
    unfolding r by (simp add: filter_map comp_def)
  moreover have "mset (map fst (rank_agent_names_for_phase c p names)) = mset names"
    unfolding r by (simp add: image_mset.compositionality comp_def)
  moreover have "sorted (map (\<lambda>x. - snd x) (rank_agent_names_for_phase c p names))" unfolding r by (rule sorted_sort_key)
  moreover have "list_all (\<lambda>x. 0 \<le> snd x \<and> snd x \<le> 1) (rank_agent_names_for_phase c p names)"
    unfolding r using agent_score_task_bounds by (auto simp: list_all_iff)
  ultimately show ?thesis by blast
qed

lemma hd_sort_key_min:
  assumes "sort_key f xs = x # rest"
  shows "x \<in> set xs" and "y \<in> set xs \<Longrightarrow> f x \<le> f y"
proof -
  have m: "set (sort_key f xs) = set xs" by simp
  show "x \<in> set xs" using assms m by (metis list.set_intros(1))
  have "sorted (map f (x # rest))" using sorted_sort_key[of f xs] assms by simp
  then show "f x \<le> f y" if "y \<in> set xs" using that m assms by auto
qed

text \<open>A phase is recommended exactly when there is a candidate; it is a candidate, none has a higher
  composite score, and among those with the same score none was tried more often.\<close>

theorem recommend_phase_optimal:
  "(recommend_phase c ps = None \<longleftrightarrow> ps = []) \<and>
   (\<forall>p. recommend_phase c ps = Some p \<longrightarrow>
      p \<in> set ps \<and>
      (\<forall>x \<in> set ps. fst (phase_composite c x) < fst (phase_composite c p) \<or>
         fst (phase_composite c x) = fst (phase_composite c p) \<and> snd (phase_composite c x) \<le> snd (phase_composite c p)))"
proof -
  let ?f = "\<lambda>name. - fst (phase_composite c name)"
  let ?g = "\<lambda>name. - int (snd (phase_composite c name))"
  have none: "recommend_phase c ps = None \<longleftrightarrow> ps = []"
    by (auto simp: recommend_phase_def split: list.split dest: arg_cong[of _ _ length])
  have some: "p \<in> set ps \<and> (\<forall>x \<in> set ps. fst (phase_composite c x) < fst (phase_composite c p) \<or>
         fst (phase_composite c x) = fst (phase_composite c p) \<and> snd (phase_composite c x) \<le> snd (phase_composite c p))"
    if rec: "recommend_phase c ps = Some p" for p
  proof -
    obtain rest where so: "sort_key ?f (sort_key ?g ps) = p # rest"
      using rec by (auto simp: recommend_phase_def split: list.splits)
    have inp: "p \<in> set ps" using hd_sort_key_min(1)[OF so] by simp
    have best: "?f p \<le> ?f x" if "x \<in> set ps" for x using hd_sort_key_min(2)[OF so, of x] that by simp
    have pulls: "?g p \<le> ?g x" if x: "x \<in> set ps" and eq: "?f x = ?f p" for x
    proof -
      have "filter (\<lambda>y. ?f y = ?f p) (sort_key ?g ps) = filter (\<lambda>y. ?f y = ?f p) (p # rest)"
        using sort_key_stable[of ?f "?f p" "sort_key ?g ps"] so by simp
      then have fl: "filter (\<lambda>y. ?f y = ?f p) (sort_key ?g ps) = p # filter (\<lambda>y. ?f y = ?f p) rest" by simp
      have "sorted (map ?g (filter (\<lambda>y. ?f y = ?f p) (sort_key ?g ps)))" by (rule sorted_filter) (rule sorted_sort_key)
      moreover have "x \<in> set (filter (\<lambda>y. ?f y = ?f p) (sort_key ?g ps))" using x eq by simp
      ultimately show ?thesis unfolding fl by auto
    qed
    show ?thesis using inp best pulls by force
  qed
  show ?thesis using none some by blast
qed

lemma recommend_phase_optimal_witness: "recommend_phase controller_default [''coding''] = Some ''coding''"
  using recommend_phase_optimal[of controller_default "[''coding'']"] by (cases "recommend_phase controller_default [''coding'']") auto

text \<open>An agent that always answers within a millisecond is scored like one that needs five seconds, and worse than
  every agent that needs less than that: a latency of zero is taken as unknown.\<close>

lemma zero_latency_scored_as_slow:
  "latency_score 0 = latency_score 5000 \<and> (0 < n \<and> n < 5000 \<longrightarrow> latency_score 0 < latency_score n)"
  by (auto simp: latency_score_def clamp01_def field_simps)

end
