(* ===== verification/PuaRules.thy ===== *)
theory PuaRules
  imports ModeRuntime RuntimeControls
begin

text \<open>
  The enforcement rules, \<open>src/governance/pua.rs\<close>: the plan with its red lines and the requirements of each stage,
  the rule engine that checks a stage and moves the escalation level, the quality compass, and the
  reports. A poisoned lock is a flag of the engine. The contents of the rules file is an argument
  (\<open>None\<close> when it cannot be read). The texts that are merged into prompts are not represented.
\<close>

section \<open>The plan\<close>

type_synonym u8 = "8 word"

datatype agent_role = Planner | Researcher | Coder | Tester | Reviewer | Custom string

record stage_requirement =
  sr_stage :: string
  sr_required_actions :: "string list"
  sr_hard_fail_conditions :: "string list"

record enforcement_plan =
  ep_escalation_level :: string
  ep_mandatory_roles :: "agent_role list"
  ep_red_lines :: "string list"
  ep_quality_compass :: "string list"
  ep_mandatory_safeguards :: "string list"
  ep_mandatory_evidence :: "string list"
  ep_stage_requirements :: "stage_requirement list"

definition dedupe :: "'a list \<Rightarrow> 'a list" where
  "dedupe values = fold (\<lambda>v deduped. if v \<in> set deduped then deduped else deduped @ [v]) values []"

definition plan_roles :: "string \<Rightarrow> u8 \<Rightarrow> bool \<Rightarrow> bool \<Rightarrow> bool \<Rightarrow> agent_role list" where
  "plan_roles lower complexity needs_verification has_safety_concerns involves_multiple_modules =
     dedupe ([Coder] @
       (if complexity \<ge> 3 \<or> involves_multiple_modules then [Planner] else []) @
       (if needs_verification \<or> str_contains lower ''test'' \<or> str_contains lower ''verify'' then [Tester] else []) @
       (if has_safety_concerns \<or> complexity \<ge> 4 \<or> str_contains lower ''review'' then [Reviewer] else []))"

definition plan_safeguards :: "u8 \<Rightarrow> bool \<Rightarrow> bool \<Rightarrow> string list" where
  "plan_safeguards complexity has_safety_concerns involves_multiple_modules =
     [''Reject placeholder implementations and empty TODO-only branches'',
      ''Require proof-producing verification before completion'',
      ''Block speculative blame without repository evidence''] @
     (if has_safety_concerns then [''Escalate safety-sensitive tasks to reviewer gate''] else []) @
     (if involves_multiple_modules then [''Scan neighboring modules for the same bug pattern''] else []) @
     (if complexity \<ge> 4 then [''Force dual review before autonomous approval''] else [])"

definition default_stages :: "stage_requirement list" where
  "default_stages =
     [\<lparr>sr_stage = ''intake'',
       sr_required_actions = [''Classify task risk, complexity, and verification need'', ''Decide the minimum agent roles required''],
       sr_hard_fail_conditions = [''Ambiguous task accepted without decomposition'', ''High-risk task routed without reviewer coverage'']\<rparr>,
      \<lparr>sr_stage = ''planning'',
       sr_required_actions = [''List proof obligations before implementation'', ''Define what invalidates a success claim''],
       sr_hard_fail_conditions = [''No verification path defined'', ''No fallback strategy for expected failure modes'']\<rparr>,
      \<lparr>sr_stage = ''execution'',
       sr_required_actions = [''Prefer root-cause fixes over cosmetic patches'', ''Record evidence for each substantive tool action''],
       sr_hard_fail_conditions = [''Placeholder or empty implementation introduced'', ''Destructive action executed without explicit gate'']\<rparr>,
      \<lparr>sr_stage = ''verification'',
       sr_required_actions = [''Run build or test proof whenever code changes'', ''Validate at least one failure path or edge case''],
       sr_hard_fail_conditions = [''Completion claimed without proof output'', ''Known verification failure ignored'']\<rparr>,
      \<lparr>sr_stage = ''delivery'',
       sr_required_actions = [''State root cause and prevention delta'', ''Disclose residual risk and missing proof''],
       sr_hard_fail_conditions = [''Success statement unsupported by evidence'', ''Open questions hidden from the operator'']\<rparr>]"

definition build_enforcement_plan :: "string \<Rightarrow> u8 \<Rightarrow> bool \<Rightarrow> bool \<Rightarrow> bool \<Rightarrow> enforcement_plan" where
  "build_enforcement_plan description complexity needs_verification has_safety_concerns involves_multiple_modules =
     \<lparr>ep_escalation_level =
        (if complexity \<ge> 5 then ''L3'' else if complexity \<ge> 4 then ''L2''
         else if needs_verification \<or> has_safety_concerns then ''L1'' else ''L0''),
      ep_mandatory_roles =
        plan_roles (to_lowercase description) complexity needs_verification has_safety_concerns involves_multiple_modules,
      ep_red_lines =
        [''Close the loop with executable proof before claiming completion'',
         ''Verify facts before attributing failures to environment or dependencies'',
         ''Exhaust alternative approaches before declaring a blocker''],
      ep_quality_compass = quality_compass,
      ep_mandatory_safeguards = plan_safeguards complexity has_safety_concerns involves_multiple_modules,
      ep_mandatory_evidence =
        [''Observed build, test, or runtime output'',
         ''Root-cause statement tied to concrete code or config'',
         ''Pattern scan summary for similar failure classes''],
      ep_stage_requirements = default_stages\<rparr>"

definition enrich_plan_from_rules :: "string option \<Rightarrow> enforcement_plan \<Rightarrow> enforcement_plan" where
  "enrich_plan_from_rules contents plan =
     (case contents of
        Some c \<Rightarrow>
          if str_contains c ''Phase 4 Extension''
          then plan\<lparr>ep_red_lines := ep_red_lines plan @ [''Cross-profile verification required'']\<rparr> else plan
      | None \<Rightarrow> plan)"

definition plan_default :: "string option \<Rightarrow> enforcement_plan" where
  "plan_default rules =
     enrich_plan_from_rules rules (build_enforcement_plan ''Default PUA enforcement plan'' 1 False False False)"

section \<open>The rule engine\<close>

datatype violation_kind = RedLine | StageFail | PlanLockPoisoned

record pua_violation =
  pv_kind :: violation_kind
  pv_detail :: string

record rule_engine =
  re_plan :: enforcement_plan
  re_plan_poisoned :: bool
  re_last_escalation_reason :: "string option"
  re_reason_poisoned :: bool

definition rule_engine_new :: "enforcement_plan \<Rightarrow> rule_engine" where
  "rule_engine_new plan =
     \<lparr>re_plan = plan, re_plan_poisoned = False, re_last_escalation_reason = None, re_reason_poisoned = False\<rparr>"

definition last_escalation_reason :: "rule_engine \<Rightarrow> string option" where
  "last_escalation_reason e = (if re_reason_poisoned e then None else re_last_escalation_reason e)"

definition set_plan :: "enforcement_plan \<Rightarrow> rule_engine \<Rightarrow> rule_engine" where
  "set_plan plan e = e\<lparr>re_plan := plan, re_plan_poisoned := False\<rparr>"

definition eq_ignore_case :: "string \<Rightarrow> string \<Rightarrow> bool" where
  "eq_ignore_case a b = (to_ascii_lowercase a = to_ascii_lowercase b)"

definition missing_actions :: "string list \<Rightarrow> string list \<Rightarrow> string list" where
  "missing_actions required completed = filter (\<lambda>r. \<not> list_ex (\<lambda>item. eq_ignore_case item r) completed) required"

definition plan_locked :: pua_violation where
  "plan_locked = \<lparr>pv_kind = PlanLockPoisoned, pv_detail = ''failed to lock PUA plan''\<rparr>"

definition check_red_lines :: "rule_engine \<Rightarrow> string \<Rightarrow> pua_violation + unit" where
  "check_red_lines e action =
     (if re_plan_poisoned e then Inl plan_locked
      else if list_ex (\<lambda>line. eq_ignore_case line action) (ep_red_lines (re_plan e))
      then Inl \<lparr>pv_kind = RedLine, pv_detail = ''action '' @ quoted action @ '' matches a PUA red line''\<rparr>
      else Inr ())"

definition find_stage :: "enforcement_plan \<Rightarrow> string \<Rightarrow> stage_requirement option" where
  "find_stage plan stage = List.find (\<lambda>r. eq_ignore_case (sr_stage r) stage) (ep_stage_requirements plan)"

fun join_sep :: "string \<Rightarrow> string list \<Rightarrow> string" where
  "join_sep sep [] = []"
| "join_sep sep [x] = x"
| "join_sep sep (x # y # xs) = x @ sep @ join_sep sep (y # xs)"

definition validate_stage :: "rule_engine \<Rightarrow> string \<Rightarrow> string list \<Rightarrow> pua_violation + unit" where
  "validate_stage e stage completed =
     (if re_plan_poisoned e then Inl plan_locked
      else
        case find_stage (re_plan e) stage of
          None \<Rightarrow> Inr ()
        | Some r \<Rightarrow>
            (case List.find (\<lambda>cond. list_ex (\<lambda>item. eq_ignore_case item cond) completed) (sr_hard_fail_conditions r) of
               Some triggered \<Rightarrow>
                 Inl \<lparr>pv_kind = RedLine,
                      pv_detail = ''stage '' @ quoted (sr_stage r) @ '' triggered hard-fail condition '' @ quoted triggered\<rparr>
             | None \<Rightarrow>
                 (let missing = missing_actions (sr_required_actions r) completed in
                  if missing = [] then Inr ()
                  else Inl \<lparr>pv_kind = StageFail,
                            pv_detail = ''stage '' @ quoted (sr_stage r) @ '' missing required actions: '' @ join_sep '', '' missing\<rparr>)))"

definition collect_evidence :: "rule_engine \<Rightarrow> string \<Rightarrow> string list" where
  "collect_evidence e stage =
     (if re_plan_poisoned e then []
      else (case find_stage (re_plan e) stage of Some r \<Rightarrow> sr_required_actions r | None \<Rightarrow> []))"

definition collect_missing :: "rule_engine \<Rightarrow> string \<Rightarrow> string list \<Rightarrow> string list" where
  "collect_missing e stage completed = missing_actions (collect_evidence e stage) completed"

definition generate_report :: "rule_engine \<Rightarrow> string \<Rightarrow> string list \<Rightarrow> pua_report" where
  "generate_report e stage completed =
     (let missing_checks = collect_missing e stage completed in
      \<lparr>pr_stage = stage,
       pr_status = (if missing_checks = [] then ''pass'' else ''fail''),
       pr_escalation_level = (if re_plan_poisoned e then ''L0'' else ep_escalation_level (re_plan e)),
       pr_required_evidence = collect_evidence e stage,
       pr_completed_checks = completed,
       pr_missing_checks = missing_checks\<rparr>)"

definition parse_u8 :: "string \<Rightarrow> u8 option" where
  "parse_u8 s =
     (let ds = (case s of [] \<Rightarrow> [] | c # cs \<Rightarrow> if c = CHR ''+'' then cs else s) in
      if ds = [] then None
      else (case digits_value 0 ds of
              None \<Rightarrow> None
            | Some n \<Rightarrow> if n < 2 ^ 8 then Some (of_nat n) else None))"

definition parse_escalation_level :: "string \<Rightarrow> u8" where
  "parse_escalation_level level =
     (let trimmed = trim level in
      case (case strip_prefix ''L'' trimmed of Some digits \<Rightarrow> parse_u8 digits | None \<Rightarrow> parse_u8 trimmed) of
        Some n \<Rightarrow> n | None \<Rightarrow> 0)"

definition set_level :: "u8 \<Rightarrow> string \<Rightarrow> rule_engine \<Rightarrow> rule_engine" where
  "set_level n reason e =
     e\<lparr>re_last_escalation_reason := (if re_reason_poisoned e then re_last_escalation_reason e else Some reason),
       re_plan := (re_plan e)\<lparr>ep_escalation_level := ''L'' @ show_word n\<rparr>\<rparr>"

definition escalate :: "string \<Rightarrow> rule_engine \<Rightarrow> u8 \<times> rule_engine" where
  "escalate reason e =
     (let current = parse_escalation_level (ep_escalation_level (re_plan e));
          next = min (if current = - 1 then current else current + 1) 5
      in (next, set_level next (''escalate: '' @ reason) e))"

definition de_escalate :: "string \<Rightarrow> rule_engine \<Rightarrow> u8 \<times> rule_engine" where
  "de_escalate reason e =
     (let current = parse_escalation_level (ep_escalation_level (re_plan e));
          next = (if current = 0 then 0 else current - 1)
      in (next, set_level next (''de-escalate: '' @ reason) e))"

definition consume_with_pua ::
  "usize \<Rightarrow> budget_tracker \<times> rule_engine \<Rightarrow> (budget_exceeded + unit) \<times> budget_tracker \<times> rule_engine" where
  "consume_with_pua tokens st =
     (case record_tokens tokens (fst st) of
        (Inr _, t) \<Rightarrow> (Inr (), t, snd st)
      | (Inl err, t) \<Rightarrow> (Inl err, t, snd (escalate (''BudgetExceeded: '' @ be_limit_type err) (snd st))))"

section \<open>The quality compass\<close>

datatype pua_task_type = PtBugFix | PtFeatureAdd | PtRefactor | PtSecurityPatch | PtOther

datatype quality_category = QSafety | QCorrectness | QPerformance | QStyle

datatype verification_method = AutoTest | ManualReview | StaticAnalysis

record task_context =
  cx_task_type :: pua_task_type
  cx_file_count :: usize
  cx_risk_score :: real

record quality_check =
  qc_id :: string
  qc_description :: string
  qc_category :: quality_category
  qc_verification :: verification_method
  qc_required :: bool

record context_rule =
  cr_id :: string
  cr_task_type :: pua_task_type
  cr_min_risk_score :: real
  cr_min_file_count :: usize
  cr_check :: quality_check

record quality_compass_state =
  qs_base_checks :: "quality_check list"
  qs_context_rules :: "context_rule list"

definition mk_check :: "string \<Rightarrow> string \<Rightarrow> quality_category \<Rightarrow> verification_method \<Rightarrow> quality_check" where
  "mk_check i d c v = \<lparr>qc_id = i, qc_description = d, qc_category = c, qc_verification = v, qc_required = True\<rparr>"

definition compass_default :: quality_compass_state where
  "compass_default =
     \<lparr>qs_base_checks =
        [mk_check ''build-proof'' ''Build proof captured'' QCorrectness AutoTest,
         mk_check ''error-case'' ''Error cases tested'' QCorrectness AutoTest,
         mk_check ''pattern-scan'' ''Pattern scan completed'' QStyle ManualReview],
      qs_context_rules =
        [\<lparr>cr_id = ''security-threat-model'', cr_task_type = PtSecurityPatch, cr_min_risk_score = 0, cr_min_file_count = 0,
          cr_check = mk_check ''security-threat-model'' ''Threat model reviewed for security patch'' QSafety StaticAnalysis\<rparr>,
         \<lparr>cr_id = ''multi-file-regression'', cr_task_type = PtFeatureAdd, cr_min_risk_score = 5 / 10, cr_min_file_count = 3,
          cr_check = mk_check ''multi-file-regression'' ''Multi-file regression checks executed'' QPerformance AutoTest\<rparr>]\<rparr>"

definition rule_applies :: "task_context \<Rightarrow> context_rule \<Rightarrow> bool" where
  "rule_applies ctx rule \<longleftrightarrow>
     cr_task_type rule = cx_task_type ctx \<and> cx_risk_score ctx \<ge> cr_min_risk_score rule \<and> cx_file_count ctx \<ge> cr_min_file_count rule"

definition add_check :: "quality_check \<Rightarrow> quality_check list \<Rightarrow> quality_check list" where
  "add_check c checks = (if list_ex (\<lambda>existing. qc_id existing = qc_id c) checks then checks else checks @ [c])"

definition get_checks :: "quality_compass_state \<Rightarrow> task_context \<Rightarrow> quality_check list" where
  "get_checks q ctx =
     (let checks = fold (\<lambda>rule checks. if rule_applies ctx rule then add_check (cr_check rule) checks else checks)
            (qs_context_rules q) (qs_base_checks q)
      in if cx_risk_score ctx \<ge> 8 / 10
         then add_check (mk_check ''high-risk-review'' ''High-risk changes require reviewer sign-off'' QSafety ManualReview) checks
         else checks)"

section \<open>Reports\<close>

definition tool_execution_report :: "string \<Rightarrow> string option \<Rightarrow> pua_report" where
  "tool_execution_report tool_name verification =
     \<lparr>pr_stage = ''tool:'' @ tool_name, pr_status = ''enforced'', pr_escalation_level = ''L1'',
      pr_required_evidence = [''Tool action recorded in audit trail'', ''Verification signal emitted when tool changes state''],
      pr_completed_checks = [''tool_audit_recorded''] @ (case verification of Some s \<Rightarrow> [''verification:'' @ s] | None \<Rightarrow> []),
      pr_missing_checks = (case verification of Some _ \<Rightarrow> [] | None \<Rightarrow> [''proof_linked_to_task''])\<rparr>"

section \<open>Escalation levels\<close>

lemma show_word_u8: "parse_u8 (show_word (n :: u8)) = Some n"
proof -
  have d: "show_word n \<noteq> []" "list_all is_ascii_digit (show_word n)" using show_nat_digits by auto
  then obtain c cs where c: "show_word n = c # cs" by (cases "show_word n") auto
  have "is_ascii_digit c" using d(2) c by simp
  then have "c \<noteq> CHR ''+''" by (auto simp: is_ascii_digit_def)
  moreover have "unat n < 2 ^ 8" using unsigned_less[of n] by simp
  ultimately show ?thesis using digits_value_show[of "unat n"] c by (simp add: parse_u8_def Let_def)
qed

lemma digit_not_whitespace: "is_ascii_digit c \<Longrightarrow> \<not> is_whitespace c"
  by (auto simp: is_ascii_digit_def is_whitespace_def Let_def)

lemma parse_level_show: "parse_escalation_level (''L'' @ show_word (n :: u8)) = n"
proof -
  have d: "show_word n \<noteq> []" "list_all is_ascii_digit (show_word n)" using show_nat_digits by auto
  have "\<not> is_whitespace (last (''L'' @ show_word n))"
    using d digit_not_whitespace by (auto simp: list_all_iff dest: last_in_set)
  moreover have "\<not> is_whitespace (CHR ''L'')" by (simp add: is_whitespace_def)
  ultimately have "trim (''L'' @ show_word n) = ''L'' @ show_word n" by (intro trim_id) simp_all
  then show ?thesis
    using show_word_u8[of n] by (simp add: parse_escalation_level_def strip_prefix_def is_prefix_def Let_def)
qed

abbreviation engine_level :: "rule_engine \<Rightarrow> u8" where
  "engine_level e \<equiv> parse_escalation_level (ep_escalation_level (re_plan e))"

lemma engine_level_set [simp]: "engine_level (set_level n reason e) = n"
  using parse_level_show[of n] by (simp add: set_level_def)

text \<open>Moves of the level: up (\<open>True\<close>) and down, each with its reason.\<close>

fun run_levels :: "(bool \<times> string) list \<Rightarrow> rule_engine \<Rightarrow> rule_engine" where
  "run_levels [] e = e"
| "run_levels ((up, reason) # ms) e = run_levels ms (snd (if up then escalate reason e else de_escalate reason e))"

fun level_spec :: "bool list \<Rightarrow> nat \<Rightarrow> nat" where
  "level_spec [] n = n"
| "level_spec (up # ups) n = level_spec ups (if up then min (n + 1) 5 else n - 1)"

lemma escalate_level:
  assumes "unat (engine_level e) \<le> 5"
  shows "unat (engine_level (snd (escalate r e))) = min (unat (engine_level e) + 1) 5"
proof -
  define c where "c = engine_level e"
  have le: "unat c \<le> 5" using assms c_def by simp
  have nm: "c \<noteq> - 1" using le by (auto simp: unsigned_minus_1_eq_mask mask_eq_exp_minus_1)
  have suc: "unat (c + 1) = unat c + 1" using le by (simp add: unat_word_ariths)
  have "unat (min (c + 1) 5) = min (unat c + 1) 5"
    using suc by (auto simp: min_def word_le_nat_alt)
  then show ?thesis using nm by (simp add: escalate_def Let_def c_def[symmetric])
qed

lemma de_escalate_level: "unat (engine_level (snd (de_escalate r e))) = unat (engine_level e) - 1"
  by (simp add: de_escalate_def Let_def unat_minus_one)

text \<open>C34: However often the level is moved up and down, it is the counter that is clamped to the range from zero to
  five, and the plan always shows it as the letter L with the number.\<close>

theorem escalation_level_exact:
  assumes "unat (engine_level e) \<le> 5"
  shows "unat (engine_level (run_levels ms e)) = level_spec (map fst ms) (unat (engine_level e)) \<and>
    level_spec (map fst ms) (unat (engine_level e)) \<le> 5 \<and>
    (ms \<noteq> [] \<longrightarrow> ep_escalation_level (re_plan (run_levels ms e)) = ''L'' @ show_word (engine_level (run_levels ms e)))"
  using assms
proof (induction ms arbitrary: e)
  case Nil
  then show ?case by simp
next
  case (Cons m ms)
  obtain up reason where m: "m = (up, reason)" by (cases m)
  define e1 where "e1 = snd (if up then escalate reason e else de_escalate reason e)"
  have lv: "unat (engine_level e1) = (if up then min (unat (engine_level e) + 1) 5 else unat (engine_level e) - 1)"
    using escalate_level[OF Cons.prems] de_escalate_level by (simp add: e1_def)
  have le: "unat (engine_level e1) \<le> 5" using lv Cons.prems by (auto split: if_splits)
  have shown: "ep_escalation_level (re_plan e1) = ''L'' @ show_word (engine_level e1)"
    using parse_level_show unfolding e1_def by (auto simp: escalate_def de_escalate_def set_level_def Let_def)
  have run: "run_levels (m # ms) e = run_levels ms e1" using m by (simp add: e1_def)
  have spec: "level_spec (map fst (m # ms)) (unat (engine_level e)) = level_spec (map fst ms) (unat (engine_level e1))"
    using m lv by simp
  show ?case unfolding run spec using Cons.IH[OF le] shown by (cases "ms = []") auto
qed

lemma escalation_level_exact_witness:
  "unat (engine_level (run_levels [(True, ''a''), (False, ''b'')] (rule_engine_new (plan_default None)))) = 0"
proof -
  have l: "ep_escalation_level (re_plan (rule_engine_new (plan_default None))) = ''L'' @ show_word (0 :: u8)"
    by code_simp
  then have "engine_level (rule_engine_new (plan_default None)) = 0" by (simp only: parse_level_show)
  then show ?thesis using escalation_level_exact[of "rule_engine_new (plan_default None)" "[(True, ''a''), (False, ''b'')]"] by simp
qed

section \<open>Stages\<close>

definition triggers_hard_fail :: "stage_requirement \<Rightarrow> string list \<Rightarrow> bool" where
  "triggers_hard_fail r completed \<longleftrightarrow>
     list_ex (\<lambda>cond. list_ex (\<lambda>item. eq_ignore_case item cond) completed) (sr_hard_fail_conditions r)"

lemma find_none_iff_list_ex: "List.find P xs = None \<longleftrightarrow> \<not> list_ex P xs"
  by (auto simp: find_None_iff list_ex_iff)

lemma validate_stage_ok_iff:
  "validate_stage e stage completed = Inr () \<longleftrightarrow>
     \<not> re_plan_poisoned e \<and>
     (case find_stage (re_plan e) stage of
        None \<Rightarrow> True
      | Some r \<Rightarrow> \<not> triggers_hard_fail r completed \<and> missing_actions (sr_required_actions r) completed = [])"
proof (cases "find_stage (re_plan e) stage")
  case (Some r)
  then show ?thesis
    by (cases "List.find (\<lambda>cond. list_ex (\<lambda>item. eq_ignore_case item cond) completed) (sr_hard_fail_conditions r)")
      (auto simp: validate_stage_def triggers_hard_fail_def find_none_iff_list_ex[symmetric] Let_def)
qed (simp add: validate_stage_def)

text \<open>A stage that validates is reported as passed. The converse fails: the report also says pass when a hard-fail
  condition was triggered, and when the plan cannot be read.\<close>

theorem report_passes_hard_fail:
  "(pr_status (generate_report e stage completed) = ''pass'' \<and> validate_stage e stage completed \<noteq> Inr () \<longleftrightarrow>
     re_plan_poisoned e \<or>
     (\<exists>r. find_stage (re_plan e) stage = Some r \<and> missing_actions (sr_required_actions r) completed = [] \<and>
        triggers_hard_fail r completed)) \<and>
   \<not> (validate_stage e stage completed = Inr () \<and> pr_status (generate_report e stage completed) \<noteq> ''pass'')"
proof -
  have nil: "missing_actions [] completed = []" by (simp add: missing_actions_def)
  show ?thesis
    by (cases "find_stage (re_plan e) stage"; cases "re_plan_poisoned e")
      (simp_all add: validate_stage_ok_iff generate_report_def collect_missing_def collect_evidence_def Let_def nil)
qed

section \<open>Checks\<close>

lemma add_check_distinct: "distinct (map qc_id cs) \<Longrightarrow> distinct (map qc_id (add_check c cs))"
  by (auto simp: add_check_def list_ex_iff)

lemma get_checks_fold_distinct:
  "distinct (map qc_id cs) \<Longrightarrow>
   distinct (map qc_id (fold (\<lambda>rule checks. if rule_applies ctx rule then add_check (cr_check rule) checks else checks) rules cs))"
  by (induction rules arbitrary: cs) (simp_all add: add_check_distinct)

text \<open>No check is asked for twice.\<close>

lemma get_checks_distinct:
  "distinct (map qc_id (qs_base_checks q)) \<Longrightarrow> distinct (map qc_id (get_checks q ctx))"
  by (simp add: get_checks_def Let_def get_checks_fold_distinct add_check_distinct)

end
