(* ===== verification/PolicyEvaluator.thy ===== *)
theory PolicyEvaluator
  imports SecurityGovernor Rbac PuaRules
begin

text \<open>
  The policy evaluator, \<open>evaluator.rs\<close> and \<open>types.rs\<close> of \<open>src/governance/harness_bus/\<close>, with \<open>src/governance/rationalization.rs\<close>: the
  records of policies with their defaults, the evaluation of a task and of a tool call, and the
  verification of outputs. Arguments are the clock readings and random numbers of a call, the
  conversions of floating point numbers (\<open>float_lib\<close>), the JSON printer and the hash of the standard library
  (\<open>text_lib\<close>), and the joining of messages. Evaluations run one after the other; the locks are never
  poisoned, except that of the security governor, which has a flag.
\<close>

section \<open>Policies (\<open>types.rs\<close>)\<close>

datatype routing_strategy = RoundRobin | Weighted | CapabilityMatch

datatype fallback_strategy = FbImmediate | FbRetry | FbFailFast

record timeout_policy =
  tp_default_timeout :: nat
  tp_max_timeout :: nat

definition timeout_policy_default :: timeout_policy where
  "timeout_policy_default = \<lparr>tp_default_timeout = 120, tp_max_timeout = 600\<rparr>"

datatype version_compat_policy = VcStrict | VcCompatible | VcNone

record dispatch_policy =
  dy_routing_strategy :: routing_strategy
  dy_max_retries :: u32
  dy_fallback_strategy :: fallback_strategy
  dy_max_fan_out :: u32
  dy_timeout_policy :: timeout_policy
  dy_version_compat :: version_compat_policy

definition dispatch_policy_default :: dispatch_policy where
  "dispatch_policy_default =
     \<lparr>dy_routing_strategy = CapabilityMatch, dy_max_retries = 2, dy_fallback_strategy = FbImmediate, dy_max_fan_out = 3,
      dy_timeout_policy = timeout_policy_default, dy_version_compat = VcCompatible\<rparr>"

datatype exec_mode = EmAuto | EmAssisted | EmManual

datatype tool_usage_policy = TuAllowAll | TuAllowListed "string list" | TuBlockListed "string list" | TuReadOnly

datatype file_write_policy = FwAllowAll | FwAllowPath "string list" | FwDenyAll

definition file_write_policy_default :: file_write_policy where
  "file_write_policy_default = FwAllowPath [''src/'']"

datatype code_execution_policy = CeAllowAll | CeSandboxed | CeDenyAll

datatype audit_level = AuMinimal | AuStandard | AuVerbose

datatype failure_strategy = FsRetry | FsFallback | FsFailFast

datatype degradation_strategy = DgNone | DgOnTimeout | DgOnFailure

datatype review_level = RlNone | RlAuto | RlManual

record execution_policy =
  xp_execution_mode :: exec_mode
  xp_tool_usage :: tool_usage_policy
  xp_file_write :: file_write_policy
  xp_code_execution :: code_execution_policy
  xp_review_requirement :: review_level
  xp_budget :: task_budget
  xp_audit_level :: audit_level

definition execution_policy_default :: execution_policy where
  "execution_policy_default =
     \<lparr>xp_execution_mode = EmAuto, xp_tool_usage = TuAllowAll, xp_file_write = file_write_policy_default,
      xp_code_execution = CeSandboxed, xp_review_requirement = RlAuto, xp_budget = task_budget_default,
      xp_audit_level = AuStandard\<rparr>"

datatype idempotency_policy = IdEnabled u64 | IdDisabled

record escalation_policy =
  es_auto_escalate_on_red_line :: bool
  es_max_escalation_level :: u8

record audit_config =
  ac_enabled :: bool
  ac_retention_days :: u32

record governance_policy =
  gv_red_lines :: "string list"
  gv_quality_compass_enabled :: bool
  gv_sandbox_level :: sandbox_level
  gv_idempotency :: idempotency_policy
  gv_tenant_quota_enabled :: bool
  gv_escalation :: escalation_policy
  gv_audit :: audit_config

definition governance_policy_default :: governance_policy where
  "governance_policy_default =
     \<lparr>gv_red_lines = [''rm -rf /'', ''DROP TABLE'', ''DELETE FROM''], gv_quality_compass_enabled = True,
      gv_sandbox_level = SbBasic, gv_idempotency = IdEnabled 3600, gv_tenant_quota_enabled = False,
      gv_escalation = \<lparr>es_auto_escalate_on_red_line = True, es_max_escalation_level = 5\<rparr>,
      gv_audit = \<lparr>ac_enabled = True, ac_retention_days = 90\<rparr>\<rparr>"

record agent_execution_policy =
  ax_timeout :: nat
  ax_max_tool_calls :: u32
  ax_allow_file_write :: bool
  ax_allow_shell :: bool
  ax_allow_network :: bool
  ax_review_level :: review_level
  ax_audit_level :: audit_level
  ax_failure_strategy :: failure_strategy
  ax_max_retries :: u32
  ax_degradation :: degradation_strategy
  ax_max_tokens :: usize

record policy_violation =
  vi_kind :: string
  vi_detail :: gov_message

datatype harness_verdict =
    HvAllow
  | HvDeny policy_violation
  | HvEscalate gov_message u8
  | HvReview gov_message

record tool_verdict =
  tv_allowed :: bool
  tv_require_review :: bool
  tv_idempotent :: bool
  tv_budget_ok :: bool
  tv_permitted :: bool

definition verdict_is_allowed :: "tool_verdict \<Rightarrow> bool" where
  "verdict_is_allowed v \<longleftrightarrow> tv_allowed v \<and> tv_budget_ok v \<and> tv_permitted v"

record output_verdict =
  ov_quality :: bool
  ov_evidence :: "string list"
  ov_risk_score :: real

section \<open>The rationalization guard\<close>

record rationalization_annotation =
  an_assumptions :: "string list"
  an_evidence_refs :: "string list"
  an_weak_evidence_flags :: "string list"
  an_reexamine_triggered :: bool

definition annotation_default :: rationalization_annotation where
  "annotation_default =
     \<lparr>an_assumptions = [], an_evidence_refs = [], an_weak_evidence_flags = [], an_reexamine_triggered = False\<rparr>"

record rationalization_guard =
  gd_confidence_threshold :: real
  gd_reexamine_triggered_count :: u64
  gd_weak_evidence_blocked_count :: u64

text \<open>\<open>fl_f32\<close> rounds to single precision, \<open>fl_show\<close> and \<open>fl_show2\<close> print in full and with two decimals, and \<open>fl_json\<close> makes a JSON
  number.\<close>

record float_lib =
  fl_f32 :: "real \<Rightarrow> real"
  fl_show :: "real \<Rightarrow> string"
  fl_show2 :: "real \<Rightarrow> string"
  fl_json :: "real \<Rightarrow> json"

definition guard_default :: "float_lib \<Rightarrow> rationalization_guard" where
  "guard_default fl =
     \<lparr>gd_confidence_threshold = fl_f32 fl (6 / 10), gd_reexamine_triggered_count = 0, gd_weak_evidence_blocked_count = 0\<rparr>"

definition guard_evaluate ::
  "real \<Rightarrow> rationalization_annotation \<Rightarrow> rationalization_guard \<Rightarrow>
   bool \<times> rationalization_annotation \<times> rationalization_guard" where
  "guard_evaluate confidence a g =
     (let a = (if confidence < gd_confidence_threshold g \<and> an_evidence_refs a = []
               then
                 let flags = fold (\<lambda>s flags. if s \<in> set flags then flags else flags @ [s]) (an_assumptions a)
                               (an_weak_evidence_flags a);
                     flags = (if an_assumptions a = [] \<and> flags = [] then [''low_confidence_no_evidence''] else flags)
                 in a\<lparr>an_weak_evidence_flags := flags\<rparr>
               else a)
      in if an_weak_evidence_flags a = [] then (False, a, g)
         else (True, a\<lparr>an_reexamine_triggered := True\<rparr>,
               g\<lparr>gd_reexamine_triggered_count := gd_reexamine_triggered_count g + 1,
                 gd_weak_evidence_blocked_count := gd_weak_evidence_blocked_count g + 1\<rparr>))"

section \<open>The evaluator\<close>

record policy_evaluator =
  ev_dispatch :: dispatch_policy
  ev_execution :: execution_policy
  ev_governance :: governance_policy
  ev_rule_engine :: rule_engine
  ev_sandbox_level :: sandbox_level
  ev_budget :: budget_tracker
  ev_idempotency :: idempotency_cache
  ev_runtime_control :: controller
  ev_guard :: rationalization_guard
  ev_security_governor :: security_governor
  ev_rbac_enforcer :: "rbac_enforcer option"
  ev_user_approved_tools :: "string set"
  ev_rationalization_block_occurred :: bool

definition condition_on :: "string \<Rightarrow> condition_operator \<Rightarrow> policy_condition" where
  "condition_on field oper = \<lparr>pc_field = field, pc_operator = oper, pc_value = ''0''\<rparr>"

definition read_allow :: security_policy where
  "read_allow =
     \<lparr>sp_id = ''read_allow'', sp_name = ''Allow read/search operations'',
      sp_description = ''Permits read and search operations for zero-risk tasks with no file writes'', sp_severity = SevLow,
      sp_action = ActAllow, sp_conditions = [condition_on ''risk_score'' OpEquals, condition_on ''file_count'' OpEquals],
      sp_composition = CompAnd, sp_escalation_level = None\<rparr>"

definition write_require_approval :: security_policy where
  "write_require_approval =
     \<lparr>sp_id = ''write_require_approval'', sp_name = ''Write operations require approval'',
      sp_description = ''Tasks that modify files require manual review approval'', sp_severity = SevMedium,
      sp_action = ActRequireReview, sp_conditions = [condition_on ''file_count'' OpNotEquals],
      sp_composition = CompAnd, sp_escalation_level = None\<rparr>"

definition shell_require_code_exec :: security_policy where
  "shell_require_code_exec =
     \<lparr>sp_id = ''shell_require_code_exec'', sp_name = ''Shell operations require code execution review'',
      sp_description = ''Shell and terminal operations require additional review approval'', sp_severity = SevHigh,
      sp_action = ActRequireReview, sp_conditions = [condition_on ''risk_score'' OpNotEquals],
      sp_composition = CompAnd, sp_escalation_level = None\<rparr>"

definition default_security_policies :: "security_policy list" where
  "default_security_policies = [read_allow, write_require_approval, shell_require_code_exec]"

definition evaluator_new ::
  "rule_engine \<Rightarrow> sandbox_level \<Rightarrow> budget_tracker \<Rightarrow> idempotency_cache \<Rightarrow> controller \<Rightarrow> rationalization_guard \<Rightarrow> policy_evaluator" where
  "evaluator_new rules level budget idempotency control guard =
     \<lparr>ev_dispatch = dispatch_policy_default, ev_execution = execution_policy_default,
      ev_governance = governance_policy_default, ev_rule_engine = rules, ev_sandbox_level = level, ev_budget = budget,
      ev_idempotency = idempotency, ev_runtime_control = control, ev_guard = guard,
      ev_security_governor =
        security_governor_new (governor_config_default\<lparr>gc_default_action := ActDeny,
          gc_default_policies := default_security_policies\<rparr>),
      ev_rbac_enforcer = None, ev_user_approved_tools = {}, ev_rationalization_block_occurred = False\<rparr>"

fun task_type_debug :: "pua_task_type \<Rightarrow> string" where
  "task_type_debug PtBugFix = ''BugFix''"
| "task_type_debug PtFeatureAdd = ''FeatureAdd''"
| "task_type_debug PtRefactor = ''Refactor''"
| "task_type_debug PtSecurityPatch = ''SecurityPatch''"
| "task_type_debug PtOther = ''Other''"

text \<open>What one evaluation reads from outside: the instant and the time since its start (both in
  milliseconds), the random index of the latency reservoir, and the time stamp of the audit entry.\<close>

record eval_env =
  ee_now :: nat
  ee_elapsed_ms :: nat
  ee_rnd :: "nat \<Rightarrow> nat"
  ee_timestamp :: int

definition requires_manual_review :: "task_context \<Rightarrow> bool" where
  "requires_manual_review ctx \<longleftrightarrow>
     cx_risk_score ctx \<ge> 70 / 100 \<or> cx_file_count ctx \<ge> 8 \<or> cx_task_type ctx = PtSecurityPatch"

definition confidence_of :: "float_lib \<Rightarrow> real \<Rightarrow> real" where
  "confidence_of fl risk = fl_f32 fl (1 - fl_f32 fl risk)"

definition governor_context :: "float_lib \<Rightarrow> task_context \<Rightarrow> (string, string) hmap" where
  "governor_context fl ctx =
     [(''task_type'', task_type_debug (cx_task_type ctx)), (''file_count'', show_word (cx_file_count ctx)),
      (''risk_score'', fl_show fl (cx_risk_score ctx))]"

text \<open>The detail of the entry, the reasons in one line, is only stored.\<close>

definition governor_entry ::
  "(gov_message list \<Rightarrow> string) \<Rightarrow> int \<Rightarrow> string \<Rightarrow> string \<Rightarrow> governor_error + policy_verdict \<Rightarrow> gov_audit_entry" where
  "governor_entry join now resource actor result =
     (case result of
        Inr v \<Rightarrow>
          gov_audit_entry_new now (case pv_matched_policy v of Some p \<Rightarrow> p | None \<Rightarrow> ''none'') v resource actor
            (join (pv_reasons v))
      | Inl _ \<Rightarrow>
          gov_audit_entry_new now ''none''
            \<lparr>pv_allowed = False, pv_required_review = False, pv_escalation_level = ''normal'', pv_matched_policy = None,
             pv_reasons = []\<rparr> resource actor ''evaluation_error'')"

definition first_reason :: "gov_message list \<Rightarrow> string \<Rightarrow> gov_message" where
  "first_reason reasons key = (case reasons of r # _ \<Rightarrow> r | [] \<Rightarrow> Translated key [])"

definition evaluate_governor ::
  "float_lib \<Rightarrow> (gov_message list \<Rightarrow> string) \<Rightarrow> 're regex_lib \<Rightarrow> eval_env \<Rightarrow> task_context \<Rightarrow>
   policy_evaluator \<times> 're regex_cache \<Rightarrow> harness_verdict \<times> policy_evaluator \<times> 're regex_cache" where
  "evaluate_governor fl join lib env ctx st =
     (let (ev, cache) = st;
          resource = task_type_debug (cx_task_type ctx);
          actor = ''risk:'' @ fl_show2 fl (cx_risk_score ctx);
          (result, g, cache) = evaluate lib resource actor (governor_context fl ctx) (ev_security_governor ev, cache);
          g = record_audit_counters (governor_entry join (ee_timestamp env) resource actor result) g;
          ev = ev\<lparr>ev_security_governor := g\<rparr>
      in case result of
           Inl _ \<Rightarrow>
             (HvDeny \<lparr>vi_kind = ''security_policy'',
                      vi_detail = Translated ''error.harness_bus.security_governor_denied'' []\<rparr>, ev, cache)
         | Inr v \<Rightarrow>
             if \<not> pv_allowed v
             then (HvDeny \<lparr>vi_kind = ''security_policy'',
                           vi_detail = first_reason (pv_reasons v) ''error.harness_bus.security_governor_denied''\<rparr>, ev, cache)
             else if pv_required_review v
             then (HvReview (first_reason (pv_reasons v) ''error.harness_bus.security_governor_review''), ev, cache)
             else (HvAllow,
                   ev\<lparr>ev_runtime_control :=
                        RuntimeControls.record_outcome (ee_rnd env) True (ee_elapsed_ms env) (ev_runtime_control ev)\<rparr>,
                   cache))"

definition evaluate_policy ::
  "float_lib \<Rightarrow> (gov_message list \<Rightarrow> string) \<Rightarrow> 're regex_lib \<Rightarrow> eval_env \<Rightarrow> task_context \<Rightarrow>
   policy_evaluator \<times> 're regex_cache \<Rightarrow> harness_verdict \<times> policy_evaluator \<times> 're regex_cache" where
  "evaluate_policy fl join lib env ctx st =
     (let (ev, cache) = st in
      case check_wall_clock (ee_now env) (ev_budget ev) of
        Inl _ \<Rightarrow>
          (HvDeny \<lparr>vi_kind = ''budget'', vi_detail = Translated ''error.harness_bus.budget_exceeded'' []\<rparr>, ev, cache)
      | Inr _ \<Rightarrow>
          if should_escalate (ev_runtime_control ev)
          then (HvEscalate (Translated ''error.harness_bus.runtime_escalation'' []) 3,
                ev\<lparr>ev_runtime_control :=
                     RuntimeControls.record_outcome (ee_rnd env) False (ee_elapsed_ms env) (ev_runtime_control ev)\<rparr>,
                cache)
          else if requires_manual_review ctx
          then (HvReview (Translated ''error.harness_bus.review_gate_manual'' []), ev, cache)
          else
            let (blocked, _, guard) = guard_evaluate (confidence_of fl (cx_risk_score ctx)) annotation_default (ev_guard ev);
                ev = ev\<lparr>ev_guard := guard\<rparr>
            in if blocked
               then (HvReview (Translated ''error.harness_bus.low_confidence'' []),
                     ev\<lparr>ev_rationalization_block_occurred := True\<rparr>, cache)
               else evaluate_governor fl join lib env ctx (ev, cache))"

section \<open>Tool calls\<close>

definition approve_tool :: "string \<Rightarrow> policy_evaluator \<Rightarrow> policy_evaluator" where
  "approve_tool tool ev = ev\<lparr>ev_user_approved_tools := insert tool (ev_user_approved_tools ev)\<rparr>"

definition revoke_tool_approval :: "string \<Rightarrow> policy_evaluator \<Rightarrow> policy_evaluator" where
  "revoke_tool_approval tool ev = ev\<lparr>ev_user_approved_tools := ev_user_approved_tools ev - {tool}\<rparr>"

text \<open>\<open>tx_json\<close> prints a JSON value, \<open>tx_hash\<close> is the hash of a text in hexadecimal.\<close>

record text_lib =
  tx_json :: "json \<Rightarrow> string"
  tx_hash :: "string \<Rightarrow> string"

definition idempotency_key :: "text_lib \<Rightarrow> string \<Rightarrow> json \<Rightarrow> string" where
  "idempotency_key tx tool args = ''default:'' @ tool @ '':'' @ tx_hash tx (tx_json tx args)"

text \<open>Times are in milliseconds, the lifetime of the policy is in seconds.\<close>

definition cached_idempotent_result :: "text_lib \<Rightarrow> nat \<Rightarrow> string \<Rightarrow> json \<Rightarrow> policy_evaluator \<Rightarrow> json option" where
  "cached_idempotent_result tx now tool args ev =
     (case gv_idempotency (ev_governance ev) of
        IdDisabled \<Rightarrow> None
      | IdEnabled ttl_seconds \<Rightarrow>
          (case cache_get now (ev_idempotency ev) (idempotency_key tx tool args) of
             None \<Rightarrow> None
           | Some entry \<Rightarrow>
               if now - ir_cached_at entry > unat ttl_seconds * 1000 then None else Some (ir_response entry)))"

definition record_tool_success :: "text_lib \<Rightarrow> nat \<Rightarrow> string \<Rightarrow> json \<Rightarrow> json \<Rightarrow> policy_evaluator \<Rightarrow> policy_evaluator" where
  "record_tool_success tx now tool args response ev =
     (case gv_idempotency (ev_governance ev) of
        IdDisabled \<Rightarrow> ev
      | IdEnabled _ \<Rightarrow>
          ev\<lparr>ev_idempotency := cache_insert now (idempotency_key tx tool args) response (ev_idempotency ev)\<rparr>)"

text \<open>The iteration order and the two printers only occur in the reasons of refusals.\<close>

record rbac_env =
  rb_order :: "string iter_order"
  rb_debug_roles :: "string list \<Rightarrow> string"
  rb_debug_perm :: "permission \<Rightarrow> string"

fun required_permission :: "governance_action \<Rightarrow> permission" where
  "required_permission GaWrite = PWrite"
| "required_permission GaShell = PExecute"
| "required_permission GaNetwork = PExecute"
| "required_permission GaRead = PRead"
| "required_permission GaSearch = PRead"

fun deployment_hint :: "sandbox_level \<Rightarrow> string" where
  "deployment_hint SbNone = ''local-dev''"
| "deployment_hint SbBasic = ''ci''"
| "deployment_hint SbStrict = ''managed-service''"
| "deployment_hint SbIsolated = ''production''"

definition check_permission :: "rbac_env \<Rightarrow> string \<Rightarrow> policy_evaluator \<Rightarrow> bool" where
  "check_permission re tool ev =
     (let action = tool_action_of tool in
      case ev_rbac_enforcer ev of
        Some rbac \<Rightarrow>
          (let p = resolve_permissions rbac (principal_new ''harness'' [''user''] (default_tenant_id rbac))
           in check_access (rb_order re) (rb_debug_roles re) (rb_debug_perm re) rbac p (required_permission action) = Allow)
      | None \<Rightarrow> hd_allowed (rbac_fallback_allows_action (Some (deployment_hint (ev_sandbox_level ev))) action))"

definition hits_red_line :: "text_lib \<Rightarrow> policy_evaluator \<Rightarrow> json \<Rightarrow> bool" where
  "hits_red_line tx ev args =
     list_ex (\<lambda>line. line \<noteq> [] \<and> str_contains (to_ascii_lowercase (tx_json tx args)) (to_ascii_lowercase line))
       (gv_red_lines (ev_governance ev))"

definition operation_allowed :: "sandbox_level \<Rightarrow> tool_operation \<Rightarrow> bool \<Rightarrow> bool" where
  "operation_allowed level oper approved =
     (case oper of
        OpRead \<Rightarrow> can_execute_read_file level
      | OpSearch \<Rightarrow> can_execute_search level
      | OpNetwork \<Rightarrow> can_execute_network level
      | OpWrite \<Rightarrow> can_execute_write level
      | OpShell \<Rightarrow> can_execute_shell level
      | OpUnknown \<Rightarrow> approved)"

definition check_tool_call ::
  "text_lib \<Rightarrow> rbac_env \<Rightarrow> nat \<Rightarrow> string \<Rightarrow> json \<Rightarrow> policy_evaluator \<Rightarrow> tool_verdict \<times> policy_evaluator" where
  "check_tool_call tx re now tool args ev =
     (if hits_red_line tx ev args
      then (\<lparr>tv_allowed = False, tv_require_review = True, tv_idempotent = False, tv_budget_ok = False, tv_permitted = False\<rparr>, ev)
      else
        let oper = tool_operation_of tool;
            approved = (tool \<in> ev_user_approved_tools ev);
            allowed = operation_allowed (ev_sandbox_level ev) oper approved;
            recognized = (oper \<noteq> OpUnknown \<or> approved);
            idempotent = (case gv_idempotency (ev_governance ev) of
                IdDisabled \<Rightarrow> False
              | IdEnabled ttl_seconds \<Rightarrow>
                  (case cache_get now (ev_idempotency ev) (idempotency_key tx tool args) of
                     None \<Rightarrow> False
                   | Some entry \<Rightarrow> now - ir_cached_at entry \<le> unat ttl_seconds * 1000));
            (budget_result, budget) = record_tool_call (ev_budget ev);
            ev = ev\<lparr>ev_budget := budget\<rparr>
        in (\<lparr>tv_allowed = allowed, tv_require_review = \<not> recognized, tv_idempotent = idempotent,
             tv_budget_ok = (budget_result = Inr ()), tv_permitted = check_permission re tool ev\<rparr>, ev))"

definition set_rbac_enforcer :: "rbac_enforcer \<Rightarrow> policy_evaluator \<Rightarrow> policy_evaluator" where
  "set_rbac_enforcer enforcer ev = ev\<lparr>ev_rbac_enforcer := Some enforcer\<rparr>"

definition drain_rationalization_blocked :: "policy_evaluator \<Rightarrow> bool \<times> policy_evaluator" where
  "drain_rationalization_blocked ev =
     (ev_rationalization_block_occurred ev, ev\<lparr>ev_rationalization_block_occurred := False\<rparr>)"

section \<open>Outputs\<close>

definition real_evidence :: "string \<times> json \<Rightarrow> bool" where
  "real_evidence kv =
     (let (k, v) = kv;
          empty_string = (case v of JString s \<Rightarrow> trim s = [] | _ \<Rightarrow> False);
          empty_array = (case v of JArray a \<Rightarrow> a = [] | _ \<Rightarrow> False)
      in k \<noteq> [] \<and> v \<noteq> JNull \<and> \<not> empty_string \<and> \<not> empty_array)"

definition completed_of :: "json \<Rightarrow> string list" where
  "completed_of output =
     (case output of
        JObject m \<Rightarrow> map fst (filter real_evidence m)
      | JString s \<Rightarrow> if trim s \<noteq> [] then [''output_content''] else []
      | _ \<Rightarrow> [])"

definition output_shape :: "json \<Rightarrow> string" where
  "output_shape output =
     (case output of
        JNull \<Rightarrow> ''null''
      | JBool _ \<Rightarrow> ''boolean''
      | JNumber _ \<Rightarrow> ''number''
      | JString s \<Rightarrow> if s = [] then ''string_empty'' else ''string''
      | JArray a \<Rightarrow> if a = [] then ''array_empty'' else ''array''
      | JObject _ \<Rightarrow> ''object'')"

definition output_quality :: "json \<Rightarrow> bool" where
  "output_quality output =
     (let shape = output_shape output
      in completed_of output \<noteq> [] \<and> shape \<noteq> ''null'' \<and> shape \<noteq> ''string_empty'' \<and> shape \<noteq> ''array_empty'')"

definition verification_entry :: "float_lib \<Rightarrow> int \<Rightarrow> string \<Rightarrow> output_verdict \<Rightarrow> gov_audit_entry" where
  "verification_entry fl now shape v =
     gov_audit_entry_new now ''verify_output''
       \<lparr>pv_allowed = ov_quality v, pv_required_review = \<not> ov_quality v, pv_escalation_level = ''normal'', pv_matched_policy = None,
        pv_reasons = [Verbatim (if ov_quality v then ''output verification passed''
                                else ''output verification failed: output_shape='' @ shape)]\<rparr>
       ''verify_output'' ''harness''
       (''quality='' @ show_bool (ov_quality v) @ '', risk_score='' @ fl_show fl (ov_risk_score v) @ '', evidence_count='' @
        show_nat (length (ov_evidence v)) @ '', output_shape='' @ shape)"

definition stage_evidence :: "rule_engine \<Rightarrow> json \<Rightarrow> string \<Rightarrow> string list" where
  "stage_evidence rules output stage =
     collect_evidence rules stage @ [''output_shape:'' @ output_shape output] @
     map (\<lambda>gap. ''missing_stage_action:'' @ gap) (collect_missing rules stage (completed_of output))"

definition verify_output ::
  "float_lib \<Rightarrow> int \<Rightarrow> json \<Rightarrow> string \<Rightarrow> policy_evaluator \<Rightarrow> output_verdict \<times> policy_evaluator" where
  "verify_output fl now output stage ev =
     (let evidence = stage_evidence (ev_rule_engine ev) output stage;
          quality = output_quality output;
          risk_score = (if quality then 0 else 1 / 2);
          (low_confidence, _, guard) = guard_evaluate (confidence_of fl risk_score) annotation_default (ev_guard ev);
          ev = ev\<lparr>ev_guard := guard\<rparr>;
          risk_score = (if low_confidence then min (risk_score + 2 / 10) 1 else risk_score);
          evidence = (if low_confidence then evidence @ [''low_confidence_warning: guard flagged weak evidence''] else evidence);
          verdict = \<lparr>ov_quality = quality, ov_evidence = evidence, ov_risk_score = risk_score\<rparr>;
          ev = (if ac_enabled (gv_audit (ev_governance ev))
                then ev\<lparr>ev_security_governor :=
                          record_audit_counters (verification_entry fl now (output_shape output) verdict) (ev_security_governor ev)\<rparr>
                else ev)
      in (verdict, ev))"

section \<open>The verdict on a task\<close>

text \<open>What is used of the conversions: rounding is monotone and exact at 0 and 1, and only 0 is printed as such.\<close>

definition float_laws :: "float_lib \<Rightarrow> bool" where
  "float_laws fl \<longleftrightarrow> mono (fl_f32 fl) \<and> fl_f32 fl 0 = 0 \<and> fl_f32 fl 1 = 1 \<and> (\<forall>x. fl_show fl x = ''0'' \<longleftrightarrow> x = 0)"

text \<open>The parts of the evaluator that no operation changes.\<close>

definition evaluator_static :: "float_lib \<Rightarrow> policy_evaluator \<Rightarrow> bool" where
  "evaluator_static fl ev \<longleftrightarrow>
     map snd (sg_policies (ev_security_governor ev)) = default_security_policies \<and>
     gc_enabled (sg_config (ev_security_governor ev)) \<and> gc_policy_mode (sg_config (ev_security_governor ev)) = [] \<and>
     gd_confidence_threshold (ev_guard ev) = fl_f32 fl (6 / 10) \<and> ev_governance ev = governance_policy_default"

lemma evaluator_new_static: "evaluator_static fl (evaluator_new rules level budget idem control (guard_default fl))"
  by (simp add: evaluator_static_def evaluator_new_def guard_default_def security_governor_new_def default_security_policies_def
      governor_config_default_def register_policy_def hm_insert_def read_allow_def write_require_approval_def
      shell_require_code_exec_def Let_def)

lemma evaluator_new_unpoisoned: "\<not> sg_poisoned (ev_security_governor (evaluator_new rules level budget idem control guard))"
  by (simp add: evaluator_new_def security_governor_new_def default_security_policies_def register_policy_def Let_def)

lemma show_nat_zero: "show_nat 0 = ''0''"
  by code_simp

lemma show_word_zero: "show_word (n :: 'a::len word) = ''0'' \<longleftrightarrow> n = 0"
proof -
  have "''0'' = show_nat 0" by (simp only: show_nat_zero)
  then show ?thesis by (simp only: show_nat_inj) (simp add: unat_eq_0)
qed

lemma guard_evaluate_plain:
  "guard_evaluate c annotation_default g =
     (if c < gd_confidence_threshold g
      then (True, annotation_default\<lparr>an_weak_evidence_flags := [''low_confidence_no_evidence''], an_reexamine_triggered := True\<rparr>,
            g\<lparr>gd_reexamine_triggered_count := gd_reexamine_triggered_count g + 1,
              gd_weak_evidence_blocked_count := gd_weak_evidence_blocked_count g + 1\<rparr>)
      else (False, annotation_default, g))"
  by (simp add: guard_evaluate_def annotation_default_def Let_def)

lemma default_policy_verdict:
  assumes "float_laws fl" and "map snd (sg_policies g) = default_security_policies"
  shows "spec_verdict lib g resource actor (governor_context fl ctx) =
    (if cx_risk_score ctx = 0 \<and> cx_file_count ctx = 0 then matched_verdict read_allow
     else if cx_file_count ctx \<noteq> 0 then matched_verdict write_require_approval else matched_verdict shell_require_code_exec)"
  using assms
  by (simp add: spec_verdict_def default_security_policies_def policy_holds_def cond_holds_field field_value_def governor_context_def
      condition_on_def read_allow_def write_require_approval_def shell_require_code_exec_def show_word_zero show_nat_zero float_laws_def)

lemma record_audit_counters_static [simp]:
  "sg_policies (record_audit_counters e g) = sg_policies g" "sg_config (record_audit_counters e g) = sg_config g"
  "sg_poisoned (record_audit_counters e g) = sg_poisoned g"
  by (simp_all add: record_audit_counters_def Let_def)

text \<open>The governor of the evaluator allows only tasks without risk and files, sends all others to review, and refuses
  only when its lock is poisoned.\<close>

lemma evaluate_governor_cases:
  assumes "float_laws fl" and "evaluator_static fl ev" and "SecurityGovernor.cache_ok lib cache"
    and "evaluate_governor fl join lib env ctx (ev, cache) = (v, ev', cache')"
  shows "SecurityGovernor.cache_ok lib cache'" and "evaluator_static fl ev'"
    and "sg_poisoned (ev_security_governor ev') = sg_poisoned (ev_security_governor ev)"
    and "v = HvAllow \<longleftrightarrow> \<not> sg_poisoned (ev_security_governor ev) \<and> cx_risk_score ctx = 0 \<and> cx_file_count ctx = 0"
    and "(\<exists>x. v = HvDeny x) \<longleftrightarrow> sg_poisoned (ev_security_governor ev)" and "v \<noteq> HvEscalate m l"
    and "ev_runtime_control ev' =
      (if v = HvAllow then RuntimeControls.record_outcome (ee_rnd env) True (ee_elapsed_ms env) (ev_runtime_control ev)
       else ev_runtime_control ev)"
    and "ev' = ev\<lparr>ev_runtime_control := ev_runtime_control ev', ev_security_governor := ev_security_governor ev'\<rparr>"
proof -
  let ?r = "task_type_debug (cx_task_type ctx)" and ?a = "''risk:'' @ fl_show2 fl (cx_risk_score ctx)"
  let ?g = "ev_security_governor ev"
  obtain res g1 c1 where e: "evaluate lib ?r ?a (governor_context fl ctx) (?g, cache) = (res, g1, c1)"
    by (metis prod_cases3)
  have st: "map snd (sg_policies ?g) = default_security_policies" "gc_enabled (sg_config ?g)" "gc_policy_mode (sg_config ?g) = []"
    using assms(2) by (simp_all add: evaluator_static_def)
  note val = evaluate_value[OF assms(3) e, simplified st default_policy_verdict[OF assms(1) st(1)], simplified]
  note d = matched_verdict_def read_allow_def write_require_approval_def shell_require_code_exec_def
  note out = assms(4)[unfolded evaluate_governor_def Let_def prod.case e]
  show "SecurityGovernor.cache_ok lib cache'" using val out by (auto split: sum.splits if_splits)
  show "v = HvAllow \<longleftrightarrow> \<not> sg_poisoned ?g \<and> cx_risk_score ctx = 0 \<and> cx_file_count ctx = 0"
    using val out by (auto simp: d split: sum.splits if_splits)
  show "(\<exists>x. v = HvDeny x) \<longleftrightarrow> sg_poisoned ?g" using val out by (auto simp: d split: sum.splits if_splits)
  show "v \<noteq> HvEscalate m l" using out by (auto split: sum.splits if_splits)
  show "ev_runtime_control ev' =
      (if v = HvAllow then RuntimeControls.record_outcome (ee_rnd env) True (ee_elapsed_ms env) (ev_runtime_control ev)
       else ev_runtime_control ev)"
    using out by (auto split: sum.splits if_splits)
  show "ev' = ev\<lparr>ev_runtime_control := ev_runtime_control ev', ev_security_governor := ev_security_governor ev'\<rparr>"
    using out by (auto split: sum.splits if_splits)
  have g1: "sg_policies g1 = sg_policies ?g" "sg_config g1 = sg_config ?g" "sg_poisoned g1 = sg_poisoned ?g"
    using val by (simp_all split: if_splits)
  show "evaluator_static fl ev'" using out assms(2) g1 by (auto simp: evaluator_static_def split: sum.splits if_splits)
  show "sg_poisoned (ev_security_governor ev') = sg_poisoned ?g" using out g1 by (auto split: sum.splits if_splits)
qed

definition in_time :: "eval_env \<Rightarrow> policy_evaluator \<Rightarrow> bool" where
  "in_time env ev \<longleftrightarrow> check_wall_clock (ee_now env) (ev_budget ev) = Inr ()"

text \<open>The four ways through an evaluation.\<close>

lemma evaluate_policy_cases:
  assumes "evaluate_policy fl join lib env ctx (ev, cache) = (v, ev', cache')"
  obtains (late) d where "\<not> in_time env ev" "v = HvDeny d" "vi_kind d = ''budget''" "ev' = ev" "cache' = cache"
  | (escalated) m where "in_time env ev" "should_escalate (ev_runtime_control ev)" "v = HvEscalate m 3" "cache' = cache"
      "ev' = ev\<lparr>ev_runtime_control :=
         RuntimeControls.record_outcome (ee_rnd env) False (ee_elapsed_ms env) (ev_runtime_control ev)\<rparr>"
  | (manual) m where "in_time env ev" "\<not> should_escalate (ev_runtime_control ev)" "requires_manual_review ctx" "v = HvReview m"
      "ev' = ev" "cache' = cache"
  | (weak) m g where "in_time env ev" "\<not> should_escalate (ev_runtime_control ev)" "\<not> requires_manual_review ctx"
      "confidence_of fl (cx_risk_score ctx) < gd_confidence_threshold (ev_guard ev)" "v = HvReview m" "cache' = cache"
      "gd_confidence_threshold g = gd_confidence_threshold (ev_guard ev)"
      "ev' = ev\<lparr>ev_guard := g, ev_rationalization_block_occurred := True\<rparr>"
  | (governed) "in_time env ev" "\<not> should_escalate (ev_runtime_control ev)" "\<not> requires_manual_review ctx"
      "\<not> confidence_of fl (cx_risk_score ctx) < gd_confidence_threshold (ev_guard ev)"
      "evaluate_governor fl join lib env ctx (ev, cache) = (v, ev', cache')"
proof (cases "check_wall_clock (ee_now env) (ev_budget ev)")
  case (Inl x)
  have t: "\<not> in_time env ev" using Inl by (simp add: in_time_def)
  have eq: "v = HvDeny \<lparr>vi_kind = ''budget'', vi_detail = Translated ''error.harness_bus.budget_exceeded'' []\<rparr>" "ev' = ev" "cache' = cache"
    using assms Inl by (simp_all add: evaluate_policy_def)
  show ?thesis by (rule late[OF t eq(1) _ eq(2,3)]) simp
next
  case (Inr u)
  then have t: "in_time env ev" by (simp add: in_time_def)
  note out = assms[unfolded evaluate_policy_def guard_evaluate_plain Let_def prod.case Inr sum.case]
  show ?thesis
  proof (cases "should_escalate (ev_runtime_control ev)")
    case True
    have eq: "v = HvEscalate (Translated ''error.harness_bus.runtime_escalation'' []) 3" "cache' = cache"
      "ev' = ev\<lparr>ev_runtime_control :=
         RuntimeControls.record_outcome (ee_rnd env) False (ee_elapsed_ms env) (ev_runtime_control ev)\<rparr>"
      using out True by simp_all
    show ?thesis by (rule escalated[OF t True eq])
  next
    case e: False
    show ?thesis
    proof (cases "requires_manual_review ctx")
      case True
      have eq: "v = HvReview (Translated ''error.harness_bus.review_gate_manual'' [])" "ev' = ev" "cache' = cache"
        using out e True by simp_all
      show ?thesis by (rule manual[OF t e True eq])
    next
      case m: False
      show ?thesis
      proof (cases "confidence_of fl (cx_risk_score ctx) < gd_confidence_threshold (ev_guard ev)")
        case True
        let ?g = "(ev_guard ev)\<lparr>gd_reexamine_triggered_count := gd_reexamine_triggered_count (ev_guard ev) + 1,
              gd_weak_evidence_blocked_count := gd_weak_evidence_blocked_count (ev_guard ev) + 1\<rparr>"
        have eq: "v = HvReview (Translated ''error.harness_bus.low_confidence'' [])" "cache' = cache"
          "ev' = ev\<lparr>ev_guard := ?g, ev_rationalization_block_occurred := True\<rparr>"
          using out e m True by simp_all
        show ?thesis by (rule weak[OF t e m True eq(1,2) _ eq(3)]) simp
      next
        case False
        then show ?thesis using out t e m governed by simp
      qed
    qed
  qed
qed

lemma evaluate_governor_runtime:
  assumes "evaluate_governor fl join lib env ctx (ev, cache) = (v, ev', cache')"
  shows "ev_runtime_control ev' =
      (if v = HvAllow then RuntimeControls.record_outcome (ee_rnd env) True (ee_elapsed_ms env) (ev_runtime_control ev)
       else ev_runtime_control ev)" and "ev_idempotency ev' = ev_idempotency ev"
  using assms by (auto simp: evaluate_governor_def Let_def split: prod.splits sum.splits if_splits)

lemma evaluate_policy_idempotency:
  assumes "evaluate_policy fl join lib env ctx (ev, cache) = (v, ev', cache')"
  shows "ev_idempotency ev' = ev_idempotency ev"
  using assms by (cases rule: evaluate_policy_cases) (auto dest: evaluate_governor_runtime(2))

lemma evaluate_policy_static:
  assumes "float_laws fl" and "evaluator_static fl ev" and "SecurityGovernor.cache_ok lib cache"
    and "evaluate_policy fl join lib env ctx (ev, cache) = (v, ev', cache')"
  shows "evaluator_static fl ev' \<and> SecurityGovernor.cache_ok lib cache' \<and>
    sg_poisoned (ev_security_governor ev') = sg_poisoned (ev_security_governor ev)"
  using assms(4)
proof (cases rule: evaluate_policy_cases)
  case governed
  then show ?thesis using evaluate_governor_cases(1-3)[OF assms(1-3)] by blast
qed (use assms(2,3) in \<open>simp_all add: evaluator_static_def\<close>)

lemma zero_risk_confident: "float_laws fl \<Longrightarrow> \<not> confidence_of fl 0 < fl_f32 fl (6 / 10)"
  using monoD[of "fl_f32 fl" "6 / 10" 1] by (simp add: float_laws_def confidence_of_def)

text \<open>The verdict on a task. A task is allowed exactly when the time budget holds, the runtime controls do not ask
  for escalation, and the task has risk 0, touches no file and is no security patch; every other task in
  time is sent to review, or escalated. A refusal means that the time is over or that the
  governor's lock is poisoned and the task got as far.\<close>

lemma policy_verdict_value:
  assumes "float_laws fl" and "evaluator_static fl ev" and "SecurityGovernor.cache_ok lib cache"
    and "evaluate_policy fl join lib env ctx (ev, cache) = (v, ev', cache')"
  shows "(v = HvAllow \<longleftrightarrow> in_time env ev \<and> \<not> should_escalate (ev_runtime_control ev) \<and> cx_risk_score ctx = 0 \<and>
      cx_file_count ctx = 0 \<and> cx_task_type ctx \<noteq> PtSecurityPatch \<and> \<not> sg_poisoned (ev_security_governor ev)) \<and>
    ((\<exists>m l. v = HvEscalate m l) \<longleftrightarrow> in_time env ev \<and> should_escalate (ev_runtime_control ev)) \<and>
    ((\<exists>d. v = HvDeny d) \<longleftrightarrow> \<not> in_time env ev \<or>
      \<not> should_escalate (ev_runtime_control ev) \<and> \<not> requires_manual_review ctx \<and>
      \<not> confidence_of fl (cx_risk_score ctx) < fl_f32 fl (6 / 10) \<and> sg_poisoned (ev_security_governor ev))"
proof -
  have thr: "gd_confidence_threshold (ev_guard ev) = fl_f32 fl (6 / 10)" using assms(2) by (simp add: evaluator_static_def)
  have zero: "\<not> confidence_of fl 0 < fl_f32 fl (6 / 10)" using assms(1) by (rule zero_risk_confident)
  show ?thesis
    using assms(4)
  proof (cases rule: evaluate_policy_cases)
    case (manual m)
    then show ?thesis by (auto simp: requires_manual_review_def)
  next
    case (weak m g)
    then show ?thesis using thr zero by auto
  next
    case governed
    show ?thesis
      using governed(1-4) thr evaluate_governor_cases(4-6)[OF assms(1-3) governed(5)]
      by (auto simp: requires_manual_review_def)
  qed auto
qed

section \<open>The verdict on a tool call\<close>

lemma record_tool_call_ok:
  "fst (record_tool_call t) = Inr () \<longleftrightarrow>
     bt_tool_calls_made t < max_tool_calls (bt_task_budget t) \<or> max_tool_calls (bt_task_budget t) = - 1"
proof -
  let ?m = "bt_tool_calls_made t" and ?x = "max_tool_calls (bt_task_budget t)"
  have "saturating_add ?m 1 \<le> ?x \<longleftrightarrow> ?m < ?x \<or> ?x = - 1"
  proof (cases "?m = - 1")
    case True
    then show ?thesis by (simp add: saturating_add_def unsigned_minus_1_eq_mask mask_eq_exp_minus_1 word_order.extremum_unique)
  next
    case False
    then have lt: "?m < - 1" by (simp add: word_order.not_eq_extremum)
    then have "unat ?m + 1 < 2 ^ 64" by (simp add: word_less_nat_alt unsigned_minus_1_eq_mask mask_eq_exp_minus_1)
    then have "saturating_add ?m 1 = ?m + 1" by (simp add: saturating_add_def)
    moreover have "?m + 1 \<le> ?x \<longleftrightarrow> ?m < ?x" using False by (simp add: word_less_nat_alt word_le_nat_alt unat_plus_one_less[OF lt] Suc_le_eq)
    ultimately show ?thesis using lt by auto
  qed
  then show ?thesis by (auto simp: record_tool_call_def Let_def not_le[symmetric])
qed

lemma hint_level: "pb_sandbox_level (policy_bundle_for_target (Some (deployment_hint l))) = l"
proof -
  have "pb_sandbox_level (policy_bundle_for_target (Some ''local-dev'')) = SbNone"
    "pb_sandbox_level (policy_bundle_for_target (Some ''ci'')) = SbBasic"
    "pb_sandbox_level (policy_bundle_for_target (Some ''managed-service'')) = SbStrict"
    "pb_sandbox_level (policy_bundle_for_target (Some ''production'')) = SbIsolated"
    by code_simp+
  then show ?thesis by (cases l) simp_all
qed

text \<open>The permissions of the harness: those of the roles \<open>user\<close> and \<open>viewer\<close>.\<close>

definition harness_permissions :: "rbac_enforcer \<Rightarrow> permission set" where
  "harness_permissions e = own_permissions e ''user'' \<union> own_permissions e ''viewer''"

definition action_permitted :: "policy_evaluator \<Rightarrow> governance_action \<Rightarrow> bool" where
  "action_permitted ev a \<longleftrightarrow>
     (case ev_rbac_enforcer ev of
        None \<Rightarrow> level_allows (ev_sandbox_level ev) a
      | Some e \<Rightarrow> required_permission a \<in> harness_permissions e \<or> PAdmin \<in> harness_permissions e)"

lemma harness_tenant_ok:
  assumes "rbac_inv e"
  shows "tenant_denial e (principal_new i rs (default_tenant_id e)) = None"
  using assms by (auto simp: tenant_denial_def default_tenant_id_def principal_new_def rbac_inv_def)

lemma tenant_denial_permissions: "tenant_denial e (p\<lparr>pr_permissions := x\<rparr>) = tenant_denial e p"
  by (cases "pr_tenant_id p") (simp_all add: tenant_denial_def)

lemma check_permission_iff:
  assumes "\<And>e. ev_rbac_enforcer ev = Some e \<Longrightarrow> rbac_inv e"
  shows "check_permission re tool ev \<longleftrightarrow> action_permitted ev (tool_action_of tool)"
proof (cases "ev_rbac_enforcer ev")
  case None
  then show ?thesis by (simp add: check_permission_def action_permitted_def fallback_allowed hint_level Let_def)
next
  case (Some e)
  let ?p = "principal_new ''harness'' [''user''] (default_tenant_id e)"
  have "tenant_denial e (resolve_permissions e ?p) = None"
    using harness_tenant_ok[OF assms[OF Some], of "''harness''" "[''user'']"] by (simp add: resolve_permissions_eq tenant_denial_permissions)
  moreover have "pr_roles (resolve_permissions e ?p) = [''user'']"
    "pr_permissions (resolve_permissions e ?p) = harness_permissions e"
    by (simp_all add: resolve_permissions_eq principal_new_def harness_permissions_def collect_eq)
  ultimately show ?thesis
    using Some by (auto simp: check_permission_def action_permitted_def check_access_allow collect_eq harness_permissions_def Let_def)
qed

lemma operation_allowed_iff:
  "operation_allowed level oper approved \<longleftrightarrow>
     (case action_of_operation oper of Some a \<Rightarrow> level_allows level a | None \<Rightarrow> approved)"
  by (cases oper) (simp_all add: operation_allowed_def level_allows_def sandbox_check_def)

lemma check_permission_budget [simp]: "check_permission re tool (ev\<lparr>ev_budget := b\<rparr>) = check_permission re tool ev"
  by (cases "ev_rbac_enforcer ev") (simp_all add: check_permission_def)

text \<open>C38: A tool call is cleared exactly when its printed arguments contain no red line, the sandbox level allows the
  operation of the tool (or an unclassified tool was approved by the user), a call is left in the budget, and
  the action is permitted: by the roles \<open>user\<close> and \<open>viewer\<close> of the access control, or, without
  it, by the sandbox level. Every call that meets no red line is charged to the budget, also when
  it is refused.\<close>

theorem tool_call_exact:
  assumes "\<And>e. ev_rbac_enforcer ev = Some e \<Longrightarrow> rbac_step\<^sup>*\<^sup>* enforcer_new e"
  shows "(verdict_is_allowed (fst (check_tool_call tx re now tool args ev)) \<longleftrightarrow>
      \<not> hits_red_line tx ev args \<and>
      (case action_of_operation (tool_operation_of tool) of
         Some a \<Rightarrow> level_allows (ev_sandbox_level ev) a | None \<Rightarrow> tool \<in> ev_user_approved_tools ev) \<and>
      (bt_tool_calls_made (ev_budget ev) < max_tool_calls (bt_task_budget (ev_budget ev)) \<or>
       max_tool_calls (bt_task_budget (ev_budget ev)) = - 1) \<and>
      action_permitted ev (tool_action_of tool)) \<and>
    snd (check_tool_call tx re now tool args ev) =
      (if hits_red_line tx ev args then ev else ev\<lparr>ev_budget := snd (record_tool_call (ev_budget ev))\<rparr>)"
proof -
  have "rbac_inv e" if "ev_rbac_enforcer ev = Some e" for e using assms[OF that] by (rule rbac_run_inv)
  then have "check_permission re tool ev \<longleftrightarrow> action_permitted ev (tool_action_of tool)" by (rule check_permission_iff)
  then show ?thesis
    by (simp add: check_tool_call_def verdict_is_allowed_def operation_allowed_iff record_tool_call_ok case_prod_beta Let_def)
qed

text \<open>With the built-in roles no tool that runs commands or uses the network is cleared, whatever the level of the sandbox.\<close>

lemma builtin_roles_refuse_commands:
  assumes "ev_rbac_enforcer ev = Some enforcer_new" and "tool_action_of tool \<in> {GaShell, GaNetwork}"
  shows "\<not> verdict_is_allowed (fst (check_tool_call tx re now tool args ev))"
proof -
  have perms: "own_permissions enforcer_new ''user'' = {PRead, PWrite}" "own_permissions enforcer_new ''viewer'' = {PRead}"
    by code_simp+
  have "rbac_inv e" if "ev_rbac_enforcer ev = Some e" for e using assms(1) that enforcer_new_inv by simp
  then have "check_permission re tool ev \<longleftrightarrow> action_permitted ev (tool_action_of tool)" by (rule check_permission_iff)
  moreover have "required_permission (tool_action_of tool) = PExecute" using assms(2) by (elim insertE emptyE) simp_all
  ultimately have "\<not> check_permission re tool ev" by (simp add: action_permitted_def harness_permissions_def assms(1) perms)
  then show ?thesis by (simp add: check_tool_call_def verdict_is_allowed_def case_prod_beta Let_def)
qed

text \<open>C39: The result of a successful tool call is given back to a repeated call with the same arguments until either
  lifetime is over, and the check of that call reports it as repeated; a call with another key gets
  what it got before, or nothing.\<close>

theorem repeated_call_answered:
  assumes "Hardening.cache_ok (ev_idempotency ev)" and "gv_idempotency (ev_governance ev) = IdEnabled ttl"
    and "ev' = record_tool_success tx now tool args response ev"
  shows "cached_idempotent_result tx later tool args ev' =
      (if later - now \<le> min (ic_ttl (ev_idempotency ev)) (unat ttl * 1000) then Some response else None) \<and>
    (\<not> hits_red_line tx ev args \<longrightarrow>
       (tv_idempotent (fst (check_tool_call tx re later tool args ev')) \<longleftrightarrow>
          cached_idempotent_result tx later tool args ev' \<noteq> None)) \<and>
    (idempotency_key tx tool2 args2 \<noteq> idempotency_key tx tool args \<longrightarrow>
       cached_idempotent_result tx later tool2 args2 ev' \<in> {None, cached_idempotent_result tx later tool2 args2 ev})"
proof -
  let ?k = "idempotency_key tx tool args"
  have ev': "ev' = ev\<lparr>ev_idempotency := cache_insert now ?k response (ev_idempotency ev)\<rparr>"
    using assms(2,3) by (simp add: record_tool_success_def)
  note ins = cache_insert_queue(2)[OF assms(1)]
  have "cached_idempotent_result tx later tool args ev' =
      (if later - now \<le> min (ic_ttl (ev_idempotency ev)) (unat ttl * 1000) then Some response else None)"
    using assms(2) by (simp add: ev' cached_idempotent_result_def cache_get_def ins)
  moreover have "tv_idempotent (fst (check_tool_call tx re later tool args ev')) \<longleftrightarrow>
      cached_idempotent_result tx later tool args ev' \<noteq> None" if "\<not> hits_red_line tx ev args"
  proof -
    have "\<not> hits_red_line tx ev' args" using that by (simp add: hits_red_line_def ev')
    then show ?thesis
      using assms(2) by (simp add: check_tool_call_def cached_idempotent_result_def case_prod_beta ev' Let_def split: option.split)
  qed
  moreover have "cached_idempotent_result tx later tool2 args2 ev' \<in> {None, cached_idempotent_result tx later tool2 args2 ev}"
    if "idempotency_key tx tool2 args2 \<noteq> ?k"
  proof -
    have "cache_get later (ev_idempotency ev') (idempotency_key tx tool2 args2) \<in>
        {None, cache_get later (ev_idempotency ev) (idempotency_key tx tool2 args2)}"
      using that by (auto simp: ev' cache_get_def ins split: option.split)
    then show ?thesis using assms(2) by (auto simp: cached_idempotent_result_def ev')
  qed
  ultimately show ?thesis by blast
qed

section \<open>What the other operations keep\<close>

lemma check_tool_call_state:
  "\<exists>t. snd (check_tool_call tx re now tool args ev) = ev\<lparr>ev_budget := t\<rparr>"
proof (cases "hits_red_line tx ev args")
  case True
  then have "snd (check_tool_call tx re now tool args ev) = ev\<lparr>ev_budget := ev_budget ev\<rparr>" by (simp add: check_tool_call_def)
  then show ?thesis ..
next
  case False
  then have "snd (check_tool_call tx re now tool args ev) = ev\<lparr>ev_budget := snd (record_tool_call (ev_budget ev))\<rparr>"
    by (simp add: check_tool_call_def case_prod_beta Let_def)
  then show ?thesis ..
qed

lemma guard_keeps_threshold: "gd_confidence_threshold (snd (snd (guard_evaluate c a g))) = gd_confidence_threshold g"
  by (simp add: guard_evaluate_def Let_def)

lemma verify_output_state:
  assumes "verify_output fl now output stage ev = (v, ev')"
  shows "ev_runtime_control ev' = ev_runtime_control ev" and "ev_governance ev' = ev_governance ev"
    and "ev_idempotency ev' = ev_idempotency ev"
    and "gd_confidence_threshold (ev_guard ev') = gd_confidence_threshold (ev_guard ev)"
    and "sg_policies (ev_security_governor ev') = sg_policies (ev_security_governor ev)"
    and "sg_config (ev_security_governor ev') = sg_config (ev_security_governor ev)"
    and "sg_poisoned (ev_security_governor ev') = sg_poisoned (ev_security_governor ev)"
proof -
  have "ev' = snd (verify_output fl now output stage ev)" using assms by simp
  then show "ev_runtime_control ev' = ev_runtime_control ev" and "ev_governance ev' = ev_governance ev"
    and "ev_idempotency ev' = ev_idempotency ev"
    and "gd_confidence_threshold (ev_guard ev') = gd_confidence_threshold (ev_guard ev)"
    and "sg_policies (ev_security_governor ev') = sg_policies (ev_security_governor ev)"
    and "sg_config (ev_security_governor ev') = sg_config (ev_security_governor ev)"
    and "sg_poisoned (ev_security_governor ev') = sg_poisoned (ev_security_governor ev)"
    by (simp_all add: verify_output_def case_prod_beta guard_keeps_threshold Let_def)
qed

section \<open>Samples\<close>

definition sample_floats :: float_lib where
  "sample_floats =
     \<lparr>fl_f32 = (\<lambda>x. x), fl_show = (\<lambda>x. if x = 0 then ''0'' else ''1''), fl_show2 = (\<lambda>_. []), fl_json = (\<lambda>_. JNull)\<rparr>"

lemma sample_floats_laws: "float_laws sample_floats"
  by (simp add: float_laws_def sample_floats_def mono_def)

definition sample_text :: text_lib where
  "sample_text = \<lparr>tx_json = (\<lambda>_. ''null''), tx_hash = (\<lambda>s. s)\<rparr>"

definition sample_rbac :: rbac_env where
  "sample_rbac = \<lparr>rb_order = (\<lambda>xs. xs), rb_debug_roles = (\<lambda>_. []), rb_debug_perm = (\<lambda>_. [])\<rparr>"

definition sample_evaluator :: policy_evaluator where
  "sample_evaluator =
     evaluator_new (rule_engine_new (plan_default None)) SbStrict (budget_tracker_new 0 task_budget_default)
       (idempotency_cache_new 3600000) controller_default (guard_default sample_floats)"

definition sample_env :: eval_env where
  "sample_env = \<lparr>ee_now = 0, ee_elapsed_ms = 1, ee_rnd = (\<lambda>_. 0), ee_timestamp = 0\<rparr>"

definition idle_task :: task_context where
  "idle_task = \<lparr>cx_task_type = PtOther, cx_file_count = 0, cx_risk_score = 0\<rparr>"

lemma controller_default_calm: "\<not> should_escalate controller_default"
  by (simp add: should_escalate_def failure_rate_def latency_p95_ms_def controller_default_def window_failure_rate_def p95_def
      latency_estimator_default_def latency_estimator_new_def)

lemma empty_cache_ok: "SecurityGovernor.cache_ok lib []"
  by (simp add: SecurityGovernor.cache_ok_def)

lemma tool_call_exact_witness:
  "verdict_is_allowed (fst (check_tool_call sample_text sample_rbac 0 ''read_file'' JNull sample_evaluator))"
proof -
  have none: "ev_rbac_enforcer sample_evaluator = None" "ev_sandbox_level sample_evaluator = SbStrict"
    "ev_governance sample_evaluator = governance_policy_default"
    by (simp_all add: sample_evaluator_def evaluator_new_def)
  have tool: "tool_operation_of ''read_file'' = OpRead" "tool_action_of ''read_file'' = GaRead" by code_simp+
  have lines: "list_ex (\<lambda>line. line \<noteq> [] \<and> str_contains (to_ascii_lowercase ''null'') (to_ascii_lowercase line))
      [''rm -rf /'', ''DROP TABLE'', ''DELETE FROM''] = False" by code_simp
  have "\<not> hits_red_line sample_text sample_evaluator JNull"
    unfolding hits_red_line_def none using lines by (simp only: governance_policy_default_def governance_policy.simps sample_text_def text_lib.simps not_False_eq_True)
  moreover have "bt_tool_calls_made (ev_budget sample_evaluator) < max_tool_calls (bt_task_budget (ev_budget sample_evaluator))"
    by (simp add: sample_evaluator_def evaluator_new_def budget_tracker_new_def task_budget_default_def)
  ultimately show ?thesis
    using tool_call_exact[of sample_evaluator sample_text sample_rbac 0 "''read_file''" JNull] none tool
    by (simp add: action_permitted_def level_allows_simps)
qed

lemma repeated_call_answered_witness:
  "cached_idempotent_result sample_text 5 ''t'' JNull (record_tool_success sample_text 3 ''t'' JNull (JBool True) sample_evaluator) =
     Some (JBool True)"
proof -
  have "Hardening.cache_ok (ev_idempotency sample_evaluator)" "gv_idempotency (ev_governance sample_evaluator) = IdEnabled 3600"
    "ic_ttl (ev_idempotency sample_evaluator) = 3600000"
    using cache_new_ok by (simp_all add: sample_evaluator_def evaluator_new_def governance_policy_default_def idempotency_cache_new_def)
  from repeated_call_answered[OF this(1,2) refl, of sample_text 5 "''t''" JNull 3 "JBool True"] this(3) show ?thesis by simp
qed

end
