(* ===== verification/HarnessBus.thy ===== *)
theory HarnessBus
  imports DriftProtection ResilienceEngine PolicyEvaluator
begin

text \<open>
  The harness bus, \<open>mod.rs\<close> and \<open>audit.rs\<close> of \<open>src/governance/harness_bus/\<close>: the evaluator with the governance profile, drift
  engine, resilience engine and audit log, the escalation and de-escalation of the rules, and the
  policy derived for an agent. The message catalogue and the debug printer are arguments. The fault engine of the
  bus is only read for its profile and is left out, as are the loop of the drift monitor and the
  hook for reports of tools.
\<close>

section \<open>The governance profile\<close>

record governance_profile =
  gf_enabled :: bool
  gf_total_evaluations :: u64
  gf_allow_count :: u64
  gf_deny_count :: u64
  gf_escalate_count :: u64
  gf_review_count :: u64
  gf_red_line_blocks :: u64
  gf_budget_violations :: u64
  gf_sandbox_denials :: u64
  gf_idempotency_hits :: u64
  gf_other_denials :: u64
  gf_audit_entries_total :: u64
  gf_audit_dropped_entries :: u64
  gf_rationalization_blocks :: u64
  gf_rbac_denials :: u64
  gf_security_blocks :: u64
  gf_drift_detections :: u64
  gf_approval_requests :: u64
  gf_learning_updates :: u64
  gf_hardening_events :: u64
  gf_current_active_policies :: u32
  gf_current_escalation_level :: string
  gf_runtime_control_mode :: gov_message
  gf_policy_violation_trend :: string
  gf_last_evaluation_ms :: u64

definition governance_profile_default :: governance_profile where
  "governance_profile_default =
     \<lparr>gf_enabled = True, gf_total_evaluations = 0, gf_allow_count = 0, gf_deny_count = 0, gf_escalate_count = 0,
      gf_review_count = 0, gf_red_line_blocks = 0, gf_budget_violations = 0, gf_sandbox_denials = 0, gf_idempotency_hits = 0,
      gf_other_denials = 0, gf_audit_entries_total = 0, gf_audit_dropped_entries = 0, gf_rationalization_blocks = 0,
      gf_rbac_denials = 0, gf_security_blocks = 0, gf_drift_detections = 0, gf_approval_requests = 0,
      gf_learning_updates = 0, gf_hardening_events = 0, gf_current_active_policies = 5,
      gf_current_escalation_level = ''normal'', gf_runtime_control_mode = Verbatim ''standard'',
      gf_policy_violation_trend = ''stable'', gf_last_evaluation_ms = 0\<rparr>"

section \<open>The bus\<close>

record harness_bus =
  hb_evaluator :: policy_evaluator
  hb_profile :: governance_profile
  hb_drift_engine :: drift_engine
  hb_resilience_engine :: resilience_engine
  hb_audit_log :: audit_log
  hb_consecutive_allows :: u32

definition harness_drift_policy :: drift_policy where
  "harness_drift_policy =
     \<lparr>dp_name = ''harness_validation_latency'', dp_drift_types = [DtPerformance], dp_warning_threshold = 5 / 10,
      dp_critical_threshold = 8 / 10, dp_breach_threshold = 95 / 100, dp_cooldown_ms = 60000, dp_auto_remediate = False\<rparr>"

definition harness_bus_new ::
  "rule_engine \<Rightarrow> sandbox_level \<Rightarrow> budget_tracker \<Rightarrow> idempotency_cache \<Rightarrow> controller \<Rightarrow> rationalization_guard \<Rightarrow>
   audit_log \<Rightarrow> resilience_engine \<Rightarrow> harness_bus" where
  "harness_bus_new rules level budget idempotency control guard alog engine =
     \<lparr>hb_evaluator = evaluator_new rules level budget idempotency control guard,
      hb_profile = governance_profile_default,
      hb_drift_engine = snd (register_drift_policy harness_drift_policy (drift_engine_new drift_config_default)),
      hb_resilience_engine = engine, hb_audit_log = alog, hb_consecutive_allows = 0\<rparr>"

text \<open>The factory for the local profile; \<open>now\<close> starts the time budget, \<open>rules_file\<close> is the file of additional rules.\<close>

definition default_harness_bus ::
  "float_lib \<Rightarrow> nat \<Rightarrow> string option \<Rightarrow> audit_log \<Rightarrow> resilience_engine \<Rightarrow> harness_bus" where
  "default_harness_bus fl now rules_file alog engine =
     harness_bus_new (rule_engine_new (plan_default rules_file)) SbNone (budget_tracker_new now task_budget_default)
       (idempotency_cache_new 3600000) controller_default (guard_default fl) alog engine"

text \<open>The factory that reads the compliance section: whether it is there and enabled, and its standards.\<close>

definition compliance_level :: "(bool \<times> string list) option \<Rightarrow> sandbox_level" where
  "compliance_level c =
     (case c of
        None \<Rightarrow> SbNone
      | Some (enabled, standards) \<Rightarrow>
          if enabled
          then if list_ex (\<lambda>s. eq_ignore_case s ''hipaa'' \<or> eq_ignore_case s ''pci'') standards then SbStrict else SbBasic
          else SbNone)"

definition config_aware_harness_bus ::
  "float_lib \<Rightarrow> nat \<Rightarrow> string option \<Rightarrow> (bool \<times> string list) option \<Rightarrow> audit_log \<Rightarrow> resilience_engine \<Rightarrow> harness_bus" where
  "config_aware_harness_bus fl now rules_file compliance alog engine =
     harness_bus_new (rule_engine_new (plan_default rules_file)) (compliance_level compliance)
       (budget_tracker_new now task_budget_default) (idempotency_cache_new 3600000) controller_default (guard_default fl)
       alog engine"

definition bus_audit :: "audit_log_entry \<Rightarrow> harness_bus \<Rightarrow> harness_bus" where
  "bus_audit entry b =
     (let alog = record_entry entry (hb_audit_log b); p = hb_profile b in
      b\<lparr>hb_audit_log := alog,
        hb_profile := p\<lparr>gf_audit_entries_total := saturating_succ (gf_audit_entries_total p),
                        gf_audit_dropped_entries := dropped_count alog\<rparr>\<rparr>)"

record harness_lib =
  hl_float :: float_lib
  hl_join :: "gov_message list \<Rightarrow> string"
  hl_render :: "gov_message \<Rightarrow> string"
  hl_debug :: "harness_verdict \<Rightarrow> string"

text \<open>What the bus reads around an evaluation; \<open>he_join_failed\<close> says that the blocking task did not run to its end.\<close>

record harness_env =
  he_eval :: eval_env
  he_join_failed :: bool
  he_total_ms :: u64
  he_now_ms :: u64
  he_time :: string

definition count_verdict ::
  "(gov_message \<Rightarrow> string) \<Rightarrow> harness_verdict \<Rightarrow> governance_profile \<times> rule_engine \<Rightarrow> governance_profile \<times> rule_engine" where
  "count_verdict render verdict st =
     (let (p, rules) = st in
      case verdict of
        HvAllow \<Rightarrow> (p\<lparr>gf_allow_count := saturating_succ (gf_allow_count p)\<rparr>, rules)
      | HvDeny v \<Rightarrow>
          (let p = p\<lparr>gf_deny_count := saturating_succ (gf_deny_count p)\<rparr> in
           if vi_kind v = ''red_line''
           then (p\<lparr>gf_red_line_blocks := saturating_succ (gf_red_line_blocks p),
                   gf_hardening_events := gf_hardening_events p + 1\<rparr>,
                 snd (escalate (''Red-line violation detected: '' @ render (vi_detail v)) rules))
           else if vi_kind v = ''budget''
           then (p\<lparr>gf_budget_violations := saturating_succ (gf_budget_violations p)\<rparr>, rules)
           else if vi_kind v = ''rbac'' \<or> vi_kind v = ''permission''
           then (p\<lparr>gf_rbac_denials := gf_rbac_denials p + 1\<rparr>, rules)
           else if vi_kind v = ''security_policy''
           then (p\<lparr>gf_security_blocks := gf_security_blocks p + 1\<rparr>, rules)
           else (p\<lparr>gf_other_denials := saturating_succ (gf_other_denials p)\<rparr>, rules))
      | HvEscalate _ _ \<Rightarrow>
          (p\<lparr>gf_escalate_count := saturating_succ (gf_escalate_count p), gf_hardening_events := gf_hardening_events p + 1\<rparr>, rules)
      | HvReview _ \<Rightarrow>
          (p\<lparr>gf_review_count := saturating_succ (gf_review_count p), gf_approval_requests := gf_approval_requests p + 1\<rparr>, rules))"

definition refresh_profile :: "policy_evaluator \<Rightarrow> governance_profile \<Rightarrow> governance_profile" where
  "refresh_profile ev p =
     p\<lparr>gf_current_escalation_level := control_mode (ev_runtime_control ev),
       gf_runtime_control_mode :=
         (if should_escalate (ev_runtime_control ev) then Translated ''status.harness_bus.mode_restricted'' []
          else Translated ''status.harness_bus.mode_standard'' []),
       gf_policy_violation_trend := violation_trend (ev_runtime_control ev),
       gf_current_active_policies := ucast (policies_count (ev_security_governor ev)) + 5\<rparr>"

text \<open>The third allowed evaluation in a row lowers the level of the rules.\<close>

definition count_allows :: "harness_verdict \<Rightarrow> harness_bus \<Rightarrow> harness_bus" where
  "count_allows verdict b =
     (if verdict = HvAllow
      then
        let prev = hb_consecutive_allows b in
        if prev \<ge> 2
        then
          let ev = hb_evaluator b; p = hb_profile b;
              rules = snd (de_escalate ''No violations detected for 3 consecutive evaluations'' (ev_rule_engine ev))
          in b\<lparr>hb_consecutive_allows := 0, hb_evaluator := ev\<lparr>ev_rule_engine := rules\<rparr>,
               hb_profile := p\<lparr>gf_learning_updates := gf_learning_updates p + 1\<rparr>\<rparr>
        else b\<lparr>hb_consecutive_allows := prev + 1\<rparr>
      else b\<lparr>hb_consecutive_allows := 0\<rparr>)"

definition evaluation_entry :: "harness_lib \<Rightarrow> string \<Rightarrow> task_context \<Rightarrow> harness_verdict \<Rightarrow> audit_log_entry" where
  "evaluation_entry hl time ctx verdict =
     \<lparr>al_timestamp = time, al_task_id = task_type_debug (cx_task_type ctx), al_phase = ''pre_route'', al_agent = None,
      al_tool = None, al_decision = hl_debug hl verdict,
      al_inputs = JObject [(''task_type'', JString (task_type_debug (cx_task_type ctx))),
        (''file_count'', JNumber (uint (cx_file_count ctx))), (''risk_score'', fl_json (hl_float hl) (cx_risk_score ctx))],
      al_outputs = None, al_error = None, al_confidence = None, al_data_classification = None, al_compliance_tags = [],
      al_retention_policy = None, al_correlation_id = None\<rparr>"

definition join_error_verdict :: harness_verdict where
  "join_error_verdict =
     HvDeny \<lparr>vi_kind = ''internal_error'', vi_detail = Verbatim ''Policy evaluation thread panicked''\<rparr>"

definition blocking_evaluate ::
  "'re regex_lib \<Rightarrow> harness_lib \<Rightarrow> harness_env \<Rightarrow> task_context \<Rightarrow> policy_evaluator \<times> 're regex_cache \<Rightarrow>
   harness_verdict \<times> policy_evaluator \<times> 're regex_cache" where
  "blocking_evaluate lib hl env ctx st =
     (if he_join_failed env then (join_error_verdict, st)
      else evaluate_policy (hl_float hl) (hl_join hl) lib (he_eval env) ctx st)"

definition profile_after ::
  "harness_lib \<Rightarrow> harness_env \<Rightarrow> harness_verdict \<Rightarrow> policy_evaluator \<Rightarrow> governance_profile \<Rightarrow> governance_profile \<times> policy_evaluator" where
  "profile_after hl env verdict ev p =
     (let p = p\<lparr>gf_total_evaluations := saturating_succ (gf_total_evaluations p), gf_last_evaluation_ms := he_total_ms env\<rparr>;
          (blocked, ev) = drain_rationalization_blocked ev;
          p = (if blocked then p\<lparr>gf_rationalization_blocks := gf_rationalization_blocks p + 1\<rparr> else p);
          (p, rules) = count_verdict (hl_render hl) verdict (p, ev_rule_engine ev);
          ev = ev\<lparr>ev_rule_engine := rules\<rparr>
      in (refresh_profile ev p, ev))"

definition verdict_success :: "harness_verdict \<Rightarrow> bool" where
  "verdict_success verdict = (case verdict of HvAllow \<Rightarrow> True | HvReview _ \<Rightarrow> True | _ \<Rightarrow> False)"

definition bus_evaluate ::
  "'re regex_lib \<Rightarrow> harness_lib \<Rightarrow> harness_env \<Rightarrow> task_context \<Rightarrow> harness_bus \<times> 're regex_cache \<Rightarrow>
   harness_verdict \<times> harness_bus \<times> 're regex_cache" where
  "bus_evaluate lib hl env ctx st =
     (let (b, cache) = st;
          (verdict, ev, cache) = blocking_evaluate lib hl env ctx (hb_evaluator b, cache);
          (p, ev) = profile_after hl env verdict ev (hb_profile b);
          b = count_allows verdict (b\<lparr>hb_evaluator := ev, hb_profile := p\<rparr>);
          b = b\<lparr>hb_resilience_engine :=
                  record_execution (he_now_ms env) ''harness-main'' (verdict_success verdict) (hb_resilience_engine b)\<rparr>
      in (verdict, bus_audit (evaluation_entry hl (he_time env) ctx verdict) b, cache))"

text \<open>\<open>elapsed_s\<close> is the time the check took.\<close>

definition validate_action ::
  "text_lib \<Rightarrow> rbac_env \<Rightarrow> nat \<Rightarrow> real \<Rightarrow> u64 \<Rightarrow> string \<Rightarrow> json \<Rightarrow> harness_bus \<Rightarrow> tool_verdict \<times> harness_bus" where
  "validate_action tx re now elapsed_s now_ms tool args b =
     (let (verdict, ev) = check_tool_call tx re now tool args (hb_evaluator b);
          drift = snd (record_metric now_ms ''harness.validate_action.latency_s'' elapsed_s 0 DtPerformance (hb_drift_engine b));
          p = hb_profile b;
          p = (if \<not> tv_allowed verdict then p\<lparr>gf_sandbox_denials := saturating_succ (gf_sandbox_denials p)\<rparr> else p);
          p = (if tv_idempotent verdict then p\<lparr>gf_idempotency_hits := saturating_succ (gf_idempotency_hits p)\<rparr> else p)
      in (verdict, b\<lparr>hb_evaluator := ev, hb_drift_engine := drift, hb_profile := p\<rparr>))"

definition cached_tool_result :: "text_lib \<Rightarrow> nat \<Rightarrow> string \<Rightarrow> json \<Rightarrow> harness_bus \<Rightarrow> json option" where
  "cached_tool_result tx now tool args b = cached_idempotent_result tx now tool args (hb_evaluator b)"

definition bus_record_tool_success :: "text_lib \<Rightarrow> nat \<Rightarrow> string \<Rightarrow> json \<Rightarrow> json \<Rightarrow> harness_bus \<Rightarrow> harness_bus" where
  "bus_record_tool_success tx now tool args response b =
     b\<lparr>hb_evaluator := record_tool_success tx now tool args response (hb_evaluator b)\<rparr>"

definition output_entry :: "float_lib \<Rightarrow> string \<Rightarrow> output_verdict \<Rightarrow> audit_log_entry" where
  "output_entry fl time v =
     \<lparr>al_timestamp = time, al_task_id = [], al_phase = ''harness_audit:verify_output'', al_agent = None, al_tool = None,
      al_decision = (if ov_quality v then ''allow'' else ''deny''),
      al_inputs = JObject
        [(''violations'', JArray (if ov_quality v then [] else [JString ''output_verification_failed''])),
         (''context_snapshot'', JObject [(''risk_score'', fl_json fl (ov_risk_score v)),
            (''evidence_count'', JNumber (int (length (ov_evidence v))))])],
      al_outputs = None, al_error = None, al_confidence = None, al_data_classification = None, al_compliance_tags = [],
      al_retention_policy = None, al_correlation_id = None\<rparr>"

definition bus_verify_output ::
  "float_lib \<Rightarrow> int \<Rightarrow> real \<Rightarrow> u64 \<Rightarrow> string \<Rightarrow> json \<Rightarrow> string \<Rightarrow> harness_bus \<Rightarrow> output_verdict \<times> harness_bus" where
  "bus_verify_output fl timestamp elapsed_s now_ms time output stage b =
     (let (verdict, ev) = verify_output fl timestamp output stage (hb_evaluator b);
          drift = snd (record_metric now_ms ''harness.verify_output.latency_s'' elapsed_s 0 DtPerformance (hb_drift_engine b))
      in (verdict, bus_audit (output_entry fl time verdict) (b\<lparr>hb_evaluator := ev, hb_drift_engine := drift\<rparr>)))"

definition set_sandbox_level :: "sandbox_level \<Rightarrow> harness_bus \<Rightarrow> harness_bus" where
  "set_sandbox_level level b = b\<lparr>hb_evaluator := (hb_evaluator b)\<lparr>ev_sandbox_level := level\<rparr>\<rparr>"

definition bus_set_rbac_enforcer :: "rbac_enforcer \<Rightarrow> harness_bus \<Rightarrow> harness_bus" where
  "bus_set_rbac_enforcer enforcer b = b\<lparr>hb_evaluator := set_rbac_enforcer enforcer (hb_evaluator b)\<rparr>"

definition get_agent_policy :: "string \<Rightarrow> string \<Rightarrow> harness_bus \<Rightarrow> agent_execution_policy" where
  "get_agent_policy agent task_type b =
     (let agent_lower = to_ascii_lowercase agent; task_lower = to_ascii_lowercase task_type;
          is_admin = (str_contains agent_lower ''admin'' \<or> str_contains agent_lower ''planner'');
          is_reviewer = (str_contains agent_lower ''review'' \<or> str_contains agent_lower ''audit'');
          is_tester = str_contains agent_lower ''test'';
          is_security = (str_contains task_lower ''security'' \<or> str_contains task_lower ''patch'');
          is_feature = (str_contains task_lower ''feature'' \<or> str_contains task_lower ''implementation'');
          ev = hb_evaluator b;
          sandbox_idx = level_index (gv_sandbox_level (ev_governance ev));
          timeouts = dy_timeout_policy (ev_dispatch ev);
          calls = unat (ucast (max_tool_calls (xp_budget (ev_execution ev))) :: u32)
      in \<lparr>ax_timeout = (if is_admin then tp_max_timeout timeouts else tp_default_timeout timeouts),
          ax_max_tool_calls =
            of_nat (if is_feature then min (min (calls * 2) (2 ^ 32 - 1)) 512
                    else if is_security then max (calls div 2) 8 else calls),
          ax_allow_file_write = (sandbox_idx \<le> 1 \<or> is_reviewer \<or> is_tester),
          ax_allow_shell = (sandbox_idx = 0 \<or> is_admin),
          ax_allow_network = True,
          ax_review_level = (if is_security \<or> sandbox_idx \<ge> 2 \<or> is_reviewer then RlManual else RlAuto),
          ax_audit_level = (if is_security \<or> sandbox_idx \<ge> 2 then AuVerbose else AuStandard),
          ax_failure_strategy = FsRetry, ax_max_retries = dy_max_retries (ev_dispatch ev), ax_degradation = DgNone,
          ax_max_tokens = max_tokens (xp_budget (ev_execution ev))\<rparr>)"

section \<open>Runs\<close>

text \<open>The operations in any order. \<open>P\<close> restricts the circumstances of evaluations; the budget is shared with other
  code, which may change it in any way, and so is the sandbox level.\<close>

inductive bus_step ::
  "'re regex_lib \<Rightarrow> harness_lib \<Rightarrow> (harness_env \<Rightarrow> bool) \<Rightarrow> harness_bus \<times> 're regex_cache \<Rightarrow> harness_bus \<times> 're regex_cache \<Rightarrow> bool"
  for lib :: "'re regex_lib" and hl :: harness_lib and P :: "harness_env \<Rightarrow> bool" where
  bs_evaluate: "P env \<Longrightarrow> bus_evaluate lib hl env ctx (b, cache) = (v, b', cache') \<Longrightarrow> bus_step lib hl P (b, cache) (b', cache')"
| bs_validate: "validate_action tx re now elapsed now_ms tool args b = (tv, b') \<Longrightarrow> bus_step lib hl P (b, cache) (b', cache)"
| bs_verify: "bus_verify_output (hl_float hl) ts elapsed now_ms time output stage b = (ov, b') \<Longrightarrow>
    bus_step lib hl P (b, cache) (b', cache)"
| bs_success: "bus_step lib hl P (b, cache) (bus_record_tool_success tx now tool args response b, cache)"
| bs_approve: "bus_step lib hl P (b, cache) (b\<lparr>hb_evaluator := approve_tool tool (hb_evaluator b)\<rparr>, cache)"
| bs_revoke: "bus_step lib hl P (b, cache) (b\<lparr>hb_evaluator := revoke_tool_approval tool (hb_evaluator b)\<rparr>, cache)"
| bs_level: "bus_step lib hl P (b, cache) (set_sandbox_level level b, cache)"
| bs_rbac: "bus_step lib hl P (b, cache) (bus_set_rbac_enforcer enforcer b, cache)"
| bs_audit: "bus_step lib hl P (b, cache) (bus_audit entry b, cache)"
| bs_budget: "bus_step lib hl P (b, cache) (b\<lparr>hb_evaluator := (hb_evaluator b)\<lparr>ev_budget := t\<rparr>\<rparr>, cache)"

text \<open>The counters of evaluations, as numbers: the total, the four verdicts, the five kinds of refusals.\<close>

definition counts :: "governance_profile \<Rightarrow> u64 list" where
  "counts p =
     [gf_total_evaluations p, gf_allow_count p, gf_deny_count p, gf_escalate_count p, gf_review_count p,
      gf_red_line_blocks p, gf_budget_violations p, gf_rbac_denials p, gf_security_blocks p, gf_other_denials p]"

lemma bus_audit_fields [simp]:
  "hb_evaluator (bus_audit e b) = hb_evaluator b" "counts (hb_profile (bus_audit e b)) = counts (hb_profile b)"
  by (simp_all add: bus_audit_def counts_def Let_def)

text \<open>What an evaluation does to the evaluator, apart from the level of the rules and the drained flag.\<close>

lemma count_allows_evaluator:
  "hb_evaluator (count_allows v b) = (hb_evaluator b)\<lparr>ev_rule_engine := ev_rule_engine (hb_evaluator (count_allows v b))\<rparr>"
  by (simp add: count_allows_def Let_def)

lemma count_allows_counts [simp]: "counts (hb_profile (count_allows v b)) = counts (hb_profile b)"
  by (simp add: count_allows_def counts_def Let_def)

lemma profile_after_evaluator:
  "\<exists>rules. snd (profile_after hl env v ev p) = ev\<lparr>ev_rationalization_block_occurred := False, ev_rule_engine := rules\<rparr>"
  by (simp add: profile_after_def drain_rationalization_blocked_def case_prod_beta Let_def) blast

lemma bus_evaluate_state:
  assumes "bus_evaluate lib hl env ctx (b, cache) = (v, b', cache')"
  obtains ev p ev1 where "blocking_evaluate lib hl env ctx (hb_evaluator b, cache) = (v, ev, cache')"
    "profile_after hl env v ev (hb_profile b) = (p, ev1)"
    "hb_evaluator b' = hb_evaluator (count_allows v (b\<lparr>hb_evaluator := ev1, hb_profile := p\<rparr>))"
    "counts (hb_profile b') = counts p"
proof -
  obtain v1 ev c1 where j: "blocking_evaluate lib hl env ctx (hb_evaluator b, cache) = (v1, ev, c1)" by (metis prod_cases3)
  obtain p ev1 where q: "profile_after hl env v1 ev (hb_profile b) = (p, ev1)" by (metis surj_pair)
  note out = assms[unfolded bus_evaluate_def Let_def prod.case j q]
  have v: "v1 = v" "c1 = cache'" using out by simp_all
  have b': "b' = bus_audit (evaluation_entry hl (he_time env) ctx v)
      (count_allows v (b\<lparr>hb_evaluator := ev1, hb_profile := p\<rparr>)\<lparr>hb_resilience_engine :=
         record_execution (he_now_ms env) ''harness-main'' (verdict_success v)
           (hb_resilience_engine (count_allows v (b\<lparr>hb_evaluator := ev1, hb_profile := p\<rparr>)))\<rparr>)"
    using out by auto
  show ?thesis by (rule that[OF j[unfolded v] q[unfolded v]]) (simp_all add: b')
qed

lemma bus_evaluate_evaluator:
  assumes "bus_evaluate lib hl env ctx (b, cache) = (v, b', cache')"
  obtains ev rules where "blocking_evaluate lib hl env ctx (hb_evaluator b, cache) = (v, ev, cache')"
    "hb_evaluator b' = ev\<lparr>ev_rationalization_block_occurred := False, ev_rule_engine := rules\<rparr>"
  using assms
proof (cases rule: bus_evaluate_state)
  case (1 ev p ev1)
  obtain rules where "ev1 = ev\<lparr>ev_rationalization_block_occurred := False, ev_rule_engine := rules\<rparr>"
    using profile_after_evaluator[of hl env v ev "hb_profile b"] 1(2) by auto
  then have "hb_evaluator b' = ev\<lparr>ev_rationalization_block_occurred := False, ev_rule_engine := ev_rule_engine (hb_evaluator b')\<rparr>"
    using 1(3) count_allows_evaluator[of v "b\<lparr>hb_evaluator := ev1, hb_profile := p\<rparr>"] by simp
  then show ?thesis using that 1(1) by blast
qed

lemma blocking_evaluate_runtime:
  assumes "blocking_evaluate lib hl env ctx (ev, cache) = (v, ev', cache')"
  shows "ev_runtime_control ev' = ev_runtime_control ev \<and> (should_escalate (ev_runtime_control ev) \<longrightarrow> (\<exists>d. v = HvDeny d)) \<or>
    should_escalate (ev_runtime_control ev) \<and> (\<exists>m. v = HvEscalate m 3) \<and>
      ev_runtime_control ev' =
        RuntimeControls.record_outcome (ee_rnd (he_eval env)) False (ee_elapsed_ms (he_eval env)) (ev_runtime_control ev) \<or>
    \<not> should_escalate (ev_runtime_control ev) \<and> v = HvAllow \<and>
      ev_runtime_control ev' =
        RuntimeControls.record_outcome (ee_rnd (he_eval env)) True (ee_elapsed_ms (he_eval env)) (ev_runtime_control ev)"
proof (cases "he_join_failed env")
  case True
  then show ?thesis using assms by (auto simp: blocking_evaluate_def join_error_verdict_def)
next
  case False
  then have "evaluate_policy (hl_float hl) (hl_join hl) lib (he_eval env) ctx (ev, cache) = (v, ev', cache')"
    using assms by (simp add: blocking_evaluate_def)
  then show ?thesis
  proof (cases rule: evaluate_policy_cases)
    case governed
    then show ?thesis using evaluate_governor_runtime[OF governed(5)] by auto
  qed auto
qed

lemma allow_recorded:
  assumes "blocking_evaluate lib hl env ctx (ev, cache) = (HvAllow, ev', cache')"
  shows "ev_runtime_control ev' =
    RuntimeControls.record_outcome (ee_rnd (he_eval env)) True (ee_elapsed_ms (he_eval env)) (ev_runtime_control ev)"
proof -
  have "evaluate_policy (hl_float hl) (hl_join hl) lib (he_eval env) ctx (ev, cache) = (HvAllow, ev', cache')"
    using assms by (auto simp: blocking_evaluate_def join_error_verdict_def split: if_splits)
  then show ?thesis
    by (cases rule: evaluate_policy_cases) (auto dest: evaluate_governor_runtime(1))
qed

lemma no_escalation:
  assumes "blocking_evaluate lib hl env ctx (ev, cache) = (v, ev', cache')" and "\<not> should_escalate (ev_runtime_control ev)"
  shows "v \<noteq> HvEscalate m l"
proof (cases "he_join_failed env")
  case True
  then show ?thesis using assms by (auto simp: blocking_evaluate_def join_error_verdict_def)
next
  case False
  then have "evaluate_policy (hl_float hl) (hl_join hl) lib (he_eval env) ctx (ev, cache) = (v, ev', cache')"
    using assms(1) by (simp add: blocking_evaluate_def)
  then show ?thesis
  proof (cases rule: evaluate_policy_cases)
    case governed
    then show ?thesis by (auto simp: evaluate_governor_def Let_def split: prod.splits sum.splits if_splits)
  qed (use assms(2) in auto)
qed

section \<open>The verdict in a run\<close>

definition bus_ok :: "'re regex_lib \<Rightarrow> harness_lib \<Rightarrow> harness_bus \<times> 're regex_cache \<Rightarrow> bool" where
  "bus_ok lib hl st \<longleftrightarrow>
     evaluator_static (hl_float hl) (hb_evaluator (fst st)) \<and> \<not> sg_poisoned (ev_security_governor (hb_evaluator (fst st))) \<and>
     SecurityGovernor.cache_ok lib (snd st) \<and> Hardening.cache_ok (ev_idempotency (hb_evaluator (fst st)))"

lemma evaluator_static_irrelevant [simp]:
  "evaluator_static fl (ev\<lparr>ev_rule_engine := r\<rparr>) = evaluator_static fl ev"
  "evaluator_static fl (ev\<lparr>ev_rationalization_block_occurred := f\<rparr>) = evaluator_static fl ev"
  "evaluator_static fl (ev\<lparr>ev_budget := t\<rparr>) = evaluator_static fl ev"
  "evaluator_static fl (ev\<lparr>ev_sandbox_level := l\<rparr>) = evaluator_static fl ev"
  "evaluator_static fl (ev\<lparr>ev_user_approved_tools := a\<rparr>) = evaluator_static fl ev"
  "evaluator_static fl (ev\<lparr>ev_rbac_enforcer := e\<rparr>) = evaluator_static fl ev"
  "evaluator_static fl (ev\<lparr>ev_idempotency := i\<rparr>) = evaluator_static fl ev"
  by (simp_all add: evaluator_static_def)

lemma blocking_evaluate_ok:
  assumes "float_laws (hl_float hl)" and "bus_ok lib hl (b, cache)"
    and "blocking_evaluate lib hl env ctx (hb_evaluator b, cache) = (v, ev, cache')"
  shows "evaluator_static (hl_float hl) ev \<and> \<not> sg_poisoned (ev_security_governor ev) \<and> SecurityGovernor.cache_ok lib cache' \<and>
    Hardening.cache_ok (ev_idempotency ev)"
proof (cases "he_join_failed env")
  case True
  then show ?thesis using assms by (simp add: blocking_evaluate_def bus_ok_def)
next
  case False
  then have e: "evaluate_policy (hl_float hl) (hl_join hl) lib (he_eval env) ctx (hb_evaluator b, cache) = (v, ev, cache')"
    using assms(3) by (simp add: blocking_evaluate_def)
  then show ?thesis
    using evaluate_policy_static[OF assms(1) _ _ e] evaluate_policy_idempotency[OF e] assms(2) by (simp add: bus_ok_def)
qed

lemma bus_step_ok:
  assumes "float_laws (hl_float hl)" and "bus_ok lib hl s" and "bus_step lib hl P s s'"
  shows "bus_ok lib hl s'"
  using assms(3)
proof (cases rule: bus_step.cases)
  case (bs_evaluate env ctx b cache v b' cache')
  from bs_evaluate(4) obtain ev rules where e: "blocking_evaluate lib hl env ctx (hb_evaluator b, cache) = (v, ev, cache')"
    and b': "hb_evaluator b' = ev\<lparr>ev_rationalization_block_occurred := False, ev_rule_engine := rules\<rparr>"
    by (rule bus_evaluate_evaluator)
  have "bus_ok lib hl (b, cache)" using assms(2) bs_evaluate(1) by simp
  from blocking_evaluate_ok[OF assms(1) this e] show ?thesis using bs_evaluate(2) b' by (simp add: bus_ok_def)
next
  case (bs_validate tx re now elapsed now_ms tool args b tv b' cache)
  obtain t where "snd (check_tool_call tx re now tool args (hb_evaluator b)) = (hb_evaluator b)\<lparr>ev_budget := t\<rparr>"
    using check_tool_call_state by blast
  then have "hb_evaluator b' = (hb_evaluator b)\<lparr>ev_budget := t\<rparr>"
    using bs_validate(3) by (auto simp: validate_action_def case_prod_beta Let_def)
  then show ?thesis using assms(2) bs_validate(1,2) by (simp add: bus_ok_def)
next
  case (bs_verify ts elapsed now_ms time outp stage b ov b' cache)
  obtain v ev where o: "verify_output (hl_float hl) ts outp stage (hb_evaluator b) = (v, ev)" by (metis surj_pair)
  then have "hb_evaluator b' = ev" using bs_verify(3) by (auto simp: bus_verify_output_def Let_def)
  then show ?thesis using assms(2) bs_verify(1,2) verify_output_state[OF o] by (simp add: bus_ok_def evaluator_static_def)
next
  case (bs_success b cache tx now tool args response)
  then show ?thesis
    using assms(2) cache_insert_ok
    by (auto simp: bus_ok_def bus_record_tool_success_def record_tool_success_def split: idempotency_policy.split)
qed (use assms(2) in \<open>simp_all add: bus_ok_def approve_tool_def revoke_tool_approval_def set_sandbox_level_def
  bus_set_rbac_enforcer_def set_rbac_enforcer_def\<close>)

interpretation harness: invariant_system "bus_step lib hl P" "\<lambda>s. float_laws (hl_float hl) \<and> bus_ok lib hl s" for lib hl P
  by unfold_locales (use bus_step_ok in blast)

lemma harness_bus_new_ok:
  assumes "Hardening.cache_ok idem"
  shows "bus_ok lib hl (harness_bus_new rules level budget idem control (guard_default (hl_float hl)) alog engine, [])"
proof -
  have "ev_idempotency (evaluator_new rules level budget idem control (guard_default (hl_float hl))) = idem"
    by (simp add: evaluator_new_def)
  then show ?thesis
    using assms evaluator_new_static evaluator_new_unpoisoned empty_cache_ok by (simp add: bus_ok_def harness_bus_new_def)
qed

text \<open>C35: However a bus has been used since it was made, an evaluation that runs to its end allows a task exactly when the
  time budget holds, the runtime controls do not ask for escalation, and the task has risk 0, touches no
  file and is no security patch; it refuses exactly when the time is over, escalates exactly when
  the runtime controls ask for it in time, and sends everything else to review.\<close>

theorem harness_verdict_exact:
  assumes "float_laws (hl_float hl)" and "Hardening.cache_ok idem"
    and "(bus_step lib hl P)\<^sup>*\<^sup>*
      (harness_bus_new rules level budget idem control (guard_default (hl_float hl)) alog engine, []) (b, cache)"
    and "\<not> he_join_failed env" and "bus_evaluate lib hl env ctx (b, cache) = (v, b', cache')"
  shows "(v = HvAllow \<longleftrightarrow> in_time (he_eval env) (hb_evaluator b) \<and> \<not> should_escalate (ev_runtime_control (hb_evaluator b)) \<and>
      cx_risk_score ctx = 0 \<and> cx_file_count ctx = 0 \<and> cx_task_type ctx \<noteq> PtSecurityPatch) \<and>
    ((\<exists>d. v = HvDeny d) \<longleftrightarrow> \<not> in_time (he_eval env) (hb_evaluator b)) \<and>
    ((\<exists>m l. v = HvEscalate m l) \<longleftrightarrow>
       in_time (he_eval env) (hb_evaluator b) \<and> should_escalate (ev_runtime_control (hb_evaluator b)))"
proof -
  have ok: "bus_ok lib hl (b, cache)"
    using harness.run_inv[OF assms(3)] harness_bus_new_ok[OF assms(2)] assms(1) by blast
  from assms(5) obtain ev where "blocking_evaluate lib hl env ctx (hb_evaluator b, cache) = (v, ev, cache')"
    by (rule bus_evaluate_evaluator)
  then have e: "evaluate_policy (hl_float hl) (hl_join hl) lib (he_eval env) ctx (hb_evaluator b, cache) = (v, ev, cache')"
    using assms(4) by (simp add: blocking_evaluate_def)
  have st: "evaluator_static (hl_float hl) (hb_evaluator b)" "SecurityGovernor.cache_ok lib cache"
    and np: "\<not> sg_poisoned (ev_security_governor (hb_evaluator b))"
    using ok by (simp_all add: bus_ok_def)
  show ?thesis using policy_verdict_value[OF assms(1) st e] np by auto
qed

section \<open>Runtime controls in a run\<close>

abbreviation runtime_of :: "harness_bus \<times> 're regex_cache \<Rightarrow> controller" where
  "runtime_of s \<equiv> ev_runtime_control (hb_evaluator (fst s))"

text \<open>The window records an allowed evaluation as a success and an escalation as a failure, and nothing else.\<close>

lemma bus_step_runtime:
  assumes "bus_step lib hl P s s'"
  shows "runtime_of s' = runtime_of s \<or>
    (\<exists>env. P env \<and> runtime_of s' =
       RuntimeControls.record_outcome (ee_rnd (he_eval env)) (\<not> should_escalate (runtime_of s)) (ee_elapsed_ms (he_eval env)) (runtime_of s))"
  using assms
proof (cases rule: bus_step.cases)
  case (bs_evaluate env ctx b cache v b' cache')
  from bs_evaluate(4) obtain ev rules where e: "blocking_evaluate lib hl env ctx (hb_evaluator b, cache) = (v, ev, cache')"
    and b': "hb_evaluator b' = ev\<lparr>ev_rationalization_block_occurred := False, ev_rule_engine := rules\<rparr>"
    by (rule bus_evaluate_evaluator)
  have "runtime_of s = ev_runtime_control (hb_evaluator b)" "runtime_of s' = ev_runtime_control ev"
    using bs_evaluate(1,2) b' by simp_all
  then show ?thesis using blocking_evaluate_runtime[OF e] bs_evaluate(3) by (metis (full_types))
next
  case (bs_validate tx re now elapsed now_ms tool args b tv b' cache)
  obtain t where "snd (check_tool_call tx re now tool args (hb_evaluator b)) = (hb_evaluator b)\<lparr>ev_budget := t\<rparr>"
    using check_tool_call_state by blast
  then have "hb_evaluator b' = (hb_evaluator b)\<lparr>ev_budget := t\<rparr>"
    using bs_validate(3) by (auto simp: validate_action_def case_prod_beta Let_def)
  then show ?thesis using bs_validate(1,2) by simp
next
  case (bs_verify ts elapsed now_ms time outp stage b ov b' cache)
  obtain v ev where w: "verify_output (hl_float hl) ts outp stage (hb_evaluator b) = (v, ev)" by (metis surj_pair)
  then have "hb_evaluator b' = ev" using bs_verify(3) by (auto simp: bus_verify_output_def Let_def)
  then show ?thesis using bs_verify(1,2) verify_output_state(1)[OF w] by simp
next
  case (bs_success b cache tx now tool args response)
  then show ?thesis by (simp add: bus_record_tool_success_def record_tool_success_def split: idempotency_policy.split)
qed (simp_all add: approve_tool_def revoke_tool_approval_def set_sandbox_level_def bus_set_rbac_enforcer_def set_rbac_enforcer_def)

text \<open>A controller that asks for escalation and, since only escalations follow, never stops to.\<close>

definition locked_in :: "controller \<Rightarrow> bool" where
  "locked_in c \<longleftrightarrow> 25 / 100 \<le> failure_rate c \<or> 15000 \<le> latency_p95_ms c \<and> length (oc_recent_failures c) \<le> 3"

lemma locked_in_escalates: "locked_in c \<Longrightarrow> should_escalate c"
  by (auto simp: locked_in_def should_escalate_def)

lemma locked_in_failure:
  assumes "locked_in c"
  shows "locked_in (RuntimeControls.record_outcome rnd False d c)"
proof (cases "25 / 100 \<le> failure_rate c")
  case True
  then show ?thesis using record_failure_keeps_rate[of c rnd d] by (simp add: locked_in_def)
next
  case False
  let ?w = "oc_recent_failures c"
  let ?f = "length (filter (\<lambda>x. x) ?w)"
  have len: "length ?w \<le> 3" using assms False by (simp add: locked_in_def)
  then have rate: "failure_rate (RuntimeControls.record_outcome rnd False d c) = real (?f + 1) / real (length ?w + 1)"
    by (simp add: failure_rate_def RuntimeControls.record_outcome_def push_signal_def ONLINE_CONTROLLER_WINDOW_def window_failure_rate_def)
  have "25 / 100 * real (length ?w + 1) \<le> real (?f + 1)" using len by simp
  then have "25 / 100 \<le> real (?f + 1) / real (length ?w + 1)" by (simp add: pos_le_divide_eq)
  then show ?thesis using rate by (simp add: locked_in_def)
qed

lemma bus_step_locked:
  assumes "locked_in (runtime_of s)" and "bus_step lib hl P s s'"
  shows "locked_in (runtime_of s')"
  using bus_step_runtime[OF assms(2)]
proof
  assume "runtime_of s' = runtime_of s"
  then show ?thesis using assms(1) by simp
next
  assume "\<exists>env. P env \<and> runtime_of s' =
    RuntimeControls.record_outcome (ee_rnd (he_eval env)) (\<not> should_escalate (runtime_of s)) (ee_elapsed_ms (he_eval env)) (runtime_of s)"
  then obtain env :: harness_env where "runtime_of s' =
      RuntimeControls.record_outcome (ee_rnd (he_eval env)) (\<not> should_escalate (runtime_of s)) (ee_elapsed_ms (he_eval env)) (runtime_of s)"
    by blast
  then show ?thesis using locked_in_failure[OF assms(1)] locked_in_escalates[OF assms(1)] by simp
qed

interpretation lock_in: invariant_system "bus_step lib hl P" "\<lambda>s. locked_in (runtime_of s)" for lib hl P
  by unfold_locales (rule bus_step_locked)

lemma slow_first_evaluation: "15000 \<le> d \<Longrightarrow> locked_in (RuntimeControls.record_outcome rnd success d controller_default)"
  by (simp add: locked_in_def RuntimeControls.record_outcome_def controller_default_def latency_estimator_default_def
      latency_estimator_new_def ONLINE_CONTROLLER_WINDOW_def record_latency_def latency_p95_ms_def p95_def p95_index_def push_signal_def
      Let_def)

text \<open>C36: One slow evaluation can close the harness for good: when the first evaluation of a bus is allowed after 15
  seconds or more, no later evaluation ever allows a task or sends it to review, whatever is done in
  between and however fast the evaluations are. Every escalation is recorded as a failure, and
  nothing else is recorded.\<close>

theorem slow_evaluation_locks_harness:
  assumes "ev_runtime_control (hb_evaluator b0) = controller_default"
    and "bus_evaluate lib hl env0 ctx0 (b0, cache0) = (HvAllow, b1, cache1)" and "15000 \<le> ee_elapsed_ms (he_eval env0)"
    and "(bus_step lib hl P)\<^sup>*\<^sup>* (b1, cache1) (b, cache)"
    and "bus_evaluate lib hl env ctx (b, cache) = (v, b', cache')"
  shows "(\<exists>d. v = HvDeny d) \<or> (\<exists>m. v = HvEscalate m 3)"
proof -
  from assms(2) obtain ev rules where e: "blocking_evaluate lib hl env0 ctx0 (hb_evaluator b0, cache0) = (HvAllow, ev, cache1)"
    and b1: "hb_evaluator b1 = ev\<lparr>ev_rationalization_block_occurred := False, ev_rule_engine := rules\<rparr>"
    by (rule bus_evaluate_evaluator)
  have "locked_in (runtime_of (b1, cache1))"
    using blocking_evaluate_runtime[OF e] slow_first_evaluation[OF assms(3)] allow_recorded[OF e] assms(1) b1 by simp
  then have l: "locked_in (runtime_of (b, cache))" using lock_in.run_inv[OF assms(4)] by blast
  from assms(5) obtain ev' where "blocking_evaluate lib hl env ctx (hb_evaluator b, cache) = (v, ev', cache')"
    by (rule bus_evaluate_evaluator)
  from blocking_evaluate_runtime[OF this] locked_in_escalates[OF l] show ?thesis by auto
qed

text \<open>The other side: a controller that saw only successes of less than 15 seconds.\<close>

definition only_quick :: "controller \<Rightarrow> bool" where
  "only_quick c \<longleftrightarrow> list_all Not (oc_recent_failures c) \<and> list_all (\<lambda>d. d < 15000) (le_samples (oc_latency_estimator c))"

lemma only_quick_calm:
  assumes "only_quick c"
  shows "\<not> should_escalate c"
proof -
  let ?xs = "le_samples (oc_latency_estimator c)"
  have "filter (\<lambda>x. x) (oc_recent_failures c) = []" using assms by (auto simp: only_quick_def filter_empty_conv list_all_iff)
  then have "failure_rate c = 0" by (simp add: failure_rate_def window_failure_rate_def)
  moreover have "latency_p95_ms c < 15000"
  proof (cases "?xs = []")
    case False
    then have "p95_index (length ?xs) < length (sort ?xs)" using p95_index_bounds(1)[of "length ?xs"] by simp
    from nth_mem[OF this] have "sort ?xs ! p95_index (length ?xs) \<in> set ?xs" by (simp only: set_sort)
    then show ?thesis using assms False by (simp add: latency_p95_ms_def p95_def only_quick_def list_all_iff)
  qed (simp add: latency_p95_ms_def p95_def)
  ultimately show ?thesis by (simp add: should_escalate_def)
qed

lemma list_all_update: "list_all Q xs \<Longrightarrow> Q x \<Longrightarrow> list_all Q (xs[i := x])"
  using set_update_subset_insert[of xs i x] by (auto simp: list_all_iff)

lemma only_quick_success:
  assumes "only_quick c" and "d < 15000"
  shows "only_quick (RuntimeControls.record_outcome rnd True d c)"
proof -
  let ?w = "oc_recent_failures c" and ?e = "oc_latency_estimator c"
  have w: "list_all Not ?w" and x: "list_all (\<lambda>d. d < 15000) (le_samples ?e)" using assms(1) by (simp_all add: only_quick_def)
  have "list_all Not (tl ?w)" using w by (cases ?w) simp_all
  then have "list_all Not (push_signal ?w True)" using w by (simp add: push_signal_def)
  moreover have "list_all (\<lambda>d. d < 15000) (le_samples (record_latency rnd d ?e))"
    using x assms(2) list_all_update[of "\<lambda>d. d < 15000" "le_samples ?e" d] by (simp add: record_latency_def Let_def)
  ultimately show ?thesis by (simp add: only_quick_def RuntimeControls.record_outcome_def)
qed

lemma bus_step_quick:
  assumes "only_quick (runtime_of s)" and "bus_step lib hl (\<lambda>env. ee_elapsed_ms (he_eval env) < 15000) s s'"
  shows "only_quick (runtime_of s')"
  using bus_step_runtime[OF assms(2)] only_quick_calm[OF assms(1)] only_quick_success[OF assms(1)] assms(1) by auto

interpretation quick: invariant_system "bus_step lib hl (\<lambda>env. ee_elapsed_ms (he_eval env) < 15000)"
  "\<lambda>s. only_quick (runtime_of s)" for lib hl
  by unfold_locales (rule bus_step_quick)

text \<open>As long as every evaluation takes less than 15 seconds, a bus with a fresh controller never escalates, however
  many tasks it refused or sent to review: these are not recorded.\<close>

theorem quick_harness_never_escalates:
  assumes "ev_runtime_control (hb_evaluator b0) = controller_default"
    and "(bus_step lib hl (\<lambda>env. ee_elapsed_ms (he_eval env) < 15000))\<^sup>*\<^sup>* (b0, cache0) (b, cache)"
    and "bus_evaluate lib hl env ctx (b, cache) = (v, b', cache')"
  shows "v \<noteq> HvEscalate m l"
proof -
  have "only_quick (runtime_of (b0, cache0))"
    using assms(1) by (simp add: only_quick_def controller_default_def latency_estimator_default_def latency_estimator_new_def)
  then have q: "only_quick (runtime_of (b, cache))" using quick.run_inv[OF assms(2)] by blast
  from assms(3) obtain ev' where "blocking_evaluate lib hl env ctx (hb_evaluator b, cache) = (v, ev', cache')"
    by (rule bus_evaluate_evaluator)
  then show ?thesis using no_escalation only_quick_calm[OF q] by simp
qed

section \<open>The counters in a run\<close>

definition accounts_ok :: "governance_profile \<Rightarrow> bool" where
  "accounts_ok p \<longleftrightarrow> gf_total_evaluations p = - 1 \<or>
     unat (gf_total_evaluations p) =
       unat (gf_allow_count p) + unat (gf_deny_count p) + unat (gf_escalate_count p) + unat (gf_review_count p) \<and>
     unat (gf_deny_count p) =
       unat (gf_red_line_blocks p) + unat (gf_budget_violations p) + unat (gf_rbac_denials p) + unat (gf_security_blocks p) +
       unat (gf_other_denials p)"

lemma accounts_ok_counts: "counts p = counts q \<Longrightarrow> accounts_ok p = accounts_ok q"
  by (simp add: counts_def accounts_ok_def)

lemma profile_after_counts:
  "counts (fst (profile_after hl env v ev p)) =
     counts (fst (count_verdict (hl_render hl) v (p\<lparr>gf_total_evaluations := saturating_succ (gf_total_evaluations p)\<rparr>, ev_rule_engine ev)))"
  by (cases v) (simp_all add: profile_after_def drain_rationalization_blocked_def refresh_profile_def count_verdict_def counts_def Let_def)

lemma unat_below_max: "unat (c :: u64) \<le> unat (n :: u64) \<Longrightarrow> n \<noteq> - 1 \<Longrightarrow> unat (c + 1) = unat c + 1 \<and> saturating_succ c = c + 1"
proof -
  assume le: "unat c \<le> unat n" and n: "n \<noteq> - 1"
  have "n < - 1" using n by (simp add: word_order.not_eq_extremum)
  moreover have "c \<le> n" using le by (simp add: word_le_nat_alt)
  ultimately have lt: "c < - 1" by (rule le_less_trans[rotated])
  then show ?thesis using unat_plus_one_less[OF lt] by (auto simp: saturating_succ_def)
qed

lemma count_verdict_accounts:
  assumes "accounts_ok p"
  shows "accounts_ok (fst (count_verdict render v (p\<lparr>gf_total_evaluations := saturating_succ (gf_total_evaluations p)\<rparr>, rules)))"
proof (cases "gf_total_evaluations p = - 1")
  case True
  then have "saturating_succ (gf_total_evaluations p) = - 1" by (simp add: saturating_succ_def)
  then show ?thesis by (cases v) (simp_all add: count_verdict_def accounts_ok_def Let_def)
next
  case False
  then have t: "unat (gf_total_evaluations p) =
       unat (gf_allow_count p) + unat (gf_deny_count p) + unat (gf_escalate_count p) + unat (gf_review_count p)"
    and d: "unat (gf_deny_count p) =
       unat (gf_red_line_blocks p) + unat (gf_budget_violations p) + unat (gf_rbac_denials p) + unat (gf_security_blocks p) +
       unat (gf_other_denials p)"
    using assms by (simp_all add: accounts_ok_def)
  note up = unat_below_max[OF _ False]
  have succ: "unat (c + 1) = unat c + 1" "saturating_succ c = c + 1"
    if "c \<in> set (counts p)" for c using up[of c] that t d by (auto simp: counts_def)
  note [simp] = succ[of "gf_total_evaluations p"] succ[of "gf_allow_count p"] succ[of "gf_deny_count p"] succ[of "gf_escalate_count p"]
    succ[of "gf_review_count p"] succ[of "gf_red_line_blocks p"] succ[of "gf_budget_violations p"] succ[of "gf_rbac_denials p"]
    succ[of "gf_security_blocks p"] succ[of "gf_other_denials p"]
  have mem: "gf_total_evaluations p \<in> set (counts p)" "gf_allow_count p \<in> set (counts p)" "gf_deny_count p \<in> set (counts p)"
    "gf_escalate_count p \<in> set (counts p)" "gf_review_count p \<in> set (counts p)" "gf_red_line_blocks p \<in> set (counts p)"
    "gf_budget_violations p \<in> set (counts p)" "gf_rbac_denials p \<in> set (counts p)" "gf_security_blocks p \<in> set (counts p)"
    "gf_other_denials p \<in> set (counts p)"
    by (simp_all add: counts_def)
  show ?thesis using t d mem by (cases v) (simp_all add: count_verdict_def accounts_ok_def Let_def)
qed

lemma bus_step_accounts:
  assumes "accounts_ok (hb_profile (fst s))" and "bus_step lib hl P s s'"
  shows "accounts_ok (hb_profile (fst s'))"
  using assms(2)
proof (cases rule: bus_step.cases)
  case (bs_evaluate env ctx b cache v b' cache')
  from bs_evaluate(4) show ?thesis
  proof (cases rule: bus_evaluate_state)
    case (1 ev p ev1)
    have "accounts_ok (fst (profile_after hl env v ev (hb_profile b)))"
      unfolding accounts_ok_counts[OF profile_after_counts]
      by (rule count_verdict_accounts) (use assms(1) bs_evaluate(1) in simp)
    then show ?thesis using 1(2) bs_evaluate(2) accounts_ok_counts[OF 1(4)] by simp
  qed
next
  case (bs_validate tx re now elapsed now_ms tool args b tv b' cache)
  have eq: "counts (hb_profile b') = counts (hb_profile b)"
    using bs_validate(3) by (auto simp: validate_action_def case_prod_beta counts_def Let_def)
  show ?thesis using assms(1) bs_validate(1,2) accounts_ok_counts[OF eq] by simp
next
  case (bs_verify ts elapsed now_ms time outp stage b ov b' cache)
  have eq: "counts (hb_profile b') = counts (hb_profile b)"
    using bs_verify(3) by (auto simp: bus_verify_output_def case_prod_beta Let_def)
  show ?thesis using assms(1) bs_verify(1,2) accounts_ok_counts[OF eq] by simp
next
  case (bs_audit b cache entry)
  then show ?thesis using assms(1) accounts_ok_counts[of "hb_profile (bus_audit entry b)" "hb_profile b"] by simp
qed (use assms(1) in \<open>simp_all add: bus_record_tool_success_def set_sandbox_level_def bus_set_rbac_enforcer_def\<close>)

interpretation accounting: invariant_system "bus_step lib hl P" "\<lambda>s. accounts_ok (hb_profile (fst s))" for lib hl P
  by unfold_locales (rule bus_step_accounts)

text \<open>C37: In every run of a new bus, until the counter of evaluations is at its maximum, the evaluations counted are
  those allowed, refused, escalated and sent to review, and the refusals are those counted for a red line, the
  budget, missing permissions, the security policy and other reasons.\<close>

theorem harness_profile_accounts:
  assumes "(bus_step lib hl P)\<^sup>*\<^sup>* (harness_bus_new rules level budget idem control guard alog engine, cache0) (b, cache)"
    and "gf_total_evaluations (hb_profile b) \<noteq> - 1"
  shows "unat (gf_total_evaluations (hb_profile b)) =
      unat (gf_allow_count (hb_profile b)) + unat (gf_deny_count (hb_profile b)) + unat (gf_escalate_count (hb_profile b)) +
      unat (gf_review_count (hb_profile b)) \<and>
    unat (gf_deny_count (hb_profile b)) =
      unat (gf_red_line_blocks (hb_profile b)) + unat (gf_budget_violations (hb_profile b)) +
      unat (gf_rbac_denials (hb_profile b)) + unat (gf_security_blocks (hb_profile b)) + unat (gf_other_denials (hb_profile b))"
proof -
  have "accounts_ok (hb_profile (fst (harness_bus_new rules level budget idem control guard alog engine, cache0)))"
    by (simp add: accounts_ok_def harness_bus_new_def governance_profile_default_def)
  from accounting.run_inv[OF assms(1) this] assms(2) show ?thesis by (simp add: accounts_ok_def)
qed

text \<open>The policy for an agent is derived from the default level, not from the level that is set at run time.\<close>

lemma agent_policy_ignores_level: "get_agent_policy agent task (set_sandbox_level level b) = get_agent_policy agent task b"
  by (simp add: get_agent_policy_def set_sandbox_level_def Let_def)

section \<open>Samples\<close>

definition sample_lib :: harness_lib where
  "sample_lib = \<lparr>hl_float = sample_floats, hl_join = (\<lambda>_. []), hl_render = (\<lambda>_. []), hl_debug = (\<lambda>_. [])\<rparr>"

definition sample_call :: "nat \<Rightarrow> harness_env" where
  "sample_call d =
     \<lparr>he_eval = sample_env\<lparr>ee_elapsed_ms := d\<rparr>, he_join_failed = False, he_total_ms = 0, he_now_ms = 0, he_time = []\<rparr>"

abbreviation sample_bus :: harness_bus where
  "sample_bus \<equiv> harness_bus_new (rule_engine_new (plan_default None)) SbNone (budget_tracker_new 0 task_budget_default)
     (idempotency_cache_new 3600000) controller_default (guard_default (hl_float sample_lib)) (audit_log_new 1)
     (engine_new 0 config_default)"

lemma sample_bus_fields:
  "ev_runtime_control (hb_evaluator sample_bus) = controller_default" "in_time (he_eval (sample_call d)) (hb_evaluator sample_bus)"
  "evaluator_static (hl_float sample_lib) (hb_evaluator sample_bus)" "\<not> sg_poisoned (ev_security_governor (hb_evaluator sample_bus))"
  "\<not> he_join_failed (sample_call d)" "ee_elapsed_ms (he_eval (sample_call d)) = d" "float_laws (hl_float sample_lib)"
  using evaluator_new_static evaluator_new_unpoisoned sample_floats_laws
  by (simp_all add: harness_bus_new_def evaluator_new_def in_time_def sample_call_def sample_env_def check_wall_clock_def
      budget_tracker_new_def sample_lib_def Let_def)

text \<open>A task without risk is allowed, however long the evaluation takes.\<close>

lemma sample_allowed:
  obtains b1 cache1 where "bus_evaluate sub_regex sample_lib (sample_call d) idle_task (sample_bus, []) = (HvAllow, b1, cache1)"
proof -
  obtain v b1 cache1 where e: "bus_evaluate sub_regex sample_lib (sample_call d) idle_task (sample_bus, []) = (v, b1, cache1)"
    by (metis prod_cases3)
  from e obtain ev where "blocking_evaluate sub_regex sample_lib (sample_call d) idle_task (hb_evaluator sample_bus, []) = (v, ev, cache1)"
    by (rule bus_evaluate_evaluator)
  then have p: "evaluate_policy (hl_float sample_lib) (hl_join sample_lib) sub_regex (he_eval (sample_call d)) idle_task
      (hb_evaluator sample_bus, []) = (v, ev, cache1)"
    using sample_bus_fields(5) by (simp add: blocking_evaluate_def)
  have "v = HvAllow"
    using policy_verdict_value[OF sample_bus_fields(7,3) empty_cache_ok p] sample_bus_fields(1,2,4) controller_default_calm
    by (simp add: idle_task_def)
  then show ?thesis using e that by blast
qed

lemma harness_verdict_exact_witness:
  "\<exists>m. fst (bus_evaluate sub_regex sample_lib (sample_call 1) (idle_task\<lparr>cx_file_count := 1\<rparr>) (sample_bus, [])) = HvReview m"
proof -
  obtain v b1 cache1 where e: "bus_evaluate sub_regex sample_lib (sample_call 1) (idle_task\<lparr>cx_file_count := 1\<rparr>) (sample_bus, []) =
      (v, b1, cache1)"
    by (metis prod_cases3)
  from harness_verdict_exact[OF sample_bus_fields(7) cache_new_ok rtranclp.rtrancl_refl sample_bus_fields(5) e]
  have "v \<noteq> HvAllow" "\<not> (\<exists>d. v = HvDeny d)" "\<not> (\<exists>m l. v = HvEscalate m l)"
    using sample_bus_fields(1,2) controller_default_calm by (simp_all add: idle_task_def)
  then show ?thesis using e by (cases v) auto
qed

lemma slow_evaluation_locks_harness_witness:
  "\<exists>b1 cache1. bus_evaluate sub_regex sample_lib (sample_call 15000) idle_task (sample_bus, []) = (HvAllow, b1, cache1) \<and>
     fst (bus_evaluate sub_regex sample_lib (sample_call 1) idle_task (b1, cache1)) \<noteq> HvAllow"
proof -
  obtain b1 cache1 where e: "bus_evaluate sub_regex sample_lib (sample_call 15000) idle_task (sample_bus, []) = (HvAllow, b1, cache1)"
    by (rule sample_allowed)
  obtain v b2 cache2 where e2: "bus_evaluate sub_regex sample_lib (sample_call 1) idle_task (b1, cache1) = (v, b2, cache2)"
    by (metis prod_cases3)
  have slow: "15000 \<le> ee_elapsed_ms (he_eval (sample_call 15000))" by (simp only: sample_bus_fields(6) order_refl)
  from slow_evaluation_locks_harness[OF sample_bus_fields(1) e slow rtranclp.rtrancl_refl e2] have "v \<noteq> HvAllow" by auto
  then show ?thesis using e e2 by auto
qed

lemma quick_harness_never_escalates_witness:
  "fst (bus_evaluate sub_regex sample_lib (sample_call 1) idle_task (sample_bus, [])) \<noteq> HvEscalate (Verbatim []) 3"
proof -
  obtain v b1 cache1 where e: "bus_evaluate sub_regex sample_lib (sample_call 1) idle_task (sample_bus, []) = (v, b1, cache1)"
    by (metis prod_cases3)
  from quick_harness_never_escalates[OF sample_bus_fields(1) rtranclp.rtrancl_refl e] show ?thesis using e by simp
qed

lemma harness_profile_accounts_witness:
  "\<exists>b1 cache1. bus_evaluate sub_regex sample_lib (sample_call 1) idle_task (sample_bus, []) = (HvAllow, b1, cache1) \<and>
     unat (gf_allow_count (hb_profile b1)) + unat (gf_deny_count (hb_profile b1)) + unat (gf_escalate_count (hb_profile b1)) +
     unat (gf_review_count (hb_profile b1)) = 1"
proof -
  obtain b1 cache1 where e: "bus_evaluate sub_regex sample_lib (sample_call 1) idle_task (sample_bus, []) = (HvAllow, b1, cache1)"
    by (rule sample_allowed)
  then have run: "(bus_step sub_regex sample_lib (\<lambda>_. True))\<^sup>*\<^sup>* (sample_bus, []) (b1, cache1)"
    by (intro r_into_rtranclp bs_evaluate) simp
  from e have total: "gf_total_evaluations (hb_profile b1) = 1"
  proof (cases rule: bus_evaluate_state)
    case (1 ev p ev1)
    have "counts (hb_profile b1) = counts (fst (profile_after sample_lib (sample_call 1) HvAllow ev (hb_profile sample_bus)))"
      using 1(2,4) by simp
    then have "hd (counts (hb_profile b1)) = saturating_succ (gf_total_evaluations (hb_profile sample_bus))"
      unfolding profile_after_counts by (simp add: count_verdict_def counts_def)
    then show ?thesis by (simp add: counts_def harness_bus_new_def governance_profile_default_def saturating_succ_def)
  qed
  then have "gf_total_evaluations (hb_profile b1) \<noteq> - 1" by simp
  from harness_profile_accounts[OF run this] e total show ?thesis by auto
qed

end
