(* ===== verification/Spec2Isabelle.thy ===== *)
theory Spec2Isabelle
  imports CommunicationBus ToolLock Bulkhead CronStore ExecutionGraph TaskDecomposer Rbac ApprovalChain
    ResilienceEngine FileDiff ResponseCache Council FaultStore SecurityGovernor Guardian ToolExecutor HarnessBus
begin

text \<open>
  A verification library for the core of go-on, a multi-agent orchestration server written in Rust.
  Paths below are relative to the directory \<open>src/\<close> of the crate.

  \<^bold>\<open>The program and its parts.\<close> A request becomes a task; the planner classifies it and turns it into a
  plan, which is a graph of steps (\<open>orchestration/\<close>). Steps are carried out by agents that form a tree
  and talk through a message bus (\<open>agents/communication/\<close>). Execution is limited by permits, slots and
  locks (\<open>governor.rs\<close>, \<open>agent_thread.rs\<close>, \<open>bulkhead.rs\<close>, \<open>tool/lock.rs\<close>), and jobs can be scheduled
  (\<open>schedule/cron.rs\<close>). Access is decided by roles and by hooks (\<open>governance/\<close>), calls to services are guarded
  by circuit breakers (\<open>resilience/\<close>), answers are cached (\<open>memory/cache.rs\<close>), actions are logged in a hash
  chain (\<open>security/audit_integrity.rs\<close>, \<open>governance/audit.rs\<close>), and agents decide together in a council
  (\<open>orchestration/council/\<close>). A tool call passes the mode's tool policy (\<open>orchestration/mode.rs\<close>), argument
  validation, the permission gate, listeners and hooks before it runs (\<open>orchestration/tool/\<close>).

  \<^bold>\<open>Theories.\<close>
  \<^item> \<open>Prelude\<close>: machine integers, hash maps as association lists with an explicit iteration order,
    strings, JSON values; the locales \<open>finite_map\<close> and \<open>invariant_system\<close>. \<open>TextOps\<close> adds the string
    operations of the planning code, \<open>Phases\<close> the locale \<open>phase_order\<close> that both phased schedulers
    meet, \<open>Semaphore\<close> the laws of the library semaphore.
  \<^item> \<open>AgentPath\<close> (\<open>path.rs\<close>), \<open>AgentMessage\<close> (\<open>message.rs\<close>), \<open>AgentTree\<close> (\<open>tree.rs\<close>, \<open>budget.rs\<close>,
    \<open>lifecycle.rs\<close>), \<open>AgentMessenger\<close> (\<open>messenger.rs\<close>), \<open>AgentControl\<close> (\<open>governor.rs\<close>,
    \<open>agent_thread.rs\<close>, \<open>context.rs\<close>, \<open>forker.rs\<close>) and \<open>CommunicationBus\<close> (\<open>bus.rs\<close>): the records have
    the fields of the structs, every public operation is one function that returns the new state,
    and step relations run them in any order. The lemmas show that the tree index stays well formed,
    that its loops end and return exactly the linked descendants or the registered ancestors, what a
    send leaves in the inboxes while other tasks use them, that counters and permits account for what happened, and that slot
    reservation is safe for every interleaving of its atomic steps.
  \<^item> \<open>ToolLock\<close> (\<open>orchestration/tool/lock.rs\<close>): the lock table refines a read/write lock specified on
    the multiset of live handles. \<open>Bulkhead\<close> (\<open>orchestration/bulkhead.rs\<close>): per-provider limits,
    isolation, and the race between the two lock sections.
  \<^item> \<open>CronStore\<close> (\<open>orchestration/schedule/cron.rs\<close>, \<open>cron_tick_loop\<close> of \<open>acp/background.rs\<close>): tables as
    lists of rows, each SQL statement as a list operation that may fail; no overlapping runs,
    schedules that only move forward, crash recovery, and what failing statements leave behind.
  \<^item> \<open>TaskPlanning\<close> (\<open>task_router.rs\<close>, \<open>planner_executor/mod.rs\<close>, \<open>brain_loop/plan_construction.rs\<close>),
    \<open>ExecutionGraph\<close> (\<open>core_dag.rs\<close>, \<open>planner_execution_graph.rs\<close>) and \<open>TaskDecomposer\<close>
    (\<open>task_decomposer.rs\<close>): plans are acyclic, the phased orders are topological and complete,
    execution of ready steps never gets stuck, and where progress reports and schedules go wrong.
  \<^item> \<open>Rbac\<close> (\<open>governance/rbac.rs\<close>): roles with inheritance and tenants; when access is allowed, and that
    permissions grow along the hierarchy. \<open>ApprovalChain\<close> (\<open>governance/approval_chain.rs\<close>): permission
    hooks, of which the first with an opinion decides, and the splitting of command lines.
  \<^item> \<open>CircuitBreaker\<close> and \<open>ResilienceEngine\<close> (\<open>resilience/hyper_resilience/\<close>): the breaker as a function on
    its counters, and the engine with breakers, health records, failover groups and healing; when a
    breaker opens and recovers, what a health check cycle changes, and the order of failovers.
  \<^item> \<open>AuditChain\<close> (\<open>security/audit_integrity.rs\<close>): the log file as text, with appends that may fail or tear;
    untouched logs verify, the last hash fixes the history, and which changes are not seen.
  \<^item> \<open>AuditLog\<close> (\<open>governance/audit.rs\<close>): redaction, the bounded buffer and queue, the writer thread with its two
    files, their rotation and clean-up; nothing exposed waits in the sink, the current chain and
    the archived ones verify, rotation overwrites nothing, and what redaction misses.
  \<^item> \<open>SecurityGovernor\<close> (\<open>governance/security_governor.rs\<close>): policies, verdicts and counters; the first policy that
    holds decides, whatever the cache of patterns holds, a registered catch-all overrides the default Allow, and the
    default set fails closed.
    \<open>Guardian\<close> (\<open>governance/guardian.rs\<close>): the review of tool actions; it fails closed, its breaker
    remembers exactly the last decisions, and lets go too early.
  \<^item> \<open>ModeRuntime\<close> (\<open>orchestration/mode.rs\<close>): tool sets, risk, checks and one run of a task; what the filter keeps,
    when a run reports failure, and which risks are not seen. \<open>GovernanceGate\<close>
    (\<open>orchestration/tool/governance_gate.rs\<close>, \<open>ensure_tool_permission\<close> of \<open>executor.rs\<close>): the cache of permission answers,
    and where the answers of calls that may overlap come from. \<open>ToolRegistry\<close> (\<open>orchestration/tool/types.rs\<close>, \<open>mod.rs\<close>,
    \<open>registration/core.rs\<close>, \<open>orchestration/registration.rs\<close>): names, aliases, guards and fallbacks, over a
    state of the world that tools change. \<open>ToolExecutor\<close> (\<open>orchestration/tool/executor.rs\<close>,
    \<open>orchestration/events/\<close>): what has to agree before a tool acts, the attempts and
    what one that a timeout drops leaves behind, and the breaker of a batch.
  \<^item> \<open>Hardening\<close> (\<open>governance/hardening.rs\<close>): task budgets, tenant quotas, the idempotency cache, sandbox levels; when a
    task may start, that a tenant stays within its slots while no task outlives the time-out of
    slots, and which insertions are still answered. \<open>ToolCapability\<close> (\<open>governance/tool_capability.rs\<close>): the table that classifies
    tools, and where its keyword fallbacks disagree. \<open>RuntimeControls\<close> (\<open>governance/runtime_controls.rs\<close>):
    outcome windows, the latency reservoir, rankings and the bandit over phases, with reals for
    floats. \<open>PuaRules\<close> (\<open>governance/pua.rs\<close>): enforcement plans, red lines, stages and escalation levels.
    \<open>DriftProtection\<close> (\<open>governance/drift/\<close>): metrics, thresholds and alerts; what a check raises.
  \<^item> \<open>PolicyEvaluator\<close> and \<open>HarnessBus\<close> (\<open>governance/harness_bus/\<close>, \<open>governance/rationalization.rs\<close>): the evaluator that asks
    budget, runtime controls, guard, security governor, sandbox and access control, and the bus that
    counts, escalates and audits. They compose the theories above: which tasks and tool calls are cleared in every run, that
    repeated calls get their recorded result, that the counters account for the evaluations, and how
    one slow evaluation closes the harness.
  \<^item> \<open>ResponseCache\<close> (\<open>memory/cache.rs\<close>): the table and the statements of both backends; they agree, the
    bound is restored by each put, and when a stored answer is found again.
  \<^item> \<open>Council\<close> (\<open>orchestration/council/\<close>): members, proposals, votes and reputation; what a tally
    decides, that decisions are final, and the bounds of reputation.
  \<^item> \<open>FaultDetector\<close>, \<open>FaultRecovery\<close> and \<open>FaultStore\<close> (\<open>fault_tolerance/\<close>): nodes with heartbeats, faults, isolation groups and recovery
    plans; what a heartbeat check and a recovery cycle do, which faults a plan clears, where
    recovery stops, and the round trip of the state through either storage.
  \<^item> \<open>FileDiff\<close> (\<open>builtin_diff\<close> of \<open>orchestration/tool/extended/diff.rs\<close>): the table, the backtracking loop, the
    grouping and the printing; the script is correct and minimal, the hunks are out of order.

  \<^bold>\<open>Modelling conventions.\<close> Integers are words of their width, except positions and lengths of
  lists and times that are only compared. Errors are values of a sum type; where the code formats a
  message that nothing reads, the error is a constructor with the values it mentions. Code outside
  the repository is an argument: the semaphore and its laws, the cron expression and JSON libraries
  with theirs, the language model; so are the clock, generated keys, the iteration order of hash maps,
  the failures of database statements, and what other tasks do while an operation waits. Loops that
  might not end are partial functions whose value \<open>None\<close> means divergence, and the theorems state that
  they return; the other loops are total functions with a measure. Fuel is used once, in the search for
  a free archive name, where one probe more than there are files is shown to be enough. Floating
  point numbers are sums of a few constants in tenths, values that are passed on, or, in the runtime
  controls and the policies, real numbers.

  \<^bold>\<open>Interfaces.\<close> \<open>finite_map\<close> is interpreted on the association lists; \<open>agent_directory\<close>, what the messenger
  needs of a registry, on the agent tree; \<open>invariant_system\<close> by the tree, the slot reservation, the
  lock table, the cron store, the planner bridge, the resilience engine, the audit chain, the audit sink, the response cache,
  the council, the fault engine, the tenant quotas, the permission gate and the harness bus; \<open>phase_order\<close> by the planner's plans and by the
  rule-based decompositions; \<open>codec\<close>, encoders with their decoders, on numbers, identifiers and database integers.

  \<^bold>\<open>Not modelled.\<close> Watch channels (only the value they hold), log output, timeouts that only delay, the
  floating point success prediction of the router, prompts, and the components listed as such in
  the manifest: request handlers, providers, stores, protocols, user interfaces.

  \<^bold>\<open>Plan.\<close> Next: session handling, role routing and flow selection, the learning records of \<open>pua.rs\<close>.
\<close>

section \<open>Reviewed tools\<close>

text \<open>C4: The executor and the guardian together: when the guardian's hook is among the hooks of a call and the call
  changes anything in the world, then the arguments were valid, a call that needs the
  permission gate was approved by it, the breaker was not tripped, and the reviewer answered with
  allow.\<close>

theorem executed_tool_was_reviewed:
  assumes "guardian_pre_execute al timeout result now name input (b, l) = (answer, b', l')"
    and "answer \<in> set (xe_hook_results env)" and "\<not> xe_hooks_poisoned env"
    and "execute_single_tool env bus r cfg name args objective iteration st = (item, st')"
    and "xs_world st' \<noteq> xs_world st"
  shows "xe_args_valid env \<and> \<not> should_skip_review b \<and> (\<exists>reply. result = Reply reply \<and> approves reply) \<and>
    (xc_governance_required cfg \<and> (xc_is_safeguard cfg \<or> \<not> is_low_risk_tool name) \<longrightarrow>
       fst (ensure_tool_permission (xe_gate env) (xe_server env) (xc_session_id cfg) name args (xs_gate st)))"
proof -
  have c: "cleared env bus r cfg name args (xs_gate st)"
    using execute_single_tool_cases[OF assms(4)] assms(5) by (auto split: if_splits)
  then have "answer = Inr ()" using assms(2,3) pre_hooks_ok by (auto simp: cleared_def)
  then show ?thesis
    using guardian_hook_cases[OF assms(1)] c by (auto simp: cleared_def gate_approves_def split: if_splits)
qed

lemma executed_tool_was_reviewed_witness:
  "approves ''allow'' \<and>
   xs_world (snd (execute_single_tool
     (open_env [fst (guardian_pre_execute exact_alloc 90000 (Reply ''allow'') ''now'' ''t'' sample_input
                 (guardian_breaker_default exact_alloc, audit_log_new 1))])
     event_bus_new (register_tool ''t'' counting_tool (registry_new_empty {})) exec_config_default ''t'' JNull ''o'' 1
     \<lparr>xs_gate = ([], []), xs_events = [], xs_world = 0\<rparr>)) = 1"
proof -
  let ?g = "guardian_pre_execute exact_alloc 90000 (Reply ''allow'') ''now'' ''t'' sample_input
      (guardian_breaker_default exact_alloc, audit_log_new 1)"
  let ?r = "register_tool ''t'' counting_tool (registry_new_empty {})"
  let ?st = "\<lparr>xs_gate = ([], []), xs_events = [], xs_world = 0 :: nat\<rparr>"
  let ?x = "execute_single_tool (open_env [fst ?g]) event_bus_new ?r exec_config_default ''t'' JNull ''o'' 1 ?st"
  have "is_allowed (parse_decision ''allow'')" "\<not> should_skip_review (guardian_breaker_default exact_alloc)" by code_simp+
  then have ok: "fst ?g = Inr ()"
    using guardian_hook_cases[of exact_alloc 90000 "Reply ''allow''" "''now''" "''t''" sample_input
        "guardian_breaker_default exact_alloc" "audit_log_new 1" "fst ?g" "fst (snd ?g)" "snd (snd ?g)"]
    by (simp add: parse_allowed_iff)
  have w: "xs_world (snd ?x) = 1" unfolding ok by code_simp
  have "\<exists>reply. Reply ''allow'' = Reply reply \<and> approves reply"
    using executed_tool_was_reviewed[of exact_alloc 90000 "Reply ''allow''" "''now''" "''t''" sample_input
        "guardian_breaker_default exact_alloc" "audit_log_new 1" "fst ?g" "fst (snd ?g)" "snd (snd ?g)" "open_env [fst ?g]"
        event_bus_new ?r exec_config_default JNull "''o''" 1 ?st "fst ?x" "snd ?x"] w
    by (simp add: open_env_def)
  with w show ?thesis by blast
qed

end
